(* ===== verification/Prelude.thy ===== *)
theory Prelude
  imports Main "HOL-Library.Word" "HOL-Library.Monad_Syntax"
begin

text \<open>
  Shared vocabulary: the machine types the C code uses, characters as code points, the
  character classes of \<^verbatim>\<open>wctype.h\<close> in the ``C'' locale (the host program is a Rust binary
  that never calls \<^verbatim>\<open>setlocale\<close>), and the list and option facts the components share.

  Throughout the development a value of type \<open>'a option\<close> that stands for the outcome of a
  C call is \<open>None\<close> when control does not come back from the call with a value: the C code
  calls \<^verbatim>\<open>abort\<close>, fails an \<^verbatim>\<open>assert\<close>, touches memory out of bounds or loops for ever.
  A theorem that a call returns \<open>Some\<close> excludes all of these.
\<close>

named_theorems lexer_simps \<open>how lexer operations act on the view of the input\<close>
named_theorems ctype_simps \<open>character classes on the terminating zero\<close>

type_synonym byte = "8 word"
type_synonym code = "32 word"

abbreviation ch :: "char \<Rightarrow> code" where
  "ch c \<equiv> of_char c"

abbreviation codes :: "string \<Rightarrow> code list" where
  "codes s \<equiv> map of_char s"

text \<open>Arithmetic on \<^verbatim>\<open>uint32_t\<close> values held in \<open>nat\<close>, with the wrap-around written out.\<close>

definition u32 :: "nat \<Rightarrow> nat" where
  "u32 n = n mod 2 ^ 32"

lemma u32_small [simp]: "n < 4294967296 \<Longrightarrow> u32 n = n"
  by (simp add: u32_def)

lemma u32_less [simp]: "u32 n < 4294967296"
  by (simp add: u32_def)

definition u32_sub :: "nat \<Rightarrow> nat \<Rightarrow> nat" where
  "u32_sub a b = u32 (a + (2 ^ 32 - u32 b))"

lemma u32_sub [simp]: "b \<le> a \<Longrightarrow> a < 4294967296 \<Longrightarrow> u32_sub a b = a - b"
proof -
  assume a: "b \<le> a" "a < 4294967296"
  then have "u32_sub a b = u32 ((a - b) + 2 ^ 32)" by (simp add: u32_sub_def)
  also have "\<dots> = (a - b) mod 2 ^ 32" by (simp only: u32_def mod_add_self2)
  finally show ?thesis using a by simp
qed

lemma u32_sub_borrow [simp]: "u32_sub 0 (Suc 0) = 4294967295"
  by (simp add: u32_sub_def)

text \<open>The classes and the case mapping of \<^verbatim>\<open>wctype.h\<close> in the ``C'' locale.\<close>

definition iswspace :: "code \<Rightarrow> bool" where
  "iswspace c \<longleftrightarrow> c = 32 \<or> (9 \<le> c \<and> c \<le> 13)"

definition iswdigit :: "code \<Rightarrow> bool" where
  "iswdigit c \<longleftrightarrow> ch CHR ''0'' \<le> c \<and> c \<le> ch CHR ''9''"

definition iswalpha :: "code \<Rightarrow> bool" where
  "iswalpha c \<longleftrightarrow> (ch CHR ''a'' \<le> c \<and> c \<le> ch CHR ''z'') \<or> (ch CHR ''A'' \<le> c \<and> c \<le> ch CHR ''Z'')"

definition iswalnum :: "code \<Rightarrow> bool" where
  "iswalnum c \<longleftrightarrow> iswalpha c \<or> iswdigit c"

definition towupper :: "code \<Rightarrow> code" where
  "towupper c = (if ch CHR ''a'' \<le> c \<and> c \<le> ch CHR ''z'' then c - 32 else c)"

lemma ctype_zero [ctype_simps, simp]:
  "\<not> iswspace 0" "\<not> iswdigit 0" "\<not> iswalpha 0" "\<not> iswalnum 0" "towupper 0 = 0"
  by (simp_all add: iswspace_def iswdigit_def iswalpha_def iswalnum_def towupper_def)

text \<open>
  A call returns. The rules follow the shape of the model's definitions, so \<open>intro returns\<close>
  reduces a function to the calls it makes.
\<close>

definition returns :: "'a option \<Rightarrow> bool" where
  "returns m \<longleftrightarrow> m \<noteq> None"

lemma returns_ex: "returns m \<longleftrightarrow> (\<exists>x. m = Some x)"
  by (auto simp: returns_def)

lemma returns_Some: "returns (Some x)"
  by (simp add: returns_def)

lemma returns_bind: "returns m \<Longrightarrow> (\<And>x. m = Some x \<Longrightarrow> returns (f x)) \<Longrightarrow> returns (m \<bind> f)"
  by (cases m) (simp_all add: returns_def)

lemma returns_map: "returns m \<Longrightarrow> returns (map_option f m)"
  by (simp add: returns_def)

lemma returns_if: "(b \<Longrightarrow> returns m) \<Longrightarrow> (\<not> b \<Longrightarrow> returns n) \<Longrightarrow> returns (if b then m else n)"
  by simp

lemma returns_prod: "(\<And>a b. p = (a, b) \<Longrightarrow> returns (f a b)) \<Longrightarrow> returns (case p of (a, b) \<Rightarrow> f a b)"
  by (cases p) simp

lemma returns_sum:
  "(\<And>a. x = Inl a \<Longrightarrow> returns (f a)) \<Longrightarrow> (\<And>b. x = Inr b \<Longrightarrow> returns (g b)) \<Longrightarrow>
     returns (case x of Inl a \<Rightarrow> f a | Inr b \<Rightarrow> g b)"
  by (cases x) simp_all

lemmas returns = returns_Some returns_bind returns_map returns_if returns_prod returns_sum

text \<open>A call returns a value of a kind.\<close>

definition gives :: "('a \<Rightarrow> bool) \<Rightarrow> 'a option \<Rightarrow> bool" where
  "gives P m \<longleftrightarrow> (\<exists>x. m = Some x \<and> P x)"

lemma gives_Some [simp]: "gives P (Some x) \<longleftrightarrow> P x"
  by (simp add: gives_def)

lemma gives_bind: "gives (\<lambda>x. gives P (f x)) m \<Longrightarrow> gives P (m \<bind> f)"
  by (auto simp: gives_def)

lemma gives_mono: "gives P m \<Longrightarrow> (\<And>x. P x \<Longrightarrow> Q x) \<Longrightarrow> gives Q m"
  by (auto simp: gives_def)

lemma gives_bind_prod:
  "gives Q m \<Longrightarrow> (\<And>a b. Q (a, b) \<Longrightarrow> gives P (f a b)) \<Longrightarrow> gives P (m \<bind> (\<lambda>(a, b). f a b))"
  by (auto simp: gives_def)

text \<open>Facts on lists.\<close>

lemma take_update_end [simp]:
  "n < length xs \<Longrightarrow> take (Suc n) (xs[n := x]) = take n xs @ [x]"
  by (simp add: take_Suc_conv_app_nth)

lemma butlast_take_Suc: "n < length xs \<Longrightarrow> butlast (take (Suc n) xs) = take n xs"
  by (simp add: take_Suc_conv_app_nth)

lemma map_the_map_Some [simp]: "map the (map Some xs) = xs"
  by (induction xs) auto

lemma those_map_Some [simp]: "those (map Some xs) = Some xs"
  by (induction xs) auto

lemma in_set_tlD: "x \<in> set (tl xs) \<Longrightarrow> x \<in> set xs"
  by (cases xs) auto

lemma dropWhile_length_le [simp]: "length (dropWhile P xs) \<le> length xs"
  by (rule length_dropWhile_le)

text \<open>A strictly increasing list of bounded naturals is short.\<close>

lemma strict_sorted_length_bound:
  fixes xs :: "nat list"
  assumes "sorted_wrt (<) xs" and "\<forall>x \<in> set xs. x < n"
  shows "length xs \<le> n"
proof -
  have "distinct xs" using assms(1) by (simp add: strict_sorted_iff)
  then have "length xs = card (set xs)" by (simp add: distinct_card)
  also have "\<dots> \<le> card {..<n}" using assms(2) by (intro card_mono) auto
  finally show ?thesis by simp
qed

end
