(* ===== verification/TsLexer.thy ===== *)
theory TsLexer
  imports Prelude
begin

text \<open>
  The interface between an external scanner and the tree-sitter runtime:
  \<^verbatim>\<open>struct TSLexer\<close> of \<^verbatim>\<open>tree_sitter/parser.h\<close>. The runtime itself is not part of the
  repository, so the functions behind the struct's pointers are a parameter, the record
  \<open>lexer_api\<close>, and the scanners take it as an argument. The locale \<open>ts_lexer\<close> states what the
  tree-sitter documentation promises of them: \<^verbatim>\<open>lookahead\<close> is the current code point and 0
  at the end of the input, \<^verbatim>\<open>advance\<close> moves to the next one (and stays at the end),
  \<^verbatim>\<open>mark_end\<close> sets the end of the token at the current position, \<^verbatim>\<open>eof\<close> tells the end of
  the input from a NUL in it. It is stated through a \<open>view\<close> of the runtime's state: the code
  points still to come, how many were consumed and where the token ends.
\<close>

record 'l lexer_api =
  api_lookahead :: "'l \<Rightarrow> code"
  api_advance :: "'l \<Rightarrow> bool \<Rightarrow> 'l"
  api_mark_end :: "'l \<Rightarrow> 'l"
  api_eof :: "'l \<Rightarrow> bool"

text \<open>
  The struct as a scanner sees it: the runtime's state and the \<^verbatim>\<open>result_symbol\<close> field, which always
  holds a value: the runtime's before the scanner writes its own.
\<close>

record ('l, 't) tslexer =
  runtime :: 'l
  result_symbol :: 't

definition lookahead :: "'l lexer_api \<Rightarrow> ('l, 't) tslexer \<Rightarrow> code" where
  "lookahead A lx = api_lookahead A (runtime lx)"

definition eof :: "'l lexer_api \<Rightarrow> ('l, 't) tslexer \<Rightarrow> bool" where
  "eof A lx = api_eof A (runtime lx)"

definition lex_advance :: "'l lexer_api \<Rightarrow> bool \<Rightarrow> ('l, 't) tslexer \<Rightarrow> ('l, 't) tslexer" where
  "lex_advance A sk lx = lx\<lparr>runtime := api_advance A (runtime lx) sk\<rparr>"

definition mark_end :: "'l lexer_api \<Rightarrow> ('l, 't) tslexer \<Rightarrow> ('l, 't) tslexer" where
  "mark_end A lx = lx\<lparr>runtime := api_mark_end A (runtime lx)\<rparr>"

text \<open>The helpers \<^verbatim>\<open>advance\<close> and \<^verbatim>\<open>skip\<close> every scanner defines.\<close>

definition advance :: "'l lexer_api \<Rightarrow> ('l, 't) tslexer \<Rightarrow> ('l, 't) tslexer" where
  "advance A lx = lex_advance A False lx"

definition skip :: "'l lexer_api \<Rightarrow> ('l, 't) tslexer \<Rightarrow> ('l, 't) tslexer" where
  "skip A lx = lex_advance A True lx"

definition set_symbol :: "'t \<Rightarrow> ('l, 't) tslexer \<Rightarrow> ('l, 't) tslexer" where
  "set_symbol t lx = lx\<lparr>result_symbol := t\<rparr>"

text \<open>The loop \<^verbatim>\<open>while (P(lexer->lookahead)) lexer->advance(lexer, sk)\<close>.\<close>

partial_function (option) advance_while ::
  "'l lexer_api \<Rightarrow> bool \<Rightarrow> (code \<Rightarrow> bool) \<Rightarrow> ('l, 't) tslexer \<Rightarrow> ('l, 't) tslexer option" where
  "advance_while A sk P lx =
     (if P (lookahead A lx) then advance_while A sk P (lex_advance A sk lx) else Some lx)"

lemma result_symbol_ops [simp]:
  "result_symbol (lex_advance A sk lx) = result_symbol lx"
  "result_symbol (advance A lx) = result_symbol lx"
  "result_symbol (skip A lx) = result_symbol lx"
  "result_symbol (mark_end A lx) = result_symbol lx"
  "result_symbol (set_symbol t lx) = t"
  by (simp_all add: lex_advance_def advance_def skip_def mark_end_def set_symbol_def)

lemma lookahead_set_symbol [simp]:
  "lookahead A (set_symbol t lx) = lookahead A lx" "eof A (set_symbol t lx) = eof A lx"
  by (simp_all add: lookahead_def eof_def set_symbol_def)

subsection \<open>The promises of the runtime\<close>

record lex_view =
  todo :: "code list"
  seen :: nat
  tok_end :: nat

fun peek :: "code list \<Rightarrow> code" where
  "peek [] = 0"
| "peek (c # cs) = c"

definition v_advance :: "lex_view \<Rightarrow> lex_view" where
  "v_advance v = (case todo v of [] \<Rightarrow> v | c # cs \<Rightarrow> v\<lparr>todo := cs, seen := Suc (seen v)\<rparr>)"

definition v_mark :: "lex_view \<Rightarrow> lex_view" where
  "v_mark v = v\<lparr>tok_end := seen v\<rparr>"

definition v_skip :: "nat \<Rightarrow> lex_view \<Rightarrow> lex_view" where
  "v_skip n v = v\<lparr>todo := drop n (todo v), seen := seen v + min n (length (todo v))\<rparr>"

locale ts_lexer =
  fixes A :: "'l lexer_api"
    and view :: "'l \<Rightarrow> lex_view"
  assumes api_look: "api_lookahead A l = peek (todo (view l))"
    and api_eof: "api_eof A l \<longleftrightarrow> todo (view l) = []"
    and api_adv: "view (api_advance A l sk) = v_advance (view l)"
    and api_mark: "view (api_mark_end A l) = v_mark (view l)"
begin

definition vw :: "('l, 't) tslexer \<Rightarrow> lex_view" where
  "vw lx = view (runtime lx)"

lemma vw_ops [lexer_simps, simp]:
  "vw (lex_advance A sk lx) = v_advance (vw lx)"
  "vw (advance A lx) = v_advance (vw lx)"
  "vw (skip A lx) = v_advance (vw lx)"
  "vw (mark_end A lx) = v_mark (vw lx)"
  "vw (set_symbol t lx) = vw lx"
  by (simp_all add: vw_def lex_advance_def advance_def skip_def mark_end_def set_symbol_def
      api_adv api_mark)

lemma look_vw [lexer_simps, simp]:
  "lookahead A lx = peek (todo (vw lx))" "eof A lx \<longleftrightarrow> todo (vw lx) = []"
  by (simp_all add: vw_def lookahead_def eof_def api_look api_eof)

end

lemma todo_v_ops [simp]:
  "todo (v_advance v) = tl (todo v)"
  "tok_end (v_advance v) = tok_end v"
  "todo (v_mark v) = todo v" "seen (v_mark v) = seen v" "tok_end (v_mark v) = seen v"
  "todo (v_skip n v) = drop n (todo v)"
  "tok_end (v_skip n v) = tok_end v"
  "seen (v_skip n v) = seen v + min n (length (todo v))"
  by (auto simp: v_advance_def v_mark_def v_skip_def split: list.splits)

lemma seen_v_advance: "seen (v_advance v) = (if todo v = [] then seen v else Suc (seen v))"
  by (auto simp: v_advance_def split: list.splits)

lemma seen_v_advance_Cons [simp]: "todo v \<noteq> [] \<Longrightarrow> seen (v_advance v) = Suc (seen v)"
  by (simp add: seen_v_advance)

lemma v_skip_0 [simp]: "v_skip 0 v = v"
  by (simp add: v_skip_def)

lemma v_skip_advance [simp]: "v_skip n (v_advance v) = v_skip (Suc n) v"
  by (cases "todo v") (auto simp: v_skip_def v_advance_def)

lemma v_advance_skip: "v_advance v = v_skip 1 v"
  by (cases "todo v") (auto simp: v_skip_def v_advance_def)

lemma v_skip_skip [simp]: "v_skip m (v_skip n v) = v_skip (n + m) v"
  by (simp add: v_skip_def min_def algebra_simps)

lemma v_advance_v_skip [simp]: "v_advance (v_skip n v) = v_skip (Suc n) v"
  by (simp add: v_advance_skip)

lemma peek_nonzero: "peek cs \<noteq> 0 \<Longrightarrow> cs \<noteq> []"
  by auto

lemma peek_drop: "n < length cs \<Longrightarrow> peek (drop n cs) = cs ! n"
  by (simp add: Cons_nth_drop_Suc [symmetric])

context ts_lexer
begin

text \<open>The skipping loop stops: the class must not contain the zero shown at the end.\<close>

lemma advance_while_Some:
  assumes "\<not> P 0"
  shows "\<exists>lx'. advance_while A sk P lx = Some lx' \<and>
    vw lx' = v_skip (length (takeWhile P (todo (vw lx)))) (vw lx) \<and>
    result_symbol lx' = result_symbol lx"
proof (induction "todo (vw lx)" arbitrary: lx)
  case Nil
  then show ?case using assms by (simp add: advance_while.simps)
next
  case (Cons c cs)
  then have lx: "todo (vw lx) = c # cs" by simp
  show ?case
  proof (cases "P c")
    case False
    with lx show ?thesis by (simp add: advance_while.simps)
  next
    case True
    have "cs = todo (vw (lex_advance A sk lx))" using lx by simp
    from Cons.hyps(1) [OF this] True lx show ?thesis
      by (auto simp: advance_while.simps [of A sk P lx])
  qed
qed

end

subsection \<open>A lexer over a list of code points\<close>

text \<open>
  The promises can be kept: a lexer whose state is the view itself. It is the concrete
  runtime at which the theorems about the scanners are evaluated.
\<close>

definition list_api :: "lex_view lexer_api" where
  "list_api = \<lparr>api_lookahead = (\<lambda>v. peek (todo v)), api_advance = (\<lambda>v _. v_advance v),
     api_mark_end = v_mark, api_eof = (\<lambda>v. todo v = [])\<rparr>"

interpretation list_lexer: ts_lexer list_api "\<lambda>v. v"
  by unfold_locales (simp_all add: list_api_def)

text \<open>The scanners do not read \<^verbatim>\<open>result_symbol\<close>, so its first value is left open.\<close>

definition lex_text :: "code list \<Rightarrow> (lex_view, 't) tslexer" where
  "lex_text cs = \<lparr>runtime = \<lparr>todo = cs, seen = 0, tok_end = 0\<rparr>, result_symbol = undefined\<rparr>"

lemma lex_text_view [simp]: "list_lexer.vw (lex_text cs) = \<lparr>todo = cs, seen = 0, tok_end = 0\<rparr>"
  by (simp add: list_lexer.vw_def lex_text_def)

lemmas lexer_defs = lookahead_def eof_def advance_def skip_def lex_advance_def mark_end_def
  set_symbol_def list_api_def lex_text_def v_advance_def v_mark_def

end
