(* ===== verification/TsArray.thy ===== *)
theory TsArray
  imports Prelude
begin

text \<open>
  The growable array of \<^verbatim>\<open>tree_sitter/array.h\<close>, which the Kotlin and Blade scanners keep
  their state in. The three fields are modelled as they are: the allocated cells (\<open>None\<close>: a cell
  that was never written), the number of live elements and the capacity, both \<^verbatim>\<open>uint32_t\<close>.
  Every access is checked against the allocated cells, so an out-of-bounds access, an underflow
  of \<^verbatim>\<open>--size\<close> and a failed \<^verbatim>\<open>assert\<close> are the value \<open>None\<close>. The allocator is taken to succeed
  (the header never checks it).

  \<open>arr_list\<close> reads the array as a list; the lemmas show that every operation is the list
  operation it stands for, and that it keeps \<open>arr_ok\<close>.
\<close>

record 'a arr =
  contents :: "'a option list"
  size :: nat
  capacity :: nat

definition array_new :: "'a arr" where
  "array_new = \<lparr>contents = [], size = 0, capacity = 0\<rparr>"

definition array_init :: "'a arr \<Rightarrow> 'a arr" where
  "array_init a = a\<lparr>size := 0, capacity := 0, contents := []\<rparr>"

definition read_cell :: "'a arr \<Rightarrow> nat \<Rightarrow> 'a option" where
  "read_cell a i = (if i < length (contents a) then contents a ! i else None)"

definition array_get :: "'a arr \<Rightarrow> nat \<Rightarrow> 'a option" where
  "array_get a i = (if u32 i < size a then read_cell a i else None)"

definition array_front :: "'a arr \<Rightarrow> 'a option" where
  "array_front a = array_get a 0"

definition array_back :: "'a arr \<Rightarrow> 'a option" where
  "array_back a = array_get a (u32_sub (size a) 1)"

definition array_clear :: "'a arr \<Rightarrow> 'a arr" where
  "array_clear a = a\<lparr>size := 0\<rparr>"

definition array_delete :: "'a arr \<Rightarrow> 'a arr" where
  "array_delete a = a\<lparr>contents := [], size := 0, capacity := 0\<rparr>"

text \<open>\<^verbatim>\<open>realloc\<close> keeps the old cells; the new ones are not written.\<close>

definition array_reserve :: "'a arr \<Rightarrow> nat \<Rightarrow> 'a arr" where
  "array_reserve a new_capacity =
     (if new_capacity > capacity a
      then a\<lparr>contents := contents a @ replicate (new_capacity - length (contents a)) None,
             capacity := new_capacity\<rparr>
      else a)"

definition array_grow :: "'a arr \<Rightarrow> nat \<Rightarrow> 'a arr" where
  "array_grow a count =
     (let new_size = u32 (size a + count)
      in if new_size > capacity a
         then let c0 = u32 (capacity a * 2);
                  c1 = (if c0 < 8 then 8 else c0);
                  c2 = (if c1 < new_size then new_size else c1)
              in array_reserve a c2
         else a)"

text \<open>Copying \<open>xs\<close> to the cells from \<open>i\<close> on (\<^verbatim>\<open>memcpy\<close>, \<^verbatim>\<open>memset\<close>, an assignment).\<close>

definition write_cells :: "'a arr \<Rightarrow> nat \<Rightarrow> 'a option list \<Rightarrow> 'a arr option" where
  "write_cells a i xs =
     (if i + length xs \<le> length (contents a)
      then Some (a\<lparr>contents := take i (contents a) @ xs @ drop (i + length xs) (contents a)\<rparr>)
      else None)"

definition array_push :: "'a arr \<Rightarrow> 'a \<Rightarrow> 'a arr option" where
  "array_push a x =
     (let a' = array_grow a 1
      in map_option (\<lambda>b. b\<lparr>size := u32 (size a + 1)\<rparr>) (write_cells a' (size a) [Some x]))"

definition array_grow_by :: "'a \<Rightarrow> 'a arr \<Rightarrow> nat \<Rightarrow> 'a arr option" where
  "array_grow_by zero a count =
     (if count = 0 then Some a
      else map_option (\<lambda>b. b\<lparr>size := u32 (size a + count)\<rparr>)
             (write_cells (array_grow a count) (size a) (replicate count (Some zero))))"

definition array_pop :: "'a arr \<Rightarrow> ('a \<times> 'a arr) option" where
  "array_pop a =
     (let n = u32_sub (size a) 1
      in map_option (\<lambda>x. (x, a\<lparr>size := n\<rparr>)) (read_cell a n))"

text \<open>
  \<^verbatim>\<open>_array__splice\<close>: \<open>elements\<close> is \<open>None\<close> for a null pointer, where zeroes are written.
\<close>

definition array_splice ::
  "'a \<Rightarrow> 'a arr \<Rightarrow> nat \<Rightarrow> nat \<Rightarrow> nat \<Rightarrow> 'a list option \<Rightarrow> 'a arr option" where
  "array_splice zero a index old_count new_count elements =
     (let new_size = u32_sub (u32 (size a + new_count)) old_count;
          old_end = u32 (index + old_count);
          new_end = u32 (index + new_count)
      in if old_end > size a then None
         else do {
           let a1 = array_reserve a new_size;
           a2 \<leftarrow> (if size a > old_end
                   then write_cells a1 new_end (take (size a - old_end) (drop old_end (contents a1)))
                   else Some a1);
           a3 \<leftarrow> (if new_count > 0
                   then write_cells a2 index
                          (case elements of
                             Some xs \<Rightarrow> map Some (take new_count xs)
                           | None \<Rightarrow> replicate new_count (Some zero))
                   else Some a2);
           Some (a3\<lparr>size := new_size\<rparr>)
         })"

definition array_insert :: "'a \<Rightarrow> 'a arr \<Rightarrow> nat \<Rightarrow> 'a \<Rightarrow> 'a arr option" where
  "array_insert zero a index x = array_splice zero a index 0 1 (Some [x])"

definition array_extend :: "'a \<Rightarrow> 'a arr \<Rightarrow> nat \<Rightarrow> 'a list option \<Rightarrow> 'a arr option" where
  "array_extend zero a count xs = array_splice zero a (size a) 0 count xs"

definition array_erase :: "'a arr \<Rightarrow> nat \<Rightarrow> 'a arr option" where
  "array_erase a index =
     (if index < size a
      then map_option (\<lambda>b. b\<lparr>size := size a - 1\<rparr>)
             (write_cells a index (take (size a - index - 1) (drop (index + 1) (contents a))))
      else None)"

definition array_assign :: "'a arr \<Rightarrow> 'a arr \<Rightarrow> 'a arr option" where
  "array_assign self other =
     write_cells ((array_reserve self (size other))\<lparr>size := size other\<rparr>) 0
       (take (size other) (contents other))"

definition array_swap :: "'a arr \<Rightarrow> 'a arr \<Rightarrow> 'a arr \<times> 'a arr" where
  "array_swap self other =
     (self\<lparr>contents := contents other, size := size other, capacity := capacity other\<rparr>,
      other\<lparr>contents := contents self, size := size self, capacity := capacity self\<rparr>)"

text \<open>
  \<^verbatim>\<open>_array__search_sorted\<close>: \<open>cmp x\<close> is the sign of the comparison of the element \<open>x\<close> with the
  needle. The loop keeps the start of the window and its size.
\<close>

fun search_loop :: "('a \<Rightarrow> int) \<Rightarrow> 'a arr \<Rightarrow> nat \<Rightarrow> nat \<Rightarrow> nat option" where
  "search_loop cmp a index n =
     (if n > 1
      then let half_size = n div 2; mid_index = index + half_size
           in case read_cell a mid_index of
                None \<Rightarrow> None
              | Some x \<Rightarrow> search_loop cmp a (if cmp x \<le> 0 then mid_index else index) (n - half_size)
      else Some index)"

declare search_loop.simps [simp del]

definition array_search_sorted_with :: "('a \<Rightarrow> int) \<Rightarrow> 'a arr \<Rightarrow> (nat \<times> bool) option" where
  "array_search_sorted_with cmp a =
     (if size a = 0 then Some (0, False)
      else do {
        index \<leftarrow> search_loop cmp a 0 (size a);
        x \<leftarrow> read_cell a index;
        Some (if cmp x = 0 then (index, True)
              else if cmp x < 0 then (index + 1, False)
              else (index, False))
      })"

definition array_insert_sorted_with :: "'a \<Rightarrow> ('a \<Rightarrow> 'a \<Rightarrow> int) \<Rightarrow> 'a arr \<Rightarrow> 'a \<Rightarrow> 'a arr option" where
  "array_insert_sorted_with zero cmp a x = do {
     (index, found) \<leftarrow> array_search_sorted_with (\<lambda>y. cmp y x) a;
     if \<not> found then array_insert zero a index x else Some a
   }"

subsection \<open>Reading an array as a list\<close>

definition arr_ok :: "'a arr \<Rightarrow> bool" where
  "arr_ok a \<longleftrightarrow> length (contents a) = capacity a \<and> size a \<le> capacity a \<and> capacity a < 2 ^ 32 \<and>
     None \<notin> set (take (size a) (contents a))"

definition arr_list :: "'a arr \<Rightarrow> 'a list" where
  "arr_list a = map the (take (size a) (contents a))"

lemma arr_ok_new [simp]: "arr_ok array_new" "arr_list array_new = []" "size array_new = 0"
  by (simp_all add: array_new_def arr_ok_def arr_list_def)

lemma arr_ok_clear [simp]: "arr_ok a \<Longrightarrow> arr_ok (array_clear a)" "arr_list (array_clear a) = []"
  by (simp_all add: array_clear_def arr_ok_def arr_list_def)

lemma arr_ok_delete [simp]: "arr_ok (array_delete a)" "arr_list (array_delete a) = []"
  by (simp_all add: array_delete_def arr_ok_def arr_list_def)

lemma arr_ok_init [simp]: "arr_ok (array_init a)" "arr_list (array_init a) = []"
  by (simp_all add: array_init_def arr_ok_def arr_list_def)

lemma length_arr_list [simp]: "arr_ok a \<Longrightarrow> length (arr_list a) = size a"
  by (simp add: arr_ok_def arr_list_def)

lemma arr_ok_size: "arr_ok a \<Longrightarrow> size a < 2 ^ 32"
  by (simp add: arr_ok_def)

lemma size_zero_iff: "arr_ok a \<Longrightarrow> size a = 0 \<longleftrightarrow> arr_list a = []"
  by (metis length_0_conv length_arr_list)

text \<open>The live cells are exactly the elements of the list.\<close>

lemma live_cells: "arr_ok a \<Longrightarrow> take (size a) (contents a) = map Some (arr_list a)"
proof -
  assume "arr_ok a"
  then have "None \<notin> set (take (size a) (contents a))" by (simp add: arr_ok_def)
  moreover have "None \<notin> set xs \<Longrightarrow> xs = map Some (map the xs)" for xs :: "'a option list"
    by (induction xs) auto
  ultimately show ?thesis unfolding arr_list_def by blast
qed

lemma arr_ok_cells:
  "arr_ok a \<longleftrightarrow> length (contents a) = capacity a \<and> size a \<le> capacity a \<and> capacity a < 2 ^ 32 \<and>
     take (size a) (contents a) = map Some (arr_list a)"
  by (auto simp: live_cells dest: arg_cong [where f = set]) (auto simp: arr_ok_def)

lemma read_live:
  assumes "arr_ok a" and "i < size a"
  shows "read_cell a i = Some (arr_list a ! i)"
proof -
  have len: "i < length (contents a)" using assms by (simp add: arr_ok_def)
  have "contents a ! i = take (size a) (contents a) ! i" using assms(2) by simp
  also have "\<dots> = map Some (arr_list a) ! i" using assms(1) by (simp add: live_cells)
  also have "\<dots> = Some (arr_list a ! i)" using assms by simp
  finally show ?thesis using len by (simp add: read_cell_def)
qed

text \<open>A record whose first \<open>n\<close> cells hold \<open>xs\<close> is a well-formed array for \<open>xs\<close>.\<close>

lemma arr_okI:
  assumes "length (contents a) = capacity a" and "capacity a < 2 ^ 32"
    and "size a = length xs" and "take (length xs) (contents a) = map Some xs"
  shows "arr_ok a" and "arr_list a = xs"
proof -
  have "length (take (length xs) (contents a)) = length xs" using assms(4) by simp
  then have "length xs \<le> length (contents a)" by simp
  then show "arr_ok a" using assms by (auto simp: arr_ok_def)
  show "arr_list a = xs" using assms by (simp add: arr_list_def)
qed

lemma array_reserve_ok:
  assumes "arr_ok a" and "n < 2 ^ 32"
  shows "arr_ok (array_reserve a n)" and "arr_list (array_reserve a n) = arr_list a"
    and "n \<le> capacity (array_reserve a n)" and "size (array_reserve a n) = size a"
proof -
  have t: "take (length (arr_list a)) (contents (array_reserve a n)) = map Some (arr_list a)"
    using assms(1) live_cells [OF assms(1)] by (simp add: array_reserve_def arr_ok_def)
  have l: "length (contents (array_reserve a n)) = capacity (array_reserve a n)"
    using assms(1) by (simp add: array_reserve_def arr_ok_def)
  have c: "capacity (array_reserve a n) < 2 ^ 32"
    using assms by (simp add: array_reserve_def arr_ok_def)
  show "n \<le> capacity (array_reserve a n)" by (simp add: array_reserve_def)
  show s: "size (array_reserve a n) = size a" by (simp add: array_reserve_def)
  have s': "size (array_reserve a n) = length (arr_list a)" using s assms(1) by simp
  show "arr_ok (array_reserve a n)" by (rule arr_okI(1) [OF l c s' t])
  show "arr_list (array_reserve a n) = arr_list a" by (rule arr_okI(2) [OF l c s' t])
qed

lemma array_grow_ok:
  assumes "arr_ok a" and "size a + count < 2 ^ 32"
  shows "arr_ok (array_grow a count)" and "arr_list (array_grow a count) = arr_list a"
    and "size a + count \<le> capacity (array_grow a count)" and "size (array_grow a count) = size a"
proof -
  let ?c0 = "u32 (capacity a * 2)"
  let ?c1 = "if ?c0 < 8 then 8 else ?c0"
  let ?c2 = "if ?c1 < size a + count then size a + count else ?c1"
  have b: "?c2 < 2 ^ 32" using assms(2) by simp
  have g: "array_grow a count = (if size a + count > capacity a then array_reserve a ?c2 else a)"
    using assms(2) by (simp add: array_grow_def Let_def)
  show "arr_ok (array_grow a count)" "arr_list (array_grow a count) = arr_list a"
    "size (array_grow a count) = size a"
    using array_reserve_ok [OF assms(1) b] assms(1) g by auto
  show "size a + count \<le> capacity (array_grow a count)"
    using array_reserve_ok(3) [OF assms(1) b] g by auto
qed

text \<open>Writing cells right behind the live ones appends.\<close>

lemma write_append:
  assumes "arr_ok a" and "size a + length xs \<le> capacity a"
  obtains b where "write_cells a (size a) (map Some xs) = Some b"
    and "arr_ok (b\<lparr>size := size a + length xs\<rparr>)"
    and "arr_list (b\<lparr>size := size a + length xs\<rparr>) = arr_list a @ xs"
    and "capacity b = capacity a"
proof
  let ?cs = "take (size a) (contents a) @ map Some xs @ drop (size a + length xs) (contents a)"
  let ?b = "a\<lparr>contents := ?cs\<rparr>"
  have len: "length (contents a) = capacity a" using assms(1) by (simp add: arr_ok_def)
  show "write_cells a (size a) (map Some xs) = Some ?b"
    using assms len by (simp add: write_cells_def)
  have l: "length (contents (?b\<lparr>size := size a + length xs\<rparr>)) = capacity (?b\<lparr>size := size a + length xs\<rparr>)"
    using assms len by simp
  have c: "capacity (?b\<lparr>size := size a + length xs\<rparr>) < 2 ^ 32"
    using assms(1) by (simp add: arr_ok_def)
  have s: "size (?b\<lparr>size := size a + length xs\<rparr>) = length (arr_list a @ xs)"
    using assms(1) by simp
  have t: "take (length (arr_list a @ xs)) (contents (?b\<lparr>size := size a + length xs\<rparr>)) = map Some (arr_list a @ xs)"
    using assms(1) live_cells [OF assms(1)] by simp
  show "arr_ok (?b\<lparr>size := size a + length xs\<rparr>)" by (rule arr_okI(1) [OF l c s t])
  show "arr_list (?b\<lparr>size := size a + length xs\<rparr>) = arr_list a @ xs" by (rule arr_okI(2) [OF l c s t])
  show "capacity ?b = capacity a" by simp
qed

lemma array_push_ok:
  assumes "arr_ok a" and "size a + 1 < 2 ^ 32"
  shows "\<exists>b. array_push a x = Some b \<and> arr_ok b \<and> arr_list b = arr_list a @ [x] \<and> size b = size a + 1"
proof -
  let ?g = "array_grow a 1"
  note g = array_grow_ok [OF assms]
  obtain b where w: "write_cells ?g (size ?g) (map Some [x]) = Some b"
    and ok: "arr_ok (b\<lparr>size := size ?g + length [x]\<rparr>)"
    and ls: "arr_list (b\<lparr>size := size ?g + length [x]\<rparr>) = arr_list ?g @ [x]"
    by (rule write_append [OF g(1), of "[x]"]) (use g in simp)
  have "array_push a x = Some (b\<lparr>size := size a + 1\<rparr>)"
    using w g(4) assms(2) by (simp add: array_push_def Let_def)
  with ok ls g show ?thesis by simp
qed

lemma array_pop_ok:
  assumes "arr_ok a" and "size a > 0"
  shows "\<exists>b. array_pop a = Some (last (arr_list a), b) \<and> arr_ok b \<and> arr_list b = butlast (arr_list a)
           \<and> size b = size a - 1"
proof -
  let ?b = "a\<lparr>size := size a - 1\<rparr>"
  have ne: "arr_list a \<noteq> []" using assms by (simp add: size_zero_iff [symmetric])
  have r: "read_cell a (size a - 1) = Some (last (arr_list a))"
    using read_live [OF assms(1), of "size a - 1"] assms ne by (simp add: last_conv_nth)
  have t: "take (size a - 1) (contents a) = map Some (butlast (arr_list a))"
    using live_cells [OF assms(1)] assms(1)
    by (metis arr_ok_def butlast_take map_butlast)
  have ok: "arr_ok ?b" "arr_list ?b = butlast (arr_list a)"
    using arr_okI [of ?b "butlast (arr_list a)"] assms t by (simp_all add: arr_ok_def)
  have "u32_sub (size a) 1 = size a - 1" using assms by (simp add: arr_ok_def)
  then show ?thesis using r ok assms(2) by (simp add: array_pop_def)
qed

lemma array_back_ok:
  "arr_ok a \<Longrightarrow> size a > 0 \<Longrightarrow> array_back a = Some (last (arr_list a))"
proof -
  assume a: "arr_ok a" "size a > 0"
  then have "u32_sub (size a) 1 = size a - 1" "u32 (size a - 1) = size a - 1"
    by (auto simp: arr_ok_def intro!: u32_small)
  moreover have "arr_list a \<noteq> []" using a by (simp add: size_zero_iff [symmetric])
  ultimately show ?thesis using a read_live [of a "size a - 1"]
    by (simp add: array_back_def array_get_def last_conv_nth)
qed

lemma array_pop_empty: "arr_ok a \<Longrightarrow> size a = 0 \<Longrightarrow> array_pop a = None"
  by (simp add: array_pop_def read_cell_def arr_ok_def)

text \<open>
  Splicing: the elements \<open>[index, index + old_count)\<close> are replaced by the new ones, the
  elements behind them move.
\<close>

lemma write_cells_Some:
  "i + length xs \<le> length (contents a) \<Longrightarrow> write_cells a i xs =
     Some (a\<lparr>contents := take i (contents a) @ xs @ drop (i + length xs) (contents a)\<rparr>)"
  by (simp add: write_cells_def)

lemma splice_cells:
  assumes "cs = l @ old @ r @ t" and "length l + length xs + length r \<le> length cs"
    and "ds = take (length l + length xs) cs @ r @ drop (length l + length xs + length r) cs"
    and "es = take (length l) ds @ xs @ drop (length l + length xs) ds"
  shows "take (length (l @ xs @ r)) es = l @ xs @ r" and "length es = length cs"
proof -
  have "length (take (length l + length xs) cs) = length l + length xs" using assms(2) by simp
  then have d: "drop (length l + length xs) ds = r @ drop (length l + length xs + length r) cs"
    by (simp add: assms(3))
  have "take (length l) ds = take (length l) (take (length l + length xs) cs)"
    using assms(2) by (simp add: assms(3))
  also have "\<dots> = l" by (simp add: assms(1))
  finally have es: "es = l @ xs @ r @ drop (length l + length xs + length r) cs"
    by (simp add: assms(4) d)
  show "take (length (l @ xs @ r)) es = l @ xs @ r" by (simp add: es)
  show "length es = length cs" using assms(2) by (simp add: es)
qed

lemma array_splice_ok:
  assumes "arr_ok a" and "index + old_count \<le> size a" and "size a + length xs < 2 ^ 32"
  shows "\<exists>b. array_splice zero a index old_count (length xs) (Some xs) = Some b \<and> arr_ok b \<and>
    arr_list b = take index (arr_list a) @ xs @ drop (index + old_count) (arr_list a)"
proof -
  let ?L = "arr_list a" and ?m = "length xs"
  define ns where "ns = size a + ?m - old_count"
  define l where "l = map Some (take index ?L)"
  define old where "old = map Some (take old_count (drop index ?L))"
  define r where "r = map Some (drop (index + old_count) ?L)"
  let ?r = "array_reserve a ns"
  have sz: "length ?L = size a" "size a < 4294967296" using assms(1) by (simp_all add: arr_ok_def)
  have len: "length l = index" "length old = old_count" "length r = size a - (index + old_count)"
    using assms(2) sz by (simp_all add: l_def old_def r_def)
  have "map Some ?L = l @ old @ r"
    by (simp add: l_def old_def r_def flip: map_append) (metis append_take_drop_id drop_drop add.commute)
  note rv = array_reserve_ok [OF assms(1), of ns]
  have ns: "ns < 2 ^ 32" using assms(3) by (simp add: ns_def)
  define t where "t = drop (size a) (contents ?r)"
  have "take (size a) (contents ?r) = map Some ?L"
    using live_cells [OF rv(1) [OF ns]] rv(2,4) ns by simp
  then have cs: "contents ?r = l @ old @ r @ t"
    using \<open>map Some ?L = l @ old @ r\<close> by (metis append.assoc append_take_drop_id t_def)
  have room: "length l + ?m + length r \<le> length (contents ?r)"
    using rv(1,3) [OF ns] len assms(2) by (simp add: arr_ok_def ns_def)
  define ds where "ds = take (length l + ?m) (contents ?r) @ r @ drop (length l + ?m + length r) (contents ?r)"
  define es where "es = take (length l) ds @ map Some xs @ drop (length l + ?m) ds"
  have mv: "take (size a - (index + old_count)) (drop (index + old_count) (contents ?r)) = r"
    by (simp add: cs len)
  have ld: "length ds = length (contents ?r)" using room by (simp add: ds_def)
  have w1: "(if index + old_count < size a then write_cells ?r (index + ?m) r else Some ?r)
      = Some (?r\<lparr>contents := ds\<rparr>)"
  proof (cases "index + old_count < size a")
    case True
    then show ?thesis using room len by (simp add: write_cells_def ds_def add.assoc)
  next
    case False
    then have "r = []" using len by simp
    with False show ?thesis by (simp add: ds_def)
  qed
  have w2: "write_cells (?r\<lparr>contents := ds\<rparr>) index (map Some xs) = Some (?r\<lparr>contents := es\<rparr>)"
    using room len ld by (simp add: write_cells_def es_def add.assoc)
  have w3: "xs = [] \<Longrightarrow> es = ds" by (simp add: es_def)
  have u: "u32_sub (u32 (size a + ?m)) old_count = ns" "u32 (index + old_count) = index + old_count"
    "u32 (index + ?m) = index + ?m"
    using assms sz by (simp_all add: ns_def)
  let ?b = "?r\<lparr>contents := es, size := ns\<rparr>"
  have eq: "array_splice zero a index old_count ?m (Some xs) = Some ?b"
    using assms(2) w1 w2 w3 unfolding array_splice_def Let_def u mv by simp
  have sp: "take (length (l @ map Some xs @ r)) es = l @ map Some xs @ r" "length es = length (contents ?r)"
    using splice_cells [OF cs, of "map Some xs" ds es] room by (simp_all add: ds_def es_def)
  let ?N = "take index ?L @ xs @ drop (index + old_count) ?L"
  have t: "take (length ?N) (contents ?b) = map Some ?N"
    using sp(1) by (simp add: l_def r_def)
  have s: "size ?b = length ?N" "length (contents ?b) = capacity ?b" "capacity ?b < 2 ^ 32"
    using rv(1) [OF ns] sp(2) assms(2) sz by (simp_all add: arr_ok_def ns_def)
  show ?thesis using eq arr_okI [OF s(2,3,1) t] by blast
qed

lemma array_insert_ok:
  assumes "arr_ok a" and "index \<le> size a" and "size a + 1 < 2 ^ 32"
  shows "\<exists>b. array_insert zero a index x = Some b \<and> arr_ok b \<and>
    arr_list b = take index (arr_list a) @ x # drop index (arr_list a)"
  using array_splice_ok [OF assms(1), of index 0 "[x]" zero] assms
  by (simp add: array_insert_def)

lemma array_extend_ok:
  assumes "arr_ok a" and "size a + length xs < 2 ^ 32"
  shows "\<exists>b. array_extend zero a (length xs) (Some xs) = Some b \<and> arr_ok b \<and> arr_list b = arr_list a @ xs"
  using array_splice_ok [OF assms(1), of "size a" 0 xs zero] assms
  by (simp add: array_extend_def)

lemma array_erase_ok:
  assumes "arr_ok a" and "index < size a"
  shows "\<exists>b. array_erase a index = Some b \<and> arr_ok b \<and>
    arr_list b = take index (arr_list a) @ drop (index + 1) (arr_list a)"
proof -
  let ?L = "arr_list a" and ?n = "size a"
  define r where "r = map Some (drop (index + 1) ?L)"
  define t where "t = drop ?n (contents a)"
  have sz: "length ?L = ?n" "length (contents a) = capacity a" "?n \<le> capacity a" "capacity a < 2 ^ 32"
    using assms(1) by (simp_all add: arr_ok_def)
  have lr: "length r = ?n - index - 1" using sz by (simp add: r_def)
  have "map Some ?L = map Some (take (index + 1) ?L) @ r"
    by (simp add: r_def flip: map_append)
  then have cs: "contents a = map Some (take (index + 1) ?L) @ r @ t"
    using live_cells [OF assms(1)] by (metis append.assoc append_take_drop_id t_def)
  have lp: "length (map Some (take (index + 1) ?L)) = index + 1" using assms(2) sz by simp
  have mv: "take (?n - index - 1) (drop (index + 1) (contents a)) = r"
    by (subst cs) (use lp lr in simp)
  have ti: "take index (contents a) = map Some (take index ?L)"
    by (subst cs) (use assms(2) sz in \<open>simp add: take_map min_def\<close>)
  define es where "es = map Some (take index ?L) @ r @ drop (index + length r) (contents a)"
  have w: "write_cells a index r = Some (a\<lparr>contents := es\<rparr>)"
    using assms(2) sz lr by (simp add: write_cells_def es_def ti)
  let ?b = "a\<lparr>contents := es, size := ?n - 1\<rparr>" and ?N = "take index ?L @ drop (index + 1) ?L"
  have eq: "array_erase a index = Some ?b" using assms(2) w mv by (simp add: array_erase_def)
  have l1: "length (contents ?b) = capacity ?b" using assms(2) sz lr by (simp add: es_def)
  have l2: "size ?b = length ?N" "capacity ?b < 2 ^ 32" using assms(2) sz by simp_all
  have "take (length ?N) (contents ?b) = map Some ?N"
    using assms(2) sz by (simp add: es_def r_def)
  then show ?thesis using eq arr_okI [OF l1 l2(2) l2(1)] by blast
qed

lemma array_assign_ok:
  assumes "arr_ok a" and "arr_ok b"
  shows "\<exists>c. array_assign a b = Some c \<and> arr_ok c \<and> arr_list c = arr_list b"
proof -
  have n: "size b < 2 ^ 32" using assms(2) by (rule arr_ok_size)
  note r = array_reserve_ok [OF assms(1) n]
  let ?r = "array_reserve a (size b)"
  let ?c = "?r\<lparr>contents := map Some (arr_list b) @ drop (size b) (contents ?r), size := size b\<rparr>"
  have eq: "array_assign a b = Some ?c"
    using r live_cells [OF assms(2)] assms(2)
    by (simp add: array_assign_def write_cells_def arr_ok_def)
  have l: "length (contents ?c) = capacity ?c" "capacity ?c < 2 ^ 32" "size ?c = length (arr_list b)"
    using r assms(2) by (simp_all add: arr_ok_def)
  have "take (length (arr_list b)) (contents ?c) = map Some (arr_list b)" by simp
  then show ?thesis using eq arr_okI [OF l] by blast
qed

lemma array_grow_by_ok:
  assumes "arr_ok a" and "size a + count < 2 ^ 32"
  shows "\<exists>b. array_grow_by zero a count = Some b \<and> arr_ok b \<and>
    arr_list b = arr_list a @ replicate count zero"
proof (cases "count = 0")
  case True
  then show ?thesis using assms by (simp add: array_grow_by_def)
next
  case False
  let ?g = "array_grow a count" and ?xs = "replicate count zero"
  note g = array_grow_ok [OF assms]
  obtain b where "write_cells ?g (size ?g) (map Some ?xs) = Some b"
    and "arr_ok (b\<lparr>size := size ?g + length ?xs\<rparr>)"
    and "arr_list (b\<lparr>size := size ?g + length ?xs\<rparr>) = arr_list ?g @ ?xs"
    by (rule write_append [OF g(1), of ?xs]) (use g in simp)
  then show ?thesis using g assms(2) False by (simp add: array_grow_by_def)
qed

lemma array_swap_ok:
  "array_swap a b = (b', a') \<Longrightarrow> arr_ok a \<Longrightarrow> arr_ok b \<Longrightarrow>
     arr_ok a' \<and> arr_ok b' \<and> arr_list b' = arr_list b \<and> arr_list a' = arr_list a"
  by (auto simp: array_swap_def arr_ok_def arr_list_def)

subsection \<open>The binary search\<close>

text \<open>The elements are in order for the needle: smaller ones, equal ones, larger ones.\<close>

definition ordered_for :: "('a \<Rightarrow> int) \<Rightarrow> 'a list \<Rightarrow> bool" where
  "ordered_for cmp xs \<longleftrightarrow> (\<forall>j < length xs. \<forall>i < j.
     (cmp (xs ! j) \<le> 0 \<longrightarrow> cmp (xs ! i) \<le> 0) \<and> (cmp (xs ! j) < 0 \<longrightarrow> cmp (xs ! i) < 0))"

lemma search_loop_ok:
  assumes "arr_ok a" and "index + n \<le> size a" and "0 < n" and "ordered_for cmp (arr_list a)"
    and "index > 0 \<longrightarrow> cmp (arr_list a ! index) \<le> 0"
    and "\<forall>j < size a. index + n \<le> j \<longrightarrow> cmp (arr_list a ! j) > 0"
  shows "\<exists>i. search_loop cmp a index n = Some i \<and> i < size a \<and> (i > 0 \<longrightarrow> cmp (arr_list a ! i) \<le> 0) \<and>
    (\<forall>j < size a. i < j \<longrightarrow> cmp (arr_list a ! j) > 0)"
  using assms(2-)
proof (induction n arbitrary: index rule: less_induct)
  case (less n)
  show ?case
  proof (cases "n > 1")
    case False
    then have "n = 1" using less.prems(2) by simp
    moreover have "search_loop cmp a index 1 = Some index" by (subst search_loop.simps) simp
    ultimately show ?thesis using less.prems by (auto simp: Suc_le_eq)
  next
    case True
    let ?h = "n div 2"
    let ?mid = "index + ?h"
    have h: "0 < ?h" "?h < n" using True by auto
    have rd: "read_cell a ?mid = Some (arr_list a ! ?mid)"
      using less.prems(1) h assms(1) by (simp add: read_live)
    let ?i' = "if cmp (arr_list a ! ?mid) \<le> 0 then ?mid else index"
    have step: "search_loop cmp a index n = search_loop cmp a ?i' (n - ?h)"
      using True rd by (subst search_loop.simps) (simp add: Let_def)
    have hi: "cmp (arr_list a ! j) > 0"
      if "cmp (arr_list a ! ?mid) > 0" "j < size a" "?mid \<le> j" for j
      using that less.prems(3) assms(1)
      by (metis (no_types, lifting) le_neq_implies_less length_arr_list not_less ordered_for_def)
    have "n - ?h \<le> ?h + 1" by simp
    then have "\<forall>j < size a. ?i' + (n - ?h) \<le> j \<longrightarrow> cmp (arr_list a ! j) > 0"
      using less.prems(5) hi h by auto
    then show ?thesis unfolding step
      using less.IH [of "n - ?h" ?i'] h less.prems by auto
  qed
qed

lemma array_search_sorted_ok:
  assumes "arr_ok a" and "ordered_for cmp (arr_list a)"
  shows "\<exists>i found. array_search_sorted_with cmp a = Some (i, found) \<and> i \<le> size a \<and>
    (found \<longrightarrow> i < size a \<and> cmp (arr_list a ! i) = 0) \<and>
    (\<not> found \<longrightarrow> (\<forall>x \<in> set (take i (arr_list a)). cmp x < 0) \<and> (\<forall>x \<in> set (drop i (arr_list a)). cmp x > 0))"
proof (cases "size a = 0")
  case True
  then show ?thesis using assms(1)
    by (intro exI [of _ 0] exI [of _ False]) (simp add: array_search_sorted_with_def size_zero_iff)
next
  case False
  then obtain i where i: "search_loop cmp a 0 (size a) = Some i" "i < size a"
    "i > 0 \<longrightarrow> cmp (arr_list a ! i) \<le> 0" "\<forall>j < size a. i < j \<longrightarrow> cmp (arr_list a ! j) > 0"
    using search_loop_ok [OF assms(1), of 0 "size a" cmp] assms(2) by auto
  have rd: "read_cell a i = Some (arr_list a ! i)" using i(2) assms(1) by (simp add: read_live)
  have run: "array_search_sorted_with cmp a = Some (let c = cmp (arr_list a ! i) in
      if c = 0 then (i, True) else if c < 0 then (i + 1, False) else (i, False))"
    using False i(1) rd by (simp add: array_search_sorted_with_def Let_def)
  have len: "length (arr_list a) = size a" using assms(1) by simp
  have above: "\<forall>x \<in> set (drop (Suc i) (arr_list a)). cmp x > 0"
    using i(4) len by (auto simp: in_set_conv_nth)
  consider "cmp (arr_list a ! i) = 0" | "cmp (arr_list a ! i) < 0" | "cmp (arr_list a ! i) > 0" by linarith
  then show ?thesis
  proof cases
    case 1
    then show ?thesis using run i(2) by (auto simp: Let_def)
  next
    case 2
    have "cmp (arr_list a ! j) < 0" if "j \<le> i" for j
      using that 2 assms(2) i(2) len by (cases "j = i") (auto simp: ordered_for_def)
    then have "\<forall>x \<in> set (take (Suc i) (arr_list a)). cmp x < 0"
      using i(2) len by (auto simp: in_set_conv_nth)
    then show ?thesis using run 2 i(2) above by (auto simp: Let_def)
  next
    case 3
    then have "i = 0" using i(3) by auto
    moreover have "set (arr_list a) = insert (arr_list a ! 0) (set (drop (Suc 0) (arr_list a)))"
      using False len by (cases "arr_list a") auto
    ultimately show ?thesis using run 3 above by (auto simp: Let_def)
  qed
qed

subsection \<open>The interface of a growable stack\<close>

text \<open>
  What the scanners use of their containers: pushing, popping and reading the last element.
  \<open>limit\<close> is the number of elements from which on a push is not promised to work.
\<close>

primrec push_all :: "('s \<Rightarrow> 'a \<Rightarrow> 's option) \<Rightarrow> 's \<Rightarrow> 'a list \<Rightarrow> 's option" where
  "push_all push s [] = Some s"
| "push_all push s (x # xs) = do { t \<leftarrow> push s x; push_all push t xs }"

locale growable_stack =
  fixes push :: "'s \<Rightarrow> 'a \<Rightarrow> 's option"
    and pop :: "'s \<Rightarrow> ('a \<times> 's) option"
    and topmost :: "'s \<Rightarrow> 'a option"
    and list :: "'s \<Rightarrow> 'a list"
    and ok :: "'s \<Rightarrow> bool"
    and limit :: nat
  assumes push_ok: "ok s \<Longrightarrow> length (list s) < limit \<Longrightarrow>
      \<exists>t. push s x = Some t \<and> ok t \<and> list t = list s @ [x]"
    and pop_ok: "ok s \<Longrightarrow> list s \<noteq> [] \<Longrightarrow>
      \<exists>t. pop s = Some (last (list s), t) \<and> ok t \<and> list t = butlast (list s)"
    and back_ok: "ok s \<Longrightarrow> list s \<noteq> [] \<Longrightarrow> topmost s = Some (last (list s))"
begin

lemma push_all_ok:
  "ok s \<Longrightarrow> length (list s) + length xs \<le> limit \<Longrightarrow>
     \<exists>t. push_all push s xs = Some t \<and> ok t \<and> list t = list s @ xs"
proof (induction xs arbitrary: s)
  case Nil
  then show ?case by simp
next
  case (Cons x xs)
  then obtain t where t: "push s x = Some t" "ok t" "list t = list s @ [x]"
    using push_ok [of s x] by auto
  then show ?case using Cons.IH [of t] Cons.prems(2) by auto
qed

lemma push_pop:
  assumes "ok s" and "length (list s) < limit"
  shows "\<exists>t u. push s x = Some t \<and> topmost t = Some x \<and> pop t = Some (x, u) \<and> ok u \<and> list u = list s"
proof -
  obtain t where t: "push s x = Some t" "ok t" "list t = list s @ [x]"
    using push_ok [OF assms] by blast
  then show ?thesis using pop_ok [of t] back_ok [of t] by auto
qed

end

interpretation array: growable_stack array_push array_pop array_back arr_list arr_ok "2 ^ 32 - 1"
proof
  fix s :: "'a arr" and x
  assume s: "arr_ok s"
  show "length (arr_list s) < 2 ^ 32 - 1 \<Longrightarrow>
      \<exists>t. array_push s x = Some t \<and> arr_ok t \<and> arr_list t = arr_list s @ [x]"
    using array_push_ok [OF s, of x] s by auto
  show "arr_list s \<noteq> [] \<Longrightarrow> \<exists>t. array_pop s = Some (last (arr_list s), t) \<and> arr_ok t \<and>
      arr_list t = butlast (arr_list s)"
    using array_pop_ok [OF s] s by (auto simp flip: size_zero_iff)
  show "arr_list s \<noteq> [] \<Longrightarrow> array_back s = Some (last (arr_list s))"
    using array_back_ok [OF s] s by (auto simp flip: size_zero_iff)
qed

subsection \<open>An array in key order is a set\<close>

text \<open>The comparison callback orders elements by an integer key, as \<^verbatim>\<open>_compare_int\<close> does for a field.\<close>

definition compares_by :: "('a \<Rightarrow> 'a \<Rightarrow> int) \<Rightarrow> ('a \<Rightarrow> int) \<Rightarrow> bool" where
  "compares_by cmp key \<longleftrightarrow> (\<forall>y z. (cmp y z = 0 \<longleftrightarrow> key y = key z) \<and> (cmp y z < 0 \<longleftrightarrow> key y < key z))"

definition key_sorted :: "('a \<Rightarrow> int) \<Rightarrow> 'a list \<Rightarrow> bool" where
  "key_sorted key xs \<longleftrightarrow> sorted_wrt (\<lambda>y z. key y < key z) xs"

lemma compares_byD:
  assumes "compares_by cmp key"
  shows "cmp y z = 0 \<longleftrightarrow> key y = key z" "cmp y z < 0 \<longleftrightarrow> key y < key z" "0 < cmp y z \<longleftrightarrow> key z < key y"
proof -
  show e: "cmp y z = 0 \<longleftrightarrow> key y = key z" "cmp y z < 0 \<longleftrightarrow> key y < key z"
    using assms by (simp_all add: compares_by_def)
  show "0 < cmp y z \<longleftrightarrow> key z < key y" using e by linarith
qed

lemma key_sorted_ordered:
  assumes "compares_by cmp key" and "key_sorted key xs"
  shows "ordered_for (\<lambda>y. cmp y x) xs"
proof -
  have "key (xs ! i) < key (xs ! j)" if "i < j" "j < length xs" for i j
    using assms(2) that by (simp add: key_sorted_def sorted_wrt_iff_nth_less)
  moreover have "cmp y z \<le> 0 \<longleftrightarrow> key y \<le> key z" for y z
    using compares_byD(3) [OF assms(1), of y z] by linarith
  ultimately show ?thesis by (fastforce simp: ordered_for_def compares_byD [OF assms(1)])
qed

definition array_of :: "'a list \<Rightarrow> 'a arr" where
  "array_of xs = \<lparr>contents = map Some xs, size = length xs, capacity = length xs\<rparr>"

lemma array_of [simp]:
  "length xs < 2 ^ 32 \<Longrightarrow> arr_ok (array_of xs)" "arr_list (array_of xs) = xs" "size (array_of xs) = length xs"
  by (simp_all add: array_of_def arr_ok_def arr_list_def)

text \<open>
  On an array in strict key order \<^verbatim>\<open>array_insert_sorted_with\<close> is insertion into a set of keys: the
  array stays in strict order, has exactly the new key added, and an element whose key is there is not replaced.
\<close>

lemma array_insert_sorted_is_set_insert:
  assumes "arr_ok a" and "compares_by cmp key" and "key_sorted key (arr_list a)" and "size a + 1 < 2 ^ 32"
  shows "\<exists>b. array_insert_sorted_with zero cmp a x = Some b \<and> arr_ok b \<and> key_sorted key (arr_list b) \<and>
    set (arr_list b) = (if key x \<in> key ` set (arr_list a) then set (arr_list a) else insert x (set (arr_list a)))"
proof -
  note cmp = compares_byD [OF assms(2)]
  obtain i found where i: "array_search_sorted_with (\<lambda>y. cmp y x) a = Some (i, found)" "i \<le> size a"
    "found \<longrightarrow> i < size a \<and> cmp (arr_list a ! i) x = 0"
    "\<not> found \<longrightarrow> (\<forall>y \<in> set (take i (arr_list a)). key y < key x) \<and> (\<forall>y \<in> set (drop i (arr_list a)). key x < key y)"
    using array_search_sorted_ok [OF assms(1) key_sorted_ordered [OF assms(2,3), of x]] unfolding cmp by blast
  show ?thesis
  proof (cases found)
    case True
    then have "arr_list a ! i \<in> set (arr_list a)" "key (arr_list a ! i) = key x" using i(3) assms(1) cmp by auto
    then have "key x \<in> key ` set (arr_list a)" by (metis imageI)
    then show ?thesis using True i(1) assms(1,3) by (simp add: array_insert_sorted_with_def)
  next
    case False
    obtain b where b: "array_insert zero a i x = Some b" "arr_ok b"
      "arr_list b = take i (arr_list a) @ x # drop i (arr_list a)"
      using array_insert_ok [OF assms(1) i(2) assms(4)] by blast
    have split: "arr_list a = take i (arr_list a) @ drop i (arr_list a)" by simp
    have less: "\<forall>y \<in> set (take i (arr_list a)). key y < key x" "\<forall>y \<in> set (drop i (arr_list a)). key x < key y"
      using False i(4) by auto
    have "key_sorted key (take i (arr_list a) @ drop i (arr_list a))" using assms(3) by simp
    then have "key_sorted key (arr_list b)" unfolding b(3) using less
      by (simp add: key_sorted_def sorted_wrt_append del: append_take_drop_id)
    moreover have "set (arr_list a) = set (take i (arr_list a)) \<union> set (drop i (arr_list a))"
      by (subst split) (simp only: set_append)
    moreover from this have "key x \<notin> key ` set (arr_list a)" using less by fastforce
    ultimately show ?thesis using False i(1) b by (simp add: array_insert_sorted_with_def)
  qed
qed

lemma array_insert_sorted_is_set_insert_witness:
  "\<exists>b. array_insert_sorted_with 0 (\<lambda>y z. y - z) (array_of [2, 5]) 3 = Some b \<and> arr_ok b \<and>
    key_sorted (\<lambda>y. y) (arr_list b) \<and> set (arr_list b) = {2, 3, 5 :: int}"
proof -
  have "compares_by (\<lambda>y z. y - z) (\<lambda>y :: int. y)" by (simp add: compares_by_def)
  from array_insert_sorted_is_set_insert [OF array_of(1) this, of "[2, 5]" 0 3] show ?thesis
    by (simp add: key_sorted_def insert_commute)
qed

text \<open>
  C29: \<^verbatim>\<open>_array__splice\<close> within the array's bounds replaces exactly the elements it names, keeps the
  others in order and keeps the array well formed, whatever had to be reallocated or moved; a range that
  ends past the live elements fails the \<^verbatim>\<open>assert\<close>.
\<close>

theorem array_splice_refines_list_splice:
  assumes "arr_ok a" and "size a + length xs < 2 ^ 32" and "index + old_count < 2 ^ 32"
  shows "if index + old_count \<le> size a
    then \<exists>b. array_splice zero a index old_count (length xs) (Some xs) = Some b \<and> arr_ok b \<and>
      arr_list b = take index (arr_list a) @ xs @ drop (index + old_count) (arr_list a)
    else array_splice zero a index old_count (length xs) (Some xs) = None"
  using array_splice_ok [OF assms(1) _ assms(2), of index old_count zero] assms(3)
  by (simp add: array_splice_def)

theorem array_splice_refines_list_splice_witness:
  "(\<exists>b. array_splice 0 (array_of [1 :: int, 2, 3]) 1 1 (length [8 :: int, 9]) (Some [8, 9]) = Some b \<and> arr_ok b \<and>
      arr_list b = [1, 8, 9, 3]) \<and>
   array_splice 0 (array_of [1 :: int, 2, 3]) 2 3 (length [7 :: int]) (Some [7]) = None"
proof
  show "\<exists>b. array_splice 0 (array_of [1 :: int, 2, 3]) 1 1 (length [8 :: int, 9]) (Some [8, 9]) = Some b \<and> arr_ok b \<and>
      arr_list b = [1, 8, 9, 3]"
    using array_splice_refines_list_splice [of "array_of [1 :: int, 2, 3]" "[8 :: int, 9]" 1 1 0] by simp
  show "array_splice 0 (array_of [1 :: int, 2, 3]) 2 3 (length [7 :: int]) (Some [7]) = None"
    using array_splice_refines_list_splice [of "array_of [1 :: int, 2, 3]" "[7 :: int]" 2 3 0] by simp
qed

end
