(* ===== verification/ScannerContract.thy ===== *)
theory ScannerContract
  imports Prelude
begin

text \<open>
  What the tree-sitter runtime relies on when it stores the state of an external scanner with
  a parse tree and scans again from it: \<^verbatim>\<open>serialize\<close> fits the runtime's buffer and
  \<^verbatim>\<open>deserialize\<close> brings the state back, whatever state the payload was in. \<open>meaning\<close> is the
  part of the payload a scan can see (capacities and unused cells are not).
\<close>

definition TREE_SITTER_SERIALIZATION_BUFFER_SIZE :: nat where
  "TREE_SITTER_SERIALIZATION_BUFFER_SIZE = 1024"

locale external_scanner =
  fixes serialize :: "'s \<Rightarrow> byte list option"
    and deserialize :: "'s \<Rightarrow> byte list \<Rightarrow> 's option"
    and meaning :: "'s \<Rightarrow> 'm"
    and ok :: "'s \<Rightarrow> bool"
  assumes saves: "ok s \<Longrightarrow> \<exists>bs. serialize s = Some bs \<and> length bs \<le> TREE_SITTER_SERIALIZATION_BUFFER_SIZE"
    and restores: "ok s \<Longrightarrow> ok t \<Longrightarrow> serialize s = Some bs \<Longrightarrow>
      \<exists>u. deserialize t bs = Some u \<and> ok u \<and> meaning u = meaning s"
    and same_bytes: "ok s \<Longrightarrow> ok t \<Longrightarrow> meaning s = meaning t \<Longrightarrow> serialize s = serialize t"
begin

lemma round_trip:
  assumes "ok s" and "ok t"
  shows "\<exists>bs u. serialize s = Some bs \<and> deserialize t bs = Some u \<and> ok u \<and> meaning u = meaning s \<and>
    serialize u = Some bs"
proof -
  obtain bs where bs: "serialize s = Some bs" using saves [OF assms(1)] by blast
  obtain u where u: "deserialize t bs = Some u" "ok u" "meaning u = meaning s"
    using restores [OF assms bs] by blast
  then show ?thesis using bs same_bytes [OF u(2) assms(1) u(3)] by metis
qed

end

text \<open>
  Running scans one after the other on one payload, and the way the runtime does it when it
  edits a tree: every state goes through its bytes into another payload before the next scan.
\<close>

primrec run_scans :: "('s \<Rightarrow> 'i \<Rightarrow> ('o \<times> 's) option) \<Rightarrow> 's \<Rightarrow> 'i list \<Rightarrow> 'o list option" where
  "run_scans step s [] = Some []"
| "run_scans step s (i # is) = do {
     (out, s') \<leftarrow> step s i;
     outs \<leftarrow> run_scans step s' is;
     Some (out # outs)
   }"

primrec run_restored ::
  "('s \<Rightarrow> byte list option) \<Rightarrow> ('s \<Rightarrow> byte list \<Rightarrow> 's option) \<Rightarrow> ('s \<Rightarrow> 'i \<Rightarrow> ('o \<times> 's) option) \<Rightarrow>
     's \<Rightarrow> 's \<Rightarrow> 'i list \<Rightarrow> 'o list option" where
  "run_restored serialize deserialize step payload s [] = Some []"
| "run_restored serialize deserialize step payload s (i # is) = do {
     bs \<leftarrow> serialize s;
     u \<leftarrow> deserialize payload bs;
     (out, u') \<leftarrow> step u i;
     outs \<leftarrow> run_restored serialize deserialize step payload u' is;
     Some (out # outs)
   }"

locale resumable_scanner = external_scanner +
  fixes step :: "'a \<Rightarrow> 'i \<Rightarrow> ('o \<times> 'a) option"
  assumes step_ok: "ok s \<Longrightarrow> step s i = Some (out, s') \<Longrightarrow> ok s'"
    and step_meaning: "ok s \<Longrightarrow> ok t \<Longrightarrow> meaning s = meaning t \<Longrightarrow> step s i = Some (out, s') \<Longrightarrow>
      \<exists>t'. step t i = Some (out, t') \<and> meaning t' = meaning s'"
begin

lemma run_same_meaning:
  "ok s \<Longrightarrow> ok t \<Longrightarrow> ok p \<Longrightarrow> meaning s = meaning t \<Longrightarrow> run_scans step s is = Some outs \<Longrightarrow>
     run_restored serialize deserialize step p t is = Some outs"
proof (induction "is" arbitrary: s t outs)
  case Nil
  then show ?case by simp
next
  case (Cons i "is")
  from Cons.prems(5) obtain out s' outs' where s': "step s i = Some (out, s')"
    and rest: "run_scans step s' is = Some outs'" and outs: "outs = out # outs'"
    by (auto split: bind_splits)
  obtain bs u where u: "serialize t = Some bs" "deserialize p bs = Some u" "ok u" "meaning u = meaning t"
    using round_trip [OF Cons.prems(2,3)] by blast
  obtain u' where u': "step u i = Some (out, u')" "meaning u' = meaning s'"
    using step_meaning [OF Cons.prems(1) u(3) _ s'] u(4) Cons.prems(4) by metis
  have "run_restored serialize deserialize step p u' is = Some outs'"
    using Cons.IH [OF step_ok [OF Cons.prems(1) s'] step_ok [OF u(3) u'(1)] Cons.prems(3) _ rest] u'(2)
    by simp
  then show ?case using u u' outs by simp
qed

lemma restoring_is_transparent:
  "ok s \<Longrightarrow> ok p \<Longrightarrow> run_scans step s is = Some outs \<Longrightarrow>
     run_restored serialize deserialize step p s is = Some outs"
  by (rule run_same_meaning) auto

end

end
