(* ===== verification/KotlinScanner.thy ===== *)
theory KotlinScanner
  imports TsLexer TsArray ScannerContract
begin

text \<open>
  The external scanner of the Kotlin grammar,
  \<^verbatim>\<open>crates/cli/vendor-grammars/tree-sitter-kotlin/src/scanner.c\<close>. Its state is a stack of string
  delimiters: the quote character for a plain string, the quote plus one for a triple-quoted
  string. A scan function returns whether it recognised a token, the lexer and the stack.
\<close>

datatype TokenType =
    AUTOMATIC_SEMICOLON
  | IMPORT_LIST_DELIMITER
  | SAFE_NAV
  | MULTILINE_COMMENT
  | STRING_START
  | STRING_END
  | STRING_CONTENT

type_synonym Delimiter = byte
type_synonym Stack = "Delimiter arr"
type_synonym 'l klexer = "('l, TokenType) tslexer"

abbreviation (input) DELIMITER_LENGTH :: nat where
  "DELIMITER_LENGTH \<equiv> 3"

definition stack_push :: "Stack \<Rightarrow> byte \<Rightarrow> bool \<Rightarrow> Stack option" where
  "stack_push stack c triple =
     (if size stack \<ge> TREE_SITTER_SERIALIZATION_BUFFER_SIZE then None
      else array_push stack (if triple then c + 1 else c))"

definition stack_pop :: "Stack \<Rightarrow> (Delimiter \<times> Stack) option" where
  "stack_pop stack = (if size stack = 0 then None else array_pop stack)"

subsection \<open>Strings\<close>

primrec string_start_loop :: "'l lexer_api \<Rightarrow> nat \<Rightarrow> 'l klexer \<Rightarrow> Stack \<Rightarrow> (bool \<times> 'l klexer \<times> Stack) option" where
  "string_start_loop A 0 lx stack = do {
     stack' \<leftarrow> stack_push stack (of_char CHR 0x22) True;
     Some (True, mark_end A lx, stack')
   }"
| "string_start_loop A (Suc n) lx stack =
     (if lookahead A lx \<noteq> ch CHR 0x22
      then do { stack' \<leftarrow> stack_push stack (of_char CHR 0x22) False; Some (True, lx, stack') }
      else string_start_loop A n (advance A lx) stack)"

definition scan_string_start :: "'l lexer_api \<Rightarrow> 'l klexer \<Rightarrow> Stack \<Rightarrow> (bool \<times> 'l klexer \<times> Stack) option" where
  "scan_string_start A lx stack =
     (if lookahead A lx \<noteq> ch CHR 0x22 then Some (False, lx, stack)
      else string_start_loop A (DELIMITER_LENGTH - 1) (mark_end A (advance A lx)) stack)"

text \<open>\<^verbatim>\<open>while (lookahead == end_char) { advance; mark_end; }\<close>\<close>

partial_function (option) mark_run :: "'l lexer_api \<Rightarrow> code \<Rightarrow> 'l klexer \<Rightarrow> 'l klexer option" where
  "mark_run A c lx = (if lookahead A lx = c then mark_run A c (mark_end A (advance A lx)) else Some lx)"

definition triple_end ::
  "'l lexer_api \<Rightarrow> code \<Rightarrow> bool \<Rightarrow> 'l klexer \<Rightarrow> Stack \<Rightarrow> (bool \<times> 'l klexer \<times> Stack) option" where
  "triple_end A end_char has_content lx stack =
     (let lx1 = advance A (mark_end A lx)
      in if lookahead A lx1 \<noteq> end_char
         then Some (True, set_symbol STRING_CONTENT (mark_end A lx1), stack)
         else let lx2 = advance A lx1
              in if lookahead A lx2 \<noteq> end_char
                 then Some (True, set_symbol STRING_CONTENT (mark_end A lx2), stack)
                 else if has_content \<and> lookahead A lx2 = end_char
                 then Some (True, set_symbol STRING_CONTENT lx2, stack)
                 else do {
                   lx3 \<leftarrow> mark_run A end_char (mark_end A (set_symbol STRING_END lx2));
                   (_, stack') \<leftarrow> stack_pop stack;
                   Some (True, lx3, stack')
                 })"

partial_function (option) string_content_loop ::
  "'l lexer_api \<Rightarrow> code \<Rightarrow> bool \<Rightarrow> bool \<Rightarrow> 'l klexer \<Rightarrow> Stack \<Rightarrow> (bool \<times> 'l klexer \<times> Stack) option" where
  "string_content_loop A end_char is_triple has_content lx stack =
     (if lookahead A lx = 0 then Some (False, lx, stack)
      else if lookahead A lx = ch CHR ''$''
      then if has_content then Some (True, set_symbol STRING_CONTENT lx, stack)
           else let lx1 = advance A lx
                in if iswalpha (lookahead A lx1) \<or> lookahead A lx1 = ch CHR ''{''
                   then Some (False, lx1, stack)
                   else Some (True, mark_end A (set_symbol STRING_CONTENT lx1), stack)
      else if lookahead A lx = ch CHR 0x5C
      then let lx1 = advance A lx
           in if lookahead A lx1 = ch CHR ''$''
              then let lx2 = advance A lx1
                   in if lookahead A lx2 = end_char
                      then do {
                        (_, stack') \<leftarrow> stack_pop stack;
                        Some (True, set_symbol STRING_END (mark_end A (advance A lx2)), stack')
                      }
                      else string_content_loop A end_char is_triple True (advance A lx2) stack
              else string_content_loop A end_char is_triple True (advance A lx1) stack
      else if lookahead A lx = end_char
      then if is_triple then triple_end A end_char has_content lx stack
           else if has_content then Some (True, set_symbol STRING_CONTENT (mark_end A lx), stack)
           else do {
             (_, stack') \<leftarrow> stack_pop stack;
             Some (True, set_symbol STRING_END (mark_end A (advance A lx)), stack')
           }
      else string_content_loop A end_char is_triple True (advance A lx) stack)"

text \<open>
  \<^verbatim>\<open>end_char\<close> is a \<^verbatim>\<open>char\<close> that is compared with the \<^verbatim>\<open>int32_t\<close> lookahead, so it is
  sign-extended.
\<close>

definition scan_string_content :: "'l lexer_api \<Rightarrow> 'l klexer \<Rightarrow> Stack \<Rightarrow> (bool \<times> 'l klexer \<times> Stack) option" where
  "scan_string_content A lx stack =
     (if size stack = 0 then Some (False, lx, stack)
      else do {
        end_char \<leftarrow> read_cell stack (size stack - 1);
        if odd (unat end_char)
        then string_content_loop A (scast (end_char - 1)) True False lx stack
        else string_content_loop A (scast end_char) False False lx stack
      })"

subsection \<open>Comments\<close>

partial_function (option) comment_loop :: "'l lexer_api \<Rightarrow> bool \<Rightarrow> nat \<Rightarrow> 'l klexer \<Rightarrow> (bool \<times> 'l klexer) option" where
  "comment_loop A after_star nesting_depth lx =
     (if lookahead A lx = ch CHR ''*'' then comment_loop A True nesting_depth (advance A lx)
      else if lookahead A lx = ch CHR ''/''
      then let lx1 = advance A lx
           in if after_star
              then let depth = u32_sub nesting_depth 1
                   in if depth = 0
                      then Some (True, mark_end A (set_symbol MULTILINE_COMMENT lx1))
                      else comment_loop A False depth lx1
              else if lookahead A lx1 = ch CHR ''*''
              then comment_loop A False (u32 (nesting_depth + 1)) (advance A lx1)
              else comment_loop A False nesting_depth lx1
      else if lookahead A lx = 0 then Some (False, lx)
      else comment_loop A False nesting_depth (advance A lx))"

definition scan_multiline_comment :: "'l lexer_api \<Rightarrow> 'l klexer \<Rightarrow> (bool \<times> 'l klexer) option" where
  "scan_multiline_comment A lx =
     (if lookahead A lx \<noteq> ch CHR ''/'' then Some (False, lx)
      else let lx1 = advance A lx
           in if lookahead A lx1 \<noteq> ch CHR ''*'' then Some (False, lx1)
              else comment_loop A False 1 (advance A lx1))"

subsection \<open>Automatic semicolons\<close>

definition scan_whitespace_and_comments :: "'l lexer_api \<Rightarrow> 'l klexer \<Rightarrow> (bool \<times> 'l klexer) option" where
  "scan_whitespace_and_comments A lx = do {
     lx' \<leftarrow> advance_while A True iswspace lx;
     Some (lookahead A lx' \<noteq> ch CHR ''/'', lx')
   }"

primrec word_loop :: "'l lexer_api \<Rightarrow> code list \<Rightarrow> 'l klexer \<Rightarrow> bool \<times> 'l klexer" where
  "word_loop A [] lx = (True, lx)"
| "word_loop A (w # ws) lx =
     (if lookahead A lx \<noteq> w then (False, lx) else word_loop A ws (skip A lx))"

definition scan_for_word :: "'l lexer_api \<Rightarrow> string \<Rightarrow> 'l klexer \<Rightarrow> bool \<times> 'l klexer" where
  "scan_for_word A word lx = word_loop A (codes word) (skip A lx)"

definition not_word :: "'l lexer_api \<Rightarrow> string \<Rightarrow> 'l klexer \<Rightarrow> bool \<times> 'l klexer" where
  "not_word A word lx = (let (found, lx') = scan_for_word A word lx in (\<not> found, lx'))"

text \<open>
  The first loop of \<^verbatim>\<open>scan_automatic_semicolon\<close>: \<open>Inl\<close> where it returns true, \<open>Inr\<close> with
  \<^verbatim>\<open>sameline\<close> where it breaks.
\<close>

partial_function (option) line_end_loop :: "'l lexer_api \<Rightarrow> 'l klexer \<Rightarrow> ('l klexer + bool \<times> 'l klexer) option" where
  "line_end_loop A lx =
     (if eof A lx then Some (Inl lx)
      else if lookahead A lx = ch CHR '';'' then Some (Inl (mark_end A (advance A lx)))
      else if \<not> iswspace (lookahead A lx) then Some (Inr (True, lx))
      else if lookahead A lx = 10 then Some (Inr (False, skip A lx))
      else if lookahead A lx = 13
      then let lx1 = skip A lx
           in Some (Inr (False, if lookahead A lx1 = 10 then skip A lx1 else lx1))
      else line_end_loop A (skip A lx))"

definition semicolon_same_line :: "'l lexer_api \<Rightarrow> 'l klexer \<Rightarrow> bool \<times> 'l klexer" where
  "semicolon_same_line A lx =
     (if lookahead A lx = ch CHR ''e'' then not_word A ''lse'' lx
      else if lookahead A lx = ch CHR ''i'' then scan_for_word A ''mport'' lx
      else if lookahead A lx = ch CHR '';'' then (True, mark_end A (advance A lx))
      else (False, lx))"

definition no_semicolon_before :: "code list" where
  "no_semicolon_before = codes '',.:*%><={[(?|&/''"

definition semicolon_next_line :: "'l lexer_api \<Rightarrow> 'l klexer \<Rightarrow> bool \<times> 'l klexer" where
  "semicolon_next_line A lx =
     (let c = lookahead A lx; lx1 = skip A lx
      in if c \<in> set no_semicolon_before then (False, lx)
         else if c = ch CHR ''+'' then
           (if lookahead A lx1 = ch CHR ''+'' then (True, lx1) else (iswdigit (lookahead A lx1), lx1))
         else if c = ch CHR ''-'' then
           (if lookahead A lx1 = ch CHR ''-'' then (True, lx1) else (iswdigit (lookahead A lx1), lx1))
         else if c = ch CHR ''!'' then (lookahead A lx1 \<noteq> ch CHR ''='', lx1)
         else if c = ch CHR ''e'' then not_word A ''lse'' lx
         else if c = ch CHR ''i'' then
           (if lookahead A lx1 \<noteq> ch CHR ''n'' then (True, lx1)
            else let lx2 = skip A lx1
                 in if \<not> iswalpha (lookahead A lx2) then (False, lx2)
                    else not_word A ''stanceof'' lx2)
         else if c = ch CHR '';'' then (True, mark_end A (advance A lx))
         else (True, lx))"

definition scan_automatic_semicolon :: "'l lexer_api \<Rightarrow> 'l klexer \<Rightarrow> (bool \<times> 'l klexer) option" where
  "scan_automatic_semicolon A lx = do {
     r \<leftarrow> line_end_loop A (mark_end A (set_symbol AUTOMATIC_SEMICOLON lx));
     case r of
       Inl lx1 \<Rightarrow> Some (True, lx1)
     | Inr (sameline, lx1) \<Rightarrow> do {
         (ok, lx2) \<leftarrow> scan_whitespace_and_comments A lx1;
         Some (if \<not> ok then (False, lx2)
               else if sameline then semicolon_same_line A lx2
               else semicolon_next_line A lx2)
       }
   }"

definition scan_safe_nav :: "'l lexer_api \<Rightarrow> 'l klexer \<Rightarrow> (bool \<times> 'l klexer) option" where
  "scan_safe_nav A lx = do {
     (ok1, lx1) \<leftarrow> scan_whitespace_and_comments A (mark_end A (set_symbol SAFE_NAV lx));
     if \<not> ok1 then Some (False, lx1)
     else if lookahead A lx1 \<noteq> ch CHR ''?'' then Some (False, lx1)
     else do {
       (ok2, lx2) \<leftarrow> scan_whitespace_and_comments A (advance A lx1);
       Some (if \<not> ok2 then (False, lx2)
             else if lookahead A lx2 \<noteq> ch CHR ''.'' then (False, lx2)
             else (True, mark_end A (advance A lx2)))
     }
   }"

subsection \<open>The end of an import list\<close>

definition is_blank :: "code \<Rightarrow> bool" where
  "is_blank c \<longleftrightarrow> c = 32 \<or> c = 9 \<or> c = 11"

text \<open>\<open>seen_cr\<close> is the local \<^verbatim>\<open>state\<close>: 1 once a carriage return was read.\<close>

partial_function (option) line_sep_loop :: "'l lexer_api \<Rightarrow> bool \<Rightarrow> 'l klexer \<Rightarrow> (bool \<times> 'l klexer) option" where
  "line_sep_loop A seen_cr lx =
     (if is_blank (lookahead A lx) then line_sep_loop A seen_cr (advance A lx)
      else if lookahead A lx = 10 then Some (True, advance A lx)
      else if lookahead A lx = 13
      then if seen_cr then Some (True, lx) else line_sep_loop A True (advance A lx)
      else Some (seen_cr, lx))"

definition scan_line_sep :: "'l lexer_api \<Rightarrow> 'l klexer \<Rightarrow> (bool \<times> 'l klexer) option" where
  "scan_line_sep A lx = line_sep_loop A False lx"

definition scan_import_list_delimiter :: "'l lexer_api \<Rightarrow> 'l klexer \<Rightarrow> (bool \<times> 'l klexer) option" where
  "scan_import_list_delimiter A lx =
     (let lx0 = mark_end A (set_symbol IMPORT_LIST_DELIMITER lx)
      in if eof A lx0 then Some (True, lx0)
         else do {
           (sep1, lx1) \<leftarrow> scan_line_sep A lx0;
           if \<not> sep1 then Some (False, lx1)
           else do {
             (sep2, lx2) \<leftarrow> scan_line_sep A lx1;
             Some (if sep2 then (True, mark_end A lx2)
                   else if is_blank (lookahead A lx2) then (False, advance A lx2)
                   else if lookahead A lx2 = ch CHR ''i'' then not_word A ''mport'' lx2
                   else (True, lx2))
           }
         })"

subsection \<open>The entry points\<close>

text \<open>The last stages of \<^verbatim>\<open>tree_sitter_kotlin_external_scanner_scan\<close>, from the string content on.\<close>

definition kotlin_scan_comment ::
  "'l lexer_api \<Rightarrow> Stack \<Rightarrow> 'l klexer \<Rightarrow> (TokenType \<Rightarrow> bool) \<Rightarrow> (bool \<times> 'l klexer \<times> Stack) option" where
  "kotlin_scan_comment A stack lx valid_symbols = do {
     (comment, lx1) \<leftarrow>
       (if valid_symbols MULTILINE_COMMENT then scan_multiline_comment A lx else Some (False, lx));
     if comment then Some (True, lx1, stack)
     else if valid_symbols SAFE_NAV
     then do { (r, lx2) \<leftarrow> scan_safe_nav A lx1; Some (r, lx2, stack) }
     else Some (False, lx1, stack)
   }"

definition kotlin_scan_string ::
  "'l lexer_api \<Rightarrow> Stack \<Rightarrow> 'l klexer \<Rightarrow> (TokenType \<Rightarrow> bool) \<Rightarrow> (bool \<times> 'l klexer \<times> Stack) option" where
  "kotlin_scan_string A stack lx valid_symbols = do {
     (content, lx1, stack1) \<leftarrow>
       (if valid_symbols STRING_CONTENT then scan_string_content A lx stack
        else Some (False, lx, stack));
     if content then Some (True, lx1, stack1)
     else do {
       lx2 \<leftarrow> advance_while A True iswspace lx1;
       (start, lx3, stack3) \<leftarrow>
         (if valid_symbols STRING_START then scan_string_start A lx2 stack1
          else Some (False, lx2, stack1));
       if start then Some (True, set_symbol STRING_START lx3, stack3)
       else kotlin_scan_comment A stack3 lx3 valid_symbols
     }
   }"

definition kotlin_scan ::
  "'l lexer_api \<Rightarrow> Stack \<Rightarrow> 'l klexer \<Rightarrow> (TokenType \<Rightarrow> bool) \<Rightarrow> (bool \<times> 'l klexer \<times> Stack) option" where
  "kotlin_scan A stack lx valid_symbols = do {
     (done_now, ret, lx1) \<leftarrow> (if valid_symbols AUTOMATIC_SEMICOLON
       then do {
         (ret, lx0) \<leftarrow> scan_automatic_semicolon A lx;
         if \<not> ret \<and> valid_symbols SAFE_NAV \<and> lookahead A lx0 = ch CHR ''?''
         then do { (r, lx1) \<leftarrow> scan_safe_nav A lx0; Some (True, r, lx1) }
         else Some (ret, ret, lx0)
       }
       else Some (False, False, lx));
     if done_now then Some (ret, lx1, stack)
     else if valid_symbols IMPORT_LIST_DELIMITER
     then do { (r, lx2) \<leftarrow> scan_import_list_delimiter A lx1; Some (r, lx2, stack) }
     else kotlin_scan_string A stack lx1 valid_symbols
   }"

definition kotlin_create :: Stack where
  "kotlin_create = array_init array_new"

definition kotlin_destroy :: "Stack \<Rightarrow> Stack" where
  "kotlin_destroy stack = array_delete stack"

text \<open>
  The buffer of the runtime holds \<^verbatim>\<open>TREE_SITTER_SERIALIZATION_BUFFER_SIZE\<close> bytes: writing past it
  is \<open>None\<close>.
\<close>

definition kotlin_serialize :: "Stack \<Rightarrow> byte list option" where
  "kotlin_serialize stack =
     (if size stack > TREE_SITTER_SERIALIZATION_BUFFER_SIZE \<or> size stack > length (contents stack) then None
      else those (take (size stack) (contents stack)))"

definition kotlin_deserialize :: "Stack \<Rightarrow> byte list \<Rightarrow> Stack option" where
  "kotlin_deserialize stack buffer =
     (if length buffer > 0
      then map_option (\<lambda>b. b\<lparr>size := length buffer\<rparr>)
             (write_cells (array_reserve stack (length buffer)) 0 (map Some buffer))
      else Some (array_clear stack))"


subsection \<open>The stack\<close>

definition kotlin_ok :: "Stack \<Rightarrow> bool" where
  "kotlin_ok stack \<longleftrightarrow> arr_ok stack \<and> size stack \<le> 1024 \<and> set (arr_list stack) \<subseteq> {34, 35}"

lemmas buffer_size = TREE_SITTER_SERIALIZATION_BUFFER_SIZE_def

lemma kotlin_okD: "kotlin_ok stack \<Longrightarrow> arr_ok stack"
  by (simp add: kotlin_ok_def)

lemma stack_push_ok:
  assumes "arr_ok stack" and "size stack < 1024"
  shows "\<exists>b. stack_push stack c triple = Some b \<and> arr_ok b \<and> size b = size stack + 1 \<and>
    arr_list b = arr_list stack @ [if triple then c + 1 else c]"
  using array_push_ok [OF assms(1), of "if triple then c + 1 else c"] assms
  by (cases triple) (auto simp: stack_push_def buffer_size)

lemma stack_push_SomeD:
  assumes "stack_push stack c triple = Some b" and "arr_ok stack"
  shows "arr_ok b" "size b = size stack + 1" "size stack < 1024"
    "arr_list b = arr_list stack @ [if triple then c + 1 else c]"
proof -
  show lt: "size stack < 1024" using assms(1)
    by (simp add: stack_push_def buffer_size split: if_splits)
  show "arr_ok b" "size b = size stack + 1" "arr_list b = arr_list stack @ [if triple then c + 1 else c]"
    using stack_push_ok [OF assms(2) lt, of c triple] assms(1) by auto
qed

lemma stack_pop_SomeD:
  assumes "stack_pop stack = Some (x, b)" and "arr_ok stack"
  shows "arr_ok b" "size b = size stack - 1" "arr_list b = butlast (arr_list stack)" "0 < size stack"
proof -
  show pos: "0 < size stack" using assms(1) by (simp add: stack_pop_def split: if_splits)
  show "arr_ok b" "size b = size stack - 1" "arr_list b = butlast (arr_list stack)"
    using array_pop_ok [OF assms(2) pos] assms(1) pos by (auto simp: stack_pop_def)
qed

lemma stack_pop_ok:
  assumes "arr_ok stack" and "0 < size stack"
  shows "\<exists>b. stack_pop stack = Some (last (arr_list stack), b) \<and> arr_ok b \<and>
    arr_list b = butlast (arr_list stack) \<and> size b = size stack - 1"
  using array_pop_ok [OF assms] assms(2) by (simp add: stack_pop_def)

lemma stack_push_keeps: "stack_push stack 34 triple = Some b \<Longrightarrow> kotlin_ok stack \<Longrightarrow> kotlin_ok b"
  using stack_push_SomeD [of stack 34 triple b] by (auto simp: kotlin_ok_def)

lemma stack_pop_keeps: "stack_pop stack = Some (x, b) \<Longrightarrow> kotlin_ok stack \<Longrightarrow> kotlin_ok b"
  using stack_pop_SomeD [of stack x b] by (auto simp: kotlin_ok_def dest: in_set_butlastD)

text \<open>A string scan leaves the stack alone or pops it once; a string start pushes once.\<close>

lemma triple_end_stack:
  "triple_end A c h lx stack = Some res \<Longrightarrow>
     snd (snd res) = stack \<or> (\<exists>x. stack_pop stack = Some (x, snd (snd res)))"
  by (auto simp: triple_end_def Let_def split: if_splits bind_splits)

lemma string_content_loop_stack:
  assumes "string_content_loop A c t h lx stack = Some res"
  shows "snd (snd res) = stack \<or> (\<exists>x. stack_pop stack = Some (x, snd (snd res)))"
proof (rule string_content_loop.raw_induct [where P = "\<lambda>A c t h lx stack res.
      snd (snd res) = stack \<or> (\<exists>x. stack_pop stack = Some (x, snd (snd res)))", OF _ assms], goal_cases)
  case (1 loop A c t h lx stack res)
  then show ?case
    by (auto simp: Let_def dest: triple_end_stack split: if_splits bind_splits)
qed

lemma scan_string_content_stack:
  "scan_string_content A lx stack = Some (r, lx', stack') \<Longrightarrow>
     stack' = stack \<or> (\<exists>x. stack_pop stack = Some (x, stack'))"
  by (auto simp: scan_string_content_def split: if_splits bind_splits dest!: string_content_loop_stack)

text \<open>Only a scan that gives a token pops the stack.\<close>

lemma string_content_loop_no_token:
  assumes "string_content_loop A c t h lx stack = Some res"
  shows "\<not> fst res \<longrightarrow> snd (snd res) = stack"
proof (rule string_content_loop.raw_induct [where P = "\<lambda>A c t h lx stack res.
      \<not> fst res \<longrightarrow> snd (snd res) = stack", OF _ assms], goal_cases)
  case (1 loop A c t h lx stack res)
  then show ?case
    by (auto simp: Let_def triple_end_def split: if_splits bind_splits)
qed

lemma scan_string_content_no_token:
  "scan_string_content A lx stack = Some (False, lx', stack') \<Longrightarrow> stack' = stack"
  by (auto simp: scan_string_content_def split: if_splits bind_splits dest!: string_content_loop_no_token)

lemma string_start_loop_stack:
  "string_start_loop A n lx stack = Some (r, lx', stack') \<Longrightarrow> \<exists>triple. stack_push stack 34 triple = Some stack'"
  by (induction n arbitrary: lx) (auto split: if_splits bind_splits)

lemma scan_string_start_stack:
  "scan_string_start A lx stack = Some (r, lx', stack') \<Longrightarrow>
     stack' = stack \<or> (\<exists>triple. stack_push stack 34 triple = Some stack')"
  by (auto simp: scan_string_start_def split: if_splits dest: string_start_loop_stack)

lemma scan_string_keeps:
  "scan_string_content A lx stack = Some (r, lx', stack') \<Longrightarrow> kotlin_ok stack \<Longrightarrow> kotlin_ok stack'"
  "scan_string_start A lx stack = Some (r, lx', stack') \<Longrightarrow> kotlin_ok stack \<Longrightarrow> kotlin_ok stack'"
  using scan_string_content_stack stack_pop_keeps scan_string_start_stack stack_push_keeps by blast+

lemma kotlin_scan_comment_stack:
  "kotlin_scan_comment A stack lx valid = Some (r, lx', stack') \<Longrightarrow> stack' = stack"
  by (auto simp: kotlin_scan_comment_def split: if_splits bind_splits)

lemma kotlin_scan_string_keeps:
  assumes "kotlin_scan_string A stack lx valid = Some (r, lx', stack')" and "kotlin_ok stack"
  shows "kotlin_ok stack'"
proof -
  obtain c lx1 stack1 where c: "(if valid STRING_CONTENT then scan_string_content A lx stack
      else Some (False, lx, stack)) = Some (c, lx1, stack1)"
    using assms(1) by (auto simp: kotlin_scan_string_def split: bind_splits)
  have ok1: "kotlin_ok stack1" using c assms(2) scan_string_keeps(1) by (auto split: if_splits)
  show ?thesis
  proof (cases c)
    case True
    then show ?thesis using assms(1) c ok1 by (simp add: kotlin_scan_string_def)
  next
    case False
    then obtain lx2 s lx3 stack3 where
      s: "(if valid STRING_START then scan_string_start A lx2 stack1 else Some (False, lx2, stack1))
        = Some (s, lx3, stack3)"
      and rest: "(if s then Some (True, set_symbol STRING_START lx3, stack3)
        else kotlin_scan_comment A stack3 lx3 valid) = Some (r, lx', stack')"
      using assms(1) c by (auto simp: kotlin_scan_string_def split: bind_splits)
    have "kotlin_ok stack3" using s ok1 scan_string_keeps(2) by (auto split: if_splits)
    then show ?thesis using rest by (auto split: if_splits dest: kotlin_scan_comment_stack)
  qed
qed

lemma kotlin_scan_keeps_ok:
  assumes "kotlin_ok stack" and "kotlin_scan A stack lx valid = Some (r, lx', stack')"
  shows "kotlin_ok stack'"
  using assms
  by (auto simp: kotlin_scan_def split: if_splits bind_splits dest: kotlin_scan_string_keeps)


subsection \<open>Saving and restoring the stack\<close>

lemma kotlin_serialize_eq:
  assumes "kotlin_ok stack"
  shows "kotlin_serialize stack = Some (arr_list stack)"
proof -
  have a: "arr_ok stack" "size stack \<le> 1024" using assms by (simp_all add: kotlin_ok_def)
  then have "size stack \<le> length (contents stack)" by (simp add: arr_ok_def)
  then show ?thesis using a by (simp add: kotlin_serialize_def buffer_size live_cells)
qed

lemma kotlin_deserialize_eq:
  assumes "arr_ok stack" and "length bs < 2 ^ 32"
  shows "\<exists>u. kotlin_deserialize stack bs = Some u \<and> arr_ok u \<and> arr_list u = bs"
proof (cases "bs = []")
  case True
  then show ?thesis using assms(1) by (simp add: kotlin_deserialize_def)
next
  case False
  note r = array_reserve_ok [OF assms]
  let ?r = "array_reserve stack (length bs)"
  let ?u = "?r\<lparr>contents := map Some bs @ drop (length bs) (contents ?r), size := length bs\<rparr>"
  have "kotlin_deserialize stack bs = Some ?u"
    using False r by (simp add: kotlin_deserialize_def write_cells_def arr_ok_def)
  moreover have "length (contents ?u) = capacity ?u" "capacity ?u < 2 ^ 32" "size ?u = length bs"
    using r by (simp_all add: arr_ok_def)
  moreover have "take (length bs) (contents ?u) = map Some bs" by simp
  ultimately show ?thesis using arr_okI by blast
qed

interpretation kotlin: external_scanner kotlin_serialize kotlin_deserialize arr_list kotlin_ok
proof
  fix s t :: Stack
  assume s: "kotlin_ok s"
  then have len: "length (arr_list s) \<le> 1024" by (simp add: kotlin_ok_def)
  show "\<exists>bs. kotlin_serialize s = Some bs \<and> length bs \<le> TREE_SITTER_SERIALIZATION_BUFFER_SIZE"
    using len by (simp add: kotlin_serialize_eq [OF s] buffer_size)
  assume t: "kotlin_ok t"
  show "arr_list s = arr_list t \<Longrightarrow> kotlin_serialize s = kotlin_serialize t"
    by (simp add: kotlin_serialize_eq s t)
  fix bs
  assume "kotlin_serialize s = Some bs"
  then have bs: "bs = arr_list s" by (simp add: kotlin_serialize_eq [OF s])
  obtain u where u: "kotlin_deserialize t bs = Some u" "arr_ok u" "arr_list u = bs"
    using kotlin_deserialize_eq [OF kotlin_okD [OF t], of bs] len bs by auto
  then have "kotlin_ok u" using s bs length_arr_list [OF u(2)] len by (auto simp: kotlin_ok_def)
  then show "\<exists>u. kotlin_deserialize t bs = Some u \<and> kotlin_ok u \<and> arr_list u = arr_list s"
    using u bs by blast
qed

text \<open>A scan sees of its stack only the list of delimiters.\<close>

lemma same_size: "arr_ok s \<Longrightarrow> arr_ok t \<Longrightarrow> arr_list s = arr_list t \<Longrightarrow> size s = size t"
  by (metis length_arr_list)

lemma stack_pop_same:
  assumes "stack_pop s = Some (x, s')" and "arr_ok s" and "arr_ok t" and "arr_list s = arr_list t"
  shows "\<exists>t'. stack_pop t = Some (x, t') \<and> arr_list t' = arr_list s'"
proof -
  have "0 < size s" using assms(1,2) by (rule stack_pop_SomeD)
  moreover from this have "0 < size t" using same_size [OF assms(2-)] by simp
  ultimately show ?thesis
    using stack_pop_ok [of s] stack_pop_ok [of t] assms by auto
qed

lemma stack_push_same:
  assumes "stack_push s c triple = Some s'" and "arr_ok s" and "arr_ok t" and "arr_list s = arr_list t"
  shows "\<exists>t'. stack_push t c triple = Some t' \<and> arr_list t' = arr_list s'"
  using stack_push_SomeD [OF assms(1,2)] stack_push_ok [OF assms(3), of c triple]
    same_size [OF assms(2-)] assms(4) by auto

text \<open>
  Which token a scan returns does not depend on the stack, only whether it may be popped:
  \<open>uniform f\<close> says so of a scan as a function of its stack.
\<close>

definition uniform :: "(Stack \<Rightarrow> (bool \<times> 'l klexer \<times> Stack) option) \<Rightarrow> bool" where
  "uniform f \<longleftrightarrow> (\<forall>s. f s = None) \<or> (\<exists>r lx. (\<forall>s. f s = Some (r, lx, s)) \<or>
     (\<forall>s. f s = do { (_, s') \<leftarrow> stack_pop s; Some (r, lx, s') }))"

lemma uniformI [intro]:
  "uniform (\<lambda>s. None)"
  "uniform (\<lambda>s. Some (r, lx, s))"
  "uniform (\<lambda>s. do { (_, s') \<leftarrow> stack_pop s; Some (r, lx, s') })"
  by (auto simp: uniform_def)

lemma uniform_if: "(b \<Longrightarrow> uniform f) \<Longrightarrow> (\<not> b \<Longrightarrow> uniform g) \<Longrightarrow> uniform (\<lambda>s. if b then f s else g s)"
  by (cases b) simp_all

lemma uniform_bind: "(\<And>x. uniform (\<lambda>s. f x s)) \<Longrightarrow> uniform (\<lambda>s. do { x \<leftarrow> m; f x s })"
  by (cases m) (auto simp: uniform_def)

lemma uniform_same:
  assumes "uniform f" and "f s = Some (r, lx, s')" and "arr_ok s" "arr_ok t" "arr_list s = arr_list t"
  shows "\<exists>t'. f t = Some (r, lx, t') \<and> arr_list t' = arr_list s'"
proof -
  consider "\<forall>s. f s = None" | (keep) q l where "\<forall>s. f s = Some (q, l, s)" |
    (pop) q l where "\<forall>s. f s = do { (_, s') \<leftarrow> stack_pop s; Some (q, l, s') }"
    using assms(1) unfolding uniform_def by blast
  then show ?thesis
  proof cases
    case 1
    then show ?thesis using assms(2) by simp
  next
    case keep
    then show ?thesis using assms(2,5) by simp
  next
    case pop
    then obtain x where "stack_pop s = Some (x, s')" "q = r" "l = lx"
      using assms(2) by (auto split: bind_splits)
    moreover from this obtain t' where "stack_pop t = Some (x, t')" "arr_list t' = arr_list s'"
      using stack_pop_same [OF _ assms(3-5)] by blast
    ultimately show ?thesis using pop by simp
  qed
qed

lemma uniform_cong: "(\<And>s. f s = g s) \<Longrightarrow> uniform g \<Longrightarrow> uniform f"
  by (simp add: uniform_def)

lemma uniform_triple_end: "uniform (triple_end A c h lx)"
  unfolding triple_end_def Let_def
  by (intro uniform_if uniform_bind uniformI)

lemma uniform_content_loop:
  assumes "string_content_loop A c tr h lx s = Some res"
  shows "uniform (string_content_loop A c tr h lx)"
proof (rule string_content_loop.raw_induct [where P = "\<lambda>A c tr h lx s res.
    uniform (string_content_loop A c tr h lx)", OF _ assms], goal_cases)
  case (1 loop A c tr h lx s res)
  show ?case
    by (rule uniform_cong [OF string_content_loop.simps], unfold Let_def,
        intro uniform_if uniformI uniform_triple_end)
       (use 1 in \<open>auto simp: Let_def split: if_splits\<close>)
qed

lemma scan_string_content_same:
  assumes "scan_string_content A lx s = Some (r, lx', s')" and "kotlin_ok s" and "kotlin_ok t"
    and "arr_list s = arr_list t"
  shows "\<exists>t'. scan_string_content A lx t = Some (r, lx', t') \<and> arr_list t' = arr_list s'"
proof -
  have ok: "arr_ok s" "arr_ok t" using assms(2,3) by (simp_all add: kotlin_okD)
  note sz = same_size [OF ok assms(4)]
  have cell: "0 < size s \<Longrightarrow> read_cell t (size t - 1) = read_cell s (size s - 1)"
    using read_live [OF ok(1), of "size s - 1"] read_live [OF ok(2), of "size t - 1"] sz assms(4) by simp
  have loop: "string_content_loop A c tr h lx s = Some (r, lx', s') \<Longrightarrow>
      \<exists>t'. string_content_loop A c tr h lx t = Some (r, lx', t') \<and> arr_list t' = arr_list s'" for c tr h
    using uniform_same [OF uniform_content_loop] ok assms(4) by blast
  show ?thesis using assms(1,4) sz cell
    by (auto simp: scan_string_content_def split: if_splits bind_splits dest: loop)
qed

lemma scan_string_start_same:
  assumes "scan_string_start A lx s = Some (r, lx', s')" and "kotlin_ok s" and "kotlin_ok t"
    and "arr_list s = arr_list t"
  shows "\<exists>t'. scan_string_start A lx t = Some (r, lx', t') \<and> arr_list t' = arr_list s'"
proof -
  have push: "stack_push s c triple = Some u \<Longrightarrow> \<exists>v. stack_push t c triple = Some v \<and> arr_list v = arr_list u"
    for c triple u
    using stack_push_same [OF _ kotlin_okD [OF assms(2)] kotlin_okD [OF assms(3)] assms(4)] by blast
  have "string_start_loop A n l s = Some (r, lx', s') \<Longrightarrow>
      \<exists>t'. string_start_loop A n l t = Some (r, lx', t') \<and> arr_list t' = arr_list s'" for n l
    by (induction n arbitrary: l) (auto split: if_splits bind_splits dest!: push)
  then show ?thesis using assms(1,4) by (auto simp: scan_string_start_def split: if_splits)
qed

lemma kotlin_scan_comment_same:
  "kotlin_scan_comment A s lx v = Some (r, lx', s') \<Longrightarrow> kotlin_scan_comment A t lx v = Some (r, lx', t)"
  by (auto simp: kotlin_scan_comment_def split: if_splits bind_splits)

lemma kotlin_scan_string_same:
  assumes "kotlin_scan_string A s lx v = Some (r, lx', s')" and "kotlin_ok s" and "kotlin_ok t"
    and "arr_list s = arr_list t"
  shows "\<exists>t'. kotlin_scan_string A t lx v = Some (r, lx', t') \<and> arr_list t' = arr_list s'"
proof -
  let ?C = "\<lambda>s. if v STRING_CONTENT then scan_string_content A lx s else Some (False, lx, s)"
  let ?S = "\<lambda>lx s. if v STRING_START then scan_string_start A lx s else Some (False, lx, s)"
  obtain c lx1 s1 where c: "?C s = Some (c, lx1, s1)"
    using assms(1) by (auto simp: kotlin_scan_string_def split: bind_splits)
  obtain t1 where t1: "?C t = Some (c, lx1, t1)" "arr_list t1 = arr_list s1"
    using scan_string_content_same [of A lx s c lx1 s1 t] c assms(2-) by (auto split: if_splits)
  have ok1: "kotlin_ok s1" "kotlin_ok t1"
    using c t1(1) assms(2,3) scan_string_keeps(1) by (auto split: if_splits)
  show ?thesis
  proof (cases c)
    case True
    then show ?thesis using assms(1) c t1 by (simp add: kotlin_scan_string_def)
  next
    case False
    then obtain lx2 b lx3 s3 where w: "advance_while A True iswspace lx1 = Some lx2"
      and b: "?S lx2 s1 = Some (b, lx3, s3)"
      and rest: "(if b then Some (True, set_symbol STRING_START lx3, s3)
        else kotlin_scan_comment A s3 lx3 v) = Some (r, lx', s')"
      using assms(1) c by (auto simp: kotlin_scan_string_def split: bind_splits)
    obtain t3 where t3: "?S lx2 t1 = Some (b, lx3, t3)" "arr_list t3 = arr_list s3"
      using scan_string_start_same [of A lx2 s1 b lx3 s3 t1] b ok1 t1(2) by (auto split: if_splits)
    have run: "kotlin_scan_string A t lx v = (if b then Some (True, set_symbol STRING_START lx3, t3)
        else kotlin_scan_comment A t3 lx3 v)"
      unfolding kotlin_scan_string_def t1(1) using False w t3(1) by simp
    show ?thesis unfolding run using rest t3(2) kotlin_scan_comment_same kotlin_scan_comment_stack
      by (cases b) (auto, fastforce)
  qed
qed

lemma kotlin_scan_same:
  assumes "kotlin_scan A s lx v = Some (r, lx', s')" and "kotlin_ok s" and "kotlin_ok t"
    and "arr_list s = arr_list t"
  shows "\<exists>t'. kotlin_scan A t lx v = Some (r, lx', t') \<and> arr_list t' = arr_list s'"
  using assms
  by (auto simp: kotlin_scan_def split: if_splits bind_splits dest: kotlin_scan_string_same [OF _ assms(2-)])

text \<open>One call of the scanner as the runtime sees it.\<close>

definition kotlin_step ::
  "'l lexer_api \<Rightarrow> Stack \<Rightarrow> 'l klexer \<times> (TokenType \<Rightarrow> bool) \<Rightarrow> ((bool \<times> 'l klexer) \<times> Stack) option" where
  "kotlin_step A stack i = do {
     (r, lx, stack') \<leftarrow> kotlin_scan A stack (fst i) (snd i);
     Some ((r, lx), stack')
   }"

interpretation kotlin_resume: resumable_scanner kotlin_serialize kotlin_deserialize arr_list kotlin_ok "kotlin_step A"
proof
  fix s t s' :: Stack and i out
  assume s: "kotlin_ok s" and st: "kotlin_step A s i = Some (out, s')"
  then obtain r lx where k: "kotlin_scan A s (fst i) (snd i) = Some (r, lx, s')" "out = (r, lx)"
    by (auto simp: kotlin_step_def split: bind_splits)
  show "kotlin_ok s'" using kotlin_scan_keeps_ok [OF s k(1)] .
  assume t: "kotlin_ok t" and e: "arr_list s = arr_list t"
  show "\<exists>t'. kotlin_step A t i = Some (out, t') \<and> arr_list t' = arr_list s'"
    using kotlin_scan_same [OF k(1) s t e] k(2) by (auto simp: kotlin_step_def)
qed

subsection \<open>Comments end where their openers are all closed\<close>

text \<open>
  The reference for block comments: the length of the text that closes \<open>d\<close> open comments,
  reading the text as a sequence of openers, closers and other characters. A NUL or the end
  of the text leaves the comment open.
\<close>

fun comment_close :: "nat \<Rightarrow> code list \<Rightarrow> nat option" where
  "comment_close d [] = None"
| "comment_close d (c # cs) =
     (if c = 0 then None
      else if c = ch CHR ''/'' \<and> peek cs = ch CHR ''*'' then map_option ((+) 2) (comment_close (d + 1) (tl cs))
      else if c = ch CHR ''*'' \<and> peek cs = ch CHR ''/'' then
        (if d = 1 then Some 2 else map_option ((+) 2) (comment_close (d - 1) (tl cs)))
      else map_option Suc (comment_close d cs))"

lemma comment_close_le: "comment_close d cs = Some n \<Longrightarrow> n \<le> length cs"
proof (induction d cs arbitrary: n rule: comment_close.induct)
  case (1 d)
  then show ?case by simp
next
  case (2 d c cs)
  have "peek cs \<noteq> 0 \<Longrightarrow> cs \<noteq> []" by auto
  with 2 show ?case by (cases cs) (auto split: if_splits dest!: 2(1,2,3))
qed

text \<open>The loop of the scanner on a plain list, with the star it remembers.\<close>

fun comment_run :: "bool \<Rightarrow> nat \<Rightarrow> code list \<Rightarrow> nat option" where
  "comment_run star d [] = None"
| "comment_run star d (c # cs) =
     (if c = ch CHR ''*'' then map_option Suc (comment_run True d cs)
      else if c = ch CHR ''/''
      then if star then if d = 1 then Some 1 else map_option Suc (comment_run False (d - 1) cs)
           else if peek cs = ch CHR ''*'' then map_option ((+) 2) (comment_run False (d + 1) (tl cs))
           else map_option Suc (comment_run False d cs)
      else if c = 0 then None
      else map_option Suc (comment_run False d cs))"

declare comment_close.simps(2) [simp del] comment_run.simps(2) [simp del]

lemma map_Suc_plus: "map_option Suc (map_option Suc m) = map_option ((+) 2) m"
  by (cases m) simp_all

lemma comment_run_close:
  "comment_run False d cs = comment_close d cs \<and>
   map_option Suc (comment_run True d cs) = comment_close d (ch CHR ''*'' # cs)"
proof (induction "length cs" arbitrary: d cs rule: less_induct)
  case less
  show ?case
  proof (cases cs)
    case Nil
    then show ?thesis by (simp add: comment_close.simps(2))
  next
    case (Cons c cs')
    have IH: "comment_run False e cs' = comment_close e cs'"
      "map_option Suc (comment_run True e cs') = comment_close e (ch CHR ''*'' # cs')"
      "comment_run False e (tl cs') = comment_close e (tl cs')" for e
      using less [of cs' e] less [of "tl cs'" e] Cons by simp_all
    have F: "comment_run False d cs = comment_close d cs"
    proof (cases "c = ch CHR ''*''")
      case True
      then show ?thesis using IH(2) [of d] by (simp add: Cons comment_run.simps(2))
    next
      case False
      then show ?thesis using IH by (simp add: Cons comment_run.simps(2) comment_close.simps(2))
    qed
    have "map_option Suc (comment_run True d cs) = comment_close d (ch CHR ''*'' # cs)"
    proof (cases "c = ch CHR ''/''")
      case True
      then show ?thesis using IH
        by (simp add: Cons comment_run.simps(2) comment_close.simps(2) map_Suc_plus)
    next
      case False
      then have "comment_run True d cs = comment_run False d cs" by (simp add: Cons comment_run.simps(2))
      then show ?thesis using False F by (simp add: Cons comment_close.simps(2) [of d "42"])
    qed
    with F show ?thesis by simp
  qed
qed

context ts_lexer
begin

lemma comment_loop_run:
  assumes "0 < d" and "d + length (todo (vw lx)) < 2 ^ 32"
  shows "case comment_run star d (todo (vw lx)) of
       Some n \<Rightarrow> \<exists>lx'. comment_loop A star d lx = Some (True, lx') \<and>
         result_symbol lx' = MULTILINE_COMMENT \<and> vw lx' = v_mark (v_skip n (vw lx))
     | None \<Rightarrow> \<exists>lx'. comment_loop A star d lx = Some (False, lx')"
    (is "?P star d lx")
  using assms
proof (induction "length (todo (vw lx))" arbitrary: star d lx rule: less_induct)
  case less
  show ?case
  proof (cases "todo (vw lx)")
    case Nil
    then show ?thesis by (simp add: comment_loop.simps)
  next
    case (Cons c cs)
    let ?l1 = "advance A lx"
    let ?l2 = "advance A ?l1"
    have IH1: "?P s e ?l1" if "0 < e" "e \<le> d" for s e
      using less.hyps [of ?l1 e s] less.prems that Cons by simp
    have IH2: "?P False (d + 1) ?l2" if "cs \<noteq> []"
      using less.hyps [of ?l2 "d + 1" False] less.prems that Cons by (cases cs) simp_all
    have step: "?P star d lx" if "comment_loop A star d lx = comment_loop A s e ?l1"
      "comment_run star d (c # cs) = map_option Suc (comment_run s e cs)" "0 < e" "e \<le> d" for s e
      using IH1 [OF that(3,4), of s] that(1,2) Cons by (auto split: option.splits)
    consider (star) "c = ch CHR ''*''" | (close) "c = ch CHR ''/''" star |
      (slash) "c = ch CHR ''/''" "\<not> star" | (nul) "c = 0" |
      (other) "c \<noteq> 0" "c \<noteq> ch CHR ''*''" "c \<noteq> ch CHR ''/''" by blast
    then show ?thesis
    proof cases
      case star
      show ?thesis by (rule step [of True d])
          (use star Cons less.prems in \<open>simp_all add: comment_loop.simps [of A star] comment_run.simps(2)\<close>)
    next
      case close
      have d: "u32_sub d 1 = d - 1" using less.prems by simp
      show ?thesis
      proof (cases "d = 1")
        case True
        then show ?thesis using close Cons
          by (simp add: comment_loop.simps [of A True "Suc 0" lx] comment_run.simps(2) v_advance_skip)
      next
        case False
        show ?thesis by (rule step [of False "d - 1"])
            (use False close Cons less.prems d in
              \<open>simp_all add: comment_loop.simps [of A True d lx] comment_run.simps(2) Let_def\<close>)
      qed
    next
      case slash
      show ?thesis
      proof (cases "peek cs = ch CHR ''*''")
        case True
        then have "cs \<noteq> []" by auto
        then show ?thesis using IH2 True slash Cons less.prems
          by (auto simp: comment_loop.simps [of A False d lx] comment_run.simps(2) split: option.splits)
      next
        case False
        show ?thesis by (rule step [of False d])
            (use False slash Cons less.prems in
              \<open>simp_all add: comment_loop.simps [of A False d lx] comment_run.simps(2)\<close>)
      qed
    next
      case nul
      then show ?thesis using Cons by (simp add: comment_loop.simps comment_run.simps(2))
    next
      case other
      show ?thesis by (rule step [of False d])
          (use other Cons less.prems in \<open>simp_all add: comment_loop.simps [of A star] comment_run.simps(2)\<close>)
    qed
  qed
qed

lemma scan_multiline_comment_spec:
  fixes lx :: "('l, TokenType) tslexer"
  assumes "length (todo (vw lx)) < 2 ^ 32"
  shows "case todo (vw lx) of
      c1 # c2 # cs \<Rightarrow>
        (if c1 = ch CHR ''/'' \<and> c2 = ch CHR ''*''
         then case comment_close 1 cs of
             Some n \<Rightarrow> \<exists>lx'. scan_multiline_comment A lx = Some (True, lx') \<and>
               result_symbol lx' = MULTILINE_COMMENT \<and> vw lx' = v_mark (v_skip (n + 2) (vw lx))
           | None \<Rightarrow> \<exists>lx'. scan_multiline_comment A lx = Some (False, lx')
         else \<exists>lx'. scan_multiline_comment A lx = Some (False, lx'))
    | _ \<Rightarrow> \<exists>lx'. scan_multiline_comment A lx = Some (False, lx')"
proof (cases "\<exists>cs. todo (vw lx) = ch CHR ''/'' # ch CHR ''*'' # cs")
  case True
  then obtain cs where cs: "todo (vw lx) = ch CHR ''/'' # ch CHR ''*'' # cs" by blast
  let ?l = "advance A (advance A lx)"
  have run: "scan_multiline_comment A lx = comment_loop A False 1 ?l"
    using cs by (simp add: scan_multiline_comment_def)
  have t: "todo (vw ?l) = cs" using cs by simp
  have "comment_run False 1 cs = comment_close 1 cs" by (simp add: comment_run_close)
  then show ?thesis using comment_loop_run [of 1 ?l False] assms cs t unfolding run
    by (auto split: option.splits)
next
  case False
  then have "\<exists>lx'. scan_multiline_comment A lx = Some (False, lx')"
    by (cases "todo (vw lx)"; cases "tl (todo (vw lx))") (auto simp: scan_multiline_comment_def)
  with False show ?thesis by (auto split: list.splits)
qed

end

subsection \<open>Every scan returns\<close>

context ts_lexer
begin

lemma iswspace_loop_returns: "returns (advance_while A sk iswspace lx)"
  using advance_while_Some [of iswspace sk lx] by (auto simp: returns_def)

lemma mark_run_returns: "c \<noteq> 0 \<Longrightarrow> returns (mark_run A c lx)"
proof (induction "length (todo (vw lx))" arbitrary: lx rule: less_induct)
  case less
  have "returns (mark_run A c (mark_end A (advance A lx)))" if "lookahead A lx = c"
    using that less.prems peek_nonzero [of "todo (vw lx)"] by (intro less.hyps) simp_all
  then show ?case by (subst mark_run.simps) (intro returns)
qed

lemma stack_pop_returns: "arr_ok stack \<Longrightarrow> 0 < size stack \<Longrightarrow> returns (stack_pop stack)"
  using stack_pop_ok [of stack] by (auto simp: returns_def)

lemma stack_push_returns: "arr_ok stack \<Longrightarrow> size stack < 1024 \<Longrightarrow> returns (stack_push stack c t)"
  using stack_push_ok [of stack c t] by (auto simp: returns_def)

lemma triple_end_returns:
  "arr_ok stack \<Longrightarrow> 0 < size stack \<Longrightarrow> c \<noteq> 0 \<Longrightarrow> returns (triple_end A c h lx stack)"
  unfolding triple_end_def Let_def by (intro returns mark_run_returns stack_pop_returns)

lemma string_content_loop_returns:
  assumes "arr_ok stack" and "0 < size stack" and "c \<noteq> 0"
  shows "returns (string_content_loop A c t h lx stack)"
proof (induction "length (todo (vw lx))" arbitrary: h lx rule: less_induct)
  case less
  have loop: "returns (string_content_loop A c t h' lx' stack)"
    if "lookahead A lx \<noteq> 0" "length (todo (vw lx')) \<le> length (todo (vw lx)) - 1" for h' lx'
    using that by (intro less.hyps) (cases "todo (vw lx)"; simp)
  show ?case
    by (subst string_content_loop.simps, unfold Let_def)
       (intro returns loop triple_end_returns stack_pop_returns assms; simp)
qed

lemma scan_string_content_returns:
  assumes "kotlin_ok stack"
  shows "returns (scan_string_content A lx stack)"
proof (cases "size stack = 0")
  case True
  then show ?thesis by (simp add: scan_string_content_def returns_def)
next
  case False
  have ok: "arr_ok stack" using assms by (rule kotlin_okD)
  let ?d = "arr_list stack ! (size stack - 1)"
  have "?d \<in> set (arr_list stack)" using ok False by (intro nth_mem) simp
  then have d: "?d = 34 \<or> ?d = 35" using assms by (auto simp: kotlin_ok_def)
  have "read_cell stack (size stack - 1) = Some ?d" using ok False by (simp add: read_live)
  then show ?thesis using d False string_content_loop_returns [OF ok]
    by (auto simp: scan_string_content_def)
qed

lemma stack_push_returns_iff: "arr_ok stack \<Longrightarrow> returns (stack_push stack c t) \<longleftrightarrow> size stack < 1024"
  using stack_push_returns [of stack c t] by (auto simp: returns_def stack_push_def buffer_size)

lemma string_start_loop_returns:
  "arr_ok stack \<Longrightarrow> returns (string_start_loop A n lx stack) \<longleftrightarrow> size stack < 1024"
proof (induction n arbitrary: lx)
  case 0
  then show ?case using stack_push_returns_iff [of stack "of_char CHR 0x22" True] by (auto simp: returns_def)
next
  case (Suc n)
  then show ?case using stack_push_returns_iff [of stack "of_char CHR 0x22" False] by (auto simp: returns_def)
qed

lemma scan_string_start_returns:
  "arr_ok stack \<Longrightarrow> returns (scan_string_start A lx stack) \<longleftrightarrow> lookahead A lx \<noteq> ch CHR 0x22 \<or> size stack < 1024"
  using string_start_loop_returns [of stack] by (simp add: scan_string_start_def returns_Some)

lemma scan_whitespace_and_comments_returns: "returns (scan_whitespace_and_comments A lx)"
  unfolding scan_whitespace_and_comments_def by (intro returns iswspace_loop_returns)

lemma line_end_loop_returns: "returns (line_end_loop A lx)"
proof (induction "length (todo (vw lx))" arbitrary: lx rule: less_induct)
  case less
  have "returns (line_end_loop A (skip A lx))" if "\<not> eof A lx" using that by (intro less.hyps) simp
  then show ?case by (subst line_end_loop.simps, unfold Let_def) (intro returns)
qed

lemma scan_automatic_semicolon_returns: "returns (scan_automatic_semicolon A lx)"
  unfolding scan_automatic_semicolon_def
  by (intro returns line_end_loop_returns scan_whitespace_and_comments_returns)

lemma scan_safe_nav_returns: "returns (scan_safe_nav A lx)"
  unfolding scan_safe_nav_def by (intro returns scan_whitespace_and_comments_returns)

lemma line_sep_loop_returns: "returns (line_sep_loop A cr lx)"
proof (induction "length (todo (vw lx))" arbitrary: cr lx rule: less_induct)
  case less
  have "returns (line_sep_loop A cr' (advance A lx))" if "lookahead A lx \<noteq> 0" for cr'
    using that by (intro less.hyps) (cases "todo (vw lx)"; simp)
  then show ?case by (subst line_sep_loop.simps) (intro returns; auto simp: is_blank_def)
qed

lemma scan_import_list_delimiter_returns: "returns (scan_import_list_delimiter A lx)"
  unfolding scan_import_list_delimiter_def scan_line_sep_def Let_def
  by (intro returns line_sep_loop_returns)

lemma comment_loop_returns: "returns (comment_loop A star d lx)"
proof (induction "length (todo (vw lx))" arbitrary: star d lx rule: less_induct)
  case less
  have loop: "returns (comment_loop A s e lx')"
    if "lookahead A lx \<noteq> 0" "length (todo (vw lx')) \<le> length (todo (vw lx)) - 1" for s e lx'
    using that by (intro less.hyps) (cases "todo (vw lx)"; simp)
  show ?case by (subst comment_loop.simps, unfold Let_def) (intro returns loop; simp)
qed

lemma kotlin_scan_comment_returns: "returns (kotlin_scan_comment A stack lx v)"
  unfolding kotlin_scan_comment_def scan_multiline_comment_def Let_def
  by (intro returns comment_loop_returns scan_safe_nav_returns)

end

text \<open>
  A scan comes to an opening quote when strings may start here, no earlier stage of the scan decides, and a quote follows
  the string content tried and the blanks after it.
\<close>

definition content_stage ::
  "'l lexer_api \<Rightarrow> Stack \<Rightarrow> 'l klexer \<Rightarrow> (TokenType \<Rightarrow> bool) \<Rightarrow> (bool \<times> 'l klexer \<times> Stack) option" where
  "content_stage A stack lx valid =
     (if valid STRING_CONTENT then scan_string_content A lx stack else Some (False, lx, stack))"

definition quote_after_content :: "'l lexer_api \<Rightarrow> Stack \<Rightarrow> 'l klexer \<Rightarrow> (TokenType \<Rightarrow> bool) \<Rightarrow> bool" where
  "quote_after_content A stack lx valid \<longleftrightarrow> valid STRING_START \<and>
     (case content_stage A stack lx valid of
        Some (False, lx1, _) \<Rightarrow>
          (case advance_while A True iswspace lx1 of Some lx2 \<Rightarrow> lookahead A lx2 = ch CHR 0x22 | None \<Rightarrow> False)
      | _ \<Rightarrow> False)"

definition comes_to_quote :: "'l lexer_api \<Rightarrow> Stack \<Rightarrow> 'l klexer \<Rightarrow> (TokenType \<Rightarrow> bool) \<Rightarrow> bool" where
  "comes_to_quote A stack lx valid \<longleftrightarrow> \<not> valid IMPORT_LIST_DELIMITER \<and>
     (if valid AUTOMATIC_SEMICOLON
      then case scan_automatic_semicolon A lx of
             Some (False, lx1) \<Rightarrow>
               \<not> (valid SAFE_NAV \<and> lookahead A lx1 = ch CHR ''?'') \<and> quote_after_content A stack lx1 valid
           | _ \<Rightarrow> False
      else quote_after_content A stack lx valid)"

context ts_lexer
begin

lemma kotlin_scan_string_returns:
  assumes "kotlin_ok stack"
  shows "returns (kotlin_scan_string A stack lx v) \<longleftrightarrow> \<not> (size stack = 1024 \<and> quote_after_content A stack lx v)"
proof -
  have arr: "arr_ok stack" "size stack \<le> 1024" using assms by (simp_all add: kotlin_ok_def)
  have "returns (content_stage A stack lx v)"
    using scan_string_content_returns [OF assms] by (simp add: content_stage_def returns_Some)
  then obtain c lx1 s1 where c: "content_stage A stack lx v = Some (c, lx1, s1)" by (auto simp: returns_ex)
  obtain lx2 where w: "advance_while A True iswspace lx1 = Some lx2"
    using iswspace_loop_returns [of True lx1] by (auto simp: returns_ex)
  show ?thesis
  proof (cases c)
    case True
    then show ?thesis using c
      by (simp add: kotlin_scan_string_def content_stage_def [symmetric] quote_after_content_def returns_Some)
  next
    case False
    then have s: "s1 = stack" using c scan_string_content_no_token [of A lx stack lx1 s1]
      by (auto simp: content_stage_def split: if_splits)
    have "returns (kotlin_scan_string A stack lx v) \<longleftrightarrow> (v STRING_START \<longrightarrow> returns (scan_string_start A lx2 stack))"
      using False c w s kotlin_scan_comment_returns
      by (cases "scan_string_start A lx2 stack")
         (auto simp: kotlin_scan_string_def content_stage_def [symmetric] returns_Some returns_def)
    then show ?thesis using False c w arr scan_string_start_returns [of stack lx2] by (auto simp: quote_after_content_def)
  qed
qed

lemma kotlin_scan_returns:
  assumes "kotlin_ok stack"
  shows "returns (kotlin_scan A stack lx v) \<longleftrightarrow> \<not> (size stack = 1024 \<and> comes_to_quote A stack lx v)"
proof (cases "v AUTOMATIC_SEMICOLON")
  case False
  then show ?thesis
    using kotlin_scan_string_returns [OF assms] scan_import_list_delimiter_returns [of lx]
    by (auto simp: kotlin_scan_def comes_to_quote_def returns_def)
next
  case True
  obtain r lx0 where s: "scan_automatic_semicolon A lx = Some (r, lx0)"
    using scan_automatic_semicolon_returns [of lx] by (auto simp: returns_ex)
  show ?thesis using True s kotlin_scan_string_returns [OF assms, of lx0 v] scan_import_list_delimiter_returns [of lx0]
      scan_safe_nav_returns [of lx0]
    by (cases r) (auto simp: kotlin_scan_def comes_to_quote_def returns_def)
qed

end

subsection \<open>From the opening to the closing quote\<close>

text \<open>Characters that are plain content of a string closed by \<open>q\<close>.\<close>

definition plain_char :: "code \<Rightarrow> code \<Rightarrow> bool" where
  "plain_char q c \<longleftrightarrow> c \<noteq> 0 \<and> c \<noteq> ch CHR ''$'' \<and> c \<noteq> ch CHR 0x5C \<and> c \<noteq> q"

context ts_lexer
begin

lemma content_loop_plain:
  "todo (vw lx) = xs @ ys \<Longrightarrow> \<forall>x \<in> set xs. plain_char q x \<Longrightarrow>
     \<exists>lx'. string_content_loop A q t h lx stack = string_content_loop A q t (h \<or> xs \<noteq> []) lx' stack \<and>
       vw lx' = v_skip (length xs) (vw lx)"
proof (induction xs arbitrary: h lx)
  case Nil
  then show ?case by (auto intro: exI [of _ lx])
next
  case (Cons x xs)
  have "string_content_loop A q t h lx stack = string_content_loop A q t True (advance A lx) stack"
    using Cons.prems by (subst string_content_loop.simps) (simp add: plain_char_def)
  then show ?case using Cons.IH [of "advance A lx" True] Cons.prems by simp
qed

lemma scan_string_start_plain:
  assumes "arr_ok stack" and "size stack < 1024"
    and "todo (vw lx) = ch CHR 0x22 # c # cs" and "c \<noteq> ch CHR 0x22"
  shows "\<exists>lx' s. scan_string_start A lx stack = Some (True, lx', s) \<and> arr_ok s \<and>
    arr_list s = arr_list stack @ [34] \<and> size s = size stack + 1 \<and>
    vw lx' = v_mark (v_skip 1 (vw lx))"
proof -
  obtain s where "stack_push stack 34 False = Some s" "arr_ok s" "size s = size stack + 1"
    "arr_list s = arr_list stack @ [34]"
    using stack_push_ok [OF assms(1,2), of 34 False] by auto
  then show ?thesis using assms(3,4)
    by (simp add: scan_string_start_def numeral_2_eq_2 v_advance_skip)
qed

lemma scan_string_content_open:
  assumes "arr_ok stack" and "arr_list stack = ds @ [34]"
  shows "scan_string_content A lx stack = string_content_loop A (ch CHR 0x22) False False lx stack"
proof -
  have "size stack = Suc (length ds)" using length_arr_list [OF assms(1)] assms(2) by simp
  moreover from this have "read_cell stack (length ds) = Some 34"
    using read_live [OF assms(1), of "length ds"] assms(2) by simp
  ultimately show ?thesis by (simp add: scan_string_content_def)
qed

abbreviation in_string :: "TokenType \<Rightarrow> bool" where
  "in_string t \<equiv> t = STRING_CONTENT \<or> t = STRING_END"

lemma kotlin_string_open:
  assumes "arr_ok stack" and "size stack < 1024"
    and "todo (vw lx) = ch CHR 0x22 # c # cs" and "c \<noteq> ch CHR 0x22"
  shows "\<exists>lx' s. kotlin_scan A stack lx (\<lambda>t. t = STRING_START) = Some (True, lx', s) \<and>
    result_symbol lx' = STRING_START \<and> arr_ok s \<and> arr_list s = arr_list stack @ [34] \<and>
    vw lx' = v_mark (v_skip 1 (vw lx))"
proof -
  have "advance_while A True iswspace lx = Some lx"
    using assms(3) by (simp add: advance_while.simps iswspace_def)
  moreover obtain l s where "scan_string_start A lx stack = Some (True, l, s)" "arr_ok s"
      "arr_list s = arr_list stack @ [34]" "vw l = v_mark (v_skip 1 (vw lx))"
    using scan_string_start_plain [OF assms] by auto
  ultimately show ?thesis
    by (intro exI [of _ "set_symbol STRING_START l"] exI [of _ s])
       (simp add: kotlin_scan_def kotlin_scan_string_def)
qed

lemma kotlin_string_body:
  assumes "arr_ok s" and "arr_list s = ds @ [34]" and "xs \<noteq> []"
    and "todo (vw lx) = xs @ ch CHR 0x22 # ys" and "\<forall>x \<in> set xs. plain_char (ch CHR 0x22) x"
  shows "\<exists>lx'. kotlin_scan A s lx in_string = Some (True, lx', s) \<and>
    result_symbol lx' = STRING_CONTENT \<and> vw lx' = v_mark (v_skip (length xs) (vw lx))"
proof -
  obtain l where l: "string_content_loop A 34 False False lx s = string_content_loop A 34 False True l s"
      "vw l = v_skip (length xs) (vw lx)"
    using content_loop_plain [OF assms(4), of 34 False False s] assms(3,5) by auto
  have "string_content_loop A 34 False True l s = Some (True, set_symbol STRING_CONTENT (mark_end A l), s)"
    using l(2) assms(4) by (subst string_content_loop.simps) simp
  then have "kotlin_scan A s lx in_string = Some (True, set_symbol STRING_CONTENT (mark_end A l), s)"
    using l(1) by (simp add: kotlin_scan_def kotlin_scan_string_def scan_string_content_open [OF assms(1,2)])
  then show ?thesis using l(2) by (intro exI [of _ "set_symbol STRING_CONTENT (mark_end A l)"]) simp
qed

lemma kotlin_string_close:
  assumes "arr_ok s" and "arr_list s = ds @ [34]" and "todo (vw lx) = ch CHR 0x22 # ys"
  shows "\<exists>lx' s'. kotlin_scan A s lx in_string = Some (True, lx', s') \<and>
    result_symbol lx' = STRING_END \<and> vw lx' = v_mark (v_skip 1 (vw lx)) \<and> arr_list s' = ds"
proof -
  have "0 < size s" using length_arr_list [OF assms(1)] assms(2) by simp
  then obtain y s' where s': "stack_pop s = Some (y, s')" "arr_list s' = ds"
    using stack_pop_ok [OF assms(1)] assms(2) by auto
  let ?l = "set_symbol STRING_END (mark_end A (advance A lx))"
  have "string_content_loop A 34 False False lx s = Some (True, ?l, s')"
    using s'(1) assms(3) by (subst string_content_loop.simps) simp
  then have "kotlin_scan A s lx in_string = Some (True, ?l, s')"
    by (simp add: kotlin_scan_def kotlin_scan_string_def scan_string_content_open [OF assms(1,2)])
  then show ?thesis using s'(2) by (intro exI [of _ ?l] exI [of _ s']) (simp add: v_advance_skip)
qed

lemma string_lifecycle:
  fixes lx :: "('l, TokenType) tslexer"
  assumes "kotlin_ok stack" and "size stack < 1024"
    and todo: "todo (vw lx) = ch CHR 0x22 # xs @ ch CHR 0x22 # ys"
    and "xs \<noteq> []" and plain: "\<forall>x \<in> set xs. plain_char (ch CHR 0x22) x"
  shows "\<exists>lx1 s1 lx2 lx3 s3.
    kotlin_scan A stack lx (\<lambda>v. v = STRING_START) = Some (True, lx1, s1) \<and>
    result_symbol lx1 = STRING_START \<and> vw lx1 = v_mark (v_skip 1 (vw lx)) \<and>
    kotlin_scan A s1 lx1 in_string = Some (True, lx2, s1) \<and>
    result_symbol lx2 = STRING_CONTENT \<and> vw lx2 = v_mark (v_skip (length xs + 1) (vw lx)) \<and>
    kotlin_scan A s1 lx2 in_string = Some (True, lx3, s3) \<and>
    result_symbol lx3 = STRING_END \<and> vw lx3 = v_mark (v_skip (length xs + 2) (vw lx)) \<and>
    arr_list s3 = arr_list stack"
proof -
  have mm: "v_mark (v_skip n (v_mark w)) = v_mark (v_skip n w)" for n w
    by (simp add: v_skip_def v_mark_def)
  obtain x xs' where xs: "xs = x # xs'" using assms(4) by (cases xs) auto
  obtain lx1 s1 where 1: "kotlin_scan A stack lx (\<lambda>v. v = STRING_START) = Some (True, lx1, s1)"
      "result_symbol lx1 = STRING_START" "arr_ok s1" "arr_list s1 = arr_list stack @ [34]"
      "vw lx1 = v_mark (v_skip 1 (vw lx))"
    using kotlin_string_open [OF kotlin_okD [OF assms(1)] assms(2), of lx x "xs' @ ch CHR 0x22 # ys"]
      todo plain xs by (auto simp: plain_char_def)
  have "todo (vw lx1) = xs @ ch CHR 0x22 # ys" using 1(5) todo by simp
  then obtain lx2 where 2: "kotlin_scan A s1 lx1 in_string = Some (True, lx2, s1)"
      "result_symbol lx2 = STRING_CONTENT" "vw lx2 = v_mark (v_skip (length xs) (vw lx1))"
    using kotlin_string_body [OF 1(3,4) assms(4)] plain by blast
  then have v2: "vw lx2 = v_mark (v_skip (length xs + 1) (vw lx))" using 1(5) by (simp add: mm)
  then have "todo (vw lx2) = ch CHR 0x22 # ys" using todo by simp
  then obtain lx3 s3 where 3: "kotlin_scan A s1 lx2 in_string = Some (True, lx3, s3)"
      "result_symbol lx3 = STRING_END" "vw lx3 = v_mark (v_skip 1 (vw lx2))" "arr_list s3 = arr_list stack"
    using kotlin_string_close [OF 1(3,4)] by blast
  then have "vw lx3 = v_mark (v_skip (length xs + 2) (vw lx))" using v2 by (simp add: mm)
  with 1 2 3 v2 show ?thesis by blast
qed

lemma escaped_dollar_closes:
  assumes "arr_ok s" and "arr_list s = ds @ [35]"
    and "todo (vw lx) = ch CHR 0x5C # ch CHR ''$'' # ch CHR 0x22 # cs"
  shows "\<exists>lx' s'. scan_string_content A lx s = Some (True, lx', s') \<and> result_symbol lx' = STRING_END \<and>
    vw lx' = v_mark (v_skip 3 (vw lx)) \<and> arr_list s' = ds"
proof -
  have n: "size s = Suc (length ds)" using length_arr_list [OF assms(1)] assms(2) by simp
  then have "read_cell s (length ds) = Some 35"
    using read_live [OF assms(1), of "length ds"] assms(2) by simp
  then have run: "scan_string_content A lx s = string_content_loop A 34 True False lx s"
    using n by (simp add: scan_string_content_def)
  obtain y s' where s': "stack_pop s = Some (y, s')" "arr_list s' = ds"
    using stack_pop_ok [OF assms(1)] assms(2) n by auto
  let ?l = "set_symbol STRING_END (mark_end A (advance A (advance A (advance A lx))))"
  have "string_content_loop A 34 True False lx s = Some (True, ?l, s')"
    using s'(1) assms(3) by (subst string_content_loop.simps) (simp add: Let_def)
  then show ?thesis using s'(2) unfolding run
    by (intro exI [of _ ?l] exI [of _ s']) (simp add: v_advance_skip numeral_3_eq_3)
qed

end

subsection \<open>The import list\<close>

lemma line_sep_loop_False:
  assumes "line_sep_loop A cr lx = Some res"
  shows "\<not> fst res \<longrightarrow> \<not> is_blank (lookahead A (snd res))"
  by (rule line_sep_loop.raw_induct [where P = "\<lambda>A cr lx res. \<not> fst res \<longrightarrow> \<not> is_blank (lookahead A (snd res))",
      OF _ assms]) (auto split: if_splits)

lemma import_list_rejects:
  assumes "scan_import_list_delimiter A lx = Some (False, lx')"
  shows "scan_line_sep A (mark_end A (set_symbol IMPORT_LIST_DELIMITER lx)) = Some (False, lx') \<or>
    (\<exists>lx1 lx2. scan_line_sep A (mark_end A (set_symbol IMPORT_LIST_DELIMITER lx)) = Some (True, lx1) \<and>
       scan_line_sep A lx1 = Some (False, lx2) \<and> lookahead A lx2 = ch CHR ''i'' \<and>
       scan_for_word A ''mport'' lx2 = (True, lx'))"
proof -
  have "\<not> is_blank (lookahead A l2)" if "scan_line_sep A l1 = Some (False, l2)" for l1 l2
    using line_sep_loop_False that unfolding scan_line_sep_def by fastforce
  then show ?thesis using assms
    by (auto simp: scan_import_list_delimiter_def Let_def not_word_def split: if_splits bind_splits prod.splits)
qed

subsection \<open>Properties\<close>

text \<open>C12: whatever the lexer shows it, a scan keeps the delimiter stack well formed and no deeper
  than the runtime's buffer, so the state it leaves can always be saved in full.\<close>

theorem kotlin_state_always_fits:
  assumes "kotlin_ok stack" and "kotlin_scan A stack lx valid = Some (r, lx', stack')"
  shows "kotlin_ok stack' \<and> (\<exists>bs. kotlin_serialize stack' = Some bs \<and> bs = arr_list stack' \<and>
    length bs \<le> TREE_SITTER_SERIALIZATION_BUFFER_SIZE)"
  using kotlin_scan_keeps_ok [OF assms] kotlin_serialize_eq kotlin.saves by fastforce

definition open_string :: Stack where
  "open_string = \<lparr>contents = [Some 34], size = 1, capacity = 1\<rparr>"

lemma open_string_ok: "kotlin_ok open_string" "arr_list open_string = [34]"
  by (simp_all add: open_string_def kotlin_ok_def arr_ok_def arr_list_def)

lemmas kotlin_eval = kotlin_scan_def kotlin_scan_string_def kotlin_scan_comment_def
  scan_string_content_def string_content_loop.simps scan_string_start_def stack_pop_def stack_push_def
  array_pop_def array_push_def array_grow_def array_reserve_def write_cells_def read_cell_def
  advance_while.simps iswspace_def buffer_size lexer_defs

theorem kotlin_state_always_fits_witness:
  "\<exists>lx'. kotlin_scan list_api open_string (lex_text (codes [CHR 0x22])) (\<lambda>t. t = STRING_CONTENT) =
     Some (True, lx', open_string\<lparr>size := 0\<rparr>) \<and> kotlin_ok (open_string\<lparr>size := 0\<rparr>)"
proof -
  have "\<exists>lx'. kotlin_scan list_api open_string (lex_text (codes [CHR 0x22])) (\<lambda>t. t = STRING_CONTENT) =
     Some (True, lx', open_string\<lparr>size := 0\<rparr>)"
    by (simp add: kotlin_eval open_string_def)
  then show ?thesis using kotlin_state_always_fits [OF open_string_ok(1)] by blast
qed

text \<open>C13: saving the state after every scan and restoring it into another payload, as the runtime does
  between edits, does not change a single token or lexer effect of the scans that follow.\<close>

theorem kotlin_restoring_is_transparent:
  assumes "kotlin_ok s" and "kotlin_ok payload" and "run_scans (kotlin_step A) s is = Some outs"
  shows "run_restored kotlin_serialize kotlin_deserialize (kotlin_step A) payload s is = Some outs"
  using assms by (rule kotlin_resume.restoring_is_transparent)

definition quote_scan :: "(lex_view, TokenType) tslexer \<times> (TokenType \<Rightarrow> bool)" where
  "quote_scan = (lex_text (codes [CHR 0x22]), \<lambda>t. t = STRING_CONTENT)"

theorem kotlin_restoring_is_transparent_witness:
  "\<exists>outs. run_restored kotlin_serialize kotlin_deserialize (kotlin_step list_api) array_new
     open_string [quote_scan] = Some outs \<and> length outs = 1"
proof -
  have "\<exists>out. run_scans (kotlin_step list_api) open_string [quote_scan] = Some [out]"
    by (auto simp: kotlin_step_def quote_scan_def kotlin_eval open_string_def)
  then obtain out where "run_scans (kotlin_step list_api) open_string [quote_scan] = Some [out]" ..
  moreover have "kotlin_ok array_new" by (simp add: kotlin_ok_def)
  ultimately show ?thesis
    using kotlin_restoring_is_transparent [OF open_string_ok(1), of array_new list_api "[quote_scan]" "[out]"]
    by simp
qed

text \<open>C14: a block comment token is found exactly when the text starts with an opener whose nested openers
  are all closed before a NUL or the end, and it ends right behind the last closer.\<close>

theorem kotlin_comment_nesting:
  assumes "ts_lexer A view" and "todo (view (runtime lx)) = ch CHR ''/'' # ch CHR ''*'' # cs"
    and "length cs < 2 ^ 31"
  shows "case comment_close 1 cs of
      Some n \<Rightarrow> \<exists>lx'. scan_multiline_comment A lx = Some (True, lx') \<and>
        result_symbol lx' = MULTILINE_COMMENT \<and>
        view (runtime lx') = v_mark (v_skip (n + 2) (view (runtime lx)))
    | None \<Rightarrow> \<exists>lx'. scan_multiline_comment A lx = Some (False, lx')"
  using ts_lexer.scan_multiline_comment_spec [OF assms(1), of lx] assms
  by (auto simp: ts_lexer.vw_def [OF assms(1)] split: option.splits)

theorem kotlin_comment_nesting_witness:
  "\<exists>lx'. scan_multiline_comment list_api (lex_text (codes ''/*a/*b*/c*/d'')) = Some (True, lx') \<and>
     tok_end (runtime lx') = 11"
proof -
  have "comment_close 1 (codes ''a/*b*/c*/d'') = Some 9" by (simp add: comment_close.simps(2))
  then show ?thesis
    using kotlin_comment_nesting [OF list_lexer.ts_lexer_axioms, of "lex_text (codes ''/*a/*b*/c*/d'')"
        "codes ''a/*b*/c*/d''"]
    by (auto simp: lex_text_def)
qed

text \<open>
  C15: on any input a scan returns, its loops end and its stack never underflows, but for one case: with the 1024 delimiters
  open that fill the buffer, a scan that comes to a further opening quote is aborted by the push.
\<close>

theorem kotlin_scan_aborts_only_when_full:
  assumes "ts_lexer A view" and "kotlin_ok stack"
  shows "kotlin_scan A stack lx valid = None \<longleftrightarrow> size stack = 1024 \<and> comes_to_quote A stack lx valid"
  using ts_lexer.kotlin_scan_returns [OF assms, of lx valid] unfolding returns_def by blast

text \<open>The full stack, on which no string can be opened any more.\<close>

definition full_stack :: Stack where
  "full_stack = \<lparr>contents = replicate 1024 (Some 34), size = 1024, capacity = 1024\<rparr>"

lemma full_stack_ok: "kotlin_ok full_stack"
  by (simp add: full_stack_def kotlin_ok_def arr_ok_def arr_list_def)

theorem kotlin_scan_aborts_only_when_full_witness:
  "kotlin_scan list_api full_stack (lex_text [ch CHR 0x22]) (\<lambda>t. t = STRING_START) = None \<and>
   kotlin_scan list_api open_string (lex_text [ch CHR 0x22]) (\<lambda>t. t = STRING_START) \<noteq> None"
proof -
  have "comes_to_quote list_api full_stack (lex_text [ch CHR 0x22]) (\<lambda>t. t = STRING_START)"
    by (simp add: comes_to_quote_def quote_after_content_def content_stage_def kotlin_eval lex_text_def)
  then show ?thesis
    using kotlin_scan_aborts_only_when_full [OF list_lexer.ts_lexer_axioms full_stack_ok]
      kotlin_scan_aborts_only_when_full [OF list_lexer.ts_lexer_axioms open_string_ok(1)]
    by (simp add: full_stack_def open_string_def)
qed

text \<open>A plain string is scanned as its opening quote, its whole content and its closing quote, each
  token ending where it should, and the stack is as before the string.\<close>

lemma kotlin_plain_string_tokens:
  fixes lx :: "('l, TokenType) tslexer"
  assumes "ts_lexer A view" and "kotlin_ok stack" and "size stack < 1024"
    and "todo (view (runtime lx)) = ch CHR 0x22 # xs @ ch CHR 0x22 # ys"
    and "xs \<noteq> []" and "\<forall>x \<in> set xs. plain_char (ch CHR 0x22) x"
  shows "\<exists>lx1 s1 lx2 lx3 s3.
    kotlin_scan A stack lx (\<lambda>t. t = STRING_START) = Some (True, lx1, s1) \<and>
    result_symbol lx1 = STRING_START \<and>
    view (runtime lx1) = v_mark (v_skip 1 (view (runtime lx))) \<and>
    kotlin_scan A s1 lx1 (\<lambda>t. t = STRING_CONTENT \<or> t = STRING_END) = Some (True, lx2, s1) \<and>
    result_symbol lx2 = STRING_CONTENT \<and>
    view (runtime lx2) = v_mark (v_skip (length xs + 1) (view (runtime lx))) \<and>
    kotlin_scan A s1 lx2 (\<lambda>t. t = STRING_CONTENT \<or> t = STRING_END) = Some (True, lx3, s3) \<and>
    result_symbol lx3 = STRING_END \<and>
    view (runtime lx3) = v_mark (v_skip (length xs + 2) (view (runtime lx))) \<and>
    arr_list s3 = arr_list stack"
  using ts_lexer.string_lifecycle [OF assms(1,2,3), of lx xs ys] assms(4-)
  by (simp add: ts_lexer.vw_def [OF assms(1)])

lemma kotlin_plain_string_tokens_witness:
  "\<exists>lx1 s1 lx2. kotlin_scan list_api open_string (lex_text (codes [CHR 0x22, CHR ''h'', CHR ''i'', CHR 0x22]))
      (\<lambda>t. t = STRING_START) = Some (True, lx1, s1) \<and>
    kotlin_scan list_api s1 lx1 (\<lambda>t. t = STRING_CONTENT \<or> t = STRING_END) = Some (True, lx2, s1) \<and>
    tok_end (runtime lx2) = 3"
proof -
  have "todo (runtime (lex_text (codes [CHR 0x22, CHR ''h'', CHR ''i'', CHR 0x22]))) =
      ch CHR 0x22 # codes ''hi'' @ ch CHR 0x22 # []"
    by (simp add: lex_text_def)
  moreover have "\<forall>x \<in> set (codes ''hi''). plain_char (ch CHR 0x22) x" by (simp add: plain_char_def)
  ultimately show ?thesis
    using kotlin_plain_string_tokens [OF list_lexer.ts_lexer_axioms open_string_ok(1), of _ "codes ''hi''" "[]"]
    by (fastforce simp: open_string_def lex_text_def)
qed

text \<open>Inside a triple-quoted string, an escaped dollar sign followed by a single quote ends the string:
  one quote is taken for the closing delimiter and the stack is popped.\<close>

lemma kotlin_escaped_dollar_quote_closes_triple:
  assumes "ts_lexer A view" and "arr_ok s" and "arr_list s = ds @ [35]"
    and "todo (view (runtime lx)) = ch CHR 0x5C # ch CHR ''$'' # ch CHR 0x22 # cs"
  shows "\<exists>lx' s'. scan_string_content A lx s = Some (True, lx', s') \<and> result_symbol lx' = STRING_END \<and>
    tok_end (view (runtime lx')) = seen (view (runtime lx)) + 3 \<and> arr_list s' = ds"
  using ts_lexer.escaped_dollar_closes [OF assms(1-3), of lx cs] assms(4)
  by (auto simp: ts_lexer.vw_def [OF assms(1)])

lemma kotlin_escaped_dollar_quote_closes_triple_witness:
  "\<exists>lx' s'. scan_string_content list_api (lex_text [92, 36, 34, 98, 34, 34, 34])
     \<lparr>contents = [Some 35], size = 1, capacity = 1\<rparr> = Some (True, lx', s') \<and> arr_list s' = []"
  using kotlin_escaped_dollar_quote_closes_triple [OF list_lexer.ts_lexer_axioms,
      of "\<lparr>contents = [Some 35], size = 1, capacity = 1\<rparr>" "[]" "lex_text [92, 36, 34, 98, 34, 34, 34]"]
  by (auto simp: arr_ok_def arr_list_def lex_text_def)


end
