(* ===== verification/RocScanner.thy ===== *)
theory RocScanner
  imports TsLexer TsArray ScannerContract
begin

text \<open>
  The external scanner of the Roc grammar,
  \<^verbatim>\<open>crates/cli/vendor-grammars/tree-sitter-roc/src/scanner.c\<close>: a stack of indentation widths
  that turns line starts into INDENT, DEDENT and newline tokens. Its vectors are the macros
  \<^verbatim>\<open>VEC_*\<close>, which work on the same three fields as \<open>arr\<close> but grow in their own way
  (\<^verbatim>\<open>realloc\<close> is taken to succeed, as the macro asserts).
\<close>

subsection \<open>The vector macros\<close>

definition vec_resize :: "'a arr \<Rightarrow> nat \<Rightarrow> 'a arr" where
  "vec_resize v cap = v\<lparr>contents := take cap (contents v) @ replicate (cap - length (contents v)) None,
     capacity := cap\<rparr>"

definition vec_grow :: "'a arr \<Rightarrow> nat \<Rightarrow> 'a arr" where
  "vec_grow v cap = (if capacity v < cap then vec_resize v cap else v)"

definition vec_push :: "'a arr \<Rightarrow> 'a \<Rightarrow> 'a arr option" where
  "vec_push v el =
     (let v' = (if capacity v = size v then vec_resize v (max 16 (u32 (size v * 2))) else v)
      in map_option (\<lambda>w. w\<lparr>size := u32 (size v + 1)\<rparr>) (write_cells v' (size v) [Some el]))"

definition vec_pop :: "'a arr \<Rightarrow> 'a arr" where
  "vec_pop v = v\<lparr>size := u32_sub (size v) 1\<rparr>"

definition vec_new :: "'a arr" where
  "vec_new = \<lparr>contents = [], size = 0, capacity = 0\<rparr>"

definition vec_back :: "'a arr \<Rightarrow> 'a option" where
  "vec_back v = read_cell v (u32_sub (size v) 1)"

definition vec_free :: "'a arr \<Rightarrow> 'a arr" where
  "vec_free v = v\<lparr>contents := []\<rparr>"

definition vec_clear :: "'a arr \<Rightarrow> 'a arr" where
  "vec_clear v = v\<lparr>size := 0\<rparr>"

subsection \<open>Delimiters\<close>

datatype TokenType =
    NEWLINE
  | END_NEWLINE
  | INDENT
  | DEDENT
  | COMMENT
  | CLOSE_PAREN
  | CLOSE_BRACKET
  | CLOSE_BRACE
  | IDENTIFIER
  | SHADOWED_IDENTIFIER
  | EFFECTFUL_IDENTIFIER
  | EXCEPT

type_synonym 'l rlexer = "('l, TokenType) tslexer"

datatype Flags = SingleQuote | DoubleQuote | BackQuote | Raw | Format | Triple | Bytes

primrec flag :: "Flags \<Rightarrow> byte" where
  "flag SingleQuote = push_bit 0 1"
| "flag DoubleQuote = push_bit 1 1"
| "flag BackQuote = push_bit 2 1"
| "flag Raw = push_bit 3 1"
| "flag Format = push_bit 4 1"
| "flag Triple = push_bit 5 1"
| "flag Bytes = push_bit 6 1"

record Delimiter =
  flags :: byte

definition new_delimiter :: Delimiter where
  "new_delimiter = \<lparr>flags = 0\<rparr>"

definition has_flag :: "Delimiter \<Rightarrow> Flags \<Rightarrow> bool" where
  "has_flag delimiter f \<longleftrightarrow> and (flags delimiter) (flag f) \<noteq> 0"

definition set_flag :: "Flags \<Rightarrow> Delimiter \<Rightarrow> Delimiter" where
  "set_flag f delimiter = delimiter\<lparr>flags := or (flags delimiter) (flag f)\<rparr>"

definition is_format :: "Delimiter \<Rightarrow> bool" where
  "is_format delimiter = has_flag delimiter Format"

definition is_raw :: "Delimiter \<Rightarrow> bool" where
  "is_raw delimiter = has_flag delimiter Raw"

definition is_triple :: "Delimiter \<Rightarrow> bool" where
  "is_triple delimiter = has_flag delimiter Triple"

definition is_bytes :: "Delimiter \<Rightarrow> bool" where
  "is_bytes delimiter = has_flag delimiter Bytes"

definition end_character :: "Delimiter \<Rightarrow> code" where
  "end_character delimiter =
     (if has_flag delimiter SingleQuote then 0x27
      else if has_flag delimiter DoubleQuote then 0x22
      else if has_flag delimiter BackQuote then 0x60
      else 0)"

definition set_format :: "Delimiter \<Rightarrow> Delimiter" where
  "set_format delimiter = set_flag Format delimiter"

definition set_raw :: "Delimiter \<Rightarrow> Delimiter" where
  "set_raw delimiter = set_flag Raw delimiter"

definition set_triple :: "Delimiter \<Rightarrow> Delimiter" where
  "set_triple delimiter = set_flag Triple delimiter"

definition set_bytes :: "Delimiter \<Rightarrow> Delimiter" where
  "set_bytes delimiter = set_flag Bytes delimiter"

definition set_end_character :: "Delimiter \<Rightarrow> code \<Rightarrow> Delimiter option" where
  "set_end_character delimiter character =
     (if character = 0x27 then Some (set_flag SingleQuote delimiter)
      else if character = 0x22 then Some (set_flag DoubleQuote delimiter)
      else if character = 0x60 then Some (set_flag BackQuote delimiter)
      else None)"

subsection \<open>The scanner\<close>

type_synonym indent_vec = "16 word arr"
type_synonym delimiter_vec = "Delimiter arr"

text \<open>\<^verbatim>\<open>calloc\<close> zeroes the cell it returns.\<close>

definition indent_vec_new :: indent_vec where
  "indent_vec_new = vec_new\<lparr>contents := [Some 0], capacity := 1\<rparr>"

definition delimiter_vec_new :: delimiter_vec where
  "delimiter_vec_new = vec_new\<lparr>contents := [Some \<lparr>flags = 0\<rparr>], capacity := 1\<rparr>"

record Scanner =
  indents :: indent_vec
  delimiters :: delimiter_vec
  inside_f_string :: bool

text \<open>
  The loop at the start of a scan: \<open>Inl\<close> where it returns false, otherwise
  \<^verbatim>\<open>found_end_of_line\<close>, \<^verbatim>\<open>indent_length\<close> (\<^verbatim>\<open>uint32_t\<close>) and
  \<^verbatim>\<open>first_comment_indent_length\<close> (\<^verbatim>\<open>int32_t\<close>).
\<close>

partial_function (option) layout_loop ::
  "'l lexer_api \<Rightarrow> (TokenType \<Rightarrow> bool) \<Rightarrow> bool \<Rightarrow> 32 word \<Rightarrow> 32 word \<Rightarrow> 'l rlexer \<Rightarrow>
     ('l rlexer + bool \<times> 32 word \<times> 32 word \<times> 'l rlexer) option" where
  "layout_loop A valid eol indent first_comment lx0 =
     (let lx = (if valid DEDENT \<and> lookahead A lx0 = ch CHR '')'' then skip A lx0 else lx0);
          c = lookahead A lx
      in if c = 10 then layout_loop A valid True 0 first_comment (skip A lx)
         else if c = 32 then layout_loop A valid eol (indent + 1) first_comment (skip A lx)
         else if c = 13 \<or> c = 12 then layout_loop A valid eol 0 first_comment (skip A lx)
         else if c = 9 then layout_loop A valid eol (indent + 8) first_comment (skip A lx)
         else if c = ch CHR ''#'' \<and> (valid INDENT \<or> valid DEDENT \<or> valid NEWLINE \<or> valid EXCEPT)
         then if \<not> eol then Some (Inl lx)
              else do {
                lx1 \<leftarrow> advance_while A True (\<lambda>x. x \<noteq> 0 \<and> x \<noteq> 10) lx;
                layout_loop A valid eol 0 (if first_comment = - 1 then indent else first_comment) (skip A lx1)
              }
         else if eof A lx then Some (Inr (True, 0, first_comment, lx))
         else Some (Inr (eol, indent, first_comment, lx)))"

text \<open>The decision behind the loop, for the top \<open>cur\<close> of the indent stack.\<close>

definition layout_token ::
  "(TokenType \<Rightarrow> bool) \<Rightarrow> 32 word \<Rightarrow> 32 word \<Rightarrow> 16 word \<Rightarrow> bool \<Rightarrow> TokenType option" where
  "layout_token valid indent first_comment cur f_string =
     (if valid INDENT \<and> indent > ucast cur then Some INDENT
      else if (valid DEDENT \<or> \<not> valid NEWLINE) \<and> indent < ucast cur \<and> \<not> f_string \<and>
              sint first_comment < uint cur
      then Some DEDENT
      else if valid END_NEWLINE \<and> indent \<le> ucast cur then Some END_NEWLINE
      else None)"

definition roc_scan ::
  "'l lexer_api \<Rightarrow> Scanner \<Rightarrow> 'l rlexer \<Rightarrow> (TokenType \<Rightarrow> bool) \<Rightarrow> (bool \<times> 'l rlexer \<times> Scanner) option" where
  "roc_scan A scanner lx0 valid = do {
     let error_recovery_mode = valid INDENT;
     r \<leftarrow> layout_loop A valid False 0 (- 1) (mark_end A lx0);
     case r of
       Inl lx \<Rightarrow> Some (False, lx, scanner)
     | Inr (eol, indent, first_comment, lx) \<Rightarrow>
         if \<not> eol then Some (False, lx, scanner)
         else do {
           tok \<leftarrow> (if size (indents scanner) > 0
                   then do {
                     cur \<leftarrow> vec_back (indents scanner);
                     Some (layout_token valid indent first_comment cur (inside_f_string scanner))
                   }
                   else Some None);
           case tok of
             Some INDENT \<Rightarrow> do {
               v \<leftarrow> vec_push (indents scanner) (ucast indent);
               Some (True, set_symbol INDENT lx, scanner\<lparr>indents := v\<rparr>)
             }
           | Some DEDENT \<Rightarrow>
               Some (True, set_symbol DEDENT lx, scanner\<lparr>indents := vec_pop (indents scanner)\<rparr>)
           | Some t \<Rightarrow> Some (True, set_symbol t lx, scanner)
           | None \<Rightarrow>
               Some (if valid NEWLINE \<and> \<not> error_recovery_mode
                     then (True, set_symbol NEWLINE lx, scanner)
                     else (False, lx, scanner))
         }
   }"

subsection \<open>Saving and restoring\<close>

function serialize_indents :: "indent_vec \<Rightarrow> nat \<Rightarrow> byte list \<Rightarrow> byte list option" where
  "serialize_indents v i buffer =
     (if i < size v \<and> length buffer < TREE_SITTER_SERIALIZATION_BUFFER_SIZE
      then do { x \<leftarrow> read_cell v i; serialize_indents v (i + 1) (buffer @ [ucast x]) }
      else Some buffer)"
  by pat_completeness auto
termination by (relation "measure (\<lambda>(v, i, _). size v - i)") auto

definition roc_serialize :: "Scanner \<Rightarrow> byte list option" where
  "roc_serialize scanner = do {
     let delimiter_count = min (size (delimiters scanner)) 255;
     ds \<leftarrow> those (map (read_cell (delimiters scanner)) [0..<delimiter_count]);
     serialize_indents (indents scanner) 1
       ([of_bool (inside_f_string scanner), of_nat delimiter_count] @ map flags ds)
   }"

primrec push_indents :: "indent_vec \<Rightarrow> byte list \<Rightarrow> indent_vec option" where
  "push_indents v [] = Some v"
| "push_indents v (b # bs) = do { w \<leftarrow> vec_push v (ucast b); push_indents w bs }"

definition roc_deserialize :: "Scanner \<Rightarrow> byte list \<Rightarrow> Scanner option" where
  "roc_deserialize scanner buffer = do {
     let ds = vec_clear (delimiters scanner);
     is \<leftarrow> vec_push (vec_clear (indents scanner)) 0;
     if length buffer = 0 then Some (scanner\<lparr>indents := is, delimiters := ds\<rparr>)
     else if length buffer = 1 then None
     else do {
       let delimiter_count = unat (buffer ! 1);
       if length buffer < 2 + delimiter_count then None
       else do {
         ds' \<leftarrow> (if delimiter_count > 0
                 then write_cells ((vec_grow ds delimiter_count)\<lparr>size := delimiter_count\<rparr>) 0
                        (map (\<lambda>b. Some \<lparr>flags = b\<rparr>) (take delimiter_count (drop 2 buffer)))
                 else Some ds);
         is' \<leftarrow> push_indents is (drop (2 + delimiter_count) buffer);
         Some \<lparr>indents = is', delimiters = ds', inside_f_string = (buffer ! 0 \<noteq> 0)\<rparr>
       }
     }
   }"

definition roc_create :: "Scanner option" where
  "roc_create = roc_deserialize
     \<lparr>indents = indent_vec_new, delimiters = delimiter_vec_new, inside_f_string = False\<rparr> []"

definition roc_destroy :: "Scanner \<Rightarrow> Scanner" where
  "roc_destroy scanner = scanner\<lparr>indents := vec_free (indents scanner), delimiters := vec_free (delimiters scanner)\<rparr>"

subsection \<open>The vectors are stacks\<close>

lemma vec_resize_ok:
  assumes "arr_ok v" and "size v \<le> cap" and "cap < 2 ^ 32"
  shows "arr_ok (vec_resize v cap)" and "arr_list (vec_resize v cap) = arr_list v"
    and "capacity (vec_resize v cap) = cap" and "size (vec_resize v cap) = size v"
proof -
  have "size v \<le> length (contents v)" using assms(1) by (simp add: arr_ok_def)
  then have t: "take (length (arr_list v)) (contents (vec_resize v cap)) = map Some (arr_list v)"
    using assms live_cells [OF assms(1)] by (simp add: vec_resize_def min_def)
  have l: "length (contents (vec_resize v cap)) = capacity (vec_resize v cap)"
    by (simp add: vec_resize_def)
  show c: "capacity (vec_resize v cap) = cap" and s: "size (vec_resize v cap) = size v"
    by (simp_all add: vec_resize_def)
  have s': "size (vec_resize v cap) = length (arr_list v)" using s assms(1) by simp
  show "arr_ok (vec_resize v cap)" by (rule arr_okI(1) [OF l _ s' t]) (use assms(3) in \<open>simp add: vec_resize_def\<close>)
  show "arr_list (vec_resize v cap) = arr_list v" by (rule arr_okI(2) [OF l _ s' t]) (use assms(3) in \<open>simp add: vec_resize_def\<close>)
qed

lemma vec_push_ok:
  assumes "arr_ok v" and "size v < 2 ^ 31"
  shows "\<exists>w. vec_push v x = Some w \<and> arr_ok w \<and> arr_list w = arr_list v @ [x] \<and> size w = size v + 1"
proof -
  let ?n = "max 16 (u32 (size v * 2))"
  let ?v = "if capacity v = size v then vec_resize v ?n else v"
  have n: "size v < ?n" "?n < 2 ^ 32" using assms(2) by (auto simp: less_max_iff_disj)
  have le: "size v \<le> capacity v" using assms(1) by (simp add: arr_ok_def)
  have v: "arr_ok ?v" "arr_list ?v = arr_list v" "size ?v = size v" "size ?v + 1 \<le> capacity ?v"
    using vec_resize_ok [OF assms(1) less_imp_le [OF n(1)] n(2)] assms(1) n(1) le by auto
  obtain b where w: "write_cells ?v (size ?v) (map Some [x]) = Some b"
    and ok: "arr_ok (b\<lparr>size := size ?v + length [x]\<rparr>)"
    and ls: "arr_list (b\<lparr>size := size ?v + length [x]\<rparr>) = arr_list ?v @ [x]"
    by (rule write_append [OF v(1), of "[x]"]) (use v(4) in simp)
  have "vec_push v x = Some (b\<lparr>size := size v + 1\<rparr>)"
    using w v(3) assms(2) by (simp add: vec_push_def Let_def)
  with ok ls v show ?thesis by simp
qed

lemma vec_back_ok: "arr_ok v \<Longrightarrow> arr_list v \<noteq> [] \<Longrightarrow> vec_back v = Some (last (arr_list v))"
proof -
  assume a: "arr_ok v" "arr_list v \<noteq> []"
  then have s: "0 < size v" using size_zero_iff by blast
  then have "u32_sub (size v) 1 = size v - 1" using a(1) by (simp add: arr_ok_def)
  then show ?thesis using read_live [OF a(1), of "size v - 1"] s a by (simp add: vec_back_def last_conv_nth)
qed

lemma vec_pop_ok:
  assumes "arr_ok v" and "arr_list v \<noteq> []"
  shows "arr_ok (vec_pop v)" and "arr_list (vec_pop v) = butlast (arr_list v)"
proof -
  have s: "0 < size v" using assms size_zero_iff by blast
  then obtain b where b: "array_pop v = Some (last (arr_list v), b)" "arr_ok b" "arr_list b = butlast (arr_list v)"
    using array_pop_ok [OF assms(1)] by blast
  then have "b = vec_pop v" by (auto simp: array_pop_def vec_pop_def Let_def)
  with b show "arr_ok (vec_pop v)" "arr_list (vec_pop v) = butlast (arr_list v)" by simp_all
qed

lemma vec_clear_ok [simp]:
  "arr_ok v \<Longrightarrow> arr_ok (vec_clear v)" "arr_list (vec_clear v) = []" "size (vec_clear v) = 0"
  by (simp_all add: vec_clear_def arr_ok_def arr_list_def)

interpretation vec: growable_stack vec_push "\<lambda>v. map_option (\<lambda>x. (x, vec_pop v)) (vec_back v)" vec_back
  arr_list arr_ok "2 ^ 31"
proof
  fix s :: "'a arr" and x
  assume s: "arr_ok s"
  show "length (arr_list s) < 2 ^ 31 \<Longrightarrow> \<exists>t. vec_push s x = Some t \<and> arr_ok t \<and> arr_list t = arr_list s @ [x]"
    using vec_push_ok [OF s, of x] s by auto
  show "arr_list s \<noteq> [] \<Longrightarrow> \<exists>t. map_option (\<lambda>x. (x, vec_pop s)) (vec_back s) = Some (last (arr_list s), t) \<and>
      arr_ok t \<and> arr_list t = butlast (arr_list s)"
    using vec_back_ok [OF s] vec_pop_ok [OF s] by auto
  show "arr_list s \<noteq> [] \<Longrightarrow> vec_back s = Some (last (arr_list s))"
    by (rule vec_back_ok [OF s])
qed

lemma push_indents_all: "push_indents v bs = push_all vec_push v (map ucast bs)"
  by (induction bs arbitrary: v) auto

subsection \<open>The invariant of the indent stack\<close>

definition roc_ok :: "Scanner \<Rightarrow> bool" where
  "roc_ok s \<longleftrightarrow> arr_ok (indents s) \<and> arr_ok (delimiters s) \<and> size (delimiters s) \<le> 255 \<and>
     arr_list (indents s) \<noteq> [] \<and> hd (arr_list (indents s)) = 0 \<and> sorted_wrt (<) (arr_list (indents s))"

lemma roc_okD:
  assumes "roc_ok s"
  shows "arr_ok (indents s)" "arr_ok (delimiters s)" "arr_list (indents s) \<noteq> []"
  using assms by (auto simp: roc_ok_def)

lemma sorted_words_bound:
  fixes xs :: "16 word list"
  assumes "sorted_wrt (<) xs" and "\<forall>x \<in> set xs. unat x < n"
  shows "length xs \<le> n"
proof -
  have "sorted_wrt (<) (map unat xs)" using assms(1)
    by (auto simp: sorted_wrt_map word_less_nat_alt elim: sorted_wrt_mono_rel [rotated])
  then show ?thesis using strict_sorted_length_bound [of "map unat xs" n] assms(2) by simp
qed

lemma unat16: "unat (x :: 16 word) < 65536"
  by (rule order_less_le_trans [OF unsigned_less]) simp

lemma roc_ok_depth: "roc_ok s \<Longrightarrow> size (indents s) \<le> 65536"
proof -
  assume s: "roc_ok s"
  then show ?thesis using sorted_words_bound [of "arr_list (indents s)" 65536]
    by (auto simp: roc_ok_def unat16)
qed

context ts_lexer
begin

lemma comment_skip:
  obtains lx' where "advance_while A True (\<lambda>x. x \<noteq> 0 \<and> x \<noteq> 10) lx = Some lx'"
    and "vw lx' = v_skip (length (takeWhile (\<lambda>x. x \<noteq> 0 \<and> x \<noteq> 10) (todo (vw lx)))) (vw lx)"
    and "result_symbol lx' = result_symbol lx"
  using advance_while_Some [of "\<lambda>x. x \<noteq> 0 \<and> x \<noteq> 10" True lx] by auto

definition loop_end ::
  "nat \<Rightarrow> ('l, TokenType) tslexer \<Rightarrow> ('l rlexer + bool \<times> 32 word \<times> 32 word \<times> 'l rlexer) \<Rightarrow> bool" where
  "loop_end n lx res \<longleftrightarrow> (case res of
     Inl lx' \<Rightarrow> tok_end (vw lx') = tok_end (vw lx) \<and> result_symbol lx' = result_symbol lx
   | Inr (_, i', _, lx') \<Rightarrow> unat i' \<le> n + 8 * length (todo (vw lx)) \<and>
       tok_end (vw lx') = tok_end (vw lx) \<and> result_symbol lx' = result_symbol lx)"

lemma loop_end_mono:
  "loop_end n lx' res \<Longrightarrow> n + 8 * length (todo (vw lx')) \<le> m + 8 * length (todo (vw lx)) \<Longrightarrow>
     tok_end (vw lx') = tok_end (vw lx) \<Longrightarrow> result_symbol lx' = result_symbol lx \<Longrightarrow> loop_end m lx res"
  by (auto simp: loop_end_def split: sum.splits)

lemma unat_add_le: "unat (x + y) \<le> unat x + unat (y :: 'w::len word)"
  by (simp add: unat_plus_if')

lemma layout_loop_Some:
  "\<exists>res. layout_loop A valid eol i f lx = Some res \<and> loop_end (unat i) lx res"
proof (induction "length (todo (vw lx))" arbitrary: eol i f lx rule: less_induct)
  case less
  define lx1 where "lx1 = (if valid DEDENT \<and> lookahead A lx = ch CHR '')'' then skip A lx else lx)"
  have lx1: "length (todo (vw lx1)) \<le> length (todo (vw lx))" "tok_end (vw lx1) = tok_end (vw lx)"
    "result_symbol lx1 = result_symbol lx"
    by (auto simp: lx1_def)
  let ?c = "peek (todo (vw lx1))"
  have rec: "\<exists>res. layout_loop A valid eol' i' f' lx' = Some res \<and> loop_end (unat i) lx res"
    if "todo (vw lx1) \<noteq> []" "length (todo (vw lx')) < length (todo (vw lx1))" "unat i' \<le> unat i + 8"
      "tok_end (vw lx') = tok_end (vw lx1)" "result_symbol lx' = result_symbol lx1" for eol' i' f' lx'
  proof -
    have "length (todo (vw lx')) < length (todo (vw lx))" using that lx1 by simp
    from less [OF this] obtain res where res: "layout_loop A valid eol' i' f' lx' = Some res"
      "loop_end (unat i') lx' res" by blast
    have "loop_end (unat i) lx res" by (rule loop_end_mono [OF res(2)]) (use that lx1 in auto)
    then show ?thesis using res(1) by blast
  qed
  have le: "unat (i + 1) \<le> unat i + 8" "unat (i + 8) \<le> unat i + 8"
    using unat_add_le [of i 1] unat_add_le [of i 8] by auto
  obtain lx2 where lx2: "advance_while A True (\<lambda>x. x \<noteq> 0 \<and> x \<noteq> 10) lx1 = Some lx2"
    "vw lx2 = v_skip (length (takeWhile (\<lambda>x. x \<noteq> 0 \<and> x \<noteq> 10) (todo (vw lx1)))) (vw lx1)"
    "result_symbol lx2 = result_symbol lx1"
    by (rule comment_skip)
  have fin: "loop_end (unat i) lx (Inl lx1)" "loop_end (unat i) lx (Inr (e, i, f, lx1))" "loop_end (unat i) lx (Inr (e, 0, f, lx1))" for e f
    using lx1 by (simp_all add: loop_end_def)
  have ne: "todo (vw lx1) \<noteq> []" if "?c \<noteq> 0" using that by auto
  show ?case
    unfolding layout_loop.simps [of A valid eol i f lx] Let_def lx1_def [symmetric]
    using fin ne le lx2
    by (auto intro!: rec)
qed


end

text \<open>The indentation a scan measures is less than \<open>n\<close> columns.\<close>

definition narrow_line :: "'l lexer_api \<Rightarrow> 'l rlexer \<Rightarrow> (TokenType \<Rightarrow> bool) \<Rightarrow> nat \<Rightarrow> bool" where
  "narrow_line A lx valid n \<longleftrightarrow>
     (case layout_loop A valid False 0 (- 1) (mark_end A lx) of
        Some (Inr (_, i, _, _)) \<Rightarrow> unat i < n
      | _ \<Rightarrow> True)"

text \<open>What one scan does to the indent stack, read off its token.\<close>

definition indent_effect :: "bool \<Rightarrow> TokenType option \<Rightarrow> 16 word list \<Rightarrow> 16 word list \<Rightarrow> bool" where
  "indent_effect found tok xs ys \<longleftrightarrow>
     (if found \<and> tok = Some INDENT then \<exists>w. ys = xs @ [w] \<and> last xs < w
      else if found \<and> tok = Some DEDENT then ys = butlast xs \<and> last xs \<noteq> 0
      else ys = xs)"

text \<open>
  The same for lines of any width. The stack has 16-bit cells and \<^verbatim>\<open>VEC_PUSH\<close> truncates the 32-bit width, so on a line of
  65536 columns or more the width pushed may be below the one it was compared with.
\<close>

definition indents_move :: "bool \<Rightarrow> TokenType option \<Rightarrow> 16 word list \<Rightarrow> 16 word list \<Rightarrow> bool" where
  "indents_move found tok xs ys \<longleftrightarrow>
     (if found \<and> tok = Some INDENT then \<exists>w. ys = xs @ [w]
      else if found \<and> tok = Some DEDENT then ys = butlast xs \<and> last xs \<noteq> 0
      else ys = xs)"

lemma indent_effect_ok:
  assumes "indent_effect found tok (arr_list (indents s)) (arr_list v)" and "roc_ok s" and "arr_ok v"
  shows "roc_ok (s\<lparr>indents := v\<rparr>)"
proof -
  let ?xs = "arr_list (indents s)"
  have xs: "?xs \<noteq> []" "hd ?xs = 0" "sorted_wrt (<) ?xs" using assms(2) by (auto simp: roc_ok_def)
  have pop: "butlast ?xs \<noteq> [] \<and> hd (butlast ?xs) = 0 \<and> sorted_wrt (<) (butlast ?xs)" if "last ?xs \<noteq> 0"
    using xs that by (cases ?xs rule: rev_cases) (auto simp: hd_append sorted_wrt_append split: if_splits)
  have push: "sorted_wrt (<) (?xs @ [w])" if "last ?xs < w" for w
    using xs that by (cases ?xs rule: rev_cases) (auto simp: sorted_wrt_append intro: less_trans)
  show ?thesis using assms xs pop push by (auto simp: roc_ok_def indent_effect_def split: if_splits)
qed

lemma layout_token_INDENT:
  assumes "layout_token valid i f cur b = Some INDENT" and "unat i < 65536"
  shows "cur < ucast i"
proof -
  have "ucast cur < i" using assms(1) by (auto simp: layout_token_def split: if_splits)
  then have "take_bit 32 (unat cur) < unat i" by (simp add: word_less_nat_alt unsigned_ucast_eq)
  moreover have "take_bit 32 (unat cur) = unat cur"
    using unat16 [of cur] by (intro take_bit_nat_eq_self) simp
  ultimately show ?thesis using assms(2)
    by (simp add: word_less_nat_alt unsigned_ucast_eq take_bit_nat_eq_self)
qed

lemma layout_token_DEDENT: "layout_token valid i f cur b = Some DEDENT \<Longrightarrow> cur \<noteq> 0"
  by (auto simp: layout_token_def split: if_splits)

lemma layout_token_others: "layout_token valid i f cur b = Some t \<Longrightarrow> t \<in> {INDENT, DEDENT, END_NEWLINE}"
  by (auto simp: layout_token_def split: if_splits)


context ts_lexer
begin

lemma roc_scan_any_line:
  assumes "arr_ok (indents s)" and "arr_list (indents s) \<noteq> []" and "size (indents s) < 2 ^ 31"
  shows "\<exists>r lx' s'. roc_scan A s lx valid = Some (r, lx', s') \<and> arr_ok (indents s') \<and>
    indents_move r (Some (result_symbol lx')) (arr_list (indents s)) (arr_list (indents s')) \<and>
    (narrow_line A lx valid 65536 \<longrightarrow>
      indent_effect r (Some (result_symbol lx')) (arr_list (indents s)) (arr_list (indents s'))) \<and>
    s' = s\<lparr>indents := indents s'\<rparr> \<and> tok_end (vw lx') = seen (vw lx)"
proof -
  let ?lx = "mark_end A lx" let ?v = "indents s"
  obtain res where res: "layout_loop A valid False 0 (- 1) ?lx = Some res" "loop_end 0 ?lx res"
    using layout_loop_Some [of valid False 0 "- 1" ?lx] by auto
  have keep: "indents_move r t xs xs" "indent_effect r t xs xs" if "\<not> r \<or> t \<noteq> Some INDENT \<and> t \<noteq> Some DEDENT" for r t xs
    using that by (auto simp: indents_move_def indent_effect_def)
  show ?thesis
  proof (cases res)
    case (Inl lx')
    then show ?thesis using res assms(1) keep [of False]
      by (intro exI [of _ False]) (simp add: roc_scan_def loop_end_def)
  next
    case (Inr q)
    then obtain eol i f lx' where q: "res = Inr (eol, i, f, lx')" by (cases q) auto
    have i: "narrow_line A lx valid 65536 \<Longrightarrow> unat i < 65536" and lx': "tok_end (vw lx') = seen (vw lx)"
      using res q by (auto simp: loop_end_def narrow_line_def)
    have top: "vec_back ?v = Some (last (arr_list ?v))" "size ?v > 0"
      using vec_back_ok [OF assms(1,2)] assms(1,2) size_zero_iff by blast+
    let ?t = "layout_token valid i f (last (arr_list ?v)) (inside_f_string s)"
    show ?thesis
    proof (cases "\<not> eol \<or> (?t \<noteq> Some INDENT \<and> ?t \<noteq> Some DEDENT)")
      case True
      then show ?thesis using res(1) q top assms(1) keep lx'
        by (cases ?t) (auto simp: roc_scan_def dest!: layout_token_others)
    next
      case False
      obtain w where w: "vec_push ?v (ucast i) = Some w" "arr_ok w" "arr_list w = arr_list ?v @ [ucast i]"
        using vec_push_ok [OF assms(1,3), of "ucast i"] by auto
      note p = vec_pop_ok [OF assms(1,2)]
      have push: "indents_move True (Some INDENT) (arr_list ?v) (arr_list w)"
        "?t = Some INDENT \<Longrightarrow> narrow_line A lx valid 65536 \<Longrightarrow> indent_effect True (Some INDENT) (arr_list ?v) (arr_list w)"
        using layout_token_INDENT [OF _ i] w by (simp_all add: indents_move_def indent_effect_def)
      have pop: "indents_move True (Some DEDENT) (arr_list ?v) (arr_list (vec_pop ?v))"
        "indent_effect True (Some DEDENT) (arr_list ?v) (arr_list (vec_pop ?v))" if "?t = Some DEDENT"
        using layout_token_DEDENT [OF that] p by (simp_all add: indents_move_def indent_effect_def)
      show ?thesis using False res(1) q top lx' w(1,2) push pop p(1)
        by (intro exI [of _ True]) (auto simp: roc_scan_def)
    qed
  qed
qed

lemma roc_scan_step:
  assumes "roc_ok s" and "narrow_line A lx valid 65536"
  shows "\<exists>r lx' s'. roc_scan A s lx valid = Some (r, lx', s') \<and> roc_ok s' \<and>
    indent_effect r (Some (result_symbol lx')) (arr_list (indents s)) (arr_list (indents s')) \<and>
    delimiters s' = delimiters s \<and> inside_f_string s' = inside_f_string s \<and>
    tok_end (vw lx') = seen (vw lx)"
proof -
  have "size (indents s) < 2 ^ 31" using roc_ok_depth [OF assms(1)] by simp
  then obtain r lx' s' where r: "roc_scan A s lx valid = Some (r, lx', s')" "arr_ok (indents s')"
    "indent_effect r (Some (result_symbol lx')) (arr_list (indents s)) (arr_list (indents s'))" "s' = s\<lparr>indents := indents s'\<rparr>"
    "tok_end (vw lx') = seen (vw lx)"
    using roc_scan_any_line [of s lx valid] roc_okD [OF assms(1)] assms(2) by blast
  have "roc_ok s'" using indent_effect_ok [OF r(3) assms(1) r(2)] r(4) by simp
  moreover have "delimiters s' = delimiters s" "inside_f_string s' = inside_f_string s" by (subst r(4), simp)+
  ultimately show ?thesis using r by blast
qed

end

subsection \<open>Saving and restoring\<close>

declare serialize_indents.simps [simp del]

lemma serialize_indents_eq:
  "arr_ok v \<Longrightarrow> i \<le> size v \<Longrightarrow> length buf \<le> 1024 \<Longrightarrow>
     serialize_indents v i buf = Some (take 1024 (buf @ map ucast (drop i (arr_list v))))"
proof (induction v i buf rule: serialize_indents.induct)
  case (1 v i buf)
  show ?case
  proof (cases "i < size v \<and> length buf < 1024")
    case True
    have r: "read_cell v i = Some (arr_list v ! i)" using True 1(2) by (simp add: read_live)
    have d: "drop i (arr_list v) = arr_list v ! i # drop (Suc i) (arr_list v)"
      using True 1(2) by (simp add: Cons_nth_drop_Suc)
    have "serialize_indents v (i + 1) (buf @ [ucast (arr_list v ! i)]) =
        Some (take 1024 ((buf @ [ucast (arr_list v ! i)]) @ map ucast (drop (i + 1) (arr_list v))))"
      using 1 True r by (simp add: TREE_SITTER_SERIALIZATION_BUFFER_SIZE_def)
    then show ?thesis using True r d
      by (simp add: serialize_indents.simps [of v i] TREE_SITTER_SERIALIZATION_BUFFER_SIZE_def)
  next
    case False
    then have "i = size v \<or> length buf = 1024" using 1 by auto
    then show ?thesis using False 1
      by (auto simp: serialize_indents.simps [of v i] TREE_SITTER_SERIALIZATION_BUFFER_SIZE_def)
  qed
qed

definition roc_bytes :: "Scanner \<Rightarrow> byte list" where
  "roc_bytes s = [of_bool (inside_f_string s), of_nat (size (delimiters s))] @
     map flags (arr_list (delimiters s)) @ map ucast (tl (arr_list (indents s)))"

lemma those_live: "arr_ok v \<Longrightarrow> those (map (read_cell v) [0..<size v]) = Some (arr_list v)"
proof -
  assume v: "arr_ok v"
  then have "map (read_cell v) [0..<size v] = map Some (arr_list v)"
    by (intro nth_equalityI) (auto simp: read_live)
  then show ?thesis by simp
qed

lemma roc_serialize_eq:
  assumes "roc_ok s"
  shows "roc_serialize s = Some (take 1024 (roc_bytes s))"
proof -
  have ok: "arr_ok (indents s)" "arr_ok (delimiters s)" "size (delimiters s) \<le> 255" "arr_list (indents s) \<noteq> []"
    using assms by (auto simp: roc_ok_def)
  then have "Suc 0 \<le> size (indents s)" using size_zero_iff [OF ok(1)] by linarith
  then show ?thesis using ok
    by (simp add: roc_serialize_def min_absorb1 those_live serialize_indents_eq roc_bytes_def drop_Suc Let_def)
qed

lemma roc_deserialize_eq:
  assumes "arr_ok (indents t)" "arr_ok (delimiters t)" "length ds \<le> 255" "length is < 1024"
  shows "\<exists>u. roc_deserialize t ([b, of_nat (length ds)] @ map flags ds @ is) = Some u \<and>
    arr_ok (indents u) \<and> arr_list (indents u) = 0 # map ucast is \<and>
    arr_ok (delimiters u) \<and> arr_list (delimiters u) = ds \<and> inside_f_string u = (b \<noteq> 0)"
proof -
  obtain v where v: "vec_push (vec_clear (indents t)) 0 = Some v" "arr_ok v" "arr_list v = [0]"
    using vec.push_all_ok [of "vec_clear (indents t)" "[0]"] assms(1) by (auto split: bind_splits)
  obtain w where w: "push_indents v is = Some w" "arr_ok w" "arr_list w = 0 # map ucast is"
    using vec.push_all_ok [OF v(2), of "map ucast is"] v(3) assms(4) by (auto simp: push_indents_all)
  let ?n = "length ds"
  let ?d = "vec_clear (delimiters t)" let ?g = "vec_grow ?d ?n"
  let ?u = "?g\<lparr>contents := map Some ds @ drop ?n (contents ?g), size := ?n\<rparr>"
  have d: "arr_ok ?d" "arr_list ?d = []" "size ?d = 0" using assms(2) by simp_all
  have g: "length (contents ?g) = capacity ?g" "capacity ?g < 2 ^ 32" "?n \<le> capacity ?g"
    using d(1) vec_resize_ok [OF d(1), of ?n] d(3) assms(3) by (auto simp: vec_grow_def arr_ok_def)
  have "arr_ok ?u" "arr_list ?u = ds" using arr_okI [of ?u ds] g by auto
  moreover have "write_cells (?g\<lparr>size := ?n\<rparr>) 0 (map Some ds) = Some ?u"
    using g by (simp add: write_cells_def)
  moreover have "(\<lambda>b. Some \<lparr>flags = b\<rparr>) \<circ> flags = Some" by (rule ext) simp
  moreover have "unat (of_nat ?n :: byte) = ?n" using assms(3) by (simp add: unat_of_nat)
  ultimately show ?thesis using v w d by (cases "ds = []") (auto simp: roc_deserialize_def Let_def)
qed

text \<open>What a scan can see of the payload, and the states whose indents fit a byte.\<close>

definition roc_meaning :: "Scanner \<Rightarrow> 16 word list \<times> Delimiter list \<times> bool" where
  "roc_meaning s = (arr_list (indents s), arr_list (delimiters s), inside_f_string s)"

definition roc_narrow :: "Scanner \<Rightarrow> bool" where
  "roc_narrow s \<longleftrightarrow> roc_ok s \<and> (\<forall>x \<in> set (arr_list (indents s)). unat x < 256)"

lemma roc_narrow_bytes: "roc_narrow s \<Longrightarrow> length (roc_bytes s) \<le> 1024"
proof -
  assume s: "roc_narrow s"
  then have "length (arr_list (indents s)) \<le> 256"
    by (intro sorted_words_bound) (auto simp: roc_narrow_def roc_ok_def)
  then show ?thesis using s by (auto simp: roc_bytes_def roc_narrow_def roc_ok_def)
qed

lemma ucast_byte: "unat x < 256 \<Longrightarrow> ucast (ucast (x :: 16 word) :: byte) = x"
  by (simp add: word_unat_eq_iff unsigned_ucast_eq unsigned_take_bit_eq take_bit_nat_eq_self)

lemma roc_restores:
  assumes "roc_narrow s" and "arr_ok (indents t)" "arr_ok (delimiters t)"
  shows "\<exists>u. roc_deserialize t (roc_bytes s) = Some u \<and> roc_narrow u \<and> roc_meaning u = roc_meaning s"
proof -
  have ok: "roc_ok s" and nar: "\<forall>x \<in> set (arr_list (indents s)). unat x < 256"
    using assms(1) by (auto simp: roc_narrow_def)
  let ?is = "tl (arr_list (indents s))" let ?ds = "arr_list (delimiters s)"
  have z: "0 # ?is = arr_list (indents s)" using ok by (auto simp: roc_ok_def neq_Nil_conv)
  have bk: "map (ucast \<circ> (ucast :: _ \<Rightarrow> byte)) ?is = ?is"
    using nar by (intro map_idI) (auto simp: ucast_byte dest: in_set_tlD)
  have szs: "length ?ds \<le> 255" "length ?ds = size (delimiters s)" using ok by (auto simp: roc_ok_def)
  obtain u where "roc_deserialize t ([of_bool (inside_f_string s), of_nat (length ?ds)] @ map flags ?ds @ map ucast ?is) = Some u"
    "arr_ok (indents u)" "arr_list (indents u) = arr_list (indents s)"
    "arr_ok (delimiters u)" "arr_list (delimiters u) = ?ds" "inside_f_string u = inside_f_string s"
    using roc_deserialize_eq [OF assms(2,3) szs(1), of "map ucast ?is" "of_bool (inside_f_string s)"]
      roc_narrow_bytes [OF assms(1)] bk z by (auto simp: roc_bytes_def)
  then show ?thesis using assms(1) szs length_arr_list [of "delimiters u"]
    by (auto simp: roc_bytes_def roc_narrow_def roc_ok_def roc_meaning_def)
qed

interpretation roc: external_scanner roc_serialize roc_deserialize roc_meaning roc_narrow
proof
  fix s t :: Scanner
  assume s: "roc_narrow s"
  have ser: "roc_serialize s = Some (roc_bytes s)" if "roc_narrow s" for s
    using that roc_serialize_eq [of s] roc_narrow_bytes [OF that] by (simp add: roc_narrow_def)
  show "\<exists>bs. roc_serialize s = Some bs \<and> length bs \<le> TREE_SITTER_SERIALIZATION_BUFFER_SIZE"
    using ser [OF s] roc_narrow_bytes [OF s] by (simp add: TREE_SITTER_SERIALIZATION_BUFFER_SIZE_def)
  assume t: "roc_narrow t"
  show "roc_serialize s = roc_serialize t" if "roc_meaning s = roc_meaning t"
  proof -
    have "size (delimiters s) = size (delimiters t)"
      using s t that length_arr_list by (metis Pair_inject roc_meaning_def roc_narrow_def roc_okD(2))
    then show ?thesis using that ser [OF s] ser [OF t] by (simp add: roc_meaning_def roc_bytes_def)
  qed
  show "\<exists>u. roc_deserialize t bs = Some u \<and> roc_narrow u \<and> roc_meaning u = roc_meaning s"
    if "roc_serialize s = Some bs" for bs
    using roc_restores [OF s, of t] t that ser [OF s] by (auto simp: roc_narrow_def roc_ok_def)
qed

subsection \<open>Runs of scans\<close>

context ts_lexer
begin

lemma short_text_narrow: "length (todo (vw lx)) < 32 \<Longrightarrow> narrow_line A lx valid 256"
proof -
  obtain res where "layout_loop A valid False 0 (- 1) (mark_end A lx) = Some res" "loop_end 0 (mark_end A lx) res"
    using layout_loop_Some [of valid False 0 "- 1" "mark_end A lx"] by auto
  then show "length (todo (vw lx)) < 32 \<Longrightarrow> narrow_line A lx valid 256"
    by (cases res) (auto simp: narrow_line_def loop_end_def)
qed

end

text \<open>A scan as a step of the payload: its token, if it found one, and the next payload.\<close>

definition roc_step ::
  "'l lexer_api \<Rightarrow> nat \<Rightarrow> Scanner \<Rightarrow> 'l rlexer \<times> (TokenType \<Rightarrow> bool) \<Rightarrow> (TokenType option \<times> Scanner) option" where
  "roc_step A n s inp =
     (if narrow_line A (fst inp) (snd inp) n
      then do {
        (found, lx', s') \<leftarrow> roc_scan A s (fst inp) (snd inp);
        Some (if found then Some (result_symbol lx') else None, s')
      }
      else None)"

text \<open>A scan sees of its payload only the meaning.\<close>

lemma roc_scan_same:
  assumes "roc_ok s" and "roc_ok t" and "roc_meaning s = roc_meaning t"
    and "roc_scan A s lx valid = Some (r, lx', s')"
  shows "\<exists>t'. roc_scan A t lx valid = Some (r, lx', t') \<and> roc_meaning t' = roc_meaning s'"
proof -
  note s = roc_okD [OF assms(1)] and t = roc_okD [OF assms(2)]
  have same: "arr_list (indents s) = arr_list (indents t)" "arr_list (delimiters s) = arr_list (delimiters t)"
    "inside_f_string s = inside_f_string t" "size (indents s) = size (indents t)"
    using assms(3) length_arr_list [OF s(1)] length_arr_list [OF t(1)] by (auto simp: roc_meaning_def)
  have topmost: "vec_back (indents s) = vec_back (indents t)"
    using vec_back_ok [OF s(1,3)] vec_back_ok [OF t(1,3)] same by simp
  have push: "\<exists>v w. vec_push (indents s) x = Some v \<and> vec_push (indents t) x = Some w \<and> arr_list v = arr_list w" for x
    using vec_push_ok [OF s(1), of x] vec_push_ok [OF t(1), of x] roc_ok_depth [OF assms(1)]
      roc_ok_depth [OF assms(2)] same by auto
  have pop: "arr_list (vec_pop (indents s)) = arr_list (vec_pop (indents t))"
    using vec_pop_ok(2) [OF s(1,3)] vec_pop_ok(2) [OF t(1,3)] same by simp
  have meaning: "roc_meaning (t\<lparr>indents := w\<rparr>) = roc_meaning (s\<lparr>indents := v\<rparr>)" if "arr_list v = arr_list w" for v w
    using that same by (simp add: roc_meaning_def)
  obtain res where res: "layout_loop A valid False 0 (- 1) (mark_end A lx) = Some res"
    using assms(4) by (auto simp: roc_scan_def split: bind_splits)
  show ?thesis
  proof (cases res)
    case (Inl l)
    then show ?thesis using assms(3,4) res by (auto simp: roc_scan_def)
  next
    case (Inr q)
    then obtain eol i f l where q: "res = Inr (eol, i, f, l)" by (cases q) auto
    let ?t = "layout_token valid i f (last (arr_list (indents t))) (inside_f_string t)"
    have top: "vec_back (indents t) = Some (last (arr_list (indents t)))" by (rule vec_back_ok [OF t(1,3)])
    have pos: "size (indents t) > 0" using t size_zero_iff by blast
    obtain v w where vw: "vec_push (indents s) (ucast i) = Some v" "vec_push (indents t) (ucast i) = Some w"
      "arr_list v = arr_list w" using push by blast
    show ?thesis
    proof (cases "eol \<and> (?t = Some INDENT \<or> ?t = Some DEDENT)")
      case True
      then show ?thesis using assms(4) res q top topmost pos same(4) vw(1,2)
          meaning [OF vw(3)] meaning [OF pop] by (auto simp: roc_scan_def same(3))
    next
      case False
      then have "\<not> eol \<or> ?t = None \<or> ?t = Some END_NEWLINE"
        using layout_token_others by (cases ?t) blast+
      then show ?thesis using assms(3,4) res q top topmost pos same(4)
        by (auto simp: roc_scan_def same(3) split: if_splits)
    qed
  qed
qed

lemma roc_step_indents:
  assumes "ts_lexer A view" and "roc_ok s" and "roc_step A 65536 s inp = Some (out, s')"
  shows "roc_ok s'" and "indent_effect True out (arr_list (indents s)) (arr_list (indents s'))"
  using ts_lexer.roc_scan_step [OF assms(1,2), of "fst inp" "snd inp"] assms(3)
  by (auto simp: roc_step_def indent_effect_def split: if_splits)

lemma roc_scan_narrow:
  assumes "roc_narrow s" and "narrow_line A lx valid 256" and "roc_scan A s lx valid = Some (r, lx', s')"
    and "roc_ok s'"
  shows "roc_narrow s'"
proof -
  have ok: "roc_ok s" and lt: "\<forall>x \<in> set (arr_list (indents s)). unat x < 256"
    using assms(1) by (auto simp: roc_narrow_def)
  note v = roc_okD [OF ok]
  have push: "\<forall>x \<in> set (arr_list w). unat x < 256"
    if "vec_push (indents s) (ucast i) = Some w" "unat i < 256" for w and i :: "32 word"
    using vec_push_ok [OF v(1), of "ucast i"] roc_ok_depth [OF ok] that lt
    by (auto simp: unsigned_ucast_eq take_bit_nat_eq_self)
  have pop: "\<forall>x \<in> set (arr_list (vec_pop (indents s))). unat x < 256"
    using lt vec_pop_ok(2) [OF v(1,3)] by (auto dest: in_set_butlastD)
  have "\<forall>x \<in> set (arr_list (indents s')). unat x < 256"
    using assms(2,3) lt push pop
    by (auto simp: roc_scan_def narrow_line_def Let_def
        split: bind_splits sum.splits option.splits if_splits TokenType.splits)
  then show ?thesis using assms(4) by (simp add: roc_narrow_def)
qed

lemma roc_step_SomeD:
  assumes "ts_lexer A view" and "roc_ok s" and "roc_step A n s inp = Some (out, s')" and "n \<le> 65536"
  shows "roc_step A 65536 s inp = Some (out, s')"
  using assms(3,4) by (auto simp: roc_step_def narrow_line_def split: if_splits option.splits sum.splits)

lemma roc_resumable:
  assumes "ts_lexer A view"
  shows "resumable_scanner roc_serialize roc_deserialize roc_meaning roc_narrow (roc_step A 256)"
proof
  fix s t s' i out
  assume s: "roc_narrow s" and st: "roc_step A 256 s i = Some (out, s')"
  have ok: "roc_ok s" using s by (simp add: roc_narrow_def)
  have st': "roc_step A 65536 s i = Some (out, s')"
    by (rule roc_step_SomeD [OF assms ok st]) simp
  show "roc_narrow s'"
    using roc_scan_narrow [OF s] roc_step_indents(1) [OF assms ok st'] st
    by (auto simp: roc_step_def split: if_splits bind_splits)
  show "\<exists>t'. roc_step A 256 t i = Some (out, t') \<and> roc_meaning t' = roc_meaning s'"
    if t: "roc_narrow t" and m: "roc_meaning s = roc_meaning t"
  proof -
    have "roc_ok t" using t by (simp add: roc_narrow_def)
    from roc_scan_same [OF ok this m] st show ?thesis
      by (fastforce simp: roc_step_def split: if_splits bind_splits)
  qed
qed

text \<open>The depth of the stack counts the INDENT tokens that no DEDENT token has closed.\<close>

lemma roc_step_depth:
  assumes "ts_lexer A view" and "roc_ok s" and "roc_step A 65536 s inp = Some (out, s')"
  shows "length (arr_list (indents s')) + (if out = Some DEDENT then 1 else 0) =
    length (arr_list (indents s)) + (if out = Some INDENT then 1 else 0)" and "arr_list (indents s') \<noteq> []"
proof -
  have "arr_list (indents s) \<noteq> []" using roc_okD [OF assms(2)] by simp
  then show "length (arr_list (indents s')) + (if out = Some DEDENT then 1 else 0) =
    length (arr_list (indents s)) + (if out = Some INDENT then 1 else 0)"
    using roc_step_indents(2) [OF assms] by (auto simp: indent_effect_def split: if_splits)
  show "arr_list (indents s') \<noteq> []" using roc_okD(3) [OF roc_step_indents(1) [OF assms]] .
qed

lemma roc_step_returns:
  assumes "ts_lexer A view" and "roc_ok s" and "narrow_line A (fst inp) (snd inp) 65536"
  shows "\<exists>out s'. roc_step A 65536 s inp = Some (out, s')"
  using ts_lexer.roc_scan_step [OF assms] assms(3) by (auto simp: roc_step_def)

lemma roc_run_balance:
  assumes "ts_lexer A view"
  shows "roc_ok s \<Longrightarrow> \<forall>inp \<in> set inps. narrow_line A (fst inp) (snd inp) 65536 \<Longrightarrow>
    \<exists>outs. run_scans (roc_step A 65536) s inps = Some outs \<and>
      count_list outs (Some DEDENT) < count_list outs (Some INDENT) + length (arr_list (indents s))"
proof (induction inps arbitrary: s)
  case Nil
  then show ?case using roc_okD(1,3) [of s] size_zero_iff [of "indents s"] by auto
next
  case (Cons inp inps)
  obtain out s' where st: "roc_step A 65536 s inp = Some (out, s')"
    using roc_step_returns [OF assms Cons.prems(1), of inp] Cons.prems(2) by (meson list.set_intros(1))
  obtain outs where outs: "run_scans (roc_step A 65536) s' inps = Some outs"
    "count_list outs (Some DEDENT) < count_list outs (Some INDENT) + length (arr_list (indents s'))"
    using Cons.IH [OF roc_step_indents(1) [OF assms Cons.prems(1) st]] Cons.prems(2) by auto
  then show ?case using st roc_step_depth(1) [OF assms Cons.prems(1) st] by (auto split: if_splits)
qed

lemma roc_create_ok:
  obtains s where "roc_create = Some s" and "roc_narrow s" and "roc_meaning s = ([0], [], False)"
proof -
  have "arr_ok indent_vec_new" "arr_ok delimiter_vec_new"
    by (simp_all add: indent_vec_new_def delimiter_vec_new_def vec_new_def arr_ok_def)
  moreover obtain v where "vec_push (vec_clear indent_vec_new) 0 = Some v" "arr_ok v" "arr_list v = [0]"
    using vec.push_all_ok [of "vec_clear indent_vec_new" "[0]"] calculation(1) by (auto split: bind_splits)
  ultimately show thesis
    using that [of "\<lparr>indents = v, delimiters = vec_clear delimiter_vec_new, inside_f_string = False\<rparr>"]
    by (simp add: roc_create_def roc_deserialize_def roc_narrow_def roc_ok_def roc_meaning_def)
qed


subsection \<open>The layout of a line\<close>

definition blank :: "code \<Rightarrow> bool" where
  "blank c \<longleftrightarrow> c \<in> {9, 10, 12, 13, 32}"

text \<open>The columns of the indentation behind the blanks, a tab being eight.\<close>

primrec indent_after :: "code list \<Rightarrow> nat \<Rightarrow> nat" where
  "indent_after [] n = n"
| "indent_after (c # cs) n = indent_after cs (if c = 32 then n + 1 else if c = 9 then n + 8 else 0)"

text \<open>The token a line of \<open>n\<close> columns asks for inside blocks of \<open>cur\<close> columns.\<close>

definition line_token :: "(TokenType \<Rightarrow> bool) \<Rightarrow> nat \<Rightarrow> nat \<Rightarrow> bool \<Rightarrow> TokenType option" where
  "line_token valid n cur f_string =
     (if valid INDENT \<and> cur < n then Some INDENT
      else if (valid DEDENT \<or> \<not> valid NEWLINE) \<and> n < cur \<and> \<not> f_string then Some DEDENT
      else if valid END_NEWLINE \<and> n \<le> cur then Some END_NEWLINE
      else if valid NEWLINE \<and> \<not> valid INDENT then Some NEWLINE
      else None)"

context ts_lexer
begin

lemma layout_loop_blanks:
  "todo (vw lx) = ws @ cs \<Longrightarrow> \<forall>c \<in> set ws. blank c \<Longrightarrow>
    \<exists>lx'. vw lx' = v_skip (length ws) (vw lx) \<and> result_symbol lx' = result_symbol lx \<and>
      layout_loop A valid eol (of_nat n) f lx =
      layout_loop A valid (eol \<or> 10 \<in> set ws) (of_nat (indent_after ws n)) f lx'"
proof (induction ws arbitrary: lx eol n)
  case Nil
  then show ?case by (intro exI [of _ lx]) simp
next
  case (Cons c ws)
  let ?n = "if c = 32 then n + 1 else if c = 9 then n + 8 else 0"
  let ?l = "skip A lx"
  have look: "lookahead A lx = c" "blank c" using Cons.prems by simp_all
  then have "layout_loop A valid eol (of_nat n) f lx = layout_loop A valid (eol \<or> c = 10) (of_nat ?n) f ?l"
    unfolding layout_loop.simps [of A valid eol "of_nat n"] blank_def by (elim insertE) (simp_all add: add.commute [of "of_nat n" "1 :: 32 word"])
  moreover have t: "todo (vw ?l) = ws @ cs" using Cons.prems by simp
  moreover obtain lx' where "vw lx' = v_skip (length ws) (vw ?l)" "result_symbol lx' = result_symbol ?l"
    "layout_loop A valid (eol \<or> c = 10) (of_nat ?n) f ?l =
      layout_loop A valid ((eol \<or> c = 10) \<or> 10 \<in> set ws) (of_nat (indent_after ws ?n)) f lx'"
    using Cons.IH [OF t, of "eol \<or> c = 10" ?n] Cons.prems(2) by auto
  moreover have "((eol \<or> c = 10) \<or> 10 \<in> set ws) = (eol \<or> 10 \<in> set (c # ws))" by auto
  ultimately show ?case by (intro exI [of _ lx']) simp
qed

lemma layout_loop_stop:
  assumes "todo (vw lx) = c # cs" and "\<not> blank c" and "c \<noteq> ch CHR ''#''" and "c \<noteq> ch CHR '')''"
  shows "layout_loop A valid eol i f lx = Some (Inr (eol, i, f, lx))"
  using assms by (simp add: layout_loop.simps [of A valid eol i] blank_def)

lemma roc_scan_line:
  assumes v: "arr_ok (indents s)" "arr_list (indents s) \<noteq> []" "size (indents s) < 2 ^ 31"
    and "todo (vw lx) = ws @ c # cs" and "\<forall>x \<in> set ws. blank x" and "10 \<in> set ws"
    and "\<not> blank c" "c \<noteq> ch CHR ''#''" "c \<noteq> ch CHR '')''" and "indent_after ws 0 < 65536"
  shows "\<exists>lx' s'. let n = indent_after ws 0; cur = last (arr_list (indents s));
      tok = line_token valid n (unat cur) (inside_f_string s)
    in roc_scan A s lx valid = Some (tok \<noteq> None, lx', s') \<and> (\<forall>t. tok = Some t \<longrightarrow> result_symbol lx' = t) \<and>
      tok_end (vw lx') = seen (vw lx) \<and>
      arr_list (indents s') = (if tok = Some INDENT then arr_list (indents s) @ [of_nat n]
        else if tok = Some DEDENT then butlast (arr_list (indents s)) else arr_list (indents s))"
proof -
  let ?n = "indent_after ws 0" let ?v = "indents s"
  define cur where "cur = last (arr_list ?v)"
  obtain lx1 where lx1: "vw lx1 = v_skip (length ws) (vw (mark_end A lx))" 
    "layout_loop A valid False (of_nat 0) (- 1) (mark_end A lx) =
      layout_loop A valid (10 \<in> set ws) (of_nat ?n) (- 1) lx1"
    using layout_loop_blanks [of "mark_end A lx" ws "c # cs" valid False 0 "- 1"] assms(4,5) by auto
  have loop: "layout_loop A valid False 0 (- 1) (mark_end A lx) = Some (Inr (True, of_nat ?n, - 1, lx1))"
    using lx1 layout_loop_stop [of lx1 c cs] assms by simp
  have top: "vec_back ?v = Some cur" "size ?v > 0"
    using vec_back_ok [OF v(1,2)] v size_zero_iff cur_def by blast+
  obtain w where w: "vec_push ?v (of_nat ?n) = Some w" "arr_list w = arr_list ?v @ [of_nat ?n]"
    using vec_push_ok [OF v(1), of "of_nat ?n"] v by auto
  have "(of_nat ?n :: 32 word) > ucast cur \<longleftrightarrow> unat cur < ?n" "(of_nat ?n :: 32 word) < ucast cur \<longleftrightarrow> ?n < unat cur"
    "(of_nat ?n :: 32 word) \<le> ucast cur \<longleftrightarrow> ?n \<le> unat cur"
    using assms(10) unat16 [of cur]
    by (simp_all add: word_less_nat_alt word_le_nat_alt unat_of_nat unsigned_ucast_eq take_bit_nat_eq_self)
  moreover have "sint (- 1 :: 32 word) < uint cur" by (rule less_le_trans [of _ 0]) simp_all
  ultimately have "line_token valid ?n (unat cur) (inside_f_string s) =
      (case layout_token valid (of_nat ?n) (- 1) cur (inside_f_string s) of Some t \<Rightarrow> Some t
       | None \<Rightarrow> if valid NEWLINE \<and> \<not> valid INDENT then Some NEWLINE else None)"
    by (auto simp: line_token_def layout_token_def)
  moreover have "ucast (of_nat ?n :: 32 word) = (of_nat ?n :: 16 word)"
    using assms(10) by (simp add: word_unat_eq_iff unsigned_ucast_eq unsigned_of_nat take_bit_nat_eq_self)
  ultimately show ?thesis using loop top w lx1(1) vec_pop_ok(2) [OF v(1,2)] cur_def [symmetric]
    by (cases "layout_token valid (of_nat ?n) (- 1) cur (inside_f_string s)")
      (auto simp: roc_scan_def Let_def dest!: layout_token_others)
qed

text \<open>A line of 65536 columns opens a block of width 0.\<close>

lemma roc_wide_line_pushes_zero:
  assumes "roc_ok s" and "todo (vw lx) = ws @ c # cs" and "\<forall>x \<in> set ws. blank x" and "10 \<in> set ws"
    and "\<not> blank c" "c \<noteq> ch CHR ''#''" "c \<noteq> ch CHR '')''" and "indent_after ws 0 = 65536" and "valid INDENT"
  shows "\<exists>lx' s'. roc_scan A s lx valid = Some (True, lx', s') \<and> result_symbol lx' = INDENT \<and>
    arr_list (indents s') = arr_list (indents s) @ [0]"
proof -
  let ?v = "indents s"
  note v = roc_okD(1,3) [OF assms(1)]
  obtain lx1 where "layout_loop A valid False (of_nat 0) (- 1) (mark_end A lx) =
      layout_loop A valid (10 \<in> set ws) (of_nat 65536) (- 1) lx1" "vw lx1 = v_skip (length ws) (vw (mark_end A lx))"
    using layout_loop_blanks [of "mark_end A lx" ws "c # cs" valid False 0 "- 1"] assms by auto
  then have loop: "layout_loop A valid False 0 (- 1) (mark_end A lx) = Some (Inr (True, 65536, - 1, lx1))"
    using layout_loop_stop [of lx1 c cs valid True 65536 "- 1"] assms by simp
  have top: "vec_back ?v = Some (last (arr_list ?v))" "size ?v > 0"
    using vec_back_ok [OF v] v size_zero_iff by blast+
  obtain w where w: "vec_push ?v 0 = Some w" "arr_list w = arr_list ?v @ [0]"
    using vec_push_ok [OF v(1), of 0] roc_ok_depth [OF assms(1)] by auto
  have "(65536 :: 32 word) > ucast (last (arr_list ?v))"
    using unat16 [of "last (arr_list ?v)"] by (simp add: word_less_nat_alt unsigned_ucast_eq take_bit_nat_eq_self)
  then have "layout_token valid 65536 (- 1) (last (arr_list ?v)) (inside_f_string s) = Some INDENT"
    using assms(9) by (simp add: layout_token_def)
  moreover have "vec_push ?v 65536 = Some w"
    by (subst w(1) [symmetric]) (rule arg_cong [where f = "vec_push ?v"], simp add: word_unat_eq_iff)
  ultimately show ?thesis using loop top w(2) by (simp add: roc_scan_def)
qed

end

text \<open>An indentation of 256 columns is saved as the byte 0.\<close>

lemma roc_wide_bytes:
  assumes "roc_ok s" and "arr_list (indents s) = [0, 256]" and "roc_ok t"
  shows "\<exists>bs u. roc_serialize s = Some bs \<and> roc_deserialize t bs = Some u \<and> arr_ok (indents u) \<and>
    arr_list (indents u) = [0, 0] \<and> inside_f_string u = inside_f_string s"
proof -
  have d: "arr_ok (delimiters s)" "size (delimiters s) \<le> 255" using assms(1) by (simp_all add: roc_ok_def)
  then have "roc_serialize s = Some ([of_bool (inside_f_string s), of_nat (length (arr_list (delimiters s)))] @
      map flags (arr_list (delimiters s)) @ [256])"
    using roc_serialize_eq [OF assms(1)] assms(2) by (simp add: roc_bytes_def)
  then show ?thesis
    using roc_deserialize_eq [of t "arr_list (delimiters s)" "[256]" "of_bool (inside_f_string s)"]
      d roc_okD(1,2) [OF assms(3)] by auto
qed

text \<open>A line of ten columns.\<close>

definition ten_columns :: "code list" where
  "ten_columns = [10, 32, 32, 32, 32, 32, 32, 32, 32, 32, 32]"

lemma ten_columns: "\<forall>x \<in> set ten_columns. blank x" "10 \<in> set ten_columns" "indent_after ten_columns 0 = 10"
  by (simp_all add: ten_columns_def blank_def)

subsection \<open>The properties\<close>

text \<open>C17: whatever tokens the parser allows, and however the lines are indented as long as they stay below 65536
  columns, from a fresh payload the scans return and never give more DEDENT tokens than INDENT tokens.\<close>

theorem roc_dedents_match_indents:
  assumes "ts_lexer A view" and "\<forall>inp \<in> set inps. narrow_line A (fst inp) (snd inp) 65536"
  shows "\<exists>s outs. roc_create = Some s \<and> run_scans (roc_step A 65536) s inps = Some outs \<and>
    count_list outs (Some DEDENT) \<le> count_list outs (Some INDENT)"
proof -
  obtain s where s: "roc_create = Some s" "roc_narrow s" "roc_meaning s = ([0], [], False)"
    by (rule roc_create_ok)
  then show ?thesis using roc_run_balance [OF assms(1), of s inps] assms(2)
    by (fastforce simp: roc_narrow_def roc_meaning_def)
qed

theorem roc_dedents_match_indents_witness:
  "\<exists>s outs. roc_create = Some s \<and>
     run_scans (roc_step list_api 65536) s [(lex_text (codes [CHR 0x0A, CHR '' '', CHR ''x'']), \<lambda>_. True)] = Some outs \<and>
     count_list outs (Some DEDENT) \<le> count_list outs (Some INDENT)"
proof (rule roc_dedents_match_indents [OF list_lexer.ts_lexer_axioms], rule ballI)
  fix inp assume "inp \<in> set [(lex_text (codes [CHR 0x0A, CHR '' '', CHR ''x'']) :: lex_view rlexer, \<lambda>_ :: TokenType. True)]"
  then have "narrow_line list_api (fst inp) (snd inp) 256" by (simp add: list_lexer.short_text_narrow)
  then show "narrow_line list_api (fst inp) (snd inp) 65536"
    by (auto simp: narrow_line_def split: option.splits sum.splits)
qed

text \<open>
  C19: on any input a scan returns, its token is empty and ends where the scan started, and the indent stack grows by one
  width on an INDENT, loses its top, which is not 0, on a DEDENT and stays as it is otherwise. On a line below 65536 columns
  the stack also stays strictly increasing above its base 0.
\<close>

theorem roc_scan_keeps_stack:
  assumes "ts_lexer A view" and "roc_ok s"
  shows "\<exists>r lx' s'. roc_scan A s lx valid = Some (r, lx', s') \<and> tok_end (view (runtime lx')) = seen (view (runtime lx)) \<and>
    arr_ok (indents s') \<and> indents_move r (Some (result_symbol lx')) (arr_list (indents s)) (arr_list (indents s')) \<and>
    (narrow_line A lx valid 65536 \<longrightarrow> roc_ok s')"
proof -
  have "size (indents s) < 2 ^ 31" using roc_ok_depth [OF assms(2)] by simp
  then obtain r lx' s' where r: "roc_scan A s lx valid = Some (r, lx', s')" "arr_ok (indents s')"
    "indents_move r (Some (result_symbol lx')) (arr_list (indents s)) (arr_list (indents s'))" "tok_end (view (runtime lx')) = seen (view (runtime lx))"
    using ts_lexer.roc_scan_any_line [OF assms(1) roc_okD(1,3) [OF assms(2)], of lx valid]
    by (auto simp: ts_lexer.vw_def [OF assms(1)])
  have "narrow_line A lx valid 65536 \<longrightarrow> roc_ok s'" using ts_lexer.roc_scan_step [OF assms] r(1) by fastforce
  with r show ?thesis by blast
qed

definition nested_blocks :: Scanner where
  "nested_blocks = \<lparr>indents = \<lparr>contents = [Some 0, Some 4, Some 256], size = 2, capacity = 3\<rparr>,
     delimiters = array_new, inside_f_string = False\<rparr>"

lemma nested_blocks_ok: "roc_narrow nested_blocks" "arr_list (indents nested_blocks) = [0, 4]"
  "inside_f_string nested_blocks = False" "arr_ok (indents nested_blocks)" "size (indents nested_blocks) = 2"
  by (simp_all add: nested_blocks_def roc_narrow_def roc_ok_def arr_ok_def arr_list_def array_new_def)

theorem roc_scan_keeps_stack_witness:
  "\<exists>r lx' s'. roc_scan list_api nested_blocks (lex_text (codes [CHR 0x0A, CHR ''x''])) (\<lambda>_. True) = Some (r, lx', s') \<and>
     roc_ok s'"
proof -
  have "narrow_line list_api (lex_text (codes [CHR 0x0A, CHR ''x''])) (\<lambda>_. True) 256"
    by (simp add: list_lexer.short_text_narrow)
  then have "narrow_line list_api (lex_text (codes [CHR 0x0A, CHR ''x''])) (\<lambda>_. True) 65536"
    by (auto simp: narrow_line_def split: option.splits sum.splits)
  then show ?thesis
    using roc_scan_keeps_stack [OF list_lexer.ts_lexer_axioms, of nested_blocks] nested_blocks_ok(1)
    by (fastforce simp: roc_narrow_def)
qed

text \<open>C18: saving and restoring the payload between the scans changes nothing, as long as no line is
  indented by 256 columns or more.\<close>

theorem roc_restoring_is_transparent:
  assumes "ts_lexer A view" and "roc_narrow s" and "roc_narrow p"
    and "run_scans (roc_step A 256) s inps = Some outs"
  shows "run_restored roc_serialize roc_deserialize (roc_step A 256) p s inps = Some outs"
  by (rule resumable_scanner.restoring_is_transparent [OF roc_resumable [OF assms(1)] assms(2-4)])

theorem roc_restoring_is_transparent_witness:
  "run_restored roc_serialize roc_deserialize (roc_step list_api 256) nested_blocks nested_blocks
     [(lex_text (codes [CHR 0x0A, CHR ''x'']), \<lambda>t. t = DEDENT)] = Some [Some DEDENT]"
  by (rule roc_restoring_is_transparent [OF list_lexer.ts_lexer_axioms nested_blocks_ok(1) nested_blocks_ok(1)])
    (simp add: roc_step_def narrow_line_def roc_scan_def layout_loop.simps lexer_defs nested_blocks_def
      vec_back_def read_cell_def layout_token_def)

text \<open>C16: after a run of blanks with a line end, before a character that starts neither a comment nor is a closing
  parenthesis, the scan gives exactly the token that the columns of the last line (fewer than 65536) ask for, and pushes or
  pops exactly that indentation.\<close>

theorem roc_line_layout:
  assumes "ts_lexer A view" and "roc_ok s" and "todo (view (runtime lx)) = ws @ c # cs"
    and "\<forall>x \<in> set ws. blank x" and "10 \<in> set ws"
    and "\<not> blank c" "c \<noteq> ch CHR ''#''" "c \<noteq> ch CHR '')''" and "indent_after ws 0 < 65536"
  shows "\<exists>lx' s'. let n = indent_after ws 0; cur = last (arr_list (indents s));
      tok = line_token valid n (unat cur) (inside_f_string s)
    in roc_scan A s lx valid = Some (tok \<noteq> None, lx', s') \<and> (\<forall>t. tok = Some t \<longrightarrow> result_symbol lx' = t) \<and>
      arr_list (indents s') = (if tok = Some INDENT then arr_list (indents s) @ [of_nat n]
        else if tok = Some DEDENT then butlast (arr_list (indents s)) else arr_list (indents s))"
proof -
  have "size (indents s) < 2 ^ 31" using roc_ok_depth [OF assms(2)] by simp
  from ts_lexer.roc_scan_line [OF assms(1) roc_okD(1,3) [OF assms(2)] this, of lx ws c cs valid] assms(3-)
  show ?thesis by (auto simp: ts_lexer.vw_def [OF assms(1)] Let_def)
qed

theorem roc_line_layout_witness:
  "\<exists>lx' s'. roc_scan list_api nested_blocks (lex_text (ten_columns @ codes ''x'')) (\<lambda>t. t = INDENT) = Some (True, lx', s') \<and>
     arr_list (indents s') = [0, 4, 10]"
  using roc_line_layout [OF list_lexer.ts_lexer_axioms, of nested_blocks "lex_text (ten_columns @ codes ''x'')"
      ten_columns "ch CHR ''x''" "[]" "\<lambda>t. t = INDENT"] nested_blocks_ok ten_columns
  by (auto simp: roc_narrow_def lex_text_def line_token_def blank_def)

text \<open>The bytes do not keep an indentation of 256 columns: after saving and restoring a payload
  inside such a block, a line of ten columns opens a block instead of closing one.\<close>

lemma roc_wide_indent_is_lost:
  assumes "ts_lexer A view" and "roc_ok s" and "arr_list (indents s) = [0, 256]" and "\<not> inside_f_string s"
    and "roc_ok t" and "todo (view (runtime lx)) = ten_columns @ ch CHR ''x'' # cs"
  shows "\<exists>bs u lx1 s1 lx2 u2. roc_serialize s = Some bs \<and> roc_deserialize t bs = Some u \<and>
    roc_scan A s lx (\<lambda>k. k \<in> {INDENT, DEDENT}) = Some (True, lx1, s1) \<and> result_symbol lx1 = DEDENT \<and>
    roc_scan A u lx (\<lambda>k. k \<in> {INDENT, DEDENT}) = Some (True, lx2, u2) \<and> result_symbol lx2 = INDENT"
proof -
  obtain bs u where u: "roc_serialize s = Some bs" "roc_deserialize t bs = Some u" "arr_ok (indents u)"
    "arr_list (indents u) = [0, 0]"
    using roc_wide_bytes [OF assms(2,3,5)] by blast
  have small: "size (indents s) < 2 ^ 31" "size (indents u) < 2 ^ 31"
    using length_arr_list [OF u(3)] u(4) roc_ok_depth [OF assms(2)] by simp_all
  have line: "todo (ts_lexer.vw view lx) = ten_columns @ ch CHR ''x'' # cs"
    using assms(6) by (simp add: ts_lexer.vw_def [OF assms(1)])
  note scan = ts_lexer.roc_scan_line [OF assms(1) _ _ _ line ten_columns(1,2), of _ "\<lambda>k. k \<in> {INDENT, DEDENT}"]
  show ?thesis
    using scan [OF roc_okD(1,3) [OF assms(2)] small(1)] scan [OF u(3) _ small(2)] u assms(3,4) ten_columns(3)
    by (simp add: blank_def line_token_def Let_def) blast
qed

definition wide_block :: Scanner where
  "wide_block = \<lparr>indents = \<lparr>contents = [Some 0, Some 256], size = 2, capacity = 2\<rparr>,
     delimiters = array_new, inside_f_string = False\<rparr>"

lemma roc_wide_indent_is_lost_witness:
  "\<exists>bs u lx2 u2. roc_serialize wide_block = Some bs \<and> roc_deserialize wide_block bs = Some u \<and>
     roc_scan list_api u (lex_text (ten_columns @ codes ''x'')) (\<lambda>k. k \<in> {INDENT, DEDENT}) = Some (True, lx2, u2) \<and>
     result_symbol lx2 = INDENT"
proof -
  have "roc_ok wide_block" "arr_list (indents wide_block) = [0, 256]"
    by (simp_all add: wide_block_def roc_ok_def arr_ok_def arr_list_def array_new_def)
  then show ?thesis
    using roc_wide_indent_is_lost [OF list_lexer.ts_lexer_axioms, of wide_block wide_block
        "lex_text (ten_columns @ codes ''x'')" "[]"]
    by (fastforce simp: lex_text_def wide_block_def)
qed

end
