(* ===== verification/BladeTag.thy ===== *)
theory BladeTag
  imports TsArray
begin

text \<open>
  The HTML elements the Blade scanner knows, \<^verbatim>\<open>tag.h\<close> of
  \<^verbatim>\<open>crates/cli/vendor-grammars/tree-sitter-blade/src\<close>. The enumeration \<^verbatim>\<open>TagType\<close> has 128
  values that the code orders, stores as a \<^verbatim>\<open>char\<close> and reads back from one, so they are kept as
  the \<^verbatim>\<open>unsigned int\<close> values the compiler gives them, under their names with the prefix
  \<open>TAG_\<close> (\<open>TAG_END\<close> is \<^verbatim>\<open>END_\<close>).
\<close>

type_synonym TagType = "32 word"

abbreviation (input) TAG_AREA :: TagType where "TAG_AREA \<equiv> 0"
abbreviation (input) TAG_BASE :: TagType where "TAG_BASE \<equiv> 1"
abbreviation (input) TAG_BASEFONT :: TagType where "TAG_BASEFONT \<equiv> 2"
abbreviation (input) TAG_BGSOUND :: TagType where "TAG_BGSOUND \<equiv> 3"
abbreviation (input) TAG_BR :: TagType where "TAG_BR \<equiv> 4"
abbreviation (input) TAG_COL :: TagType where "TAG_COL \<equiv> 5"
abbreviation (input) TAG_COMMAND :: TagType where "TAG_COMMAND \<equiv> 6"
abbreviation (input) TAG_EMBED :: TagType where "TAG_EMBED \<equiv> 7"
abbreviation (input) TAG_FRAME :: TagType where "TAG_FRAME \<equiv> 8"
abbreviation (input) TAG_HR :: TagType where "TAG_HR \<equiv> 9"
abbreviation (input) TAG_IMAGE :: TagType where "TAG_IMAGE \<equiv> 10"
abbreviation (input) TAG_IMG :: TagType where "TAG_IMG \<equiv> 11"
abbreviation (input) TAG_INPUT :: TagType where "TAG_INPUT \<equiv> 12"
abbreviation (input) TAG_ISINDEX :: TagType where "TAG_ISINDEX \<equiv> 13"
abbreviation (input) TAG_KEYGEN :: TagType where "TAG_KEYGEN \<equiv> 14"
abbreviation (input) TAG_LINK :: TagType where "TAG_LINK \<equiv> 15"
abbreviation (input) TAG_MENUITEM :: TagType where "TAG_MENUITEM \<equiv> 16"
abbreviation (input) TAG_META :: TagType where "TAG_META \<equiv> 17"
abbreviation (input) TAG_NEXTID :: TagType where "TAG_NEXTID \<equiv> 18"
abbreviation (input) TAG_PARAM :: TagType where "TAG_PARAM \<equiv> 19"
abbreviation (input) TAG_SOURCE :: TagType where "TAG_SOURCE \<equiv> 20"
abbreviation (input) TAG_TRACK :: TagType where "TAG_TRACK \<equiv> 21"
abbreviation (input) TAG_WBR :: TagType where "TAG_WBR \<equiv> 22"
abbreviation (input) TAG_END_OF_VOID_TAGS :: TagType where "TAG_END_OF_VOID_TAGS \<equiv> 23"
abbreviation (input) TAG_A :: TagType where "TAG_A \<equiv> 24"
abbreviation (input) TAG_ABBR :: TagType where "TAG_ABBR \<equiv> 25"
abbreviation (input) TAG_ADDRESS :: TagType where "TAG_ADDRESS \<equiv> 26"
abbreviation (input) TAG_ARTICLE :: TagType where "TAG_ARTICLE \<equiv> 27"
abbreviation (input) TAG_ASIDE :: TagType where "TAG_ASIDE \<equiv> 28"
abbreviation (input) TAG_AUDIO :: TagType where "TAG_AUDIO \<equiv> 29"
abbreviation (input) TAG_B :: TagType where "TAG_B \<equiv> 30"
abbreviation (input) TAG_BDI :: TagType where "TAG_BDI \<equiv> 31"
abbreviation (input) TAG_BDO :: TagType where "TAG_BDO \<equiv> 32"
abbreviation (input) TAG_BLOCKQUOTE :: TagType where "TAG_BLOCKQUOTE \<equiv> 33"
abbreviation (input) TAG_BODY :: TagType where "TAG_BODY \<equiv> 34"
abbreviation (input) TAG_BUTTON :: TagType where "TAG_BUTTON \<equiv> 35"
abbreviation (input) TAG_CANVAS :: TagType where "TAG_CANVAS \<equiv> 36"
abbreviation (input) TAG_CAPTION :: TagType where "TAG_CAPTION \<equiv> 37"
abbreviation (input) TAG_CITE :: TagType where "TAG_CITE \<equiv> 38"
abbreviation (input) TAG_CODE :: TagType where "TAG_CODE \<equiv> 39"
abbreviation (input) TAG_COLGROUP :: TagType where "TAG_COLGROUP \<equiv> 40"
abbreviation (input) TAG_DATA :: TagType where "TAG_DATA \<equiv> 41"
abbreviation (input) TAG_DATALIST :: TagType where "TAG_DATALIST \<equiv> 42"
abbreviation (input) TAG_DD :: TagType where "TAG_DD \<equiv> 43"
abbreviation (input) TAG_DEL :: TagType where "TAG_DEL \<equiv> 44"
abbreviation (input) TAG_DETAILS :: TagType where "TAG_DETAILS \<equiv> 45"
abbreviation (input) TAG_DFN :: TagType where "TAG_DFN \<equiv> 46"
abbreviation (input) TAG_DIALOG :: TagType where "TAG_DIALOG \<equiv> 47"
abbreviation (input) TAG_DIV :: TagType where "TAG_DIV \<equiv> 48"
abbreviation (input) TAG_DL :: TagType where "TAG_DL \<equiv> 49"
abbreviation (input) TAG_DT :: TagType where "TAG_DT \<equiv> 50"
abbreviation (input) TAG_EM :: TagType where "TAG_EM \<equiv> 51"
abbreviation (input) TAG_FIELDSET :: TagType where "TAG_FIELDSET \<equiv> 52"
abbreviation (input) TAG_FIGCAPTION :: TagType where "TAG_FIGCAPTION \<equiv> 53"
abbreviation (input) TAG_FIGURE :: TagType where "TAG_FIGURE \<equiv> 54"
abbreviation (input) TAG_FOOTER :: TagType where "TAG_FOOTER \<equiv> 55"
abbreviation (input) TAG_FORM :: TagType where "TAG_FORM \<equiv> 56"
abbreviation (input) TAG_H1 :: TagType where "TAG_H1 \<equiv> 57"
abbreviation (input) TAG_H2 :: TagType where "TAG_H2 \<equiv> 58"
abbreviation (input) TAG_H3 :: TagType where "TAG_H3 \<equiv> 59"
abbreviation (input) TAG_H4 :: TagType where "TAG_H4 \<equiv> 60"
abbreviation (input) TAG_H5 :: TagType where "TAG_H5 \<equiv> 61"
abbreviation (input) TAG_H6 :: TagType where "TAG_H6 \<equiv> 62"
abbreviation (input) TAG_HEAD :: TagType where "TAG_HEAD \<equiv> 63"
abbreviation (input) TAG_HEADER :: TagType where "TAG_HEADER \<equiv> 64"
abbreviation (input) TAG_HGROUP :: TagType where "TAG_HGROUP \<equiv> 65"
abbreviation (input) TAG_HTML :: TagType where "TAG_HTML \<equiv> 66"
abbreviation (input) TAG_I :: TagType where "TAG_I \<equiv> 67"
abbreviation (input) TAG_IFRAME :: TagType where "TAG_IFRAME \<equiv> 68"
abbreviation (input) TAG_INS :: TagType where "TAG_INS \<equiv> 69"
abbreviation (input) TAG_KBD :: TagType where "TAG_KBD \<equiv> 70"
abbreviation (input) TAG_LABEL :: TagType where "TAG_LABEL \<equiv> 71"
abbreviation (input) TAG_LEGEND :: TagType where "TAG_LEGEND \<equiv> 72"
abbreviation (input) TAG_LI :: TagType where "TAG_LI \<equiv> 73"
abbreviation (input) TAG_MAIN :: TagType where "TAG_MAIN \<equiv> 74"
abbreviation (input) TAG_MAP :: TagType where "TAG_MAP \<equiv> 75"
abbreviation (input) TAG_MARK :: TagType where "TAG_MARK \<equiv> 76"
abbreviation (input) TAG_MATH :: TagType where "TAG_MATH \<equiv> 77"
abbreviation (input) TAG_MENU :: TagType where "TAG_MENU \<equiv> 78"
abbreviation (input) TAG_METER :: TagType where "TAG_METER \<equiv> 79"
abbreviation (input) TAG_NAV :: TagType where "TAG_NAV \<equiv> 80"
abbreviation (input) TAG_NOSCRIPT :: TagType where "TAG_NOSCRIPT \<equiv> 81"
abbreviation (input) TAG_OBJECT :: TagType where "TAG_OBJECT \<equiv> 82"
abbreviation (input) TAG_OL :: TagType where "TAG_OL \<equiv> 83"
abbreviation (input) TAG_OPTGROUP :: TagType where "TAG_OPTGROUP \<equiv> 84"
abbreviation (input) TAG_OPTION :: TagType where "TAG_OPTION \<equiv> 85"
abbreviation (input) TAG_OUTPUT :: TagType where "TAG_OUTPUT \<equiv> 86"
abbreviation (input) TAG_P :: TagType where "TAG_P \<equiv> 87"
abbreviation (input) TAG_PICTURE :: TagType where "TAG_PICTURE \<equiv> 88"
abbreviation (input) TAG_PRE :: TagType where "TAG_PRE \<equiv> 89"
abbreviation (input) TAG_PROGRESS :: TagType where "TAG_PROGRESS \<equiv> 90"
abbreviation (input) TAG_Q :: TagType where "TAG_Q \<equiv> 91"
abbreviation (input) TAG_RB :: TagType where "TAG_RB \<equiv> 92"
abbreviation (input) TAG_RP :: TagType where "TAG_RP \<equiv> 93"
abbreviation (input) TAG_RT :: TagType where "TAG_RT \<equiv> 94"
abbreviation (input) TAG_RTC :: TagType where "TAG_RTC \<equiv> 95"
abbreviation (input) TAG_RUBY :: TagType where "TAG_RUBY \<equiv> 96"
abbreviation (input) TAG_S :: TagType where "TAG_S \<equiv> 97"
abbreviation (input) TAG_SAMP :: TagType where "TAG_SAMP \<equiv> 98"
abbreviation (input) TAG_SCRIPT :: TagType where "TAG_SCRIPT \<equiv> 99"
abbreviation (input) TAG_SECTION :: TagType where "TAG_SECTION \<equiv> 100"
abbreviation (input) TAG_SELECT :: TagType where "TAG_SELECT \<equiv> 101"
abbreviation (input) TAG_SLOT :: TagType where "TAG_SLOT \<equiv> 102"
abbreviation (input) TAG_SMALL :: TagType where "TAG_SMALL \<equiv> 103"
abbreviation (input) TAG_SPAN :: TagType where "TAG_SPAN \<equiv> 104"
abbreviation (input) TAG_STRONG :: TagType where "TAG_STRONG \<equiv> 105"
abbreviation (input) TAG_STYLE :: TagType where "TAG_STYLE \<equiv> 106"
abbreviation (input) TAG_SUB :: TagType where "TAG_SUB \<equiv> 107"
abbreviation (input) TAG_SUMMARY :: TagType where "TAG_SUMMARY \<equiv> 108"
abbreviation (input) TAG_SUP :: TagType where "TAG_SUP \<equiv> 109"
abbreviation (input) TAG_SVG :: TagType where "TAG_SVG \<equiv> 110"
abbreviation (input) TAG_TABLE :: TagType where "TAG_TABLE \<equiv> 111"
abbreviation (input) TAG_TBODY :: TagType where "TAG_TBODY \<equiv> 112"
abbreviation (input) TAG_TD :: TagType where "TAG_TD \<equiv> 113"
abbreviation (input) TAG_TEMPLATE :: TagType where "TAG_TEMPLATE \<equiv> 114"
abbreviation (input) TAG_TEXTAREA :: TagType where "TAG_TEXTAREA \<equiv> 115"
abbreviation (input) TAG_TFOOT :: TagType where "TAG_TFOOT \<equiv> 116"
abbreviation (input) TAG_TH :: TagType where "TAG_TH \<equiv> 117"
abbreviation (input) TAG_THEAD :: TagType where "TAG_THEAD \<equiv> 118"
abbreviation (input) TAG_TIME :: TagType where "TAG_TIME \<equiv> 119"
abbreviation (input) TAG_TITLE :: TagType where "TAG_TITLE \<equiv> 120"
abbreviation (input) TAG_TR :: TagType where "TAG_TR \<equiv> 121"
abbreviation (input) TAG_U :: TagType where "TAG_U \<equiv> 122"
abbreviation (input) TAG_UL :: TagType where "TAG_UL \<equiv> 123"
abbreviation (input) TAG_VAR :: TagType where "TAG_VAR \<equiv> 124"
abbreviation (input) TAG_VIDEO :: TagType where "TAG_VIDEO \<equiv> 125"
abbreviation (input) TAG_CUSTOM :: TagType where "TAG_CUSTOM \<equiv> 126"
abbreviation (input) TAG_END :: TagType where "TAG_END \<equiv> 127"

type_synonym String = "byte arr"

record Tag =
  type :: TagType
  custom_tag_name :: String

text \<open>A C string literal as bytes.\<close>

abbreviation bytes :: "string \<Rightarrow> byte list" where
  "bytes s \<equiv> map of_char s"

definition TAG_TYPES_BY_TAG_NAME :: "(string \<times> TagType) list" where
  "TAG_TYPES_BY_TAG_NAME = [
    (''AREA'', TAG_AREA), (''BASE'', TAG_BASE), (''BASEFONT'', TAG_BASEFONT), (''BGSOUND'', TAG_BGSOUND),
    (''BR'', TAG_BR), (''COL'', TAG_COL), (''COMMAND'', TAG_COMMAND), (''EMBED'', TAG_EMBED),
    (''FRAME'', TAG_FRAME), (''HR'', TAG_HR), (''IMAGE'', TAG_IMAGE), (''IMG'', TAG_IMG),
    (''INPUT'', TAG_INPUT), (''ISINDEX'', TAG_ISINDEX), (''KEYGEN'', TAG_KEYGEN), (''LINK'', TAG_LINK),
    (''MENUITEM'', TAG_MENUITEM), (''META'', TAG_META), (''NEXTID'', TAG_NEXTID), (''PARAM'', TAG_PARAM),
    (''SOURCE'', TAG_SOURCE), (''TRACK'', TAG_TRACK), (''WBR'', TAG_WBR), (''A'', TAG_A),
    (''ABBR'', TAG_ABBR), (''ADDRESS'', TAG_ADDRESS), (''ARTICLE'', TAG_ARTICLE), (''ASIDE'', TAG_ASIDE),
    (''AUDIO'', TAG_AUDIO), (''B'', TAG_B), (''BDI'', TAG_BDI), (''BDO'', TAG_BDO),
    (''BLOCKQUOTE'', TAG_BLOCKQUOTE), (''BODY'', TAG_BODY), (''BUTTON'', TAG_BUTTON), (''CANVAS'', TAG_CANVAS),
    (''CAPTION'', TAG_CAPTION), (''CITE'', TAG_CITE), (''CODE'', TAG_CODE), (''COLGROUP'', TAG_COLGROUP),
    (''DATA'', TAG_DATA), (''DATALIST'', TAG_DATALIST), (''DD'', TAG_DD), (''DEL'', TAG_DEL),
    (''DETAILS'', TAG_DETAILS), (''DFN'', TAG_DFN), (''DIALOG'', TAG_DIALOG), (''DIV'', TAG_DIV),
    (''DL'', TAG_DL), (''DT'', TAG_DT), (''EM'', TAG_EM), (''FIELDSET'', TAG_FIELDSET),
    (''FIGCAPTION'', TAG_FIGCAPTION), (''FIGURE'', TAG_FIGURE), (''FOOTER'', TAG_FOOTER), (''FORM'', TAG_FORM),
    (''H1'', TAG_H1), (''H2'', TAG_H2), (''H3'', TAG_H3), (''H4'', TAG_H4),
    (''H5'', TAG_H5), (''H6'', TAG_H6), (''HEAD'', TAG_HEAD), (''HEADER'', TAG_HEADER),
    (''HGROUP'', TAG_HGROUP), (''HTML'', TAG_HTML), (''I'', TAG_I), (''IFRAME'', TAG_IFRAME),
    (''INS'', TAG_INS), (''KBD'', TAG_KBD), (''LABEL'', TAG_LABEL), (''LEGEND'', TAG_LEGEND),
    (''LI'', TAG_LI), (''MAIN'', TAG_MAIN), (''MAP'', TAG_MAP), (''MARK'', TAG_MARK),
    (''MATH'', TAG_MATH), (''MENU'', TAG_MENU), (''METER'', TAG_METER), (''NAV'', TAG_NAV),
    (''NOSCRIPT'', TAG_NOSCRIPT), (''OBJECT'', TAG_OBJECT), (''OL'', TAG_OL), (''OPTGROUP'', TAG_OPTGROUP),
    (''OPTION'', TAG_OPTION), (''OUTPUT'', TAG_OUTPUT), (''P'', TAG_P), (''PICTURE'', TAG_PICTURE),
    (''PRE'', TAG_PRE), (''PROGRESS'', TAG_PROGRESS), (''Q'', TAG_Q), (''RB'', TAG_RB),
    (''RP'', TAG_RP), (''RT'', TAG_RT), (''RTC'', TAG_RTC), (''RUBY'', TAG_RUBY),
    (''S'', TAG_S), (''SAMP'', TAG_SAMP), (''SCRIPT'', TAG_SCRIPT), (''SECTION'', TAG_SECTION),
    (''SELECT'', TAG_SELECT), (''SLOT'', TAG_SLOT), (''SMALL'', TAG_SMALL), (''SPAN'', TAG_SPAN),
    (''STRONG'', TAG_STRONG), (''STYLE'', TAG_STYLE), (''SUB'', TAG_SUB), (''SUMMARY'', TAG_SUMMARY),
    (''SUP'', TAG_SUP), (''SVG'', TAG_SVG), (''TABLE'', TAG_TABLE), (''TBODY'', TAG_TBODY),
    (''TD'', TAG_TD), (''TEMPLATE'', TAG_TEMPLATE), (''TEXTAREA'', TAG_TEXTAREA), (''TFOOT'', TAG_TFOOT),
    (''TH'', TAG_TH), (''THEAD'', TAG_THEAD), (''TIME'', TAG_TIME), (''TITLE'', TAG_TITLE),
    (''TR'', TAG_TR), (''U'', TAG_U), (''UL'', TAG_UL), (''VAR'', TAG_VAR),
    (''VIDEO'', TAG_VIDEO), (''CUSTOM'', TAG_CUSTOM)]"

definition TAG_TYPES_NOT_ALLOWED_IN_PARAGRAPHS :: "TagType list" where
  "TAG_TYPES_NOT_ALLOWED_IN_PARAGRAPHS = [
    TAG_ADDRESS, TAG_ARTICLE, TAG_ASIDE, TAG_BLOCKQUOTE, TAG_DETAILS, TAG_DIV, TAG_DL,
    TAG_FIELDSET, TAG_FIGCAPTION, TAG_FIGURE, TAG_FOOTER, TAG_FORM, TAG_H1, TAG_H2,
    TAG_H3, TAG_H4, TAG_H5, TAG_H6, TAG_HEADER, TAG_HR, TAG_MAIN,
    TAG_NAV, TAG_OL, TAG_P, TAG_PRE, TAG_SECTION]"

text \<open>\<^verbatim>\<open>memcmp(a->contents, p, n) == 0\<close> of the first \<open>n\<close> cells; \<open>None\<close> where one is not there.\<close>

definition read_cells :: "'a arr \<Rightarrow> nat \<Rightarrow> 'a list option" where
  "read_cells a n = those (map (read_cell a) [0..<n])"

primrec find_tag_type :: "(string \<times> TagType) list \<Rightarrow> String \<Rightarrow> TagType option" where
  "find_tag_type [] tag_name = Some TAG_CUSTOM"
| "find_tag_type (entry # entries) tag_name =
     (if length (fst entry) = size tag_name
      then do {
        name \<leftarrow> read_cells tag_name (size tag_name);
        if name = bytes (fst entry) then Some (snd entry) else find_tag_type entries tag_name
      }
      else find_tag_type entries tag_name)"

definition tag_type_for_name :: "String \<Rightarrow> TagType option" where
  "tag_type_for_name tag_name = find_tag_type TAG_TYPES_BY_TAG_NAME tag_name"

definition tag_new :: Tag where
  "tag_new = \<lparr>type = TAG_END, custom_tag_name = array_new\<rparr>"

definition tag_for_name :: "String \<Rightarrow> Tag option" where
  "tag_for_name name = do {
     t \<leftarrow> tag_type_for_name name;
     let tag = tag_new\<lparr>type := t\<rparr>;
     Some (if t = TAG_CUSTOM then tag\<lparr>custom_tag_name := name\<rparr> else tag)
   }"

definition tag_free :: "Tag \<Rightarrow> Tag" where
  "tag_free tag = (if type tag = TAG_CUSTOM then tag\<lparr>custom_tag_name := array_delete (custom_tag_name tag)\<rparr> else tag)"

definition tag_is_void :: "Tag \<Rightarrow> bool" where
  "tag_is_void self \<longleftrightarrow> type self < TAG_END_OF_VOID_TAGS"

definition tag_eq :: "Tag \<Rightarrow> Tag \<Rightarrow> bool option" where
  "tag_eq self other =
     (if type self \<noteq> type other then Some False
      else if type self = TAG_CUSTOM
      then if size (custom_tag_name self) \<noteq> size (custom_tag_name other) then Some False
           else do {
             a \<leftarrow> read_cells (custom_tag_name self) (size (custom_tag_name self));
             b \<leftarrow> read_cells (custom_tag_name other) (size (custom_tag_name self));
             Some (a = b)
           }
      else Some True)"

definition tag_can_contain :: "Tag \<Rightarrow> Tag \<Rightarrow> bool" where
  "tag_can_contain self other =
     (let child = type other; t = type self
      in if t = TAG_LI then child \<noteq> TAG_LI
         else if t = TAG_DT \<or> t = TAG_DD then child \<noteq> TAG_DT \<and> child \<noteq> TAG_DD
         else if t = TAG_P then child \<notin> set TAG_TYPES_NOT_ALLOWED_IN_PARAGRAPHS
         else if t = TAG_COLGROUP then child = TAG_COL
         else if t = TAG_RB \<or> t = TAG_RT \<or> t = TAG_RP
         then child \<noteq> TAG_RB \<and> child \<noteq> TAG_RT \<and> child \<noteq> TAG_RP
         else if t = TAG_OPTGROUP then child \<noteq> TAG_OPTGROUP
         else if t = TAG_TR then child \<noteq> TAG_TR
         else if t = TAG_TD \<or> t = TAG_TH
         then child \<noteq> TAG_TD \<and> child \<noteq> TAG_TH \<and> child \<noteq> TAG_TR
         else True)"

subsection \<open>Names and types\<close>

text \<open>What a tag stands for: its type and, for a custom element, its name.\<close>

definition tag_meaning :: "Tag \<Rightarrow> TagType \<times> byte list" where
  "tag_meaning tag = (type tag, if type tag = TAG_CUSTOM then arr_list (custom_tag_name tag) else [])"

definition tag_ok :: "Tag \<Rightarrow> bool" where
  "tag_ok tag \<longleftrightarrow> type tag \<le> TAG_END \<and> arr_ok (custom_tag_name tag)"

text \<open>The type of a name, read off the table.\<close>

definition type_of_name :: "byte list \<Rightarrow> TagType" where
  "type_of_name name = (case map_of (map (\<lambda>(s, t). (bytes s, t)) TAG_TYPES_BY_TAG_NAME) name of
     Some t \<Rightarrow> t | None \<Rightarrow> TAG_CUSTOM)"

lemma read_cells_ok [simp]: "arr_ok a \<Longrightarrow> read_cells a (size a) = Some (arr_list a)"
proof -
  assume a: "arr_ok a"
  then have "map (read_cell a) [0..<size a] = map Some (arr_list a)"
    by (intro nth_equalityI) (auto simp: read_live)
  then show ?thesis by (simp add: read_cells_def)
qed

lemma find_tag_type_ok:
  "arr_ok name \<Longrightarrow> find_tag_type es name =
     Some (case map_of (map (\<lambda>(s, t). (bytes s, t)) es) (arr_list name) of Some t \<Rightarrow> t | None \<Rightarrow> TAG_CUSTOM)"
proof (induction es)
  case (Cons e es)
  have "length (fst e) \<noteq> size name \<Longrightarrow> arr_list name \<noteq> bytes (fst e)"
    using Cons.prems length_arr_list by fastforce
  then show ?case using Cons by (cases e) auto
qed simp

lemma tag_type_for_name_ok: "arr_ok name \<Longrightarrow> tag_type_for_name name = Some (type_of_name (arr_list name))"
  by (simp add: tag_type_for_name_def type_of_name_def find_tag_type_ok)

lemma table_types: "(s, t) \<in> set TAG_TYPES_BY_TAG_NAME \<Longrightarrow> t < TAG_END"
proof -
  have "\<forall>e \<in> set TAG_TYPES_BY_TAG_NAME. snd e < TAG_END" by (simp add: TAG_TYPES_BY_TAG_NAME_def)
  then show "(s, t) \<in> set TAG_TYPES_BY_TAG_NAME \<Longrightarrow> t < TAG_END" by fastforce
qed

lemma type_of_name_less: "type_of_name name < TAG_END"
proof (cases "map_of (map (\<lambda>(s, t). (bytes s, t)) TAG_TYPES_BY_TAG_NAME) name")
  case (Some t)
  then have "(name, t) \<in> (\<lambda>(s, t). (bytes s, t)) ` set TAG_TYPES_BY_TAG_NAME" by (auto dest: map_of_SomeD)
  then show ?thesis using Some table_types by (auto simp: type_of_name_def)
qed (simp add: type_of_name_def)

lemma tag_for_name_ok:
  assumes "arr_ok name"
  shows "\<exists>tag. tag_for_name name = Some tag \<and> tag_ok tag \<and> type tag = type_of_name (arr_list name) \<and>
    tag_meaning tag = (type_of_name (arr_list name),
      if type_of_name (arr_list name) = TAG_CUSTOM then arr_list name else [])"
  using assms type_of_name_less [of "arr_list name"]
  by (auto simp: tag_for_name_def tag_type_for_name_ok tag_ok_def tag_meaning_def tag_new_def Let_def)

lemma tag_eq_ok:
  assumes "tag_ok a" and "tag_ok b"
  shows "tag_eq a b = Some (tag_meaning a = tag_meaning b)"
proof -
  have ok: "arr_ok (custom_tag_name a)" "arr_ok (custom_tag_name b)" using assms by (simp_all add: tag_ok_def)
  have "size (custom_tag_name a) \<noteq> size (custom_tag_name b) \<Longrightarrow>
      arr_list (custom_tag_name a) \<noteq> arr_list (custom_tag_name b)"
    using ok length_arr_list by metis
  then show ?thesis using ok
    by (cases "size (custom_tag_name a) = size (custom_tag_name b)") (auto simp: tag_eq_def tag_meaning_def dest: sym)
qed

lemma tag_ok_new [simp]: "tag_ok tag_new" "tag_meaning tag_new = (TAG_END, [])"
  by (simp_all add: tag_ok_def tag_new_def tag_meaning_def)

end
