(* ===== verification/BladeScanner.thy ===== *)
theory BladeScanner
  imports TsLexer BladeTag ScannerContract "HOL-Library.Sublist"
begin

text \<open>
  The external scanner of the Blade grammar,
  \<^verbatim>\<open>crates/cli/vendor-grammars/tree-sitter-blade/src/scanner.c\<close>: the stack of open HTML
  elements, which tells tag names, implicit end tags, raw text and comments apart.
\<close>

datatype TokenType =
    START_TAG_NAME
  | SCRIPT_START_TAG_NAME
  | STYLE_START_TAG_NAME
  | END_TAG_NAME
  | ERRONEOUS_END_TAG_NAME
  | SELF_CLOSING_TAG_DELIMITER
  | IMPLICIT_END_TAG
  | RAW_TEXT
  | COMMENT

type_synonym 'l blexer = "('l, TokenType) tslexer"

record Scanner =
  tags :: "Tag arr"

subsection \<open>Saving and restoring\<close>

text \<open>A \<^verbatim>\<open>uint16_t\<close> copied to memory, on the little-endian targets the binary is built for.\<close>

definition u16_bytes :: "nat \<Rightarrow> byte list" where
  "u16_bytes n = [of_nat n, of_nat (n div 256)]"

definition u16_read :: "byte list \<Rightarrow> nat \<Rightarrow> nat" where
  "u16_read buffer i = unat (buffer ! i) + 256 * unat (buffer ! (i + 1))"

text \<open>\<^verbatim>\<open>strncpy(dst, xs, n)\<close> writes up to the first NUL and fills up with zeroes.\<close>

definition strncpy :: "byte list \<Rightarrow> nat \<Rightarrow> byte list" where
  "strncpy xs n = (let ys = takeWhile (\<lambda>b. b \<noteq> 0) (take n xs) in ys @ replicate (n - length ys) 0)"

text \<open>
  The loop over the tags; \<open>body\<close> is what was written behind the two counts, so the \<^verbatim>\<open>size\<close> of
  the source is \<open>4 + length body\<close>. It gives \<^verbatim>\<open>serialized_tag_count\<close> and the body.
\<close>

function serialize_tags :: "Tag arr \<Rightarrow> nat \<Rightarrow> nat \<Rightarrow> byte list \<Rightarrow> (nat \<times> byte list) option" where
  "serialize_tags ts tag_count i body =
     (if i < tag_count
      then do {
        tag \<leftarrow> read_cell ts i;
        if type tag = TAG_CUSTOM
        then let name_length = min (size (custom_tag_name tag)) 255
             in if 4 + length body + 2 + name_length \<ge> TREE_SITTER_SERIALIZATION_BUFFER_SIZE
                then Some (i, body)
                else do {
                  name \<leftarrow> read_cells (custom_tag_name tag) name_length;
                  serialize_tags ts tag_count (i + 1)
                    (body @ [ucast (type tag), of_nat name_length] @ strncpy name name_length)
                }
        else if 4 + length body + 1 \<ge> TREE_SITTER_SERIALIZATION_BUFFER_SIZE then Some (i, body)
        else serialize_tags ts tag_count (i + 1) (body @ [ucast (type tag)])
      }
      else Some (i, body))"
  by pat_completeness auto
termination by (relation "measure (\<lambda>(_, n, i, _). n - i)") auto

declare serialize_tags.simps [simp del]

definition serialize :: "Scanner \<Rightarrow> byte list option" where
  "serialize scanner = do {
     let tag_count = min (size (tags scanner)) 65535;
     (serialized_tag_count, body) \<leftarrow> serialize_tags (tags scanner) tag_count 0 [];
     Some (u16_bytes serialized_tag_count @ u16_bytes tag_count @ body)
   }"

definition free_tags :: "Tag arr \<Rightarrow> Tag arr option" where
  "free_tags ts = do { xs \<leftarrow> read_cells ts (size ts); write_cells ts 0 (map (\<lambda>t. Some (tag_free t)) xs) }"

text \<open>One tag read from the front of the buffer; \<open>None\<close> where the read runs past its end.\<close>

definition read_tag :: "byte list \<Rightarrow> (Tag \<times> byte list) option" where
  "read_tag buffer =
     (case buffer of
        [] \<Rightarrow> None
      | b # bs \<Rightarrow>
          let tag = tag_new\<lparr>type := scast b\<rparr>
          in if type tag = TAG_CUSTOM
             then (case bs of
                 [] \<Rightarrow> None
               | n # cs \<Rightarrow>
                   let name_length = unat n
                   in if length cs < name_length then None
                      else do {
                        name \<leftarrow> write_cells ((array_reserve (custom_tag_name tag) name_length)\<lparr>size := name_length\<rparr>) 0
                                  (map Some (take name_length cs));
                        Some (tag\<lparr>custom_tag_name := name\<rparr>, drop name_length cs)
                      })
             else Some (tag, bs))"

primrec deserialize_tags :: "nat \<Rightarrow> Tag arr \<Rightarrow> byte list \<Rightarrow> Tag arr option" where
  "deserialize_tags 0 ts buffer = Some ts"
| "deserialize_tags (Suc n) ts buffer = do {
     (tag, rest) \<leftarrow> read_tag buffer;
     ts' \<leftarrow> array_push ts tag;
     deserialize_tags n ts' rest
   }"

primrec pad_tags :: "nat \<Rightarrow> Tag arr \<Rightarrow> Tag arr option" where
  "pad_tags 0 ts = Some ts"
| "pad_tags (Suc n) ts = do { ts' \<leftarrow> array_push ts tag_new; pad_tags n ts' }"

definition deserialize :: "Scanner \<Rightarrow> byte list \<Rightarrow> Scanner option" where
  "deserialize scanner buffer = do {
     freed \<leftarrow> free_tags (tags scanner);
     let ts = array_clear freed;
     if length buffer = 0 then Some (scanner\<lparr>tags := ts\<rparr>)
     else if length buffer < 4 then None
     else do {
       let serialized_tag_count = u16_read buffer 0;
       let tag_count = u16_read buffer 2;
       let ts1 = array_reserve ts tag_count;
       if tag_count > 0
       then do {
         ts2 \<leftarrow> deserialize_tags serialized_tag_count ts1 (drop 4 buffer);
         ts3 \<leftarrow> pad_tags (tag_count - serialized_tag_count) ts2;
         Some (scanner\<lparr>tags := ts3\<rparr>)
       }
       else Some (scanner\<lparr>tags := ts1\<rparr>)
     }
   }"

subsection \<open>Names, comments and raw text\<close>

definition name_char :: "code \<Rightarrow> bool" where
  "name_char c \<longleftrightarrow> iswalnum c \<or> c = ch CHR ''-'' \<or> c = ch CHR '':'' \<or> c = ch CHR ''.''"

partial_function (option) tag_name_loop :: "'l lexer_api \<Rightarrow> String \<Rightarrow> 'l blexer \<Rightarrow> (String \<times> 'l blexer) option" where
  "tag_name_loop A tag_name lx =
     (if name_char (lookahead A lx)
      then do {
        tag_name' \<leftarrow> array_push tag_name (ucast (towupper (lookahead A lx)));
        tag_name_loop A tag_name' (advance A lx)
      }
      else Some (tag_name, lx))"

definition scan_tag_name :: "'l lexer_api \<Rightarrow> 'l blexer \<Rightarrow> (String \<times> 'l blexer) option" where
  "scan_tag_name A lx = tag_name_loop A array_new lx"

partial_function (option) comment_loop :: "'l lexer_api \<Rightarrow> nat \<Rightarrow> 'l blexer \<Rightarrow> (bool \<times> 'l blexer) option" where
  "comment_loop A dashes lx =
     (if lookahead A lx = 0 then Some (False, lx)
      else if lookahead A lx = ch CHR ''-'' then comment_loop A (u32 (dashes + 1)) (advance A lx)
      else if lookahead A lx = ch CHR ''>'' \<and> dashes \<ge> 2
      then Some (True, mark_end A (advance A (set_symbol COMMENT lx)))
      else comment_loop A 0 (advance A lx))"

definition scan_comment :: "'l lexer_api \<Rightarrow> 'l blexer \<Rightarrow> (bool \<times> 'l blexer) option" where
  "scan_comment A lx =
     (if lookahead A lx \<noteq> ch CHR ''-'' then Some (False, lx)
      else let lx1 = advance A lx
           in if lookahead A lx1 \<noteq> ch CHR ''-'' then Some (False, lx1)
              else comment_loop A 0 (advance A lx1))"

partial_function (option) raw_text_loop :: "'l lexer_api \<Rightarrow> code list \<Rightarrow> nat \<Rightarrow> 'l blexer \<Rightarrow> 'l blexer option" where
  "raw_text_loop A end_delimiter delimiter_index lx =
     (if lookahead A lx = 0 then Some lx
      else if towupper (lookahead A lx) = end_delimiter ! delimiter_index
      then if delimiter_index + 1 = length end_delimiter then Some lx
           else raw_text_loop A end_delimiter (delimiter_index + 1) (advance A lx)
      else raw_text_loop A end_delimiter 0 (mark_end A (advance A lx)))"

definition scan_raw_text :: "'l lexer_api \<Rightarrow> Scanner \<Rightarrow> 'l blexer \<Rightarrow> (bool \<times> 'l blexer) option" where
  "scan_raw_text A scanner lx =
     (if size (tags scanner) = 0 then Some (False, lx)
      else do {
        top \<leftarrow> array_back (tags scanner);
        let end_delimiter = codes (if type top = TAG_SCRIPT then ''</SCRIPT'' else ''</STYLE'');
        lx1 \<leftarrow> raw_text_loop A end_delimiter 0 (mark_end A lx);
        Some (True, set_symbol RAW_TEXT lx1)
      })"

subsection \<open>Tags\<close>

definition pop_tag :: "Scanner \<Rightarrow> Scanner option" where
  "pop_tag scanner = do { (_, ts) \<leftarrow> array_pop (tags scanner); Some (scanner\<lparr>tags := ts\<rparr>) }"

text \<open>The search for an open element of the type of the closing tag, from the top down.\<close>

primrec type_open_below :: "Tag arr \<Rightarrow> TagType \<Rightarrow> nat \<Rightarrow> bool option" where
  "type_open_below ts t 0 = Some False"
| "type_open_below ts t (Suc i) = do {
     x \<leftarrow> read_cell ts i;
     if type x = t then Some True else type_open_below ts t i
   }"

definition implicit_end :: "Scanner \<Rightarrow> 'l blexer \<Rightarrow> (bool \<times> 'l blexer \<times> Scanner) option" where
  "implicit_end scanner lx = do {
     scanner' \<leftarrow> pop_tag scanner;
     Some (True, set_symbol IMPLICIT_END_TAG lx, scanner')
   }"

definition implicit_end_named ::
  "'l lexer_api \<Rightarrow> Scanner \<Rightarrow> Tag option \<Rightarrow> bool \<Rightarrow> 'l blexer \<Rightarrow> (bool \<times> 'l blexer \<times> Scanner) option" where
  "implicit_end_named A scanner parent is_closing_tag lx0 = do {
     (tag_name, lx) \<leftarrow> scan_tag_name A lx0;
     if size tag_name = 0 \<and> \<not> eof A lx then Some (False, lx, scanner)
     else do {
       next_tag \<leftarrow> tag_for_name tag_name;
       if is_closing_tag
       then do {
         closes \<leftarrow> (case parent of None \<Rightarrow> Some False | Some p \<Rightarrow> tag_eq p next_tag);
         if closes then Some (False, lx, scanner)
         else do {
           found \<leftarrow> type_open_below (tags scanner) (type next_tag) (size (tags scanner));
           if found then implicit_end scanner lx else Some (False, lx, scanner)
         }
       }
       else (case parent of
           None \<Rightarrow> Some (False, lx, scanner)
         | Some p \<Rightarrow>
             if \<not> tag_can_contain p next_tag \<or>
                (type p = TAG_HTML \<or> type p = TAG_HEAD \<or> type p = TAG_BODY) \<and> eof A lx
             then implicit_end scanner lx
             else Some (False, lx, scanner))
     }
   }"

definition scan_implicit_end_tag :: "'l lexer_api \<Rightarrow> Scanner \<Rightarrow> 'l blexer \<Rightarrow> (bool \<times> 'l blexer \<times> Scanner) option" where
  "scan_implicit_end_tag A scanner lx = do {
     parent \<leftarrow> (if size (tags scanner) = 0 then Some None else map_option Some (array_back (tags scanner)));
     if lookahead A lx = ch CHR ''/'' then implicit_end_named A scanner parent True (advance A lx)
     else (case parent of
         Some p \<Rightarrow>
           if tag_is_void p then implicit_end scanner lx
           else implicit_end_named A scanner parent False lx
       | None \<Rightarrow> implicit_end_named A scanner parent False lx)
   }"

definition scan_start_tag_name :: "'l lexer_api \<Rightarrow> Scanner \<Rightarrow> 'l blexer \<Rightarrow> (bool \<times> 'l blexer \<times> Scanner) option" where
  "scan_start_tag_name A scanner lx0 = do {
     (tag_name, lx) \<leftarrow> scan_tag_name A lx0;
     if size tag_name = 0 then Some (False, lx, scanner)
     else do {
       tag \<leftarrow> tag_for_name tag_name;
       ts \<leftarrow> array_push (tags scanner) tag;
       Some (True,
         set_symbol (if type tag = TAG_SCRIPT then SCRIPT_START_TAG_NAME
                     else if type tag = TAG_STYLE then STYLE_START_TAG_NAME
                     else START_TAG_NAME) lx,
         scanner\<lparr>tags := ts\<rparr>)
     }
   }"

definition scan_end_tag_name :: "'l lexer_api \<Rightarrow> Scanner \<Rightarrow> 'l blexer \<Rightarrow> (bool \<times> 'l blexer \<times> Scanner) option" where
  "scan_end_tag_name A scanner lx0 = do {
     (tag_name, lx) \<leftarrow> scan_tag_name A lx0;
     if size tag_name = 0 then Some (False, lx, scanner)
     else do {
       tag \<leftarrow> tag_for_name tag_name;
       closes \<leftarrow> (if size (tags scanner) > 0
                  then do { top \<leftarrow> array_back (tags scanner); tag_eq top tag }
                  else Some False);
       if closes
       then do { scanner' \<leftarrow> pop_tag scanner; Some (True, set_symbol END_TAG_NAME lx, scanner') }
       else Some (True, set_symbol ERRONEOUS_END_TAG_NAME lx, scanner)
     }
   }"

definition scan_self_closing_tag_delimiter ::
  "'l lexer_api \<Rightarrow> Scanner \<Rightarrow> 'l blexer \<Rightarrow> (bool \<times> 'l blexer \<times> Scanner) option" where
  "scan_self_closing_tag_delimiter A scanner lx =
     (let lx1 = advance A lx
      in if lookahead A lx1 = ch CHR ''>''
         then let lx2 = advance A lx1
              in if size (tags scanner) > 0
                 then do { scanner' \<leftarrow> pop_tag scanner; Some (True, set_symbol SELF_CLOSING_TAG_DELIMITER lx2, scanner') }
                 else Some (True, lx2, scanner)
         else Some (False, lx1, scanner))"

text \<open>A scan function that leaves the payload alone.\<close>

definition keeping :: "Scanner \<Rightarrow> (bool \<times> 'l blexer) option \<Rightarrow> (bool \<times> 'l blexer \<times> Scanner) option" where
  "keeping scanner m = map_option (\<lambda>(r, lx). (r, lx, scanner)) m"

text \<open>The switch of \<^verbatim>\<open>scan\<close>, behind the white space.\<close>

definition scan_markup ::
  "'l lexer_api \<Rightarrow> Scanner \<Rightarrow> 'l blexer \<Rightarrow> (TokenType \<Rightarrow> bool) \<Rightarrow> (bool \<times> 'l blexer \<times> Scanner) option" where
  "scan_markup A scanner lx valid_symbols =
     (if lookahead A lx = ch CHR ''<''
      then let lx1 = advance A (mark_end A lx)
           in if lookahead A lx1 = ch CHR ''!'' then keeping scanner (scan_comment A (advance A lx1))
              else if valid_symbols IMPLICIT_END_TAG then scan_implicit_end_tag A scanner lx1
              else Some (False, lx1, scanner)
      else if lookahead A lx = 0
      then if valid_symbols IMPLICIT_END_TAG then scan_implicit_end_tag A scanner lx
           else Some (False, lx, scanner)
      else if lookahead A lx = ch CHR ''/''
      then if valid_symbols SELF_CLOSING_TAG_DELIMITER then scan_self_closing_tag_delimiter A scanner lx
           else Some (False, lx, scanner)
      else if (valid_symbols START_TAG_NAME \<or> valid_symbols END_TAG_NAME) \<and> \<not> valid_symbols RAW_TEXT
      then if valid_symbols START_TAG_NAME then scan_start_tag_name A scanner lx
           else scan_end_tag_name A scanner lx
      else Some (False, lx, scanner))"

definition scan ::
  "'l lexer_api \<Rightarrow> Scanner \<Rightarrow> 'l blexer \<Rightarrow> (TokenType \<Rightarrow> bool) \<Rightarrow> (bool \<times> 'l blexer \<times> Scanner) option" where
  "scan A scanner lx valid_symbols =
     (if valid_symbols RAW_TEXT \<and> \<not> valid_symbols START_TAG_NAME \<and> \<not> valid_symbols END_TAG_NAME
      then keeping scanner (scan_raw_text A scanner lx)
      else do {
        lx1 \<leftarrow> advance_while A True iswspace lx;
        scan_markup A scanner lx1 valid_symbols
      })"

definition blade_create :: Scanner where
  "blade_create = \<lparr>tags = array_new\<rparr>"

definition blade_destroy :: "Scanner \<Rightarrow> Scanner option" where
  "blade_destroy scanner = do { ts \<leftarrow> free_tags (tags scanner); Some (scanner\<lparr>tags := array_delete ts\<rparr>) }"

subsection \<open>The stack of open elements\<close>

definition blade_ok :: "Scanner \<Rightarrow> bool" where
  "blade_ok s \<longleftrightarrow> arr_ok (tags s) \<and> (\<forall>t \<in> set (arr_list (tags s)). tag_ok t)"

definition open_tags :: "Scanner \<Rightarrow> (TagType \<times> byte list) list" where
  "open_tags s = map tag_meaning (arr_list (tags s))"

lemma blade_okD: "blade_ok s \<Longrightarrow> arr_ok (tags s)"
  by (simp add: blade_ok_def)

lemma length_open_tags [simp]: "blade_ok s \<Longrightarrow> length (open_tags s) = size (tags s)"
  by (simp add: open_tags_def blade_ok_def)

lemma open_tags_empty: "blade_ok s \<Longrightarrow> size (tags s) = 0 \<longleftrightarrow> open_tags s = []"
  by (metis length_0_conv length_open_tags)

lemma push_tag_ok:
  assumes "blade_ok s" and "size (tags s) < 2 ^ 32 - 1" and "tag_ok t"
  shows "\<exists>ts. array_push (tags s) t = Some ts \<and> blade_ok (s\<lparr>tags := ts\<rparr>) \<and>
    open_tags (s\<lparr>tags := ts\<rparr>) = open_tags s @ [tag_meaning t]"
  using array_push_ok [of "tags s" t] assms by (auto simp: blade_ok_def open_tags_def)

lemma pop_tag_ok:
  assumes "blade_ok s" and "0 < size (tags s)"
  shows "\<exists>s'. pop_tag s = Some s' \<and> blade_ok s' \<and> open_tags s' = butlast (open_tags s)"
  using array_pop_ok [of "tags s"] assms
  by (auto simp: blade_ok_def open_tags_def pop_tag_def map_butlast dest!: in_set_butlastD)

lemma top_tag_ok:
  assumes "blade_ok s" and "0 < size (tags s)"
  shows "\<exists>t. array_back (tags s) = Some t \<and> tag_ok t \<and> tag_meaning t = last (open_tags s) \<and>
    type t = fst (last (open_tags s))"
proof -
  have ne: "arr_list (tags s) \<noteq> []" using assms size_zero_iff [OF blade_okD [OF assms(1)]] by simp
  then show ?thesis using array_back_ok [OF blade_okD [OF assms(1)] assms(2)] assms(1)
    by (auto simp: blade_ok_def open_tags_def last_map tag_meaning_def)
qed

lemma type_open_below_ok:
  assumes "blade_ok s" and "n \<le> size (tags s)"
  shows "type_open_below (tags s) t n = Some (t \<in> fst ` set (take n (open_tags s)))"
  using assms(2)
proof (induction n)
  case (Suc n)
  have "read_cell (tags s) n = Some (arr_list (tags s) ! n)"
    using Suc.prems read_live [OF blade_okD [OF assms(1)]] by simp
  moreover have "take (Suc n) (open_tags s) = take n (open_tags s) @ [tag_meaning (arr_list (tags s) ! n)]"
    using Suc.prems assms(1) length_open_tags [OF assms(1)]
    by (simp add: take_Suc_conv_app_nth) (simp add: open_tags_def blade_ok_def)
  ultimately show ?case using Suc by (auto simp: tag_meaning_def)
qed simp

text \<open>The tag a name stands for.\<close>

definition named_tag :: "byte list \<Rightarrow> TagType \<times> byte list" where
  "named_tag name = (type_of_name name, if type_of_name name = TAG_CUSTOM then name else [])"

definition upper_name :: "code list \<Rightarrow> byte list" where
  "upper_name cs = map (\<lambda>c. ucast (towupper c)) (takeWhile name_char cs)"

lemma tag_for_name_named:
  "arr_ok name \<Longrightarrow> \<exists>t. tag_for_name name = Some t \<and> tag_ok t \<and> tag_meaning t = named_tag (arr_list name) \<and>
     type t = type_of_name (arr_list name)"
  using tag_for_name_ok [of name] by (auto simp: named_tag_def)

lemma name_char_zero [simp]: "\<not> name_char 0"
  by (simp add: name_char_def)

context ts_lexer
begin

lemma tag_name_loop_ok:
  "arr_ok name \<Longrightarrow> size name + length (todo (vw lx)) < 2 ^ 32 - 1 \<Longrightarrow>
    \<exists>name' lx'. tag_name_loop A name lx = Some (name', lx') \<and> arr_ok name' \<and>
      arr_list name' = arr_list name @ upper_name (todo (vw lx)) \<and>
      vw lx' = v_skip (length (takeWhile name_char (todo (vw lx)))) (vw lx) \<and>
      result_symbol lx' = result_symbol lx"
proof (induction "todo (vw lx)" arbitrary: name lx)
  case Nil
  then show ?case by (simp add: tag_name_loop.simps [of A name lx] upper_name_def)
next
  case (Cons c cs)
  then have lx: "todo (vw lx) = c # cs" by simp
  show ?case
  proof (cases "name_char c")
    case False
    then show ?thesis using lx Cons.prems by (simp add: tag_name_loop.simps [of A name lx] upper_name_def)
  next
    case True
    obtain b where b: "array_push name (ucast (towupper c)) = Some b" "arr_ok b" "size b = size name + 1"
      "arr_list b = arr_list name @ [ucast (towupper c)]"
      using array_push_ok [OF Cons.prems(1), of "ucast (towupper c)"] Cons.prems(2) lx by auto
    have cs: "cs = todo (vw (advance A lx))" using lx by simp
    from Cons.hyps(1) [OF cs b(2)] b(3) Cons.prems(2) lx
    obtain name' lx' where "tag_name_loop A b (advance A lx) = Some (name', lx')" "arr_ok name'"
      "arr_list name' = arr_list b @ upper_name cs" "result_symbol lx' = result_symbol lx"
      "vw lx' = v_skip (length (takeWhile name_char cs)) (v_advance (vw lx))" by auto
    then show ?thesis using True lx b by (simp add: tag_name_loop.simps [of A name lx] upper_name_def)
  qed
qed

lemma scan_tag_name_ok:
  assumes "length (todo (vw lx)) < 2 ^ 32 - 1"
  obtains name lx' where "scan_tag_name A lx = Some (name, lx')" and "arr_ok name"
    and "arr_list name = upper_name (todo (vw lx))"
    and "vw lx' = v_skip (length (takeWhile name_char (todo (vw lx)))) (vw lx)"
    and "result_symbol lx' = result_symbol lx"
  using tag_name_loop_ok [of array_new lx] assms by (auto simp: scan_tag_name_def)

end

lemma upper_name_empty: "upper_name cs = [] \<longleftrightarrow> \<not> name_char (peek cs)"
  by (cases cs) (auto simp: upper_name_def)


text \<open>What a scan does to the open elements: nothing, open one or close the innermost.\<close>

definition stack_change :: "'b list \<Rightarrow> 'b list \<Rightarrow> bool \<Rightarrow> TokenType \<Rightarrow> bool" where
  "stack_change xs ys found tok \<longleftrightarrow>
     (if found \<and> tok \<in> {START_TAG_NAME, SCRIPT_START_TAG_NAME, STYLE_START_TAG_NAME}
      then \<exists>t. ys = xs @ [t]
      else if found \<and> tok \<in> {END_TAG_NAME, IMPLICIT_END_TAG, SELF_CLOSING_TAG_DELIMITER}
      then xs \<noteq> [] \<and> ys = butlast xs
      else ys = xs)"

lemma stack_change_False [simp]: "stack_change xs xs False tok"
  by (simp add: stack_change_def)

text \<open>
  A \<^verbatim>\<open>/>\<close> with no element open: \<^verbatim>\<open>scan_self_closing_tag_delimiter\<close> returns true but writes no symbol, so the
  token is the value \<^verbatim>\<open>result_symbol\<close> had.
\<close>

definition stray_close :: "code list \<Rightarrow> bool" where
  "stray_close cs \<longleftrightarrow> peek cs = ch CHR ''/'' \<and> peek (tl cs) = ch CHR ''>''"

definition raw_text_only :: "(TokenType \<Rightarrow> bool) \<Rightarrow> bool" where
  "raw_text_only valid \<longleftrightarrow> valid RAW_TEXT \<and> \<not> valid START_TAG_NAME \<and> \<not> valid END_TAG_NAME"

definition unmatched_close :: "Scanner \<Rightarrow> code list \<Rightarrow> (TokenType \<Rightarrow> bool) \<Rightarrow> bool" where
  "unmatched_close s cs valid \<longleftrightarrow> valid SELF_CLOSING_TAG_DELIMITER \<and> \<not> raw_text_only valid \<and>
     open_tags s = [] \<and> stray_close (dropWhile iswspace cs)"

definition good_scan :: "Scanner \<Rightarrow> (bool \<times> 'l blexer \<times> Scanner) option \<Rightarrow> bool" where
  "good_scan s m \<longleftrightarrow> (\<exists>r lx s'. m = Some (r, lx, s') \<and> blade_ok s' \<and>
     stack_change (open_tags s) (open_tags s') r (result_symbol lx))"

lemma good_scan_Some [simp]:
  "good_scan s (Some (r, lx, s')) \<longleftrightarrow> blade_ok s' \<and> stack_change (open_tags s) (open_tags s') r (result_symbol lx)"
  by (auto simp: good_scan_def)

lemma good_scanI:
  "m = Some (r, lx, s') \<Longrightarrow> blade_ok s' \<Longrightarrow> stack_change (open_tags s) (open_tags s') r (result_symbol lx) \<Longrightarrow> good_scan s m"
  by (auto simp: good_scan_def)

lemma good_scan_same: "blade_ok s \<Longrightarrow> \<not> r \<or> result_symbol lx \<in> {COMMENT, RAW_TEXT, ERRONEOUS_END_TAG_NAME} \<Longrightarrow>
    good_scan s (Some (r, lx, s))"
  by (auto simp: stack_change_def)

lemma good_pop:
  assumes "blade_ok s" and "0 < size (tags s)" and "t \<in> {END_TAG_NAME, IMPLICIT_END_TAG, SELF_CLOSING_TAG_DELIMITER}"
  shows "good_scan s (do { s' \<leftarrow> pop_tag s; Some (True, set_symbol t lx, s') })"
proof -
  obtain s' where "pop_tag s = Some s'" "blade_ok s'" "open_tags s' = butlast (open_tags s)"
    using pop_tag_ok [OF assms(1,2)] by blast
  then show ?thesis using open_tags_empty [OF assms(1)] assms(2,3) by (auto simp: stack_change_def)
qed

lemma good_implicit_end: "blade_ok s \<Longrightarrow> 0 < size (tags s) \<Longrightarrow> good_scan s (implicit_end s lx)"
  unfolding implicit_end_def by (rule good_pop) simp_all

context ts_lexer
begin

lemma implicit_end_named_ok:
  fixes lx :: "('l, TokenType) tslexer"
  assumes "blade_ok s" and "length (todo (vw lx)) < 2 ^ 32 - 1"
    and "parent = None \<and> size (tags s) = 0 \<or>
      (\<exists>p. parent = Some p \<and> tag_ok p \<and> tag_meaning p = last (open_tags s)) \<and> 0 < size (tags s)"
  shows "good_scan s (implicit_end_named A s parent closing lx)"
proof -
  obtain name lx1 where n: "scan_tag_name A lx = Some (name, lx1)" "arr_ok name"
    "arr_list name = upper_name (todo (vw lx))" "result_symbol lx1 = result_symbol lx"
    by (rule scan_tag_name_ok [OF assms(2)])
  obtain t where t: "tag_for_name name = Some t" "tag_ok t" "type t = type_of_name (arr_list name)"
    using tag_for_name_named [OF n(2)] by blast
  have search: "type_open_below (tags s) (type t) (size (tags s)) = Some (type t \<in> fst ` set (open_tags s))"
    using type_open_below_ok [OF assms(1) le_refl] assms(1) by simp
  have pop: "good_scan s (implicit_end s lx1)" if "0 < size (tags s)"
    using good_implicit_end [OF assms(1) that] .
  have none: "open_tags s = []" if "size (tags s) = 0" using that open_tags_empty [OF assms(1)] by simp
  show ?thesis
  proof (cases parent)
    case None
    then show ?thesis using assms n t search none
      by (auto simp: implicit_end_named_def intro: good_scan_same)
  next
    case (Some p)
    then have "tag_eq p t = Some (tag_meaning p = tag_meaning t)" using assms(3) t by (auto simp: tag_eq_ok)
    then show ?thesis using assms n t search pop Some
      by (auto simp: implicit_end_named_def intro: good_scan_same)
  qed
qed

lemma scan_implicit_end_tag_ok:
  assumes "blade_ok s" and "length (todo (vw lx)) < 2 ^ 32 - 1"
  shows "good_scan s (scan_implicit_end_tag A s lx)"
proof -
  have len: "length (todo (vw (advance A lx))) < 2 ^ 32 - 1" using assms(2) by simp
  show ?thesis
  proof (cases "size (tags s) = 0")
    case True
    then show ?thesis using implicit_end_named_ok [OF assms(1) len] implicit_end_named_ok [OF assms]
      by (simp add: scan_implicit_end_tag_def)
  next
    case False
    then obtain p where p: "array_back (tags s) = Some p" "tag_ok p" "tag_meaning p = last (open_tags s)"
      using top_tag_ok [OF assms(1)] by auto
    have "good_scan s (implicit_end s lx)"
      using good_implicit_end [OF assms(1)] False by simp
    then show ?thesis using p False implicit_end_named_ok [OF assms(1) len] implicit_end_named_ok [OF assms]
      by (simp add: scan_implicit_end_tag_def)
  qed
qed

lemma scan_start_tag_name_ok:
  assumes "blade_ok s" and "size (tags s) < 2 ^ 32 - 1" and "length (todo (vw lx)) < 2 ^ 32 - 1"
    and "name_char (peek (todo (vw lx)))"
  shows "\<exists>lx' s'. scan_start_tag_name A s lx = Some (True, lx', s') \<and> blade_ok s' \<and>
    open_tags s' = open_tags s @ [named_tag (upper_name (todo (vw lx)))] \<and>
    vw lx' = v_skip (length (takeWhile name_char (todo (vw lx)))) (vw lx) \<and>
    result_symbol lx' = (if type_of_name (upper_name (todo (vw lx))) = TAG_SCRIPT then SCRIPT_START_TAG_NAME
      else if type_of_name (upper_name (todo (vw lx))) = TAG_STYLE then STYLE_START_TAG_NAME else START_TAG_NAME)"
proof -
  obtain name lx1 where n: "scan_tag_name A lx = Some (name, lx1)" "arr_ok name"
    "arr_list name = upper_name (todo (vw lx))" "result_symbol lx1 = result_symbol lx"
    "vw lx1 = v_skip (length (takeWhile name_char (todo (vw lx)))) (vw lx)"
    by (rule scan_tag_name_ok [OF assms(3)])
  obtain t where t: "tag_for_name name = Some t" "tag_ok t" "type t = type_of_name (arr_list name)"
    "tag_meaning t = named_tag (arr_list name)" using tag_for_name_named [OF n(2)] by blast
  have "size name \<noteq> 0" using assms(4) n(2,3) upper_name_empty size_zero_iff by metis
  then show ?thesis using push_tag_ok [OF assms(1,2) t(2)] n t by (auto simp: scan_start_tag_name_def)
qed

lemma scan_end_tag_name_ok:
  assumes "blade_ok s" and "length (todo (vw lx)) < 2 ^ 32 - 1" and "name_char (peek (todo (vw lx)))"
  shows "let closes = open_tags s \<noteq> [] \<and> last (open_tags s) = named_tag (upper_name (todo (vw lx)))
    in \<exists>lx' s'. scan_end_tag_name A s lx = Some (True, lx', s') \<and> blade_ok s' \<and>
      open_tags s' = (if closes then butlast (open_tags s) else open_tags s) \<and>
      vw lx' = v_skip (length (takeWhile name_char (todo (vw lx)))) (vw lx) \<and>
      result_symbol lx' = (if closes then END_TAG_NAME else ERRONEOUS_END_TAG_NAME)"
proof -
  obtain name lx1 where n: "scan_tag_name A lx = Some (name, lx1)" "arr_ok name"
    "arr_list name = upper_name (todo (vw lx))" "result_symbol lx1 = result_symbol lx"
    "vw lx1 = v_skip (length (takeWhile name_char (todo (vw lx)))) (vw lx)"
    by (rule scan_tag_name_ok [OF assms(2)])
  obtain t where t: "tag_for_name name = Some t" "tag_ok t"
    "tag_meaning t = named_tag (arr_list name)" using tag_for_name_named [OF n(2)] by blast
  have ne: "size name \<noteq> 0" using assms(3) n(2,3) upper_name_empty size_zero_iff by metis
  show ?thesis
  proof (cases "size (tags s) = 0")
    case True
    then show ?thesis using n t ne assms(1) open_tags_empty [OF assms(1)]
      by (auto simp: scan_end_tag_name_def)
  next
    case False
    then have pos: "0 < size (tags s)" by simp
    obtain p where p: "array_back (tags s) = Some p" "tag_ok p" "tag_meaning p = last (open_tags s)"
      using top_tag_ok [OF assms(1) pos] by blast
    have "tag_eq p t = Some (last (open_tags s) = named_tag (upper_name (todo (vw lx))))"
      using tag_eq_ok [OF p(2) t(2)] p(3) t(3) n(3) by simp
    then show ?thesis using n t ne p(1) pos assms(1) pop_tag_ok [OF assms(1) pos] open_tags_empty [OF assms(1)]
      by (auto simp: scan_end_tag_name_def)
  qed
qed

end

subsection \<open>Comments\<close>

text \<open>A comment is closed behind \<open>n\<close> code points: they end with its closing mark and hold no NUL.\<close>

definition closes_at :: "code list \<Rightarrow> nat \<Rightarrow> bool" where
  "closes_at cs n \<longleftrightarrow> n \<le> length cs \<and> suffix (codes ''-->'') (take n cs) \<and> 0 \<notin> set (take n cs)"

text \<open>The number of dashes a text ends with.\<close>

definition dashes_at_end :: "code list \<Rightarrow> nat" where
  "dashes_at_end p = length (takeWhile (\<lambda>c. c = ch CHR ''-'') (rev p))"

lemma dashes_snoc:
  "dashes_at_end (p @ [c]) = (if c = ch CHR ''-'' then Suc (dashes_at_end p) else 0)"
  by (simp add: dashes_at_end_def)

lemma dashes_le: "dashes_at_end p \<le> length p"
  unfolding dashes_at_end_def by (metis length_rev length_takeWhile_le)

lemma suffix_close:
  "suffix (codes ''-->'') (p @ [c]) \<longleftrightarrow> c = ch CHR ''>'' \<and> 2 \<le> dashes_at_end p"
proof -
  have "codes ''-->'' = [ch CHR ''-'', ch CHR ''-''] @ [ch CHR ''>'']" by simp
  then have "suffix (codes ''-->'') (p @ [c]) \<longleftrightarrow> c = ch CHR ''>'' \<and> suffix [ch CHR ''-'', ch CHR ''-''] p"
    by (auto simp only: snoc_suffix_snoc)
  also have "suffix [ch CHR ''-'', ch CHR ''-''] p \<longleftrightarrow> 2 \<le> dashes_at_end p"
  proof (cases p rule: rev_cases)
    case (snoc q x)
    then show ?thesis
      by (cases q rule: rev_cases) (auto simp: dashes_snoc suffix_def dashes_at_end_def)
  qed (simp add: dashes_at_end_def)
  finally show ?thesis .
qed

context ts_lexer
begin

lemma comment_loop_spec:
  assumes "cs = p @ todo (vw lx)" and "dashes = dashes_at_end p" and "length cs < 2 ^ 31"
    and "0 \<notin> set p" and "\<forall>m \<le> length p. \<not> closes_at cs m"
  shows "\<exists>r lx'. comment_loop A dashes lx = Some (r, lx') \<and>
    (r \<longrightarrow> (\<exists>n. closes_at cs n \<and> (\<forall>m < n. \<not> closes_at cs m) \<and> result_symbol lx' = COMMENT \<and>
      vw lx' = v_mark (v_skip (n - length p) (vw lx)) \<and> length p < n)) \<and>
    (\<not> r \<longrightarrow> (\<forall>n. \<not> closes_at cs n) \<and> result_symbol lx' = result_symbol lx)"
  using assms
proof (induction "todo (vw lx)" arbitrary: p lx dashes)
  case Nil
  then have t: "todo (vw lx) = []" and "\<forall>n. \<not> closes_at cs n" by (simp, metis append_Nil2 closes_at_def)
  then show ?case by (intro exI [of _ False] exI [of _ lx]) (simp add: comment_loop.simps [of A dashes lx])
next
  case (Cons c ds)
  then have lx: "todo (vw lx) = c # ds" and cs: "cs = (p @ [c]) @ ds" by simp_all
  have at: "take (Suc (length p)) cs = p @ [c]" using cs by simp
  show ?case
  proof (cases "c = 0")
    case True
    have "\<not> closes_at cs n" for n
    proof (cases "n \<le> length p")
      case False
      then have "take (Suc (length p)) (take n cs) = p @ [0]" using at True by (simp add: min_def)
      then have "0 \<in> set (take n cs)" by (metis in_set_conv_decomp in_set_takeD)
      then show ?thesis by (simp add: closes_at_def)
    qed (use Cons.prems(5) in simp)
    then show ?thesis using True lx
      by (intro exI [of _ False] exI [of _ lx]) (simp add: comment_loop.simps [of A dashes lx])
  next
    case nz: False
    have len: "length p < 2 ^ 31" using Cons.prems(1,3) by simp
    have close: "closes_at cs (Suc (length p)) \<longleftrightarrow> c = ch CHR ''>'' \<and> 2 \<le> dashes"
      using at cs nz Cons.prems(2,4) suffix_close [of p c] by (simp add: closes_at_def)
    show ?thesis
    proof (cases "c = ch CHR ''>'' \<and> 2 \<le> dashes")
      case True
      have "\<forall>m < Suc (length p). \<not> closes_at cs m" using Cons.prems(5) by (simp add: less_Suc_eq_le)
      moreover have "comment_loop A dashes lx = Some (True, mark_end A (advance A (set_symbol COMMENT lx)))"
        using True lx by (simp add: comment_loop.simps [of A dashes lx])
      moreover have "closes_at cs (Suc (length p))" using True close by simp
      ultimately show ?thesis
        by (intro exI [of _ True] exI [of _ "mark_end A (advance A (set_symbol COMMENT lx))"])
          (simp add: v_advance_skip exI [of _ "Suc (length p)"])
    next
      case False
      let ?d = "dashes_at_end (p @ [c])"
      have t: "ds = todo (vw (advance A lx))" using lx by simp
      have no: "\<forall>m \<le> length (p @ [c]). \<not> closes_at cs m"
        using False close Cons.prems(5) by (auto simp: le_Suc_eq)
      have "comment_loop A dashes lx = comment_loop A ?d (advance A lx)"
        by (subst comment_loop.simps)
          (use False nz lx Cons.prems(2) dashes_le [of p] len in \<open>auto simp: dashes_snoc\<close>)
      moreover obtain r lx' where "comment_loop A ?d (advance A lx) = Some (r, lx')"
        "r \<longrightarrow> (\<exists>n. closes_at cs n \<and> (\<forall>m < n. \<not> closes_at cs m) \<and> result_symbol lx' = COMMENT \<and>
          vw lx' = v_mark (v_skip (n - length (p @ [c])) (vw (advance A lx))) \<and> length (p @ [c]) < n)"
        "\<not> r \<longrightarrow> (\<forall>n. \<not> closes_at cs n) \<and> result_symbol lx' = result_symbol (advance A lx)"
        using Cons.hyps(1) [OF t, of "p @ [c]" ?d] cs t Cons.prems(3,4) nz no by auto
      ultimately show ?thesis by (auto simp: Suc_diff_Suc)
    qed
  qed
qed


lemma scan_comment_spec:
  assumes "todo (vw lx) = codes ''--'' @ cs" and "length cs < 2 ^ 31"
  shows "\<exists>r lx'. scan_comment A lx = Some (r, lx') \<and>
    (r \<longrightarrow> (\<exists>n. closes_at cs n \<and> (\<forall>m < n. \<not> closes_at cs m) \<and> result_symbol lx' = COMMENT \<and>
      vw lx' = v_mark (v_skip (n + 2) (vw lx)))) \<and>
    (\<not> r \<longrightarrow> (\<forall>n. \<not> closes_at cs n) \<and> result_symbol lx' = result_symbol lx)"
proof -
  have "\<not> closes_at cs 0" by (simp add: closes_at_def)
  then obtain r lx' where "comment_loop A 0 (advance A (advance A lx)) = Some (r, lx')"
    "r \<longrightarrow> (\<exists>n. closes_at cs n \<and> (\<forall>m < n. \<not> closes_at cs m) \<and> result_symbol lx' = COMMENT \<and>
      vw lx' = v_mark (v_skip n (vw (advance A (advance A lx)))))"
    "\<not> r \<longrightarrow> (\<forall>n. \<not> closes_at cs n) \<and> result_symbol lx' = result_symbol lx"
    using comment_loop_spec [of cs "[]" "advance A (advance A lx)" 0] assms
    by (auto simp: dashes_at_end_def)
  then show ?thesis using assms(1)
    by (auto simp: scan_comment_def v_advance_skip numeral_2_eq_2)
qed

end

subsection \<open>Raw text\<close>

lemma towupper_lt: "towupper c = ch CHR ''<'' \<longleftrightarrow> c = ch CHR ''<''"
proof (cases "ch CHR ''a'' \<le> c \<and> c \<le> ch CHR ''z''")
  case True
  have "c - 32 \<noteq> ch CHR ''<''"
  proof
    assume "c - 32 = ch CHR ''<''"
    then have "c = ch CHR ''<'' + 32" by (metis diff_add_cancel)
    with True show False by simp
  qed
  moreover have "c \<noteq> ch CHR ''<''" using True by auto
  ultimately show ?thesis using True by (simp add: towupper_def)
qed (auto simp: towupper_def)

context ts_lexer
begin

lemma raw_body:
  assumes "todo (vw lx) = body @ cs" and "\<forall>c \<in> set body. c \<noteq> 0 \<and> c \<noteq> ch CHR ''<''"
    and "hd d = ch CHR ''<''" "d \<noteq> []" and "tok_end (vw lx) = seen (vw lx)"
  shows "\<exists>lx'. raw_text_loop A d 0 lx = raw_text_loop A d 0 lx' \<and> vw lx' = v_mark (v_skip (length body) (vw lx)) \<and>
    result_symbol lx' = result_symbol lx"
  using assms(1,2,5)
proof (induction body arbitrary: lx)
  case Nil
  then show ?case by (intro exI [of _ lx]) (simp add: v_mark_def)
next
  case (Cons c body)
  have "raw_text_loop A d 0 lx = raw_text_loop A d 0 (mark_end A (advance A lx))"
    using Cons.prems assms(3,4) towupper_lt [of c] by (simp add: raw_text_loop.simps [of A d 0 lx] hd_conv_nth)
  moreover obtain lx' where "raw_text_loop A d 0 (mark_end A (advance A lx)) = raw_text_loop A d 0 lx'"
    "vw lx' = v_mark (v_skip (length body) (vw (mark_end A (advance A lx))))" "result_symbol lx' = result_symbol lx"
    using Cons.IH [of "mark_end A (advance A lx)"] Cons.prems by auto
  ultimately show ?case by (auto simp: v_mark_def v_skip_def v_advance_skip)
qed

lemma raw_match:
  assumes "todo (vw lx) = ms @ cs" and "map towupper ms = drop i d" and "i < length d" and "0 \<notin> set ms"
  shows "\<exists>lx'. raw_text_loop A d i lx = Some lx' \<and> tok_end (vw lx') = tok_end (vw lx) \<and>
    result_symbol lx' = result_symbol lx"
  using assms
proof (induction ms arbitrary: lx i)
  case Nil
  then show ?case by simp
next
  case (Cons c ms)
  have c: "towupper c = d ! i" "map towupper ms = drop (Suc i) d" "c \<noteq> 0"
    using Cons.prems by (auto simp: Cons_nth_drop_Suc [symmetric])
  show ?case
  proof (cases "Suc i = length d")
    case True
    then show ?thesis using c Cons.prems(1) by (simp add: raw_text_loop.simps [of A d i lx])
  next
    case False
    then have "raw_text_loop A d i lx = raw_text_loop A d (Suc i) (advance A lx)"
      using c Cons.prems(1) by (simp add: raw_text_loop.simps [of A d i lx])
    then show ?thesis using Cons.IH [of "advance A lx" "Suc i"] c False Cons.prems by auto
  qed
qed

lemma raw_text_loop_returns: "\<exists>lx'. raw_text_loop A d i lx = Some lx' \<and> result_symbol lx' = result_symbol lx"
proof (induction "length (todo (vw lx))" arbitrary: i lx rule: less_induct)
  case less
  show ?case
  proof (cases "todo (vw lx) = []")
    case False
    then have lt: "length (todo (vw (advance A lx))) < length (todo (vw lx))" by simp
    show ?thesis using less [of "advance A lx" "i + 1"] less [of "mark_end A (advance A lx)" 0] lt
      by (simp add: raw_text_loop.simps [of A d i lx])
  qed (simp add: raw_text_loop.simps [of A d i lx])
qed

end

context ts_lexer
begin

lemma raw_setup:
  assumes "blade_ok s" and "open_tags s \<noteq> []"
  defines "d \<equiv> codes (if fst (last (open_tags s)) = TAG_SCRIPT then ''</SCRIPT'' else ''</STYLE'')"
  shows "scan_raw_text A s lx = do {
      lx1 \<leftarrow> raw_text_loop A d 0 (mark_end A lx); Some (True, set_symbol RAW_TEXT lx1) }"
proof -
  have pos: "0 < size (tags s)" using assms(2) open_tags_empty [OF assms(1)] by simp
  then show ?thesis using top_tag_ok [OF assms(1) pos] by (auto simp: scan_raw_text_def d_def)
qed

lemma scan_raw_text_spec:
  assumes "blade_ok s" and "open_tags s \<noteq> []" and "todo (vw lx) = body @ close @ cs"
    and "\<forall>c \<in> set body. c \<noteq> 0 \<and> c \<noteq> ch CHR ''<''" and "0 \<notin> set close"
    and "map towupper close = codes (if fst (last (open_tags s)) = TAG_SCRIPT then ''</SCRIPT'' else ''</STYLE'')"
  shows "\<exists>lx'. scan_raw_text A s lx = Some (True, lx') \<and> result_symbol lx' = RAW_TEXT \<and>
    tok_end (vw lx') = seen (vw lx) + length body"
proof -
  define d where "d = codes (if fst (last (open_tags s)) = TAG_SCRIPT then ''</SCRIPT'' else ''</STYLE'')"
  have d: "hd d = ch CHR ''<''" "d \<noteq> []" "0 < length d" by (simp_all add: d_def)
  obtain lx1 where lx1: "raw_text_loop A d 0 (mark_end A lx) = raw_text_loop A d 0 lx1"
    "vw lx1 = v_mark (v_skip (length body) (vw (mark_end A lx)))"
    using raw_body [OF _ assms(4) d(1,2), of "mark_end A lx" "close @ cs"] assms(3) by auto
  then have "todo (vw lx1) = close @ cs" using assms(3) by simp
  then obtain lx2 where "raw_text_loop A d 0 lx1 = Some lx2" "tok_end (vw lx2) = tok_end (vw lx1)"
    using raw_match [of lx1 close cs 0 d] assms(5,6) d(3) by (auto simp: d_def)
  then show ?thesis using raw_setup [OF assms(1,2), of lx] lx1 assms(3) by (simp add: d_def)
qed

lemma raw_text_misses:
  assumes "blade_ok s" and "open_tags s \<noteq> []" and "fst (last (open_tags s)) = TAG_SCRIPT"
    and "todo (vw lx) = codes ''<</script>'' @ cs" and "\<forall>c \<in> set cs. c \<noteq> 0 \<and> c \<noteq> ch CHR ''<''"
  shows "\<exists>lx'. scan_raw_text A s lx = Some (True, lx') \<and> result_symbol lx' = RAW_TEXT \<and>
    tok_end (vw lx') = seen (vw lx) + length (todo (vw lx))"
proof -
  let ?d = "codes ''</SCRIPT''" and ?m = "mark_end A lx"
  let ?l = "mark_end A (advance A (advance A ?m))"
  have "raw_text_loop A ?d 0 ?m = raw_text_loop A ?d 1 (advance A ?m)"
    using assms(4) by (subst raw_text_loop.simps) (simp add: towupper_def)
  also have "\<dots> = raw_text_loop A ?d 0 ?l"
    using assms(4) by (subst raw_text_loop.simps) (simp add: towupper_def)
  finally have step: "raw_text_loop A ?d 0 ?m = raw_text_loop A ?d 0 ?l" .
  have todo: "todo (vw ?l) = (codes ''/script>'' @ cs) @ []" using assms(4) by simp
  have body: "\<forall>c \<in> set (codes ''/script>'' @ cs). c \<noteq> 0 \<and> c \<noteq> ch CHR ''<''" using assms(5) by auto
  obtain lx1 where lx1: "raw_text_loop A ?d 0 ?l = raw_text_loop A ?d 0 lx1"
    "vw lx1 = v_mark (v_skip (length (codes ''/script>'' @ cs)) (vw ?l))"
    using raw_body [OF todo body, of ?d] by auto
  moreover have "todo (vw lx1) = []" using lx1(2) todo by simp
  moreover have "tok_end (vw lx1) = seen (vw lx) + length (todo (vw lx))"
    using lx1(2) assms(4) by (simp add: seen_v_advance)
  ultimately show ?thesis using raw_setup [OF assms(1,2), of lx] assms(3,4) step
    by (subst (asm) raw_text_loop.simps) simp
qed

definition comment_result :: "TokenType \<Rightarrow> (bool \<times> 'l blexer) \<Rightarrow> bool" where
  "comment_result tok = (\<lambda>(r, lx'). result_symbol lx' = (if r then COMMENT else tok))"

lemma comment_result_simps [simp]:
  "comment_result tok (False, lx) \<longleftrightarrow> result_symbol lx = tok"
  "comment_result tok (True, lx) \<longleftrightarrow> result_symbol lx = COMMENT"
  by (simp_all add: comment_result_def)

lemma comment_loop_returns: "gives (comment_result (result_symbol lx)) (comment_loop A d lx)"
proof (induction "length (todo (vw lx))" arbitrary: d lx rule: less_induct)
  case less
  show ?case
  proof (cases "todo (vw lx) = []")
    case False
    then have lt: "length (todo (vw (advance A lx))) < length (todo (vw lx))" by simp
    show ?thesis using less [OF lt, of "u32 (d + 1)"] less [OF lt, of 0]
      by (subst comment_loop.simps) simp
  qed (simp add: comment_loop.simps [of A d lx])
qed

lemma scan_comment_returns: "gives (comment_result (result_symbol lx)) (scan_comment A lx)"
  using comment_loop_returns [of "advance A (advance A lx)" 0]
  by (simp add: scan_comment_def Let_def)

lemma scan_raw_text_returns:
  assumes "blade_ok s"
  shows "gives (\<lambda>(r, lx'). r \<longrightarrow> result_symbol lx' = RAW_TEXT) (scan_raw_text A s lx)"
proof (cases "size (tags s) = 0")
  case False
  then have "open_tags s \<noteq> []" using open_tags_empty [OF assms] by simp
  note raw = raw_setup [OF assms this, of lx]
  obtain lx1 where "raw_text_loop A (codes (if fst (last (open_tags s)) = TAG_SCRIPT then ''</SCRIPT''
      else ''</STYLE'')) 0 (mark_end A lx) = Some lx1"
    using raw_text_loop_returns by blast
  then show ?thesis by (simp only: raw) simp
qed (simp add: scan_raw_text_def)

lemma keeping_ok:
  "blade_ok s \<Longrightarrow> gives (\<lambda>(r, lx'). r \<longrightarrow> result_symbol lx' \<in> {COMMENT, RAW_TEXT}) m \<Longrightarrow>
     good_scan s (keeping s m)"
  by (auto simp: keeping_def stack_change_def gives_def)

lemma scan_self_closing_ok:
  assumes "blade_ok s" and "open_tags s \<noteq> [] \<or> peek (tl (todo (vw lx))) \<noteq> ch CHR ''>''"
  shows "good_scan s (scan_self_closing_tag_delimiter A s lx)"
  using assms good_pop [OF assms(1), of SELF_CLOSING_TAG_DELIMITER "advance A (advance A lx)"]
    open_tags_empty [OF assms(1)]
  by (auto simp: scan_self_closing_tag_delimiter_def stack_change_def Let_def)

lemma scan_names_ok:
  assumes "blade_ok s" and "size (tags s) < 2 ^ 32 - 1" and "length (todo (vw lx)) < 2 ^ 32 - 1"
  shows "good_scan s (scan_start_tag_name A s lx)" and "good_scan s (scan_end_tag_name A s lx)"
proof -
  obtain name lx1 where n: "scan_tag_name A lx = Some (name, lx1)" "arr_ok name"
    "arr_list name = upper_name (todo (vw lx))" by (rule scan_tag_name_ok [OF assms(3)])
  have empty: "size name = 0" if "\<not> name_char (peek (todo (vw lx)))"
    using that n(2,3) upper_name_empty size_zero_iff by metis
  show "good_scan s (scan_start_tag_name A s lx)"
  proof (cases "name_char (peek (todo (vw lx)))")
    case True
    then show ?thesis using scan_start_tag_name_ok [OF assms] by (auto simp: stack_change_def)
  qed (use empty n(1) assms(1) in \<open>simp add: scan_start_tag_name_def\<close>)
  show "good_scan s (scan_end_tag_name A s lx)"
  proof (cases "name_char (peek (todo (vw lx)))")
    case True
    then show ?thesis using scan_end_tag_name_ok [OF assms(1,3)] by (auto simp: stack_change_def Let_def split: if_splits)
  qed (use empty n(1) assms(1) in \<open>simp add: scan_end_tag_name_def\<close>)
qed

lemma scan_markup_ok:
  assumes "blade_ok s" and "size (tags s) < 2 ^ 32 - 1" and "length (todo (vw lx)) < 2 ^ 32 - 1"
    and "\<not> (valid SELF_CLOSING_TAG_DELIMITER \<and> open_tags s = [] \<and> stray_close (todo (vw lx)))"
  shows "good_scan s (scan_markup A s lx valid)"
proof -
  let ?l1 = "advance A (mark_end A lx)"
  have len: "length (todo (vw ?l1)) < 2 ^ 32 - 1" using assms(3) by simp
  have "good_scan s (keeping s (scan_comment A (advance A ?l1)))"
    using scan_comment_returns [of "advance A ?l1"]
    by (intro keeping_ok assms(1)) (auto elim!: gives_mono simp: comment_result_def)
  moreover have "good_scan s (scan_self_closing_tag_delimiter A s lx)"
    if "peek (todo (vw lx)) = ch CHR ''/''" "valid SELF_CLOSING_TAG_DELIMITER"
    using that assms(4) by (intro scan_self_closing_ok assms(1)) (auto simp: stray_close_def)
  ultimately show ?thesis
    using scan_implicit_end_tag_ok [OF assms(1) len] scan_implicit_end_tag_ok [OF assms(1,3)] scan_names_ok [OF assms(1-3)] assms(1)
    by (simp add: scan_markup_def Let_def)
qed

lemma scan_ok:
  assumes "blade_ok s" and "size (tags s) < 2 ^ 32 - 1" and "length (todo (vw lx)) < 2 ^ 32 - 1"
    and "\<not> unmatched_close s (todo (vw lx)) valid"
  shows "good_scan s (scan A s lx valid)"
proof -
  obtain lx1 where lx1: "advance_while A True iswspace lx = Some lx1"
    "todo (vw lx1) = dropWhile iswspace (todo (vw lx))"
    using advance_while_Some [of iswspace True lx] by (auto simp: dropWhile_eq_drop)
  have len: "length (todo (vw lx1)) < 2 ^ 32 - 1"
    unfolding lx1(2) by (rule le_less_trans [OF length_dropWhile_le assms(3)])
  have "good_scan s (keeping s (scan_raw_text A s lx))"
    using scan_raw_text_returns [OF assms(1), of lx] by (intro keeping_ok assms(1)) (auto elim!: gives_mono)
  then show ?thesis using lx1 scan_markup_ok [OF assms(1,2) len, of valid] assms(4)
    by (auto simp: scan_def unmatched_close_def raw_text_only_def)
qed

lemma scan_unmatched_close:
  assumes "blade_ok s" and "unmatched_close s (todo (vw lx)) valid"
  shows "\<exists>lx'. scan A s lx valid = Some (True, lx', s) \<and> result_symbol lx' = result_symbol lx"
proof -
  obtain lx1 where "advance_while A True iswspace lx = Some lx1" "result_symbol lx1 = result_symbol lx"
    "todo (vw lx1) = dropWhile iswspace (todo (vw lx))"
    using advance_while_Some [of iswspace True lx] by (auto simp: dropWhile_eq_drop)
  then show ?thesis using assms open_tags_empty [OF assms(1)]
    by (auto simp: scan_def scan_markup_def scan_self_closing_tag_delimiter_def unmatched_close_def stray_close_def
        raw_text_only_def Let_def)
qed

end

subsection \<open>Saving and restoring the open elements\<close>

text \<open>The bytes a tag takes, and what comes back of it.\<close>

definition tag_width :: "TagType \<times> byte list \<Rightarrow> nat" where
  "tag_width t = (if fst t = TAG_CUSTOM then 2 + min (length (snd t)) 255 else 1)"

definition saved_tag :: "TagType \<times> byte list \<Rightarrow> TagType \<times> byte list" where
  "saved_tag t = (fst t, strncpy (snd t) (min (length (snd t)) 255))"

definition tag_bytes :: "TagType \<times> byte list \<Rightarrow> byte list" where
  "tag_bytes t = (if fst t = TAG_CUSTOM
     then [126, of_nat (min (length (snd t)) 255)] @ snd (saved_tag t) else [ucast (fst t)])"

text \<open>The number of tags that fit behind \<open>used\<close> bytes.\<close>

primrec fitting :: "nat \<Rightarrow> (TagType \<times> byte list) list \<Rightarrow> nat" where
  "fitting used [] = 0"
| "fitting used (t # ts) = (if used + tag_width t \<ge> 1024 then 0 else Suc (fitting (used + tag_width t) ts))"

lemma length_strncpy [simp]: "length (strncpy xs n) = n"
  using length_takeWhile_le [of "\<lambda>b. b \<noteq> 0" "take n xs"] by (simp add: strncpy_def Let_def)

lemma strncpy_take: "strncpy (take n xs) n = strncpy xs n"
  by (simp add: strncpy_def)

lemma length_tag_bytes [simp]: "length (tag_bytes t) = tag_width t"
  by (simp add: tag_bytes_def tag_width_def saved_tag_def)

lemma tag_width_pos: "0 < tag_width t"
  by (simp add: tag_width_def)

lemma fitting_le: "fitting used ts \<le> length ts"
  by (induction ts arbitrary: used) auto

lemma fitting_fits:
  "used < 1024 \<Longrightarrow> used + sum_list (map tag_width (take (fitting used ts) ts)) < 1024"
  by (induction ts arbitrary: used) (auto simp: add.assoc [symmetric])

lemma fitting_maximal:
  "fitting used ts < length ts \<Longrightarrow> 1024 \<le> used + sum_list (map tag_width (take (Suc (fitting used ts)) ts))"
  by (induction ts arbitrary: used) (auto simp: add.assoc [symmetric] split: if_splits)

lemma read_cells_take:
  assumes "arr_ok a" and "n \<le> size a"
  shows "read_cells a n = Some (take n (arr_list a))"
proof -
  have "map (read_cell a) [0..<n] = map Some (take n (arr_list a))"
    using assms by (intro nth_equalityI) (auto simp: read_live)
  then show ?thesis by (simp add: read_cells_def)
qed

lemma serialize_step:
  assumes "i < n" and "read_cell ts i = Some t" and "tag_ok t"
  shows "serialize_tags ts n i body = (if 4 + length body + tag_width (tag_meaning t) \<ge> 1024 then Some (i, body)
    else serialize_tags ts n (i + 1) (body @ tag_bytes (tag_meaning t)))"
proof (cases "type t = TAG_CUSTOM")
  case True
  let ?n = "min (size (custom_tag_name t)) 255"
  have ok: "arr_ok (custom_tag_name t)" using assms(3) by (simp add: tag_ok_def)
  have "read_cells (custom_tag_name t) ?n = Some (take ?n (arr_list (custom_tag_name t)))"
    by (rule read_cells_take [OF ok]) simp
  then show ?thesis using True assms(1,2) ok
    by (simp add: serialize_tags.simps [of ts n i] TREE_SITTER_SERIALIZATION_BUFFER_SIZE_def tag_width_def
        tag_bytes_def tag_meaning_def saved_tag_def Let_def strncpy_take)
next
  case False
  then show ?thesis using assms(1,2)
    by (simp add: serialize_tags.simps [of ts n i] TREE_SITTER_SERIALIZATION_BUFFER_SIZE_def tag_width_def
        tag_bytes_def tag_meaning_def)
qed

lemma serialize_tags_eq:
  assumes "arr_ok ts" and "\<forall>t \<in> set (arr_list ts). tag_ok t" and "i \<le> n" and "n \<le> size ts"
  shows "serialize_tags ts n i body =
    (let rest = drop i (take n (map tag_meaning (arr_list ts))); k = fitting (4 + length body) rest
     in Some (i + k, body @ concat (map tag_bytes (take k rest))))"
  using assms(3)
proof (induction "n - i" arbitrary: i body)
  case 0
  then show ?case using assms by (subst serialize_tags.simps) simp
next
  case (Suc d)
  define t where "t = arr_list ts ! i"
  have i: "i < n" using Suc.hyps(2) by simp
  have t: "read_cell ts i = Some t" "tag_ok t"
    using i assms read_live [of ts i] by (auto simp: t_def)
  have rest: "drop i (take n (map tag_meaning (arr_list ts))) =
      tag_meaning t # drop (Suc i) (take n (map tag_meaning (arr_list ts)))"
    using i assms(1,4) by (simp add: t_def Cons_nth_drop_Suc [symmetric])
  have "serialize_tags ts n (i + 1) (body @ tag_bytes (tag_meaning t)) =
    (let rest = drop (i + 1) (take n (map tag_meaning (arr_list ts)));
         k = fitting (4 + length body + tag_width (tag_meaning t)) rest
     in Some (i + 1 + k, (body @ tag_bytes (tag_meaning t)) @ concat (map tag_bytes (take k rest))))"
    using Suc.hyps(1) [of "i + 1" "body @ tag_bytes (tag_meaning t)"] Suc.hyps(2) i by (simp add: add.assoc)
  then show ?case unfolding serialize_step [OF i t] rest by (simp add: Let_def)
qed

text \<open>Reading a tag back.\<close>

lemma char_back: "x \<le> (127 :: 32 word) \<Longrightarrow> scast (ucast x :: byte) = x"
proof -
  assume "x \<le> 127"
  then have x: "uint x \<le> 127" by (simp add: word_le_def)
  have "uint (ucast x :: byte) = uint x" using x by (simp add: unsigned_ucast_eq take_bit_int_eq_self)
  moreover have "signed_take_bit 7 (uint x) = uint x"
    using x order_trans [of "- 128" 0 "uint x"] by (intro signed_take_bit_int_eq_self) simp_all
  ultimately have "sint (ucast x :: byte) = uint x" by (simp add: sint_uint)
  then show ?thesis by (simp add: scast_eq)
qed

lemma read_tag_back:
  assumes "tag_ok t"
  shows "\<exists>t'. read_tag (tag_bytes (tag_meaning t) @ bs) = Some (t', bs) \<and> tag_ok t' \<and>
    tag_meaning t' = saved_tag (tag_meaning t)"
proof (cases "type t = TAG_CUSTOM")
  case True
  define nm where "nm = snd (saved_tag (tag_meaning t))"
  let ?n = "min (length (snd (tag_meaning t))) 255"
  have n: "length nm = ?n" "unat (of_nat ?n :: byte) = ?n" by (simp_all add: nm_def saved_tag_def unat_of_nat)
  define r where "r = array_reserve (array_new :: String) ?n"
  define u where "u = r\<lparr>contents := map Some nm @ drop ?n (contents r), size := ?n\<rparr>"
  have "arr_ok r" "?n \<le> capacity r" unfolding r_def by (rule array_reserve_ok; simp)+
  then have r: "length (contents r) = capacity r" "capacity r < 2 ^ 32" "?n \<le> capacity r" by (simp_all add: arr_ok_def)
  then have w: "write_cells (r\<lparr>size := ?n\<rparr>) 0 (map Some nm) = Some u"
    using n(1) by (simp add: write_cells_def u_def)
  have u: "arr_ok u" "arr_list u = nm" using arr_okI [of u nm] r n(1) by (simp_all add: u_def)
  have b: "tag_bytes (tag_meaning t) @ bs = 126 # of_nat ?n # nm @ bs"
    using True by (simp add: tag_bytes_def nm_def tag_meaning_def)
  let ?t = "tag_new\<lparr>type := TAG_CUSTOM, custom_tag_name := u\<rparr>"
  have "custom_tag_name tag_new = array_new" by (simp add: tag_new_def)
  then have "read_tag (126 # of_nat ?n # nm @ bs) = Some (?t, bs)"
    using n w by (simp add: read_tag_def r_def Let_def)
  moreover have "tag_ok ?t" using u(1) by (simp add: tag_ok_def)
  moreover have "tag_meaning ?t = saved_tag (tag_meaning t)"
    using u(2) True by (simp add: tag_meaning_def nm_def saved_tag_def)
  ultimately show ?thesis unfolding b by blast
next
  case False
  have "scast (ucast (type t) :: byte) = type t" using assms by (intro char_back) (simp add: tag_ok_def)
  then show ?thesis using False assms
    by (auto simp: read_tag_def tag_bytes_def tag_meaning_def saved_tag_def tag_ok_def tag_new_def strncpy_def)
qed


lemma deserialize_tags_back:
  "\<forall>t \<in> set xs. tag_ok t \<Longrightarrow> arr_ok ts \<Longrightarrow> (\<forall>t \<in> set (arr_list ts). tag_ok t) \<Longrightarrow> size ts + length xs < 2 ^ 32 \<Longrightarrow>
   \<exists>us. deserialize_tags (length xs) ts (concat (map (\<lambda>t. tag_bytes (tag_meaning t)) xs)) = Some us \<and> arr_ok us \<and>
     (\<forall>t \<in> set (arr_list us). tag_ok t) \<and> size us = size ts + length xs \<and>
     map tag_meaning (arr_list us) = map tag_meaning (arr_list ts) @ map (\<lambda>t. saved_tag (tag_meaning t)) xs"
proof (induction xs arbitrary: ts)
  case (Cons x xs)
  obtain x' where x': "read_tag (tag_bytes (tag_meaning x) @ concat (map (\<lambda>t. tag_bytes (tag_meaning t)) xs)) =
      Some (x', concat (map (\<lambda>t. tag_bytes (tag_meaning t)) xs))" "tag_ok x'" "tag_meaning x' = saved_tag (tag_meaning x)"
    using read_tag_back [of x] Cons.prems(1) by fastforce
  obtain b where b: "array_push ts x' = Some b" "arr_ok b" "arr_list b = arr_list ts @ [x']" "size b = size ts + 1"
    using array_push_ok [OF Cons.prems(2), of x'] Cons.prems(4) by auto
  have "\<forall>t \<in> set (arr_list b). tag_ok t" using b(3) Cons.prems(3) x'(2) by auto
  from Cons.IH [OF _ b(2) this] b(4) Cons.prems(1,4) show ?case using x' b by auto
qed simp

lemma pad_tags_eq: "pad_tags n ts = push_all array_push ts (replicate n tag_new)"
  by (induction n arbitrary: ts) auto

lemma free_tags_ok:
  assumes "blade_ok s"
  shows "\<exists>ts. free_tags (tags s) = Some ts \<and> arr_ok ts"
proof -
  let ?a = "tags s" let ?xs = "map tag_free (arr_list (tags s))"
  have a: "arr_ok ?a" using assms by (rule blade_okD)
  then have len: "length (contents ?a) = capacity ?a" "size ?a \<le> capacity ?a" "capacity ?a < 2 ^ 32"
    by (simp_all add: arr_ok_def)
  define u where "u = ?a\<lparr>contents := map Some ?xs @ drop (size ?a) (contents ?a)\<rparr>"
  have "write_cells ?a 0 (map (\<lambda>t. Some (tag_free t)) (arr_list ?a)) = Some u"
    using len a by (simp add: write_cells_def u_def comp_def)
  moreover have "arr_ok u" using arr_okI [of u ?xs] len a by (simp add: u_def)
  ultimately show ?thesis using a by (auto simp: free_tags_def)
qed

lemma u16_read_bytes:
  assumes "n < 65536"
  shows "unat (of_nat n :: byte) + 256 * unat (of_nat (n div 256) :: byte) = n"
  using assms by (simp add: unat_of_nat)


text \<open>
  The bytes of a payload hold the outermost tags that fit the buffer; the ones that do not come
  back as tags without a type.
\<close>

lemma serialize_eq:
  assumes "blade_ok s" and "size (tags s) \<le> 65535"
  shows "serialize s = (let k = fitting 4 (open_tags s) in
    Some (u16_bytes k @ u16_bytes (size (tags s)) @ concat (map tag_bytes (take k (open_tags s)))))"
  using serialize_tags_eq [of "tags s" 0 "size (tags s)" "[]"] assms
  by (simp add: serialize_def blade_ok_def open_tags_def Let_def min_absorb1)

lemma deserialize_eq:
  assumes "blade_ok s" and "size (tags s) \<le> 65535" and "blade_ok t" and "k \<le> size (tags s)"
  shows "\<exists>u. deserialize t (u16_bytes k @ u16_bytes (size (tags s)) @ concat (map tag_bytes (take k (open_tags s)))) = Some u \<and>
    blade_ok u \<and> open_tags u = map saved_tag (take k (open_tags s)) @ replicate (size (tags s) - k) (TAG_END, [])"
proof -
  let ?n = "size (tags s)" let ?xs = "take k (arr_list (tags s))"
  obtain f where f: "free_tags (tags t) = Some f" "arr_ok f" using free_tags_ok [OF assms(3)] by blast
  define ts1 where "ts1 = array_reserve (array_clear f) ?n"
  have ts1: "arr_ok ts1" "arr_list ts1 = []" "size ts1 = 0"
    using array_reserve_ok [OF arr_ok_clear(1) [OF f(2)], of ?n] assms(2)
    by (simp_all add: ts1_def) (simp add: array_clear_def)
  have xs: "\<forall>x \<in> set ?xs. tag_ok x" "length ?xs = k" "map tag_meaning ?xs = take k (open_tags s)"
    using assms(1,4) by (auto simp: blade_ok_def open_tags_def take_map dest: in_set_takeD)
  obtain us where us: "deserialize_tags k ts1 (concat (map tag_bytes (take k (open_tags s)))) = Some us" "arr_ok us"
    "\<forall>x \<in> set (arr_list us). tag_ok x" "size us = k" "map tag_meaning (arr_list us) = map saved_tag (take k (open_tags s))"
    using deserialize_tags_back [OF xs(1) ts1(1)] ts1 xs(2) assms(2,4)
    unfolding xs(3) [symmetric] by (auto simp: comp_def)
  obtain ws where ws: "pad_tags (?n - k) us = Some ws" "arr_ok ws" "arr_list ws = arr_list us @ replicate (?n - k) tag_new"
    using array.push_all_ok [OF us(2), of "replicate (?n - k) tag_new"] us(2,4) assms(2,4) by (auto simp: pad_tags_eq)
  define u where "u = t\<lparr>tags := if ?n > 0 then ws else ts1\<rparr>"
  define buf where "buf = u16_bytes k @ u16_bytes ?n @ concat (map tag_bytes (take k (open_tags s)))"
  have hd: "u16_read buf 0 = k" "u16_read buf 2 = ?n"
    using u16_read_bytes [of k] u16_read_bytes [of ?n] assms(2,4) by (simp_all add: u16_read_def u16_bytes_def buf_def)
  have "buf \<noteq> []" "\<not> length buf < 4" "drop 4 buf = concat (map tag_bytes (take k (open_tags s)))"
    by (simp_all add: u16_bytes_def buf_def)
  then have "deserialize t buf = Some u"
    using f us(1) ws(1) hd ts1_def unfolding deserialize_def by (simp add: u_def Let_def)
  moreover have "blade_ok u" using ws(2,3) us(3) ts1 by (auto simp: u_def blade_ok_def)
  moreover have "open_tags u = map saved_tag (take k (open_tags s)) @ replicate (?n - k) (TAG_END, [])"
    using us(5) ws(3) assms(4) ts1(2) by (simp add: u_def open_tags_def)
  ultimately show ?thesis unfolding buf_def by blast
qed

definition blade_fits :: "Scanner \<Rightarrow> bool" where
  "blade_fits s \<longleftrightarrow> blade_ok s \<and> 4 + sum_list (map tag_width (open_tags s)) < 1024 \<and>
     (\<forall>t \<in> set (open_tags s). saved_tag t = t)"

lemma fitting_all: "used + sum_list (map tag_width ts) < 1024 \<Longrightarrow> fitting used ts = length ts"
  by (induction ts arbitrary: used) (auto simp: add.assoc)

lemma length_le_widths: "length ts \<le> sum_list (map tag_width ts)"
proof (induction ts)
  case (Cons t ts)
  then show ?case using tag_width_pos [of t] by simp
qed simp

lemma length_tags_bytes: "length (concat (map tag_bytes ts)) = sum_list (map tag_width ts)"
  by (simp add: length_concat comp_def)

lemma blade_fits_serialize:
  assumes "blade_fits s"
  shows "serialize s = Some (u16_bytes (size (tags s)) @ u16_bytes (size (tags s)) @ concat (map tag_bytes (open_tags s)))"
    and "size (tags s) \<le> 65535"
proof -
  have ok: "blade_ok s" and fit: "4 + sum_list (map tag_width (open_tags s)) < 1024" using assms by (auto simp: blade_fits_def)
  then show le: "size (tags s) \<le> 65535" using length_le_widths [of "open_tags s"] by simp
  show "serialize s = Some (u16_bytes (size (tags s)) @ u16_bytes (size (tags s)) @ concat (map tag_bytes (open_tags s)))"
    using serialize_eq [OF ok le] fitting_all [OF fit] ok by (simp add: Let_def)
qed

interpretation blade: external_scanner serialize deserialize open_tags blade_fits
proof
  fix s t :: Scanner
  assume s: "blade_fits s"
  note ser = blade_fits_serialize [OF s]
  have ok: "blade_ok s" using s by (simp add: blade_fits_def)
  show "\<exists>bs. serialize s = Some bs \<and> length bs \<le> TREE_SITTER_SERIALIZATION_BUFFER_SIZE"
    using ser(1) s by (simp add: length_tags_bytes blade_fits_def u16_bytes_def TREE_SITTER_SERIALIZATION_BUFFER_SIZE_def)
  assume t: "blade_fits t"
  show "open_tags s = open_tags t \<Longrightarrow> serialize s = serialize t"
    using ser(1) blade_fits_serialize(1) [OF t] ok t length_open_tags by (metis blade_fits_def)
  fix bs
  assume "serialize s = Some bs"
  then have bs: "bs = u16_bytes (size (tags s)) @ u16_bytes (size (tags s)) @ concat (map tag_bytes (open_tags s))"
    using ser(1) by simp
  obtain u where u: "deserialize t bs = Some u" "blade_ok u" "open_tags u = map saved_tag (open_tags s)"
    using deserialize_eq [OF ok ser(2), of t "size (tags s)"] t ok by (auto simp: bs blade_fits_def)
  have "map saved_tag (open_tags s) = open_tags s" using s by (intro map_idI) (simp add: blade_fits_def)
  with u s show "\<exists>u. deserialize t bs = Some u \<and> blade_fits u \<and> open_tags u = open_tags s"
    by (auto simp: blade_fits_def)
qed

subsection \<open>Names tell elements apart\<close>

lemma distinct_codes:
  assumes "a \<le> b" and "b \<le> c" and "c \<le> 127"
  shows "distinct (map (of_nat :: nat \<Rightarrow> 32 word) ([0..<a] @ [b..<c]))"
proof -
  have "inj_on (of_nat :: nat \<Rightarrow> 32 word) {..<127}"
    by (auto simp: inj_on_def word_of_nat_eq_iff take_bit_nat_eq_self)
  then have "inj_on (of_nat :: nat \<Rightarrow> 32 word) (set ([0..<a] @ [b..<c]))"
    using assms by (elim inj_on_subset) auto
  then show ?thesis unfolding distinct_map using assms by simp
qed

lemma table_distinct: "distinct (map snd TAG_TYPES_BY_TAG_NAME)"
proof -
  have "map snd TAG_TYPES_BY_TAG_NAME = map of_nat ([0..<23] @ [24..<127])"
    by (simp add: TAG_TYPES_BY_TAG_NAME_def upt_rec)
  moreover have "(23 :: nat) \<le> 24" "(24 :: nat) \<le> 127" "(127 :: nat) \<le> 127" by simp_all
  ultimately show ?thesis using distinct_codes [of 23 24 127] by (simp only:)
qed

lemma type_of_name_entry:
  "type_of_name name \<noteq> TAG_CUSTOM \<Longrightarrow> \<exists>s. (s, type_of_name name) \<in> set TAG_TYPES_BY_TAG_NAME \<and> name = bytes s"
  by (auto simp: type_of_name_def split: option.splits dest!: map_of_SomeD)

lemma named_tag_inj: "named_tag a = named_tag b \<longleftrightarrow> a = b"
proof
  assume eq: "named_tag a = named_tag b"
  show "a = b"
  proof (cases "type_of_name a = TAG_CUSTOM")
    case True
    then show ?thesis using eq by (simp add: named_tag_def)
  next
    case False
    have ty: "type_of_name a = type_of_name b" using eq by (simp add: named_tag_def)
    obtain s where s: "(s, type_of_name a) \<in> set TAG_TYPES_BY_TAG_NAME" "a = bytes s"
      using type_of_name_entry [OF False] by blast
    obtain t where t: "(t, type_of_name a) \<in> set TAG_TYPES_BY_TAG_NAME" "b = bytes t"
      using type_of_name_entry [of b] False unfolding ty by blast
    have "inj_on snd (set TAG_TYPES_BY_TAG_NAME)" using table_distinct by (simp add: distinct_map)
    then have "s = t" using s(1) t(1) by (metis inj_onD prod.inject snd_conv)
    then show ?thesis using s(2) t(2) by simp
  qed
qed simp

context ts_lexer
begin

lemma closing_tag_spec:
  assumes "blade_ok s" and "todo (vw lx) = ch CHR ''/'' # cs" and "name_char (peek cs)"
    and "length cs < 2 ^ 32 - 1"
  defines "nt \<equiv> named_tag (upper_name cs)"
  defines "implicit \<equiv> open_tags s \<noteq> [] \<and> last (open_tags s) \<noteq> nt \<and> fst nt \<in> fst ` set (open_tags s)"
  shows "\<exists>lx' s'. scan_implicit_end_tag A s lx = Some (implicit, lx', s') \<and>
    open_tags s' = (if implicit then butlast (open_tags s) else open_tags s) \<and>
    (implicit \<longrightarrow> result_symbol lx' = IMPLICIT_END_TAG)"
proof -
  have len: "length (todo (vw (advance A lx))) < 2 ^ 32 - 1" using assms(2,4) by simp
  obtain name lx1 where n: "scan_tag_name A (advance A lx) = Some (name, lx1)" "arr_ok name"
    "arr_list name = upper_name (todo (vw (advance A lx)))" by (rule scan_tag_name_ok [OF len])
  obtain t where t: "tag_for_name name = Some t" "tag_ok t" "tag_meaning t = nt" "type t = fst nt"
    using tag_for_name_named [OF n(2)] n(3) assms(2) by (auto simp: nt_def named_tag_def)
  have ne: "size name \<noteq> 0" using assms(2,3) n(2,3) upper_name_empty size_zero_iff by (metis list.sel(3) todo_v_ops(1) vw_ops(2))
  have search: "type_open_below (tags s) (type t) (size (tags s)) = Some (fst nt \<in> fst ` set (open_tags s))"
    using type_open_below_ok [OF assms(1) le_refl] assms(1) t(4) by simp
  show ?thesis
  proof (cases "size (tags s) = 0")
    case True
    then have "open_tags s = []" using open_tags_empty [OF assms(1)] by simp
    then show ?thesis using True n(1) ne t(1) search assms(2)
      by (simp add: scan_implicit_end_tag_def implicit_end_named_def implicit_def)
  next
    case False
    then have pos: "0 < size (tags s)" by simp
    obtain p where p: "array_back (tags s) = Some p" "tag_ok p" "tag_meaning p = last (open_tags s)"
      using top_tag_ok [OF assms(1) pos] by blast
    have eq: "tag_eq p t = Some (last (open_tags s) = nt)" using tag_eq_ok [OF p(2) t(2)] p(3) t(3) by simp
    obtain s' where s': "pop_tag s = Some s'" "open_tags s' = butlast (open_tags s)"
      using pop_tag_ok [OF assms(1) pos] by blast
    have "open_tags s \<noteq> []" using pos open_tags_empty [OF assms(1)] by simp
    then show ?thesis using False p(1) eq s' n(1) ne t(1) search assms(2)
      by (simp add: scan_implicit_end_tag_def implicit_end_named_def implicit_end_def implicit_def)
  qed
qed

end

subsection \<open>The properties\<close>

text \<open>
  C20: on any input the scan returns, and it changes the open elements exactly as its token says: a start tag name opens
  one, an end tag name, an implicit end or a self-closing end closes the innermost, everything else leaves them alone. The
  one exception is a \<^verbatim>\<open>/>\<close> with no element open: the scan reports a token without writing which, so it is the one the lexer
  held before, and no element is opened or closed. (The number of open elements and of code points to come fit 32 bits.)
\<close>

theorem blade_scan_changes_stack:
  assumes "ts_lexer A view" and "blade_ok s" and "size (tags s) < 2 ^ 32 - 1"
    and "length (todo (view (runtime lx))) < 2 ^ 32 - 1"
  shows "\<exists>r lx' s'. scan A s lx valid = Some (r, lx', s') \<and> blade_ok s' \<and>
    (if unmatched_close s (todo (view (runtime lx))) valid then r \<and> result_symbol lx' = result_symbol lx \<and> s' = s
     else stack_change (open_tags s) (open_tags s') r (result_symbol lx'))"
  using ts_lexer.scan_ok [OF assms(1-3), of lx valid] ts_lexer.scan_unmatched_close [OF assms(1,2), of lx valid] assms(2,4)
  by (cases "unmatched_close s (todo (view (runtime lx))) valid")
    (force simp: ts_lexer.vw_def [OF assms(1)] good_scan_def)+

text \<open>A page with an open script element inside a custom element.\<close>

definition script_page :: Scanner where
  "script_page = \<lparr>tags = \<lparr>contents = [Some \<lparr>type = TAG_CUSTOM, custom_tag_name =
      \<lparr>contents = [Some 88, Some 45, Some 65], size = 3, capacity = 3\<rparr>\<rparr>,
    Some \<lparr>type = TAG_SCRIPT, custom_tag_name = array_new\<rparr>], size = 2, capacity = 2\<rparr>\<rparr>"

lemma script_page_ok: "blade_ok script_page" "open_tags script_page = [(TAG_CUSTOM, [88, 45, 65]), (TAG_SCRIPT, [])]"
  "size (tags script_page) = 2"
  by (simp_all add: script_page_def blade_ok_def arr_ok_def arr_list_def tag_ok_def open_tags_def tag_meaning_def)
    (simp add: array_new_def)

lemma blade_create_ok: "blade_ok blade_create" "open_tags blade_create = []" "size (tags blade_create) = 0"
  by (simp_all add: blade_create_def array_new_def blade_ok_def arr_ok_def arr_list_def open_tags_def)

theorem blade_scan_changes_stack_witness:
  "(\<exists>r lx' s'. scan list_api script_page (lex_text (codes ''<a>'')) (\<lambda>_. True) = Some (r, lx', s') \<and> blade_ok s') \<and>
   (\<exists>lx' s'. scan list_api blade_create ((lex_text (codes ''/>''))\<lparr>result_symbol := START_TAG_NAME\<rparr>) (\<lambda>_. True) =
      Some (True, lx', s') \<and> result_symbol lx' = START_TAG_NAME \<and> open_tags s' = [])"
proof -
  have "unmatched_close blade_create (codes ''/>'') (\<lambda>_. True)"
    by (simp add: unmatched_close_def raw_text_only_def stray_close_def blade_create_ok iswspace_def)
  then show ?thesis
    using blade_scan_changes_stack [OF list_lexer.ts_lexer_axioms script_page_ok(1), of "lex_text (codes ''<a>'')" "\<lambda>_. True"]
      blade_scan_changes_stack [OF list_lexer.ts_lexer_axioms blade_create_ok(1),
        of "(lex_text (codes ''/>''))\<lparr>result_symbol := START_TAG_NAME\<rparr>" "\<lambda>_. True"]
      script_page_ok(3) blade_create_ok(2,3)
    by (auto simp: lex_text_def)
qed

text \<open>C21: saving the open elements never overflows the buffer; restoring brings back the outermost ones
  that fit, as many as possible, and an untyped tag for each of the others, so the depth is kept. At most 65535
  elements are open; the name of a custom element comes back cut to 255 bytes (\<open>saved_tag\<close>).\<close>

theorem blade_restores_outermost:
  assumes "blade_ok s" and "size (tags s) \<le> 65535" and "blade_ok t"
  shows "\<exists>bs u k. serialize s = Some bs \<and> length bs \<le> 1024 \<and> deserialize t bs = Some u \<and> blade_ok u \<and>
    open_tags u = map saved_tag (take k (open_tags s)) @ replicate (size (tags s) - k) (TAG_END, []) \<and>
    (k < size (tags s) \<longrightarrow> 1024 \<le> 4 + sum_list (map tag_width (take (Suc k) (open_tags s))))"
proof -
  let ?k = "fitting 4 (open_tags s)"
  have k: "?k \<le> size (tags s)" using fitting_le [of 4 "open_tags s"] assms(1) by simp
  have "length (concat (map tag_bytes (take ?k (open_tags s)))) + 4 \<le> 1024"
    using fitting_fits [of 4 "open_tags s"] by (simp add: length_tags_bytes)
  moreover have "?k < size (tags s) \<longrightarrow> 1024 \<le> 4 + sum_list (map tag_width (take (Suc ?k) (open_tags s)))"
    using fitting_maximal [of 4 "open_tags s"] assms(1) by simp
  ultimately show ?thesis using serialize_eq [OF assms(1,2)] deserialize_eq [OF assms k]
    by (fastforce simp: Let_def u16_bytes_def)
qed

theorem blade_restores_outermost_witness:
  "\<exists>bs u k. serialize script_page = Some bs \<and> deserialize script_page bs = Some u \<and>
     open_tags u = map saved_tag (take k (open_tags script_page)) @ replicate (2 - k) (TAG_END, [])"
  using blade_restores_outermost [OF script_page_ok(1) _ script_page_ok(1)] script_page_ok(3) by fastforce

text \<open>C23: a comment is recognised exactly when its closing mark follows before a NUL, and it ends right
  behind the first one.\<close>

theorem blade_comment_ends_at_first_close:
  assumes "ts_lexer A view" and "todo (view (runtime lx)) = codes ''--'' @ cs" and "length cs < 2 ^ 31"
  shows "\<exists>r lx'. scan_comment A lx = Some (r, lx') \<and> (r \<longleftrightarrow> (\<exists>n. closes_at cs n)) \<and>
    (r \<longrightarrow> result_symbol lx' = COMMENT \<and> view (runtime lx') =
      v_mark (v_skip ((LEAST n. closes_at cs n) + 2) (view (runtime lx))))"
proof -
  obtain r lx' where r: "scan_comment A lx = Some (r, lx')"
    "r \<longrightarrow> (\<exists>n. closes_at cs n \<and> (\<forall>m < n. \<not> closes_at cs m) \<and> result_symbol lx' = COMMENT \<and>
      view (runtime lx') = v_mark (v_skip (n + 2) (view (runtime lx))))"
    "\<not> r \<longrightarrow> (\<forall>n. \<not> closes_at cs n)"
    using ts_lexer.scan_comment_spec [OF assms(1), of lx cs] assms(2,3)
    by (auto simp: ts_lexer.vw_def [OF assms(1)])
  have "(LEAST n. closes_at cs n) = n" if "closes_at cs n" "\<forall>m < n. \<not> closes_at cs m" for n
    using that by (intro Least_equality) (auto simp: not_less [symmetric])
  with r show ?thesis by blast
qed

theorem blade_comment_ends_at_first_close_witness:
  "\<exists>lx'. scan_comment list_api (lex_text (codes ''-- a ---> b'')) = Some (True, lx')"
proof -
  have "closes_at (codes '' a ---> b'') 7"
    by (simp add: closes_at_def suffix_def)
  then show ?thesis
    using blade_comment_ends_at_first_close [OF list_lexer.ts_lexer_axioms, of "lex_text (codes ''-- a ---> b'')"
        "codes '' a ---> b''"] by (auto simp: lex_text_def)
qed


text \<open>Inside a script or style element the raw text ends right before the end tag of that element,
  whatever the case of its name, as long as the text holds no other angle bracket.\<close>

lemma blade_raw_text_ends_at_end_tag:
  assumes "ts_lexer A view" and "blade_ok s" and "open_tags s \<noteq> []"
    and "todo (view (runtime lx)) = body @ close @ cs"
    and "\<forall>c \<in> set body. c \<noteq> 0 \<and> c \<noteq> ch CHR ''<''" and "0 \<notin> set close"
    and "map towupper close = codes (if fst (last (open_tags s)) = TAG_SCRIPT then ''</SCRIPT'' else ''</STYLE'')"
  shows "\<exists>lx'. scan A s lx (\<lambda>t. t = RAW_TEXT) = Some (True, lx', s) \<and> result_symbol lx' = RAW_TEXT \<and>
    tok_end (view (runtime lx')) = seen (view (runtime lx)) + length body"
  using ts_lexer.scan_raw_text_spec [OF assms(1-3) _ assms(5-7), of lx] assms(4)
  by (auto simp: ts_lexer.vw_def [OF assms(1)] scan_def keeping_def)

lemma blade_raw_text_ends_at_end_tag_witness:
  "\<exists>lx'. scan list_api script_page (lex_text (codes ''a>b'' @ codes ''</Script'' @ codes ''>c'')) (\<lambda>t. t = RAW_TEXT) =
     Some (True, lx', script_page) \<and> tok_end (runtime lx') = 3"
  using blade_raw_text_ends_at_end_tag [OF list_lexer.ts_lexer_axioms script_page_ok(1), of
      "lex_text (codes ''a>b'' @ codes ''</Script'' @ codes ''>c'')" "codes ''a>b''" "codes ''</Script''" "codes ''>c''"]
  by (auto simp: script_page_ok(2) lex_text_def towupper_def)

text \<open>C22: a start tag name opens an element and an end tag name closes it exactly when the two names are
  the same up to case; another end tag name is an erroneous one and closes nothing.\<close>

theorem blade_end_tag_closes_same_name:
  assumes "ts_lexer A view" and "blade_ok s" and "size (tags s) < 2 ^ 32 - 1"
    and "name_char (peek (todo (view (runtime lx))))" and "length (todo (view (runtime lx))) < 2 ^ 32 - 1"
    and "name_char (peek (todo (view (runtime ly))))" and "length (todo (view (runtime ly))) < 2 ^ 32 - 1"
  shows "\<exists>lx1 s1 ly1 s2. scan_start_tag_name A s lx = Some (True, lx1, s1) \<and>
    scan_end_tag_name A s1 ly = Some (True, ly1, s2) \<and>
    (if upper_name (todo (view (runtime lx))) = upper_name (todo (view (runtime ly)))
     then result_symbol ly1 = END_TAG_NAME \<and> open_tags s2 = open_tags s
     else result_symbol ly1 = ERRONEOUS_END_TAG_NAME \<and> open_tags s2 = open_tags s1)"
proof -
  note vw = ts_lexer.vw_def [OF assms(1)]
  let ?x = "upper_name (todo (view (runtime lx)))" and ?y = "upper_name (todo (view (runtime ly)))"
  obtain lx1 s1 where s1: "scan_start_tag_name A s lx = Some (True, lx1, s1)" "blade_ok s1"
    "open_tags s1 = open_tags s @ [named_tag ?x]"
    using ts_lexer.scan_start_tag_name_ok [OF assms(1-3), of lx] assms(4,5) by (auto simp: vw)
  obtain ly1 s2 where s2: "scan_end_tag_name A s1 ly = Some (True, ly1, s2)"
    "open_tags s2 = (if named_tag ?x = named_tag ?y then butlast (open_tags s1) else open_tags s1)"
    "result_symbol ly1 = (if named_tag ?x = named_tag ?y then END_TAG_NAME else ERRONEOUS_END_TAG_NAME)"
    using ts_lexer.scan_end_tag_name_ok [OF assms(1) s1(2), of ly] assms(6,7) s1(3)
    by (fastforce simp: vw Let_def)
  then show ?thesis using s1 by (auto simp: named_tag_inj)
qed

theorem blade_end_tag_closes_same_name_witness:
  "\<exists>lx1 s1 ly1 s2. scan_start_tag_name list_api script_page (lex_text (codes ''x-Y>'')) = Some (True, lx1, s1) \<and>
     scan_end_tag_name list_api s1 (lex_text (codes ''X-y>'')) = Some (True, ly1, s2) \<and>
     result_symbol ly1 = END_TAG_NAME \<and> open_tags s2 = open_tags script_page"
proof -
  have up: "upper_name (codes ''x-Y>'') = upper_name (codes ''X-y>'')" "name_char (peek (codes ''x-Y>''))"
    "name_char (peek (codes ''X-y>''))"
    by (simp_all add: name_char_def iswalnum_def iswalpha_def iswdigit_def upper_name_def towupper_def)
  have t: "todo (runtime (lex_text cs)) = cs" for cs by (simp add: lex_text_def)
  show ?thesis
    using blade_end_tag_closes_same_name [OF list_lexer.ts_lexer_axioms script_page_ok(1), of
        "lex_text (codes ''x-Y>'')" "lex_text (codes ''X-y>'')", unfolded t] up script_page_ok(3) by simp
qed

text \<open>When the parser looks for an implicit end, the end tag of a custom element that is not open
  closes the innermost element if any custom element is open: the search compares only the types.\<close>

lemma blade_unopened_custom_end_closes:
  assumes "ts_lexer A view" and "blade_ok s" and "todo (view (runtime lx)) = ch CHR ''/'' # cs"
    and "name_char (peek cs)" and "length cs < 2 ^ 32 - 1"
    and "type_of_name (upper_name cs) = TAG_CUSTOM" and "TAG_CUSTOM \<in> fst ` set (open_tags s)"
    and "named_tag (upper_name cs) \<notin> set (open_tags s)"
  shows "\<exists>lx' s'. scan_implicit_end_tag A s lx = Some (True, lx', s') \<and>
    result_symbol lx' = IMPLICIT_END_TAG \<and> open_tags s' = butlast (open_tags s)"
proof -
  have nt: "fst (named_tag (upper_name cs)) = TAG_CUSTOM" using assms(6) by (simp add: named_tag_def)
  have ne: "open_tags s \<noteq> []" using assms(7) by auto
  then have "last (open_tags s) \<noteq> named_tag (upper_name cs)" using last_in_set assms(8) by metis
  then show ?thesis using ts_lexer.closing_tag_spec [OF assms(1,2) _ assms(4,5), of lx] assms(3,7) ne
    by (auto simp: ts_lexer.vw_def [OF assms(1)] nt)
qed

lemma blade_unopened_custom_end_closes_witness:
  "\<exists>lx' s'. scan_implicit_end_tag list_api script_page (lex_text (codes ''/x-b>'')) = Some (True, lx', s') \<and>
     open_tags s' = [(TAG_CUSTOM, [88, 45, 65])]"
proof -
  have up: "upper_name (codes ''x-b>'') = [88, 45, 66]"
    by (simp add: upper_name_def name_char_def iswalnum_def iswalpha_def iswdigit_def towupper_def)
  have ty: "type_of_name [88, 45, 66] = TAG_CUSTOM" by (simp add: type_of_name_def TAG_TYPES_BY_TAG_NAME_def)
  have "name_char (peek (codes ''x-b>''))" by (simp add: name_char_def iswalnum_def iswalpha_def)
  then show ?thesis
    using blade_unopened_custom_end_closes [OF list_lexer.ts_lexer_axioms script_page_ok(1), of
        "lex_text (codes ''/x-b>'')" "codes ''x-b>''"] up ty script_page_ok(2)
    by (auto simp: lex_text_def named_tag_def)
qed

text \<open>In a script element, an end tag with an angle bracket right before it is not seen: the bracket
  starts a match that fails on the next one, which is then not looked at again.\<close>

lemma blade_raw_text_misses_end_tag:
  assumes "ts_lexer A view" and "blade_ok s" and "open_tags s \<noteq> []"
    and "fst (last (open_tags s)) = TAG_SCRIPT"
    and "todo (view (runtime lx)) = codes ''<</script>'' @ cs" and "\<forall>c \<in> set cs. c \<noteq> 0 \<and> c \<noteq> ch CHR ''<''"
  shows "\<exists>lx'. scan A s lx (\<lambda>t. t = RAW_TEXT) = Some (True, lx', s) \<and> result_symbol lx' = RAW_TEXT \<and>
    tok_end (view (runtime lx')) = seen (view (runtime lx)) + length (todo (view (runtime lx)))"
  using ts_lexer.raw_text_misses [OF assms(1-4) _ assms(6), of lx] assms(5)
  by (auto simp: ts_lexer.vw_def [OF assms(1)] scan_def keeping_def)

lemma blade_raw_text_misses_end_tag_witness:
  "\<exists>lx'. scan list_api script_page (lex_text (codes ''<</script>'' @ codes ''abc'')) (\<lambda>t. t = RAW_TEXT) =
     Some (True, lx', script_page) \<and> tok_end (runtime lx') = 13"
  using blade_raw_text_misses_end_tag [OF list_lexer.ts_lexer_axioms script_page_ok(1), of
      "lex_text (codes ''<</script>'' @ codes ''abc'')" "codes ''abc''"]
  by (auto simp: script_page_ok(2) lex_text_def)

end
