(* ===== verification/NimScanner.thy ===== *)
theory NimScanner
  imports TsLexer TsArray ScannerContract
begin

text \<open>
  The external scanner of the Nim grammar,
  \<^verbatim>\<open>crates/cli/vendor-grammars/tree-sitter-nim/src/scanner.c\<close>: a stack of layout
  indentations, block comments, long string quotes, operators and the keywords that continue a
  statement. \<^verbatim>\<open>RUNTIME_ASSERT\<close> aborts, so a failed one is \<open>None\<close>. \<^verbatim>\<open>ts_realloc\<close> may fail and the
  code looks at it; \<open>alloc n\<close> says whether it gives \<open>n\<close> bytes in this call (a scan allocates at most
  once). The debug output is compiled out (\<^verbatim>\<open>TREE_SITTER_INTERNAL_BUILD\<close> is not defined).
\<close>

subsection \<open>The indent vector\<close>

type_synonym indent_value = byte

abbreviation INVALID_INDENT_VALUE :: indent_value where
  "INVALID_INDENT_VALUE \<equiv> 255"

record indent_vec =
  len :: int
  cap :: int
  data :: "indent_value option list"

definition indent_vec_destroy :: "indent_vec \<Rightarrow> indent_vec" where
  "indent_vec_destroy self = self\<lparr>len := 0, cap := 0, data := []\<rparr>"

text \<open>\<^verbatim>\<open>indent_vec_at\<close> and \<^verbatim>\<open>indent_vec_at_capacity\<close> give a pointer; here the index behind it.\<close>

definition indent_vec_at :: "indent_vec \<Rightarrow> int \<Rightarrow> nat option" where
  "indent_vec_at self idx = (if idx \<ge> 0 \<and> idx < len self then Some (nat idx) else None)"

definition indent_vec_at_capacity :: "indent_vec \<Rightarrow> int \<Rightarrow> nat option" where
  "indent_vec_at_capacity self idx = (if idx \<ge> 0 \<and> idx < cap self then Some (nat idx) else None)"

definition load :: "indent_vec \<Rightarrow> nat \<Rightarrow> indent_value option" where
  "load self i = (if i < length (data self) then data self ! i else None)"

definition store :: "indent_vec \<Rightarrow> nat \<Rightarrow> indent_value \<Rightarrow> indent_vec option" where
  "store self i v = (if i < length (data self) then Some (self\<lparr>data := (data self)[i := Some v]\<rparr>) else None)"

definition indent_vec_get :: "indent_vec \<Rightarrow> int \<Rightarrow> indent_value option" where
  "indent_vec_get self idx = do { i \<leftarrow> indent_vec_at self idx; load self i }"

text \<open>\<^verbatim>\<open>for (i = i0; i < size; i++) *indent_vec_at_capacity(self, i) = INVALID_INDENT_VALUE;\<close>\<close>

function invalidate :: "indent_vec \<Rightarrow> int \<Rightarrow> int \<Rightarrow> indent_vec option" where
  "invalidate self i n =
     (if i < n
      then do {
        p \<leftarrow> indent_vec_at_capacity self i;
        self' \<leftarrow> store self p INVALID_INDENT_VALUE;
        invalidate self' (i + 1) n
      }
      else Some self)"
  by pat_completeness auto
termination by (relation "measure (\<lambda>(_, i, n). nat (n - i))") auto

declare invalidate.simps [simp del]

text \<open>The status 0 is \<open>True\<close> and -1 is \<open>False\<close>.\<close>

definition indent_vec_set_capacity :: "(int \<Rightarrow> bool) \<Rightarrow> indent_vec \<Rightarrow> int \<Rightarrow> (bool \<times> indent_vec) option" where
  "indent_vec_set_capacity alloc self n =
     (if n < 0 then Some (False, self)
      else if n \<noteq> cap self
      then if \<not> alloc n then Some (False, self)
           else do {
             let new_data = take (nat n) (data self) @ replicate (nat n - length (data self)) None;
             let self1 = self\<lparr>data := new_data, cap := n, len := min (len self) n\<rparr>;
             self2 \<leftarrow> invalidate self1 (len self1) n;
             Some (True, self2)
           }
      else Some (True, self))"

definition indent_vec_set_len :: "(int \<Rightarrow> bool) \<Rightarrow> indent_vec \<Rightarrow> int \<Rightarrow> (bool \<times> indent_vec) option" where
  "indent_vec_set_len alloc self n =
     (if n < 0 then Some (False, self)
      else do {
        (ok, self1) \<leftarrow> (if n > cap self then indent_vec_set_capacity alloc self n else Some (True, self));
        if \<not> ok then Some (False, self1)
        else do {
          self2 \<leftarrow> invalidate self1 (len self1) n;
          Some (True, self2\<lparr>len := n\<rparr>)
        }
      })"

text \<open>\<^verbatim>\<open>self->len * 3\<close> is an \<^verbatim>\<open>int32_t\<close>: where it overflows the behaviour is undefined.\<close>

definition indent_vec_push :: "(int \<Rightarrow> bool) \<Rightarrow> indent_vec \<Rightarrow> indent_value \<Rightarrow> (bool \<times> indent_vec) option" where
  "indent_vec_push alloc self v =
     (if len self \<ge> 2 \<and> len self \<ge> cap self \<and> len self * 3 \<ge> 2 ^ 31 then None
      else do {
        (ok, self1) \<leftarrow>
          (if len self \<ge> cap self
           then indent_vec_set_capacity alloc self (if len self \<ge> 2 then len self * 3 div 2 else len self + 1)
           else Some (True, self));
        if \<not> ok then Some (False, self1)
        else do {
          let self2 = self1\<lparr>len := len self1 + 1\<rparr>;
          p \<leftarrow> indent_vec_at self2 (len self2 - 1);
          self3 \<leftarrow> store self2 p v;
          Some (True, self3)
        }
      })"

definition indent_vec_pop :: "(int \<Rightarrow> bool) \<Rightarrow> indent_vec \<Rightarrow> indent_vec option" where
  "indent_vec_pop alloc self = map_option snd (indent_vec_set_len alloc self (max 0 (len self - 1)))"

definition indent_vec_back :: "indent_vec \<Rightarrow> indent_value option" where
  "indent_vec_back self = indent_vec_get self (len self - 1)"

text \<open>
  The bytes written to a buffer of \<open>buffer_len\<close> bytes. \<^verbatim>\<open>memcpy\<close> copies \<^verbatim>\<open>n_bytes\<close>, not
  \<^verbatim>\<open>serialize_len\<close>, so a longer vector is written past the end of the buffer.
\<close>

definition indent_vec_serialize :: "indent_vec \<Rightarrow> nat \<Rightarrow> indent_value list option" where
  "indent_vec_serialize self buffer_len =
     (let n_bytes = nat (len self)
      in if n_bytes = 0 then Some []
         else if n_bytes > buffer_len then None
         else those (map (load self) [0..<n_bytes]))"

definition indent_vec_deserialize :: "(int \<Rightarrow> bool) \<Rightarrow> indent_vec \<Rightarrow> byte list \<Rightarrow> indent_vec option" where
  "indent_vec_deserialize alloc self buffer = do {
     let n_items = min (int (length buffer)) (2 ^ 31 - 1);
     (ok, self1) \<leftarrow> indent_vec_set_len alloc self n_items;
     if \<not> ok then Some self1
     else if n_items > 0
     then if nat n_items \<le> length (data self1)
          then Some (self1\<lparr>data := map Some (take (nat n_items) buffer) @ drop (nat n_items) (data self1)\<rparr>)
          else None
     else Some self1
   }"

subsection \<open>Tokens, state and context\<close>

datatype token_type =
    BLOCK_COMMENT_CONTENT
  | BLOCK_DOC_COMMENT_CONTENT
  | COMMENT_CONTENT
  | LONG_STRING_QUOTE
  | LAYOUT_START
  | LAYOUT_END
  | LAYOUT_TERMINATOR
  | LAYOUT_EMPTY
  | INHIBIT_LAYOUT_END
  | INHIBIT_KEYWORD_TERMINATION
  | COMMA
  | SYNCHRONIZE
  | INVALID_LAYOUT
  | SIGIL_OP
  | UNARY_OP
  | WANT_EXPORT_MARKER
  | OF

definition all_tokens :: "token_type list" where
  "all_tokens = [BLOCK_COMMENT_CONTENT, BLOCK_DOC_COMMENT_CONTENT, COMMENT_CONTENT, LONG_STRING_QUOTE,
     LAYOUT_START, LAYOUT_END, LAYOUT_TERMINATOR, LAYOUT_EMPTY, INHIBIT_LAYOUT_END,
     INHIBIT_KEYWORD_TERMINATION, COMMA, SYNCHRONIZE, INVALID_LAYOUT, SIGIL_OP, UNARY_OP,
     WANT_EXPORT_MARKER, OF]"

primrec token_code :: "token_type \<Rightarrow> nat" where
  "token_code BLOCK_COMMENT_CONTENT = 0"
| "token_code BLOCK_DOC_COMMENT_CONTENT = 1"
| "token_code COMMENT_CONTENT = 2"
| "token_code LONG_STRING_QUOTE = 3"
| "token_code LAYOUT_START = 4"
| "token_code LAYOUT_END = 5"
| "token_code LAYOUT_TERMINATOR = 6"
| "token_code LAYOUT_EMPTY = 7"
| "token_code INHIBIT_LAYOUT_END = 8"
| "token_code INHIBIT_KEYWORD_TERMINATION = 9"
| "token_code COMMA = 10"
| "token_code SYNCHRONIZE = 11"
| "token_code INVALID_LAYOUT = 12"
| "token_code SIGIL_OP = 13"
| "token_code UNARY_OP = 14"
| "token_code WANT_EXPORT_MARKER = 15"
| "token_code OF = 16"

abbreviation (input) TOKEN_TYPE_LEN :: nat where
  "TOKEN_TYPE_LEN \<equiv> 17"

text \<open>The bit field of \<^verbatim>\<open>TOKEN_TYPE_LEN\<close> bits.\<close>

type_synonym valid_tokens = "17 word"

definition TO_VT_BIT :: "token_type \<Rightarrow> 32 word" where
  "TO_VT_BIT t = push_bit (token_code t) 1"

definition valid_tokens_from_array :: "(token_type \<Rightarrow> bool) \<Rightarrow> valid_tokens" where
  "valid_tokens_from_array valid_tokens =
     fold (\<lambda>t bits. or bits (ucast (push_bit (token_code t) (of_bool (valid_tokens t)) :: 32 word))) all_tokens 0"

definition valid_tokens_test :: "valid_tokens \<Rightarrow> token_type \<Rightarrow> bool" where
  "valid_tokens_test self t \<longleftrightarrow> and (ucast self) (TO_VT_BIT t) \<noteq> 0"

definition valid_tokens_any_valid :: "valid_tokens \<Rightarrow> valid_tokens \<Rightarrow> bool" where
  "valid_tokens_any_valid left right \<longleftrightarrow> and left right \<noteq> 0"

definition valid_tokens_is_error :: "valid_tokens \<Rightarrow> bool" where
  "valid_tokens_is_error self \<longleftrightarrow> ucast self = not (push_bit TOKEN_TYPE_LEN (not (0 :: 32 word)))"

record nim_state =
  layout_stack :: indent_vec

definition state_new :: "(int \<Rightarrow> bool) \<Rightarrow> nim_state option" where
  "state_new alloc = (if alloc 16 then Some \<lparr>layout_stack = \<lparr>len = 0, cap = 0, data = []\<rparr>\<rparr> else None)"

definition state_clear :: "(int \<Rightarrow> bool) \<Rightarrow> nim_state \<Rightarrow> nim_state option" where
  "state_clear alloc self = do {
     (_, v) \<leftarrow> indent_vec_set_len alloc (layout_stack self) 0;
     Some (self\<lparr>layout_stack := v\<rparr>)
   }"

definition state_serialize :: "nim_state \<Rightarrow> nat \<Rightarrow> byte list option" where
  "state_serialize self buffer_len = indent_vec_serialize (layout_stack self) buffer_len"

definition state_deserialize :: "(int \<Rightarrow> bool) \<Rightarrow> nim_state \<Rightarrow> byte list \<Rightarrow> nim_state option" where
  "state_deserialize alloc self buffer = do {
     self1 \<leftarrow> state_clear alloc self;
     v \<leftarrow> indent_vec_deserialize alloc (layout_stack self1) buffer;
     Some (self1\<lparr>layout_stack := v\<rparr>)
   }"

text \<open>\<open>after_newline\<close> is the bit \<^verbatim>\<open>FLAG_AFTER_NEWLINE\<close>, the only one of \<^verbatim>\<open>flags\<close>.\<close>

record 'l lex_context =
  lexer :: "('l, token_type) tslexer"
  state :: nim_state
  advance_counter :: "32 word"
  valid_tokens :: valid_tokens
  current_indent :: indent_value
  after_newline :: bool

definition context_mark_end :: "'l lexer_api \<Rightarrow> 'l lex_context \<Rightarrow> 'l lex_context" where
  "context_mark_end A self = self\<lparr>lexer := mark_end A (lexer self)\<rparr>"

definition context_lookahead :: "'l lexer_api \<Rightarrow> 'l lex_context \<Rightarrow> code" where
  "context_lookahead A self = lookahead A (lexer self)"

definition context_eof :: "'l lexer_api \<Rightarrow> 'l lex_context \<Rightarrow> bool" where
  "context_eof A self = eof A (lexer self)"

text \<open>The callers that use the result of \<^verbatim>\<open>context_advance\<close> look at the new context instead.\<close>

definition context_advance :: "'l lexer_api \<Rightarrow> 'l lex_context \<Rightarrow> bool \<Rightarrow> 'l lex_context" where
  "context_advance A self sk =
     (let self1 = self\<lparr>advance_counter := advance_counter self + of_bool (\<not> context_eof A self)\<rparr>;
          self2 = (if \<not> context_eof A self1 then self1\<lparr>after_newline := False\<rparr> else self1)
      in self2\<lparr>lexer := lex_advance A sk (lexer self2)\<rparr>)"

definition context_consume :: "'l lexer_api \<Rightarrow> 'l lex_context \<Rightarrow> bool \<Rightarrow> 'l lex_context" where
  "context_consume A self sk = context_mark_end A (context_advance A self sk)"

definition context_finish :: "'l lex_context \<Rightarrow> token_type \<Rightarrow> bool \<times> 'l lex_context" where
  "context_finish self t = (True, self\<lparr>lexer := set_symbol t (lexer self)\<rparr>)"

definition context_indent :: "'l lex_context \<Rightarrow> indent_value" where
  "context_indent self = (if after_newline self then current_indent self else INVALID_INDENT_VALUE)"

definition set_layout :: "'l lex_context \<Rightarrow> indent_vec \<Rightarrow> 'l lex_context" where
  "set_layout self v = self\<lparr>state := (state self)\<lparr>layout_stack := v\<rparr>\<rparr>"

type_synonym 'l lex_fn = "'l lex_context \<Rightarrow> (bool \<times> 'l lex_context) option"

text \<open>
  \<^verbatim>\<open>TRY_LEX\<close>: return when the function succeeds or consumed input, otherwise go on.
\<close>

definition TRY_LEX :: "'l lex_fn \<Rightarrow> 'l lex_context \<Rightarrow> 'l lex_fn \<Rightarrow> (bool \<times> 'l lex_context) option" where
  "TRY_LEX fn ctx go_on = do {
     (found, ctx') \<leftarrow> fn ctx;
     if found then Some (True, ctx')
     else if advance_counter ctx' \<noteq> advance_counter ctx then Some (False, ctx')
     else go_on ctx'
   }"

definition is_digit :: "code \<Rightarrow> bool" where
  "is_digit chr \<longleftrightarrow> chr \<ge> ch CHR ''0'' \<and> chr \<le> ch CHR ''9''"

definition is_lower :: "code \<Rightarrow> bool" where
  "is_lower chr \<longleftrightarrow> chr \<ge> ch CHR ''a'' \<and> chr \<le> ch CHR ''z''"

definition is_upper :: "code \<Rightarrow> bool" where
  "is_upper chr \<longleftrightarrow> chr \<ge> ch CHR ''A'' \<and> chr \<le> ch CHR ''Z''"

definition is_keyword :: "code \<Rightarrow> bool" where
  "is_keyword chr \<longleftrightarrow> is_lower chr \<or> is_upper chr \<or> chr = ch CHR ''_''"

definition is_identifier :: "code \<Rightarrow> bool" where
  "is_identifier chr \<longleftrightarrow> is_keyword chr \<or> is_digit chr"

definition to_upper :: "code \<Rightarrow> code" where
  "to_upper chr = (if is_lower chr then and chr (not (push_bit 5 1)) else chr)"

subsection \<open>Spaces, strings and comments\<close>

text \<open>\<^verbatim>\<open>size_t\<close> counts the spaces; it cannot wrap on a text.\<close>

partial_function (option) spaces_loop ::
  "'l lexer_api \<Rightarrow> bool \<Rightarrow> indent_value \<Rightarrow> nat \<Rightarrow> 'l lex_context \<Rightarrow> (bool \<times> indent_value \<times> nat \<times> 'l lex_context) option" where
  "spaces_loop A update_indent indent spaces ctx =
     (let c = context_lookahead A ctx
      in if c = 32
         then spaces_loop A update_indent (indent + of_bool (indent \<noteq> INVALID_INDENT_VALUE)) (spaces + 1)
                (context_advance A ctx True)
         else if c = 10 \<or> c = 13 then spaces_loop A True 0 (spaces + 1) (context_advance A ctx True)
         else if c = 0 \<and> context_eof A ctx then Some (True, 0, spaces, ctx)
         else Some (update_indent, indent, spaces, ctx))"

definition scan_spaces :: "'l lexer_api \<Rightarrow> 'l lex_context \<Rightarrow> bool \<Rightarrow> (nat \<times> 'l lex_context) option" where
  "scan_spaces A ctx force_update = do {
     (update_indent, indent, spaces, ctx1) \<leftarrow> spaces_loop A force_update 0 0 ctx;
     Some (spaces, if update_indent then ctx1\<lparr>current_indent := indent, after_newline := True\<rparr> else ctx1)
   }"

function quote_loop :: "'l lexer_api \<Rightarrow> nat \<Rightarrow> 'l lex_context \<Rightarrow> nat \<times> 'l lex_context" where
  "quote_loop A count ctx =
     (if context_lookahead A ctx = ch CHR 0x22 \<and> count < 3
      then quote_loop A (count + 1) (context_advance A ctx False)
      else (count, ctx))"
  by pat_completeness auto
termination by (relation "measure (\<lambda>(_, count, _). 3 - count)") auto

declare quote_loop.simps [simp del]

definition lex_long_string_quote :: "'l lexer_api \<Rightarrow> 'l lex_fn" where
  "lex_long_string_quote A ctx =
     (if context_lookahead A ctx \<noteq> ch CHR 0x22 \<or> \<not> valid_tokens_test (valid_tokens ctx) LONG_STRING_QUOTE
      then Some (False, ctx)
      else let (count, ctx1) = quote_loop A 1 (context_consume A ctx False)
           in Some (if count < 3 then context_finish (context_mark_end A ctx1) LONG_STRING_QUOTE
                    else if context_lookahead A ctx1 = ch CHR 0x22 then context_finish ctx1 LONG_STRING_QUOTE
                    else (False, ctx1)))"

definition COMMENT_TOKENS :: valid_tokens where
  "COMMENT_TOKENS = ucast (or (or (TO_VT_BIT BLOCK_COMMENT_CONTENT) (TO_VT_BIT BLOCK_DOC_COMMENT_CONTENT))
     (TO_VT_BIT COMMENT_CONTENT))"

partial_function (option) short_comment_loop :: "'l lexer_api \<Rightarrow> 'l lex_context \<Rightarrow> 'l lex_context option" where
  "short_comment_loop A ctx =
     (if context_eof A ctx then Some ctx
      else if context_lookahead A ctx = 10 \<or> context_lookahead A ctx = 13 then Some ctx
      else short_comment_loop A (context_advance A ctx False))"

partial_function (option) block_comment_loop :: "'l lexer_api \<Rightarrow> nat \<Rightarrow> 'l lex_context \<Rightarrow> (bool \<times> 'l lex_context) option" where
  "block_comment_loop A nesting0 ctx0 =
     (if context_eof A ctx0 then Some (False, ctx0)
      else
        let hash = (context_lookahead A ctx0 = ch CHR ''#'');
            ctx1 = (if hash then context_advance A ctx0 False else ctx0);
            nesting = (if hash \<and> context_lookahead A ctx1 = ch CHR ''['' then u32 (nesting0 + 1) else nesting0);
            ctx2 = context_mark_end A ctx1
        in if context_lookahead A ctx2 = ch CHR '']''
           then let ctx3 = context_advance A ctx2 False
                in if context_lookahead A ctx3 = ch CHR ''#''
                   then if nesting > 0 then block_comment_loop A (nesting - 1) ctx3
                        else if valid_tokens_test (valid_tokens ctx3) BLOCK_DOC_COMMENT_CONTENT
                        then let ctx4 = context_advance A ctx3 False
                             in if context_lookahead A ctx4 = ch CHR ''#''
                                then Some (context_finish ctx4 BLOCK_DOC_COMMENT_CONTENT)
                                else block_comment_loop A nesting ctx4
                        else Some (context_finish ctx3 BLOCK_COMMENT_CONTENT)
                   else block_comment_loop A nesting ctx3
           else block_comment_loop A nesting (context_advance A ctx2 False))"

definition lex_comment_content :: "'l lexer_api \<Rightarrow> 'l lex_fn" where
  "lex_comment_content A ctx =
     (if \<not> valid_tokens_any_valid (valid_tokens ctx) COMMENT_TOKENS \<or> valid_tokens_is_error (valid_tokens ctx)
      then Some (False, ctx)
      else if valid_tokens_test (valid_tokens ctx) COMMENT_CONTENT
      then do {
        ctx1 \<leftarrow> short_comment_loop A ctx;
        Some (context_finish (context_mark_end A ctx1) COMMENT_CONTENT)
      }
      else block_comment_loop A 0 ctx)"

definition lex_init :: "'l lexer_api \<Rightarrow> (int \<Rightarrow> bool) \<Rightarrow> 'l lex_fn" where
  "lex_init A alloc ctx =
     (if len (layout_stack (state ctx)) > 0 \<or> valid_tokens_is_error (valid_tokens ctx) \<or>
         valid_tokens_any_valid (valid_tokens ctx) COMMENT_TOKENS
      then Some (False, ctx)
      else do {
        (_, ctx1) \<leftarrow> scan_spaces A ctx True;
        if context_lookahead A ctx1 = ch CHR ''#'' then Some (False, ctx1)
        else if context_indent ctx1 = INVALID_INDENT_VALUE then Some (False, ctx1)
        else do {
          (ok, v) \<leftarrow> indent_vec_push alloc (layout_stack (state ctx1)) (context_indent ctx1);
          Some (if ok then context_finish (set_layout ctx1 v) SYNCHRONIZE else (False, set_layout ctx1 v))
        }
      })"


subsection \<open>Keywords\<close>

definition skip_underscore :: "'l lexer_api \<Rightarrow> 'l lex_context \<Rightarrow> 'l lex_context" where
  "skip_underscore A ctx = (if context_lookahead A ctx = ch CHR ''_'' then context_advance A ctx False else ctx)"

definition chrcaseeq :: "code \<Rightarrow> code \<Rightarrow> bool" where
  "chrcaseeq lhs rhs \<longleftrightarrow> to_upper lhs = to_upper rhs"

text \<open>\<^verbatim>\<open>NEXT_OR_FAIL\<close> for each of the characters, then \<^verbatim>\<open>FINISH_IF_END\<close>.\<close>

primrec next_all_then_end :: "'l lexer_api \<Rightarrow> code list \<Rightarrow> 'l lex_context \<Rightarrow> bool \<times> 'l lex_context" where
  "next_all_then_end A [] ctx =
     (let ctx1 = context_advance A ctx False in (\<not> is_identifier (context_lookahead A ctx1), ctx1))"
| "next_all_then_end A (chr # chrs) ctx =
     (let ctx1 = skip_underscore A (context_advance A ctx False)
      in if chrcaseeq (context_lookahead A ctx1) chr then next_all_then_end A chrs ctx1 else (False, ctx1))"

declare next_all_then_end.simps [simp del]

definition finally_or_do :: "'l lexer_api \<Rightarrow> bool \<Rightarrow> 'l lex_context \<Rightarrow> bool \<times> 'l lex_context" where
  "finally_or_do A scan_do ctx =
     (if context_lookahead A ctx = ch CHR ''f'' then next_all_then_end A (codes ''inally'') ctx
      else if scan_do \<and> context_lookahead A ctx = ch CHR ''d'' then next_all_then_end A (codes ''o'') ctx
      else (False, ctx))"

definition scan_continuing_keyword :: "'l lexer_api \<Rightarrow> bool \<Rightarrow> 'l lex_context \<Rightarrow> bool \<times> 'l lex_context" where
  "scan_continuing_keyword A scan_do ctx =
     (if context_lookahead A ctx = ch CHR ''e''
      then let ctx1 = skip_underscore A (context_advance A ctx False)
           in if chrcaseeq (context_lookahead A ctx1) (ch CHR ''l'')
              then let ctx2 = skip_underscore A (context_advance A ctx1 False)
                   in if chrcaseeq (context_lookahead A ctx2) (ch CHR ''s'')
                      then next_all_then_end A (codes ''e'') ctx2
                      else if chrcaseeq (context_lookahead A ctx2) (ch CHR ''i'')
                      then next_all_then_end A (codes ''f'') ctx2
                      else (False, ctx2)
              else if chrcaseeq (context_lookahead A ctx1) (ch CHR ''x'')
              then next_all_then_end A (codes ''cept'') ctx1
              else finally_or_do A scan_do ctx1
      else finally_or_do A scan_do ctx)"

definition lex_case_of :: "'l lexer_api \<Rightarrow> 'l lex_context \<Rightarrow> bool \<times> 'l lex_context" where
  "lex_case_of A ctx =
     (if context_lookahead A ctx \<noteq> ch CHR ''o'' \<or> \<not> valid_tokens_test (valid_tokens ctx) OF
      then (False, ctx)
      else let ctx1 = context_advance A (skip_underscore A ctx) False;
               c = context_lookahead A ctx1
           in if c = ch CHR ''f'' \<or> c = ch CHR ''F''
              then let ctx2 = context_advance A ctx1 False
                   in if is_identifier (context_lookahead A ctx2) then (False, ctx2)
                      else context_finish (context_mark_end A ctx2) OF
              else (False, ctx1))"

subsection \<open>Layout\<close>

definition NO_LAYOUT_END_CTX :: valid_tokens where
  "NO_LAYOUT_END_CTX = ucast (or (TO_VT_BIT INHIBIT_LAYOUT_END) (TO_VT_BIT LONG_STRING_QUOTE))"

text \<open>The implicit layout changes at the end of \<^verbatim>\<open>lex_indent\<close>.\<close>

definition lex_layout_end ::
  "'l lexer_api \<Rightarrow> (int \<Rightarrow> bool) \<Rightarrow> indent_value \<Rightarrow> indent_value \<Rightarrow> 'l lex_fn" where
  "lex_layout_end A alloc cur layout ctx =
     (if (\<not> valid_tokens_any_valid (valid_tokens ctx) NO_LAYOUT_END_CTX \<or>
          valid_tokens_is_error (valid_tokens ctx) \<or> context_eof A ctx) \<and>
         (cur < layout \<or> context_eof A ctx) \<and> len (layout_stack (state ctx)) > 1
      then do {
        v \<leftarrow> indent_vec_pop alloc (layout_stack (state ctx));
        Some (context_finish (set_layout ctx v) LAYOUT_END)
      }
      else TRY_LEX (\<lambda>c. Some (lex_case_of A c)) ctx (\<lambda>c. Some (False, c)))"

text \<open>Where \<open>cur \<le> layout\<close> and LAYOUT_TERMINATOR is valid.\<close>

definition lex_layout_terminator :: "'l lexer_api \<Rightarrow> indent_value \<Rightarrow> indent_value \<Rightarrow> 'l lex_context \<Rightarrow> bool \<times> 'l lex_context" where
  "lex_layout_terminator A cur layout ctx =
     (if cur = layout
      then let (continues, ctx1) =
                 (if valid_tokens_test (valid_tokens ctx) INHIBIT_KEYWORD_TERMINATION
                  then scan_continuing_keyword A True ctx else (False, ctx))
           in if continues then (False, ctx1)
              else if advance_counter ctx = advance_counter ctx1
              then let (found, ctx2) = lex_case_of A ctx1
                   in if found then (True, ctx2) else context_finish ctx2 LAYOUT_TERMINATOR
              else context_finish ctx1 LAYOUT_TERMINATOR
      else context_finish ctx LAYOUT_TERMINATOR)"

text \<open>What follows LAYOUT_START.\<close>

definition lex_layout_keep ::
  "'l lexer_api \<Rightarrow> (int \<Rightarrow> bool) \<Rightarrow> indent_value \<Rightarrow> indent_value \<Rightarrow> 'l lex_fn" where
  "lex_layout_keep A alloc cur layout ctx =
     (if valid_tokens_test (valid_tokens ctx) LAYOUT_EMPTY \<and>
         \<not> valid_tokens_is_error (valid_tokens ctx) \<and> cur \<le> layout
      then Some (context_finish ctx LAYOUT_EMPTY)
      else if valid_tokens_test (valid_tokens ctx) LAYOUT_TERMINATOR \<and> cur \<le> layout
      then Some (lex_layout_terminator A cur layout ctx)
      else lex_layout_end A alloc cur layout ctx)"

definition lex_indent :: "'l lexer_api \<Rightarrow> (int \<Rightarrow> bool) \<Rightarrow> 'l lex_fn" where
  "lex_indent A alloc ctx =
     (if context_lookahead A ctx = ch CHR ''#'' \<or> len (layout_stack (state ctx)) = 0 then Some (False, ctx)
      else if context_indent ctx = INVALID_INDENT_VALUE then Some (False, ctx)
      else do {
        let cur = context_indent ctx;
        layout \<leftarrow> indent_vec_back (layout_stack (state ctx));
        if valid_tokens_test (valid_tokens ctx) LAYOUT_START \<and> cur > layout
        then do {
          (ok, v) \<leftarrow> indent_vec_push alloc (layout_stack (state ctx)) cur;
          Some (if ok then context_finish (set_layout ctx v) LAYOUT_START else (False, set_layout ctx v))
        }
        else lex_layout_keep A alloc cur layout ctx
      })"

definition lex_inline_end :: "(int \<Rightarrow> bool) \<Rightarrow> 'l lex_fn" where
  "lex_inline_end alloc ctx =
     (if valid_tokens_test (valid_tokens ctx) LAYOUT_TERMINATOR then Some (context_finish ctx LAYOUT_TERMINATOR)
      else if valid_tokens_test (valid_tokens ctx) LAYOUT_END \<and> len (layout_stack (state ctx)) > 1
      then do {
        v \<leftarrow> indent_vec_pop alloc (layout_stack (state ctx));
        Some (context_finish (set_layout ctx v) LAYOUT_END)
      }
      else Some (False, ctx))"

definition lex_inline_layout :: "'l lexer_api \<Rightarrow> (int \<Rightarrow> bool) \<Rightarrow> 'l lex_fn" where
  "lex_inline_layout A alloc ctx =
     (let c = context_lookahead A ctx
      in if len (layout_stack (state ctx)) = 0 \<or> after_newline ctx then Some (False, ctx)
         else if c = ch CHR '',''
         then if valid_tokens_test (valid_tokens ctx) COMMA then Some (False, ctx) else lex_inline_end alloc ctx
         else if c = ch CHR '')'' \<or> c = ch CHR '']'' \<or> c = ch CHR ''}'' then lex_inline_end alloc ctx
         else if c = ch CHR ''.''
         then let ctx1 = context_advance A ctx False
              in if context_lookahead A ctx1 = ch CHR ''}'' then lex_inline_end alloc ctx1 else Some (False, ctx1)
         else if valid_tokens_test (valid_tokens ctx) INHIBIT_KEYWORD_TERMINATION then Some (False, ctx)
         else let (continues, ctx1) = scan_continuing_keyword A False ctx
              in if continues then lex_inline_end alloc ctx1 else Some (False, ctx1))"

subsection \<open>Operators\<close>

definition UNARY_OPS :: valid_tokens where
  "UNARY_OPS = ucast (or (TO_VT_BIT UNARY_OP) (TO_VT_BIT SIGIL_OP))"

definition OPERATOR_CHARS :: "code list" where
  "OPERATOR_CHARS = codes [CHR ''$'', CHR ''^'', CHR ''*'', CHR ''%'', CHR 0x5C, CHR ''/'', CHR ''+'', CHR ''-'',
     CHR ''~'', CHR ''|'', CHR ''&'', CHR ''.'', CHR ''='', CHR ''<'', CHR ''>'', CHR ''!'', CHR '':'', CHR ''?'', CHR ''@'']"

definition UNICODE_OPERATOR_CHARS :: "code list" where
  "UNICODE_OPERATOR_CHARS = [0x2219, 0x2218, 0xD7, 0x2605, 0x2297, 0x2298, 0x2299, 0x229B, 0x22A0, 0x22A1,
     0x2229, 0x2227, 0x2293, 0xB1, 0x2295, 0x2296, 0x229E, 0x229F, 0x222A, 0x2228, 0x2294]"

definition is_operator :: "code \<Rightarrow> bool" where
  "is_operator character \<longleftrightarrow> character \<in> set OPERATOR_CHARS \<or>
     (character > 255 \<and> character \<in> set UNICODE_OPERATOR_CHARS)"

datatype operator_scan_state = OS_REGULAR | OS_COLON | OS_COLON_COLON | OS_DOT | OS_EQUAL | OS_MINUS | OS_STAR

partial_function (option) operator_loop ::
  "'l lexer_api \<Rightarrow> operator_scan_state \<Rightarrow> 'l lex_context \<Rightarrow> (operator_scan_state \<times> 'l lex_context) option" where
  "operator_loop A st ctx =
     (if \<not> is_operator (context_lookahead A ctx) then Some (st, ctx)
      else if st = OS_STAR
      then if context_lookahead A ctx = ch CHR '':'' then Some (st, ctx) else operator_loop A OS_REGULAR ctx
      else if st = OS_COLON
      then if context_lookahead A ctx = ch CHR '':''
           then operator_loop A OS_COLON_COLON (context_advance A ctx False)
           else operator_loop A OS_REGULAR ctx
      else operator_loop A OS_REGULAR (context_advance A ctx False))"

text \<open>\<open>None\<close> inside the result is \<^verbatim>\<open>TOKEN_TYPE_LEN\<close>.\<close>

definition scan_operator :: "'l lexer_api \<Rightarrow> 'l lex_context \<Rightarrow> bool \<Rightarrow> (token_type option \<times> 'l lex_context) option" where
  "scan_operator A ctx immediate =
     (let first = context_lookahead A ctx; ctx1 = context_advance A ctx False
      in if immediate then Some (None, ctx)
         else if \<not> is_operator first then Some (None, ctx)
         else do {
           (st, ctx2) \<leftarrow>
             (if first = ch CHR ''.'' then operator_loop A OS_DOT ctx1
              else if first = ch CHR ''='' then operator_loop A OS_EQUAL ctx1
              else if first = ch CHR '':'' then operator_loop A OS_COLON ctx1
              else if first = ch CHR ''-'' then operator_loop A OS_MINUS ctx1
              else if first = ch CHR ''*'' then operator_loop A OS_STAR ctx1
              else operator_loop A OS_REGULAR ctx);
           let c = context_lookahead A ctx2;
           Some (if st \<in> {OS_EQUAL, OS_COLON, OS_COLON_COLON, OS_DOT} then (None, ctx2)
                 else if st = OS_MINUS \<and> is_digit c then (None, ctx2)
                 else if st = OS_STAR \<and> valid_tokens_test (valid_tokens ctx2) WANT_EXPORT_MARKER then (None, ctx2)
                 else if c = 32 \<or> c = 10 \<or> c = 13 then (None, ctx2)
                 else (Some UNARY_OP, ctx2))
         })"

definition lex_operators :: "'l lexer_api \<Rightarrow> (int \<Rightarrow> bool) \<Rightarrow> bool \<Rightarrow> 'l lex_fn" where
  "lex_operators A alloc immediate ctx =
     (if \<not> valid_tokens_any_valid (valid_tokens ctx) UNARY_OPS then Some (False, ctx)
      else do {
        let first_character = context_lookahead A ctx;
        (result, ctx1) \<leftarrow> scan_operator A ctx immediate;
        if result = None
        then if first_character = ch CHR ''.'' then TRY_LEX (lex_inline_layout A alloc) ctx1 (\<lambda>c. Some (False, c))
             else Some (False, ctx1)
        else let t = (if first_character = ch CHR ''@'' then SIGIL_OP else UNARY_OP)
             in Some (if \<not> valid_tokens_test (valid_tokens ctx1) t then (False, ctx1)
                      else context_finish (context_mark_end A ctx1) t)
      })"

subsection \<open>The entry points\<close>

definition lex_main :: "'l lexer_api \<Rightarrow> (int \<Rightarrow> bool) \<Rightarrow> 'l lex_fn" where
  "lex_main A alloc ctx =
     TRY_LEX (lex_init A alloc) ctx (\<lambda>c1.
     TRY_LEX (lex_comment_content A) c1 (\<lambda>c2.
     TRY_LEX (lex_long_string_quote A) c2 (\<lambda>c3. do {
       (spaces, c4) \<leftarrow> scan_spaces A c3 False;
       TRY_LEX (lex_indent A alloc) c4 (\<lambda>c5.
       TRY_LEX (lex_operators A alloc (spaces = 0)) c5 (\<lambda>c6.
       TRY_LEX (lex_inline_layout A alloc) c6 (\<lambda>c7. Some (False, c7))))
     })))"


text \<open>
  The entry points take the payload pointer; \<open>None\<close> is the null pointer that \<^verbatim>\<open>create\<close> gives when
  the allocation of the state fails.
\<close>

definition nim_create :: "(int \<Rightarrow> bool) \<Rightarrow> nim_state option" where
  "nim_create alloc = state_new alloc"

definition nim_destroy :: "nim_state option \<Rightarrow> nim_state option" where
  "nim_destroy payload = map_option (\<lambda>s. s\<lparr>layout_stack := indent_vec_destroy (layout_stack s)\<rparr>) payload"

definition nim_serialize :: "nim_state option \<Rightarrow> byte list option" where
  "nim_serialize payload =
     (case payload of None \<Rightarrow> Some [] | Some s \<Rightarrow> state_serialize s TREE_SITTER_SERIALIZATION_BUFFER_SIZE)"

definition nim_deserialize :: "(int \<Rightarrow> bool) \<Rightarrow> nim_state option \<Rightarrow> byte list \<Rightarrow> nim_state option option" where
  "nim_deserialize alloc payload buffer =
     (case payload of None \<Rightarrow> Some None | Some s \<Rightarrow> map_option Some (state_deserialize alloc s buffer))"

definition nim_scan ::
  "'l lexer_api \<Rightarrow> (int \<Rightarrow> bool) \<Rightarrow> nim_state option \<Rightarrow> ('l, token_type) tslexer \<Rightarrow> (token_type \<Rightarrow> bool) \<Rightarrow>
     (bool \<times> ('l, token_type) tslexer \<times> nim_state option) option" where
  "nim_scan A alloc payload lx valid =
     (case payload of
        None \<Rightarrow> Some (False, lx, None)
      | Some s \<Rightarrow> do {
          let ctx = \<lparr>lexer = lx, state = s, advance_counter = 0,
            valid_tokens = valid_tokens_from_array valid, current_indent = 0, after_newline = False\<rparr>;
          (found, ctx') \<leftarrow> lex_main A alloc (context_mark_end A ctx);
          Some (found, lexer ctx', Some (state ctx'))
        })"

subsection \<open>The indent vector is a stack\<close>

definition vec_ok :: "indent_vec \<Rightarrow> bool" where
  "vec_ok v \<longleftrightarrow> 0 \<le> len v \<and> len v \<le> cap v \<and> length (data v) = nat (cap v) \<and>
     None \<notin> set (take (nat (len v)) (data v))"

definition vec_list :: "indent_vec \<Rightarrow> indent_value list" where
  "vec_list v = map the (take (nat (len v)) (data v))"

lemma length_vec_list [simp]: "vec_ok v \<Longrightarrow> length (vec_list v) = nat (len v)"
  by (auto simp: vec_ok_def vec_list_def)

lemma vec_len: "vec_ok v \<Longrightarrow> len v = int (length (vec_list v))"
  by (simp add: vec_ok_def)

lemma vec_cells: "vec_ok v \<Longrightarrow> take (nat (len v)) (data v) = map Some (vec_list v)"
proof -
  assume "vec_ok v"
  then have "None \<notin> set (take (nat (len v)) (data v))" by (simp add: vec_ok_def)
  moreover have "None \<notin> set xs \<Longrightarrow> xs = map Some (map the xs)" for xs :: "'a option list"
    by (induction xs) auto
  ultimately show ?thesis unfolding vec_list_def by blast
qed

lemma vec_okI:
  assumes "len v = int (length xs)" and "len v \<le> cap v" and "length (data v) = nat (cap v)"
    and "take (length xs) (data v) = map Some xs"
  shows "vec_ok v" and "vec_list v = xs"
  using assms by (auto simp: vec_ok_def vec_list_def)

lemma load_live: "vec_ok v \<Longrightarrow> i < nat (len v) \<Longrightarrow> load v i = Some (vec_list v ! i)"
proof -
  assume v: "vec_ok v" "i < nat (len v)"
  then have "data v ! i = take (nat (len v)) (data v) ! i" by simp
  also have "\<dots> = Some (vec_list v ! i)" using v by (simp add: vec_cells)
  finally show ?thesis using v by (auto simp: load_def vec_ok_def)
qed

text \<open>Invalidating cells from \<open>i\<close> on leaves the ones before alone.\<close>

lemma invalidate_ok:
  "0 \<le> i \<Longrightarrow> n \<le> cap v \<Longrightarrow> length (data v) = nat (cap v) \<Longrightarrow>
     \<exists>w. invalidate v i n = Some w \<and> len w = len v \<and> cap w = cap v \<and> length (data w) = length (data v) \<and>
       take (nat i) (data w) = take (nat i) (data v)"
proof (induction v i n rule: invalidate.induct)
  case (1 v i n)
  show ?case
  proof (cases "i < n")
    case True
    define w where "w = v\<lparr>data := (data v)[nat i := Some INVALID_INDENT_VALUE]\<rparr>"
    have p: "indent_vec_at_capacity v i = Some (nat i)" "store v (nat i) INVALID_INDENT_VALUE = Some w"
      using True 1(2-4) by (simp_all add: indent_vec_at_capacity_def store_def w_def)
    have "\<exists>u. invalidate w (i + 1) n = Some u \<and> len u = len w \<and> cap u = cap w \<and> length (data u) = length (data w) \<and>
        take (nat (i + 1)) (data u) = take (nat (i + 1)) (data w)"
      using 1(1) [OF True p] 1(2-4) by (simp add: w_def)
    then obtain u where u: "invalidate w (i + 1) n = Some u" "len u = len v" "cap u = cap v"
      "length (data u) = length (data v)" "take (nat (i + 1)) (data u) = take (nat (i + 1)) (data w)"
      by (auto simp: w_def)
    have "take (nat i) (data u) = take (nat i) (take (nat (i + 1)) (data u))" using 1(2) by (simp add: min_def)
    also have "\<dots> = take (nat i) (data v)" using 1(2) unfolding u(5) by (simp add: w_def min_def)
    finally show ?thesis using True p u by (simp add: invalidate.simps [of v i n])
  qed (simp add: invalidate.simps [of v i n])
qed

lemma set_capacity_ok:
  assumes "vec_ok v" and "len v \<le> n" and "alloc n \<or> n = cap v"
  shows "\<exists>w. indent_vec_set_capacity alloc v n = Some (True, w) \<and> vec_ok w \<and> vec_list w = vec_list v \<and>
    len w = len v \<and> cap w = n"
proof (cases "n = cap v")
  case True
  then show ?thesis using assms(1) by (auto simp: indent_vec_set_capacity_def vec_ok_def)
next
  case False
  have v: "0 \<le> len v" "len v \<le> cap v" "length (data v) = nat (cap v)" using assms(1) by (auto simp: vec_ok_def)
  define u where "u = v\<lparr>data := take (nat n) (data v) @ replicate (nat n - length (data v)) None, cap := n, len := len v\<rparr>"
  have u: "len u = len v" "cap u = n" "length (data u) = nat (cap u)"
    "take (nat (len v)) (data u) = take (nat (len v)) (data v)"
    using v assms(2) by (auto simp: u_def min_def)
  obtain w where w: "invalidate u (len v) n = Some w" "len w = len v" "cap w = n" "length (data w) = nat n"
    "take (nat (len v)) (data w) = take (nat (len v)) (data v)"
    using invalidate_ok [of "len v" n u] u v(1) by auto
  have "indent_vec_set_capacity alloc v n = Some (True, w)"
    using False assms(2,3) v(1) w(1) by (auto simp: indent_vec_set_capacity_def u_def min_def)
  moreover have "vec_ok w" "vec_list w = vec_list v"
    using w v(1) assms(2) vec_okI [of w "vec_list v"] vec_cells [OF assms(1)] vec_len [OF assms(1)] by auto
  ultimately show ?thesis using w by blast
qed

lemma set_capacity_fails:
  "0 \<le> n \<Longrightarrow> n \<noteq> cap v \<Longrightarrow> \<not> alloc n \<Longrightarrow> indent_vec_set_capacity alloc v n = Some (False, v)"
  by (simp add: indent_vec_set_capacity_def)

lemma shrink_ok:
  assumes "vec_ok v" and "n \<le> nat (len v)"
  shows "\<exists>w. indent_vec_set_len alloc v (int n) = Some (True, w) \<and> vec_ok w \<and> vec_list w = take n (vec_list v)"
proof -
  have v: "0 \<le> len v" "len v \<le> cap v" "length (data v) = nat (cap v)" using assms(1) by (auto simp: vec_ok_def)
  have n: "int n \<le> len v" using v(1) assms(2) by linarith
  then have "invalidate v (len v) (int n) = Some v" by (subst invalidate.simps) simp
  then have "indent_vec_set_len alloc v (int n) = Some (True, v\<lparr>len := int n\<rparr>)"
    using v n by (simp add: indent_vec_set_len_def)
  moreover have "take n (data v) = map Some (take n (vec_list v))"
    using vec_cells [OF assms(1)] assms(2) by (metis min_def take_map take_take)
  ultimately show ?thesis using vec_okI [of "v\<lparr>len := int n\<rparr>" "take n (vec_list v)"] v assms by auto
qed

lemma indent_vec_pop_ok:
  assumes "vec_ok v" and "vec_list v \<noteq> []"
  shows "\<exists>w. indent_vec_pop alloc v = Some w \<and> vec_ok w \<and> vec_list w = butlast (vec_list v)"
proof -
  have n: "max 0 (len v - 1) = int (length (vec_list v) - 1)" "length (vec_list v) - 1 \<le> nat (len v)"
    using assms vec_len [OF assms(1)] by (cases "vec_list v"; auto)+
  show ?thesis using shrink_ok [OF assms(1) n(2), of alloc] unfolding indent_vec_pop_def n(1)
    by (auto simp: butlast_conv_take)
qed

lemma indent_vec_back_ok:
  assumes "vec_ok v" and "vec_list v \<noteq> []"
  shows "indent_vec_back v = Some (last (vec_list v))"
proof -
  have "0 < length (vec_list v)" using assms(2) by simp
  then have l: "0 < len v" using assms(1) by simp
  then have "load v (nat (len v - 1)) = Some (vec_list v ! nat (len v - 1))"
    using assms(1) by (intro load_live) auto
  moreover have "nat (len v) - 1 = nat (len v - 1)" using l by linarith
  ultimately show ?thesis using l assms
    by (simp add: indent_vec_back_def indent_vec_get_def indent_vec_at_def last_conv_nth)
qed

text \<open>Storing into the first free cell appends.\<close>

lemma append_ok:
  assumes "vec_ok w" and "len w < cap w"
  shows "\<exists>p z. indent_vec_at (w\<lparr>len := len w + 1\<rparr>) (len w) = Some p \<and> store (w\<lparr>len := len w + 1\<rparr>) p x = Some z \<and>
    vec_ok z \<and> vec_list z = vec_list w @ [x]"
proof -
  define z where "z = w\<lparr>len := len w + 1, data := (data w)[nat (len w) := Some x]\<rparr>"
  have v: "0 \<le> len w" "length (data w) = nat (cap w)" using assms(1) by (auto simp: vec_ok_def)
  then have l: "nat (len w) < length (data w)" using assms(2) by simp
  have "take (Suc (nat (len w))) ((data w)[nat (len w) := Some x]) = map Some (vec_list w) @ [Some x]"
    using l by (simp add: vec_cells [OF assms(1)])
  then have "vec_ok z" "vec_list z = vec_list w @ [x]"
    using vec_okI [of z "vec_list w @ [x]"] v assms by (auto simp: z_def)
  moreover have "indent_vec_at (w\<lparr>len := len w + 1\<rparr>) (len w) = Some (nat (len w))"
    "store (w\<lparr>len := len w + 1\<rparr>) (nat (len w)) x = Some z"
    using l v by (simp_all add: indent_vec_at_def store_def z_def)
  ultimately show ?thesis by blast
qed

lemma push_room:
  assumes "vec_ok v" and "len v < cap v"
  shows "\<exists>w. indent_vec_push alloc v x = Some (True, w) \<and> vec_ok w \<and> vec_list w = vec_list v @ [x]"
  using append_ok [OF assms, of x] assms(2) by (auto simp: indent_vec_push_def)

definition next_capacity :: "int \<Rightarrow> int" where
  "next_capacity n = (if n \<ge> 2 then n * 3 div 2 else n + 1)"

lemma next_capacity: "0 \<le> n \<Longrightarrow> n < next_capacity n"
  by (auto simp: next_capacity_def)

lemma push_full:
  assumes "len v = cap v" and "len v < 2 ^ 29"
  shows "indent_vec_push alloc v x = do {
    (ok, self1) \<leftarrow> indent_vec_set_capacity alloc v (next_capacity (len v));
    if \<not> ok then Some (False, self1)
    else do {
      p \<leftarrow> indent_vec_at (self1\<lparr>len := len self1 + 1\<rparr>) (len (self1\<lparr>len := len self1 + 1\<rparr>) - 1);
      self3 \<leftarrow> store (self1\<lparr>len := len self1 + 1\<rparr>) p x;
      Some (True, self3)
    } }"
  using assms unfolding indent_vec_push_def Let_def by (simp add: next_capacity_def)

lemma indent_vec_push_ok:
  assumes "vec_ok v" and "len v < 2 ^ 29"
  shows "\<exists>ok w. indent_vec_push alloc v x = Some (ok, w) \<and> vec_ok w \<and>
    vec_list w = (if ok then vec_list v @ [x] else vec_list v) \<and> ((\<forall>n > 0. alloc n) \<longrightarrow> ok)"
proof -
  have v: "0 \<le> len v" "len v \<le> cap v" using assms(1) by (auto simp: vec_ok_def)
  note n = next_capacity [OF v(1)]
  consider "len v < cap v" | "len v = cap v" "alloc (next_capacity (len v))" | "len v = cap v" "\<not> alloc (next_capacity (len v))"
    using v(2) by linarith
  then show ?thesis
  proof cases
    case 1
    then show ?thesis using push_room [OF assms(1)] by auto
  next
    case 2
    obtain w where w: "indent_vec_set_capacity alloc v (next_capacity (len v)) = Some (True, w)" "vec_ok w"
      "vec_list w = vec_list v" "len w = len v" "cap w = next_capacity (len v)"
      using set_capacity_ok [OF assms(1), of "next_capacity (len v)" alloc] n 2(2) by auto
    then have "len w < cap w" using n by simp
    then obtain p z where "indent_vec_at (w\<lparr>len := len w + 1\<rparr>) (len w) = Some p"
      "store (w\<lparr>len := len w + 1\<rparr>) p x = Some z" "vec_ok z" "vec_list z = vec_list w @ [x]"
      using append_ok [OF w(2), of x] by blast
    then show ?thesis unfolding push_full [OF 2(1) assms(2)] using w(1,3)
      by (intro exI [of _ True] exI [of _ z]) simp
  next
    case 3
    then have "indent_vec_set_capacity alloc v (next_capacity (len v)) = Some (False, v)"
      using n v(1) by (intro set_capacity_fails) auto
    moreover have "0 < next_capacity (len v)" using n v(1) by simp
    ultimately show ?thesis using 3 assms(1) unfolding push_full [OF 3(1) assms(2)] by auto
  qed
qed

text \<open>
  A payload is well formed when its stack is a strictly increasing list of valid indentations, so
  it is at most 255 deep. \<open>layouts\<close> is all a scan can see of it.
\<close>

definition layouts :: "nim_state \<Rightarrow> indent_value list" where
  "layouts s = vec_list (layout_stack s)"

definition nim_ok :: "nim_state \<Rightarrow> bool" where
  "nim_ok s \<longleftrightarrow> vec_ok (layout_stack s) \<and> sorted_wrt (<) (layouts s) \<and> INVALID_INDENT_VALUE \<notin> set (layouts s)"

lemma nim_okD: "nim_ok s \<Longrightarrow> vec_ok (layout_stack s)"
  by (simp add: nim_ok_def)

lemma byte_less: "x \<noteq> (255 :: byte) \<Longrightarrow> unat x < 255"
proof -
  assume "x \<noteq> 255"
  then have "unat x \<noteq> unat (255 :: byte)" by (simp add: word_unat_eq_iff)
  moreover have "unat x < 2 ^ 8" by (rule order_less_le_trans [OF unsigned_less]) simp
  ultimately show ?thesis by simp
qed

lemma layouts_short: "nim_ok s \<Longrightarrow> length (layouts s) \<le> 255"
proof -
  assume s: "nim_ok s"
  then have "sorted_wrt (<) (map unat (layouts s))"
    by (auto simp: nim_ok_def sorted_wrt_map word_less_nat_alt elim: sorted_wrt_mono_rel [rotated])
  moreover have "\<forall>x \<in> set (map unat (layouts s)). x < 255"
  proof
    fix n assume "n \<in> set (map unat (layouts s))"
    then obtain x where "n = unat x" "x \<in> set (layouts s)" by auto
    then show "n < 255" using s byte_less [of x] by (auto simp: nim_ok_def)
  qed
  ultimately show ?thesis using strict_sorted_length_bound [of "map unat (layouts s)" 255] by simp
qed

lemma nim_len: "nim_ok s \<Longrightarrow> len (layout_stack s) = int (length (layouts s))"
  unfolding layouts_def by (rule vec_len [OF nim_okD])

text \<open>What a scan may do to the layouts, and the token it gives with it.\<close>

inductive layout_step :: "indent_value list \<Rightarrow> token_type option \<Rightarrow> indent_value list \<Rightarrow> bool" where
  sync_rule: "w \<noteq> INVALID_INDENT_VALUE \<Longrightarrow> layout_step [] (Some SYNCHRONIZE) [w]"
| open_rule: "xs \<noteq> [] \<Longrightarrow> last xs < w \<Longrightarrow> w \<noteq> INVALID_INDENT_VALUE \<Longrightarrow> layout_step xs (Some LAYOUT_START) (xs @ [w])"
| close_rule: "1 < length xs \<Longrightarrow> layout_step xs (Some LAYOUT_END) (butlast xs)"
| stay_rule: "tok \<notin> {Some SYNCHRONIZE, Some LAYOUT_START, Some LAYOUT_END} \<Longrightarrow> layout_step xs tok xs"

inductive_cases layout_stepE: "layout_step xs tok ys"

inductive_simps layout_step_start [simp]: "layout_step xs (Some LAYOUT_START) ys"
inductive_simps layout_step_end [simp]: "layout_step xs (Some LAYOUT_END) ys"
inductive_simps layout_step_none [simp]: "layout_step xs None ys"

definition increasing :: "indent_value list \<Rightarrow> bool" where
  "increasing xs \<longleftrightarrow> sorted_wrt (<) xs \<and> INVALID_INDENT_VALUE \<notin> set xs"

lemma layout_step_increasing: "layout_step xs tok ys \<Longrightarrow> increasing xs \<Longrightarrow> increasing ys"
proof (induction rule: layout_step.induct)
  case (open_rule xs w)
  then show ?case by (cases xs rule: rev_cases) (auto simp: increasing_def sorted_wrt_append intro: less_trans)
next
  case (close_rule xs)
  then show ?case by (cases xs rule: rev_cases) (auto simp: increasing_def sorted_wrt_append)
qed (auto simp: increasing_def)

lemma nim_ok_increasing: "nim_ok s \<longleftrightarrow> vec_ok (layout_stack s) \<and> increasing (layouts s)"
  by (simp add: nim_ok_def increasing_def)

text \<open>
  A lexing function does well: it returns, keeps the tokens that are valid, changes the layouts
  only as the token it found says, and leaves them alone when it found none.
\<close>

definition nim_result :: "'l lex_context \<Rightarrow> bool \<times> 'l lex_context \<Rightarrow> bool" where
  "nim_result ctx = (\<lambda>(found, ctx'). nim_ok (state ctx') \<and> valid_tokens ctx' = valid_tokens ctx \<and>
     layout_step (layouts (state ctx)) (if found then Some (result_symbol (lexer ctx')) else None) (layouts (state ctx')))"

abbreviation nim_good :: "'l lex_context \<Rightarrow> (bool \<times> 'l lex_context) option \<Rightarrow> bool" where
  "nim_good ctx m \<equiv> gives (nim_result ctx) m"

lemma context_ops [simp]:
  "state (context_mark_end A ctx) = state ctx" "valid_tokens (context_mark_end A ctx) = valid_tokens ctx"
  "state (context_advance A ctx sk) = state ctx" "valid_tokens (context_advance A ctx sk) = valid_tokens ctx"
  "state (context_consume A ctx sk) = state ctx" "valid_tokens (context_consume A ctx sk) = valid_tokens ctx"
  "state (skip_underscore A ctx) = state ctx" "valid_tokens (skip_underscore A ctx) = valid_tokens ctx"
  "valid_tokens (set_layout ctx v) = valid_tokens ctx" "layout_stack (state (set_layout ctx v)) = v"
  by (simp_all add: context_mark_end_def context_advance_def context_consume_def skip_underscore_def set_layout_def Let_def)

lemma finish_simps [simp]:
  "fst (context_finish ctx t)" "state (snd (context_finish ctx t)) = state ctx"
  "valid_tokens (snd (context_finish ctx t)) = valid_tokens ctx"
  "result_symbol (lexer (snd (context_finish ctx t))) = t"
  by (simp_all add: context_finish_def)

lemma nim_result_not_found: "nim_ok (state c) \<Longrightarrow> state c = state ctx \<Longrightarrow> valid_tokens c = valid_tokens ctx \<Longrightarrow> nim_result ctx (False, c)"
  by (auto simp: nim_result_def)

lemma nim_result_staying:
  "nim_ok (state c) \<Longrightarrow> state c = state ctx \<Longrightarrow> valid_tokens c = valid_tokens ctx \<Longrightarrow>
     t \<notin> {SYNCHRONIZE, LAYOUT_START, LAYOUT_END} \<Longrightarrow> nim_result ctx (context_finish c t)"
  by (auto simp: nim_result_def context_finish_def intro: stay_rule)

lemmas nim_results = nim_result_not_found nim_result_staying

lemma TRY_LEX_good:
  assumes "nim_good ctx (fn ctx)"
    and "\<And>c. nim_ok (state c) \<Longrightarrow> layouts (state c) = layouts (state ctx) \<Longrightarrow> valid_tokens c = valid_tokens ctx \<Longrightarrow>
      nim_good c (go_on c)"
  shows "nim_good ctx (TRY_LEX fn ctx go_on)"
proof -
  obtain found c where c: "fn ctx = Some (found, c)" "nim_result ctx (found, c)"
    using assms(1) by (auto simp: gives_def)
  show ?thesis
  proof (cases "found \<or> advance_counter c \<noteq> advance_counter ctx")
    case True
    then show ?thesis using c by (auto simp: TRY_LEX_def nim_result_def)
  next
    case False
    then have "nim_good c (go_on c)" using assms(2) [of c] c(2) by (simp add: nim_result_def)
    then show ?thesis using False c by (auto simp: TRY_LEX_def nim_result_def gives_def)
  qed
qed

subsection \<open>Every lexing function does well\<close>

lemma layout_result:
  assumes "vec_ok v" and "nim_ok (state ctx)" and "layout_step (layouts (state ctx)) (Some t) (vec_list v)"
  shows "nim_result ctx (context_finish (set_layout ctx v) t)"
proof -
  have "layouts (state (set_layout ctx v)) = vec_list v" by (simp add: layouts_def)
  moreover have "increasing (vec_list v)"
    using layout_step_increasing [OF assms(3)] assms(2) by (simp add: nim_ok_increasing)
  ultimately show ?thesis using assms(1,3) by (simp add: nim_result_def context_finish_def nim_ok_increasing)
qed

lemma nim_result_kept:
  assumes "vec_ok v" and "nim_ok (state ctx)" and "vec_list v = layouts (state ctx)"
  shows "nim_result ctx (False, set_layout ctx v)"
  using assms by (simp add: nim_result_def nim_ok_def layouts_def)

lemma push_layout:
  assumes "nim_ok s"
  obtains ok v where "indent_vec_push alloc (layout_stack s) w = Some (ok, v)" "vec_ok v"
    "vec_list v = (if ok then layouts s @ [w] else layouts s)"
proof -
  have "len (layout_stack s) < 2 ^ 29" using nim_len [OF assms] layouts_short [OF assms] by simp
  then obtain ok v where "indent_vec_push alloc (layout_stack s) w = Some (ok, v)" "vec_ok v"
    "vec_list v = (if ok then vec_list (layout_stack s) @ [w] else vec_list (layout_stack s))"
    using indent_vec_push_ok [OF nim_okD [OF assms], of alloc w] by blast
  then show ?thesis by (intro that) (simp_all only: layouts_def)
qed

lemma pop_layout:
  assumes "nim_ok s" and "len (layout_stack s) > 1"
  obtains v where "indent_vec_pop alloc (layout_stack s) = Some v" "vec_ok v" "vec_list v = butlast (layouts s)"
    "1 < length (layouts s)"
proof -
  have l: "1 < length (layouts s)" using nim_len [OF assms(1)] assms(2) by simp
  then have "layouts s \<noteq> []" by auto
  then show ?thesis using indent_vec_pop_ok [OF nim_okD [OF assms(1)], of alloc] l that by (auto simp: layouts_def)
qed

lemma pop_good:
  assumes "nim_ok (state ctx)" and "len (layout_stack (state ctx)) > 1" and "state c = state ctx" and "valid_tokens c = valid_tokens ctx"
  shows "nim_good ctx (indent_vec_pop alloc (layout_stack (state ctx)) \<bind> (\<lambda>v. Some (context_finish (set_layout c v) LAYOUT_END)))"
proof -
  obtain v where v: "indent_vec_pop alloc (layout_stack (state ctx)) = Some v" "vec_ok v"
    "vec_list v = butlast (layouts (state ctx))" "1 < length (layouts (state ctx))"
    by (rule pop_layout [OF assms(1,2)])
  have "nim_result c (context_finish (set_layout c v) LAYOUT_END)"
    using v assms by (intro layout_result) simp_all
  then show ?thesis using v(1) assms(3,4) by (simp add: nim_result_def context_finish_def)
qed

lemma nim_result_trans:
  "nim_result c r \<Longrightarrow> layouts (state c) = layouts (state ctx) \<Longrightarrow> valid_tokens c = valid_tokens ctx \<Longrightarrow> nim_result ctx r"
  by (simp add: nim_result_def split: prod.splits)

lemma quote_loop_keeps [simp]:
  "state (snd (quote_loop A n ctx)) = state ctx" "valid_tokens (snd (quote_loop A n ctx)) = valid_tokens ctx"
proof -
  have "state (snd (quote_loop A n ctx)) = state ctx \<and> valid_tokens (snd (quote_loop A n ctx)) = valid_tokens ctx"
  proof (induction A n ctx rule: quote_loop.induct)
    case (1 A count ctx)
    show ?case
    proof (cases "context_lookahead A ctx = ch CHR 0x22 \<and> count < 3")
      case True
      then have "quote_loop A count ctx = quote_loop A (count + 1) (context_advance A ctx False)"
        by (simp add: quote_loop.simps [of A count ctx])
      then show ?thesis using 1 [OF True] by simp
    next
      case False
      then have "quote_loop A count ctx = (count, ctx)" by (simp only: quote_loop.simps [of A count ctx] if_False)
      then show ?thesis by simp
    qed
  qed
  then show "state (snd (quote_loop A n ctx)) = state ctx" "valid_tokens (snd (quote_loop A n ctx)) = valid_tokens ctx"
    by simp_all
qed

lemma lex_long_string_quote_good:
  assumes "nim_ok (state ctx)"
  shows "nim_good ctx (lex_long_string_quote A ctx)"
proof -
  obtain n c where c: "quote_loop A 1 (context_consume A ctx False) = (n, c)" by fastforce
  then have "state c = state ctx" "valid_tokens c = valid_tokens ctx"
    using quote_loop_keeps [of A 1 "context_consume A ctx False"] by simp_all
  then show ?thesis using assms c by (simp add: lex_long_string_quote_def nim_results)
qed

lemma next_all_keeps [simp]:
  "state (snd (next_all_then_end A cs ctx)) = state ctx" "valid_tokens (snd (next_all_then_end A cs ctx)) = valid_tokens ctx"
  by (induction cs arbitrary: ctx) (simp_all add: next_all_then_end.simps Let_def)

lemma continuing_keeps [simp]:
  "state (snd (scan_continuing_keyword A d ctx)) = state ctx"
  "valid_tokens (snd (scan_continuing_keyword A d ctx)) = valid_tokens ctx"
  by (simp_all add: scan_continuing_keyword_def finally_or_do_def Let_def)

lemma lex_case_of_keeps [simp]:
  "state (snd (lex_case_of A ctx)) = state ctx" "valid_tokens (snd (lex_case_of A ctx)) = valid_tokens ctx"
  by (simp_all add: lex_case_of_def Let_def)

lemma lex_case_of_symbol: "fst (lex_case_of A ctx) \<Longrightarrow> result_symbol (lexer (snd (lex_case_of A ctx))) = OF"
  by (auto simp: lex_case_of_def Let_def split: if_splits)

lemma nim_result_of: "nim_ok (state c) \<Longrightarrow> state c = state ctx \<Longrightarrow> valid_tokens c = valid_tokens ctx \<Longrightarrow> nim_result ctx (lex_case_of A c)"
  using lex_case_of_keeps [of A c] lex_case_of_symbol [of A c]
  by (cases "lex_case_of A c") (auto simp: nim_result_def intro!: stay_rule)

lemma push_good:
  assumes "nim_ok (state ctx)" and "layout_step (layouts (state ctx)) (Some t) (layouts (state ctx) @ [w])"
    and "state c = state ctx" and "valid_tokens c = valid_tokens ctx"
  shows "nim_good ctx (indent_vec_push alloc (layout_stack (state ctx)) w \<bind>
    (\<lambda>(ok, v). Some (if ok then context_finish (set_layout c v) t else (False, set_layout c v))))"
proof -
  obtain ok v where v: "indent_vec_push alloc (layout_stack (state ctx)) w = Some (ok, v)" "vec_ok v"
    "vec_list v = (if ok then layouts (state ctx) @ [w] else layouts (state ctx))"
    by (rule push_layout [OF assms(1)])
  have "nim_result c (if ok then context_finish (set_layout c v) t else (False, set_layout c v))"
    using v assms by (cases ok) (simp_all add: layout_result nim_result_kept)
  then show ?thesis using v(1) assms(3,4) by (simp add: nim_result_def)
qed

lemma layouts_empty: "nim_ok s \<Longrightarrow> len (layout_stack s) \<le> 0 \<longleftrightarrow> layouts s = []"
  by (simp add: nim_len)

lemma layout_back: "nim_ok s \<Longrightarrow> layouts s \<noteq> [] \<Longrightarrow> indent_vec_back (layout_stack s) = Some (last (layouts s))"
  unfolding layouts_def by (rule indent_vec_back_ok [OF nim_okD])

lemma lex_inline_end_good:
  assumes "nim_ok (state c)" and "state c = state ctx" and "valid_tokens c = valid_tokens ctx"
  shows "nim_good ctx (lex_inline_end alloc c)"
  using pop_good [of ctx c alloc] assms by (auto simp: lex_inline_end_def intro: nim_results)

lemma lex_inline_layout_good:
  assumes "nim_ok (state ctx)"
  shows "nim_good ctx (lex_inline_layout A alloc ctx)"
proof -
  obtain cont c where c: "scan_continuing_keyword A False ctx = (cont, c)" by fastforce
  then have k: "state c = state ctx" "valid_tokens c = valid_tokens ctx"
    using continuing_keeps [of A False ctx] by simp_all
  show ?thesis using assms k
    by (simp add: lex_inline_layout_def c Let_def lex_inline_end_good nim_result_not_found)
qed

lemma lex_case_of_good:
  assumes "nim_ok (state ctx)"
  shows "nim_good ctx (TRY_LEX (\<lambda>c. Some (lex_case_of A c)) ctx (\<lambda>c. Some (False, c)))"
  by (rule TRY_LEX_good) (simp_all add: nim_result_of assms nim_result_not_found)

lemma lex_layout_end_good:
  assumes "nim_ok (state ctx)"
  shows "nim_good ctx (lex_layout_end A alloc cur layout ctx)"
  using pop_good [of ctx ctx alloc] lex_case_of_good [OF assms] assms by (simp add: lex_layout_end_def)

lemma lex_layout_terminator_good:
  assumes "nim_ok (state ctx)"
  shows "nim_result ctx (lex_layout_terminator A cur layout ctx)"
proof -
  define r where "r = (if valid_tokens_test (valid_tokens ctx) INHIBIT_KEYWORD_TERMINATION
                  then scan_continuing_keyword A True ctx else (False, ctx))"
  obtain cont c where c: "r = (cont, c)" by fastforce
  have "state (snd r) = state ctx" "valid_tokens (snd r) = valid_tokens ctx" by (simp_all add: r_def)
  then have k: "state c = state ctx" "valid_tokens c = valid_tokens ctx" using c by simp_all
  obtain found d where d: "lex_case_of A c = (found, d)" by fastforce
  have o: "nim_result ctx (found, d)" using nim_result_of [of c ctx A] assms k d by simp
  have kd: "state d = state ctx" "valid_tokens d = valid_tokens ctx" using lex_case_of_keeps [of A c] d k by simp_all
  show ?thesis unfolding lex_layout_terminator_def r_def [symmetric] c
    using assms k d o kd by (cases found) (simp_all add: nim_results)
qed

lemma lex_layout_keep_good:
  assumes "nim_ok (state ctx)"
  shows "nim_good ctx (lex_layout_keep A alloc cur layout ctx)"
  using lex_layout_terminator_good [OF assms] lex_layout_end_good [OF assms] assms
  by (simp add: lex_layout_keep_def nim_results)

lemma lex_indent_good:
  assumes "nim_ok (state ctx)"
  shows "nim_good ctx (lex_indent A alloc ctx)"
proof (cases "len (layout_stack (state ctx)) = 0")
  case True
  then show ?thesis using assms by (simp add: lex_indent_def nim_results)
next
  case False
  then have "layouts (state ctx) \<noteq> []" using nim_len [OF assms] by auto
  moreover from this have "indent_vec_back (layout_stack (state ctx)) = Some (last (layouts (state ctx)))"
    by (rule layout_back [OF assms])
  ultimately show ?thesis using False assms push_good [of ctx LAYOUT_START _ ctx alloc]
    by (simp add: lex_indent_def Let_def nim_results lex_layout_keep_good)
qed


text \<open>The loops stop at the end of the input at the latest.\<close>

definition kept :: "'l lex_context \<Rightarrow> 'l lex_context \<Rightarrow> bool" where
  "kept ctx c \<longleftrightarrow> state c = state ctx \<and> valid_tokens c = valid_tokens ctx"

lemma kept_advance [simp]: "kept (context_advance A ctx sk) = kept ctx"
  by (rule ext) (simp add: kept_def)

lemma kept_refl [simp]: "kept ctx ctx"
  by (simp add: kept_def)

lemma kept_mark [simp]: "kept (context_mark_end A ctx) = kept ctx" "kept ctx (context_mark_end A c) = kept ctx c"
  by (auto simp add: kept_def)

lemma not_operator_0 [simp]: "\<not> is_operator 0"
  by (simp add: is_operator_def OPERATOR_CHARS_def)

context ts_lexer
begin

abbreviation left :: "'l lex_context \<Rightarrow> nat" where
  "left ctx \<equiv> length (todo (vw (lexer ctx)))"

lemma context_view [simp]:
  "vw (lexer (context_advance A ctx sk)) = v_advance (vw (lexer ctx))"
  "vw (lexer (context_mark_end A ctx)) = v_mark (vw (lexer ctx))"
  "context_eof A ctx \<longleftrightarrow> todo (vw (lexer ctx)) = []"
  "context_lookahead A ctx = peek (todo (vw (lexer ctx)))"
  by (simp_all add: context_advance_def context_mark_end_def context_eof_def context_lookahead_def Let_def)

lemma spaces_loop_kept:
  "gives (\<lambda>(_, _, _, c). kept ctx c) (spaces_loop A update_indent indent spaces ctx)"
proof (induction "left ctx" arbitrary: update_indent indent spaces ctx rule: less_induct)
  case less
  show ?case
  proof (cases "todo (vw (lexer ctx))")
    case Nil
    then show ?thesis by (subst spaces_loop.simps) simp
  next
    case (Cons c cs)
    then have "left (context_advance A ctx True) < left ctx" by simp
    then show ?thesis using less [of "context_advance A ctx True"] Cons
      by (subst spaces_loop.simps) (simp add: Let_def)
  qed
qed

lemma scan_spaces_kept: "gives (\<lambda>(_, c). kept ctx c) (scan_spaces A ctx force)"
  unfolding scan_spaces_def
  by (rule gives_bind, rule gives_mono [OF spaces_loop_kept]) (auto simp: kept_def)

lemma short_comment_kept: "gives (kept ctx) (short_comment_loop A ctx)"
proof (induction "left ctx" arbitrary: ctx rule: less_induct)
  case less
  show ?case
  proof (cases "todo (vw (lexer ctx))")
    case Nil
    then show ?thesis by (subst short_comment_loop.simps) simp
  next
    case (Cons c cs)
    then have "left (context_advance A ctx False) < left ctx" by simp
    then show ?thesis using less [of "context_advance A ctx False"] Cons
      by (subst short_comment_loop.simps) simp
  qed
qed

lemma operator_loop_kept: "gives (\<lambda>(_, c). kept ctx c) (operator_loop A st ctx)"
proof (induction "2 * left ctx + of_bool (st \<in> {OS_STAR, OS_COLON})" arbitrary: st ctx rule: less_induct)
  case less
  show ?case
  proof (cases "todo (vw (lexer ctx))")
    case Nil
    then show ?thesis by (subst operator_loop.simps) simp
  next
    case (Cons c cs)
    then have "left (context_advance A ctx False) + 1 = left ctx" by simp
    then show ?thesis
      using less [of "context_advance A ctx False" OS_REGULAR] less [of "context_advance A ctx False" OS_COLON_COLON]
        less [of ctx OS_REGULAR] Cons
      by (subst operator_loop.simps) simp
  qed
qed

lemma block_comment_good:
  "nim_ok (state ctx) \<Longrightarrow> nim_good ctx (block_comment_loop A n ctx)"
proof (induction "left ctx" arbitrary: n ctx rule: less_induct)
  case less
  define hash where "hash = (context_lookahead A ctx = ch CHR ''#'')"
  define c1 where "c1 = (if hash then context_advance A ctx False else ctx)"
  define c2 where "c2 = context_mark_end A c1"
  define m where "m = (if hash \<and> context_lookahead A c1 = ch CHR ''['' then u32 (n + 1) else n)"
  have k: "state c2 = state ctx" "valid_tokens c2 = valid_tokens ctx" by (simp_all add: c2_def c1_def)
  have IH: "nim_good ctx (block_comment_loop A j c)"
    if "left c < left ctx" "state c = state ctx" "valid_tokens c = valid_tokens ctx" for j c
    using less(1) [of c j] that less(2) by (simp add: nim_result_def)
  show ?case
  proof (cases "todo (vw (lexer ctx))")
    case Nil
    then show ?thesis using less(2) by (subst block_comment_loop.simps) (simp add: nim_results)
  next
    case (Cons x xs)
    have l: "left c2 \<le> left ctx" "hash \<Longrightarrow> left c2 < left ctx" using Cons by (simp_all add: c2_def c1_def)
    have adv: "left (context_advance A c2 False) < left ctx" using l Cons by (cases hash) (simp_all add: c2_def c1_def)
    have adv2: "left (context_advance A (context_advance A c2 False) False) < left ctx" using adv by simp
    have e: "block_comment_loop A n ctx =
      (if context_lookahead A c2 = ch CHR '']''
       then if context_lookahead A (context_advance A c2 False) = ch CHR ''#''
            then if m > 0 then block_comment_loop A (m - 1) (context_advance A c2 False)
                 else if valid_tokens_test (valid_tokens (context_advance A c2 False)) BLOCK_DOC_COMMENT_CONTENT
                 then if context_lookahead A (context_advance A (context_advance A c2 False) False) = ch CHR ''#''
                      then Some (context_finish (context_advance A (context_advance A c2 False) False) BLOCK_DOC_COMMENT_CONTENT)
                      else block_comment_loop A m (context_advance A (context_advance A c2 False) False)
                 else Some (context_finish (context_advance A c2 False) BLOCK_COMMENT_CONTENT)
            else block_comment_loop A m (context_advance A c2 False)
       else block_comment_loop A m (context_advance A c2 False))"
      unfolding block_comment_loop.simps [of A n ctx] Let_def hash_def [symmetric] c1_def [symmetric] m_def [symmetric]
        c2_def [symmetric]
      using Cons by simp
    show ?thesis unfolding e using adv adv2 k less(2) by (simp add: IH nim_results del: context_view)
  qed
qed

lemma lex_comment_content_good:
  assumes "nim_ok (state ctx)"
  shows "nim_good ctx (lex_comment_content A ctx)"
proof -
  obtain c where c: "short_comment_loop A ctx = Some c" "state c = state ctx" "valid_tokens c = valid_tokens ctx"
    using short_comment_kept [of ctx] by (auto simp: gives_def kept_def)
  show ?thesis using assms c block_comment_good [OF assms]
    by (simp add: lex_comment_content_def nim_results)
qed

lemma lex_init_good:
  assumes "nim_ok (state ctx)"
  shows "nim_good ctx (lex_init A alloc ctx)"
proof (cases "len (layout_stack (state ctx)) > 0")
  case True
  then show ?thesis using assms by (simp add: lex_init_def nim_results)
next
  case False
  then have e: "layouts (state ctx) = []" using nim_len [OF assms] by simp
  obtain n c where c: "scan_spaces A ctx True = Some (n, c)" "state c = state ctx" "valid_tokens c = valid_tokens ctx"
    using scan_spaces_kept [of ctx True] by (auto simp: gives_def kept_def)
  show ?thesis using assms c e push_good [of ctx SYNCHRONIZE "context_indent c" c alloc] sync_rule [of "context_indent c"]
    by (simp add: lex_init_def nim_results)
qed

lemma scan_operator_kept: "gives (\<lambda>(_, c). kept ctx c) (scan_operator A ctx imm)"
proof -
  have "gives (\<lambda>(_, c). kept ctx c) (operator_loop A st (context_advance A ctx False))"
    "gives (\<lambda>(_, c). kept ctx c) (operator_loop A st ctx)" for st
    using operator_loop_kept [of "context_advance A ctx False" st] operator_loop_kept [of ctx st] by simp_all
  then show ?thesis unfolding scan_operator_def Let_def
    by (auto intro!: gives_bind_prod [where Q = "\<lambda>(_, c). kept ctx c"])
qed

lemma lex_operators_good:
  assumes "nim_ok (state ctx)"
  shows "nim_good ctx (lex_operators A alloc imm ctx)"
proof -
  obtain r c where c: "scan_operator A ctx imm = Some (r, c)" "state c = state ctx" "valid_tokens c = valid_tokens ctx"
    using scan_operator_kept [of ctx imm] by (auto simp: gives_def kept_def)
  have "nim_good c (TRY_LEX (lex_inline_layout A alloc) c (\<lambda>c. Some (False, c)))"
    using assms c by (intro TRY_LEX_good lex_inline_layout_good) (simp_all add: nim_result_not_found)
  then have "nim_good ctx (TRY_LEX (lex_inline_layout A alloc) c (\<lambda>c. Some (False, c)))"
    using c by (simp add: nim_result_def)
  then show ?thesis using assms c by (simp add: lex_operators_def Let_def nim_results)
qed

lemma lex_main_good:
  assumes "nim_ok (state ctx)"
  shows "nim_good ctx (lex_main A alloc ctx)"
proof -
  have tail: "nim_good c (TRY_LEX (lex_inline_layout A alloc) c (\<lambda>c7. Some (False, c7)))" if "nim_ok (state c)" for c
    using that by (intro TRY_LEX_good lex_inline_layout_good) (simp_all add: nim_result_not_found)
  have mid: "nim_good c3 (scan_spaces A c3 False \<bind> (\<lambda>(spaces, c4).
       TRY_LEX (lex_indent A alloc) c4 (\<lambda>c5.
       TRY_LEX (lex_operators A alloc (spaces = 0)) c5 (\<lambda>c6.
       TRY_LEX (lex_inline_layout A alloc) c6 (\<lambda>c7. Some (False, c7))))))" if "nim_ok (state c3)" for c3
  proof -
    obtain n c where c: "scan_spaces A c3 False = Some (n, c)" "state c = state c3" "valid_tokens c = valid_tokens c3"
      using scan_spaces_kept [of c3 False] by (auto simp: gives_def kept_def)
    have "nim_good c (TRY_LEX (lex_indent A alloc) c (\<lambda>c5. TRY_LEX (lex_operators A alloc (n = 0)) c5 (\<lambda>c6.
       TRY_LEX (lex_inline_layout A alloc) c6 (\<lambda>c7. Some (False, c7)))))"
      using that c by (intro TRY_LEX_good tail lex_indent_good lex_operators_good) simp_all
    then show ?thesis using c by (simp add: nim_result_def)
  qed
  show ?thesis unfolding lex_main_def
    by (intro TRY_LEX_good lex_init_good lex_comment_content_good lex_long_string_quote_good mid) (rule assms | assumption)+
qed

end

end
