(* ===== verification/NimProperties.thy ===== *)
theory NimProperties
  imports NimScanner
begin

text \<open>
  What the Nim scanner guarantees: its layouts refine the abstract machine \<open>layout_step\<close>, they
  survive being saved and restored, open layouts are closed at the end of the input, block
  comments end where the nesting says, and the place where they do not.
\<close>

subsection \<open>Saving and restoring\<close>

lemma clear_eq: "vec_ok v \<Longrightarrow> indent_vec_set_len alloc v 0 = Some (True, v\<lparr>len := 0\<rparr>)"
  by (auto simp: indent_vec_set_len_def vec_ok_def invalidate.simps)

lemma grow_ok:
  assumes "vec_ok v" and "len v = 0" and "0 \<le> n"
  shows "\<exists>w. indent_vec_set_len alloc v n = Some (n \<le> cap v \<or> alloc n, w) \<and>
    (if n \<le> cap v \<or> alloc n then len w = n \<and> n \<le> cap w \<and> length (data w) = nat (cap w) else w = v)"
proof -
  define m where "m = (if n > cap v then indent_vec_set_capacity alloc v n else Some (True, v))"
  show ?thesis
  proof (cases "n \<le> cap v \<or> alloc n")
    case True
    then obtain w where w: "m = Some (True, w)" "vec_ok w" "len w = 0" "n \<le> cap w"
    proof (cases "n > cap v")
      case True
      then obtain w where "indent_vec_set_capacity alloc v n = Some (True, w)" "vec_ok w" "len w = len v" "cap w = n"
        using set_capacity_ok [OF assms(1), of n alloc] assms \<open>n \<le> cap v \<or> alloc n\<close> by auto
      then show ?thesis using True assms that [of w] by (simp add: m_def)
    next
      case False
      then show ?thesis using assms that [of v] by (simp add: m_def)
    qed
    then obtain u where u: "invalidate w 0 n = Some u" "cap u = cap w" "length (data u) = nat (cap w)"
      using invalidate_ok [of 0 n w] by (auto simp: vec_ok_def)
    then have "indent_vec_set_len alloc v n = Some (True, u\<lparr>len := n\<rparr>)"
      using w assms(3) unfolding indent_vec_set_len_def m_def [symmetric] by simp
    then show ?thesis using True w u by auto
  next
    case False
    then have "m = Some (False, v)" using set_capacity_fails [of n v alloc] assms by (auto simp: m_def)
    then show ?thesis using False assms(3) unfolding indent_vec_set_len_def m_def [symmetric] by simp
  qed
qed

lemma indent_vec_deserialize_ok:
  assumes "vec_ok v" and "len v = 0" and "length bs < 2 ^ 31"
  shows "\<exists>w. indent_vec_deserialize alloc v bs = Some w \<and> vec_ok w \<and>
    vec_list w = (if int (length bs) \<le> cap v \<or> alloc (int (length bs)) then bs else [])"
proof -
  have n: "min (int (length bs)) (2 ^ 31 - 1) = int (length bs)" using assms(3) by simp
  define fits where "fits \<longleftrightarrow> int (length bs) \<le> cap v \<or> alloc (int (length bs))"
  obtain w where w: "indent_vec_set_len alloc v (int (length bs)) = Some (fits, w)"
    "if fits then len w = int (length bs) \<and> int (length bs) \<le> cap w \<and> length (data w) = nat (cap w) else w = v"
    using grow_ok [OF assms(1,2), of "int (length bs)" alloc] by (auto simp: fits_def)
  define u where "u = w\<lparr>data := map Some bs @ drop (length bs) (data w)\<rparr>"
  show ?thesis
  proof (cases fits)
    case False
    moreover have "vec_list v = []" using assms(2) by (simp add: vec_list_def)
    ultimately show ?thesis using w assms(1) unfolding indent_vec_deserialize_def n fits_def [symmetric] by simp
  next
    case True
    then have l: "length bs \<le> length (data w)" using w(2) by (metis nat_int nat_mono)
    then have "vec_ok u" "vec_list u = bs" using w(2) True vec_okI [of u bs] by (auto simp: u_def)
    moreover have "indent_vec_deserialize alloc v bs = Some u"
      using w True l unfolding indent_vec_deserialize_def n Let_def by (cases "bs = []") (simp_all add: u_def)
    ultimately show ?thesis unfolding fits_def [symmetric] using True by simp
  qed
qed

lemma state_deserialize_ok:
  assumes "nim_ok t" and "increasing bs" and "length bs < 2 ^ 31"
  shows "\<exists>u. state_deserialize alloc t bs = Some u \<and> nim_ok u \<and>
    layouts u = (if int (length bs) \<le> cap (layout_stack t) \<or> alloc (int (length bs)) then bs else [])"
proof -
  have v: "vec_ok ((layout_stack t)\<lparr>len := 0\<rparr>)" using nim_okD [OF assms(1)] by (auto simp: vec_ok_def)
  obtain w where w: "indent_vec_deserialize alloc ((layout_stack t)\<lparr>len := 0\<rparr>) bs = Some w" "vec_ok w"
    "vec_list w = (if int (length bs) \<le> cap (layout_stack t) \<or> alloc (int (length bs)) then bs else [])"
    using indent_vec_deserialize_ok [OF v _ assms(3), of alloc] by auto
  moreover have "increasing []" by (simp add: increasing_def)
  ultimately show ?thesis using clear_eq [OF nim_okD [OF assms(1)], of alloc] assms(2)
    by (auto simp: state_deserialize_def state_clear_def nim_ok_increasing layouts_def)
qed

lemma state_serialize_ok:
  assumes "nim_ok s" and "length (layouts s) \<le> n"
  shows "state_serialize s n = Some (layouts s)"
proof -
  define v where "v = layout_stack s"
  have v: "vec_ok v" "layouts s = vec_list v" using nim_okD [OF assms(1)] by (simp_all add: v_def layouts_def)
  have "map (load v) [0..<nat (len v)] = map Some (vec_list v)"
    using load_live [OF v(1)] v(1) by (intro nth_equalityI) simp_all
  moreover have "len v = 0 \<Longrightarrow> vec_list v = []" "0 \<le> len v" using v(1) by (simp_all add: vec_list_def vec_ok_def)
  moreover have "\<not> nat (len v) > n" using assms(2) v by simp
  ultimately show ?thesis unfolding v(2)
    by (simp add: state_serialize_def indent_vec_serialize_def v_def [symmetric] Let_def)
qed

lemma nim_serialize_ok: "nim_ok s \<Longrightarrow> nim_serialize (Some s) = Some (layouts s)"
  using state_serialize_ok [of s 1024] layouts_short [of s]
  by (simp add: nim_serialize_def TREE_SITTER_SERIALIZATION_BUFFER_SIZE_def)

definition nim_payload_ok :: "nim_state option \<Rightarrow> bool" where
  "nim_payload_ok p = (case p of None \<Rightarrow> False | Some s \<Rightarrow> nim_ok s)"

lemma nim_payload_ok: "nim_payload_ok p \<longleftrightarrow> (\<exists>s. p = Some s \<and> nim_ok s)"
  by (cases p) (simp_all add: nim_payload_ok_def)

interpretation nim: external_scanner nim_serialize "nim_deserialize (\<lambda>_. True)" "map_option layouts" nim_payload_ok
proof
  fix p q :: "nim_state option"
  assume "nim_payload_ok p"
  then obtain s where s: "p = Some s" "nim_ok s" by (auto simp: nim_payload_ok)
  then have ser: "nim_serialize p = Some (layouts s)" by (simp add: nim_serialize_ok)
  then show "\<exists>bs. nim_serialize p = Some bs \<and> length bs \<le> TREE_SITTER_SERIALIZATION_BUFFER_SIZE"
    using layouts_short [OF s(2)] by (simp add: TREE_SITTER_SERIALIZATION_BUFFER_SIZE_def)
  assume "nim_payload_ok q"
  then obtain t where t: "q = Some t" "nim_ok t" by (auto simp: nim_payload_ok)
  show "nim_serialize p = nim_serialize q" if "map_option layouts p = map_option layouts q"
    using that by (simp add: s t nim_serialize_ok [OF s(2)] nim_serialize_ok [OF t(2)])
  show "\<exists>u. nim_deserialize (\<lambda>_. True) q bs = Some u \<and> nim_payload_ok u \<and> map_option layouts u = map_option layouts p"
    if "nim_serialize p = Some bs" for bs
  proof -
    have bs: "bs = layouts s" "increasing bs" using that ser s by (simp_all add: nim_ok_increasing)
    then have "length bs < 2 ^ 31" using layouts_short [OF s(2)] by simp
    then obtain u where "state_deserialize (\<lambda>_. True) t bs = Some u" "nim_ok u" "layouts u = bs"
      using state_deserialize_ok [OF t(2) bs(2), of "\<lambda>_. True"] by auto
    then show ?thesis using s t bs by (simp add: nim_deserialize_def nim_payload_ok_def)
  qed
qed

text \<open>
  C27: saving a payload and restoring the bytes into another gives the same layouts and the same
  bytes again; when there is no memory for them the restored payload is empty, and still well formed.
\<close>

theorem nim_save_restore:
  assumes "nim_ok s" and "nim_ok t"
  shows "\<exists>bs u. nim_serialize (Some s) = Some bs \<and> length bs \<le> TREE_SITTER_SERIALIZATION_BUFFER_SIZE \<and>
    nim_deserialize alloc (Some t) bs = Some (Some u) \<and> nim_ok u \<and>
    layouts u = (if int (length bs) \<le> cap (layout_stack t) \<or> alloc (int (length bs)) then layouts s else []) \<and>
    ((\<forall>n. alloc n) \<longrightarrow> nim_serialize (Some u) = Some bs)"
proof -
  have inc: "increasing (layouts s)" using assms(1) by (simp add: nim_ok_increasing)
  have l: "length (layouts s) < 2 ^ 31" using layouts_short [OF assms(1)] by simp
  obtain u where u: "state_deserialize alloc t (layouts s) = Some u" "nim_ok u"
    "layouts u = (if int (length (layouts s)) \<le> cap (layout_stack t) \<or> alloc (int (length (layouts s))) then layouts s else [])"
    using state_deserialize_ok [OF assms(2) inc l, of alloc] by blast
  then have "(\<forall>n. alloc n) \<longrightarrow> nim_serialize (Some u) = Some (layouts s)" by (simp add: nim_serialize_ok)
  then show ?thesis using nim_serialize_ok [OF assms(1)] u layouts_short [OF assms(1)]
    by (intro exI [of _ "layouts s"] exI [of _ u])
      (simp add: nim_deserialize_def TREE_SITTER_SERIALIZATION_BUFFER_SIZE_def)
qed

definition nim_example :: "indent_value list \<Rightarrow> nim_state" where
  "nim_example xs = \<lparr>layout_stack = \<lparr>len = int (length xs), cap = int (length xs), data = map Some xs\<rparr>\<rparr>"

lemma nim_example [simp]: "layouts (nim_example xs) = xs" "nim_ok (nim_example xs) = increasing xs"
proof -
  have "vec_ok (layout_stack (nim_example xs))" by (auto simp: nim_example_def vec_ok_def)
  moreover show "layouts (nim_example xs) = xs" by (simp add: nim_example_def layouts_def vec_list_def)
  ultimately show "nim_ok (nim_example xs) = increasing xs" by (simp add: nim_ok_increasing)
qed

theorem nim_save_restore_witness:
  "\<exists>bs u. nim_serialize (Some (nim_example [0, 4])) = Some bs \<and> length bs \<le> TREE_SITTER_SERIALIZATION_BUFFER_SIZE \<and>
    nim_deserialize (\<lambda>n. n < 2) (Some (nim_example [0])) bs = Some (Some u) \<and> nim_ok u \<and> layouts u = []"
proof -
  have ok: "nim_ok (nim_example [0, 4])" "nim_ok (nim_example [0])" by (simp_all add: increasing_def)
  have c: "cap (layout_stack (nim_example [0])) = 1" by (simp add: nim_example_def)
  from nim_save_restore [OF ok, of "\<lambda>n. n < 2"] obtain bs u where
    "nim_serialize (Some (nim_example [0, 4])) = Some bs" "length bs \<le> TREE_SITTER_SERIALIZATION_BUFFER_SIZE"
    "nim_deserialize (\<lambda>n. n < 2) (Some (nim_example [0])) bs = Some (Some u)" "nim_ok u"
    "layouts u = (if int (length bs) \<le> 1 \<or> int (length bs) < 2 then [0, 4] else [])"
    unfolding c nim_example(1) by blast
  moreover have "nim_serialize (Some (nim_example [0, 4])) = Some [0, 4]" using nim_serialize_ok [OF ok(1)] by simp
  ultimately show ?thesis by auto
qed

text \<open>
  C24: whatever the text, the valid tokens and the allocator, a scan of a well-formed payload returns,
  leaves a well-formed payload (at most 255 strictly increasing layouts) and changes the layouts exactly as the
  abstract layout machine allows for the token it gives.
\<close>

theorem nim_scan_refines_layout_step:
  assumes "ts_lexer A view" and "nim_ok s"
  shows "\<exists>found lx' s'. nim_scan A alloc (Some s) lx valid = Some (found, lx', Some s') \<and> nim_ok s' \<and>
    length (layouts s') \<le> 255 \<and>
    layout_step (layouts s) (if found then Some (result_symbol lx') else None) (layouts s')"
proof -
  define ctx where "ctx = context_mark_end A \<lparr>lexer = lx, state = s, advance_counter = 0,
    valid_tokens = valid_tokens_from_array valid, current_indent = 0, after_newline = False\<rparr>"
  have s: "state ctx = s" by (simp add: ctx_def)
  obtain found ctx' where c: "lex_main A alloc ctx = Some (found, ctx')" "nim_result ctx (found, ctx')"
    using ts_lexer.lex_main_good [OF assms(1), of ctx alloc] assms(2) s by (auto simp: gives_def)
  then have "nim_scan A alloc (Some s) lx valid = Some (found, lexer ctx', Some (state ctx'))"
    by (simp add: nim_scan_def ctx_def [symmetric])
  then show ?thesis using c(2) s layouts_short [of "state ctx'"] by (auto simp: nim_result_def)
qed

theorem nim_scan_refines_layout_step_witness:
  "\<exists>found lx' s'. nim_scan list_api (\<lambda>_. True) (Some (nim_example [0, 2])) (lex_text (codes ''x'')) (\<lambda>t. t = LAYOUT_END) =
     Some (found, lx', Some s') \<and> nim_ok s' \<and> length (layouts s') \<le> 255 \<and>
     layout_step [0, 2] (if found then Some (result_symbol lx') else None) (layouts s')"
  using nim_scan_refines_layout_step [OF list_lexer.ts_lexer_axioms, of "nim_example [0, 2]"] by (simp add: increasing_def)

subsection \<open>The valid tokens\<close>

lemma token_code_inj: "token_code s = token_code t \<longleftrightarrow> s = t"
  by (cases s; cases t) simp_all

lemma token_code_less: "token_code t < 17"
  by (cases t) simp_all

lemma all_tokens: "t \<in> set all_tokens"
  by (cases t) (simp_all add: all_tokens_def)

lemma bit_fold_tokens:
  "k < 17 \<Longrightarrow> bit (fold (\<lambda>t bits. or bits (ucast (push_bit (token_code t) (of_bool (f t)) :: 32 word))) ts (b :: valid_tokens)) k \<longleftrightarrow>
     bit b k \<or> (\<exists>t \<in> set ts. token_code t = k \<and> f t)"
  by (induction ts arbitrary: b) (auto simp: bit_simps)

lemma bit_valid_tokens: "bit (valid_tokens_from_array f) (token_code t) \<longleftrightarrow> f t"
  unfolding valid_tokens_from_array_def using bit_fold_tokens [OF token_code_less, of f all_tokens 0 t]
    all_tokens [of t] by (auto simp: token_code_inj)

lemma bit_TO_VT_BIT: "bit (TO_VT_BIT t) k \<longleftrightarrow> k = token_code t"
  using token_code_less [of t] by (auto simp: TO_VT_BIT_def bit_simps)

lemma valid_tokens_test [simp]: "valid_tokens_test (valid_tokens_from_array f) t \<longleftrightarrow> f t"
proof -
  have "valid_tokens_test w t \<longleftrightarrow> bit w (token_code t)" for w
    unfolding valid_tokens_test_def bit_eq_iff using token_code_less [of t]
    by (auto simp: bit_simps bit_TO_VT_BIT)
  then show ?thesis by (simp add: bit_valid_tokens)
qed

lemma bit_valid_tokens_iff: "bit (valid_tokens_from_array f) k \<longleftrightarrow> (\<exists>t. token_code t = k \<and> f t)"
proof (cases "k < 17")
  case True
  then show ?thesis unfolding valid_tokens_from_array_def using bit_fold_tokens [of k f all_tokens 0] all_tokens by auto
next
  case False
  then have "\<not> bit (valid_tokens_from_array f) k" using bit_imp_le_length [of "valid_tokens_from_array f" k] by auto
  moreover have "token_code t \<noteq> k" for t using False token_code_less [of t] by auto
  ultimately show ?thesis by blast
qed

lemma any_valid_tokens:
  "valid_tokens_any_valid (valid_tokens_from_array f) (ucast w) \<longleftrightarrow> (\<exists>t. bit (w :: 32 word) (token_code t) \<and> f t)"
  unfolding valid_tokens_any_valid_def bit_eq_iff using token_code_less
  by (fastforce simp: bit_simps bit_valid_tokens_iff)

lemma any_comment [simp]:
  "valid_tokens_any_valid (valid_tokens_from_array f) COMMENT_TOKENS \<longleftrightarrow>
     f BLOCK_COMMENT_CONTENT \<or> f BLOCK_DOC_COMMENT_CONTENT \<or> f COMMENT_CONTENT"
  unfolding COMMENT_TOKENS_def any_valid_tokens by (auto simp: bit_or_iff bit_TO_VT_BIT token_code_inj simp del: token_code.simps)

lemma any_no_end [simp]:
  "valid_tokens_any_valid (valid_tokens_from_array f) NO_LAYOUT_END_CTX \<longleftrightarrow> f INHIBIT_LAYOUT_END \<or> f LONG_STRING_QUOTE"
  unfolding NO_LAYOUT_END_CTX_def any_valid_tokens by (auto simp: bit_or_iff bit_TO_VT_BIT token_code_inj simp del: token_code.simps)

lemma any_unary [simp]:
  "valid_tokens_any_valid (valid_tokens_from_array f) UNARY_OPS \<longleftrightarrow> f UNARY_OP \<or> f SIGIL_OP"
  unfolding UNARY_OPS_def any_valid_tokens by (auto simp: bit_or_iff bit_TO_VT_BIT token_code_inj simp del: token_code.simps)

lemma is_error [simp]: "valid_tokens_is_error (valid_tokens_from_array f) \<longleftrightarrow> (\<forall>t. f t)"
proof -
  have "bit (ucast (valid_tokens_from_array f) :: 32 word) k \<longleftrightarrow> k < 17 \<and> bit (valid_tokens_from_array f) k" for k
    by (auto simp: bit_simps dest: bit_imp_le_length)
  then have "valid_tokens_is_error (valid_tokens_from_array f) \<longleftrightarrow> (\<forall>k < 17. bit (valid_tokens_from_array f) k)"
    unfolding valid_tokens_is_error_def bit_eq_iff by (auto simp: bit_simps)
  also have "\<dots> \<longleftrightarrow> (\<forall>t. f t)"
  proof
    assume "\<forall>k < 17. bit (valid_tokens_from_array f) k"
    then have "bit (valid_tokens_from_array f) (token_code t)" for t using token_code_less by blast
    then show "\<forall>t. f t" by (simp add: bit_valid_tokens)
  next
    assume a: "\<forall>t. f t"
    have "\<exists>t. token_code t = k" if "k < 17" for k
    proof -
      have "k \<in> token_code ` set all_tokens" using that by (simp add: all_tokens_def) presburger
      then show ?thesis by blast
    qed
    then show "\<forall>k < 17. bit (valid_tokens_from_array f) k" using a by (auto simp: bit_valid_tokens_iff)
  qed
  finally show ?thesis .
qed

text \<open>The context a scan starts with.\<close>

definition start_context :: "'l lexer_api \<Rightarrow> ('l, token_type) tslexer \<Rightarrow> nim_state \<Rightarrow> (token_type \<Rightarrow> bool) \<Rightarrow> 'l lex_context" where
  "start_context A lx s valid = context_mark_end A \<lparr>lexer = lx, state = s, advance_counter = 0,
     valid_tokens = valid_tokens_from_array valid, current_indent = 0, after_newline = False\<rparr>"

lemma start_context [simp]:
  "state (start_context A lx s valid) = s" "valid_tokens (start_context A lx s valid) = valid_tokens_from_array valid"
  "lexer (start_context A lx s valid) = mark_end A lx" "advance_counter (start_context A lx s valid) = 0"
  "after_newline (start_context A lx s valid) = False"
  by (simp_all add: start_context_def context_mark_end_def)

lemma nim_scan_start:
  "nim_scan A alloc (Some s) lx valid =
     map_option (\<lambda>(found, c). (found, lexer c, Some (state c))) (lex_main A alloc (start_context A lx s valid))"
  by (cases "lex_main A alloc (start_context A lx s valid)")
    (simp_all add: nim_scan_def start_context_def Let_def split: prod.splits)

subsection \<open>Block comments\<close>

abbreviation hash_char :: code where "hash_char \<equiv> ch CHR ''#''"
abbreviation open_char :: code where "open_char \<equiv> ch CHR ''[''"
abbreviation close_char :: code where "close_char \<equiv> ch CHR '']''"

text \<open>
  The inside of a block comment whose nested comments are closed. Besides them it may hold any text: a \<^verbatim>\<open>]\<close> that no
  \<^verbatim>\<open>#\<close> follows, a \<^verbatim>\<open>[\<close> and a \<^verbatim>\<open>#\<close>. The code looks at hashes in pairs and at the \<^verbatim>\<open>#\<close> of a
  closing \<^verbatim>\<open>]#\<close> once more, so a \<^verbatim>\<open>[\<close> must not stand directly behind such a pair or behind a closing \<^verbatim>\<open>]#\<close>: it does not
  see the opening in \<^verbatim>\<open>##[\<close>, and takes \<^verbatim>\<open>]#[\<close> for one.
\<close>

inductive comment_body :: "code list \<Rightarrow> bool" where
  body_empty: "comment_body []"
| body_plain: "x \<notin> {hash_char, close_char} \<Longrightarrow> comment_body b \<Longrightarrow> comment_body (x # b)"
| body_bracket: "comment_body b \<Longrightarrow> b = [] \<or> hd b \<noteq> hash_char \<Longrightarrow> comment_body (close_char # b)"
| body_hash: "comment_body b \<Longrightarrow> b = [] \<or> hd b \<notin> {hash_char, open_char} \<Longrightarrow> comment_body (hash_char # b)"
| body_hashes: "comment_body b \<Longrightarrow> b = [] \<or> hd b \<noteq> open_char \<Longrightarrow> comment_body (hash_char # hash_char # b)"
| body_nested: "comment_body a \<Longrightarrow> comment_body (hash_char # b) \<Longrightarrow> b = [] \<or> hd b \<noteq> open_char \<Longrightarrow>
    comment_body (hash_char # open_char # a @ close_char # hash_char # b)"

context ts_lexer
begin

lemma block_comment_plain:
  assumes "todo (vw (lexer ctx)) = x # xs" and "x \<notin> {hash_char, close_char}"
  shows "block_comment_loop A n ctx = block_comment_loop A n (context_advance A (context_mark_end A ctx) False)"
  using assms by (subst block_comment_loop.simps) simp

lemma block_comment_hash:
  assumes "todo (vw (lexer ctx)) = hash_char # x # xs" and "x \<notin> {hash_char, open_char}"
  shows "block_comment_loop A n ctx = block_comment_loop A n (context_advance A ctx False)"
  using assms
  by (subst block_comment_loop.simps, subst (3) block_comment_loop.simps) simp

lemma block_comment_open:
  assumes "todo (vw (lexer ctx)) = hash_char # open_char # xs"
  shows "block_comment_loop A n ctx =
    block_comment_loop A (u32 (n + 1)) (context_advance A (context_mark_end A (context_advance A ctx False)) False)"
  using assms by (subst block_comment_loop.simps) simp

lemma block_comment_close:
  assumes "todo (vw (lexer ctx)) = close_char # hash_char # xs" and "0 < n"
  shows "block_comment_loop A n ctx =
    block_comment_loop A (n - 1) (context_advance A (context_mark_end A ctx) False)"
  using assms by (subst block_comment_loop.simps) simp

lemma block_comment_two_hashes:
  assumes "todo (vw (lexer ctx)) = hash_char # hash_char # xs"
  shows "block_comment_loop A n ctx =
    block_comment_loop A n (context_advance A (context_mark_end A (context_advance A ctx False)) False)"
  using assms by (subst block_comment_loop.simps) simp

lemma block_comment_bracket:
  assumes "todo (vw (lexer ctx)) = close_char # x # xs" and "x \<noteq> hash_char"
  shows "block_comment_loop A n ctx = block_comment_loop A n (context_advance A (context_mark_end A ctx) False)"
  using assms by (subst block_comment_loop.simps) simp

text \<open>A body is passed over, at any depth, up to the \<^verbatim>\<open>]#\<close> behind it.\<close>

lemma block_comment_body:
  "comment_body b \<Longrightarrow> todo (vw (lexer ctx)) = b @ close_char # hash_char # xs \<Longrightarrow> n + length b < 2 ^ 32 \<Longrightarrow>
     \<exists>c. block_comment_loop A n ctx = block_comment_loop A n c \<and> kept ctx c \<and>
       todo (vw (lexer c)) = close_char # hash_char # xs \<and> seen (vw (lexer c)) = seen (vw (lexer ctx)) + length b"
proof (induction b arbitrary: ctx xs n rule: comment_body.induct)
  case body_empty
  then show ?case by auto
next
  case (body_plain y b)
  define c where "c = context_advance A (context_mark_end A ctx) False"
  have t: "todo (vw (lexer ctx)) = y # b @ close_char # hash_char # xs" using body_plain.prems(1) by simp
  have c: "todo (vw (lexer c)) = b @ close_char # hash_char # xs" "seen (vw (lexer c)) = seen (vw (lexer ctx)) + 1" "kept ctx c"
    using t by (simp_all add: c_def kept_def)
  have s: "block_comment_loop A n ctx = block_comment_loop A n c"
    unfolding c_def by (rule block_comment_plain [OF t]) (use body_plain.hyps in auto)
  show ?case using body_plain.IH [OF c(1)] body_plain.prems(2) c(2,3) s
    by (auto simp: kept_def)
next
  case (body_bracket b)
  define c where "c = context_advance A (context_mark_end A ctx) False"
  obtain y ys where y: "b @ close_char # hash_char # xs = y # ys" "y \<noteq> hash_char"
    using body_bracket.hyps by (cases b) auto
  have t: "todo (vw (lexer ctx)) = close_char # y # ys" using body_bracket.prems(1) y(1) by simp
  have c: "todo (vw (lexer c)) = b @ close_char # hash_char # xs" "seen (vw (lexer c)) = seen (vw (lexer ctx)) + 1" "kept ctx c"
    using t y(1) by (simp_all add: c_def kept_def)
  have s: "block_comment_loop A n ctx = block_comment_loop A n c"
    unfolding c_def by (rule block_comment_bracket [OF t y(2)])
  show ?case using body_bracket.IH [OF c(1)] body_bracket.prems(2) c(2,3) s
    by (auto simp: kept_def)
next
  case (body_hash b)
  define c where "c = context_advance A ctx False"
  obtain y ys where y: "b @ close_char # hash_char # xs = y # ys" "y \<notin> {hash_char, open_char}"
    using body_hash.hyps by (cases b) auto
  have t: "todo (vw (lexer ctx)) = hash_char # y # ys" using body_hash.prems(1) y(1) by simp
  have c: "todo (vw (lexer c)) = b @ close_char # hash_char # xs" "seen (vw (lexer c)) = seen (vw (lexer ctx)) + 1" "kept ctx c"
    using t y(1) by (simp_all add: c_def kept_def)
  have s: "block_comment_loop A n ctx = block_comment_loop A n c"
    unfolding c_def by (rule block_comment_hash [OF t y(2)])
  show ?case using body_hash.IH [OF c(1)] body_hash.prems(2) c(2,3) s
    by (auto simp: kept_def)
next
  case (body_hashes b)
  define c where "c = context_advance A (context_mark_end A (context_advance A ctx False)) False"
  have t: "todo (vw (lexer ctx)) = hash_char # hash_char # b @ close_char # hash_char # xs" using body_hashes.prems(1) by simp
  have c: "todo (vw (lexer c)) = b @ close_char # hash_char # xs" "seen (vw (lexer c)) = seen (vw (lexer ctx)) + 2" "kept ctx c"
    using t by (simp_all add: c_def kept_def)
  have s: "block_comment_loop A n ctx = block_comment_loop A n c"
    unfolding c_def by (rule block_comment_two_hashes [OF t])
  show ?case using body_hashes.IH [OF c(1)] body_hashes.prems(2) c(2,3) s
    by (auto simp: kept_def)
next
  case (body_nested a b)
  define c1 where "c1 = context_advance A (context_mark_end A (context_advance A ctx False)) False"
  have t: "todo (vw (lexer ctx)) = hash_char # open_char # a @ close_char # hash_char # b @ close_char # hash_char # xs"
    using body_nested.prems(1) by simp
  have c1: "todo (vw (lexer c1)) = a @ close_char # hash_char # b @ close_char # hash_char # xs"
    "seen (vw (lexer c1)) = seen (vw (lexer ctx)) + 2" "kept ctx c1"
    using t by (simp_all add: c1_def kept_def)
  have s1: "block_comment_loop A n ctx = block_comment_loop A (n + 1) c1"
    using block_comment_open [OF t, of n] body_nested.prems(2) by (simp add: c1_def)
  obtain c2 where c2: "block_comment_loop A (n + 1) c1 = block_comment_loop A (n + 1) c2" "kept c1 c2"
    "todo (vw (lexer c2)) = close_char # hash_char # b @ close_char # hash_char # xs"
    "seen (vw (lexer c2)) = seen (vw (lexer c1)) + length a"
    using body_nested.IH(1) [OF c1(1), of "n + 1"] body_nested.prems(2) by auto
  define c3 where "c3 = context_advance A (context_mark_end A c2) False"
  have c3: "todo (vw (lexer c3)) = (hash_char # b) @ close_char # hash_char # xs"
    "seen (vw (lexer c3)) = seen (vw (lexer c2)) + 1" "kept c2 c3"
    using c2(3) by (simp_all add: c3_def kept_def)
  have s2: "block_comment_loop A (n + 1) c2 = block_comment_loop A n c3"
    using block_comment_close [OF c2(3), of "n + 1"] by (simp add: c3_def)
  obtain c4 where c4: "block_comment_loop A n c3 = block_comment_loop A n c4" "kept c3 c4"
    "todo (vw (lexer c4)) = close_char # hash_char # xs" "seen (vw (lexer c4)) = seen (vw (lexer c3)) + length (hash_char # b)"
    using body_nested.IH(2) [OF c3(1), of n] body_nested.prems(2) by auto
  show ?case using s1 c2 s2 c3(2,3) c4 c1(2,3)
    by (intro exI [of _ c4]) (simp add: kept_def)
qed

lemma block_comment_ends:
  assumes "todo (vw (lexer ctx)) = close_char # hash_char # xs"
    and "\<not> valid_tokens_test (valid_tokens ctx) BLOCK_DOC_COMMENT_CONTENT"
  shows "block_comment_loop A 0 ctx =
    Some (context_finish (context_advance A (context_mark_end A ctx) False) BLOCK_COMMENT_CONTENT)"
  using assms by (subst block_comment_loop.simps) simp

lemma block_comment_body_ends:
  assumes "comment_body b" and "todo (vw (lexer ctx)) = b @ codes '']#'' @ r" and "length b < 2 ^ 32"
    and "\<not> valid_tokens_test (valid_tokens ctx) BLOCK_DOC_COMMENT_CONTENT"
  shows "\<exists>c. block_comment_loop A 0 ctx = Some (True, c) \<and> kept ctx c \<and>
    result_symbol (lexer c) = BLOCK_COMMENT_CONTENT \<and>
    tok_end (vw (lexer c)) = seen (vw (lexer ctx)) + length b"
proof -
  obtain c where c: "block_comment_loop A 0 ctx = block_comment_loop A 0 c" "kept ctx c"
    "todo (vw (lexer c)) = close_char # hash_char # r" "seen (vw (lexer c)) = seen (vw (lexer ctx)) + length b"
    using block_comment_body [OF assms(1), of ctx r 0] assms(2,3) by auto
  have "\<not> valid_tokens_test (valid_tokens c) BLOCK_DOC_COMMENT_CONTENT" using assms(4) c(2) by (simp add: kept_def)
  then show ?thesis using block_comment_ends [OF c(3)] c
    by (simp add: context_finish_def kept_def)
qed

lemma start_view: "vw (lexer (start_context A lx s valid)) = v_mark (vw lx)"
  by simp

text \<open>Where a comment token is valid the scan is the comment loop.\<close>

lemma nim_scan_block_comment:
  assumes "valid BLOCK_COMMENT_CONTENT" and "\<not> valid BLOCK_DOC_COMMENT_CONTENT" and "\<not> valid COMMENT_CONTENT"
    and "block_comment_loop A 0 (start_context A lx s valid) = Some (True, c)"
  shows "nim_scan A alloc (Some s) lx valid = Some (True, lexer c, Some (state c))"
proof -
  have e: "(\<forall>t. valid t) = False" using assms(2) by blast
  show ?thesis using assms
    by (simp add: e nim_scan_start lex_main_def TRY_LEX_def lex_init_def lex_comment_content_def)
qed

end

text \<open>
  C28: a block comment ends at the \<^verbatim>\<open>]#\<close> that matches its opening one: over a body whose nested comments are closed, and
  which may hold other hashes and brackets but no \<^verbatim>\<open>[\<close> directly behind \<^verbatim>\<open>##\<close> or behind a closing \<^verbatim>\<open>]#\<close>, the scan gives
  BLOCK_COMMENT_CONTENT, the token ends just before that \<^verbatim>\<open>]#\<close> and the payload is unchanged. (It is the scan of a plain
  block comment: of the comment tokens only this one is valid.)
\<close>

theorem nim_block_comment_nesting:
  assumes "ts_lexer A view" and "todo (view (runtime lx)) = b @ codes '']#'' @ r" and "comment_body b"
    and "length b < 2 ^ 32"
    and "valid BLOCK_COMMENT_CONTENT" and "\<not> valid BLOCK_DOC_COMMENT_CONTENT" and "\<not> valid COMMENT_CONTENT"
  shows "\<exists>lx'. nim_scan A alloc (Some s) lx valid = Some (True, lx', Some s) \<and>
    result_symbol lx' = BLOCK_COMMENT_CONTENT \<and>
    tok_end (view (runtime lx')) = seen (view (runtime lx)) + length b"
proof -
  note vw = ts_lexer.vw_def [OF assms(1)]
  define ctx where "ctx = start_context A lx s valid"
  have "todo (ts_lexer.vw view (lexer ctx)) = b @ codes '']#'' @ r"
    "seen (ts_lexer.vw view (lexer ctx)) = seen (view (runtime lx))"
    "\<not> valid_tokens_test (valid_tokens ctx) BLOCK_DOC_COMMENT_CONTENT" "state ctx = s"
    using assms(2,6) ts_lexer.start_view [OF assms(1), of lx s valid]
    by (simp_all add: ctx_def vw del: start_context(3))
  then obtain c where "block_comment_loop A 0 ctx = Some (True, c)" "state c = s"
    "result_symbol (lexer c) = BLOCK_COMMENT_CONTENT"
    "tok_end (view (runtime (lexer c))) = seen (view (runtime lx)) + length b"
    using ts_lexer.block_comment_body_ends [OF assms(1,3), of ctx r] assms(4) by (auto simp: kept_def vw)
  then show ?thesis
    using ts_lexer.nim_scan_block_comment [OF assms(1), of valid lx s c alloc] assms(5-7)
    unfolding ctx_def by blast
qed

theorem nim_block_comment_nesting_witness:
  "\<exists>lx'. nim_scan list_api (\<lambda>_. True) (Some (nim_example [0])) (lex_text (codes ''a[0] #[b]#c]#d'')) (\<lambda>t. t = BLOCK_COMMENT_CONTENT) =
      Some (True, lx', Some (nim_example [0])) \<and>
    result_symbol lx' = BLOCK_COMMENT_CONTENT \<and> tok_end (runtime lx') = 11"
proof -
  have eleven: "Suc (Suc (Suc (Suc (Suc (Suc (Suc (Suc (Suc (Suc (Suc 0)))))))))) = 11" by simp
  have b: "comment_body (codes ''b'')" by (simp add: body_plain body_empty)
  have c: "comment_body (hash_char # codes ''c'')"
    by (rule body_hash) (simp_all add: body_plain body_empty)
  have "comment_body (hash_char # open_char # codes ''b'' @ close_char # hash_char # codes ''c'')"
    by (rule body_nested [OF b c]) simp
  then have "comment_body (codes ''a[0] '' @ hash_char # open_char # codes ''b'' @ close_char # hash_char # codes ''c'')"
    by (simp add: body_plain [simplified] body_bracket [simplified])
  from nim_block_comment_nesting [OF list_lexer.ts_lexer_axioms _ this, of "lex_text (codes ''a[0] #[b]#c]#d'')"
      "codes ''d''" "\<lambda>t. t = BLOCK_COMMENT_CONTENT" "\<lambda>_. True" "nim_example [0]"]
  show ?thesis by (simp add: lex_text_def eleven)
qed

text \<open>
  An opening written with two hashes inside a block comment is not counted: the comment
  already ends at the \<^verbatim>\<open>]#\<close> that closes the nested one.
\<close>

lemma nim_doc_comment_not_nested:
  assumes "ts_lexer A view" and "todo (view (runtime lx)) = codes ''##['' @ b @ codes '']#'' @ r" and "comment_body b"
    and "length b < 2 ^ 32"
    and "valid BLOCK_COMMENT_CONTENT" and "\<not> valid BLOCK_DOC_COMMENT_CONTENT" and "\<not> valid COMMENT_CONTENT"
  shows "\<exists>lx'. nim_scan A alloc (Some s) lx valid = Some (True, lx', Some s) \<and>
    result_symbol lx' = BLOCK_COMMENT_CONTENT \<and>
    tok_end (view (runtime lx')) = seen (view (runtime lx)) + 3 + length b"
proof -
  note vw = ts_lexer.vw_def [OF assms(1)] and v = ts_lexer.context_view [OF assms(1)]
  define ctx where "ctx = start_context A lx s valid"
  define c1 where "c1 = context_advance A (context_mark_end A (context_advance A ctx False)) False"
  define c2 where "c2 = context_advance A (context_mark_end A c1) False"
  have t: "todo (ts_lexer.vw view (lexer ctx)) = hash_char # hash_char # open_char # b @ codes '']#'' @ r"
    "seen (ts_lexer.vw view (lexer ctx)) = seen (view (runtime lx))" "state ctx = s"
    using assms(2) ts_lexer.start_view [OF assms(1), of lx s valid]
    by (simp_all add: ctx_def vw del: start_context(3))
  have t1: "todo (ts_lexer.vw view (lexer c1)) = open_char # b @ codes '']#'' @ r"
    "seen (ts_lexer.vw view (lexer c1)) = seen (view (runtime lx)) + 2"
    using t v by (simp_all add: c1_def seen_v_advance)
  have t2: "todo (ts_lexer.vw view (lexer c2)) = b @ codes '']#'' @ r"
    "seen (ts_lexer.vw view (lexer c2)) = seen (view (runtime lx)) + 3"
    using t1 v by (simp_all add: c2_def)
  have "block_comment_loop A 0 ctx = block_comment_loop A 0 c1"
    unfolding c1_def by (rule ts_lexer.block_comment_two_hashes [OF assms(1) t(1)])
  also have "\<dots> = block_comment_loop A 0 c2"
    unfolding c2_def by (rule ts_lexer.block_comment_plain [OF assms(1) t1(1)]) simp
  finally have e: "block_comment_loop A 0 ctx = block_comment_loop A 0 c2" .
  have k: "state c2 = s" "\<not> valid_tokens_test (valid_tokens c2) BLOCK_DOC_COMMENT_CONTENT"
    using t(3) assms(6) by (simp_all add: c2_def c1_def ctx_def)
  then obtain c where "block_comment_loop A 0 ctx = Some (True, c)" "state c = s"
    "result_symbol (lexer c) = BLOCK_COMMENT_CONTENT"
    "tok_end (view (runtime (lexer c))) = seen (view (runtime lx)) + 3 + length b"
    using ts_lexer.block_comment_body_ends [OF assms(1,3), of c2 r] assms(4) t2 e by (auto simp: kept_def vw)
  then show ?thesis
    using ts_lexer.nim_scan_block_comment [OF assms(1), of valid lx s c alloc] assms(5-7)
    unfolding ctx_def by blast
qed

lemma nim_doc_comment_not_nested_witness:
  "\<exists>lx'. nim_scan list_api (\<lambda>_. True) (Some (nim_example [0])) (lex_text (codes ''##[b]#c]#'')) (\<lambda>t. t = BLOCK_COMMENT_CONTENT) =
      Some (True, lx', Some (nim_example [0])) \<and>
    result_symbol lx' = BLOCK_COMMENT_CONTENT \<and> tok_end (runtime lx') = 4"
proof -
  have "comment_body (codes ''b'')" by (simp add: body_plain body_empty)
  from nim_doc_comment_not_nested [OF list_lexer.ts_lexer_axioms _ this, of "lex_text (codes ''##[b]#c]#'')"
      "codes ''c]#''" "\<lambda>t. t = BLOCK_COMMENT_CONTENT" "\<lambda>_. True" "nim_example [0]"]
  show ?thesis by (simp add: lex_text_def)
qed

subsection \<open>The layout of a line\<close>

text \<open>An indentation grows by one per space and stays at 255.\<close>

definition wider :: "nat \<Rightarrow> indent_value \<Rightarrow> indent_value" where
  "wider n i = of_nat (min 255 (unat i + n))"

lemma unat_byte: "unat (x :: byte) \<le> 255"
proof -
  have "unat x < 2 ^ 8" by (rule order_less_le_trans [OF unsigned_less]) simp
  then show ?thesis by simp
qed

lemma wider_0 [simp]: "wider 0 i = i"
  using unat_byte [of i] by (simp add: wider_def min_def)


lemma wider_Suc: "wider n (i + of_bool (i \<noteq> INVALID_INDENT_VALUE)) = wider (Suc n) i"
proof (cases "i = INVALID_INDENT_VALUE")
  case True
  then show ?thesis by (simp add: wider_def)
next
  case False
  then have "unat i < 255" by (rule byte_less)
  then have "unat (i + 1) = unat i + 1" using unat_plus_simple [of i 1] by (simp add: word_le_nat_alt unat_word_ariths)
  then show ?thesis using False by (simp add: wider_def)
qed


definition space_end :: "code list \<Rightarrow> bool" where
  "space_end cs \<longleftrightarrow> cs \<noteq> [] \<and> hd cs \<notin> {0, 10, 13, 32}"

context ts_lexer
begin

lemma spaces_loop_run:
  "todo (vw (lexer ctx)) = replicate n 32 @ cs \<Longrightarrow> space_end cs \<Longrightarrow>
     \<exists>c. spaces_loop A u i sp ctx = Some (u, wider n i, sp + n, c) \<and> kept ctx c \<and> todo (vw (lexer c)) = cs \<and>
       tok_end (vw (lexer c)) = tok_end (vw (lexer ctx))"
proof (induction n arbitrary: i sp ctx)
  case 0
  then show ?case by (cases cs) (auto simp: space_end_def spaces_loop.simps)
next
  case (Suc n)
  define d where "d = context_advance A ctx True"
  have d: "todo (vw (lexer d)) = replicate n 32 @ cs" "kept ctx = kept d" "tok_end (vw (lexer d)) = tok_end (vw (lexer ctx))"
    using Suc.prems by (simp_all add: d_def fun_eq_iff kept_def)
  have "spaces_loop A u i sp ctx = spaces_loop A u (i + of_bool (i \<noteq> INVALID_INDENT_VALUE)) (sp + 1) d"
    using Suc.prems by (subst spaces_loop.simps) (simp add: d_def)
  then show ?case
    using Suc.IH [OF d(1) Suc.prems(2), of "i + of_bool (i \<noteq> INVALID_INDENT_VALUE)" "sp + 1"] d(2,3)
    by (simp add: wider_Suc)
qed

lemma scan_spaces_line:
  assumes "todo (vw (lexer ctx)) = 10 # replicate n 32 @ cs" and "space_end cs"
  shows "\<exists>c. scan_spaces A ctx force = Some (Suc n, c) \<and> kept ctx c \<and> todo (vw (lexer c)) = cs \<and>
    tok_end (vw (lexer c)) = tok_end (vw (lexer ctx)) \<and> current_indent c = wider n 0 \<and> after_newline c"
proof -
  define d where "d = context_advance A ctx True"
  have d: "todo (vw (lexer d)) = replicate n 32 @ cs" "kept ctx = kept d" "tok_end (vw (lexer d)) = tok_end (vw (lexer ctx))"
    using assms(1) by (simp_all add: d_def fun_eq_iff kept_def)
  have "spaces_loop A force 0 0 ctx = spaces_loop A True 0 1 d"
    using assms(1) by (subst spaces_loop.simps) (simp add: d_def)
  then show ?thesis using spaces_loop_run [OF d(1) assms(2), of True 0 1] d(2,3)
    by (auto simp: scan_spaces_def kept_def)
qed

lemma scan_spaces_eof:
  assumes "todo (vw (lexer ctx)) = []"
  shows "scan_spaces A ctx force = Some (0, ctx\<lparr>current_indent := 0, after_newline := True\<rparr>)"
  using assms by (simp add: scan_spaces_def spaces_loop.simps)

text \<open>Outside comments and strings a scan with open layouts skips the space and looks at the indentation.\<close>

lemma lex_main_indent:
  assumes "layouts (state ctx) \<noteq> []" and "nim_ok (state ctx)"
    and "valid_tokens ctx = valid_tokens_from_array valid"
    and "\<not> valid BLOCK_COMMENT_CONTENT" and "\<not> valid BLOCK_DOC_COMMENT_CONTENT" and "\<not> valid COMMENT_CONTENT"
    and "peek (todo (vw (lexer ctx))) \<noteq> ch CHR 0x22"
    and "scan_spaces A ctx False = Some (n, c)" and "lex_indent A alloc c = Some (True, d)"
  shows "lex_main A alloc ctx = Some (True, d)"
  using assms nim_len [OF assms(2)]
  by (simp add: lex_main_def TRY_LEX_def lex_init_def lex_comment_content_def lex_long_string_quote_def)

end

text \<open>The token for a line indented by \<open>w\<close> under the layouts \<open>xs\<close>, and what becomes of them.\<close>

definition line_token :: "(token_type \<Rightarrow> bool) \<Rightarrow> indent_value \<Rightarrow> indent_value list \<Rightarrow> token_type option" where
  "line_token valid w xs =
     (if valid LAYOUT_START \<and> last xs < w then Some LAYOUT_START
      else if valid LAYOUT_EMPTY \<and> w \<le> last xs then Some LAYOUT_EMPTY
      else if valid LAYOUT_TERMINATOR \<and> w < last xs then Some LAYOUT_TERMINATOR
      else if \<not> valid LAYOUT_TERMINATOR \<and> w < last xs \<and> 1 < length xs \<and> \<not> valid INHIBIT_LAYOUT_END \<and> \<not> valid LONG_STRING_QUOTE
      then Some LAYOUT_END else None)"

definition line_layouts :: "token_type \<Rightarrow> indent_value \<Rightarrow> indent_value list \<Rightarrow> indent_value list" where
  "line_layouts t w xs = (if t = LAYOUT_START then xs @ [w] else if t = LAYOUT_END then butlast xs else xs)"

context ts_lexer
begin

lemma lex_indent_line:
  assumes "nim_ok (state c)" and "layouts (state c) \<noteq> []" and "valid_tokens c = valid_tokens_from_array valid"
    and "\<not> (\<forall>t. valid t)" and "after_newline c" and "current_indent c \<noteq> INVALID_INDENT_VALUE"
    and "peek (todo (vw (lexer c))) \<noteq> ch CHR ''#''" and "todo (vw (lexer c)) \<noteq> []"
    and "line_token valid (current_indent c) (layouts (state c)) = Some t" and "\<And>n. 0 < n \<Longrightarrow> alloc n"
  shows "\<exists>d. lex_indent A alloc c = Some (True, d) \<and> result_symbol (lexer d) = t \<and>
    layouts (state d) = line_layouts t (current_indent c) (layouts (state c)) \<and> runtime (lexer d) = runtime (lexer c)"
proof -
  have len: "len (layout_stack (state c)) = int (length (layouts (state c)))" by (rule nim_len [OF assms(1)])
  have "len (layout_stack (state c)) < 2 ^ 29" using len layouts_short [OF assms(1)] by simp
  then obtain v where v: "indent_vec_push alloc (layout_stack (state c)) (current_indent c) = Some (True, v)"
    "vec_list v = layouts (state c) @ [current_indent c]"
    using indent_vec_push_ok [OF nim_okD [OF assms(1)], of alloc "current_indent c"] assms(10)
    by (auto simp: layouts_def)
  have topmost: "indent_vec_back (layout_stack (state c)) = Some (last (layouts (state c)))"
    by (rule layout_back [OF assms(1,2)])
  obtain u where u: "1 < length (layouts (state c)) \<Longrightarrow>
      indent_vec_pop alloc (layout_stack (state c)) = Some u \<and> vec_list u = butlast (layouts (state c))"
    using indent_vec_pop_ok [OF nim_okD [OF assms(1)], of alloc] assms(2) by (auto simp: layouts_def)
  have e: "(\<forall>t. valid t) = False" using assms(4) by blast
  have i: "context_indent c = current_indent c" using assms(5) by (simp add: context_indent_def)
  have start: "lex_indent A alloc c =
      (if valid LAYOUT_START \<and> current_indent c > last (layouts (state c))
       then Some (context_finish (set_layout c v) LAYOUT_START)
       else lex_layout_keep A alloc (current_indent c) (last (layouts (state c))) c)"
    using assms(2,3,6,7) v(1) by (simp add: lex_indent_def len i topmost Let_def)
  show ?thesis
  proof (cases t)
    case LAYOUT_START
    then have "valid LAYOUT_START \<and> last (layouts (state c)) < current_indent c"
      using assms(9) by (simp add: line_token_def split: if_splits)
    then show ?thesis using v(2) LAYOUT_START unfolding start
      by (simp add: context_finish_def line_layouts_def layouts_def set_layout_def set_symbol_def)
  next
    case LAYOUT_END
    note t = assms(9) [unfolded line_token_def LAYOUT_END]
    have l: "\<not> (valid LAYOUT_EMPTY \<and> current_indent c \<le> last (layouts (state c)))"
      "\<not> valid LAYOUT_TERMINATOR" "current_indent c < last (layouts (state c))" "1 < length (layouts (state c))"
      "\<not> valid INHIBIT_LAYOUT_END" "\<not> valid LONG_STRING_QUOTE"
      using t by (simp_all split: if_splits)
    have n: "\<not> last (layouts (state c)) < current_indent c" using l(3) by simp
    have "lex_indent A alloc c = Some (context_finish (set_layout c u) LAYOUT_END)"
      unfolding start using l n u by (simp add: lex_layout_keep_def lex_layout_end_def assms(3) e len del: de_Morgan_conj)
    then show ?thesis using u l(4) LAYOUT_END
      by (simp add: context_finish_def line_layouts_def layouts_def set_layout_def set_symbol_def)
  next
    case LAYOUT_EMPTY
    then have "valid LAYOUT_EMPTY \<and> current_indent c \<le> last (layouts (state c))"
      using assms(9) by (auto simp: line_token_def split: if_splits)
    then show ?thesis using LAYOUT_EMPTY unfolding start
      by (auto simp: lex_layout_keep_def assms(3) e context_finish_def line_layouts_def set_symbol_def)
  next
    case LAYOUT_TERMINATOR
    then have l: "valid LAYOUT_TERMINATOR" "current_indent c < last (layouts (state c))" "\<not> valid LAYOUT_EMPTY"
      using assms(9) by (simp_all add: line_token_def order_less_imp_le split: if_splits)
    then have "current_indent c \<le> last (layouts (state c))" "current_indent c \<noteq> last (layouts (state c))"
      "\<not> last (layouts (state c)) < current_indent c" by auto
    then have "lex_indent A alloc c = Some (context_finish c LAYOUT_TERMINATOR)"
      using l unfolding start by (simp add: lex_layout_keep_def lex_layout_terminator_def assms(3))
    then show ?thesis using LAYOUT_TERMINATOR by (simp add: context_finish_def line_layouts_def set_symbol_def)
  qed (use assms(9) in \<open>auto simp: line_token_def split: if_splits\<close>)
qed

end



text \<open>A scan as a step of the payload, with the token it gives if it gives one.\<close>

definition nim_step ::
  "'l lexer_api \<Rightarrow> (int \<Rightarrow> bool) \<Rightarrow> nim_state option \<Rightarrow> ('l, token_type) tslexer \<times> (token_type \<Rightarrow> bool) \<Rightarrow>
     (token_type option \<times> nim_state option) option" where
  "nim_step A alloc p inp = map_option (\<lambda>(found, lx', p'). (if found then Some (result_symbol lx') else None, p'))
     (nim_scan A alloc p (fst inp) (snd inp))"

text \<open>No comment and no token for an equal line is asked for.\<close>

definition at_end :: "(token_type \<Rightarrow> bool) \<Rightarrow> bool" where
  "at_end valid \<longleftrightarrow> \<not> valid BLOCK_COMMENT_CONTENT \<and> \<not> valid BLOCK_DOC_COMMENT_CONTENT \<and> \<not> valid COMMENT_CONTENT \<and>
     \<not> valid LAYOUT_EMPTY \<and> \<not> valid LAYOUT_TERMINATOR"

context ts_lexer
begin

lemma lex_layout_end_eof:
  assumes "nim_ok (state c)" and "1 < length (layouts (state c))" and "todo (vw (lexer c)) = []"
  shows "\<exists>v. lex_layout_end A alloc cur layout c = Some (context_finish (set_layout c v) LAYOUT_END) \<and> vec_ok v \<and>
    vec_list v = butlast (layouts (state c))"
proof -
  have l: "len (layout_stack (state c)) > 1" using nim_len [OF assms(1)] assms(2) by simp
  obtain v where "indent_vec_pop alloc (layout_stack (state c)) = Some v" "vec_ok v" "vec_list v = butlast (layouts (state c))"
    by (rule pop_layout [OF assms(1) l])
  then show ?thesis using assms(3) l by (intro exI [of _ v]) (simp add: lex_layout_end_def)
qed

lemma lex_indent_eof:
  assumes "nim_ok (state c)" and "layouts (state c) \<noteq> []" and "valid_tokens c = valid_tokens_from_array valid"
    and "at_end valid" and "after_newline c" and "current_indent c = 0" and "todo (vw (lexer c)) = []"
  shows "lex_indent A alloc c = lex_layout_end A alloc 0 (last (layouts (state c))) c"
proof -
  have "len (layout_stack (state c)) \<noteq> 0" using nim_len [OF assms(1)] assms(2) by simp
  then show ?thesis using layout_back [OF assms(1,2)] assms(3-7)
    by (simp add: lex_indent_def context_indent_def lex_layout_keep_def at_end_def Let_def)
qed

lemma lex_main_eof:
  assumes "nim_ok (state ctx)" and "layouts (state ctx) \<noteq> []" and "valid_tokens ctx = valid_tokens_from_array valid"
    and "at_end valid" and "todo (vw (lexer ctx)) = []"
  shows "gives (\<lambda>(found, d). nim_ok (state d) \<and>
    (if 1 < length (layouts (state ctx))
     then found \<and> result_symbol (lexer d) = LAYOUT_END \<and> layouts (state d) = butlast (layouts (state ctx))
     else \<not> found \<and> layouts (state d) = layouts (state ctx))) (lex_main A alloc ctx)"
proof -
  define c where "c = ctx\<lparr>current_indent := 0, after_newline := True\<rparr>"
  have c: "scan_spaces A ctx False = Some (0, c)" "state c = state ctx" "valid_tokens c = valid_tokens_from_array valid"
    "todo (vw (lexer c)) = []" "after_newline c" "current_indent c = 0"
    using scan_spaces_eof [OF assms(5)] assms(3,5) by (simp_all add: c_def)
  note i = lex_indent_eof [of c valid alloc, unfolded c(2), OF assms(1,2) c(3) assms(4) c(5,6,4)]
  have v: "\<not> valid BLOCK_COMMENT_CONTENT" "\<not> valid BLOCK_DOC_COMMENT_CONTENT" "\<not> valid COMMENT_CONTENT"
    using assms(4) by (auto simp: at_end_def)
  show ?thesis
  proof (cases "1 < length (layouts (state ctx))")
    case True
    obtain w where w: "lex_layout_end A alloc 0 (last (layouts (state ctx))) c = Some (context_finish (set_layout c w) LAYOUT_END)"
      "vec_ok w" "vec_list w = butlast (layouts (state ctx))"
      using lex_layout_end_eof [of c alloc 0] assms(1) True c(2,4) by auto
    have "lex_indent A alloc c = Some (True, snd (context_finish (set_layout c w) LAYOUT_END))"
      using i w(1) by (simp add: context_finish_def)
    then have "lex_main A alloc ctx = Some (True, snd (context_finish (set_layout c w) LAYOUT_END))"
      using lex_main_indent [OF assms(2,1,3) v _ c(1)] assms(5) by simp
    moreover have "nim_result ctx (context_finish (set_layout c w) LAYOUT_END)"
      using layout_result [of w c LAYOUT_END] w(2,3) assms(1,3) c(2,3) True by (simp add: nim_result_def)
    ultimately show ?thesis using True w(3) by (simp add: nim_result_def context_finish_def layouts_def)
  next
    case False
    then have "lex_layout_end A alloc 0 (last (layouts (state ctx))) c = Some (False, c)"
      using nim_len [OF assms(1)] c(2,4) by (simp add: lex_layout_end_def TRY_LEX_def lex_case_of_def)
    then have "lex_main A alloc ctx = Some (False, c)"
      using c i v assms nim_len [OF assms(1)]
      by (simp add: lex_main_def TRY_LEX_def lex_init_def lex_comment_content_def lex_long_string_quote_def
          lex_operators_def scan_operator_def lex_inline_layout_def)
    then show ?thesis using False c(2) assms(1) by simp
  qed
qed

lemma nim_step_eof:
  assumes "nim_ok s" and "layouts s \<noteq> []" and "at_end valid" and "todo (vw lx) = []"
  shows "\<exists>s'. nim_step A alloc (Some s) (lx, valid) =
      Some (if 1 < length (layouts s) then Some LAYOUT_END else None, Some s') \<and> nim_ok s' \<and>
    layouts s' = (if 1 < length (layouts s) then butlast (layouts s) else layouts s)"
proof -
  have "todo (vw (lexer (start_context A lx s valid))) = []" using assms(4) start_view [of lx s valid] by simp
  then obtain found d where "lex_main A alloc (start_context A lx s valid) = Some (found, d)" "nim_ok (state d)"
    "if 1 < length (layouts s) then found \<and> result_symbol (lexer d) = LAYOUT_END \<and> layouts (state d) = butlast (layouts s)
     else \<not> found \<and> layouts (state d) = layouts s"
    using lex_main_eof [of "start_context A lx s valid" valid alloc] assms(1-3) by (auto simp: gives_def)
  then show ?thesis by (simp add: nim_step_def nim_scan_start split: if_splits)
qed

lemma run_eof:
  "nim_ok s \<Longrightarrow> length (layouts s) = Suc k \<Longrightarrow> at_end valid \<Longrightarrow> todo (vw lx) = [] \<Longrightarrow>
     run_scans (nim_step A alloc) (Some s) (replicate (Suc k) (lx, valid)) = Some (replicate k (Some LAYOUT_END) @ [None])"
proof (induction k arbitrary: s)
  case 0
  then have "layouts s \<noteq> []" by auto
  then show ?case using nim_step_eof [of s valid lx alloc] 0 by auto
next
  case (Suc k)
  then have "layouts s \<noteq> []" by auto
  then obtain s' where s': "nim_step A alloc (Some s) (lx, valid) = Some (Some LAYOUT_END, Some s')" "nim_ok s'"
    "layouts s' = butlast (layouts s)"
    using nim_step_eof [of s valid lx alloc] Suc.prems by auto
  then have "length (layouts s') = Suc k" using Suc.prems(2) by simp
  from Suc.IH [OF s'(2) this Suc.prems(3,4)]
  have "run_scans (nim_step A alloc) (Some s') (replicate (Suc k) (lx, valid)) = Some (replicate k (Some LAYOUT_END) @ [None])" .
  then show ?case by (subst replicate_Suc) (simp add: s'(1) del: replicate_Suc, simp)
qed

end

text \<open>
  C26: at the end of the input, where the parser asks for no LAYOUT_TERMINATOR, LAYOUT_EMPTY or comment token, every open
  layout is closed: scanning there again and again gives one LAYOUT_END for each layout but the outermost, and then nothing.
  (With LAYOUT_TERMINATOR valid the scan gives that token instead.)
\<close>

theorem nim_eof_closes_layouts:
  assumes "ts_lexer A view" and "nim_ok s" and "length (layouts s) = Suc k" and "at_end valid"
    and "todo (view (runtime lx)) = []"
  shows "run_scans (nim_step A alloc) (Some s) (replicate (Suc k) (lx, valid)) =
    Some (replicate k (Some LAYOUT_END) @ [None])"
proof -
  have "todo (ts_lexer.vw view lx) = []" using assms(5) ts_lexer.vw_def [OF assms(1), of lx] by simp
  from ts_lexer.run_eof [OF assms(1-4) this] show ?thesis .
qed

theorem nim_eof_closes_layouts_witness:
  "run_scans (nim_step list_api (\<lambda>_. False)) (Some (nim_example [0, 2, 4])) (replicate (Suc 2) (lex_text [], \<lambda>t. t = LAYOUT_END)) =
     Some (replicate 2 (Some LAYOUT_END) @ [None])"
proof (rule nim_eof_closes_layouts [OF list_lexer.ts_lexer_axioms])
  show "nim_ok (nim_example [0, 2, 4])" by (simp add: increasing_def)
qed (simp_all add: lex_text_def at_end_def)

end
