(* ===== verification/VecBitmap.thy ===== *)
theory VecBitmap
  imports Prelude
begin

text \<open>
  Bit vectors in \<^verbatim>\<open>crates/cli/vendor-sqlite-vec/sqlite-vec.c\<close>: the bitmaps that stand for sets of
  positions of a chunk (\<^verbatim>\<open>bitmap_new\<close> to \<^verbatim>\<open>bitmap_fill\<close>), the Hamming distance of binary vectors and
  the integer distance of \<^verbatim>\<open>int8\<close> vectors. A bitmap is the list of its bytes; \<open>members\<close> is the set of
  positions it stands for. Lengths and positions are \<^verbatim>\<open>i32\<close> counts that are never negative, so they are
  natural numbers; a failed \<^verbatim>\<open>assert\<close> and an access out of bounds are \<open>None\<close>. The Hamming distance is
  converted to \<^verbatim>\<open>f32\<close> by the code; it is at most 8192 there, which \<^verbatim>\<open>f32\<close> holds exactly, so the model
  keeps the number.
\<close>

abbreviation (input) CHAR_BIT :: nat where
  "CHAR_BIT \<equiv> 8"

subsection \<open>Bitmaps\<close>

text \<open>\<open>alloc\<close> tells whether \<^verbatim>\<open>sqlite3_malloc\<close> gives the memory; the inner \<open>None\<close> is the null pointer.\<close>

definition bitmap_new :: "bool \<Rightarrow> nat \<Rightarrow> byte list option option" where
  "bitmap_new alloc n =
     (if n mod 8 \<noteq> 0 then None
      else Some (if alloc then Some (replicate (n div CHAR_BIT) 0) else None))"

definition bitmap_new_from :: "bool \<Rightarrow> nat \<Rightarrow> byte list \<Rightarrow> byte list option option" where
  "bitmap_new_from alloc n from =
     (if n mod 8 \<noteq> 0 then None
      else if \<not> alloc then Some None
      else if n div CHAR_BIT \<le> length from then Some (Some (take (n div CHAR_BIT) from)) else None)"

definition bitmap_copy :: "byte list \<Rightarrow> byte list \<Rightarrow> nat \<Rightarrow> byte list option" where
  "bitmap_copy base from n =
     (if n mod 8 = 0 \<and> n div CHAR_BIT \<le> length base \<and> n div CHAR_BIT \<le> length from
      then Some (take (n div CHAR_BIT) from @ drop (n div CHAR_BIT) base) else None)"

function and_loop :: "byte list \<Rightarrow> byte list \<Rightarrow> nat \<Rightarrow> nat \<Rightarrow> byte list option" where
  "and_loop base other n i =
     (if i < n
      then if i < length base \<and> i < length other
           then and_loop (base[i := and (base ! i) (other ! i)]) other n (i + 1) else None
      else Some base)"
  by pat_completeness auto
termination by (relation "measure (\<lambda>(_, _, n, i). n - i)") auto

declare and_loop.simps [simp del]

definition bitmap_and_inplace :: "byte list \<Rightarrow> byte list \<Rightarrow> nat \<Rightarrow> byte list option" where
  "bitmap_and_inplace base other n =
     (if n mod 8 = 0 then and_loop base other (n div CHAR_BIT) 0 else None)"

definition bitmap_set :: "byte list \<Rightarrow> nat \<Rightarrow> bool \<Rightarrow> byte list option" where
  "bitmap_set bitmap position v =
     (let i = position div CHAR_BIT; m = push_bit (position mod CHAR_BIT) 1
      in if i < length bitmap
         then Some (bitmap[i := (if v then or (bitmap ! i) m else and (bitmap ! i) (not m))])
         else None)"

definition bitmap_get :: "byte list \<Rightarrow> nat \<Rightarrow> bool option" where
  "bitmap_get bitmap position =
     (let i = position div CHAR_BIT
      in if i < length bitmap then Some (and (drop_bit (position mod CHAR_BIT) (bitmap ! i)) 1 \<noteq> 0) else None)"

definition bitmap_clear :: "byte list \<Rightarrow> nat \<Rightarrow> byte list option" where
  "bitmap_clear bitmap n =
     (if n mod 8 = 0 \<and> n div CHAR_BIT \<le> length bitmap
      then Some (replicate (n div CHAR_BIT) 0 @ drop (n div CHAR_BIT) bitmap) else None)"

definition bitmap_fill :: "byte list \<Rightarrow> nat \<Rightarrow> byte list option" where
  "bitmap_fill bitmap n =
     (if n mod 8 = 0 \<and> n div CHAR_BIT \<le> length bitmap
      then Some (replicate (n div CHAR_BIT) 0xFF @ drop (n div CHAR_BIT) bitmap) else None)"

subsection \<open>Distances\<close>

definition hamdist_table :: "nat list" where
  "hamdist_table = [
    0, 1, 1, 2, 1, 2, 2, 3, 1, 2, 2, 3, 2, 3, 3, 4, 1, 2, 2, 3, 2, 3, 3, 4,
    2, 3, 3, 4, 3, 4, 4, 5, 1, 2, 2, 3, 2, 3, 3, 4, 2, 3, 3, 4, 3, 4, 4, 5,
    2, 3, 3, 4, 3, 4, 4, 5, 3, 4, 4, 5, 4, 5, 5, 6, 1, 2, 2, 3, 2, 3, 3, 4,
    2, 3, 3, 4, 3, 4, 4, 5, 2, 3, 3, 4, 3, 4, 4, 5, 3, 4, 4, 5, 4, 5, 5, 6,
    2, 3, 3, 4, 3, 4, 4, 5, 3, 4, 4, 5, 4, 5, 5, 6, 3, 4, 4, 5, 4, 5, 5, 6,
    4, 5, 5, 6, 5, 6, 6, 7, 1, 2, 2, 3, 2, 3, 3, 4, 2, 3, 3, 4, 3, 4, 4, 5,
    2, 3, 3, 4, 3, 4, 4, 5, 3, 4, 4, 5, 4, 5, 5, 6, 2, 3, 3, 4, 3, 4, 4, 5,
    3, 4, 4, 5, 4, 5, 5, 6, 3, 4, 4, 5, 4, 5, 5, 6, 4, 5, 5, 6, 5, 6, 6, 7,
    2, 3, 3, 4, 3, 4, 4, 5, 3, 4, 4, 5, 4, 5, 5, 6, 3, 4, 4, 5, 4, 5, 5, 6,
    4, 5, 5, 6, 5, 6, 6, 7, 3, 4, 4, 5, 4, 5, 5, 6, 4, 5, 5, 6, 5, 6, 6, 7,
    4, 5, 5, 6, 5, 6, 6, 7, 5, 6, 6, 7, 6, 7, 7, 8]"

text \<open>The loops read \<open>n\<close> elements of both vectors; a shorter vector is read out of bounds.\<close>

fun distance_hamming_u8 :: "byte list \<Rightarrow> byte list \<Rightarrow> nat \<Rightarrow> nat option" where
  "distance_hamming_u8 a b 0 = Some 0"
| "distance_hamming_u8 (x # a) (y # b) (Suc n) =
     map_option ((+) (hamdist_table ! unat (xor x y))) (distance_hamming_u8 a b n)"
| "distance_hamming_u8 _ _ (Suc n) = None"

text \<open>
  \<^verbatim>\<open>__builtin_popcountl\<close> is the compiler's, which counts the bits of its argument: a parameter of the routine for words. For
  one compiler the file has a function of that name, Kernighan's loop over an \<^verbatim>\<open>unsigned int\<close>.
\<close>

function popcount_loop :: "32 word \<Rightarrow> nat \<Rightarrow> nat" where
  "popcount_loop x c = (if x \<noteq> 0 then popcount_loop (and x (x - 1)) (c + 1) else c)"
  by pat_completeness auto
termination
proof (relation "measure (\<lambda>(x, _). unat x)")
  fix x :: "32 word" and c :: nat
  assume "x \<noteq> 0"
  then have "unat (x - 1) < unat x" by (simp add: unat_minus_one unat_gt_0 measure_unat)
  moreover have "and x (x - 1) \<le> x - 1" by (metis and.commute word_and_le2)
  ultimately show "((and x (x - 1), c + 1), x, c) \<in> measure (\<lambda>(x, _). unat x)"
    by (simp add: word_le_nat_alt)
qed simp

declare popcount_loop.simps [simp del]

definition builtin_popcountl :: "32 word \<Rightarrow> nat" where
  "builtin_popcountl x = popcount_loop x 0"

text \<open>The words as the little-endian machine reads them from the bytes.\<close>

fun u64_words :: "byte list \<Rightarrow> 64 word list" where
  "u64_words (b0 # b1 # b2 # b3 # b4 # b5 # b6 # b7 # bs) =
     or (ucast b0) (or (push_bit 8 (ucast b1)) (or (push_bit 16 (ucast b2)) (or (push_bit 24 (ucast b3))
       (or (push_bit 32 (ucast b4)) (or (push_bit 40 (ucast b5)) (or (push_bit 48 (ucast b6)) (push_bit 56 (ucast b7))))))))
     # u64_words bs"
| "u64_words _ = []"

fun distance_hamming_u64 :: "(64 word \<Rightarrow> nat) \<Rightarrow> 64 word list \<Rightarrow> 64 word list \<Rightarrow> nat \<Rightarrow> nat option" where
  "distance_hamming_u64 popcountl a b 0 = Some 0"
| "distance_hamming_u64 popcountl (x # a) (y # b) (Suc n) =
     map_option ((+) (popcountl (xor x y))) (distance_hamming_u64 popcountl a b n)"
| "distance_hamming_u64 popcountl _ _ (Suc n) = None"

definition distance_hamming :: "(64 word \<Rightarrow> nat) \<Rightarrow> byte list \<Rightarrow> byte list \<Rightarrow> nat \<Rightarrow> nat option" where
  "distance_hamming popcountl a b dimensions =
     (if dimensions mod 64 = 0
      then distance_hamming_u64 popcountl (u64_words a) (u64_words b) (dimensions div 8 div CHAR_BIT)
      else distance_hamming_u8 a b (dimensions div CHAR_BIT))"

text \<open>\<^verbatim>\<open>i32\<close> arithmetic on \<^verbatim>\<open>i8\<close> values; a sum that overflows is undefined behaviour.\<close>

fun l1_int8_loop :: "byte list \<Rightarrow> byte list \<Rightarrow> nat \<Rightarrow> int \<Rightarrow> int option" where
  "l1_int8_loop a b 0 res = Some res"
| "l1_int8_loop (x # a) (y # b) (Suc d) res =
     (let res' = res + \<bar>sint x - sint y\<bar>
      in if res' < 2 ^ 31 then l1_int8_loop a b d res' else None)"
| "l1_int8_loop _ _ (Suc d) res = None"

definition l1_int8 :: "byte list \<Rightarrow> byte list \<Rightarrow> nat \<Rightarrow> int option" where
  "l1_int8 a b d = l1_int8_loop a b d 0"

subsection \<open>A bitmap is a set of positions\<close>

definition members :: "byte list \<Rightarrow> nat set" where
  "members bm = {i. i < 8 * length bm \<and> bit (bm ! (i div 8)) (i mod 8)}"

lemma in_members: "i \<in> members bm \<longleftrightarrow> i < 8 * length bm \<and> bit (bm ! (i div 8)) (i mod 8)"
  by (simp add: members_def)

lemma div8_less [simp]: "i div 8 < n \<longleftrightarrow> i < 8 * (n :: nat)"
  by (simp add: less_mult_imp_div_less div_less_iff_less_mult mult.commute)

lemma bitmap_get_members:
  assumes "i < 8 * length bm"
  shows "bitmap_get bm i = Some (i \<in> members bm)"
proof -
  have "and (drop_bit k w) 1 \<noteq> 0 \<longleftrightarrow> bit w k" for w :: byte and k
    by (simp add: and_one_eq mod2_eq_if bit_iff_odd_drop_bit)
  then show ?thesis using assms by (simp add: bitmap_get_def in_members Let_def)
qed

lemma bitmap_set_members:
  assumes "i < 8 * length bm"
  shows "\<exists>b. bitmap_set bm i v = Some b \<and> length b = length bm \<and>
    members b = (if v then insert i (members bm) else members bm - {i})"
proof -
  define b where "b = bm[i div 8 := (if v then or (bm ! (i div 8)) (push_bit (i mod 8) 1)
    else and (bm ! (i div 8)) (not (push_bit (i mod 8) 1)))]"
  have s: "bitmap_set bm i v = Some b" using assms by (simp add: bitmap_set_def b_def Let_def)
  have b: "bit (b ! (j div 8)) (j mod 8) \<longleftrightarrow> (if j = i then v else bit (bm ! (j div 8)) (j mod 8))"
    if "j < 8 * length bm" for j
  proof (cases "j div 8 = i div 8")
    case True
    have "j = i \<longleftrightarrow> j mod 8 = i mod 8" using True by (metis mod_div_decomp)
    moreover have "i mod 8 < 8" "j mod 8 < 8" by simp_all
    ultimately show ?thesis using True that assms
      by (auto simp: b_def bit_simps)
  next
    case False
    then show ?thesis using that by (auto simp: b_def)
  qed
  have "length b = length bm" by (simp add: b_def)
  moreover have "members b = (if v then insert i (members bm) else members bm - {i})"
  proof -
    have m: "j \<in> members b \<longleftrightarrow> (if j = i then v else j \<in> members bm)" for j
    proof (cases "j < 8 * length bm")
      case True
      then show ?thesis by (simp add: in_members b [OF True] \<open>length b = length bm\<close>)
    next
      case False
      then show ?thesis using assms by (auto simp: in_members \<open>length b = length bm\<close>)
    qed
    show ?thesis
    proof (cases v)
      case True
      then show ?thesis by (intro set_eqI) (simp only: m if_True insert_iff simp_thms split: if_split, blast)
    next
      case False
      then show ?thesis by (intro set_eqI) (simp only: m if_False Diff_iff singleton_iff simp_thms split: if_split, blast)
    qed
  qed
  ultimately show ?thesis using s by blast
qed

lemma and_loop_nth:
  "i \<le> n \<Longrightarrow> n \<le> length base \<Longrightarrow> n \<le> length other \<Longrightarrow>
     and_loop base other n i =
       Some (map (\<lambda>j. if i \<le> j \<and> j < n then and (base ! j) (other ! j) else base ! j) [0..<length base])"
proof (induction base other n i rule: and_loop.induct)
  case (1 base other n i)
  show ?case
  proof (cases "i < n")
    case True
    have l: "i < length base" "i < length other" using True 1(3,4) by simp_all
    have "and_loop base other n i = and_loop (base[i := and (base ! i) (other ! i)]) other n (i + 1)"
      using True l by (subst and_loop.simps) simp
    also have "\<dots> = Some (map (\<lambda>j. if i \<le> j \<and> j < n then and (base ! j) (other ! j) else base ! j) [0..<length base])"
      using 1(1) [OF True conjI [OF l]] True 1(3,4) by (auto simp: nth_list_update intro!: nth_equalityI)
    finally show ?thesis .
  next
    case False
    then show ?thesis using 1(2) by (subst and_loop.simps) (auto intro!: nth_equalityI)
  qed
qed

lemma bitmap_and_members:
  assumes "length base = n div 8" and "length other = n div 8" and "n mod 8 = 0"
  shows "\<exists>b. bitmap_and_inplace base other n = Some b \<and> length b = length base \<and> members b = members base \<inter> members other"
proof -
  define b where "b = map (\<lambda>j. and (base ! j) (other ! j)) [0..<length base]"
  have "bitmap_and_inplace base other n = Some b"
    using and_loop_nth [of 0 "n div 8" base other] assms by (simp add: bitmap_and_inplace_def b_def)
  moreover have "members b = members base \<inter> members other"
    using assms(1,2) by (auto simp: b_def in_members bit_and_iff)
  ultimately show ?thesis by (simp add: b_def)
qed

lemma bitmap_clear_members:
  assumes "length bm = n div 8" and "n mod 8 = 0"
  shows "bitmap_clear bm n = Some (replicate (n div 8) 0)" "members (replicate k 0) = {}"
  using assms by (auto simp: bitmap_clear_def in_members)

lemma bitmap_fill_members:
  assumes "length bm = n div 8" and "n mod 8 = 0"
  shows "bitmap_fill bm n = Some (replicate (n div 8) 0xFF)" "members (replicate k 0xFF) = {..<8 * k}"
proof -
  show "bitmap_fill bm n = Some (replicate (n div 8) 0xFF)" using assms by (simp add: bitmap_fill_def)
  have "bit (0xFF :: byte) j" if "j < 8" for j
  proof -
    have "(0xFF :: byte) = - 1" by simp
    then show ?thesis using that unfolding bit_minus_1_iff by (simp only: bit_minus_1_iff) simp
  qed
  then show "members (replicate k 0xFF) = {..<8 * k}" by (auto simp: in_members)
qed

lemma bitmap_copy_members:
  assumes "length base = n div 8" and "length from = n div 8" and "n mod 8 = 0"
  shows "bitmap_copy base from n = Some from"
  using assms by (simp add: bitmap_copy_def)

subsection \<open>Counting bits\<close>

fun popcount :: "nat \<Rightarrow> nat" where
  "popcount n = (if n = 0 then 0 else n mod 2 + popcount (n div 2))"

declare popcount.simps [simp del]

lemma popcount_0 [simp]: "popcount 0 = 0"
  by (simp add: popcount.simps)

lemma popcount_double [simp]: "popcount (2 * n) = popcount n"
  by (subst popcount.simps) simp

lemma popcount_Suc_Suc [simp]: "popcount (Suc (Suc (2 * n))) = popcount (Suc n)"
  using popcount_double [of "Suc n"] by simp

lemma popcount_Suc_double [simp]: "popcount (Suc (2 * n)) = Suc (popcount n)"
  by (subst popcount.simps) simp

lemma popcount_bits: "n < 2 ^ m \<Longrightarrow> popcount n = length (filter (bit n) [0..<m])"
proof (induction m arbitrary: n)
  case 0
  then show ?case by simp
next
  case (Suc m)
  have "[0..<Suc m] = 0 # map Suc [0..<m]" by (simp add: upt_conv_Cons map_Suc_upt del: upt_Suc)
  moreover have "filter (bit n) (map Suc xs) = map Suc (filter (bit (n div 2)) xs)" for xs
    by (induction xs) (simp_all add: bit_Suc)
  ultimately have "length (filter (bit n) [0..<Suc m]) = n mod 2 + length (filter (bit (n div 2)) [0..<m])"
    by (simp only: filter.simps bit_0 length_map list.size split: if_split) (simp add: mod_2_eq_odd)
  also have "\<dots> = n mod 2 + popcount (n div 2)" using Suc by (simp add: less_mult_imp_div_less mult.commute)
  also have "\<dots> = popcount n" by (simp add: popcount.simps [of n])
  finally show ?case by simp
qed

text \<open>\<^verbatim>\<open>x & (x - 1)\<close> clears one bit.\<close>

lemma popcount_clear: "0 < n \<Longrightarrow> Suc (popcount (and n (n - 1))) = popcount n"
proof (induction n rule: less_induct)
  case (less n)
  show ?case
  proof (cases "even n")
    case True
    then obtain m where m: "n = 2 * m" by blast
    then obtain k where k: "m = Suc k" using less.prems by (cases m) auto
    have "n - 1 = Suc (2 * k)" using m k by simp
    moreover have "and (2 * Suc k) (Suc (2 * k)) = 2 * and (Suc k) k"
      by (subst and_nat_rec) simp
    ultimately show ?thesis using less.IH [of m] m k by simp
  next
    case False
    then obtain m where m: "n = Suc (2 * m)" by (metis oddE Suc_eq_plus1)
    have "and (Suc (2 * m)) (2 * m) = 2 * m" by (subst and_nat_rec) simp
    then show ?thesis using m by simp
  qed
qed

lemma popcount_loop: "popcount_loop x c = c + popcount (unat x)"
proof (induction x c rule: popcount_loop.induct)
  case (1 x c)
  show ?case
  proof (cases "x = 0")
    case False
    then have "0 < unat x" by (simp add: unat_gt_0)
    moreover have "unat (and x (x - 1)) = and (unat x) (unat x - 1)"
      using False by (simp add: unsigned_and_eq unat_minus_one)
    ultimately have "Suc (popcount (unat (and x (x - 1)))) = popcount (unat x)" using popcount_clear by simp
    then show ?thesis using 1 [OF False] False by (subst popcount_loop.simps) simp
  qed (simp add: popcount_loop.simps)
qed

lemma hamdist_table_eq: "hamdist_table = map popcount [0..<256]"
  by code_simp

lemma hamdist_popcount: "hamdist_table ! unat (x :: byte) = popcount (unat x)"
proof -
  have "unat x < 2 ^ 8" by (rule order_less_le_trans [OF unsigned_less]) simp
  then show ?thesis by (simp add: hamdist_table_eq)
qed

text \<open>The bits of a vector, and the number of places where two differ.\<close>

definition vector_bits :: "byte list \<Rightarrow> bool list" where
  "vector_bits bs = concat (map (\<lambda>x. map (bit x) [0..<8]) bs)"

definition differing :: "bool list \<Rightarrow> bool list \<Rightarrow> nat" where
  "differing xs ys = length (filter (\<lambda>(p, q). p \<noteq> q) (zip xs ys))"

lemma differing_append [simp]:
  "length xs = length ys \<Longrightarrow> differing (xs @ us) (ys @ vs) = differing xs ys + differing us vs"
  by (simp add: differing_def)

lemma differing_le: "differing xs ys \<le> length xs"
  unfolding differing_def by (rule order_trans [OF length_filter_le]) simp

lemma differing_word:
  fixes x y :: "'a :: len word"
  assumes "n = LENGTH('a)"
  shows "differing (map (bit x) [0..<n]) (map (bit y) [0..<n]) = popcount (unat (xor x y))"
proof -
  have "unat (xor x y) < 2 ^ n" unfolding assms by (rule unsigned_less)
  then have "popcount (unat (xor x y)) = length (filter (bit (unat (xor x y))) [0..<n])" by (rule popcount_bits)
  also have "filter (bit (unat (xor x y))) [0..<n] = filter (\<lambda>i. bit x i \<noteq> bit y i) [0..<n]"
    by (rule filter_cong) (simp_all add: bit_unsigned_iff bit_xor_iff)
  also have "length \<dots> = differing (map (bit x) [0..<n]) (map (bit y) [0..<n])"
    by (simp add: differing_def zip_map_map filter_map comp_def split_def zip_same_conv_map)
  finally show ?thesis by simp
qed

lemma hamming_u8: "length a = n \<Longrightarrow> length b = n \<Longrightarrow>
    distance_hamming_u8 a b n = Some (differing (vector_bits a) (vector_bits b))"
proof (induction n arbitrary: a b)
  case 0
  then show ?case by (simp add: vector_bits_def differing_def)
next
  case (Suc n)
  then obtain x a' y b' where ab: "a = x # a'" "b = y # b'" "length a' = n" "length b' = n"
    by (auto simp: length_Suc_conv)
  then show ?case using Suc.IH [OF ab(3,4)] differing_word [of 8 x y]
    by (simp add: vector_bits_def hamdist_popcount)
qed

text \<open>The eight bytes of a word hold its bits in order.\<close>

lemma bit_u64_word:
  fixes b0 b1 b2 b3 b4 b5 b6 b7 :: byte
  defines "w \<equiv> (or (ucast b0) (or (push_bit 8 (ucast b1)) (or (push_bit 16 (ucast b2)) (or (push_bit 24 (ucast b3))
       (or (push_bit 32 (ucast b4)) (or (push_bit 40 (ucast b5)) (or (push_bit 48 (ucast b6)) (push_bit 56 (ucast b7)))))))) :: 64 word)"
  shows "map (bit w) [0..<64] = concat (map (\<lambda>x. map (bit x) [0..<8]) [b0, b1, b2, b3, b4, b5, b6, b7])"
proof -
  have out: "\<not> bit b n" if "8 \<le> n" for b :: byte and n using that bit_imp_le_length [of b n] by auto
  have low: "bit w i = bit b0 i" "bit w (i + 8) = bit b1 i" "bit w (i + 16) = bit b2 i" "bit w (i + 24) = bit b3 i"
    "bit w (i + 32) = bit b4 i" "bit w (i + 40) = bit b5 i" "bit w (i + 48) = bit b6 i" "bit w (i + 56) = bit b7 i" if "i < 8" for i
    using that by (auto simp: w_def bit_simps out)
  have shift: "map (bit w) [n..<n + 8] = map (\<lambda>i. bit w (i + n)) [0..<8]" for n
  proof -
    have "[n..<n + 8] = map (\<lambda>i. i + n) [0..<8]" by (simp add: map_add_upt add.commute)
    then show ?thesis by simp
  qed
  have "[0..<64] = [0..<0 + 8] @ [8..<8 + 8] @ [16..<16 + 8] @ [24..<24 + 8] @ [32..<32 + 8] @ [40..<40 + 8] @ [48..<48 + 8] @ [56..<56 + (8::nat)]"
    by code_simp
  then have "map (bit w) [0..<64] = map (bit w) [0..<0 + 8] @ map (bit w) [8..<8 + 8] @ map (bit w) [16..<16 + 8] @
      map (bit w) [24..<24 + 8] @ map (bit w) [32..<32 + 8] @ map (bit w) [40..<40 + 8] @ map (bit w) [48..<48 + 8] @ map (bit w) [56..<56 + 8]"
    by (simp only: map_append)
  also have "\<dots> = concat (map (\<lambda>x. map (bit x) [0..<8]) [b0, b1, b2, b3, b4, b5, b6, b7])"
    unfolding shift using low by simp
  finally show ?thesis .
qed

lemma eight_bytes:
  assumes "length (xs :: byte list) = 8 * Suc n"
  obtains b0 b1 b2 b3 b4 b5 b6 b7 ys where "xs = b0 # b1 # b2 # b3 # b4 # b5 # b6 # b7 # ys" "length ys = 8 * n"
proof -
  have "length xs = Suc (Suc (Suc (Suc (Suc (Suc (Suc (Suc (8 * n))))))))" using assms by simp
  then show ?thesis using that unfolding length_Suc_conv by blast
qed

text \<open>What a \<^verbatim>\<open>__builtin_popcountl\<close> for 64-bit words is documented to do.\<close>

definition counts_bits :: "(64 word \<Rightarrow> nat) \<Rightarrow> bool" where
  "counts_bits popcountl \<longleftrightarrow> (\<forall>x. popcountl x = popcount (unat x))"

lemma hamming_u64: "counts_bits popcountl \<Longrightarrow> length a = 8 * n \<Longrightarrow> length b = 8 * n \<Longrightarrow>
    distance_hamming_u64 popcountl (u64_words a) (u64_words b) n = Some (differing (vector_bits a) (vector_bits b))"
proof (induction n arbitrary: a b)
  case 0
  then show ?case by (simp add: vector_bits_def differing_def)
next
  case (Suc n)
  obtain a0 a1 a2 a3 a4 a5 a6 a7 a' where a: "a = a0 # a1 # a2 # a3 # a4 # a5 # a6 # a7 # a'" "length a' = 8 * n"
    using eight_bytes [OF Suc.prems(2)] .
  obtain b0 b1 b2 b3 b4 b5 b6 b7 b' where b: "b = b0 # b1 # b2 # b3 # b4 # b5 # b6 # b7 # b'" "length b' = 8 * n"
    using eight_bytes [OF Suc.prems(3)] .
  define x where "x = hd (u64_words a)"
  define y where "y = hd (u64_words b)"
  have w: "u64_words a = x # u64_words a'" "u64_words b = y # u64_words b'" 
    unfolding x_def y_def a(1) b(1) u64_words.simps list.sel by (rule refl)+
  have bits: "vector_bits a = map (bit x) [0..<64] @ vector_bits a'" "vector_bits b = map (bit y) [0..<64] @ vector_bits b'"
    unfolding x_def y_def a(1) b(1) u64_words.simps list.sel bit_u64_word by (simp_all only: vector_bits_def list.map concat.simps append_assoc append_Nil)
  have n: "64 = LENGTH(64)" by simp
  have "differing (vector_bits a) (vector_bits b) = popcount (unat (xor x y)) + differing (vector_bits a') (vector_bits b')"
    unfolding bits differing_word [OF n, of x y, symmetric] by (rule differing_append) (simp only: length_map)
  moreover have "distance_hamming_u64 popcountl (x # u64_words a') (y # u64_words b') (Suc n) =
      Some (popcount (unat (xor x y)) + differing (vector_bits a') (vector_bits b'))"
    unfolding distance_hamming_u64.simps Suc.IH [OF Suc.prems(1) a(2) b(2)] using Suc.prems(1) by (simp add: counts_bits_def)
  ultimately show ?case unfolding w by simp
qed

text \<open>
  C31: the two ways to compute the Hamming distance of binary vectors, by the byte table and by popcounts
  of 64-bit words, are equivalent with a \<^verbatim>\<open>__builtin_popcountl\<close> that counts the bits of 64-bit words: whichever the number of
  dimensions selects, the result is the number of places where the vectors differ, and it is at most the number of
  dimensions. The fallback in the file counts the bits of its 32-bit argument.
\<close>

theorem distance_hamming_counts_differences:
  assumes "counts_bits popcountl" and "d mod 8 = 0" and "length a = d div 8" and "length b = d div 8"
  shows "distance_hamming popcountl a b d = Some (differing (vector_bits a) (vector_bits b)) \<and>
    (d mod 64 = 0 \<longrightarrow> distance_hamming_u64 popcountl (u64_words a) (u64_words b) (d div 64) = distance_hamming_u8 a b (d div 8)) \<and>
    differing (vector_bits a) (vector_bits b) \<le> d \<and> builtin_popcountl x = popcount (unat x)"
proof (intro conjI impI)
  have u8: "distance_hamming_u8 a b (d div 8) = Some (differing (vector_bits a) (vector_bits b))"
    using hamming_u8 assms(3,4) by blast
  have u64: "distance_hamming_u64 popcountl (u64_words a) (u64_words b) (d div 64) = Some (differing (vector_bits a) (vector_bits b))"
    if m: "d mod 64 = 0"
  proof -
    obtain q where "d = 64 * q" using m by (auto simp: mod_eq_0_iff_dvd elim: dvdE)
    then have "d div 8 = 8 * (d div 64)" by simp
    then show ?thesis using hamming_u64 [OF assms(1)] assms(3,4) by metis
  qed
  have "d div 8 div 8 = d div 64" by (simp flip: div_mult2_eq)
  then show "distance_hamming popcountl a b d = Some (differing (vector_bits a) (vector_bits b))"
    using u8 u64 by (simp add: distance_hamming_def)
  show "distance_hamming_u64 popcountl (u64_words a) (u64_words b) (d div 64) = distance_hamming_u8 a b (d div 8)" if "d mod 64 = 0"
    using u8 u64 that by simp
  have "length (vector_bits bs) = 8 * length bs" for bs by (induction bs) (simp_all add: vector_bits_def)
  then have "length (vector_bits a) = d" using assms(2,3) mult_div_mod_eq [of 8 d] by simp
  then show "differing (vector_bits a) (vector_bits b) \<le> d" using differing_le [of "vector_bits a"] by metis
  show "builtin_popcountl x = popcount (unat x)" by (simp add: builtin_popcountl_def popcount_loop)
qed

theorem distance_hamming_counts_differences_witness:
  "distance_hamming (\<lambda>x. popcount (unat x)) [0xF0, 1] [0x0F, 3] 16 = Some 9 \<and>
   distance_hamming (\<lambda>x. popcount (unat x)) (replicate 8 3) (replicate 8 1) 64 = Some 8"
proof -
  have c: "counts_bits (\<lambda>x. popcount (unat x))" by (simp add: counts_bits_def)
  have "distance_hamming (\<lambda>x. popcount (unat x)) [0xF0, 1] [0x0F, 3] 16 = Some (differing (vector_bits [0xF0, 1]) (vector_bits [0x0F, 3]))"
    by (rule distance_hamming_counts_differences [OF c, THEN conjunct1]) simp_all
  moreover have "distance_hamming (\<lambda>x. popcount (unat x)) (replicate 8 3) (replicate 8 1) 64 =
      Some (differing (vector_bits (replicate 8 3)) (vector_bits (replicate 8 1)))"
    by (rule distance_hamming_counts_differences [OF c, THEN conjunct1]) simp_all
  moreover have "differing (vector_bits [0xF0, 1]) (vector_bits [0x0F, 3]) = 9" by code_simp
  moreover have "differing (vector_bits (replicate 8 3)) (vector_bits (replicate 8 1)) = 8" by code_simp
  ultimately show ?thesis by simp
qed

text \<open>
  With the fallback, whose \<^verbatim>\<open>unsigned int\<close> takes the lower half of the word it is called with, differences in the upper
  half are not counted.
\<close>

lemma fallback_popcount_loses_upper_half:
  assumes "\<forall>i < 32. bit x i = bit y i"
  shows "distance_hamming_u64 (\<lambda>w. builtin_popcountl (ucast w)) (x # a) (y # b) (Suc n) =
    distance_hamming_u64 (\<lambda>w. builtin_popcountl (ucast w)) a b n"
proof -
  have "(ucast (xor x y) :: 32 word) = 0" by (rule bit_word_eqI) (use assms in \<open>auto simp: bit_simps\<close>)
  then have "builtin_popcountl (ucast (xor x y)) = 0" by (simp only: builtin_popcountl_def popcount_loop) simp
  then show ?thesis by (simp add: option.map_ident fun_eq_iff) (cases "distance_hamming_u64 (\<lambda>w. builtin_popcountl (ucast w)) a b n"; simp)
qed

subsection \<open>The integer distance does not overflow\<close>

lemma byte_difference: "\<bar>sint (x :: byte) - sint (y :: byte)\<bar> \<le> 255"
  using sint_ge [of x] sint_lt [of x] sint_ge [of y] sint_lt [of y] by simp

lemma l1_int8_loop:
  "length a = d \<Longrightarrow> length b = d \<Longrightarrow> res + 255 * int d < 2 ^ 31 \<Longrightarrow>
     l1_int8_loop a b d res = Some (res + (\<Sum>(x, y) \<leftarrow> zip a b. \<bar>sint x - sint y\<bar>))"
proof (induction d arbitrary: a b res)
  case 0
  then show ?case by simp
next
  case (Suc d)
  then obtain x a' y b' where ab: "a = x # a'" "b = y # b'" "length a' = d" "length b' = d"
    by (auto simp: length_Suc_conv)
  have "res + \<bar>sint x - sint y\<bar> + 255 * int d < 2 ^ 31" using Suc.prems(3) byte_difference [of x y] by simp
  then show ?case using Suc.IH [OF ab(3,4), of "res + \<bar>sint x - sint y\<bar>"] by (simp add: ab)
qed

text \<open>
  C32: up to the largest number of dimensions a table can have (8192) the L1 distance of \<^verbatim>\<open>int8\<close> vectors is
  the sum of the absolute differences, without overflow of the 32-bit accumulator.
\<close>

theorem l1_int8_is_exact:
  assumes "d \<le> 8192" and "length a = d" and "length b = d"
  shows "l1_int8 a b d = Some (\<Sum>(x, y) \<leftarrow> zip a b. \<bar>sint x - sint y\<bar>)"
  using l1_int8_loop [OF assms(2,3), of 0] assms(1) by (simp add: l1_int8_def)

theorem l1_int8_is_exact_witness: "l1_int8 [0x7F, 0x80] [0x80, 1] 2 = Some 384"
proof -
  have "l1_int8 [0x7F, 0x80] [0x80, 1] 2 = Some (\<Sum>(x, y) \<leftarrow> zip [0x7F :: byte, 0x80] [0x80, 1 :: byte]. \<bar>sint x - sint y\<bar>)"
    by (rule l1_int8_is_exact) simp_all
  then show ?thesis by simp
qed

text \<open>
  C30: a bitmap of \<open>n\<close> positions is a set of numbers below \<open>n\<close>: reading tests membership, setting inserts or removes one
  position and leaves the others, the in-place conjunction is intersection, clearing and filling give the empty and the
  full set, copying the set itself, and each keeps the size.
\<close>

theorem bitmap_refines_sets:
  assumes "n mod 8 = 0" and "length a = n div 8" and "length b = n div 8" and "i < n"
  shows "bitmap_get a i = Some (i \<in> members a) \<and>
    (\<exists>c. bitmap_set a i v = Some c \<and> length c = length a \<and> members c = (if v then insert i (members a) else members a - {i})) \<and>
    (\<exists>c. bitmap_and_inplace a b n = Some c \<and> length c = length a \<and> members c = members a \<inter> members b) \<and>
    (\<exists>c. bitmap_clear a n = Some c \<and> length c = length a \<and> members c = {}) \<and>
    (\<exists>c. bitmap_fill a n = Some c \<and> length c = length a \<and> members c = {..<n}) \<and>
    bitmap_copy a b n = Some b \<and> members a \<subseteq> {..<n}"
proof -
  have i: "i < 8 * length a" using assms by auto
  have n: "8 * (n div 8) = n" using assms(1) by auto
  have "members a \<subseteq> {..<n}" using assms(2) n by (auto simp: in_members)
  then show ?thesis
    using bitmap_get_members [OF i] bitmap_set_members [OF i] bitmap_and_members [OF assms(2,3,1)]
      bitmap_clear_members [OF assms(2,1)] bitmap_fill_members [OF assms(2,1)] bitmap_copy_members [OF assms(2,3,1)] assms(2) n
    by simp
qed

theorem bitmap_refines_sets_witness:
  "(\<exists>c. bitmap_set [5] 1 True = Some c \<and> length c = 1 \<and> members c = insert 1 (members [5])) \<and>
   (\<exists>c. bitmap_and_inplace [5] [6] 8 = Some c \<and> length c = 1 \<and> members c = members [5] \<inter> members [6])"
  using bitmap_refines_sets [of 8 "[5]" "[6]" 1 True] by simp

end
