(* ===== verification/VecMetadata.thy ===== *)
theory VecMetadata
  imports VecBitmap
begin

text \<open>
  Metadata columns of a \<^verbatim>\<open>vec0\<close> table (\<^verbatim>\<open>crates/cli/vendor-sqlite-vec/sqlite-vec.c\<close>). The values of one
  column are stored chunk by chunk in one blob: a bit per row for booleans, eight bytes for integers and
  floats, a 16-byte view for texts (the length and the first 12 bytes; a longer text is also kept whole in a
  table of its own under the row's id). Modelled are writing a value, clearing it, reading it back and
  filtering a chunk by a constraint.

  SQLite is not part of the repository: the calls the code makes are the fields of \<open>sqlite_api\<close>, and what the
  SQLite documentation promises of them is the locale \<open>sqlite_store\<close>. The outcome of a call is a result code, or
  \<open>Inr\<close> of what it gives. Outer \<open>None\<close>: a failed \<^verbatim>\<open>assert\<close> or an access out of bounds.
\<close>

abbreviation (input) SQLITE_OK :: int where "SQLITE_OK \<equiv> 0"
abbreviation (input) SQLITE_ERROR :: int where "SQLITE_ERROR \<equiv> 1"
abbreviation (input) SQLITE_NOMEM :: int where "SQLITE_NOMEM \<equiv> 7"
abbreviation (input) SQLITE_DONE :: int where "SQLITE_DONE \<equiv> 101"

abbreviation (input) SQLITE_INTEGER :: int where "SQLITE_INTEGER \<equiv> 1"
abbreviation (input) SQLITE_FLOAT :: int where "SQLITE_FLOAT \<equiv> 2"
abbreviation (input) SQLITE_TEXT :: int where "SQLITE_TEXT \<equiv> 3"

text \<open>The blob columns of the shadow tables, each addressed by the id of a chunk.\<close>

datatype blob_column = Metadata_data nat | Chunks_rowids | Chunks_validity | Vectors nat

datatype text_sql = Text_select | Text_insert | Text_update | Text_delete

record 'db sqlite_api =
  blob_open :: "'db \<Rightarrow> blob_column \<Rightarrow> int \<Rightarrow> int"
  blob_bytes :: "'db \<Rightarrow> blob_column \<Rightarrow> int \<Rightarrow> nat"
  blob_read :: "'db \<Rightarrow> blob_column \<Rightarrow> int \<Rightarrow> nat \<Rightarrow> nat \<Rightarrow> int + byte list"
  blob_write :: "'db \<Rightarrow> blob_column \<Rightarrow> int \<Rightarrow> byte list \<Rightarrow> nat \<Rightarrow> int \<times> 'db"
  blob_close :: "'db \<Rightarrow> int"
  malloc :: "'db \<Rightarrow> nat \<Rightarrow> bool"
  prepare :: "'db \<Rightarrow> text_sql \<Rightarrow> int"
  text_select :: "'db \<Rightarrow> nat \<Rightarrow> int \<Rightarrow> byte list option"
  text_insert :: "'db \<Rightarrow> nat \<Rightarrow> int \<Rightarrow> byte list \<Rightarrow> int \<times> 'db"
  text_update :: "'db \<Rightarrow> nat \<Rightarrow> int \<Rightarrow> byte list \<Rightarrow> int \<times> 'db"
  text_delete :: "'db \<Rightarrow> nat \<Rightarrow> int \<Rightarrow> int \<times> 'db"

text \<open>
  A \<^verbatim>\<open>sqlite3_value\<close>: what the accessor functions give for it. \<^verbatim>\<open>double\<close> is the type \<open>'f\<close>, known by its
  order and its eight bytes.
\<close>

record 'f sqlite_value =
  value_type :: int
  value_int :: int
  value_int64 :: int
  value_double :: 'f
  value_text :: "byte list"

record 'f double_api =
  double_of_bytes :: "byte list \<Rightarrow> 'f"
  double_bytes :: "'f \<Rightarrow> byte list"
  double_zero :: 'f

subsection \<open>Numbers in memory\<close>

text \<open>Little-endian, as the supported machines store them.\<close>

definition le_nat :: "byte list \<Rightarrow> nat" where
  "le_nat bs = foldr (\<lambda>b n. unat b + 256 * n) bs 0"

primrec le_bytes :: "nat \<Rightarrow> nat \<Rightarrow> byte list" where
  "le_bytes 0 n = []"
| "le_bytes (Suc k) n = of_nat (n mod 256) # le_bytes k (n div 256)"

definition int_of_bytes :: "byte list \<Rightarrow> int" where
  "int_of_bytes bs = sint (of_nat (le_nat bs) :: 32 word)"

definition int_bytes :: "int \<Rightarrow> byte list" where
  "int_bytes n = le_bytes 4 (unat (of_int n :: 32 word))"

definition i64_of_bytes :: "byte list \<Rightarrow> int" where
  "i64_of_bytes bs = sint (of_nat (le_nat bs) :: 64 word)"

definition i64_bytes :: "int \<Rightarrow> byte list" where
  "i64_bytes n = le_bytes 8 (unat (of_int n :: 64 word))"

text \<open>A negative \<^verbatim>\<open>int\<close> passed as \<^verbatim>\<open>size_t\<close> is a very large number.\<close>

definition size_t :: "int \<Rightarrow> nat" where
  "size_t n = (if n < 0 then nat (n + 2 ^ 64) else nat n)"

definition bytes_at :: "byte list \<Rightarrow> nat \<Rightarrow> nat \<Rightarrow> byte list option" where
  "bytes_at bs offset n = (if offset + n \<le> length bs then Some (take n (drop offset bs)) else None)"

fun strncmp :: "byte list \<Rightarrow> byte list \<Rightarrow> nat \<Rightarrow> int option" where
  "strncmp _ _ 0 = Some 0"
| "strncmp (x # xs) (y # ys) (Suc n) =
     (if x \<noteq> y then Some (uint x - uint y) else if x = 0 then Some 0 else strncmp xs ys n)"
| "strncmp _ _ (Suc n) = None"

subsection \<open>Kinds, sizes and views\<close>

datatype metadata_kind = KIND_BOOLEAN | KIND_INTEGER | KIND_FLOAT | KIND_TEXT

datatype metadata_operator = OP_EQ | OP_GT | OP_LE | OP_LT | OP_GE | OP_NE | OP_IN

abbreviation (input) TEXT_VIEW_BUFFER_LENGTH :: nat where "TEXT_VIEW_BUFFER_LENGTH \<equiv> 16"
abbreviation (input) TEXT_VIEW_DATA_LENGTH :: nat where "TEXT_VIEW_DATA_LENGTH \<equiv> 12"

definition vec0_metadata_chunk_size :: "metadata_kind \<Rightarrow> nat \<Rightarrow> nat" where
  "vec0_metadata_chunk_size kind chunk_size =
     (case kind of
        KIND_BOOLEAN \<Rightarrow> chunk_size div 8
      | KIND_INTEGER \<Rightarrow> chunk_size * 8
      | KIND_FLOAT \<Rightarrow> chunk_size * 8
      | KIND_TEXT \<Rightarrow> chunk_size * TEXT_VIEW_BUFFER_LENGTH)"

definition text_view :: "byte list \<Rightarrow> byte list" where
  "text_view s =
     (let stored = take TEXT_VIEW_DATA_LENGTH s
      in int_bytes (int (length s)) @ stored @ replicate (TEXT_VIEW_DATA_LENGTH - length stored) 0)"

subsection \<open>Writing a value\<close>

definition value_fits :: "metadata_kind \<Rightarrow> 'f sqlite_value \<Rightarrow> bool" where
  "value_fits kind v =
     (case kind of
        KIND_BOOLEAN \<Rightarrow> value_type v = SQLITE_INTEGER \<and> (value_int v = 0 \<or> value_int v = 1)
      | KIND_INTEGER \<Rightarrow> value_type v = SQLITE_INTEGER
      | KIND_FLOAT \<Rightarrow> value_type v = SQLITE_FLOAT
      | KIND_TEXT \<Rightarrow> value_type v = SQLITE_TEXT)"

definition set_bit_of_block :: "byte list \<Rightarrow> nat \<Rightarrow> bool \<Rightarrow> byte list option" where
  "set_bit_of_block block offset v =
     (case block of
        [w] \<Rightarrow> Some [if v then or w (push_bit (offset mod CHAR_BIT) 1) else and w (not (push_bit (offset mod CHAR_BIT) 1))]
      | _ \<Rightarrow> None)"

text \<open>The statements on the table of long texts; the result is the code and the database.\<close>

definition write_long_text ::
  "'db sqlite_api \<Rightarrow> 'db \<Rightarrow> nat \<Rightarrow> int \<Rightarrow> byte list \<Rightarrow> int \<Rightarrow> bool \<Rightarrow> int \<times> 'db" where
  "write_long_text S db column rowid s prev_n isupdate =
     (if length s > TEXT_VIEW_DATA_LENGTH
      then let upd = (isupdate \<and> prev_n > int TEXT_VIEW_DATA_LENGTH);
               prc = prepare S db (if upd then Text_update else Text_insert)
           in if prc \<noteq> SQLITE_OK then (prc, db)
              else let (rc, db') = (if upd then text_update S db column rowid s else text_insert S db column rowid s)
                   in if rc \<noteq> SQLITE_DONE then (SQLITE_ERROR, db') else (SQLITE_OK, db')
      else if prev_n > int TEXT_VIEW_DATA_LENGTH
      then let prc = prepare S db Text_delete
           in if prc \<noteq> SQLITE_OK then (prc, db)
              else let (rc, db') = text_delete S db column rowid
                   in if rc \<noteq> SQLITE_DONE then (SQLITE_ERROR, db') else (SQLITE_OK, db')
      else (SQLITE_OK, db))"

text \<open>
  The code reached by \<^verbatim>\<open>break\<close> replaces the result code by that of \<^verbatim>\<open>sqlite3_blob_close\<close>: \<open>Inr\<close> marks that
  way out of the \<^verbatim>\<open>switch\<close> and \<open>Inl\<close> a \<^verbatim>\<open>goto done\<close>, which leaves the code alone.
\<close>

definition write_metadata_cell ::
  "'db sqlite_api \<Rightarrow> 'f double_api \<Rightarrow> 'db \<Rightarrow> metadata_kind \<Rightarrow> nat \<Rightarrow> int \<Rightarrow> int \<Rightarrow> nat \<Rightarrow> 'f sqlite_value \<Rightarrow> bool \<Rightarrow>
     ((int \<times> 'db) + 'db) option" where
  "write_metadata_cell S F db kind column rowid chunk_id chunk_offset v isupdate =
     (let blob = Metadata_data column
      in case kind of
        KIND_BOOLEAN \<Rightarrow>
          (case blob_read S db blob chunk_id (chunk_offset div CHAR_BIT) 1 of
             Inl rc \<Rightarrow> Some (Inl (rc, db))
           | Inr block \<Rightarrow> do {
               block' \<leftarrow> set_bit_of_block block chunk_offset (value_int v \<noteq> 0);
               Some (Inr (snd (blob_write S db blob chunk_id block' (chunk_offset div CHAR_BIT))))
             })
      | KIND_INTEGER \<Rightarrow> Some (Inr (snd (blob_write S db blob chunk_id (i64_bytes (value_int64 v)) (chunk_offset * 8))))
      | KIND_FLOAT \<Rightarrow> Some (Inr (snd (blob_write S db blob chunk_id (double_bytes F (value_double v)) (chunk_offset * 8))))
      | KIND_TEXT \<Rightarrow>
          (case blob_read S db blob chunk_id (chunk_offset * TEXT_VIEW_BUFFER_LENGTH) 4 of
             Inl rc \<Rightarrow> Some (Inl (rc, db))
           | Inr prev \<Rightarrow>
               let prev_n = int_of_bytes prev; s = value_text v;
                   db1 = snd (blob_write S db blob chunk_id (text_view s) (chunk_offset * TEXT_VIEW_BUFFER_LENGTH));
                   (rc, db2) = write_long_text S db1 column rowid s prev_n isupdate
               in Some (if rc \<noteq> SQLITE_OK then Inl (rc, db2) else Inr db2)))"

definition vec0_write_metadata_value ::
  "'db sqlite_api \<Rightarrow> 'f double_api \<Rightarrow> 'db \<Rightarrow> metadata_kind \<Rightarrow> nat \<Rightarrow> int \<Rightarrow> int \<Rightarrow> nat \<Rightarrow> 'f sqlite_value \<Rightarrow> bool \<Rightarrow>
     (int \<times> 'db) option" where
  "vec0_write_metadata_value S F db kind column rowid chunk_id chunk_offset v isupdate =
     (if \<not> value_fits kind v then Some (SQLITE_ERROR, db)
      else let rc = blob_open S db (Metadata_data column) chunk_id
           in if rc \<noteq> SQLITE_OK then Some (rc, db)
              else do {
                out \<leftarrow> write_metadata_cell S F db kind column rowid chunk_id chunk_offset v isupdate;
                Some (case out of Inl (rc, db') \<Rightarrow> (rc, db') | Inr db' \<Rightarrow> (blob_close S db', db'))
              })"

subsection \<open>Clearing and reading back\<close>

definition clear_metadata_cell ::
  "'db sqlite_api \<Rightarrow> 'f double_api \<Rightarrow> 'db \<Rightarrow> metadata_kind \<Rightarrow> nat \<Rightarrow> int \<Rightarrow> int \<Rightarrow> nat \<Rightarrow> (int \<times> 'db) option" where
  "clear_metadata_cell S F db kind column rowid chunk_id chunk_offset =
     (let blob = Metadata_data column
      in case kind of
        KIND_BOOLEAN \<Rightarrow>
          (case blob_read S db blob chunk_id (chunk_offset div CHAR_BIT) 1 of
             Inl rc \<Rightarrow> Some (rc, db)
           | Inr block \<Rightarrow> do {
               block' \<leftarrow> set_bit_of_block block chunk_offset False;
               Some (blob_write S db blob chunk_id block' (chunk_offset div CHAR_BIT))
             })
      | KIND_INTEGER \<Rightarrow> Some (blob_write S db blob chunk_id (i64_bytes 0) (chunk_offset * 8))
      | KIND_FLOAT \<Rightarrow> Some (blob_write S db blob chunk_id (double_bytes F (double_zero F)) (chunk_offset * 8))
      | KIND_TEXT \<Rightarrow>
          (case blob_read S db blob chunk_id (chunk_offset * TEXT_VIEW_BUFFER_LENGTH) 4 of
             Inl rc \<Rightarrow> Some (rc, db)
           | Inr prev \<Rightarrow>
               let (rc, db1) = blob_write S db blob chunk_id (replicate TEXT_VIEW_BUFFER_LENGTH 0)
                     (chunk_offset * TEXT_VIEW_BUFFER_LENGTH)
               in if rc \<noteq> SQLITE_OK then Some (rc, db1)
                  else if int_of_bytes prev > int TEXT_VIEW_DATA_LENGTH
                  then let prc = prepare S db1 Text_delete
                       in if prc \<noteq> SQLITE_OK then Some (prc, db1)
                          else let (src, db2) = text_delete S db1 column rowid
                               in Some (if src \<noteq> SQLITE_DONE then SQLITE_ERROR else src, db2)
                  else Some (rc, db1)))"

definition vec0Update_Delete_ClearMetadata ::
  "'db sqlite_api \<Rightarrow> 'f double_api \<Rightarrow> 'db \<Rightarrow> metadata_kind \<Rightarrow> nat \<Rightarrow> int \<Rightarrow> int \<Rightarrow> nat \<Rightarrow> (int \<times> 'db) option" where
  "vec0Update_Delete_ClearMetadata S F db kind column rowid chunk_id chunk_offset =
     (let rc = blob_open S db (Metadata_data column) chunk_id
      in if rc \<noteq> SQLITE_OK then Some (rc, db)
         else do {
           (rc1, db') \<leftarrow> clear_metadata_cell S F db kind column rowid chunk_id chunk_offset;
           Some (if rc1 = SQLITE_OK then (blob_close S db', db') else (rc1, db'))
         })"

text \<open>What \<^verbatim>\<open>vec0_result_metadata_value_for_rowid\<close> hands to SQLite.\<close>

datatype 'f metadata_result = Result_int int | Result_double 'f | Result_text "byte list"

definition result_metadata_value ::
  "'db sqlite_api \<Rightarrow> 'f double_api \<Rightarrow> 'db \<Rightarrow> metadata_kind \<Rightarrow> nat \<Rightarrow> int \<Rightarrow> int \<Rightarrow> nat \<Rightarrow> (int + 'f metadata_result) option" where
  "result_metadata_value S F db kind column rowid chunk_id chunk_offset =
     (let blob = Metadata_data column; rc = blob_open S db blob chunk_id
      in if rc \<noteq> SQLITE_OK then Some (Inl rc)
         else case kind of
        KIND_BOOLEAN \<Rightarrow>
          (case blob_read S db blob chunk_id (chunk_offset div CHAR_BIT) 1 of
             Inl rc \<Rightarrow> Some (Inl rc)
           | Inr block \<Rightarrow> map_option (\<lambda>b. Inr (Result_int (of_bool b))) (bitmap_get block (chunk_offset mod CHAR_BIT)))
      | KIND_INTEGER \<Rightarrow>
          Some (map_sum id (\<lambda>bs. Result_int (i64_of_bytes bs)) (blob_read S db blob chunk_id (chunk_offset * 8) 8))
      | KIND_FLOAT \<Rightarrow>
          Some (map_sum id (\<lambda>bs. Result_double (double_of_bytes F bs)) (blob_read S db blob chunk_id (chunk_offset * 8) 8))
      | KIND_TEXT \<Rightarrow>
          (case blob_read S db blob chunk_id (chunk_offset * TEXT_VIEW_BUFFER_LENGTH) TEXT_VIEW_BUFFER_LENGTH of
             Inl rc \<Rightarrow> Some (Inl rc)
           | Inr view \<Rightarrow> do {
               n \<leftarrow> map_option int_of_bytes (bytes_at view 0 4);
               if n \<le> int TEXT_VIEW_DATA_LENGTH
               then map_option (\<lambda>s. Inr (Result_text s)) (bytes_at view 4 (size_t n))
               else let prc = prepare S db Text_select
                    in if prc \<noteq> SQLITE_OK then Some (Inl prc)
                       else Some (case text_select S db column rowid of
                              None \<Rightarrow> Inl SQLITE_ERROR | Some s \<Rightarrow> Inr (Result_text s))
             }))"

subsection \<open>Filtering a chunk\<close>

text \<open>
  The loops over the rows of a chunk: a row gives an error, nothing, or the bit to set.
\<close>

fun filter_rows :: "(nat \<Rightarrow> (int + bool option) option) \<Rightarrow> nat list \<Rightarrow> byte list \<Rightarrow> (int + byte list) option" where
  "filter_rows row [] b = Some (Inr b)"
| "filter_rows row (i # is) b = do {
     r \<leftarrow> row i;
     case r of
       Inl rc \<Rightarrow> Some (Inl rc)
     | Inr None \<Rightarrow> filter_rows row is b
     | Inr (Some v) \<Rightarrow> do { b' \<leftarrow> bitmap_set b i v; filter_rows row is b' }
   }"

text \<open>\<open>nPrefix\<close> and \<open>sPrefix\<close> of a row.\<close>

definition row_view :: "byte list \<Rightarrow> nat \<Rightarrow> (int \<times> byte list) option" where
  "row_view buffer i = do {
     view \<leftarrow> bytes_at buffer (i * TEXT_VIEW_BUFFER_LENGTH) TEXT_VIEW_BUFFER_LENGTH;
     Some (int_of_bytes (take 4 view), drop 4 view)
   }"

definition vec0_get_metadata_text_long_value :: "'db sqlite_api \<Rightarrow> 'db \<Rightarrow> nat \<Rightarrow> int \<Rightarrow> int + byte list" where
  "vec0_get_metadata_text_long_value S db column rowid =
     (let prc = prepare S db Text_select
      in if prc \<noteq> SQLITE_OK then Inl prc
         else case text_select S db column rowid of None \<Rightarrow> Inl SQLITE_ERROR | Some s \<Rightarrow> Inr s)"

text \<open>
  The comparison with the whole text of a row: \<open>decide\<close> is what the operator makes of \<^verbatim>\<open>strncmp\<close>. The strings
  end with a zero byte.
\<close>

definition compare_long ::
  "'db sqlite_api \<Rightarrow> 'db \<Rightarrow> nat \<Rightarrow> int list \<Rightarrow> nat \<Rightarrow> int \<Rightarrow> byte list \<Rightarrow> (int \<Rightarrow> bool) \<Rightarrow> (int + bool option) option" where
  "compare_long S db column rowids i nPrefix sTarget decide =
     (if i \<ge> length rowids then None
      else case vec0_get_metadata_text_long_value S db column (rowids ! i) of
        Inl rc \<Rightarrow> Some (Inl rc)
      | Inr sFull \<Rightarrow>
          if nPrefix \<noteq> int (length sFull) then Some (Inl SQLITE_ERROR)
          else map_option (\<lambda>c. Inr (Some (decide c))) (strncmp (sFull @ [0]) (sTarget @ [0]) (length sFull)))"

text \<open>EQ and, with \<open>ne\<close>, NE.\<close>

definition text_equality_row ::
  "'db sqlite_api \<Rightarrow> 'db \<Rightarrow> nat \<Rightarrow> int list \<Rightarrow> byte list \<Rightarrow> byte list \<Rightarrow> bool \<Rightarrow> nat \<Rightarrow> (int + bool option) option" where
  "text_equality_row S db column rowids buffer sTarget ne i = do {
     (nPrefix, sPrefix) \<leftarrow> row_view buffer i;
     if nPrefix \<noteq> int (length sTarget) then Some (Inr (Some ne))
     else do {
       cmpPrefix \<leftarrow> strncmp sPrefix (sTarget @ [0]) (size_t (min nPrefix 12));
       if nPrefix \<le> int TEXT_VIEW_DATA_LENGTH then Some (Inr (Some ((cmpPrefix = 0) \<noteq> ne)))
       else if cmpPrefix \<noteq> 0 then Some (Inr (Some ne))
       else compare_long S db column rowids i nPrefix sTarget (\<lambda>c. (c = 0) \<noteq> ne)
     }
   }"

text \<open>GT, GE, LE and LT, which differ only in the relation.\<close>

definition text_range_row ::
  "'db sqlite_api \<Rightarrow> 'db \<Rightarrow> nat \<Rightarrow> int list \<Rightarrow> byte list \<Rightarrow> byte list \<Rightarrow> (int \<Rightarrow> int \<Rightarrow> bool) \<Rightarrow> nat \<Rightarrow>
     (int + bool option) option" where
  "text_range_row S db column rowids buffer sTarget rel i = do {
     (nPrefix, sPrefix) \<leftarrow> row_view buffer i;
     cmpPrefix \<leftarrow> strncmp sPrefix (sTarget @ [0]) (size_t (min (min nPrefix 12) (int (length sTarget))));
     if nPrefix < int TEXT_VIEW_DATA_LENGTH
     then Some (Inr (Some (if cmpPrefix = 0 then rel nPrefix (int (length sTarget)) else rel cmpPrefix 0)))
     else compare_long S db column rowids i nPrefix sTarget (\<lambda>c. rel c 0)
   }"

text \<open>IN: the targets in turn, until one matches.\<close>

fun text_in_row ::
  "'db sqlite_api \<Rightarrow> 'db \<Rightarrow> nat \<Rightarrow> int list \<Rightarrow> int \<Rightarrow> byte list \<Rightarrow> byte list list \<Rightarrow> nat \<Rightarrow> (int + bool option) option" where
  "text_in_row S db column rowids nPrefix sPrefix [] i = Some (Inr None)"
| "text_in_row S db column rowids nPrefix sPrefix (entry # targets) i =
     (if int (length entry) \<noteq> nPrefix then text_in_row S db column rowids nPrefix sPrefix targets i
      else do {
        cmpPrefix \<leftarrow> strncmp sPrefix (entry @ [0]) (size_t (min nPrefix 12));
        if nPrefix \<le> int TEXT_VIEW_DATA_LENGTH
        then if cmpPrefix = 0 then Some (Inr (Some True))
             else text_in_row S db column rowids nPrefix sPrefix targets i
        else if cmpPrefix \<noteq> 0 then text_in_row S db column rowids nPrefix sPrefix targets i
        else do {
          r \<leftarrow> compare_long S db column rowids i nPrefix entry (\<lambda>c. c = 0);
          case r of
            Inl rc \<Rightarrow> Some (Inl rc)
          | Inr (Some True) \<Rightarrow> Some (Inr (Some True))
          | Inr _ \<Rightarrow> text_in_row S db column rowids nPrefix sPrefix targets i
        }
      })"

text \<open>
  \<open>in_values\<close> is the array \<^verbatim>\<open>aMetadataIn\<close>: for an index of \<^verbatim>\<open>argv\<close> the values of its \<^verbatim>\<open>in (...)\<close>. The parameter
  \<^verbatim>\<open>chunk_rowid\<close> is an \<^verbatim>\<open>int\<close>: the caller's 64-bit id is truncated.
\<close>

definition vec0_metadata_filter_text ::
  "'db sqlite_api \<Rightarrow> 'db \<Rightarrow> byte list \<Rightarrow> byte list \<Rightarrow> nat \<Rightarrow> metadata_operator \<Rightarrow> byte list \<Rightarrow> nat \<Rightarrow> int \<Rightarrow>
     (nat \<Rightarrow> byte list list option) \<Rightarrow> nat \<Rightarrow> (int + byte list) option" where
  "vec0_metadata_filter_text S db sTarget buffer n op b column chunk_rowid in_values argv_idx =
     (let chunk = sint (of_int chunk_rowid :: 32 word); rc = blob_open S db Chunks_rowids chunk;
          size = blob_bytes S db Chunks_rowids chunk
      in if rc \<noteq> SQLITE_OK then Some (Inl rc)
         else if size mod 8 \<noteq> 0 \<or> size div 8 \<noteq> n then None
         else if \<not> malloc S db size then Some (Inl SQLITE_NOMEM)
         else case blob_read S db Chunks_rowids chunk 0 size of
           Inl rc \<Rightarrow> Some (Inl rc)
         | Inr bytes \<Rightarrow>
             let rowids = map (\<lambda>i. i64_of_bytes (take 8 (drop (8 * i) bytes))) [0..<n]
             in case op of
                  OP_EQ \<Rightarrow> filter_rows (text_equality_row S db column rowids buffer sTarget False) [0..<n] b
                | OP_NE \<Rightarrow> filter_rows (text_equality_row S db column rowids buffer sTarget True) [0..<n] b
                | OP_GT \<Rightarrow> filter_rows (text_range_row S db column rowids buffer sTarget (>)) [0..<n] b
                | OP_GE \<Rightarrow> filter_rows (text_range_row S db column rowids buffer sTarget (\<ge>)) [0..<n] b
                | OP_LE \<Rightarrow> filter_rows (text_range_row S db column rowids buffer sTarget (\<le>)) [0..<n] b
                | OP_LT \<Rightarrow> filter_rows (text_range_row S db column rowids buffer sTarget (<)) [0..<n] b
                | OP_IN \<Rightarrow> do {
                    targets \<leftarrow> in_values argv_idx;
                    filter_rows (\<lambda>i. do {
                      (nPrefix, sPrefix) \<leftarrow> row_view buffer i;
                      text_in_row S db column rowids nPrefix sPrefix targets i
                    }) [0..<n] b
                  })"

definition integer_relation :: "metadata_operator \<Rightarrow> ('a :: linorder \<Rightarrow> 'a \<Rightarrow> bool) option" where
  "integer_relation op =
     (case op of OP_EQ \<Rightarrow> Some (=) | OP_GT \<Rightarrow> Some (>) | OP_LE \<Rightarrow> Some (\<le>) | OP_LT \<Rightarrow> Some (<) | OP_GE \<Rightarrow> Some (\<ge>)
      | OP_NE \<Rightarrow> Some (\<noteq>) | OP_IN \<Rightarrow> None)"

text \<open>\<open>array[i]\<close> of a buffer of eight-byte values.\<close>

definition cell8 :: "byte list \<Rightarrow> nat \<Rightarrow> byte list option" where
  "cell8 buffer i = bytes_at buffer (8 * i) 8"

definition vec0_set_metadata_filter_bitmap ::
  "'db sqlite_api \<Rightarrow> ('f :: linorder) double_api \<Rightarrow> 'db \<Rightarrow> metadata_kind \<Rightarrow> nat \<Rightarrow> metadata_operator \<Rightarrow> 'f sqlite_value \<Rightarrow> int \<Rightarrow>
     byte list \<Rightarrow> nat \<Rightarrow> (nat \<Rightarrow> byte list list option) \<Rightarrow> (nat \<Rightarrow> int list option) \<Rightarrow> nat \<Rightarrow> (int + byte list) option" where
  "vec0_set_metadata_filter_bitmap S F db kind column op value chunk_rowid b n in_texts in_ints argv_idx =
     (let blob = Metadata_data column; rc = blob_open S db blob chunk_rowid; size = blob_bytes S db blob chunk_rowid
      in if rc \<noteq> SQLITE_OK then Some (Inl rc)
         else if size \<noteq> vec0_metadata_chunk_size kind n then Some (Inl SQLITE_ERROR)
         else if \<not> malloc S db size then Some (Inl SQLITE_NOMEM)
         else case blob_read S db blob chunk_rowid 0 size of
           Inl rc \<Rightarrow> Some (Inl rc)
         | Inr buffer \<Rightarrow>
           (case kind of
              KIND_BOOLEAN \<Rightarrow>
                let target = (value_int value \<noteq> 0); same = (target \<and> op = OP_EQ \<or> \<not> target \<and> op = OP_NE)
                in filter_rows (\<lambda>i. map_option (\<lambda>v. Inr (Some (v = same))) (bitmap_get buffer i)) [0..<n] b
            | KIND_INTEGER \<Rightarrow>
                (case integer_relation op of
                   Some rel \<Rightarrow>
                     filter_rows (\<lambda>i. map_option (\<lambda>v. Inr (Some (rel (i64_of_bytes v) (value_int64 value)))) (cell8 buffer i)) [0..<n] b
                 | None \<Rightarrow>
                     (case in_ints argv_idx of
                        None \<Rightarrow> Some (Inl SQLITE_ERROR)
                      | Some targets \<Rightarrow>
                          filter_rows (\<lambda>i. map_option (\<lambda>v. Inr (if i64_of_bytes v \<in> set targets then Some True else None))
                            (cell8 buffer i)) [0..<n] b))
            | KIND_FLOAT \<Rightarrow>
                (case integer_relation op of
                   Some rel \<Rightarrow>
                     filter_rows (\<lambda>i. map_option (\<lambda>v. Inr (Some (rel (double_of_bytes F v) (value_double value)))) (cell8 buffer i)) [0..<n] b
                 | None \<Rightarrow> Some (Inr b))
            | KIND_TEXT \<Rightarrow>
                vec0_metadata_filter_text S db (value_text value) buffer n op b column chunk_rowid in_texts argv_idx))"

end
