(* ===== verification/VecDistance.thy ===== *)
theory VecDistance
  imports VecBitmap Complex_Main
begin

text \<open>
  The distances of \<^verbatim>\<open>crates/cli/vendor-sqlite-vec/sqlite-vec.c\<close> as they are built without the NEON and AVX
  variants. Floating-point arithmetic is a parameter: \<open>float_api\<close> has the operations the loops use, over a type
  \<open>'r\<close> for \<^verbatim>\<open>f32\<close> and a type \<open>'g\<close> for \<^verbatim>\<open>double\<close>, so that the loops, their conversions and their array accesses
  are the code's and the rounding is not fixed; the compiler's \<^verbatim>\<open>__builtin_popcountl\<close> is its last field. Reading past a
  vector is \<open>None\<close>.
\<close>

record ('r, 'g) float_api =
  f_of_bytes :: "byte list \<Rightarrow> 'r"
  f_of_int :: "int \<Rightarrow> 'r"
  f_zero :: 'r
  f_add :: "'r \<Rightarrow> 'r \<Rightarrow> 'r"
  f_sub :: "'r \<Rightarrow> 'r \<Rightarrow> 'r"
  f_mul :: "'r \<Rightarrow> 'r \<Rightarrow> 'r"
  f_of_d :: "'g \<Rightarrow> 'r"
  d_of_f :: "'r \<Rightarrow> 'g"
  d_zero :: 'g
  d_one :: 'g
  d_add :: "'g \<Rightarrow> 'g \<Rightarrow> 'g"
  d_sub :: "'g \<Rightarrow> 'g \<Rightarrow> 'g"
  d_mul :: "'g \<Rightarrow> 'g \<Rightarrow> 'g"
  d_div :: "'g \<Rightarrow> 'g \<Rightarrow> 'g"
  d_sqrt :: "'g \<Rightarrow> 'g"
  d_fabs :: "'g \<Rightarrow> 'g"
  popcountl :: "64 word \<Rightarrow> nat"

text \<open>A byte pointer read as a pointer to \<^verbatim>\<open>f32\<close>.\<close>

fun f32_cells :: "('r, 'g) float_api \<Rightarrow> byte list \<Rightarrow> 'r list" where
  "f32_cells F (b0 # b1 # b2 # b3 # bs) = f_of_bytes F [b0, b1, b2, b3] # f32_cells F bs"
| "f32_cells F _ = []"

subsection \<open>Euclidean distance\<close>

fun l2_sqr_float_loop :: "('r, 'g) float_api \<Rightarrow> 'r list \<Rightarrow> 'r list \<Rightarrow> nat \<Rightarrow> 'r \<Rightarrow> 'r option" where
  "l2_sqr_float_loop F a b 0 res = Some res"
| "l2_sqr_float_loop F (x # a) (y # b) (Suc qty) res =
     (let t = f_sub F x y in l2_sqr_float_loop F a b qty (f_add F res (f_mul F t t)))"
| "l2_sqr_float_loop F _ _ (Suc qty) res = None"

definition l2_sqr_float :: "('r, 'g) float_api \<Rightarrow> byte list \<Rightarrow> byte list \<Rightarrow> nat \<Rightarrow> 'r option" where
  "l2_sqr_float F a b qty =
     map_option (\<lambda>res. f_of_d F (d_sqrt F (d_of_f F res))) (l2_sqr_float_loop F (f32_cells F a) (f32_cells F b) qty (f_zero F))"

definition distance_l2_sqr_float :: "('r, 'g) float_api \<Rightarrow> byte list \<Rightarrow> byte list \<Rightarrow> nat \<Rightarrow> 'r option" where
  "distance_l2_sqr_float F a b d = l2_sqr_float F a b d"

fun l2_sqr_int8_loop :: "('r, 'g) float_api \<Rightarrow> byte list \<Rightarrow> byte list \<Rightarrow> nat \<Rightarrow> 'r \<Rightarrow> 'r option" where
  "l2_sqr_int8_loop F a b 0 res = Some res"
| "l2_sqr_int8_loop F (x # a) (y # b) (Suc d) res =
     (let t = f_of_int F (sint x - sint y) in l2_sqr_int8_loop F a b d (f_add F res (f_mul F t t)))"
| "l2_sqr_int8_loop F _ _ (Suc d) res = None"

definition l2_sqr_int8 :: "('r, 'g) float_api \<Rightarrow> byte list \<Rightarrow> byte list \<Rightarrow> nat \<Rightarrow> 'r option" where
  "l2_sqr_int8 F a b d = map_option (\<lambda>res. f_of_d F (d_sqrt F (d_of_f F res))) (l2_sqr_int8_loop F a b d (f_zero F))"

definition distance_l2_sqr_int8 :: "('r, 'g) float_api \<Rightarrow> byte list \<Rightarrow> byte list \<Rightarrow> nat \<Rightarrow> 'r option" where
  "distance_l2_sqr_int8 F a b d = l2_sqr_int8 F a b d"

subsection \<open>City-block distance\<close>

definition distance_l1_int8 :: "byte list \<Rightarrow> byte list \<Rightarrow> nat \<Rightarrow> int option" where
  "distance_l1_int8 a b d = l1_int8 a b d"

fun l1_f32_loop :: "('r, 'g) float_api \<Rightarrow> 'r list \<Rightarrow> 'r list \<Rightarrow> nat \<Rightarrow> 'g \<Rightarrow> 'g option" where
  "l1_f32_loop F a b 0 res = Some res"
| "l1_f32_loop F (x # a) (y # b) (Suc d) res =
     l1_f32_loop F a b d (d_add F res (d_fabs F (d_sub F (d_of_f F x) (d_of_f F y))))"
| "l1_f32_loop F _ _ (Suc d) res = None"

definition l1_f32 :: "('r, 'g) float_api \<Rightarrow> byte list \<Rightarrow> byte list \<Rightarrow> nat \<Rightarrow> 'g option" where
  "l1_f32 F a b d = l1_f32_loop F (f32_cells F a) (f32_cells F b) d (d_zero F)"

definition distance_l1_f32 :: "('r, 'g) float_api \<Rightarrow> byte list \<Rightarrow> byte list \<Rightarrow> nat \<Rightarrow> 'g option" where
  "distance_l1_f32 F a b d = l1_f32 F a b d"

subsection \<open>Cosine distance\<close>

definition cosine_result :: "('r, 'g) float_api \<Rightarrow> 'r \<Rightarrow> 'r \<Rightarrow> 'r \<Rightarrow> 'r" where
  "cosine_result F dot aMag bMag =
     f_of_d F (d_sub F (d_one F) (d_div F (d_of_f F dot) (d_mul F (d_sqrt F (d_of_f F aMag)) (d_sqrt F (d_of_f F bMag)))))"

fun cosine_float_loop :: "('r, 'g) float_api \<Rightarrow> 'r list \<Rightarrow> 'r list \<Rightarrow> nat \<Rightarrow> 'r \<Rightarrow> 'r \<Rightarrow> 'r \<Rightarrow> 'r option" where
  "cosine_float_loop F a b 0 dot aMag bMag = Some (cosine_result F dot aMag bMag)"
| "cosine_float_loop F (x # a) (y # b) (Suc qty) dot aMag bMag =
     cosine_float_loop F a b qty (f_add F dot (f_mul F x y)) (f_add F aMag (f_mul F x x)) (f_add F bMag (f_mul F y y))"
| "cosine_float_loop F _ _ (Suc qty) dot aMag bMag = None"

definition distance_cosine_float :: "('r, 'g) float_api \<Rightarrow> byte list \<Rightarrow> byte list \<Rightarrow> nat \<Rightarrow> 'r option" where
  "distance_cosine_float F a b qty =
     cosine_float_loop F (f32_cells F a) (f32_cells F b) qty (f_zero F) (f_zero F) (f_zero F)"

fun cosine_int8_loop :: "('r, 'g) float_api \<Rightarrow> byte list \<Rightarrow> byte list \<Rightarrow> nat \<Rightarrow> 'r \<Rightarrow> 'r \<Rightarrow> 'r \<Rightarrow> 'r option" where
  "cosine_int8_loop F a b 0 dot aMag bMag = Some (cosine_result F dot aMag bMag)"
| "cosine_int8_loop F (x # a) (y # b) (Suc d) dot aMag bMag =
     cosine_int8_loop F a b d (f_add F dot (f_of_int F (sint x * sint y))) (f_add F aMag (f_of_int F (sint x * sint x)))
       (f_add F bMag (f_of_int F (sint y * sint y)))"
| "cosine_int8_loop F _ _ (Suc d) dot aMag bMag = None"

definition distance_cosine_int8 :: "('r, 'g) float_api \<Rightarrow> byte list \<Rightarrow> byte list \<Rightarrow> nat \<Rightarrow> 'r option" where
  "distance_cosine_int8 F a b d = cosine_int8_loop F a b d (f_zero F) (f_zero F) (f_zero F)"

subsection \<open>The distance of a row\<close>

datatype vector_element_type = FLOAT32 | INT8 | BIT

datatype distance_metric = METRIC_L2 | METRIC_COSINE | METRIC_L1

definition vector_byte_size :: "vector_element_type \<Rightarrow> nat \<Rightarrow> nat" where
  "vector_byte_size element_type dimensions =
     (case element_type of FLOAT32 \<Rightarrow> dimensions * 4 | INT8 \<Rightarrow> dimensions * 1 | BIT \<Rightarrow> dimensions div CHAR_BIT)"

definition row_distance ::
  "('r, 'g) float_api \<Rightarrow> vector_element_type \<Rightarrow> distance_metric \<Rightarrow> nat \<Rightarrow> byte list \<Rightarrow> byte list \<Rightarrow> nat \<Rightarrow> 'r option" where
  "row_distance F element_type metric dimensions baseVectors queryVector i =
     (case element_type of
        FLOAT32 \<Rightarrow>
          let base_i = drop (i * dimensions * 4) baseVectors
          in (case metric of
                METRIC_L2 \<Rightarrow> distance_l2_sqr_float F base_i queryVector dimensions
              | METRIC_L1 \<Rightarrow> map_option (f_of_d F) (distance_l1_f32 F base_i queryVector dimensions)
              | METRIC_COSINE \<Rightarrow> distance_cosine_float F base_i queryVector dimensions)
      | INT8 \<Rightarrow>
          let base_i = drop (i * dimensions) baseVectors
          in (case metric of
                METRIC_L2 \<Rightarrow> distance_l2_sqr_int8 F base_i queryVector dimensions
              | METRIC_L1 \<Rightarrow> map_option (f_of_int F) (distance_l1_int8 base_i queryVector dimensions)
              | METRIC_COSINE \<Rightarrow> distance_cosine_int8 F base_i queryVector dimensions)
      | BIT \<Rightarrow>
          let base_i = drop (i * (dimensions div CHAR_BIT)) baseVectors
          in map_option (\<lambda>n. f_of_int F (int n)) (distance_hamming (popcountl F) base_i queryVector dimensions))"

subsection \<open>Every distance is computed within the vectors\<close>

lemma length_f32_cells: "length (f32_cells F bs) = length bs div 4"
  by (induction F bs rule: f32_cells.induct) simp_all

lemma l2_float_total: "n \<le> length a \<Longrightarrow> n \<le> length b \<Longrightarrow> \<exists>v. l2_sqr_float_loop F a b n r = Some v"
  by (induction F a b n r rule: l2_sqr_float_loop.induct) (simp_all add: Let_def)

lemma l1_float_total: "n \<le> length a \<Longrightarrow> n \<le> length b \<Longrightarrow> \<exists>v. l1_f32_loop F a b n r = Some v"
  by (induction F a b n r rule: l1_f32_loop.induct) simp_all

lemma cosine_float_total: "n \<le> length a \<Longrightarrow> n \<le> length b \<Longrightarrow> \<exists>v. cosine_float_loop F a b n r1 r2 r3 = Some v"
  by (induction F a b n r1 r2 r3 rule: cosine_float_loop.induct) simp_all

lemma l2_int8_total: "n \<le> length a \<Longrightarrow> n \<le> length b \<Longrightarrow> \<exists>v. l2_sqr_int8_loop F a b n r = Some v"
  by (induction F a b n r rule: l2_sqr_int8_loop.induct) (simp_all add: Let_def)

lemma l1_int8_loop_total: "n \<le> length a \<Longrightarrow> n \<le> length b \<Longrightarrow> m + 255 * int n < 2 ^ 31 \<Longrightarrow> \<exists>v. l1_int8_loop a b n m = Some v"
proof (induction a b n m rule: l1_int8_loop.induct)
  case (2 x a y b n m)
  then show ?case using byte_difference [of x y] by (simp add: Let_def)
qed simp_all

lemma cosine_int8_total: "n \<le> length a \<Longrightarrow> n \<le> length b \<Longrightarrow> \<exists>v. cosine_int8_loop F a b n r1 r2 r3 = Some v"
  by (induction F a b n r1 r2 r3 rule: cosine_int8_loop.induct) simp_all

lemma hamming_u8_total: "n \<le> length a \<Longrightarrow> n \<le> length b \<Longrightarrow> \<exists>v. distance_hamming_u8 a b n = Some v"
  by (induction a b n rule: distance_hamming_u8.induct) auto

lemma hamming_u64_total: "n \<le> length a \<Longrightarrow> n \<le> length b \<Longrightarrow> \<exists>v. distance_hamming_u64 pop a b n = Some v"
  by (induction pop a b n rule: distance_hamming_u64.induct) auto

lemma length_u64_words: "length (u64_words bs) = length bs div 8"
  by (induction bs rule: u64_words.induct) simp_all

lemma hamming_total:
  assumes "d div 8 \<le> length a" and "d div 8 \<le> length b"
  shows "\<exists>v. distance_hamming pop a b d = Some v"
proof (cases "d mod 64 = 0")
  case True
  have "d div 8 div 8 \<le> length a div 8" "d div 8 div 8 \<le> length b div 8" using assms by (auto intro: div_le_mono)
  then show ?thesis using True hamming_u64_total [of "d div 8 div 8" "u64_words a" "u64_words b"]
    by (simp add: distance_hamming_def length_u64_words)
next
  case False
  then show ?thesis using assms hamming_u8_total [of "d div 8" a b] by (simp add: distance_hamming_def)
qed

lemma row_bytes:
  assumes "i < n" and "length base = n * sz"
  shows "sz \<le> length (drop (i * sz) base)"
proof -
  have "i * sz + sz \<le> n * sz" using assms(1) by (metis Suc_leI add.commute mult_Suc mult_le_mono1)
  then show ?thesis using assms(2) by simp
qed

lemma row_distance_total:
  assumes "i < n" and "length base = n * vector_byte_size element_type dims" and "vector_byte_size element_type dims \<le> length query"
    and "dims \<le> 8192"
  shows "\<exists>v. row_distance F element_type metric dims base query i = Some v"
proof (cases element_type)
  case FLOAT32
  then have "dims * 4 \<le> length (drop (i * (dims * 4)) base)" "dims * 4 \<le> length query"
    using assms row_bytes [OF assms(1), of base "dims * 4"] by (simp_all add: vector_byte_size_def)
  then have "dims \<le> length (f32_cells F (drop (i * (dims * 4)) base))" "dims \<le> length (f32_cells F query)"
    by (simp_all add: length_f32_cells less_eq_div_iff_mult_less_eq)
  then show ?thesis using FLOAT32 l2_float_total [of dims _ _ F "f_zero F"] l1_float_total [of dims _ _ F "d_zero F"]
      cosine_float_total [of dims _ _ F "f_zero F" "f_zero F" "f_zero F"]
    by (cases metric) (simp_all add: row_distance_def distance_l2_sqr_float_def l2_sqr_float_def distance_l1_f32_def l1_f32_def
        distance_cosine_float_def mult.assoc)
next
  case INT8
  then have "dims \<le> length (drop (i * dims) base)" "dims \<le> length query" "255 * int dims < 2 ^ 31"
    using assms row_bytes [OF assms(1), of base dims] by (simp_all add: vector_byte_size_def)
  then show ?thesis using INT8 l2_int8_total [of dims _ _ F "f_zero F"] l1_int8_loop_total [of dims _ _ 0]
      cosine_int8_total [of dims _ _ F "f_zero F" "f_zero F" "f_zero F"]
    by (cases metric) (simp_all add: row_distance_def distance_l2_sqr_int8_def l2_sqr_int8_def distance_l1_int8_def l1_int8_def
        distance_cosine_int8_def)
next
  case BIT
  then show ?thesis using assms row_bytes [OF assms(1), of base "dims div 8"] hamming_total [of dims "drop (i * (dims div 8)) base" query]
    by (simp add: row_distance_def vector_byte_size_def)
qed

subsection \<open>What the loops compute\<close>

text \<open>Arithmetic without rounding: the operations of the real numbers.\<close>

definition exact_arithmetic :: "(real, real) float_api \<Rightarrow> bool" where
  "exact_arithmetic F \<longleftrightarrow>
     (\<forall>n. f_of_int F n = of_int n) \<and> f_zero F = 0 \<and> d_zero F = 0 \<and> d_one F = 1 \<and>
     (\<forall>x. f_of_d F x = x \<and> d_of_f F x = x \<and> d_sqrt F x = sqrt x \<and> d_fabs F x = \<bar>x\<bar>) \<and>
     (\<forall>x y. f_add F x y = x + y \<and> f_sub F x y = x - y \<and> f_mul F x y = x * y \<and>
        d_add F x y = x + y \<and> d_sub F x y = x - y \<and> d_mul F x y = x * y \<and> d_div F x y = x / y)"

definition inner :: "real list \<Rightarrow> real list \<Rightarrow> real" where
  "inner xs ys = (\<Sum>(x, y) \<leftarrow> zip xs ys. x * y)"

definition euclidean :: "real list \<Rightarrow> real list \<Rightarrow> real" where
  "euclidean xs ys = sqrt (\<Sum>(x, y) \<leftarrow> zip xs ys. (x - y)\<^sup>2)"

definition city_block :: "real list \<Rightarrow> real list \<Rightarrow> real" where
  "city_block xs ys = (\<Sum>(x, y) \<leftarrow> zip xs ys. \<bar>x - y\<bar>)"

definition cosine_distance :: "real list \<Rightarrow> real list \<Rightarrow> real" where
  "cosine_distance xs ys = 1 - inner xs ys / (sqrt (inner xs xs) * sqrt (inner ys ys))"

definition i8_values :: "byte list \<Rightarrow> real list" where
  "i8_values bs = map (\<lambda>b. of_int (sint b)) bs"

lemma inner_Cons [simp]: "inner [] ys = 0" "inner (x # xs) (y # ys) = x * y + inner xs ys"
  by (simp_all add: inner_def)

lemma i8_values_simps [simp]: "i8_values [] = []" "i8_values (b # bs) = of_int (sint b) # i8_values bs"
  by (simp_all add: i8_values_def)

lemma l2_float_exact:
  "exact_arithmetic F \<Longrightarrow> n \<le> length a \<Longrightarrow> n \<le> length b \<Longrightarrow>
     l2_sqr_float_loop F a b n r = Some (r + (\<Sum>(x, y) \<leftarrow> zip (take n a) (take n b). (x - y)\<^sup>2))"
  by (induction F a b n r rule: l2_sqr_float_loop.induct) (simp_all add: Let_def exact_arithmetic_def power2_eq_square)

lemma l1_float_exact:
  "exact_arithmetic F \<Longrightarrow> n \<le> length a \<Longrightarrow> n \<le> length b \<Longrightarrow>
     l1_f32_loop F a b n r = Some (r + city_block (take n a) (take n b))"
  by (induction F a b n r rule: l1_f32_loop.induct) (simp_all add: city_block_def exact_arithmetic_def)

lemma cosine_float_exact:
  "exact_arithmetic F \<Longrightarrow> n \<le> length a \<Longrightarrow> n \<le> length b \<Longrightarrow>
     cosine_float_loop F a b n u v w = Some (1 - (u + inner (take n a) (take n b)) /
       (sqrt (v + inner (take n a) (take n a)) * sqrt (w + inner (take n b) (take n b))))"
  by (induction F a b n u v w rule: cosine_float_loop.induct)
    (simp_all add: cosine_result_def exact_arithmetic_def inner_def add.assoc)

lemma l2_int8_exact:
  "exact_arithmetic F \<Longrightarrow> n \<le> length a \<Longrightarrow> n \<le> length b \<Longrightarrow>
     l2_sqr_int8_loop F a b n r = Some (r + (\<Sum>(x, y) \<leftarrow> zip (i8_values (take n a)) (i8_values (take n b)). (x - y)\<^sup>2))"
  by (induction F a b n r rule: l2_sqr_int8_loop.induct) (simp_all add: Let_def exact_arithmetic_def power2_eq_square)

lemma cosine_int8_exact:
  "exact_arithmetic F \<Longrightarrow> n \<le> length a \<Longrightarrow> n \<le> length b \<Longrightarrow>
     cosine_int8_loop F a b n u v w = Some (1 - (u + inner (i8_values (take n a)) (i8_values (take n b))) /
       (sqrt (v + inner (i8_values (take n a)) (i8_values (take n a))) * sqrt (w + inner (i8_values (take n b)) (i8_values (take n b)))))"
  by (induction F a b n u v w rule: cosine_int8_loop.induct)
    (simp_all add: cosine_result_def exact_arithmetic_def inner_def add.assoc)

lemma i8_city_block:
  "of_int (\<Sum>(x, y) \<leftarrow> zip a b. \<bar>sint x - sint y\<bar>) = city_block (i8_values a) (i8_values b)"
  by (induction a b rule: list_induct2') (simp_all add: city_block_def i8_values_def)

text \<open>
  C33: in exact arithmetic the distance of row \<open>i\<close> of a chunk is the Euclidean, city-block or cosine distance between
  the row's own \<open>dims\<close> values and the query's, for \<^verbatim>\<open>f32\<close> and for \<^verbatim>\<open>int8\<close> vectors alike. (A quotient by 0, which the
  cosine of a vector of zeros is, is 0 in exact arithmetic and a NaN in the code's; bit vectors have a distance of their own.)
\<close>

theorem row_distance_is_the_metric:
  assumes "exact_arithmetic F" and "i < n" and "t \<noteq> BIT" and "dims \<le> 8192"
    and "length base = n * vector_byte_size t dims" and "length query = vector_byte_size t dims"
    and "values = (if t = FLOAT32 then f32_cells F else i8_values)"
  shows "\<exists>row q. row = take dims (values (drop (i * vector_byte_size t dims) base)) \<and> q = values query \<and>
    length row = dims \<and> length q = dims \<and>
    row_distance F t metric dims base query i =
      Some (case metric of METRIC_L2 \<Rightarrow> euclidean row q | METRIC_L1 \<Rightarrow> city_block row q | METRIC_COSINE \<Rightarrow> cosine_distance row q)"
proof (cases "t = FLOAT32")
  case True
  define a where "a = f32_cells F (drop (i * (dims * 4)) base)"
  define q where "q = f32_cells F query"
  have "dims * 4 \<le> length (drop (i * (dims * 4)) base)" "length query = dims * 4"
    using assms row_bytes [OF assms(2), of base "dims * 4"] True by (simp_all add: vector_byte_size_def)
  then have l: "dims \<le> length a" "length q = dims" by (simp_all add: a_def q_def length_f32_cells less_eq_div_iff_mult_less_eq)
  have ops: "f_of_d F x = x" "d_of_f F x = x" "d_sqrt F x = sqrt x" "f_zero F = 0" "d_zero F = 0" for x
    using assms(1) by (simp_all add: exact_arithmetic_def)
  have "row_distance F t metric dims base query i =
      Some (case metric of METRIC_L2 \<Rightarrow> euclidean (take dims a) q | METRIC_L1 \<Rightarrow> city_block (take dims a) q
        | METRIC_COSINE \<Rightarrow> cosine_distance (take dims a) q)"
    using True l2_float_exact [OF assms(1) l(1), of q 0] l1_float_exact [OF assms(1) l(1), of q 0]
      cosine_float_exact [OF assms(1) l(1), of q 0 0 0] l(2)
    by (cases metric) (simp_all add: row_distance_def distance_l2_sqr_float_def l2_sqr_float_def distance_l1_f32_def l1_f32_def
        distance_cosine_float_def euclidean_def cosine_distance_def ops mult.assoc a_def [symmetric] q_def [symmetric])
  then show ?thesis using True assms(7) l by (cases metric) (simp_all add: a_def q_def vector_byte_size_def)
next
  case False
  then have t: "t = INT8" using assms(3) by (cases t) simp_all
  define a where "a = drop (i * dims) base"
  have l: "dims \<le> length a" "length query = dims"
    using assms row_bytes [OF assms(2), of base dims] t by (simp_all add: vector_byte_size_def a_def)
  have ops: "f_of_d F x = x" "d_of_f F x = x" "d_sqrt F x = sqrt x" "f_zero F = 0" "d_zero F = 0" "f_of_int F n = of_int n" for x n
    using assms(1) by (simp_all add: exact_arithmetic_def)
  have take_values: "take dims (i8_values a) = i8_values (take dims a)" by (simp add: i8_values_def take_map)
  have "l1_int8_loop (take dims a) query dims 0 = Some (\<Sum>(x, y) \<leftarrow> zip (take dims a) query. \<bar>sint x - sint y\<bar>)"
    using l1_int8_loop [of "take dims a" dims query 0] l assms(4) by simp
  moreover have "l1_int8_loop (take dims a) query dims 0 = l1_int8_loop a query dims 0"
  proof -
    have "l1_int8_loop (take n xs) ys n r = l1_int8_loop xs ys n r" for n xs ys r
      by (induction xs ys n r rule: l1_int8_loop.induct) (simp_all add: Let_def)
    then show ?thesis .
  qed
  moreover have "of_int (\<Sum>(x, y) \<leftarrow> zip (take dims a) query. \<bar>sint x - sint y\<bar>) =
      city_block (i8_values (take dims a)) (i8_values query)"
    by (rule i8_city_block)
  ultimately have "row_distance F t metric dims base query i =
      Some (case metric of METRIC_L2 \<Rightarrow> euclidean (take dims (i8_values a)) (i8_values query)
        | METRIC_L1 \<Rightarrow> city_block (take dims (i8_values a)) (i8_values query)
        | METRIC_COSINE \<Rightarrow> cosine_distance (take dims (i8_values a)) (i8_values query))"
    using t l2_int8_exact [OF assms(1) l(1), of query 0] cosine_int8_exact [OF assms(1) l(1), of query 0 0 0] l(2)
    by (cases metric) (simp_all add: row_distance_def distance_l2_sqr_int8_def l2_sqr_int8_def distance_l1_int8_def l1_int8_def
        distance_cosine_int8_def euclidean_def cosine_distance_def ops a_def [symmetric] take_values)
  moreover have "length (i8_values xs) = length xs" for xs by (simp add: i8_values_def)
  ultimately show ?thesis using t assms(7) l by (cases metric) (simp_all add: vector_byte_size_def a_def)
qed

definition real_arithmetic :: "(real, real) float_api" where
  "real_arithmetic = \<lparr>f_of_bytes = (\<lambda>bs. real (unat (bs ! 0))), f_of_int = of_int, f_zero = 0, f_add = (+), f_sub = (-), f_mul = (*),
     f_of_d = (\<lambda>x. x), d_of_f = (\<lambda>x. x), d_zero = 0, d_one = 1, d_add = (+), d_sub = (-), d_mul = (*), d_div = (/),
     d_sqrt = sqrt, d_fabs = abs, popcountl = (\<lambda>x. popcount (unat x))\<rparr>"

theorem row_distance_is_the_metric_witness:
  "row_distance real_arithmetic INT8 METRIC_L2 2 [9, 9, 3, 4] [0, 0] 1 = Some 5"
proof -
  have "exact_arithmetic real_arithmetic" by (simp add: exact_arithmetic_def real_arithmetic_def)
  then have "row_distance real_arithmetic INT8 METRIC_L2 2 [9, 9, 3, 4] [0, 0] 1 = Some (euclidean [3, 4] [0, 0])"
    using row_distance_is_the_metric [of real_arithmetic 1 2 INT8 2 "[9, 9, 3, 4]" "[0, 0]" i8_values METRIC_L2]
    by (simp add: vector_byte_size_def)
  moreover have "euclidean [3, 4] [0, 0] = 5" by (simp add: euclidean_def real_sqrt_eq_iff [symmetric])
  ultimately show ?thesis by simp
qed

end
