(* ===== verification/VecTable.thy ===== *)
theory VecTable
  imports VecMetadata VecDistance
begin

text \<open>
  The columns of a \<^verbatim>\<open>vec0\<close> table (\<^verbatim>\<open>struct vec0_vtab\<close> of \<^verbatim>\<open>crates/cli/vendor-sqlite-vec/sqlite-vec.c\<close>). SQLite
  numbers them: the id is column 0, the columns the user declared follow in order, then come the hidden columns
  \<^verbatim>\<open>distance\<close> and \<^verbatim>\<open>k\<close>. A user column is of one of four kinds and has a number among the columns of its kind.
\<close>

datatype user_column_kind = KIND_VECTOR | KIND_PARTITION | KIND_AUXILIARY | KIND_METADATA

record vector_column =
  col_dimensions :: nat
  col_element_type :: vector_element_type
  col_metric :: distance_metric

record vec0_vtab =
  pk_is_text :: bool
  user_column_kinds :: "user_column_kind list"
  user_column_idxs :: "nat list"
  vector_columns :: "vector_column list"
  partition_columns :: "int list"
  auxiliary_columns :: "int list"
  metadata_columns :: "metadata_kind list"
  table_chunk_size :: nat

abbreviation (input) VEC0_COLUMN_ID :: int where "VEC0_COLUMN_ID \<equiv> 0"
abbreviation (input) VEC0_COLUMN_USERN_START :: int where "VEC0_COLUMN_USERN_START \<equiv> 1"
abbreviation (input) VEC0_COLUMN_OFFSET_DISTANCE :: int where "VEC0_COLUMN_OFFSET_DISTANCE \<equiv> 1"
abbreviation (input) VEC0_COLUMN_OFFSET_K :: int where "VEC0_COLUMN_OFFSET_K \<equiv> 2"

definition num_defined_user_columns :: "vec0_vtab \<Rightarrow> nat" where
  "num_defined_user_columns p =
     length (vector_columns p) + length (partition_columns p) + length (auxiliary_columns p) + length (metadata_columns p)"

definition column_distance_idx :: "vec0_vtab \<Rightarrow> int" where
  "column_distance_idx p = VEC0_COLUMN_USERN_START + (int (num_defined_user_columns p) - 1) + VEC0_COLUMN_OFFSET_DISTANCE"

definition column_k_idx :: "vec0_vtab \<Rightarrow> int" where
  "column_k_idx p = VEC0_COLUMN_USERN_START + (int (num_defined_user_columns p) - 1) + VEC0_COLUMN_OFFSET_K"

text \<open>The four tests and the four lookups differ in the kind only.\<close>

definition column_idx_is :: "user_column_kind \<Rightarrow> vec0_vtab \<Rightarrow> int \<Rightarrow> bool" where
  "column_idx_is kind p column_idx \<longleftrightarrow>
     column_idx \<ge> VEC0_COLUMN_USERN_START \<and>
     column_idx \<le> VEC0_COLUMN_USERN_START + int (num_defined_user_columns p) - 1 \<and>
     user_column_kinds p ! nat (column_idx - VEC0_COLUMN_USERN_START) = kind"

definition column_idx_to_idx :: "vec0_vtab \<Rightarrow> int \<Rightarrow> nat" where
  "column_idx_to_idx p column_idx = user_column_idxs p ! nat (column_idx - VEC0_COLUMN_USERN_START)"

text \<open>
  What the constructor of the table establishes: each user column has a kind and a number, and the numbers of a kind
  count its columns in order.
\<close>

definition kind_count :: "vec0_vtab \<Rightarrow> user_column_kind \<Rightarrow> nat" where
  "kind_count p kind =
     (case kind of KIND_VECTOR \<Rightarrow> length (vector_columns p) | KIND_PARTITION \<Rightarrow> length (partition_columns p)
      | KIND_AUXILIARY \<Rightarrow> length (auxiliary_columns p) | KIND_METADATA \<Rightarrow> length (metadata_columns p))"

definition columns_ok :: "vec0_vtab \<Rightarrow> bool" where
  "columns_ok p \<longleftrightarrow>
     length (user_column_kinds p) = num_defined_user_columns p \<and> length (user_column_idxs p) = num_defined_user_columns p \<and>
     (\<forall>kind. map snd (filter (\<lambda>(k, _). k = kind) (zip (user_column_kinds p) (user_column_idxs p))) = [0..<kind_count p kind])"

text \<open>The numbers of the columns of a kind, in the order the loops over all user columns meet them.\<close>

definition idxs_of_kind :: "vec0_vtab \<Rightarrow> user_column_kind \<Rightarrow> nat list" where
  "idxs_of_kind p kind =
     map (\<lambda>i. user_column_idxs p ! i) (filter (\<lambda>i. user_column_kinds p ! i = kind) [0..<num_defined_user_columns p])"

lemma idxs_of_kind:
  assumes "columns_ok p"
  shows "idxs_of_kind p kind = [0..<kind_count p kind]"
proof -
  define n where "n = num_defined_user_columns p"
  have l: "length (user_column_kinds p) = n" "length (user_column_idxs p) = n" using assms by (simp_all add: columns_ok_def n_def)
  have z: "zip (user_column_kinds p) (user_column_idxs p) = map (\<lambda>i. (user_column_kinds p ! i, user_column_idxs p ! i)) [0..<n]"
    using l by (intro nth_equalityI) simp_all
  have "map snd (filter (\<lambda>(k, _). k = kind) (zip (user_column_kinds p) (user_column_idxs p))) = idxs_of_kind p kind"
    unfolding z idxs_of_kind_def n_def [symmetric] by (simp add: filter_map comp_def)
  then show ?thesis using assms by (simp add: columns_ok_def)
qed

lemma column_idx_to_idx_less:
  assumes "columns_ok p" and "column_idx_is kind p c"
  shows "column_idx_to_idx p c < kind_count p kind"
proof -
  define i where "i = nat (c - 1)"
  have i: "i < num_defined_user_columns p" "user_column_kinds p ! i = kind" using assms(2) by (auto simp: column_idx_is_def i_def)
  then have "user_column_idxs p ! i \<in> set (idxs_of_kind p kind)" by (auto simp: idxs_of_kind_def)
  then show ?thesis using idxs_of_kind [OF assms(1)] by (simp add: column_idx_to_idx_def i_def)
qed

end
