(* ===== verification/VecSelect.thy ===== *)
theory VecSelect
  imports VecBitmap "HOL-Library.Multiset"
begin

text \<open>
  The nearest-neighbour selection of \<^verbatim>\<open>crates/cli/vendor-sqlite-vec/sqlite-vec.c\<close>: \<^verbatim>\<open>min_idx\<close> picks the
  nearest candidates of one chunk, \<^verbatim>\<open>merge_sorted_lists\<close> merges them with the best ones found so far.
  Distances are \<^verbatim>\<open>f32\<close> values that the code only compares, so the definitions are over any type with the two
  comparisons, of which nothing is assumed. The promises are about the type \<open>'r f32\<close>: numbers and a NaN, of which every
  comparison is false; they hold for distances that are numbers, and the last lemmas show what a NaN does. Every access
  to an array is checked: out of bounds is \<open>None\<close>, like a failed \<^verbatim>\<open>assert\<close>.
\<close>

subsection \<open>Comparing with a NaN\<close>

datatype 'r f32 = NaN | Number 'r

instantiation f32 :: (ord) ord
begin

fun less_eq_f32 :: "'a f32 \<Rightarrow> 'a f32 \<Rightarrow> bool" where
  "less_eq_f32 (Number x) (Number y) = (x \<le> y)"
| "less_eq_f32 _ _ = False"

fun less_f32 :: "'a f32 \<Rightarrow> 'a f32 \<Rightarrow> bool" where
  "less_f32 (Number x) (Number y) = (x < y)"
| "less_f32 _ _ = False"

instance ..

end

lemma f32_trans: "x \<le> y \<Longrightarrow> y \<le> z \<Longrightarrow> x \<le> (z :: 'r :: linorder f32)"
  by (cases x; cases y; cases z) auto

lemma f32_refl: "x \<noteq> NaN \<Longrightarrow> x \<le> (x :: 'r :: linorder f32)"
  by (cases x) auto

lemma f32_total: "x \<noteq> NaN \<Longrightarrow> y \<noteq> NaN \<Longrightarrow> \<not> x \<le> y \<Longrightarrow> y \<le> (x :: 'r :: linorder f32)"
  by (cases x; cases y) auto

lemma f32_not_less: "x \<le> y \<Longrightarrow> \<not> y < (x :: 'r :: linorder f32)"
  by (cases x; cases y) auto

lemma f32_below: "y \<le> r \<Longrightarrow> \<not> z \<le> r \<Longrightarrow> z \<noteq> NaN \<Longrightarrow> y < (z :: 'r :: linorder f32)"
  by (cases y; cases r; cases z) auto

lemma f32_nan [simp]: "\<not> x \<le> (NaN :: 'r :: ord f32)" "\<not> (NaN :: 'r :: ord f32) \<le> x"
  by (cases x; simp)+

text \<open>In order, each not greater than those after it.\<close>

abbreviation (input) in_order :: "'d :: ord list \<Rightarrow> bool" where
  "in_order ds \<equiv> sorted_wrt (\<le>) ds"

lemma in_order_nth: "in_order ds \<Longrightarrow> i < j \<Longrightarrow> j < length ds \<Longrightarrow> ds ! i \<le> ds ! j"
  by (rule sorted_wrt_nth_less)

subsection \<open>Arrays\<close>

definition item_at :: "'a list \<Rightarrow> nat \<Rightarrow> 'a option" where
  "item_at xs i = (if i < length xs then Some (xs ! i) else None)"

definition put :: "'a list \<Rightarrow> nat \<Rightarrow> 'a \<Rightarrow> 'a list option" where
  "put xs i x = (if i < length xs then Some (xs[i := x]) else None)"

lemma item_at_Some [simp]: "i < length xs \<Longrightarrow> item_at xs i = Some (xs ! i)"
  by (simp add: item_at_def)

lemma put_Some [simp]: "i < length xs \<Longrightarrow> put xs i x = Some (xs[i := x])"
  by (simp add: put_def)

subsection \<open>The nearest candidates of a chunk\<close>

function first_free :: "nat \<Rightarrow> byte list \<Rightarrow> byte list \<Rightarrow> nat \<Rightarrow> nat option" where
  "first_free n candidates bTaken i =
     (if i < n
      then do {
        taken \<leftarrow> bitmap_get bTaken i;
        if taken then first_free n candidates bTaken (i + 1)
        else do {
          candidate \<leftarrow> bitmap_get candidates i;
          if \<not> candidate then first_free n candidates bTaken (i + 1) else Some i
        }
      }
      else Some i)"
  by pat_completeness auto
termination by (relation "measure (\<lambda>(n, _, _, i). n - i)") auto

declare first_free.simps [simp del]

function nearest_loop :: "('d :: ord) list \<Rightarrow> nat \<Rightarrow> byte list \<Rightarrow> byte list \<Rightarrow> nat \<Rightarrow> nat \<Rightarrow> nat option" where
  "nearest_loop distances n candidates bTaken i m =
     (if i < n
      then do {
        di \<leftarrow> item_at distances i;
        dm \<leftarrow> item_at distances m;
        if di \<le> dm
        then do {
          taken \<leftarrow> bitmap_get bTaken i;
          if taken then nearest_loop distances n candidates bTaken (i + 1) m
          else do {
            candidate \<leftarrow> bitmap_get candidates i;
            nearest_loop distances n candidates bTaken (i + 1) (if candidate then i else m)
          }
        }
        else nearest_loop distances n candidates bTaken (i + 1) m
      }
      else Some m)"
  by pat_completeness auto
termination by (relation "measure (\<lambda>(_, n, _, _, i, _). n - i)") auto

declare nearest_loop.simps [simp del]

text \<open>The outer loop; the result holds \<^verbatim>\<open>out\<close>, \<^verbatim>\<open>bTaken\<close> and \<^verbatim>\<open>k_used\<close>.\<close>

function pick_loop ::
  "('d :: ord) list \<Rightarrow> nat \<Rightarrow> byte list \<Rightarrow> nat \<Rightarrow> nat \<Rightarrow> nat list \<Rightarrow> byte list \<Rightarrow>
     (nat list \<times> byte list \<times> nat) option" where
  "pick_loop distances n candidates k ik out bTaken =
     (if ik < k
      then do {
        m0 \<leftarrow> first_free n candidates bTaken 0;
        if m0 \<ge> n then Some (out, bTaken, ik)
        else do {
          m \<leftarrow> nearest_loop distances n candidates bTaken 0 m0;
          out' \<leftarrow> put out ik m;
          bTaken' \<leftarrow> bitmap_set bTaken m True;
          pick_loop distances n candidates k (ik + 1) out' bTaken'
        }
      }
      else Some (out, bTaken, k))"
  by pat_completeness auto
termination by (relation "measure (\<lambda>(_, _, _, k, ik, _, _). k - ik)") auto

declare pick_loop.simps [simp del]

definition min_idx ::
  "('d :: ord) list \<Rightarrow> nat \<Rightarrow> byte list \<Rightarrow> nat list \<Rightarrow> nat \<Rightarrow> byte list \<Rightarrow> (nat list \<times> byte list \<times> nat) option" where
  "min_idx distances n candidates out k bTaken =
     (if k > 0 \<and> k \<le> n
      then do {
        bTaken' \<leftarrow> bitmap_clear bTaken n;
        pick_loop distances n candidates k 0 out bTaken'
      }
      else None)"

subsection \<open>Merging with the best so far\<close>

function merge_loop ::
  "('d :: ord) list \<Rightarrow> int list \<Rightarrow> nat \<Rightarrow> 'd list \<Rightarrow> int list \<Rightarrow> nat list \<Rightarrow> nat \<Rightarrow> nat \<Rightarrow>
     nat \<Rightarrow> nat \<Rightarrow> nat \<Rightarrow> 'd list \<Rightarrow> int list \<Rightarrow> ('d list \<times> int list \<times> nat) option" where
  "merge_loop a a_rowids a_length b b_rowids b_top_idxs b_length out_length i ptrA ptrB out out_rowids =
     (if i < out_length
      then if ptrA \<ge> a_length \<and> ptrB \<ge> b_length then Some (out, out_rowids, i)
           else do {
             from_a \<leftarrow> (if ptrA \<ge> a_length then Some False
                        else if ptrB \<ge> b_length then Some True
                        else do {
                          da \<leftarrow> item_at a ptrA;
                          ib \<leftarrow> item_at b_top_idxs ptrB;
                          db \<leftarrow> item_at b ib;
                          Some (da \<le> db)
                        });
             if from_a
             then do {
               d \<leftarrow> item_at a ptrA;
               r \<leftarrow> item_at a_rowids ptrA;
               out' \<leftarrow> put out i d;
               out_rowids' \<leftarrow> put out_rowids i r;
               merge_loop a a_rowids a_length b b_rowids b_top_idxs b_length out_length (i + 1) (ptrA + 1) ptrB out' out_rowids'
             }
             else do {
               ib \<leftarrow> item_at b_top_idxs ptrB;
               d \<leftarrow> item_at b ib;
               r \<leftarrow> item_at b_rowids ib;
               out' \<leftarrow> put out i d;
               out_rowids' \<leftarrow> put out_rowids i r;
               merge_loop a a_rowids a_length b b_rowids b_top_idxs b_length out_length (i + 1) ptrA (ptrB + 1) out' out_rowids'
             }
           }
      else Some (out, out_rowids, out_length))"
  by pat_completeness auto
termination by (relation "measure (\<lambda>(_, _, _, _, _, _, _, out_length, i, _, _, _, _). out_length - i)") auto

declare merge_loop.simps [simp del]

definition merge_sorted_lists ::
  "('d :: ord) list \<Rightarrow> int list \<Rightarrow> nat \<Rightarrow> 'd list \<Rightarrow> int list \<Rightarrow> nat list \<Rightarrow> nat \<Rightarrow>
     'd list \<Rightarrow> int list \<Rightarrow> nat \<Rightarrow> ('d list \<times> int list \<times> nat) option" where
  "merge_sorted_lists a a_rowids a_length b b_rowids b_top_idxs b_length out out_rowids out_length =
     merge_loop a a_rowids a_length b b_rowids b_top_idxs b_length out_length 0 0 0 out out_rowids"

subsection \<open>What \<^verbatim>\<open>min_idx\<close> picks\<close>

lemma first_free_ok:
  assumes "n \<le> 8 * length candidates" and "n \<le> 8 * length bTaken"
  shows "i \<le> n \<Longrightarrow> \<exists>m. first_free n candidates bTaken i = Some m \<and> i \<le> m \<and> m \<le> n \<and>
    (m < n \<longrightarrow> m \<in> members candidates - members bTaken) \<and>
    (\<forall>j. i \<le> j \<and> j < m \<longrightarrow> j \<notin> members candidates - members bTaken)"
proof (induction "n - i" arbitrary: i)
  case 0
  then have "first_free n candidates bTaken i = Some i" by (subst first_free.simps) simp
  then show ?case using 0 by auto
next
  case (Suc x)
  then have i: "i < n" "x = n - Suc i" "Suc i \<le> n" by auto
  obtain m where m: "first_free n candidates bTaken (Suc i) = Some m" "Suc i \<le> m" "m \<le> n"
    "m < n \<longrightarrow> m \<in> members candidates - members bTaken"
    "\<forall>j. Suc i \<le> j \<and> j < m \<longrightarrow> j \<notin> members candidates - members bTaken"
    using Suc.hyps(1) [OF i(2,3)] by blast
  have g: "bitmap_get bTaken i = Some (i \<in> members bTaken)" "bitmap_get candidates i = Some (i \<in> members candidates)"
    using i(1) assms by (simp_all add: bitmap_get_members)
  show ?case
  proof (cases "i \<in> members candidates - members bTaken")
    case True
    then show ?thesis using i g by (subst first_free.simps) auto
  next
    case False
    then have "first_free n candidates bTaken i = Some m" using i g m(1) by (subst first_free.simps) auto
    moreover have "j \<notin> members candidates - members bTaken" if "i \<le> j" "j < m" for j
      using that False m(5) by (cases "j = i") auto
    ultimately show ?thesis using m(2-4) by auto
  qed
qed

lemma nearest_loop_ok:
  fixes distances :: "'r :: linorder f32 list"
  assumes "n \<le> 8 * length candidates" and "n \<le> 8 * length bTaken" and "n \<le> length distances"
    and "avail = {j \<in> members candidates - members bTaken. j < n}" and "\<forall>j \<in> avail. distances ! j \<noteq> NaN"
  shows "i \<le> n \<Longrightarrow> m \<in> avail \<Longrightarrow> \<forall>j \<in> avail. j < i \<longrightarrow> distances ! m \<le> distances ! j \<Longrightarrow>
    \<exists>m'. nearest_loop distances n candidates bTaken i m = Some m' \<and> m' \<in> avail \<and>
      (\<forall>j \<in> avail. distances ! m' \<le> distances ! j)"
proof (induction "n - i" arbitrary: i m)
  case 0
  then show ?case by (subst nearest_loop.simps) (auto simp: assms(4))
next
  case (Suc x)
  then have i: "i < n" "x = n - Suc i" "Suc i \<le> n" by auto
  have m: "m < n" using Suc.prems(2) by (simp add: assms(4))
  have g: "bitmap_get bTaken i = Some (i \<in> members bTaken)" "bitmap_get candidates i = Some (i \<in> members candidates)"
    "item_at distances i = Some (distances ! i)" "item_at distances m = Some (distances ! m)"
    using i(1) m assms by (simp_all add: bitmap_get_members)
  define m1 where "m1 = (if distances ! i \<le> distances ! m \<and> i \<in> avail then i else m)"
  have step: "nearest_loop distances n candidates bTaken i m = nearest_loop distances n candidates bTaken (Suc i) m1"
    using i(1) g by (subst nearest_loop.simps) (auto simp: m1_def assms(4))
  have "m1 \<in> avail" using Suc.prems(2) by (simp add: m1_def)
  moreover have "\<forall>j \<in> avail. j < Suc i \<longrightarrow> distances ! m1 \<le> distances ! j"
  proof (intro ballI impI)
    fix j assume j: "j \<in> avail" "j < Suc i"
    have numbers: "distances ! j \<noteq> NaN" "distances ! m \<noteq> NaN" using assms(5) j(1) Suc.prems(2) by auto
    show "distances ! m1 \<le> distances ! j"
    proof (cases "j = i")
      case False
      then have "distances ! m \<le> distances ! j" using Suc.prems(3) j by auto
      then show ?thesis by (auto simp: m1_def intro: f32_trans)
    next
      case True
      then show ?thesis using j(1) numbers f32_refl f32_total by (auto simp: m1_def)
    qed
  qed
  ultimately show ?case unfolding step using Suc.hyps(1) [OF i(2,3)] by blast
qed

text \<open>The picks so far: the nearest of the candidates, in order.\<close>

definition nearest_of :: "('d :: ord) list \<Rightarrow> nat set \<Rightarrow> nat list \<Rightarrow> bool" where
  "nearest_of distances cand ps \<longleftrightarrow> set ps \<subseteq> cand \<and> distinct ps \<and> in_order (map (\<lambda>j. distances ! j) ps) \<and>
     (\<forall>p \<in> set ps. \<forall>j \<in> cand - set ps. distances ! p \<le> distances ! j)"

lemma nearest_of_snoc:
  assumes "nearest_of distances cand ps" and "m \<in> cand - set ps" and "\<forall>j \<in> cand - set ps. distances ! m \<le> distances ! j"
  shows "nearest_of distances cand (ps @ [m])"
  using assms by (auto simp: nearest_of_def sorted_wrt_append)

lemma pick_loop_ok:
  fixes distances :: "'r :: linorder f32 list"
  assumes "n = 8 * length candidates" and "n \<le> length distances" and "cand = members candidates"
    and "\<forall>j \<in> cand. distances ! j \<noteq> NaN"
  shows "ik \<le> k \<Longrightarrow> k \<le> length out \<Longrightarrow> n = 8 * length bTaken \<Longrightarrow> nearest_of distances cand (take ik out) \<Longrightarrow>
    members bTaken = set (take ik out) \<Longrightarrow>
    \<exists>out' taken' used. pick_loop distances n candidates k ik out bTaken = Some (out', taken', used) \<and>
      length out' = length out \<and> length taken' = length bTaken \<and> used \<le> k \<and> nearest_of distances cand (take used out') \<and>
      (used < k \<longrightarrow> set (take used out') = cand)"
proof (induction "k - ik" arbitrary: ik out bTaken)
  case 0
  then have "pick_loop distances n candidates k ik out bTaken = Some (out, bTaken, k)" by (subst pick_loop.simps) simp
  then show ?case using 0 by simp
next
  case (Suc x)
  then have ik: "ik < k" "x = k - Suc ik" "Suc ik \<le> k" by auto
  define avail where "avail = {j \<in> members candidates - members bTaken. j < n}"
  have lim: "j < n" if "j \<in> members candidates" for j using that assms(1) by (simp add: in_members)
  have avail: "avail = cand - set (take ik out)"
    unfolding avail_def Suc.prems(5) assms(3) using lim by blast
  obtain m0 where m0: "first_free n candidates bTaken 0 = Some m0" "m0 \<le> n" "m0 < n \<longrightarrow> m0 \<in> members candidates - members bTaken"
    "\<forall>j. 0 \<le> j \<and> j < m0 \<longrightarrow> j \<notin> members candidates - members bTaken"
    using first_free_ok [of n candidates bTaken 0] assms(1) Suc.prems(3) by auto
  show ?case
  proof (cases "m0 < n")
    case False
    then have "pick_loop distances n candidates k ik out bTaken = Some (out, bTaken, ik)"
      using ik(1) m0(1) by (subst pick_loop.simps) simp
    moreover have "avail = {}" using m0(2,4) False by (auto simp: avail_def)
    then have "set (take ik out) = cand" using avail Suc.prems(4) by (auto simp: nearest_of_def)
    ultimately show ?thesis using Suc.prems ik by auto
  next
    case True
    then have "m0 \<in> avail" using m0(3) by (simp add: avail_def)
    then obtain m where m: "nearest_loop distances n candidates bTaken 0 m0 = Some m" "m \<in> avail"
      "\<forall>j \<in> avail. distances ! m \<le> distances ! j"
      using nearest_loop_ok [OF _ _ assms(2) avail_def, of 0 m0] assms(1,4) Suc.prems(3) avail by auto
    have "m < 8 * length bTaken" using m(2) Suc.prems(3) by (simp add: avail_def)
    then obtain taken where taken: "bitmap_set bTaken m True = Some taken" "length taken = length bTaken"
      "members taken = insert m (members bTaken)"
      using bitmap_set_members [of m bTaken True] by auto
    define out1 where "out1 = out[ik := m]"
    have l: "ik < length out" using ik Suc.prems(2) by simp
    have t: "take (Suc ik) out1 = take ik out @ [m]" using l by (simp add: out1_def)
    have step: "pick_loop distances n candidates k ik out bTaken = pick_loop distances n candidates k (Suc ik) out1 taken"
      using ik(1) m0(1) True m(1) taken(1) l by (subst pick_loop.simps) (simp add: out1_def)
    have "nearest_of distances cand (take (Suc ik) out1)"
      unfolding t using nearest_of_snoc [OF Suc.prems(4)] m(2,3) by (simp add: avail)
    moreover have "members taken = set (take (Suc ik) out1)" unfolding t taken(3) Suc.prems(5) by simp
    moreover have "length out1 = length out" by (simp add: out1_def)
    ultimately show ?thesis unfolding step using Suc.hyps(1) [OF ik(2,3), of out1 taken] Suc.prems(2,3) taken(2) by simp
  qed
qed

lemma finite_members [simp]: "finite (members bm)"
  by (rule finite_subset [of _ "{..<8 * length bm}"]) (auto simp: in_members)

lemma nearest_of_length: "nearest_of distances cand ps \<Longrightarrow> finite cand \<Longrightarrow> length ps \<le> card cand"
  by (metis nearest_of_def card_mono distinct_card)

lemma min_idx_ok:
  fixes distances :: "'r :: linorder f32 list"
  assumes "0 < k" and "k \<le> n" and "n = 8 * length candidates" and "n = 8 * length bTaken" and "n \<le> length distances"
    and "k \<le> length out" and "\<forall>j \<in> members candidates. distances ! j \<noteq> NaN"
  shows "\<exists>out' taken' used. min_idx distances n candidates out k bTaken = Some (out', taken', used) \<and>
    length out' = length out \<and> length taken' = length bTaken \<and> used = min k (card (members candidates)) \<and>
    nearest_of distances (members candidates) (take used out')"
proof -
  have c: "bitmap_clear bTaken n = Some (replicate (length bTaken) 0)" "members (replicate (length bTaken) 0) = {}"
    using bitmap_clear_members [of bTaken n] assms(4) by simp_all
  obtain out' taken' used where r: "pick_loop distances n candidates k 0 out (replicate (length bTaken) 0) = Some (out', taken', used)"
    "length out' = length out" "length taken' = length bTaken" "used \<le> k" "nearest_of distances (members candidates) (take used out')"
    "used < k \<longrightarrow> set (take used out') = members candidates"
    using pick_loop_ok [OF assms(3,5) refl assms(7), of 0 k out "replicate (length bTaken) 0"] assms c(2)
    by (auto simp: nearest_of_def)
  have l: "length (take used out') = used" using r(2,4) assms(6) by simp
  have "used \<le> card (members candidates)" using nearest_of_length [OF r(5)] l by simp
  moreover have "card (members candidates) = used" if "used < k"
    using that r(5,6) l by (metis nearest_of_def distinct_card)
  ultimately have "used = min k (card (members candidates))" using r(4) by (cases "used < k") auto
  then show ?thesis using r c(1) assms(1,2) by (simp add: min_idx_def)
qed

subsection \<open>Merging\<close>

text \<open>A neighbour is its distance and its rowid.\<close>

fun merge_near :: "('d :: ord \<times> int) list \<Rightarrow> ('d \<times> int) list \<Rightarrow> ('d \<times> int) list" where
  "merge_near [] ys = ys"
| "merge_near (x # xs) [] = x # xs"
| "merge_near (x # xs) (y # ys) =
     (if fst x \<le> fst y then x # merge_near xs (y # ys) else y # merge_near (x # xs) ys)"

lemma mset_merge_near [simp]: "mset (merge_near xs ys) = mset xs + mset ys"
  by (induction xs ys rule: merge_near.induct) auto

lemma set_merge_near [simp]: "set (merge_near xs ys) = set xs \<union> set ys"
  using mset_merge_near [of xs ys] by (metis set_mset_mset set_mset_union)

lemma length_merge_near [simp]: "length (merge_near xs ys) = length xs + length ys"
  using mset_merge_near [of xs ys] by (metis size_mset size_union)

text \<open>Neighbours whose distances are numbers.\<close>

definition numbers :: "('r f32 \<times> int) list \<Rightarrow> bool" where
  "numbers xs \<longleftrightarrow> (\<forall>x \<in> set xs. fst x \<noteq> NaN)"

lemma numbers_simps [simp]: "numbers []" "numbers (x # xs) \<longleftrightarrow> fst x \<noteq> NaN \<and> numbers xs"
  "numbers (xs @ ys) \<longleftrightarrow> numbers xs \<and> numbers ys"
  by (auto simp: numbers_def)

lemma numbersD: "numbers xs \<Longrightarrow> x \<in> set xs \<Longrightarrow> fst x \<noteq> NaN"
  by (simp add: numbers_def)

lemma in_order_merge_near:
  "in_order (map fst xs) \<Longrightarrow> in_order (map fst ys) \<Longrightarrow> numbers xs \<Longrightarrow> numbers ys \<Longrightarrow>
     in_order (map fst (merge_near xs ys :: ('r :: linorder f32 \<times> int) list))"
  by (induction xs ys rule: merge_near.induct) (auto dest: f32_total intro: f32_trans)

lemma merge_near_Nil2 [simp]: "merge_near xs [] = xs"
  by (cases xs) simp_all

lemma merge_near_drop:
  assumes "i < length xs \<or> j < length ys"
  shows "merge_near (drop i xs) (drop j ys) =
    (if i < length xs \<and> (j \<ge> length ys \<or> fst (xs ! i) \<le> fst (ys ! j))
     then xs ! i # merge_near (drop (Suc i) xs) (drop j ys)
     else ys ! j # merge_near (drop i xs) (drop (Suc j) ys))"
  using assms
  by (cases "i < length xs"; cases "j < length ys") (simp_all add: Cons_nth_drop_Suc [symmetric])

text \<open>The neighbours the arrays hold: the first \<open>n\<close>, or those at the first \<open>n\<close> indexes.\<close>

definition neighbours :: "'d list \<Rightarrow> int list \<Rightarrow> nat \<Rightarrow> ('d \<times> int) list" where
  "neighbours a rowids n = map (\<lambda>i. (a ! i, rowids ! i)) [0..<n]"

definition neighbours_at :: "'d list \<Rightarrow> int list \<Rightarrow> nat list \<Rightarrow> nat \<Rightarrow> ('d \<times> int) list" where
  "neighbours_at b rowids idxs n = map (\<lambda>j. (b ! j, rowids ! j)) (take n idxs)"

lemma length_neighbours [simp]: "length (neighbours a rowids n) = n" "length (neighbours_at b rowids idxs n) = min (length idxs) n"
  by (simp_all add: neighbours_def neighbours_at_def)

definition merge_input :: "'d list \<Rightarrow> int list \<Rightarrow> nat \<Rightarrow> 'd list \<Rightarrow> int list \<Rightarrow> nat list \<Rightarrow> nat \<Rightarrow> bool" where
  "merge_input a a_rowids a_length b b_rowids b_top_idxs b_length \<longleftrightarrow>
     a_length \<le> length a \<and> a_length \<le> length a_rowids \<and> b_length \<le> length b_top_idxs \<and>
     (\<forall>j \<in> set (take b_length b_top_idxs). j < length b \<and> j < length b_rowids)"

lemma at_neighbours:
  assumes "merge_input a a_rowids a_length b b_rowids b_top_idxs b_length" and "xs = neighbours a a_rowids a_length"
    and "i < a_length"
  shows "item_at a i = Some (fst (xs ! i)) \<and> item_at a_rowids i = Some (snd (xs ! i))"
  using assms by (simp add: neighbours_def merge_input_def)

lemma at_neighbours_at:
  assumes "merge_input a a_rowids a_length b b_rowids b_top_idxs b_length" and "ys = neighbours_at b b_rowids b_top_idxs b_length"
    and i: "i < b_length"
  shows "\<exists>j. item_at b_top_idxs i = Some j \<and> item_at b j = Some (fst (ys ! i)) \<and> item_at b_rowids j = Some (snd (ys ! i))"
proof -
  have "b_top_idxs ! i \<in> set (take b_length b_top_idxs)" using assms(1) i by (auto simp: merge_input_def in_set_conv_nth)
  then have "b_top_idxs ! i < length b" "b_top_idxs ! i < length b_rowids" using assms(1) by (auto simp: merge_input_def)
  then show ?thesis using assms by (simp add: neighbours_at_def merge_input_def)
qed

lemma merge_loop_ok:
  assumes "merge_input a a_rowids a_length b b_rowids b_top_idxs b_length"
    and "xs = neighbours a a_rowids a_length" and "ys = neighbours_at b b_rowids b_top_idxs b_length"
  shows "i \<le> n \<Longrightarrow> n \<le> length out \<Longrightarrow> n \<le> length rout \<Longrightarrow> ptrA \<le> a_length \<Longrightarrow> ptrB \<le> b_length \<Longrightarrow>
   M = take (n - i) (merge_near (drop ptrA xs) (drop ptrB ys)) \<Longrightarrow>
   \<exists>out' rout'. merge_loop a a_rowids a_length b b_rowids b_top_idxs b_length n i ptrA ptrB out rout =
       Some (out', rout', i + length M) \<and> length out' = length out \<and> length rout' = length rout \<and>
     take (i + length M) out' = take i out @ map fst M \<and> take (i + length M) rout' = take i rout @ map snd M"
proof (induction "n - i" arbitrary: i ptrA ptrB out rout M)
  case 0
  then show ?case by (subst merge_loop.simps) simp
next
  case (Suc x)
  note x_nth = at_neighbours [OF assms(1,2)] and y_nth = at_neighbours_at [OF assms(1,3)]
  have lengths [simp]: "length xs = a_length" "length ys = b_length" using assms by (simp_all add: merge_input_def)
  from Suc have i: "i < n" "x = n - Suc i" "Suc i \<le> n" "n - i = Suc (n - Suc i)" by auto
  show ?case
  proof (cases "ptrA \<ge> a_length \<and> ptrB \<ge> b_length")
    case True
    then show ?thesis using i(1) Suc.prems(6) by (subst merge_loop.simps) simp
  next
    case False
    define from_a where "from_a \<longleftrightarrow> ptrA < a_length \<and> (ptrB \<ge> b_length \<or> fst (xs ! ptrA) \<le> fst (ys ! ptrB))"
    define z where "z = (if from_a then xs ! ptrA else ys ! ptrB)"
    define pA where "pA = (if from_a then Suc ptrA else ptrA)"
    define pB where "pB = (if from_a then ptrB else Suc ptrB)"
    have le: "pA \<le> a_length" "pB \<le> b_length" using False Suc.prems(4,5) by (auto simp: pA_def pB_def from_a_def)
    have head: "merge_near (drop ptrA xs) (drop ptrB ys) = z # merge_near (drop pA xs) (drop pB ys)"
      using merge_near_drop [of ptrA xs ptrB ys] False by (auto simp: z_def pA_def pB_def from_a_def)
    define N where "N = take (n - Suc i) (merge_near (drop pA xs) (drop pB ys))"
    have M: "M = z # N" using Suc.prems(6) head i(4) by (simp add: N_def)
    define out1 where "out1 = out[i := fst z]"
    define rout1 where "rout1 = rout[i := snd z]"
    have put: "put out i (fst z) = Some out1" "put rout i (snd z) = Some rout1"
      using i(1) Suc.prems(2,3) by (simp_all add: out1_def rout1_def)
    have step: "merge_loop a a_rowids a_length b b_rowids b_top_idxs b_length n i ptrA ptrB out rout =
      merge_loop a a_rowids a_length b b_rowids b_top_idxs b_length n (Suc i) pA pB out1 rout1"
    proof (cases from_a)
      case True
      then have "ptrA < a_length" "ptrB \<ge> b_length \<or> fst (xs ! ptrA) \<le> fst (ys ! ptrB)" by (auto simp: from_a_def)
      moreover have "pA = Suc ptrA" "pB = ptrB" "z = xs ! ptrA" using True by (simp_all add: pA_def pB_def z_def)
      ultimately show ?thesis using i(1) x_nth [of ptrA] y_nth [of ptrB] put
        by (subst merge_loop.simps) (auto simp: not_le)
    next
      case f: False
      then have "ptrB < b_length" "ptrA \<ge> a_length \<or> \<not> fst (xs ! ptrA) \<le> fst (ys ! ptrB)" using False by (auto simp: from_a_def)
      moreover have "pA = ptrA" "pB = Suc ptrB" "z = ys ! ptrB" using f by (simp_all add: pA_def pB_def z_def)
      ultimately show ?thesis using i(1) x_nth [of ptrA] y_nth [of ptrB] put
        by (subst merge_loop.simps) (auto simp: not_le)
    qed
    have l: "length out1 = length out" "length rout1 = length rout" by (simp_all add: out1_def rout1_def)
    have t: "take (Suc i) out1 = take i out @ [fst z]" "take (Suc i) rout1 = take i rout @ [snd z]"
      using i(1) Suc.prems(2,3) by (simp_all add: out1_def rout1_def)
    show ?thesis unfolding step M
      using Suc.hyps(1) [OF i(2,3) _ _ le N_def, of out1 rout1] Suc.prems(2,3) l t by simp
  qed
qed

lemma merge_sorted_lists_ok:
  assumes "merge_input a a_rowids a_length b b_rowids b_top_idxs b_length"
    and "xs = neighbours a a_rowids a_length" and "ys = neighbours_at b b_rowids b_top_idxs b_length"
    and "n \<le> length out" and "n \<le> length rout" and "M = take n (merge_near xs ys)"
  shows "\<exists>out' rout'. merge_sorted_lists a a_rowids a_length b b_rowids b_top_idxs b_length out rout n =
      Some (out', rout', length M) \<and> length out' = length out \<and> length rout' = length rout \<and>
    take (length M) out' = map fst M \<and> take (length M) rout' = map snd M"
  using merge_loop_ok [OF assms(1-3), of 0 n out rout 0 0 M] assms by (simp add: merge_sorted_lists_def)

subsection \<open>The nearest of several chunks\<close>

definition topk :: "nat \<Rightarrow> ('d :: ord \<times> int) list \<Rightarrow> ('d \<times> int) list \<Rightarrow> bool" where
  "topk k all best \<longleftrightarrow> in_order (map fst best) \<and> length best = min k (length all) \<and>
     (\<exists>rest. mset all = mset best + mset rest \<and> (\<forall>y \<in> set best. \<forall>r \<in> set rest. fst y \<le> fst r))"

lemma count_below:
  fixes M :: "('r :: linorder f32 \<times> int) list"
  assumes "in_order (map fst M)" and "i < length M"
  shows "length (filter (\<lambda>z. fst z < fst (M ! i)) M) \<le> i"
proof -
  have "\<not> fst z < fst (M ! i)" if z: "z \<in> set (drop i M)" for z
  proof -
    obtain j where j: "j < length M - i" "z = M ! (i + j)" using z by (auto simp: in_set_conv_nth)
    show ?thesis
    proof (cases "j = 0")
      case True
      then show ?thesis using j(2) by (cases "fst z") auto
    next
      case False
      then have "fst (M ! i) \<le> fst z" using in_order_nth [OF assms(1), of i "i + j"] j by simp
      then show ?thesis by (rule f32_not_less)
    qed
  qed
  then have "filter (\<lambda>z. fst z < fst (M ! i)) (drop i M) = []" by (simp add: filter_empty_conv)
  moreover have "filter (\<lambda>z. fst z < fst (M ! i)) M =
      filter (\<lambda>z. fst z < fst (M ! i)) (take i M) @ filter (\<lambda>z. fst z < fst (M ! i)) (drop i M)"
    by (metis append_take_drop_id filter_append)
  ultimately have e: "filter (\<lambda>z. fst z < fst (M ! i)) M = filter (\<lambda>z. fst z < fst (M ! i)) (take i M)" by simp
  show ?thesis unfolding e by (rule order_trans [OF length_filter_le]) simp
qed

text \<open>What was left out of one list cannot come before the first \<open>k\<close> of the merge.\<close>

lemma left_out_stays_out:
  fixes M :: "('r :: linorder f32 \<times> int) list"
  assumes "in_order (map fst M)" and "mset M = mset best + mset other" and "k \<le> length best"
    and "\<forall>y \<in> set best. fst y \<le> fst r" and "z \<in> set (take k M)" and "fst z \<noteq> NaN"
  shows "fst z \<le> fst r"
proof (rule ccontr)
  assume "\<not> fst z \<le> fst r"
  then have less: "\<forall>y \<in> set best. fst y < fst z" using assms(4,6) f32_below by blast
  obtain i where i: "i < k" "i < length M" "z = M ! i" using assms(5) by (auto simp: in_set_conv_nth)
  have "k \<le> length (filter (\<lambda>y. fst y < fst z) best)" using less assms(3) by (simp add: filter_True)
  also have "\<dots> = size (filter_mset (\<lambda>y. fst y < fst z) (mset best))" by (metis mset_filter size_mset)
  also have "\<dots> \<le> size (filter_mset (\<lambda>y. fst y < fst z) (mset M))" by (simp add: assms(2))
  also have "\<dots> = length (filter (\<lambda>y. fst y < fst z) M)" by (metis mset_filter size_mset)
  also have "\<dots> \<le> i" using count_below [OF assms(1) i(2)] i(3) by simp
  finally show False using i(1) by simp
qed

lemma topk_numbers: "topk k all best \<Longrightarrow> numbers all \<Longrightarrow> numbers best"
  unfolding topk_def numbers_def by (metis set_mset_mset set_mset_union Un_iff)

lemma topk_merge:
  fixes xs ys :: "('r :: linorder f32 \<times> int) list"
  assumes "topk k xs a" and "topk k ys b" and "numbers xs" and "numbers ys"
  shows "topk k (xs @ ys) (take k (merge_near a b))"
proof -
  define M where "M = merge_near a b"
  obtain ra rb where a: "in_order (map fst a)" "length a = min k (length xs)" "mset xs = mset a + mset ra"
      "\<forall>y \<in> set a. \<forall>r \<in> set ra. fst y \<le> fst r"
    and b: "in_order (map fst b)" "length b = min k (length ys)" "mset ys = mset b + mset rb"
      "\<forall>y \<in> set b. \<forall>r \<in> set rb. fst y \<le> fst r"
    using assms(1,2) by (auto simp: topk_def)
  note ab = topk_numbers [OF assms(1,3)] topk_numbers [OF assms(2,4)]
  have M: "in_order (map fst M)" "mset M = mset a + mset b" "length M = length a + length b"
    using in_order_merge_near [OF a(1) b(1) ab] by (simp_all add: M_def)
  have number: "fst z \<noteq> NaN" if "z \<in> set (take k M)" for z
    using in_set_takeD [OF that] ab by (auto simp: M_def dest: numbersD)
  have "length xs = length a + length ra" "length ys = length b + length rb"
    using a(3) b(3) by (metis size_mset size_union)+
  then have full: "r \<in> set ra \<Longrightarrow> k \<le> length a" "r \<in> set rb \<Longrightarrow> k \<le> length b" for r
  proof -
    have "0 < length ra" if "r \<in> set ra" using that by (rule length_pos_if_in_set)
    then show "r \<in> set ra \<Longrightarrow> k \<le> length a" using a(2) \<open>length xs = length a + length ra\<close> by linarith
    have "0 < length rb" if "r \<in> set rb" using that by (rule length_pos_if_in_set)
    then show "r \<in> set rb \<Longrightarrow> k \<le> length b" using b(2) \<open>length ys = length b + length rb\<close> by linarith
  qed
  have "fst z \<le> fst r" if z: "z \<in> set (take k M)" and r: "r \<in> set (ra @ rb @ drop k M)" for z r
  proof -
    consider "r \<in> set ra" | "r \<in> set rb" | "r \<in> set (drop k M)" using r by auto
    then show ?thesis
    proof cases
      case 1
      then show ?thesis using left_out_stays_out [OF M(1,2) full(1) _ z number [OF z]] a(4) by blast
    next
      case 2
      have "mset M = mset b + mset a" using M(2) by (simp add: add.commute)
      then show ?thesis using 2 left_out_stays_out [OF M(1) _ full(2) _ z number [OF z]] b(4) by blast
    next
      case 3
      have "in_order (map fst (take k M) @ map fst (drop k M))"
        using M(1) by (simp flip: map_append)
      then show ?thesis using z 3 by (auto simp: sorted_wrt_append)
    qed
  qed
  moreover have "mset (xs @ ys) = mset (take k M) + mset (ra @ rb @ drop k M)"
  proof -
    have "mset M = mset (take k M) + mset (drop k M)" by (metis append_take_drop_id mset_append)
    then show ?thesis using a(3) b(3) M(2) by simp
  qed
  moreover have "in_order (map fst (take k M))" using M(1) by (simp add: sorted_wrt_take take_map [symmetric])
  moreover have "length (take k M) = min k (length (xs @ ys))" using M(3) a(2) b(2) by auto
  ultimately show ?thesis unfolding M_def topk_def by blast
qed

subsection \<open>What the selection promises\<close>

text \<open>
  \<^verbatim>\<open>min_idx\<close> gives the positions of the nearest candidates of a chunk: as many as asked for, or all when there are
  fewer, in order of distance, each once, and no candidate it leaves out is nearer than one it takes. It never runs
  over an array and never fails.
\<close>

lemma min_idx_picks_nearest:
  fixes distances :: "'r :: linorder f32 list"
  assumes "0 < k" and "k \<le> n" and "n = 8 * length candidates" and "n = 8 * length bTaken" and "n \<le> length distances"
    and "k \<le> length out" and "\<forall>j \<in> members candidates. distances ! j \<noteq> NaN"
  shows "\<exists>out' taken' used ps. min_idx distances n candidates out k bTaken = Some (out', taken', used) \<and>
    ps = take used out' \<and> used = min k (card (members candidates)) \<and> length ps = used \<and>
    set ps \<subseteq> members candidates \<and> distinct ps \<and> in_order (map (\<lambda>j. distances ! j) ps) \<and>
    (\<forall>p \<in> set ps. \<forall>j \<in> members candidates - set ps. distances ! p \<le> distances ! j)"
proof -
  obtain out' taken' used where r: "min_idx distances n candidates out k bTaken = Some (out', taken', used)"
    "length out' = length out" "used = min k (card (members candidates))"
    "nearest_of distances (members candidates) (take used out')"
    using min_idx_ok [OF assms] by blast
  then have "length (take used out') = used" using assms(6) by simp
  then show ?thesis using r by (auto simp: nearest_of_def)
qed

lemma members_0x2D: "members [0x2D] = {0, 2, 3, 5}"
proof (rule set_eqI)
  fix i :: nat
  have "i < 8 \<Longrightarrow> i = 0 \<or> i = 1 \<or> i = 2 \<or> i = 3 \<or> i = 4 \<or> i = 5 \<or> i = 6 \<or> i = 7" by arith
  moreover have "bit (0x2D :: byte) 0" "\<not> bit (0x2D :: byte) 1" "bit (0x2D :: byte) 2" "bit (0x2D :: byte) 3"
    "\<not> bit (0x2D :: byte) 4" "bit (0x2D :: byte) 5" "\<not> bit (0x2D :: byte) 6" "\<not> bit (0x2D :: byte) 7"
    by (simp_all add: bit_simps)
  ultimately show "i \<in> members [0x2D] \<longleftrightarrow> i \<in> {0, 2, 3, 5}" by (auto simp: in_members)
qed

definition whole_numbers :: "int list \<Rightarrow> int f32 list" where
  "whole_numbers ns = map Number ns"

lemma min_idx_picks_nearest_witness:
  "\<exists>out' taken' used ps. min_idx (whole_numbers [4, 0, 7, 1, 0, 3, 0, 0]) 8 [0x2D] [0, 0, 0] 3 [0] = Some (out', taken', used) \<and>
     ps = take used out' \<and> used = min 3 (card {0, 2, 3, 5 :: nat}) \<and> length ps = used \<and> set ps \<subseteq> {0, 2, 3, 5} \<and> distinct ps \<and>
     in_order (map (\<lambda>j. whole_numbers [4, 0, 7, 1, 0, 3, 0, 0] ! j) ps) \<and>
     (\<forall>p \<in> set ps. \<forall>j \<in> {0, 2, 3, 5} - set ps. whole_numbers [4, 0, 7, 1, 0, 3, 0, 0] ! p \<le> whole_numbers [4, 0, 7, 1, 0, 3, 0, 0] ! j)"
  by (rule min_idx_picks_nearest [of 3 8 "[0x2D]" "[0]" "whole_numbers [4, 0, 7, 1, 0, 3, 0, 0]" "[0, 0, 0]", unfolded members_0x2D])
    (simp_all add: whole_numbers_def)

lemma merge_topk:
  fixes a b :: "'r :: linorder f32 list"
  assumes "merge_input a a_rowids a_length b b_rowids b_top_idxs b_length" and "k \<le> length out" and "k \<le> length rout"
    and "topk k all_a (neighbours a a_rowids a_length)" and "topk k all_b (neighbours_at b b_rowids b_top_idxs b_length)"
    and "numbers all_a" and "numbers all_b"
  shows "\<exists>out' rout' used. merge_sorted_lists a a_rowids a_length b b_rowids b_top_idxs b_length out rout k =
      Some (out', rout', used) \<and> used = min k (length all_a + length all_b) \<and>
    length out' = length out \<and> length rout' = length rout \<and> topk k (all_a @ all_b) (neighbours out' rout' used)"
proof -
  define M where "M = take k (merge_near (neighbours a a_rowids a_length) (neighbours_at b b_rowids b_top_idxs b_length))"
  obtain out' rout' where r: "merge_sorted_lists a a_rowids a_length b b_rowids b_top_idxs b_length out rout k =
      Some (out', rout', length M)" "length out' = length out" "length rout' = length rout"
      "take (length M) out' = map fst M" "take (length M) rout' = map snd M"
    using merge_sorted_lists_ok [OF assms(1) refl refl assms(2,3) M_def] by blast
  have t: "topk k (all_a @ all_b) M" unfolding M_def by (rule topk_merge [OF assms(4-7)])
  have "neighbours out' rout' (length M) = M"
  proof (rule nth_equalityI)
    fix i assume "i < length (neighbours out' rout' (length M))"
    then have i: "i < length M" by simp
    then have "out' ! i = map fst M ! i" "rout' ! i = map snd M ! i" using r(4,5) by (metis nth_take)+
    then show "neighbours out' rout' (length M) ! i = M ! i" using i by (simp add: neighbours_def)
  qed simp
  then show ?thesis using r(1-3) t by (auto simp: topk_def)
qed

text \<open>
  Merging the best \<open>k\<close> of one collection of neighbours with the best \<open>k\<close> of another gives the best \<open>k\<close> of
  both together, with distances and row ids kept in step.
\<close>

lemma merge_keeps_the_best:
  fixes a b :: "'r :: linorder f32 list"
  assumes "merge_input a a_rowids a_length b b_rowids b_top_idxs b_length" and "k \<le> length out" and "k \<le> length rout"
    and "topk k all_a (neighbours a a_rowids a_length)" and "topk k all_b (neighbours_at b b_rowids b_top_idxs b_length)"
    and "numbers all_a" and "numbers all_b"
  shows "\<exists>out' rout' used. merge_sorted_lists a a_rowids a_length b b_rowids b_top_idxs b_length out rout k =
      Some (out', rout', used) \<and> used = min k (length all_a + length all_b) \<and>
    topk k (all_a @ all_b) (neighbours out' rout' used)"
  using merge_topk [OF assms] by blast

lemma merge_keeps_the_best_witness:
  "\<exists>out' rout' used. merge_sorted_lists (whole_numbers [1, 5]) [10, 11] 2 (whole_numbers [7, 3]) [20, 21] [1, 0] 2 (whole_numbers [0, 0]) [0, 0] 2 =
       Some (out', rout', used) \<and>
     used = min 2 (length [(Number 5 :: int f32, 11 :: int), (Number 1, 10)] + length [(Number 7 :: int f32, 20 :: int), (Number 3, 21)]) \<and>
     topk 2 ([(Number 5, 11), (Number 1, 10)] @ [(Number 7, 20), (Number 3, 21)]) (neighbours out' rout' used)"
proof (rule merge_keeps_the_best)
  have n: "neighbours (whole_numbers [1, 5]) [10, 11] 2 = [(Number 1, 10), (Number 5, 11)]"
    "neighbours_at (whole_numbers [7, 3]) [20, 21] [1, 0] 2 = [(Number 3, 21), (Number 7, 20)]"
    by (simp_all add: neighbours_def neighbours_at_def upt_rec whole_numbers_def)
  show "topk 2 [(Number 5, 11), (Number 1, 10)] (neighbours (whole_numbers [1, 5]) [10, 11] 2)"
    "topk 2 [(Number 7, 20), (Number 3, 21)] (neighbours_at (whole_numbers [7, 3]) [20, 21] [1, 0] 2)"
    unfolding n by (simp_all add: topk_def add_mset_commute exI [of _ "[]"])
qed (simp_all add: merge_input_def whole_numbers_def)

subsection \<open>What a NaN does\<close>

text \<open>
  When the first candidate of a chunk has a NaN for its distance, no candidate is found nearer: with \<open>k = 1\<close> it is the
  one that is picked, whatever the distances of the others.
\<close>

lemma nearest_loop_nan:
  assumes "n \<le> length distances" and "m < n" and "distances ! m = (NaN :: 'r :: ord f32)"
  shows "i \<le> n \<Longrightarrow> nearest_loop distances n candidates bTaken i m = Some m"
proof (induction "n - i" arbitrary: i)
  case 0
  then show ?case by (subst nearest_loop.simps) simp
next
  case (Suc x)
  then have "nearest_loop distances n candidates bTaken (Suc i) m = Some m" by auto
  then show ?case using Suc assms by (subst nearest_loop.simps) simp
qed

lemma nan_first_candidate_wins:
  assumes "n = 8 * length candidates" and "n = 8 * length bTaken" and "n \<le> length distances" and "0 < length out"
    and "m \<in> members candidates" and "\<forall>j < m. j \<notin> members candidates" and "distances ! m = (NaN :: 'r :: ord f32)"
  shows "\<exists>taken. min_idx distances n candidates out 1 bTaken = Some (out[0 := m], taken, 1)"
proof -
  have m: "m < n" using assms(1,5) by (simp add: in_members)
  define zero where "zero = replicate (length bTaken) (0 :: byte)"
  have clear: "bitmap_clear bTaken n = Some zero" "members zero = {}"
    using bitmap_clear_members [of bTaken n] assms(2) by (simp_all add: zero_def)
  obtain m0 where m0: "first_free n candidates zero 0 = Some m0" "m0 \<le> n" "m0 < n \<longrightarrow> m0 \<in> members candidates"
    "\<forall>j < m0. j \<notin> members candidates"
    using first_free_ok [of n candidates zero 0] assms(1,2) clear(2) by (auto simp: zero_def)
  have "\<not> m < m0" using m0(4) assms(5) by blast
  then have "m0 = m" using m0(3) m assms(6) by (cases "m0 = m") auto
  obtain taken where "bitmap_set zero m True = Some taken"
    using bitmap_set_members [of m zero True] m assms(2) by (auto simp: zero_def)
  moreover have "nearest_loop distances n candidates zero 0 m = Some m" by (rule nearest_loop_nan [OF assms(3) m assms(7)]) simp
  moreover have "put out 0 m = Some (out[0 := m])" using assms(4) by simp
  ultimately have "pick_loop distances n candidates 1 0 out zero = pick_loop distances n candidates 1 1 (out[0 := m]) taken"
    using m m0(1) unfolding \<open>m0 = m\<close> by (subst pick_loop.simps) (simp only: Option.bind.simps zero_less_one if_True not_le if_not_P add_0)
  also have "\<dots> = Some (out[0 := m], taken, 1)" by (subst pick_loop.simps) simp
  finally show ?thesis using clear(1) m by (simp add: min_idx_def)
qed

end
