(* ===== verification/VecFilter.thy ===== *)
theory VecFilter
  imports VecMetadata
begin

text \<open>
  What metadata columns promise: a value written to a row is the one read and filtered by, and the rows a text
  filter selects are those whose text satisfies the constraint, except in the cases the last properties show.
\<close>

subsection \<open>The promises of SQLite\<close>

record store =
  st_blobs :: "blob_column \<Rightarrow> int \<Rightarrow> byte list option"
  st_texts :: "nat \<Rightarrow> int \<Rightarrow> byte list option"

definition set_blob :: "'x store_scheme \<Rightarrow> blob_column \<Rightarrow> int \<Rightarrow> byte list \<Rightarrow> 'x store_scheme" where
  "set_blob st c chunk bs = st\<lparr>st_blobs := (st_blobs st)(c := (st_blobs st c)(chunk := Some bs))\<rparr>"

definition set_text :: "'x store_scheme \<Rightarrow> nat \<Rightarrow> int \<Rightarrow> byte list option \<Rightarrow> 'x store_scheme" where
  "set_text st column row s = st\<lparr>st_texts := (st_texts st)(column := (st_texts st column)(row := s))\<rparr>"

lemma store_simps [simp]:
  "st_blobs (set_blob st c chunk bs) = (st_blobs st)(c := (st_blobs st c)(chunk := Some bs))"
  "st_texts (set_blob st c chunk bs) = st_texts st"
  "st_blobs (set_text st column row s) = st_blobs st"
  "st_texts (set_text st column row s) = (st_texts st)(column := (st_texts st column)(row := s))"
  by (simp_all add: set_blob_def set_text_def)

definition overwrite :: "byte list \<Rightarrow> nat \<Rightarrow> byte list \<Rightarrow> byte list" where
  "overwrite bs offset data = take offset bs @ data @ drop (offset + length data) bs"

text \<open>
  A blob that exists opens, knows its size and can be read and overwritten within its bounds; a row is inserted
  where there was none, updated where there was one, deleted in any case. No call runs out of memory or meets an
  I/O error.
\<close>

locale sqlite_store =
  fixes S :: "'db sqlite_api"
    and view :: "'db \<Rightarrow> store"
  assumes open_ok: "st_blobs (view db) c chunk = Some bs \<Longrightarrow> blob_open S db c chunk = SQLITE_OK"
    and bytes_ok: "st_blobs (view db) c chunk = Some bs \<Longrightarrow> blob_bytes S db c chunk = length bs"
    and read_ok: "st_blobs (view db) c chunk = Some bs \<Longrightarrow> offset + n \<le> length bs \<Longrightarrow>
      blob_read S db c chunk offset n = Inr (take n (drop offset bs))"
    and write_ok: "st_blobs (view db) c chunk = Some bs \<Longrightarrow> offset + length data \<le> length bs \<Longrightarrow>
      fst (blob_write S db c chunk data offset) = SQLITE_OK \<and>
      view (snd (blob_write S db c chunk data offset)) = set_blob (view db) c chunk (overwrite bs offset data)"
    and close_ok: "blob_close S db = SQLITE_OK"
    and malloc_ok: "malloc S db n"
    and prepare_ok: "prepare S db sql = SQLITE_OK"
    and select_ok: "text_select S db column row = st_texts (view db) column row"
    and insert_ok: "st_texts (view db) column row = None \<Longrightarrow> fst (text_insert S db column row s) = SQLITE_DONE \<and>
      view (snd (text_insert S db column row s)) = set_text (view db) column row (Some s)"
    and update_ok: "st_texts (view db) column row \<noteq> None \<Longrightarrow> fst (text_update S db column row s) = SQLITE_DONE \<and>
      view (snd (text_update S db column row s)) = set_text (view db) column row (Some s)"
    and delete_ok: "fst (text_delete S db column row) = SQLITE_DONE \<and>
      view (snd (text_delete S db column row)) = set_text (view db) column row None"

text \<open>The promises can be kept: a store as its own database.\<close>

definition store_api :: "'x store_scheme sqlite_api" where
  "store_api = \<lparr>
     blob_open = (\<lambda>db c chunk. if st_blobs db c chunk = None then SQLITE_ERROR else SQLITE_OK),
     blob_bytes = (\<lambda>db c chunk. case st_blobs db c chunk of None \<Rightarrow> 0 | Some bs \<Rightarrow> length bs),
     blob_read = (\<lambda>db c chunk offset n. case st_blobs db c chunk of None \<Rightarrow> Inl SQLITE_ERROR
       | Some bs \<Rightarrow> if offset + n \<le> length bs then Inr (take n (drop offset bs)) else Inl SQLITE_ERROR),
     blob_write = (\<lambda>db c chunk data offset. case st_blobs db c chunk of None \<Rightarrow> (SQLITE_ERROR, db)
       | Some bs \<Rightarrow> if offset + length data \<le> length bs then (SQLITE_OK, set_blob db c chunk (overwrite bs offset data))
           else (SQLITE_ERROR, db)),
     blob_close = (\<lambda>_. SQLITE_OK),
     malloc = (\<lambda>_ _. True),
     prepare = (\<lambda>_ _. SQLITE_OK),
     text_select = st_texts,
     text_insert = (\<lambda>db column row s. if st_texts db column row = None then (SQLITE_DONE, set_text db column row (Some s))
       else (19, db)),
     text_update = (\<lambda>db column row s. if st_texts db column row \<noteq> None then (SQLITE_DONE, set_text db column row (Some s))
       else (SQLITE_DONE, db)),
     text_delete = (\<lambda>db column row. (SQLITE_DONE, set_text db column row None))\<rparr>"

interpretation map_store: sqlite_store store_api "\<lambda>st. st"
  by unfold_locales (simp_all add: store_api_def)

subsection \<open>Numbers in memory\<close>

lemma length_le_bytes [simp]: "length (le_bytes k n) = k"
  by (induction k arbitrary: n) simp_all

lemma le_nat_le_bytes: "le_nat (le_bytes k n) = n mod 256 ^ k"
proof (induction k arbitrary: n)
  case 0
  then show ?case by (simp add: le_nat_def)
next
  case (Suc k)
  have "unat (of_nat (n mod 256) :: byte) = n mod 256" by (simp add: unat_of_nat)
  then have "le_nat (le_bytes (Suc k) n) = n mod 256 + 256 * ((n div 256) mod 256 ^ k)"
    using Suc by (simp add: le_nat_def)
  also have "\<dots> = n mod (256 * 256 ^ k)" by (simp add: mod_mult2_eq)
  finally show ?case by simp
qed

lemma int_bytes_inverse [simp]: "- (2 ^ 31) \<le> n \<Longrightarrow> n < 2 ^ 31 \<Longrightarrow> int_of_bytes (int_bytes n) = n"
proof -
  assume n: "- (2 ^ 31) \<le> n" "n < 2 ^ 31"
  have "unat (of_int n :: 32 word) < 2 ^ 32" by (rule order_less_le_trans [OF unsigned_less]) simp
  then have "int_of_bytes (int_bytes n) = sint (of_int n :: 32 word)"
    by (simp add: int_of_bytes_def int_bytes_def le_nat_le_bytes)
  also have "\<dots> = n" using n by (simp add: signed_of_int signed_take_bit_int_eq_self)
  finally show ?thesis .
qed

lemma i64_bytes_inverse [simp]: "- (2 ^ 63) \<le> n \<Longrightarrow> n < 2 ^ 63 \<Longrightarrow> i64_of_bytes (i64_bytes n) = n"
proof -
  assume n: "- (2 ^ 63) \<le> n" "n < 2 ^ 63"
  have "unat (of_int n :: 64 word) < 2 ^ 64" by (rule order_less_le_trans [OF unsigned_less]) simp
  then have "i64_of_bytes (i64_bytes n) = sint (of_int n :: 64 word)"
    by (simp add: i64_of_bytes_def i64_bytes_def le_nat_le_bytes)
  also have "\<dots> = n" using n by (simp add: signed_of_int signed_take_bit_int_eq_self)
  finally show ?thesis .
qed

lemma length_int_bytes [simp]: "length (int_bytes n) = 4" "length (i64_bytes n) = 8"
  by (simp_all add: int_bytes_def i64_bytes_def)

lemma length_text_view [simp]: "length (text_view s) = 16"
  by (simp add: text_view_def Let_def)

subsection \<open>Loops over the rows\<close>

lemma filter_rows_ok:
  "\<forall>i \<in> set is. row i = Some (Inr (v i)) \<Longrightarrow> \<forall>i \<in> set is. i < 8 * length b \<Longrightarrow> distinct is \<Longrightarrow>
     \<exists>b'. filter_rows row is b = Some (Inr b') \<and> length b' = length b \<and>
       members b' = {i \<in> set is. v i = Some True} \<union> {i \<in> members b. i \<notin> set is \<or> v i = None}"
proof (induction "is" arbitrary: b)
  case Nil
  then show ?case by simp
next
  case (Cons i "is")
  show ?case
  proof (cases "v i")
    case None
    then show ?thesis using Cons.IH [of b] Cons.prems by auto
  next
    case (Some x)
    obtain b1 where b1: "bitmap_set b i x = Some b1" "length b1 = length b"
      "members b1 = (if x then insert i (members b) else members b - {i})"
      using bitmap_set_members [of i b x] Cons.prems(2) by auto
    obtain b2 where b2: "filter_rows row is b1 = Some (Inr b2)" "length b2 = length b"
      "members b2 = {j \<in> set is. v j = Some True} \<union> {j \<in> members b1. j \<notin> set is \<or> v j = None}"
      using Cons.IH [of b1] Cons.prems b1(2) by auto
    have "members b2 = {j \<in> set (i # is). v j = Some True} \<union> {j \<in> members b. j \<notin> set (i # is) \<or> v j = None}"
    proof (intro set_eqI)
      fix j
      have m: "j \<in> members b1 \<longleftrightarrow> (if j = i then x else j \<in> members b)" using b1(3) by (cases x) simp_all
      show "j \<in> members b2 \<longleftrightarrow> j \<in> {j \<in> set (i # is). v j = Some True} \<union> {j \<in> members b. j \<notin> set (i # is) \<or> v j = None}"
      proof (cases "j = i")
        case True
        then show ?thesis using m Some Cons.prems(3) unfolding b2(3) by simp
      next
        case False
        then show ?thesis using m unfolding b2(3) by simp
      qed
    qed
    then show ?thesis using Some b1(1) b2(1,2) Cons.prems(1) by simp
  qed
qed

lemma filter_rows_all:
  assumes "\<And>i. i < n \<Longrightarrow> row i = Some (Inr (v i))" and "length b = n div 8" and "n mod 8 = 0" and "members b = {}"
  shows "\<exists>b'. filter_rows row [0..<n] b = Some (Inr b') \<and> length b' = n div 8 \<and> members b' = {i. i < n \<and> v i = Some True}"
  using filter_rows_ok [of "[0..<n]" row v b] assms by auto

lemma filter_rows_error:
  "(\<And>i. i < m \<Longrightarrow> \<exists>v. row i = Some (Inr v)) \<Longrightarrow> row m = Some (Inl rc) \<Longrightarrow> m < n \<Longrightarrow> n \<le> 8 * length b \<Longrightarrow>
     filter_rows row [k..<n] b = Some (Inl rc)" if "k \<le> m" for k
  using that
proof (induction "m - k" arbitrary: k b)
  case 0
  then have "k = m" "[k..<n] = m # [Suc m..<n]" using upt_conv_Cons by auto
  then show ?case using 0 by simp
next
  case (Suc x)
  then have "[k..<n] = k # [Suc k..<n]" "k < m" "x = m - Suc k" using upt_conv_Cons by auto
  moreover obtain v where v: "row k = Some (Inr v)" using Suc.prems(1) calculation(2) by blast
  moreover have IH: "filter_rows row [Suc k..<n] c = Some (Inl rc)" if "length c = length b" for c
    using Suc.hyps(1) [of "Suc k" c] Suc.prems calculation(2,3) that by auto
  ultimately show ?case
  proof (cases v)
    case None
    then show ?thesis using IH [of b] v \<open>[k..<n] = k # [Suc k..<n]\<close> by simp
  next
    case (Some y)
    obtain c where "bitmap_set b k y = Some c" "length c = length b"
      using bitmap_set_members [of k b y] Suc.prems(3,4) \<open>k < m\<close> by auto
    then show ?thesis using IH [of c] v Some \<open>[k..<n] = k # [Suc k..<n]\<close> by simp
  qed
qed

subsection \<open>Texts\<close>

text \<open>The order of texts: byte by byte, a proper prefix first.\<close>

fun lex_cmp :: "byte list \<Rightarrow> byte list \<Rightarrow> int" where
  "lex_cmp [] [] = 0"
| "lex_cmp [] (y # ys) = - 1"
| "lex_cmp (x # xs) [] = 1"
| "lex_cmp (x # xs) (y # ys) = (if x \<noteq> y then uint x - uint y else lex_cmp xs ys)"

lemma uint_diff_zero: "uint x - uint y = 0 \<longleftrightarrow> x = (y :: byte)"
  by (simp add: word_uint_eq_iff)

text \<open>Over text without zero bytes \<^verbatim>\<open>strncmp\<close> compares the first \<open>n\<close> bytes.\<close>

lemma strncmp_text:
  "n \<le> length xs \<Longrightarrow> n \<le> length ys \<Longrightarrow> 0 \<notin> set (take n xs) \<Longrightarrow> strncmp xs ys n = Some (lex_cmp (take n xs) (take n ys))"
  by (induction xs ys n rule: strncmp.induct) auto

lemma lex_cmp_eq: "lex_cmp xs ys = 0 \<longleftrightarrow> xs = ys"
  by (induction xs ys rule: lex_cmp.induct) (auto simp: word_uint_eq_iff)

text \<open>The comparison of the common part decides, and where it does not the lengths do.\<close>

lemma lex_cmp_common:
  assumes "m = min (length xs) (length ys)"
  shows "sgn (lex_cmp xs ys) = (if lex_cmp (take m xs) (take m ys) = 0 then sgn (int (length xs) - int (length ys))
    else sgn (lex_cmp (take m xs) (take m ys)))"
  unfolding assms by (induction xs ys rule: lex_cmp.induct) (auto simp: word_uint_eq_iff)

text \<open>The relation an operator stands for, on the sign of a comparison.\<close>

definition sign_relation :: "(int \<Rightarrow> int \<Rightarrow> bool) \<Rightarrow> bool" where
  "sign_relation rel \<longleftrightarrow> rel \<in> {(>), (\<ge>), (\<le>), (<)}"

lemma sign_relation:
  assumes "sign_relation rel"
  shows "rel (x :: int) y \<longleftrightarrow> rel (sgn (x - y)) 0"
  using assms unfolding sign_relation_def by (auto simp: sgn_if)

definition text_holds :: "metadata_operator \<Rightarrow> byte list list \<Rightarrow> byte list \<Rightarrow> byte list \<Rightarrow> bool" where
  "text_holds op targets target t =
     (case op of OP_EQ \<Rightarrow> t = target | OP_NE \<Rightarrow> t \<noteq> target | OP_GT \<Rightarrow> lex_cmp t target > 0 | OP_GE \<Rightarrow> lex_cmp t target \<ge> 0
      | OP_LE \<Rightarrow> lex_cmp t target \<le> 0 | OP_LT \<Rightarrow> lex_cmp t target < 0 | OP_IN \<Rightarrow> t \<in> set targets)"

text \<open>
  The store keeps the texts \<open>ts\<close> of a chunk in \<open>column\<close>, and the row ids beside them: long texts, and only
  they, are also in the table of long texts.
\<close>

definition text_chunk :: "store \<Rightarrow> nat \<Rightarrow> int \<Rightarrow> int list \<Rightarrow> byte list list \<Rightarrow> bool" where
  "text_chunk st column chunk rowids ts \<longleftrightarrow>
     st_blobs st (Metadata_data column) chunk = Some (concat (map text_view ts)) \<and>
     st_blobs st Chunks_rowids chunk = Some (concat (map i64_bytes rowids)) \<and>
     length rowids = length ts \<and> (\<forall>r \<in> set rowids. - (2 ^ 63) \<le> r \<and> r < 2 ^ 63) \<and>
     (\<forall>i < length ts. length (ts ! i) < 2 ^ 31 \<and> 0 \<notin> set (ts ! i) \<and>
        (length (ts ! i) > 12 \<longrightarrow> st_texts st column (rowids ! i) = Some (ts ! i)))"

text \<open>Cells of equal size, one after the other.\<close>

lemma drop_cells: "\<forall>x \<in> set xs. length (f x) = k \<Longrightarrow> i \<le> length xs \<Longrightarrow> drop (k * i) (concat (map f xs)) = concat (map f (drop i xs))"
proof (induction xs arbitrary: i)
  case Nil
  then show ?case by simp
next
  case (Cons x xs)
  then show ?case by (cases i) simp_all
qed

lemma length_cells: "\<forall>x \<in> set xs. length (f x) = k \<Longrightarrow> length (concat (map f xs)) = k * length xs"
  by (induction xs) simp_all

lemma take_cell:
  assumes "\<forall>x \<in> set xs. length (f x) = k" and "i < length xs"
  shows "take k (drop (k * i) (concat (map f xs))) = f (xs ! i)"
proof -
  have "drop i xs = xs ! i # drop (Suc i) xs" using assms(2) by (simp add: Cons_nth_drop_Suc)
  then show ?thesis using drop_cells [OF assms(1), of i] assms by simp
qed

lemma bytes_at_cell:
  assumes "\<forall>x \<in> set xs. length (f x) = k" and "i < length xs"
  shows "bytes_at (concat (map f xs)) (i * k) k = Some (f (xs ! i))"
proof -
  have "i * k + k \<le> k * length xs" using assms(2) by (metis Suc_leI mult.commute mult_Suc mult_le_mono2 add.commute)
  then show ?thesis using take_cell [OF assms] length_cells [OF assms(1)] by (simp add: bytes_at_def mult.commute)
qed

lemma row_view_text:
  assumes "i < length ts" and "length (ts ! i) < 2 ^ 31"
  shows "row_view (concat (map text_view ts)) i =
    Some (int (length (ts ! i)), take 12 (ts ! i) @ replicate (12 - length (ts ! i)) 0)"
proof -
  have "bytes_at (concat (map text_view ts)) (i * 16) 16 = Some (text_view (ts ! i))"
    by (rule bytes_at_cell) (simp_all add: assms(1))
  moreover have "take 4 (text_view (ts ! i)) = int_bytes (int (length (ts ! i)))"
    "drop 4 (text_view (ts ! i)) = take 12 (ts ! i) @ replicate (12 - length (ts ! i)) 0"
    by (simp_all add: text_view_def Let_def min_def)
  ultimately show ?thesis using assms(2) by (simp add: row_view_def)
qed

text \<open>The first \<open>n\<close> bytes of a row's view are those of its text.\<close>

lemma strncmp_view:
  assumes "n \<le> length t" and "n \<le> 12" and "n \<le> length s" and "0 \<notin> set t"
  shows "strncmp (take 12 t @ replicate (12 - length t) 0) (s @ [0]) n = Some (lex_cmp (take n t) (take n s))"
proof -
  have "strncmp (take 12 t @ replicate (12 - length t) 0) (s @ [0]) n =
      Some (lex_cmp (take n (take 12 t @ replicate (12 - length t) 0)) (take n (s @ [0])))"
    using assms by (intro strncmp_text) (auto dest: in_set_takeD)
  then show ?thesis using assms by simp
qed

context sqlite_store
begin

definition chunk_ready :: "'db \<Rightarrow> nat \<Rightarrow> int list \<Rightarrow> byte list list \<Rightarrow> bool" where
  "chunk_ready db column rowids ts \<longleftrightarrow> length rowids = length ts \<and>
     (\<forall>i < length ts. length (ts ! i) < 2 ^ 31 \<and> 0 \<notin> set (ts ! i) \<and>
        (length (ts ! i) > 12 \<longrightarrow> st_texts (view db) column (rowids ! i) = Some (ts ! i)))"

lemma compare_long_text:
  assumes "chunk_ready db column rowids ts" and "i < length ts" and "12 < length (ts ! i)" and "length (ts ! i) \<le> Suc (length target)"
  shows "compare_long S db column rowids i (int (length (ts ! i))) target decide =
    Some (Inr (Some (decide (lex_cmp (ts ! i) (take (length (ts ! i)) (target @ [0]))))))"
proof -
  have t: "st_texts (view db) column (rowids ! i) = Some (ts ! i)" "0 \<notin> set (ts ! i)" "i < length rowids"
    using assms(1-3) by (auto simp: chunk_ready_def)
  have "strncmp (ts ! i @ [0]) (target @ [0]) (length (ts ! i)) =
      Some (lex_cmp (take (length (ts ! i)) (ts ! i @ [0])) (take (length (ts ! i)) (target @ [0])))"
    using t assms(4) by (intro strncmp_text) auto
  then show ?thesis using t
    by (simp add: compare_long_def vec0_get_metadata_text_long_value_def prepare_ok select_ok)
qed

lemma text_equality_row_ok:
  assumes "chunk_ready db column rowids ts" and "i < length ts"
  shows "text_equality_row S db column rowids (concat (map text_view ts)) target ne i = Some (Inr (Some ((ts ! i = target) \<noteq> ne)))"
proof -
  define t where "t = ts ! i"
  have t: "length t < 2 ^ 31" "0 \<notin> set t" using assms by (auto simp: chunk_ready_def t_def)
  have row: "row_view (concat (map text_view ts)) i = Some (int (length t), take 12 t @ replicate (12 - length t) 0)"
    using row_view_text [OF assms(2)] t(1) by (simp add: t_def)
  show ?thesis
  proof (cases "length t = length target")
    case False
    then have "t \<noteq> target" by auto
    then show ?thesis using row False by (simp add: text_equality_row_def t_def)
  next
    case True
    have "size_t (min (int (length t)) 12) = min (length t) 12" by (simp add: size_t_def min_def)
    then have p: "strncmp (take 12 t @ replicate (12 - length t) 0) (target @ [0]) (size_t (min (int (length t)) 12)) =
        Some (lex_cmp (take (min (length t) 12) t) (take (min (length t) 12) target))"
      using strncmp_view [of "min (length t) 12" t target] True t(2) by simp
    have split: "t = target \<longleftrightarrow> take n t = take n target \<and> drop n t = drop n target" for n
      by (metis append_take_drop_id)
    show ?thesis
    proof (cases "length t \<le> 12")
      case short: True
      then show ?thesis using row p True by (simp add: text_equality_row_def lex_cmp_eq t_def min_def)
    next
      case long: False
      have "compare_long S db column rowids i (int (length t)) target decide =
          Some (Inr (Some (decide (lex_cmp t (take (length t) (target @ [0]))))))" for decide
        using compare_long_text [OF assms, of target decide] long True by (simp add: t_def)
      then show ?thesis using row p True long split [of 12]
        by (auto simp: text_equality_row_def lex_cmp_eq t_def min_def)
    qed
  qed
qed

lemma text_range_row_short:
  assumes "chunk_ready db column rowids ts" and "i < length ts" and "length (ts ! i) < 12" and "sign_relation rel"
  shows "text_range_row S db column rowids (concat (map text_view ts)) target rel i =
    Some (Inr (Some (rel (lex_cmp (ts ! i) target) 0)))"
proof -
  define t where "t = ts ! i"
  define m where "m = min (length t) (length target)"
  have t: "length t < 2 ^ 31" "0 \<notin> set t" using assms by (auto simp: chunk_ready_def t_def)
  have row: "row_view (concat (map text_view ts)) i = Some (int (length t), take 12 t @ replicate (12 - length t) 0)"
    using row_view_text [OF assms(2)] t(1) by (simp add: t_def)
  have "size_t (min (min (int (length t)) 12) (int (length target))) = m"
    using assms(3) by (simp add: size_t_def m_def t_def min_def)
  then have p: "strncmp (take 12 t @ replicate (12 - length t) 0) (target @ [0])
      (size_t (min (min (int (length t)) 12) (int (length target)))) = Some (lex_cmp (take m t) (take m target))"
    using strncmp_view [of m t target] t(2) assms(3) by (simp add: m_def t_def)
  have "rel (lex_cmp t target) 0 \<longleftrightarrow>
      (if lex_cmp (take m t) (take m target) = 0 then rel (int (length t)) (int (length target))
       else rel (lex_cmp (take m t) (take m target)) 0)"
    using lex_cmp_common [OF m_def] sign_relation [OF assms(4), of "lex_cmp t target" 0]
      sign_relation [OF assms(4), of "int (length t)" "int (length target)"]
      sign_relation [OF assms(4), of "lex_cmp (take m t) (take m target)" 0] by simp
  then show ?thesis using row p assms(3) unfolding text_range_row_def t_def [symmetric] by simp
qed

end

context sqlite_store
begin

lemma text_in_row_ok:
  assumes "chunk_ready db column rowids ts" and "i < length ts"
  shows "text_in_row S db column rowids (int (length (ts ! i))) (take 12 (ts ! i) @ replicate (12 - length (ts ! i)) 0) targets i =
    Some (Inr (if ts ! i \<in> set targets then Some True else None))"
proof -
  define t where "t = ts ! i"
  have t: "length t < 2 ^ 31" "0 \<notin> set t" using assms by (auto simp: chunk_ready_def t_def)
  have sz: "size_t (min (int (length t)) 12) = min (length t) 12" by (simp add: size_t_def min_def)
  have "text_in_row S db column rowids (int (length t)) (take 12 t @ replicate (12 - length t) 0) targets i =
      Some (Inr (if t \<in> set targets then Some True else None))"
  proof (induction targets)
    case Nil
    then show ?case by simp
  next
    case (Cons s targets)
    show ?case
    proof (cases "length s = length t")
      case False
      then have "t \<noteq> s" by auto
      then show ?thesis using Cons False by simp
    next
      case True
      have p: "strncmp (take 12 t @ replicate (12 - length t) 0) (s @ [0]) (min (length t) 12) =
          Some (lex_cmp (take (min (length t) 12) t) (take (min (length t) 12) s))"
        using strncmp_view [of "min (length t) 12" t s] True t(2) by simp
      show ?thesis
      proof (cases "length t \<le> 12")
        case short: True
        then have "strncmp (take 12 t @ replicate (12 - length t) 0) (s @ [0]) (min (length t) 12) = Some (lex_cmp t s)"
          using p True by (simp add: min_def)
        then have "text_in_row S db column rowids (int (length t)) (take 12 t @ replicate (12 - length t) 0) (s # targets) i =
            (if lex_cmp t s = 0 then Some (Inr (Some True))
             else text_in_row S db column rowids (int (length t)) (take 12 t @ replicate (12 - length t) 0) targets i)"
          using True sz short by simp
        then show ?thesis using Cons by (simp only: lex_cmp_eq) simp
      next
        case long: False
        have "compare_long S db column rowids i (int (length t)) s decide =
            Some (Inr (Some (decide (lex_cmp t (take (length t) (s @ [0]))))))" for decide
          using compare_long_text [OF assms, of s decide] long True by (simp add: t_def)
        then have "compare_long S db column rowids i (int (length t)) s (\<lambda>c. c = 0) = Some (Inr (Some (t = s)))"
          using True by (simp add: lex_cmp_eq)
        note c = this
        have pre: "strncmp (take 12 t @ replicate (12 - length t) 0) (s @ [0]) (min (length t) 12) =
            Some (lex_cmp (take 12 t) (take 12 s))" using p long by (simp add: min_def)
        show ?thesis
        proof (cases "take 12 t = take 12 s")
          case eq: True
          then have "lex_cmp (take 12 t) (take 12 s) = 0" by (simp add: lex_cmp_eq)
          then have "text_in_row S db column rowids (int (length t)) (take 12 t @ replicate (12 - length t) 0) (s # targets) i =
            (if t = s then Some (Inr (Some True))
             else text_in_row S db column rowids (int (length t)) (take 12 t @ replicate (12 - length t) 0) targets i)"
            using c pre True sz long by simp
          then show ?thesis using Cons by simp
        next
          case ne: False
          then have "t \<noteq> s" "lex_cmp (take 12 t) (take 12 s) \<noteq> 0" by (auto simp: lex_cmp_eq)
          then have "text_in_row S db column rowids (int (length t)) (take 12 t @ replicate (12 - length t) 0) (s # targets) i =
              text_in_row S db column rowids (int (length t)) (take 12 t @ replicate (12 - length t) 0) targets i"
            using pre True sz long by simp
          then show ?thesis using Cons \<open>t \<noteq> s\<close> by simp
        qed
      qed
    qed
  qed
  then show ?thesis by (simp add: t_def)
qed

lemma text_chunk_ready:
  assumes "text_chunk (view db) column chunk rowids ts"
  shows "chunk_ready db column rowids ts"
  using assms by (auto simp: text_chunk_def chunk_ready_def)

lemma small_chunk_id: "- (2 ^ 31) \<le> chunk \<Longrightarrow> chunk < 2 ^ 31 \<Longrightarrow> sint (of_int chunk :: 32 word) = chunk"
  by (simp add: signed_of_int signed_take_bit_int_eq_self)

text \<open>The steps before the loops: the row ids are read back.\<close>

lemma filter_text_start:
  assumes "text_chunk (view db) column chunk rowids ts" and "- (2 ^ 31) \<le> chunk" and "chunk < 2 ^ 31" and "op \<noteq> OP_IN"
  shows "vec0_metadata_filter_text S db target buffer (length ts) op b column chunk in_texts k =
    filter_rows (case op of
        OP_EQ \<Rightarrow> text_equality_row S db column rowids buffer target False
      | OP_NE \<Rightarrow> text_equality_row S db column rowids buffer target True
      | OP_GT \<Rightarrow> text_range_row S db column rowids buffer target (>)
      | OP_GE \<Rightarrow> text_range_row S db column rowids buffer target (\<ge>)
      | OP_LE \<Rightarrow> text_range_row S db column rowids buffer target (\<le>)
      | OP_LT \<Rightarrow> text_range_row S db column rowids buffer target (<)) [0..<length ts] b"
    and "in_texts k = Some targets \<Longrightarrow> vec0_metadata_filter_text S db target buffer (length ts) OP_IN b column chunk in_texts k =
    filter_rows (\<lambda>i. do { (nPrefix, sPrefix) \<leftarrow> row_view buffer i; text_in_row S db column rowids nPrefix sPrefix targets i })
      [0..<length ts] b"
proof -
  define bs where "bs = concat (map i64_bytes rowids)"
  have r: "st_blobs (view db) Chunks_rowids chunk = Some bs" "length rowids = length ts"
    "\<forall>r \<in> set rowids. - (2 ^ 63) \<le> r \<and> r < 2 ^ 63"
    using assms(1) by (auto simp: text_chunk_def bs_def)
  have l: "length bs = 8 * length ts" using length_cells [of rowids i64_bytes 8] r(2) by (simp add: bs_def)
  have ids: "map (\<lambda>i. i64_of_bytes (take 8 (drop (8 * i) bs))) [0..<length ts] = rowids"
  proof (rule nth_equalityI)
    fix i assume "i < length (map (\<lambda>i. i64_of_bytes (take 8 (drop (8 * i) bs))) [0..<length ts])"
    then have i: "i < length rowids" using r(2) by simp
    then have "take 8 (drop (8 * i) bs) = i64_bytes (rowids ! i)" unfolding bs_def by (intro take_cell) simp_all
    moreover have "- (2 ^ 63) \<le> rowids ! i \<and> rowids ! i < 2 ^ 63" using r(3) i by simp
    ultimately show "map (\<lambda>i. i64_of_bytes (take 8 (drop (8 * i) bs))) [0..<length ts] ! i = rowids ! i"
      using i r(2) by simp
  qed (use r(2) in simp)
  have read: "blob_read S db Chunks_rowids chunk 0 (8 * length ts) = Inr bs" using read_ok [OF r(1), of 0 "length bs"] l by simp
  note start = small_chunk_id [OF assms(2,3)] open_ok [OF r(1)] bytes_ok [OF r(1)] l malloc_ok read ids
  show "vec0_metadata_filter_text S db target buffer (length ts) op b column chunk in_texts k =
    filter_rows (case op of
        OP_EQ \<Rightarrow> text_equality_row S db column rowids buffer target False
      | OP_NE \<Rightarrow> text_equality_row S db column rowids buffer target True
      | OP_GT \<Rightarrow> text_range_row S db column rowids buffer target (>)
      | OP_GE \<Rightarrow> text_range_row S db column rowids buffer target (\<ge>)
      | OP_LE \<Rightarrow> text_range_row S db column rowids buffer target (\<le>)
      | OP_LT \<Rightarrow> text_range_row S db column rowids buffer target (<)) [0..<length ts] b"
    using assms(4) by (cases op) (simp_all add: vec0_metadata_filter_text_def start)
  show "vec0_metadata_filter_text S db target buffer (length ts) OP_IN b column chunk in_texts k =
    filter_rows (\<lambda>i. do { (nPrefix, sPrefix) \<leftarrow> row_view buffer i; text_in_row S db column rowids nPrefix sPrefix targets i })
      [0..<length ts] b" if "in_texts k = Some targets"
    using that by (simp add: vec0_metadata_filter_text_def start)
qed

lemma set_filter_text:
  assumes "text_chunk (view db) column chunk rowids ts"
  shows "vec0_set_metadata_filter_bitmap S F db KIND_TEXT column op value chunk b (length ts) in_texts in_ints k =
    vec0_metadata_filter_text S db (value_text value) (concat (map text_view ts)) (length ts) op b column chunk in_texts k"
proof -
  have s: "st_blobs (view db) (Metadata_data column) chunk = Some (concat (map text_view ts))"
    using assms by (simp add: text_chunk_def)
  have "length (concat (map text_view ts)) = 16 * length ts" using length_cells [of ts text_view 16] by simp
  then show ?thesis using open_ok [OF s] bytes_ok [OF s] malloc_ok read_ok [OF s, of 0 "16 * length ts"]
    by (simp add: vec0_set_metadata_filter_bitmap_def vec0_metadata_chunk_size_def mult.commute)
qed

end

lemma text_filter_rows:
  assumes "sqlite_store S view" and "text_chunk (view db) column chunk rowids ts"
    and "- (2 ^ 31) \<le> chunk" and "chunk < 2 ^ 31"
    and "length ts mod 8 = 0" and "length b = length ts div 8" and "members b = {}"
    and "op \<in> {OP_EQ, OP_NE, OP_IN} \<or> (\<forall>t \<in> set ts. length t < 12)" and "op = OP_IN \<Longrightarrow> in_texts k = Some targets"
  shows "\<exists>b'. vec0_set_metadata_filter_bitmap S F db KIND_TEXT column op value chunk b (length ts) in_texts in_ints k = Some (Inr b') \<and>
    length b' = length b \<and> members b' = {i. i < length ts \<and> text_holds op targets (value_text value) (ts ! i)}"
proof -
  note ready = sqlite_store.text_chunk_ready [OF assms(1,2)]
  note run = sqlite_store.set_filter_text [OF assms(1,2)] and start = sqlite_store.filter_text_start [OF assms(1-4)]
  define target where "target = value_text value"
  define buffer where "buffer = concat (map text_view ts)"
  have eq: "text_equality_row S db column rowids buffer target ne i = Some (Inr (Some ((ts ! i = target) \<noteq> ne)))"
    if "i < length ts" for ne i
    unfolding buffer_def by (rule sqlite_store.text_equality_row_ok [OF assms(1) ready that])
  have range: "text_range_row S db column rowids buffer target rel i = Some (Inr (Some (rel (lex_cmp (ts ! i) target) 0)))"
    if "i < length ts" "sign_relation rel" "op \<notin> {OP_EQ, OP_NE, OP_IN}" for rel i
    unfolding buffer_def using assms(8) that by (intro sqlite_store.text_range_row_short [OF assms(1) ready]) auto
  have isin: "do { (nPrefix, sPrefix) \<leftarrow> row_view buffer i; text_in_row S db column rowids nPrefix sPrefix targets i } =
      Some (Inr (if ts ! i \<in> set targets then Some True else None))" if "i < length ts" for i
  proof -
    have "length (ts ! i) < 2 ^ 31" using assms(2) that by (simp add: text_chunk_def)
    then show ?thesis unfolding buffer_def using row_view_text [OF that] sqlite_store.text_in_row_ok [OF assms(1) ready that]
      by simp
  qed
  show ?thesis
  proof (cases "op = OP_IN")
    case True
    then have "in_texts k = Some targets" by (rule assms(9))
    define row where "row = (\<lambda>i. do { (nPrefix, sPrefix) \<leftarrow> row_view buffer i;
      text_in_row S db column rowids nPrefix sPrefix targets i })"
    have r: "row i = Some (Inr (if ts ! i \<in> set targets then Some True else None))" if "i < length ts" for i
      using isin [OF that] by (simp add: row_def)
    obtain b' where b': "filter_rows row [0..<length ts] b = Some (Inr b')"
      "length b' = length b" "members b' = {i. i < length ts \<and> (if ts ! i \<in> set targets then Some True else None) = Some True}"
      using filter_rows_all [of "length ts" row _ b, OF r assms(6,5,7)] assms(6) by auto
    then have "members b' = {i. i < length ts \<and> ts ! i \<in> set targets}" by auto
    moreover have "vec0_metadata_filter_text S db target buffer (length ts) OP_IN b column chunk in_texts k =
        filter_rows row [0..<length ts] b"
      unfolding row_def by (rule start(2) [of OP_EQ]) (simp, rule \<open>in_texts k = Some targets\<close>)
    ultimately show ?thesis unfolding run True buffer_def [symmetric] target_def [symmetric]
      using b'(1,2) by (simp add: text_holds_def)
  next
    case False
    define row where "row = (case op of
        OP_EQ \<Rightarrow> text_equality_row S db column rowids buffer target False
      | OP_NE \<Rightarrow> text_equality_row S db column rowids buffer target True
      | OP_GT \<Rightarrow> text_range_row S db column rowids buffer target (>)
      | OP_GE \<Rightarrow> text_range_row S db column rowids buffer target (\<ge>)
      | OP_LE \<Rightarrow> text_range_row S db column rowids buffer target (\<le>)
      | OP_LT \<Rightarrow> text_range_row S db column rowids buffer target (<))"
    have "row i = Some (Inr (Some (text_holds op targets target (ts ! i))))" if "i < length ts" for i
      using False eq [OF that] range [OF that]
      by (cases op) (simp_all add: row_def text_holds_def sign_relation_def)
    from filter_rows_all [of "length ts" row _ b, OF this assms(6,5,7)] show ?thesis
      unfolding run start(1) [OF False] buffer_def [symmetric] target_def [symmetric] row_def [symmetric] using assms(6) by auto
  qed
qed

text \<open>
  C34: a constraint on a text column selects exactly the rows of the chunk whose text satisfies it: equality, its
  negation and membership for texts of any length, the order constraints only for chunks whose texts are all shorter than the
  12 bytes of a view. The id of the chunk fits an \<^verbatim>\<open>int\<close>.
\<close>

theorem text_filter_selects_matching_rows:
  assumes "sqlite_store S view" and "text_chunk (view db) column chunk rowids ts"
    and "- (2 ^ 31) \<le> chunk" and "chunk < 2 ^ 31"
    and "length ts mod 8 = 0" and "length b = length ts div 8" and "members b = {}"
    and "op \<in> {OP_EQ, OP_NE, OP_IN} \<or> (\<forall>t \<in> set ts. length t < 12)" and "op = OP_IN \<Longrightarrow> in_texts k = Some targets"
  shows "\<exists>b'. vec0_set_metadata_filter_bitmap S F db KIND_TEXT column op value chunk b (length ts) in_texts in_ints k = Some (Inr b') \<and>
    members b' = {i. i < length ts \<and> text_holds op targets (value_text value) (ts ! i)}"
  using text_filter_rows [of S view db column chunk rowids ts b op in_texts k targets F "value" in_ints, OF assms] by blast

definition int_doubles :: "int double_api" where
  "int_doubles = \<lparr>double_of_bytes = i64_of_bytes, double_bytes = i64_bytes, double_zero = 0\<rparr>"

text \<open>A store that keeps given texts.\<close>

definition text_store :: "nat \<Rightarrow> int \<Rightarrow> int list \<Rightarrow> byte list list \<Rightarrow> store" where
  "text_store column chunk rowids ts = \<lparr>
     st_blobs = (\<lambda>c r. if r \<noteq> chunk then None else if c = Metadata_data column then Some (concat (map text_view ts))
       else if c = Chunks_rowids then Some (concat (map i64_bytes rowids)) else None),
     st_texts = (\<lambda>col. if col = column then map_of (filter (\<lambda>(r, t). length t > 12) (zip rowids ts)) else (\<lambda>_. None))\<rparr>"

lemma map_of_filtered_rows:
  "distinct rs \<Longrightarrow> length rs = length ts \<Longrightarrow> i < length ts \<Longrightarrow>
     map_of (filter (\<lambda>(r, t). P t) (zip rs ts)) (rs ! i) = (if P (ts ! i) then Some (ts ! i) else None)"
proof (induction rs ts arbitrary: i rule: list_induct2')
  case (4 r rs t ts)
  have out: "map_of (filter (\<lambda>(r, t). P t) (zip rs ts)) r = None"
    using 4(2) by (auto simp: map_of_eq_None_iff dest: set_zip_leftD)
  show ?case
  proof (cases i)
    case 0
    then show ?thesis using out by simp
  next
    case (Suc n)
    then have "rs ! n \<noteq> r" using 4(2-4) by (metis Suc_less_eq distinct.simps(2) length_Cons nth_mem old.nat.inject)
    then show ?thesis using 4 Suc by simp
  qed
qed simp_all

lemma text_store:
  assumes "length rowids = length ts" and "distinct rowids" and "\<forall>r \<in> set rowids. - (2 ^ 63) \<le> r \<and> r < 2 ^ 63"
    and "\<forall>t \<in> set ts. length t < 2 ^ 31 \<and> 0 \<notin> set t"
  shows "text_chunk (text_store column chunk rowids ts) column chunk rowids ts"
  using assms map_of_filtered_rows [OF assms(2,1), of _ "\<lambda>t. 12 < length t"]
  by (simp add: text_chunk_def text_store_def)

text \<open>Eight rows whose texts have the given lengths; the text of a row is one letter, repeated.\<close>

definition letters :: "nat list \<Rightarrow> byte list list" where
  "letters ns = map (\<lambda>(i, n). replicate n (of_nat (97 + i))) (zip [0..<length ns] ns)"

lemma length_letters [simp]: "length (letters ns) = length ns"
  by (simp add: letters_def)

lemma nth_letters [simp]: "i < length ns \<Longrightarrow> letters ns ! i = replicate (ns ! i) (of_nat (97 + i))"
  by (simp add: letters_def)

lemma letter_nonzero: "i < 8 \<Longrightarrow> (of_nat (97 + i) :: byte) \<noteq> 0"
  unfolding word_of_nat_eq_0_iff by (auto dest: dvd_imp_le)

lemma letters_chunk:
  assumes "length ns = 8" and "\<forall>n \<in> set ns. n < 2 ^ 31"
  shows "text_chunk (text_store 0 1 [1, 2, 3, 4, 5, 6, 7, 8] (letters ns)) 0 1 [1, 2, 3, 4, 5, 6, 7, 8] (letters ns)"
proof (rule text_store)
  show "\<forall>t \<in> set (letters ns). length t < 2 ^ 31 \<and> 0 \<notin> set t"
    using assms letter_nonzero by (fastforce simp: in_set_conv_nth)
qed (use assms(1) in simp_all)

definition eight_lengths :: "nat list" where "eight_lengths = [3, 0, 12, 5, 13, 40, 1, 2]"

lemma eight_lengths: "length eight_lengths = 8" "\<forall>n \<in> set eight_lengths. n < 2 ^ 31"
  by (simp_all add: eight_lengths_def)

definition text_value :: "'f \<Rightarrow> byte list \<Rightarrow> 'f sqlite_value" where
  "text_value x s = \<lparr>value_type = SQLITE_TEXT, value_int = 0, value_int64 = 0, value_double = x, value_text = s\<rparr>"

theorem text_filter_selects_matching_rows_witness:
  "\<exists>b'. vec0_set_metadata_filter_bitmap store_api int_doubles (text_store 0 1 [1, 2, 3, 4, 5, 6, 7, 8] (letters eight_lengths)) KIND_TEXT 0 OP_EQ
       (text_value (0 :: int) (letters eight_lengths ! 5)) 1 [0] (length (letters eight_lengths)) (\<lambda>_. None) (\<lambda>_. None) 0 =
       Some (Inr b') \<and>
     members b' = {i. i < length (letters eight_lengths) \<and>
       text_holds OP_EQ [] (value_text (text_value (0 :: int) (letters eight_lengths ! 5))) (letters eight_lengths ! i)}"
proof (rule text_filter_selects_matching_rows [OF map_store.sqlite_store_axioms letters_chunk [OF eight_lengths]])
  show "members [0] = {}" by (auto simp: in_members)
qed (simp_all add: eight_lengths)

subsection \<open>Constraints of every kind\<close>

text \<open>The values a metadata column holds for the rows of a chunk, in the order of their places.\<close>

datatype 'g metadata_cells = Booleans "bool list" | Integers "int list" | Doubles "'g list" | Texts "byte list list"

fun cells_kind :: "'g metadata_cells \<Rightarrow> metadata_kind" where
  "cells_kind (Booleans _) = KIND_BOOLEAN"
| "cells_kind (Integers _) = KIND_INTEGER"
| "cells_kind (Doubles _) = KIND_FLOAT"
| "cells_kind (Texts _) = KIND_TEXT"

fun cells_length :: "'g metadata_cells \<Rightarrow> nat" where
  "cells_length (Booleans vs) = length vs"
| "cells_length (Integers vs) = length vs"
| "cells_length (Doubles vs) = length vs"
| "cells_length (Texts vs) = length vs"

fun cells_stored :: "'g double_api \<Rightarrow> store \<Rightarrow> nat \<Rightarrow> int \<Rightarrow> 'g metadata_cells \<Rightarrow> bool" where
  "cells_stored D st column chunk (Booleans vs) \<longleftrightarrow>
     (\<exists>bm. st_blobs st (Metadata_data column) chunk = Some bm \<and> 8 * length bm = length vs \<and>
        (\<forall>i < length vs. vs ! i \<longleftrightarrow> i \<in> members bm))"
| "cells_stored D st column chunk (Integers vs) \<longleftrightarrow>
     st_blobs st (Metadata_data column) chunk = Some (concat (map i64_bytes vs)) \<and> (\<forall>v \<in> set vs. - (2 ^ 63) \<le> v \<and> v < 2 ^ 63)"
| "cells_stored D st column chunk (Doubles vs) \<longleftrightarrow>
     st_blobs st (Metadata_data column) chunk = Some (concat (map (double_bytes D) vs)) \<and>
     (\<forall>v \<in> set vs. length (double_bytes D v) = 8 \<and> double_of_bytes D (double_bytes D v) = v)"
| "cells_stored D st column chunk (Texts vs) \<longleftrightarrow> (\<exists>rowids. text_chunk st column chunk rowids vs)"

text \<open>A comparison of numbers. A chunk never holds a NaN: SQLite has none, it makes it null.\<close>

fun compares :: "metadata_operator \<Rightarrow> 'a :: linorder \<Rightarrow> 'a \<Rightarrow> bool" where
  "compares OP_EQ x y = (x = y)"
| "compares OP_NE x y = (x \<noteq> y)"
| "compares OP_GT x y = (x > y)"
| "compares OP_GE x y = (x \<ge> y)"
| "compares OP_LE x y = (x \<le> y)"
| "compares OP_LT x y = (x < y)"
| "compares OP_IN x y = False"

text \<open>What a constraint says of row \<open>j\<close>; \<open>texts\<close> or \<open>ints\<close> is the list of an \<^verbatim>\<open>in (...)\<close>.\<close>

fun cell_holds ::
  "metadata_operator \<Rightarrow> byte list list option \<Rightarrow> int list option \<Rightarrow> ('g :: linorder) sqlite_value \<Rightarrow> 'g metadata_cells \<Rightarrow> nat \<Rightarrow> bool" where
  "cell_holds op texts ints value (Booleans vs) j = compares op (vs ! j) (value_int value \<noteq> 0)"
| "cell_holds op texts ints value (Integers vs) j =
     (if op = OP_IN then vs ! j \<in> set (the ints) else compares op (vs ! j) (value_int64 value))"
| "cell_holds op texts ints value (Doubles vs) j = compares op (vs ! j) (value_double value)"
| "cell_holds op texts ints value (Texts vs) j = text_holds op (the texts) (value_text value) (vs ! j)"

text \<open>
  The operators a kind supports, as \<^verbatim>\<open>vec0BestIndex\<close> lets them through, with the list of an \<^verbatim>\<open>in (...)\<close>; on texts, order
  constraints are limited to chunks whose texts are shorter than a view, and the chunk's id has to be an \<^verbatim>\<open>int\<close>.
\<close>

fun supported ::
  "metadata_operator \<Rightarrow> byte list list option \<Rightarrow> int list option \<Rightarrow> int \<Rightarrow> 'g metadata_cells \<Rightarrow> bool" where
  "supported op texts ints chunk (Booleans vs) \<longleftrightarrow> op = OP_EQ \<or> op = OP_NE"
| "supported op texts ints chunk (Integers vs) \<longleftrightarrow> (op = OP_IN \<longrightarrow> ints \<noteq> None)"
| "supported op texts ints chunk (Doubles vs) \<longleftrightarrow> op \<noteq> OP_IN"
| "supported op texts ints chunk (Texts vs) \<longleftrightarrow> (op = OP_IN \<longrightarrow> texts \<noteq> None) \<and> - (2 ^ 31) \<le> chunk \<and> chunk < 2 ^ 31 \<and>
     (op \<in> {OP_EQ, OP_NE, OP_IN} \<or> (\<forall>t \<in> set vs. length t < 12))"

lemma integer_relation_compares: "op \<noteq> OP_IN \<Longrightarrow> integer_relation op = Some (compares op)"
  by (cases op) (auto simp: integer_relation_def fun_eq_iff)

lemma cell8_cells:
  assumes "\<forall>x \<in> set xs. length (f x) = 8" and "i < length xs"
  shows "cell8 (concat (map f xs)) i = Some (f (xs ! i))"
  unfolding cell8_def using bytes_at_cell [OF assms] by (simp add: mult.commute)

context sqlite_store
begin

text \<open>The steps before the loops of the other kinds.\<close>

lemma set_filter_start:
  assumes "st_blobs (view db) (Metadata_data column) chunk = Some bs" and "length bs = vec0_metadata_chunk_size kind n"
  shows "blob_open S db (Metadata_data column) chunk = SQLITE_OK" "blob_bytes S db (Metadata_data column) chunk = vec0_metadata_chunk_size kind n"
    "blob_read S db (Metadata_data column) chunk 0 (vec0_metadata_chunk_size kind n) = Inr bs"
  using open_ok [OF assms(1)] bytes_ok [OF assms(1)] read_ok [OF assms(1), of 0 "length bs"] assms(2) by simp_all

lemma boolean_filter_rows:
  assumes "cells_stored D (view db) column chunk (Booleans vs)" and "op = OP_EQ \<or> op = OP_NE"
    and "length b = length vs div 8" and "members b = {}"
  shows "\<exists>b'. vec0_set_metadata_filter_bitmap S D db KIND_BOOLEAN column op value chunk b (length vs) in_texts in_ints k = Some (Inr b') \<and>
    length b' = length b \<and> members b' = {j. j < length vs \<and> cell_holds op (in_texts k) (in_ints k) value (Booleans vs) j}"
proof -
  obtain bm where bm: "st_blobs (view db) (Metadata_data column) chunk = Some bm" "8 * length bm = length vs"
    "\<forall>i < length vs. vs ! i \<longleftrightarrow> i \<in> members bm" using assms(1) by auto
  have "length bm = vec0_metadata_chunk_size KIND_BOOLEAN (length vs)" using bm(2) by (simp add: vec0_metadata_chunk_size_def)
  note start = set_filter_start [OF bm(1) this]
  define same where "same \<longleftrightarrow> value_int value \<noteq> 0 \<and> op = OP_EQ \<or> value_int value = 0 \<and> op = OP_NE"
  have row: "map_option (\<lambda>v. Inr (Some (v = same))) (bitmap_get bm i) = Some (Inr (Some (cell_holds op (in_texts k) (in_ints k) value (Booleans vs) i)))"
    if "i < length vs" for i
    using that bm(2,3) assms(2) by (auto simp: bitmap_get_members same_def)
  have "length vs mod 8 = 0" using bm(2) by presburger
  from filter_rows_all [of "length vs" "\<lambda>i. map_option (\<lambda>v. Inr (Some (v = same))) (bitmap_get bm i)" _ b, OF row assms(3) this assms(4)]
  show ?thesis using start malloc_ok assms(3)
    by (simp add: vec0_set_metadata_filter_bitmap_def same_def Let_def)
qed

lemma integer_filter_rows:
  assumes "cells_stored D (view db) column chunk (Integers vs)" and "op = OP_IN \<Longrightarrow> in_ints k = Some ints"
    and "length vs mod 8 = 0" and "length b = length vs div 8" and "members b = {}"
  shows "\<exists>b'. vec0_set_metadata_filter_bitmap S D db KIND_INTEGER column op value chunk b (length vs) in_texts in_ints k = Some (Inr b') \<and>
    length b' = length b \<and> members b' = {j. j < length vs \<and> cell_holds op (in_texts k) (in_ints k) value (Integers vs) j}"
proof -
  define bs where "bs = concat (map i64_bytes vs)"
  have bs: "st_blobs (view db) (Metadata_data column) chunk = Some bs" using assms(1) by (simp add: bs_def)
  have "length bs = vec0_metadata_chunk_size KIND_INTEGER (length vs)"
    using length_cells [of vs i64_bytes 8] by (simp add: vec0_metadata_chunk_size_def bs_def mult.commute)
  note start = set_filter_start [OF bs this]
  have cell: "cell8 bs i = Some (i64_bytes (vs ! i))" "i64_of_bytes (i64_bytes (vs ! i)) = vs ! i" if "i < length vs" for i
    using that assms(1) by (simp_all add: bs_def cell8_cells)
  show ?thesis
  proof (cases "op = OP_IN")
    case True
    have row: "map_option (\<lambda>v. Inr (if i64_of_bytes v \<in> set ints then Some True else None)) (cell8 bs i) =
        Some (Inr (if vs ! i \<in> set ints then Some True else None))" if "i < length vs" for i
      using cell [OF that] by simp
    from filter_rows_all [of "length vs" "\<lambda>i. map_option (\<lambda>v. Inr (if i64_of_bytes v \<in> set ints then Some True else None)) (cell8 bs i)" _ b,
        OF row assms(4,3,5)]
    show ?thesis using start malloc_ok assms(2,4) True
      by (simp add: vec0_set_metadata_filter_bitmap_def integer_relation_def Let_def) (auto simp: if_distrib [of "\<lambda>x. x = Some True"] cong: if_cong)
  next
    case False
    have row: "map_option (\<lambda>v. Inr (Some (compares op (i64_of_bytes v) (value_int64 value)))) (cell8 bs i) =
        Some (Inr (Some (compares op (vs ! i) (value_int64 value))))" if "i < length vs" for i
      using cell [OF that] by simp
    from filter_rows_all [of "length vs" "\<lambda>i. map_option (\<lambda>v. Inr (Some (compares op (i64_of_bytes v) (value_int64 value)))) (cell8 bs i)" _ b,
        OF row assms(4,3,5)]
    show ?thesis using start malloc_ok assms(4) False
      by (simp add: vec0_set_metadata_filter_bitmap_def integer_relation_compares Let_def)
  qed
qed

lemma double_filter_rows:
  fixes D :: "('g :: linorder) double_api"
  assumes "cells_stored D (view db) column chunk (Doubles vs)" and "op \<noteq> OP_IN"
    and "length vs mod 8 = 0" and "length b = length vs div 8" and "members b = {}"
  shows "\<exists>b'. vec0_set_metadata_filter_bitmap S D db KIND_FLOAT column op value chunk b (length vs) in_texts in_ints k = Some (Inr b') \<and>
    length b' = length b \<and> members b' = {j. j < length vs \<and> cell_holds op (in_texts k) (in_ints k) value (Doubles vs) j}"
proof -
  define bs where "bs = concat (map (double_bytes D) vs)"
  have bs: "st_blobs (view db) (Metadata_data column) chunk = Some bs" using assms(1) by (simp add: bs_def)
  have "length bs = vec0_metadata_chunk_size KIND_FLOAT (length vs)"
    using length_cells [of vs "double_bytes D" 8] assms(1) by (simp add: vec0_metadata_chunk_size_def bs_def mult.commute)
  note start = set_filter_start [OF bs this]
  have row: "map_option (\<lambda>v. Inr (Some (compares op (double_of_bytes D v) (value_double value)))) (cell8 bs i) =
      Some (Inr (Some (compares op (vs ! i) (value_double value))))" if "i < length vs" for i
    using that assms(1) by (simp add: bs_def cell8_cells)
  from filter_rows_all [of "length vs" "\<lambda>i. map_option (\<lambda>v. Inr (Some (compares op (double_of_bytes D v) (value_double value)))) (cell8 bs i)" _ b,
      OF row assms(4,3,5)]
  show ?thesis using start malloc_ok assms(2,4)
    by (simp add: vec0_set_metadata_filter_bitmap_def integer_relation_compares Let_def)
qed

end

text \<open>A constraint on a column of any kind selects the rows of a chunk whose values satisfy it.\<close>

lemma metadata_filter_rows:
  fixes D :: "('g :: linorder) double_api"
  assumes "sqlite_store S view" and "cells_stored D (view db) column chunk cells" and "supported op (in_texts k) (in_ints k) chunk cells"
    and "n = cells_length cells" and "n mod 8 = 0" and "length b = n div 8" and "members b = {}"
  shows "\<exists>b'. vec0_set_metadata_filter_bitmap S D db (cells_kind cells) column op value chunk b n in_texts in_ints k = Some (Inr b') \<and>
    length b' = length b \<and> members b' = {j. j < n \<and> cell_holds op (in_texts k) (in_ints k) value cells j}"
proof (cases cells)
  case (Booleans vs)
  then show ?thesis
    using sqlite_store.boolean_filter_rows [OF assms(1), of D db column chunk vs op b "value" in_texts in_ints k] assms by simp
next
  case (Integers vs)
  then show ?thesis
    using sqlite_store.integer_filter_rows [OF assms(1), of D db column chunk vs op in_ints k "the (in_ints k)" b "value" in_texts] assms by simp
next
  case (Doubles vs)
  then show ?thesis
    using sqlite_store.double_filter_rows [OF assms(1), of D db column chunk vs op b "value" in_texts in_ints k] assms by simp
next
  case (Texts vs)
  then obtain rowids where "text_chunk (view db) column chunk rowids vs" using assms(2) by auto
  then show ?thesis
    using text_filter_rows [of S view db column chunk rowids vs b op in_texts k "the (in_texts k)" D "value" in_ints] assms Texts by simp
qed

lemma cells_opened:
  assumes "sqlite_store S view" and "cells_stored D (view db) column chunk cells"
  shows "blob_open S db (Metadata_data column) chunk = SQLITE_OK"
  using assms(2) sqlite_store.open_ok [OF assms(1), of db "Metadata_data column" chunk] by (cases cells) (auto simp: text_chunk_def)

subsection \<open>Where the order constraints go wrong\<close>

text \<open>
  An order constraint fails on a text of exactly 12 bytes: it fits in the view and is not kept whole, but the
  comparison looks for it in the table of long texts, finds no row and gives SQLITE_ERROR for the whole query.
\<close>

lemma text_range_filter_fails_at_twelve_bytes:
  assumes "sqlite_store S view" and "text_chunk (view db) column chunk rowids ts"
    and "- (2 ^ 31) \<le> chunk" and "chunk < 2 ^ 31"
    and "length ts mod 8 = 0" and "length b = length ts div 8"
    and "op \<in> {OP_GT, OP_GE, OP_LE, OP_LT}"
    and "m < length ts" and "length (ts ! m) = 12" and "\<forall>i < m. length (ts ! i) < 12"
    and "st_texts (view db) column (rowids ! m) = None"
  shows "vec0_set_metadata_filter_bitmap S F db KIND_TEXT column op value chunk b (length ts) in_texts in_ints k =
    Some (Inl SQLITE_ERROR)"
proof -
  note ready = sqlite_store.text_chunk_ready [OF assms(1,2)]
  note run = sqlite_store.set_filter_text [OF assms(1,2)] and start = sqlite_store.filter_text_start(1) [OF assms(1-4)]
  define target where "target = value_text value"
  define buffer where "buffer = concat (map text_view ts)"
  have t: "length (ts ! m) < 2 ^ 31" "0 \<notin> set (ts ! m)" "length rowids = length ts"
    using assms(2,8) by (auto simp: text_chunk_def)
  have row: "row_view buffer m = Some (12, ts ! m)"
    using row_view_text [OF assms(8) t(1)] assms(9) by (simp add: buffer_def)
  have "size_t (min (min 12 12) (int (length target))) = min 12 (length target)" by (simp add: size_t_def min_def)
  then have "strncmp (ts ! m) (target @ [0]) (size_t (min (min 12 12) (int (length target)))) =
      Some (lex_cmp (take (min 12 (length target)) (ts ! m)) (take (min 12 (length target)) target))"
    using strncmp_view [of "min 12 (length target)" "ts ! m" target] t(2) assms(9) by simp
  moreover have "compare_long S db column rowids m n target decide = Some (Inl SQLITE_ERROR)" for n decide
    using assms(8,11) t(3) sqlite_store.prepare_ok [OF assms(1)] sqlite_store.select_ok [OF assms(1)]
    by (simp add: compare_long_def vec0_get_metadata_text_long_value_def)
  ultimately have bad: "text_range_row S db column rowids buffer target rel m = Some (Inl SQLITE_ERROR)" for rel
    unfolding text_range_row_def row by simp
  have good: "\<exists>v. text_range_row S db column rowids buffer target rel i = Some (Inr v)"
    if "sign_relation rel" "i < m" for rel i
    using sqlite_store.text_range_row_short [OF assms(1) ready, of i rel target] that assms(8,10) by (simp add: buffer_def)
  have loop: "filter_rows (text_range_row S db column rowids buffer target rel) [0..<length ts] b = Some (Inl SQLITE_ERROR)"
    if "sign_relation rel" for rel
    by (rule filter_rows_error [of 0 m]) (use good [OF that] bad assms(5,6,8) in auto)
  have "op \<noteq> OP_IN" using assms(7) by auto
  then show ?thesis unfolding run start [OF \<open>op \<noteq> OP_IN\<close>] buffer_def [symmetric] target_def [symmetric]
    using assms(7) by (elim insertE emptyE; simp add: loop sign_relation_def del: One_nat_def)
qed

lemma text_range_filter_fails_at_twelve_bytes_witness:
  "vec0_set_metadata_filter_bitmap store_api int_doubles (text_store 0 1 [1, 2, 3, 4, 5, 6, 7, 8] (letters eight_lengths)) KIND_TEXT 0 OP_GT
     (text_value (0 :: int) [97]) 1 [0] (length (letters eight_lengths)) (\<lambda>_. None) (\<lambda>_. None) 0 = Some (Inl SQLITE_ERROR)"
proof (rule text_range_filter_fails_at_twelve_bytes [OF map_store.sqlite_store_axioms letters_chunk [OF eight_lengths], of _ _ 2])
  show "\<forall>i < 2. length (letters eight_lengths ! i) < 12"
    by (auto simp: eight_lengths less_Suc_eq numeral_2_eq_2) (simp_all add: eight_lengths_def)
  have "length ([1, 2, 3, 4, 5, 6, 7, 8] :: int list) = length (letters eight_lengths)" by (simp add: eight_lengths)
  then show "st_texts (text_store 0 1 [1, 2, 3, 4, 5, 6, 7, 8] (letters eight_lengths)) 0 ([1, 2, 3, 4, 5, 6, 7, 8] ! 2) = None"
    using map_of_filtered_rows [of "[1, 2, 3, 4, 5, 6, 7, 8 :: int]" "letters eight_lengths" 2 "\<lambda>t. 12 < length t"]
    by (simp add: text_store_def eight_lengths) (simp add: eight_lengths_def)
qed (simp_all add: eight_lengths eight_lengths_def)

text \<open>
  A long text that is a proper prefix of the target is smaller than it, but the comparison stops at the end of
  the text and takes the two for equal: \<^verbatim>\<open>>=\<close> selects the row and \<^verbatim>\<open><\<close> does not.
\<close>

lemma text_range_filter_takes_prefix_for_equal:
  assumes "sqlite_store S view" and "text_chunk (view db) column chunk rowids ts"
    and "i < length ts" and "12 < length (ts ! i)" and "target = ts ! i @ u" and "u \<noteq> []"
  shows "lex_cmp (ts ! i) target < 0 \<and>
    text_range_row S db column rowids (concat (map text_view ts)) target (\<ge>) i = Some (Inr (Some True)) \<and>
    text_range_row S db column rowids (concat (map text_view ts)) target (<) i = Some (Inr (Some False))"
proof -
  define t where "t = ts ! i"
  note ready = sqlite_store.text_chunk_ready [OF assms(1,2)]
  have t: "length t < 2 ^ 31" "0 \<notin> set t" "12 < length t" using assms(2-4) by (auto simp: text_chunk_def t_def)
  have less: "lex_cmp xs (xs @ u) < 0" for xs using assms(6) by (induction xs) (cases u; simp)+
  have row: "row_view (concat (map text_view ts)) i = Some (int (length t), take 12 t)"
    using row_view_text [OF assms(3)] t by (simp add: t_def)
  have sz: "size_t (min (min (int (length t)) 12) (int (length target))) = 12"
    using t(3) assms(5) by (simp add: size_t_def min_def t_def)
  have "strncmp (take 12 t) (target @ [0]) 12 = Some (lex_cmp (take 12 t) (take 12 target))"
    using strncmp_view [of 12 t target] t assms(5) by (simp add: t_def)
  moreover have "compare_long S db column rowids i (int (length t)) target decide = Some (Inr (Some (decide 0)))" for decide
    using sqlite_store.compare_long_text [OF assms(1) ready assms(3,4), of target decide] assms(5) lex_cmp_eq [of "ts ! i" "ts ! i"]
    by (simp add: t_def)
  ultimately show ?thesis using row sz t(3) less [of t]
    unfolding text_range_row_def assms(5) t_def [symmetric] by (simp add: assms(5) t_def)
qed

lemma text_range_filter_takes_prefix_for_equal_witness:
  "lex_cmp (letters eight_lengths ! 4) (letters eight_lengths ! 4 @ [33]) < 0 \<and>
   text_range_row store_api (text_store 0 1 [1, 2, 3, 4, 5, 6, 7, 8] (letters eight_lengths)) 0 [1, 2, 3, 4, 5, 6, 7, 8]
     (concat (map text_view (letters eight_lengths))) (letters eight_lengths ! 4 @ [33]) (\<ge>) 4 = Some (Inr (Some True)) \<and>
   text_range_row store_api (text_store 0 1 [1, 2, 3, 4, 5, 6, 7, 8] (letters eight_lengths)) 0 [1, 2, 3, 4, 5, 6, 7, 8]
     (concat (map text_view (letters eight_lengths))) (letters eight_lengths ! 4 @ [33]) (<) 4 = Some (Inr (Some False))"
proof (rule text_range_filter_takes_prefix_for_equal [OF map_store.sqlite_store_axioms letters_chunk [OF eight_lengths]])
  show "12 < length (letters eight_lengths ! 4)" by (simp add: eight_lengths) (simp add: eight_lengths_def)
  show "[33] \<noteq> ([] :: byte list)" by simp
qed (simp_all add: eight_lengths)

subsection \<open>Writing a text\<close>

lemma overwrite_cell:
  assumes "\<forall>x \<in> set xs. length (f x) = k" and "i < length xs" and "length (f y) = k"
  shows "overwrite (concat (map f xs)) (i * k) (f y) = concat (map f (xs[i := y]))"
proof -
  have xs: "xs = take i xs @ xs ! i # drop (Suc i) xs" using assms(2) by (rule id_take_nth_drop)
  have l: "length (concat (map f (take i xs))) = i * k"
    using length_cells [of "take i xs" f k] assms(1,2) by (auto dest: in_set_takeD simp: mult.commute)
  have "length (f (xs ! i)) = k" using assms(1,2) by simp
  then have "overwrite (concat (map f (take i xs)) @ f (xs ! i) @ concat (map f (drop (Suc i) xs))) (i * k) (f y) =
      concat (map f (take i xs)) @ f y @ concat (map f (drop (Suc i) xs))"
    using l assms(3) by (simp add: overwrite_def)
  moreover have "concat (map f xs) = concat (map f (take i xs)) @ f (xs ! i) @ concat (map f (drop (Suc i) xs))"
    by (subst xs) simp
  moreover have "xs[i := y] = take i xs @ y # drop (Suc i) xs" using assms(2) by (rule upd_conv_take_nth_drop)
  ultimately show ?thesis by simp
qed

text \<open>The table of long texts after a write: it has the text of the row when that is long, and nothing else changes.\<close>

definition long_text :: "byte list \<Rightarrow> byte list option" where
  "long_text s = (if length s > TEXT_VIEW_DATA_LENGTH then Some s else None)"

context sqlite_store
begin

lemma write_long_text_ok:
  assumes "st_texts (view db) column rowid = long_text old" and "isupdate \<or> length old \<le> 12"
  shows "\<exists>db'. write_long_text S db column rowid s (int (length old)) isupdate = (SQLITE_OK, db') \<and>
    st_blobs (view db') = st_blobs (view db) \<and>
    st_texts (view db') = (st_texts (view db))(column := (st_texts (view db) column)(rowid := long_text s))"
proof -
  have same: "(st_texts (view db))(column := (st_texts (view db) column)(rowid := st_texts (view db) column rowid)) = st_texts (view db)"
    by simp
  show ?thesis
    using assms insert_ok [of db column rowid s] update_ok [of db column rowid s] delete_ok [of db column rowid] same
    by (cases "12 < length s"; cases "12 < length old")
      (auto simp: write_long_text_def long_text_def prepare_ok Let_def split: prod.split)
qed

lemma result_text:
  assumes "text_chunk (view db) column chunk rowids ts" and "i < length ts"
  shows "result_metadata_value S F db KIND_TEXT column (rowids ! i) chunk i = Some (Inr (Result_text (ts ! i)))"
proof -
  define t where "t = ts ! i"
  have t: "st_blobs (view db) (Metadata_data column) chunk = Some (concat (map text_view ts))" "length t < 2 ^ 31"
    "12 < length t \<Longrightarrow> st_texts (view db) column (rowids ! i) = Some t"
    using assms by (auto simp: text_chunk_def t_def)
  have "bytes_at (concat (map text_view ts)) (i * 16) 16 = Some (text_view t)"
    unfolding t_def by (rule bytes_at_cell) (simp_all add: assms(2))
  then have "blob_read S db (Metadata_data column) chunk (i * 16) 16 = Inr (text_view t)"
    using read_ok [OF t(1), of "i * 16" 16] by (simp add: bytes_at_def split: if_splits)
  moreover have "bytes_at (text_view t) 0 4 = Some (int_bytes (int (length t)))" by (simp add: bytes_at_def text_view_def Let_def)
  moreover have "bytes_at (text_view t) 4 (length t) = Some t" if "length t \<le> 12"
    using that by (simp add: bytes_at_def text_view_def Let_def)
  ultimately show ?thesis using t(2,3) open_ok [OF t(1)] unfolding t_def [symmetric]
    by (cases "length t \<le> 12") (simp_all add: result_metadata_value_def prepare_ok select_ok size_t_def)
qed

end

text \<open>
  C35: a text written to a row, in place of one that was recorded correctly, is the text read back for that row, and
  the chunk then holds it there and every other row's text as before; the table of long texts has an entry for the
  row exactly when the text is longer than a view.
\<close>

theorem text_value_written_is_read_back:
  assumes "sqlite_store S view" and "text_chunk (view db) column chunk rowids ts" and "distinct rowids" and "i < length ts"
    and "value_type value = SQLITE_TEXT" and "length (value_text value) < 2 ^ 31" and "0 \<notin> set (value_text value)"
    and "st_texts (view db) column (rowids ! i) = long_text (ts ! i)" and "isupdate \<or> length (ts ! i) \<le> 12"
  shows "\<exists>db'. vec0_write_metadata_value S F db KIND_TEXT column (rowids ! i) chunk i value isupdate = Some (SQLITE_OK, db') \<and>
    text_chunk (view db') column chunk rowids (ts[i := value_text value]) \<and>
    st_texts (view db') column (rowids ! i) = long_text (value_text value) \<and>
    result_metadata_value S F db' KIND_TEXT column (rowids ! i) chunk i = Some (Inr (Result_text (value_text value)))"
proof -
  define s where "s = value_text value"
  have c: "st_blobs (view db) (Metadata_data column) chunk = Some (concat (map text_view ts))"
    "length rowids = length ts" "length (ts ! i) < 2 ^ 31"
    using assms(2,4) by (auto simp: text_chunk_def)
  have cell: "bytes_at (concat (map text_view ts)) (i * 16) 16 = Some (text_view (ts ! i))"
    by (rule bytes_at_cell) (simp_all add: assms(4))
  then have fits: "i * 16 + 16 \<le> length (concat (map text_view ts))" by (simp add: bytes_at_def split: if_splits)
  have whole: "take 16 (drop (i * 16) (concat (map text_view ts))) = text_view (ts ! i)"
    using cell fits by (simp add: bytes_at_def)
  have "take 4 bs = take 4 (take 16 bs)" for bs :: "byte list" by simp
  from this [of "drop (i * 16) (concat (map text_view ts))"]
  have "take 4 (drop (i * 16) (concat (map text_view ts))) = take 4 (text_view (ts ! i))" unfolding whole .
  then have read: "blob_read S db (Metadata_data column) chunk (i * 16) 4 = Inr (int_bytes (int (length (ts ! i))))"
    using sqlite_store.read_ok [OF assms(1) c(1), of "i * 16" 4] fits by (simp add: text_view_def Let_def)
  define db1 where "db1 = snd (blob_write S db (Metadata_data column) chunk (text_view s) (i * 16))"
  have db1: "view db1 = set_blob (view db) (Metadata_data column) chunk (concat (map text_view (ts[i := s])))"
  proof -
    have "overwrite (concat (map text_view ts)) (i * 16) (text_view s) = concat (map text_view (ts[i := s]))"
      by (rule overwrite_cell) (simp_all add: assms(4))
    moreover have "i * 16 + length (text_view s) \<le> length (concat (map text_view ts))" using fits by (simp only: length_text_view)
    ultimately show ?thesis
      using sqlite_store.write_ok [OF assms(1) c(1), of "i * 16" "text_view s"] unfolding db1_def by (simp only:)
  qed
  obtain db2 where db2: "write_long_text S db1 column (rowids ! i) s (int (length (ts ! i))) isupdate = (SQLITE_OK, db2)"
    "st_blobs (view db2) = st_blobs (view db1)"
    "st_texts (view db2) = (st_texts (view db1))(column := (st_texts (view db1) column)(rowids ! i := long_text s))"
    using sqlite_store.write_long_text_ok [OF assms(1), of db1 column "rowids ! i" "ts ! i" isupdate s] assms(8,9) db1 by auto
  have run: "vec0_write_metadata_value S F db KIND_TEXT column (rowids ! i) chunk i value isupdate = Some (SQLITE_OK, db2)"
    using assms(5) sqlite_store.open_ok [OF assms(1) c(1)] read db2(1) sqlite_store.close_ok [OF assms(1)] c(3)
    by (simp add: vec0_write_metadata_value_def value_fits_def write_metadata_cell_def db1_def s_def)
  have "text_chunk (view db2) column chunk rowids (ts[i := s])"
  proof -
    have "st_texts (view db2) column (rowids ! j) = Some (ts[i := s] ! j)" if "j < length ts" "12 < length (ts[i := s] ! j)" for j
      using that assms(2-4) db1 db2(3) c(2) by (cases "j = i") (auto simp: long_text_def text_chunk_def nth_eq_iff_index_eq)
    moreover have "length (ts[i := s] ! j) < 2 ^ 31 \<and> 0 \<notin> set (ts[i := s] ! j)" if "j < length ts" for j
      using that assms(2,4,6,7) by (cases "j = i") (auto simp: text_chunk_def s_def)
    ultimately show ?thesis using assms(2) db1 db2(2) by (simp add: text_chunk_def)
  qed
  moreover have "st_texts (view db2) column (rowids ! i) = long_text s" using db2(3) by simp
  ultimately show ?thesis
    using run sqlite_store.result_text [OF assms(1), of db2 column chunk rowids "ts[i := s]" i F] assms(4) by (auto simp: s_def)
qed

theorem text_value_written_is_read_back_witness:
  "\<exists>db'. vec0_write_metadata_value store_api int_doubles (text_store 0 1 [1, 2, 3, 4, 5, 6, 7, 8] (letters eight_lengths)) KIND_TEXT 0
       ([1, 2, 3, 4, 5, 6, 7, 8] ! 4) 1 4 (text_value (0 :: int) [114, 111, 99]) True = Some (SQLITE_OK, db') \<and>
     text_chunk db' 0 1 [1, 2, 3, 4, 5, 6, 7, 8] ((letters eight_lengths)[4 := [114, 111, 99]]) \<and>
     st_texts db' 0 ([1, 2, 3, 4, 5, 6, 7, 8] ! 4) = None \<and>
     result_metadata_value store_api int_doubles db' KIND_TEXT 0 ([1, 2, 3, 4, 5, 6, 7, 8] ! 4) 1 4 = Some (Inr (Result_text [114, 111, 99]))"
proof -
  have l: "length ([1, 2, 3, 4, 5, 6, 7, 8] :: int list) = length (letters eight_lengths)" by (simp add: eight_lengths)
  have st: "st_texts (text_store 0 1 [1, 2, 3, 4, 5, 6, 7, 8] (letters eight_lengths)) 0 ([1, 2, 3, 4, 5, 6, 7, 8] ! 4) =
      long_text (letters eight_lengths ! 4)"
    using map_of_filtered_rows [of "[1, 2, 3, 4, 5, 6, 7, 8 :: int]" "letters eight_lengths" 4 "\<lambda>t. 12 < length t"] l
    by (simp add: text_store_def eight_lengths long_text_def)
  have v: "value_text (text_value (0 :: int) [114, 111, 99]) = [114, 111, 99]" "value_type (text_value (0 :: int) [114, 111, 99]) = 3"
    "long_text [114, 111, 99] = None"
    by (simp_all add: text_value_def long_text_def)
  show ?thesis
    using text_value_written_is_read_back [OF map_store.sqlite_store_axioms letters_chunk [OF eight_lengths], of 4
        "text_value (0 :: int) [114, 111, 99]" True int_doubles] st
    unfolding v by (simp add: eight_lengths)
qed

end
