(* ===== verification/VecKnn.thy ===== *)
theory VecKnn
  imports VecSelect VecFilter VecDistance
begin

text \<open>
  The nearest-neighbour query of a \<^verbatim>\<open>vec0\<close> table, \<^verbatim>\<open>vec0Filter_knn_chunks_iter\<close> of
  \<^verbatim>\<open>crates/cli/vendor-sqlite-vec/sqlite-vec.c\<close>: for each chunk the valid rows, less those excluded by
  \<^verbatim>\<open>rowid in (...)\<close>, by metadata constraints and by distance constraints, are the candidates; the nearest of them
  are merged with the best of the chunks before. The plan is a string: the query kind, then four characters for every
  argument.
\<close>

record vec0_table =
  chunk_size :: nat
  column_idx :: nat
  element_type :: vector_element_type
  dimensions :: nat
  metric :: distance_metric
  metadata_kinds :: "metadata_kind list"

record chunk_row =
  chunk_id :: int
  chunk_validity :: "byte list"
  chunk_rowids :: "byte list"

text \<open>The values \<^verbatim>\<open>in (...)\<close> was given, by argument.\<close>

record metadata_in =
  in_texts :: "nat \<Rightarrow> byte list list option"
  in_ints :: "nat \<Rightarrow> int list option"

abbreviation (input) IDXSTR_KIND_KNN_MATCH :: char where "IDXSTR_KIND_KNN_MATCH \<equiv> CHR ''{''"
abbreviation (input) IDXSTR_KIND_KNN_K :: char where "IDXSTR_KIND_KNN_K \<equiv> CHR ''}''"
abbreviation (input) IDXSTR_KIND_KNN_ROWID_IN :: char where "IDXSTR_KIND_KNN_ROWID_IN \<equiv> CHR ''[''"
abbreviation (input) IDXSTR_KIND_PARTITION_CONSTRAINT :: char where "IDXSTR_KIND_PARTITION_CONSTRAINT \<equiv> CHR '']''"
abbreviation (input) IDXSTR_KIND_DISTANCE_CONSTRAINT :: char where "IDXSTR_KIND_DISTANCE_CONSTRAINT \<equiv> CHR ''*''"
abbreviation (input) IDXSTR_KIND_METADATA_CONSTRAINT :: char where "IDXSTR_KIND_METADATA_CONSTRAINT \<equiv> CHR ''&''"

definition metadata_operator_char :: "metadata_operator \<Rightarrow> char" where
  "metadata_operator_char op =
     (case op of OP_EQ \<Rightarrow> CHR ''a'' | OP_GT \<Rightarrow> CHR ''b'' | OP_LE \<Rightarrow> CHR ''c'' | OP_LT \<Rightarrow> CHR ''d'' | OP_GE \<Rightarrow> CHR ''e''
      | OP_NE \<Rightarrow> CHR ''f'' | OP_IN \<Rightarrow> CHR ''g'')"

text \<open>An integer read as an operator; one that is none leaves the meaning of the program open, as \<open>None\<close> does.\<close>

definition metadata_operator_of :: "char \<Rightarrow> metadata_operator option" where
  "metadata_operator_of c = find (\<lambda>op. metadata_operator_char op = c) [OP_EQ, OP_GT, OP_LE, OP_LT, OP_GE, OP_NE, OP_IN]"

subsection \<open>Sorted row ids\<close>

text \<open>
  \<^verbatim>\<open>_cmp\<close> subtracts two \<^verbatim>\<open>i64\<close> and returns the difference as an \<^verbatim>\<open>int\<close>: the upper half is lost.
\<close>

definition rowid_cmp :: "int \<Rightarrow> int \<Rightarrow> int" where
  "rowid_cmp a b = sint (of_int (a - b) :: 32 word)"

text \<open>\<^verbatim>\<open>qsort\<close> and \<^verbatim>\<open>bsearch\<close> of the C library, by insertion and by bisection.\<close>

primrec rowid_insert :: "int \<Rightarrow> int list \<Rightarrow> int list" where
  "rowid_insert x [] = [x]"
| "rowid_insert x (y # ys) = (if rowid_cmp x y \<le> 0 then x # y # ys else y # rowid_insert x ys)"

definition rowid_qsort :: "int list \<Rightarrow> int list" where
  "rowid_qsort xs = foldr rowid_insert xs []"

function rowid_bsearch :: "int \<Rightarrow> int list \<Rightarrow> nat \<Rightarrow> nat \<Rightarrow> nat option" where
  "rowid_bsearch key z l u =
     (if l < u
      then let idx = (l + u) div 2; c = rowid_cmp key (z ! idx)
           in if c < 0 then rowid_bsearch key z l idx
              else if c > 0 then rowid_bsearch key z (idx + 1) u
              else Some idx
      else None)"
  by pat_completeness auto
termination by (relation "measure (\<lambda>(_, _, l, u). u - l)") auto

declare rowid_bsearch.simps [simp del]

primrec rowid_filter :: "int list \<Rightarrow> byte list \<Rightarrow> int list \<Rightarrow> nat list \<Rightarrow> byte list \<Rightarrow> byte list option" where
  "rowid_filter ids validity rowids [] bm = Some bm"
| "rowid_filter ids validity rowids (i # is) bm = do {
     valid \<leftarrow> bitmap_get validity i;
     if \<not> valid then rowid_filter ids validity rowids is bm
     else do {
       rowid \<leftarrow> item_at rowids i;
       bm' \<leftarrow> bitmap_set bm i (rowid_bsearch rowid ids 0 (length ids) \<noteq> None);
       rowid_filter ids validity rowids is bm'
     }
   }"

subsection \<open>Constraints\<close>

definition idx_char :: "string \<Rightarrow> nat \<Rightarrow> nat \<Rightarrow> char option" where
  "idx_char idxStr i j = item_at idxStr (1 + i * 4 + j)"

definition has_kind :: "string \<Rightarrow> nat \<Rightarrow> char \<Rightarrow> bool" where
  "has_kind idxStr argc kind \<longleftrightarrow> (\<exists>i \<in> set [0..<argc]. idx_char idxStr i 0 = Some kind)"

text \<open>
  The metadata constraints, one argument after the other: \<open>opened\<close> are the columns whose blob is open already,
  \<open>b\<close> the candidates and \<open>bm\<close> the bitmap one constraint is evaluated into.
\<close>

fun metadata_filters ::
  "'db sqlite_api \<Rightarrow> ('g :: linorder) double_api \<Rightarrow> 'db \<Rightarrow> vec0_table \<Rightarrow> metadata_in \<Rightarrow> string \<Rightarrow> 'g sqlite_value list \<Rightarrow> int \<Rightarrow>
     nat list \<Rightarrow> nat list \<Rightarrow> byte list \<Rightarrow> byte list \<Rightarrow> (int + nat list \<times> byte list \<times> byte list) option" where
  "metadata_filters S D db p inputs idxStr argv chunk [] opened b bm = Some (Inr (opened, b, bm))"
| "metadata_filters S D db p inputs idxStr argv chunk (i # is) opened b bm = do {
     kind \<leftarrow> idx_char idxStr i 0;
     if kind \<noteq> IDXSTR_KIND_METADATA_CONSTRAINT then metadata_filters S D db p inputs idxStr argv chunk is opened b bm
     else do {
       c1 \<leftarrow> idx_char idxStr i 1;
       c2 \<leftarrow> idx_char idxStr i 2;
       let metadata_idx = of_char c1 - 65;
       column_kind \<leftarrow> item_at (metadata_kinds p) metadata_idx;
       operator \<leftarrow> metadata_operator_of c2;
       arg \<leftarrow> item_at argv i;
       let rc = (if metadata_idx \<in> set opened then SQLITE_OK else blob_open S db (Metadata_data metadata_idx) chunk);
       if rc \<noteq> SQLITE_OK then Some (Inl rc)
       else do {
         bm0 \<leftarrow> bitmap_clear bm (chunk_size p);
         filtered \<leftarrow> vec0_set_metadata_filter_bitmap S D db column_kind metadata_idx operator arg chunk bm0 (chunk_size p)
           (in_texts inputs) (in_ints inputs) i;
         case filtered of
           Inl rc \<Rightarrow> Some (Inl rc)
         | Inr bm1 \<Rightarrow> do {
             b' \<leftarrow> bitmap_and_inplace b bm1 (chunk_size p);
             metadata_filters S D db p inputs idxStr argv chunk is (List.insert metadata_idx opened) b' bm1
           }
       }
     }
   }"

primrec chunk_distances_loop ::
  "('r, 'g) float_api \<Rightarrow> vec0_table \<Rightarrow> byte list \<Rightarrow> byte list \<Rightarrow> byte list \<Rightarrow> nat list \<Rightarrow> 'r list \<Rightarrow> 'r list option" where
  "chunk_distances_loop F p baseVectors queryVector b [] distances = Some distances"
| "chunk_distances_loop F p baseVectors queryVector b (i # is) distances = do {
     candidate \<leftarrow> bitmap_get b i;
     if \<not> candidate then chunk_distances_loop F p baseVectors queryVector b is distances
     else do {
       result \<leftarrow> row_distance F (element_type p) (metric p) (dimensions p) baseVectors queryVector i;
       distances' \<leftarrow> put distances i result;
       chunk_distances_loop F p baseVectors queryVector b is distances'
     }
   }"

definition distance_relation :: "char \<Rightarrow> ('r :: ord \<Rightarrow> 'r \<Rightarrow> bool) option" where
  "distance_relation op =
     (if op = CHR ''b'' then Some (\<ge>) else if op = CHR ''a'' then Some (>)
      else if op = CHR ''d'' then Some (\<le>) else if op = CHR ''c'' then Some (<) else None)"

primrec constrain_distances :: "('r \<Rightarrow> 'r \<Rightarrow> bool) \<Rightarrow> 'r \<Rightarrow> 'r list \<Rightarrow> nat list \<Rightarrow> byte list \<Rightarrow> byte list option" where
  "constrain_distances rel target distances [] b = Some b"
| "constrain_distances rel target distances (i # is) b = do {
     candidate \<leftarrow> bitmap_get b i;
     if \<not> candidate then constrain_distances rel target distances is b
     else do {
       d \<leftarrow> item_at distances i;
       if rel d target then constrain_distances rel target distances is b
       else do {
         b' \<leftarrow> bitmap_set b i False;
         constrain_distances rel target distances is b'
       }
     }
   }"

fun distance_constraints ::
  "('r :: ord, 'g) float_api \<Rightarrow> nat \<Rightarrow> string \<Rightarrow> 'g sqlite_value list \<Rightarrow> 'r list \<Rightarrow> nat list \<Rightarrow> byte list \<Rightarrow> byte list option" where
  "distance_constraints F n idxStr argv distances [] b = Some b"
| "distance_constraints F n idxStr argv distances (i # is) b = do {
     kind \<leftarrow> idx_char idxStr i 0;
     arg \<leftarrow> item_at argv i;
     let target = f_of_d F (value_double arg);
     if kind \<noteq> IDXSTR_KIND_DISTANCE_CONSTRAINT then distance_constraints F n idxStr argv distances is b
     else do {
       op \<leftarrow> idx_char idxStr i 1;
       b' \<leftarrow> (case distance_relation op of None \<Rightarrow> Some b | Some rel \<Rightarrow> constrain_distances rel target distances [0..<n] b);
       distance_constraints F n idxStr argv distances is b'
     }
   }"

subsection \<open>A chunk\<close>

text \<open>The arrays that live across chunks.\<close>

record 'r knn_state =
  topk_rowids :: "int list"
  topk_distances :: "'r list"
  tmp_topk_rowids :: "int list"
  tmp_topk_distances :: "'r list"
  k_used :: nat
  bm_b :: "byte list"
  bm_taken :: "byte list"
  bm_rowids :: "byte list"
  bm_metadata :: "byte list"
  opened_blobs :: "nat list"

definition copy_prefix :: "nat \<Rightarrow> 'a list \<Rightarrow> 'a list \<Rightarrow> 'a list" where
  "copy_prefix used from to = take used from @ drop used to"

definition i64_cells :: "byte list \<Rightarrow> nat \<Rightarrow> int list" where
  "i64_cells bytes n = map (\<lambda>i. i64_of_bytes (take 8 (drop (8 * i) bytes))) [0..<n]"

text \<open>The chunk's vectors, once its sizes are checked.\<close>

definition open_chunk :: "'db sqlite_api \<Rightarrow> 'db \<Rightarrow> vec0_table \<Rightarrow> chunk_row \<Rightarrow> int + byte list" where
  "open_chunk S db p row =
     (let n = chunk_size p; column = Vectors (column_idx p);
          expected = n * vector_byte_size (element_type p) (dimensions p)
      in if length (chunk_validity row) \<noteq> n div CHAR_BIT then Inl SQLITE_ERROR
         else if length (chunk_rowids row) \<noteq> n * 8 then Inl SQLITE_ERROR
         else if blob_open S db column (chunk_id row) \<noteq> SQLITE_OK then Inl SQLITE_ERROR
         else if blob_bytes S db column (chunk_id row) \<noteq> expected then Inl SQLITE_ERROR
         else case blob_read S db column (chunk_id row) 0 expected of Inl _ \<Rightarrow> Inl SQLITE_ERROR | Inr base \<Rightarrow> Inr base)"

text \<open>The rows that pass the row id and metadata constraints.\<close>

definition chunk_candidates ::
  "'db sqlite_api \<Rightarrow> ('g :: linorder) double_api \<Rightarrow> 'db \<Rightarrow> vec0_table \<Rightarrow> int list option \<Rightarrow> metadata_in \<Rightarrow> string \<Rightarrow>
     'g sqlite_value list \<Rightarrow> 'r knn_state \<Rightarrow> chunk_row \<Rightarrow> (int + 'r knn_state) option" where
  "chunk_candidates S D db p ids inputs idxStr argv st row =
     (let n = chunk_size p
      in do {
        b0 \<leftarrow> bitmap_copy (bm_b st) (chunk_validity row) n;
        (b1, rm) \<leftarrow> (case ids of
            None \<Rightarrow> Some (b0, bm_rowids st)
          | Some z \<Rightarrow> do {
              rm0 \<leftarrow> bitmap_clear (bm_rowids st) n;
              rm1 \<leftarrow> rowid_filter z (chunk_validity row) (i64_cells (chunk_rowids row) n) [0..<n] rm0;
              b1 \<leftarrow> bitmap_and_inplace b0 rm1 n;
              Some (b1, rm1)
            });
        filtered \<leftarrow> (if has_kind idxStr (length argv) IDXSTR_KIND_METADATA_CONSTRAINT
          then metadata_filters S D db p inputs idxStr argv (chunk_id row) [0..<length argv] (opened_blobs st) b1 (bm_metadata st)
          else Some (Inr (opened_blobs st, b1, bm_metadata st)));
        Some (case filtered of
            Inl rc \<Rightarrow> Inl rc
          | Inr (opened, b2, bm) \<Rightarrow> Inr (st\<lparr>bm_b := b2, bm_rowids := rm, bm_metadata := bm, opened_blobs := opened\<rparr>))
      })"

text \<open>The nearest candidates, merged with the best so far.\<close>

definition select_chunk ::
  "('r :: ord, 'g) float_api \<Rightarrow> vec0_table \<Rightarrow> string \<Rightarrow> 'g sqlite_value list \<Rightarrow> byte list \<Rightarrow> nat \<Rightarrow> byte list \<Rightarrow>
     'r knn_state \<Rightarrow> chunk_row \<Rightarrow> 'r knn_state option" where
  "select_chunk F p idxStr argv queryVector k baseVectors st row =
     (let n = chunk_size p
      in do {
        distances \<leftarrow> chunk_distances_loop F p baseVectors queryVector (bm_b st) [0..<n] (replicate n (f_zero F));
        b \<leftarrow> (if has_kind idxStr (length argv) IDXSTR_KIND_DISTANCE_CONSTRAINT
          then distance_constraints F n idxStr argv distances [0..<length argv] (bm_b st) else Some (bm_b st));
        (idxs, taken, used1) \<leftarrow> min_idx distances n b (replicate k 0) (min k n) (bm_taken st);
        (out, rout, used) \<leftarrow> merge_sorted_lists (topk_distances st) (topk_rowids st) (k_used st) distances
          (i64_cells (chunk_rowids row) n) idxs (min (min k n) used1) (tmp_topk_distances st) (tmp_topk_rowids st) k;
        Some (st\<lparr>topk_rowids := copy_prefix used rout (topk_rowids st), topk_distances := copy_prefix used out (topk_distances st),
          tmp_topk_rowids := rout, tmp_topk_distances := out, k_used := used, bm_b := b, bm_taken := taken\<rparr>)
      })"

definition knn_chunk ::
  "'db sqlite_api \<Rightarrow> ('g :: linorder) double_api \<Rightarrow> ('r :: ord, 'g) float_api \<Rightarrow> 'db \<Rightarrow> vec0_table \<Rightarrow> int list option \<Rightarrow>
     metadata_in \<Rightarrow> string \<Rightarrow> 'g sqlite_value list \<Rightarrow> byte list \<Rightarrow> nat \<Rightarrow> 'r knn_state \<Rightarrow> chunk_row \<Rightarrow> (int + 'r knn_state) option" where
  "knn_chunk S D F db p ids inputs idxStr argv queryVector k st row = do {
     b \<leftarrow> bitmap_clear (bm_b st) (chunk_size p);
     case open_chunk S db p row of
       Inl rc \<Rightarrow> Some (Inl rc)
     | Inr baseVectors \<Rightarrow> do {
         filtered \<leftarrow> chunk_candidates S D db p ids inputs idxStr argv (st\<lparr>bm_b := b\<rparr>) row;
         case filtered of
           Inl rc \<Rightarrow> Some (Inl rc)
         | Inr st' \<Rightarrow> map_option Inr (select_chunk F p idxStr argv queryVector k baseVectors st' row)
       }
   }"

subsection \<open>All chunks\<close>

text \<open>The statement over the chunks gives a row or fails, until it is done.\<close>

fun knn_chunks ::
  "('r knn_state \<Rightarrow> chunk_row \<Rightarrow> (int + 'r knn_state) option) \<Rightarrow> (int + chunk_row) list \<Rightarrow> 'r knn_state \<Rightarrow>
     (int + 'r knn_state) option" where
  "knn_chunks step [] st = Some (Inr st)"
| "knn_chunks step (Inl rc # rows) st = Some (Inl SQLITE_ERROR)"
| "knn_chunks step (Inr row # rows) st = do {
     r \<leftarrow> step st row;
     case r of Inl rc \<Rightarrow> Some (Inl rc) | Inr st' \<Rightarrow> knn_chunks step rows st'
   }"

definition knn_init :: "'db sqlite_api \<Rightarrow> ('r, 'g) float_api \<Rightarrow> 'db \<Rightarrow> vec0_table \<Rightarrow> bool \<Rightarrow> nat \<Rightarrow> (int + 'r knn_state) option" where
  "knn_init S F db p rowid_in k =
     (let n = chunk_size p
      in if \<not> list_all (malloc S db) [k * 8, k * 4, k * 8, k * 4, n * vector_byte_size (element_type p) (dimensions p), n * 4]
         then Some (Inl SQLITE_NOMEM)
         else do {
           b \<leftarrow> bitmap_new (malloc S db (n div CHAR_BIT)) n;
           taken \<leftarrow> bitmap_new (malloc S db (n div CHAR_BIT)) n;
           rm \<leftarrow> (if rowid_in then bitmap_new (malloc S db (n div CHAR_BIT)) n else Some (Some []));
           bm \<leftarrow> bitmap_new (malloc S db (n div CHAR_BIT)) n;
           Some (case (b, taken, rm, bm) of
               (Some b, Some taken, Some rm, Some bm) \<Rightarrow>
                 if \<not> malloc S db (k * 4) then Inl SQLITE_NOMEM
                 else Inr \<lparr>topk_rowids = replicate k 0, topk_distances = replicate k (f_zero F), tmp_topk_rowids = replicate k 0,
                   tmp_topk_distances = replicate k (f_zero F), k_used = 0, bm_b = b, bm_taken = taken, bm_rowids = rm,
                   bm_metadata = bm, opened_blobs = []\<rparr>
             | _ \<Rightarrow> Inl SQLITE_NOMEM)
         })"

definition vec0Filter_knn_chunks_iter ::
  "'db sqlite_api \<Rightarrow> ('g :: linorder) double_api \<Rightarrow> ('r :: ord, 'g) float_api \<Rightarrow> 'db \<Rightarrow> vec0_table \<Rightarrow> (int + chunk_row) list \<Rightarrow>
     int list option \<Rightarrow> metadata_in \<Rightarrow> string \<Rightarrow> 'g sqlite_value list \<Rightarrow> byte list \<Rightarrow> nat \<Rightarrow> (int + int list \<times> 'r list \<times> nat) option" where
  "vec0Filter_knn_chunks_iter S D F db p rows ids inputs idxStr argv queryVector k = do {
     start \<leftarrow> knn_init S F db p (ids \<noteq> None) k;
     case start of
       Inl rc \<Rightarrow> Some (Inl rc)
     | Inr st \<Rightarrow>
         if (length idxStr - 1) div 4 \<noteq> length argv then None
         else do {
           r \<leftarrow> knn_chunks (knn_chunk S D F db p ids inputs idxStr argv queryVector k) rows st;
           Some (case r of Inl rc \<Rightarrow> Inl rc | Inr st' \<Rightarrow> Inr (topk_rowids st', topk_distances st', k_used st'))
         }
   }"

end
