(* ===== verification/VecPlan.thy ===== *)
theory VecPlan
  imports VecTable VecKnn
begin

text \<open>
  The planner of a \<^verbatim>\<open>vec0\<close> table (\<^verbatim>\<open>vec0BestIndex\<close> in \<^verbatim>\<open>crates/cli/vendor-sqlite-vec/sqlite-vec.c\<close>). SQLite hands it
  the constraints of a query; it answers with a string, four characters for each constraint whose value it wants as an
  argument, and with the number of the argument for each constraint. \<open>vtab_in\<close> is what \<^verbatim>\<open>sqlite3_vtab_in\<close> tells of a
  constraint; \<open>str_ok\<close> tells whether \<^verbatim>\<open>sqlite3_str\<close> has the memory for the string.
\<close>

abbreviation (input) CONSTRAINT_EQ :: int where "CONSTRAINT_EQ \<equiv> 2"
abbreviation (input) CONSTRAINT_GT :: int where "CONSTRAINT_GT \<equiv> 4"
abbreviation (input) CONSTRAINT_LE :: int where "CONSTRAINT_LE \<equiv> 8"
abbreviation (input) CONSTRAINT_LT :: int where "CONSTRAINT_LT \<equiv> 16"
abbreviation (input) CONSTRAINT_GE :: int where "CONSTRAINT_GE \<equiv> 32"
abbreviation (input) CONSTRAINT_MATCH :: int where "CONSTRAINT_MATCH \<equiv> 64"
abbreviation (input) CONSTRAINT_NE :: int where "CONSTRAINT_NE \<equiv> 68"
abbreviation (input) CONSTRAINT_LIMIT :: int where "CONSTRAINT_LIMIT \<equiv> 73"
abbreviation (input) CONSTRAINT_OFFSET :: int where "CONSTRAINT_OFFSET \<equiv> 74"

record index_constraint =
  usable :: bool
  iColumn :: int
  constraint_op :: int
  vtab_in :: bool

record index_info =
  constraints :: "index_constraint list"
  order_by :: "(int \<times> bool) list"
  col_used :: int

subsection \<open>The terms of the query\<close>

record query_terms =
  match_term :: "nat option"
  match_vector :: int
  limit_term :: "nat option"
  rowid_term :: "nat option"
  k_term :: "nat option"
  rowid_in_term :: "nat option"
  has_aux :: bool

definition no_terms :: query_terms where
  "no_terms = \<lparr>match_term = None, match_vector = -1, limit_term = None, rowid_term = None, k_term = None, rowid_in_term = None,
     has_aux = False\<rparr>"

definition limit_or_offset :: "index_constraint \<Rightarrow> bool" where
  "limit_or_offset c \<longleftrightarrow> constraint_op c = CONSTRAINT_LIMIT \<or> constraint_op c = CONSTRAINT_OFFSET"

definition scan_term :: "vec0_vtab \<Rightarrow> index_constraint \<Rightarrow> nat \<Rightarrow> query_terms \<Rightarrow> int + query_terms" where
  "scan_term p c i t =
     (let op = constraint_op c; col = iColumn c;
          t1 = (if op = CONSTRAINT_LIMIT then t\<lparr>limit_term := Some i\<rparr> else t);
          matches = (op = CONSTRAINT_MATCH \<and> column_idx_is KIND_VECTOR p col)
      in if matches \<and> match_term t1 \<noteq> None then Inl SQLITE_ERROR
         else let t2 = (if matches then t1\<lparr>match_term := Some i, match_vector := int (column_idx_to_idx p col)\<rparr> else t1);
                  by_id = (op = CONSTRAINT_EQ \<and> col = VEC0_COLUMN_ID)
              in if by_id \<and> vtab_in c \<and> rowid_in_term t2 \<noteq> None then Inl SQLITE_ERROR
                 else let t3 = (if by_id then if vtab_in c then t2\<lparr>rowid_in_term := Some i\<rparr> else t2\<lparr>rowid_term := Some i\<rparr> else t2);
                          t4 = (if op = CONSTRAINT_EQ \<and> col = column_k_idx p then t3\<lparr>k_term := Some i\<rparr> else t3)
                      in Inr (if \<not> limit_or_offset c \<and> column_idx_is KIND_AUXILIARY p col then t4\<lparr>has_aux := True\<rparr> else t4))"

fun scan_terms :: "vec0_vtab \<Rightarrow> index_constraint list \<Rightarrow> nat \<Rightarrow> query_terms \<Rightarrow> int + query_terms" where
  "scan_terms p [] i t = Inr t"
| "scan_terms p (c # cs) i t =
     (if \<not> usable c then scan_terms p cs (i + 1) t
      else case scan_term p c i t of Inl rc \<Rightarrow> Inl rc | Inr t' \<Rightarrow> scan_terms p cs (i + 1) t')"

subsection \<open>The arguments of the plan\<close>

record plan_state =
  next_arg :: nat
  usage :: "(nat \<times> bool) list"
  plan_str :: string
  whole_lists :: "nat list"

text \<open>
  \<^verbatim>\<open>aConstraintUsage[i].argvIndex\<close> and \<^verbatim>\<open>omit\<close>, and the four characters of the argument. With \<open>whole\<close> the code calls
  \<^verbatim>\<open>sqlite3_vtab_in(pIdxInfo, i, 1)\<close>, which asks for the list of an \<^verbatim>\<open>in\<close> as one argument.
\<close>

definition use_constraint :: "nat \<Rightarrow> bool \<Rightarrow> string \<Rightarrow> plan_state \<Rightarrow> plan_state" where
  "use_constraint i whole entry q =
     q\<lparr>usage := (usage q)[i := (next_arg q, True)], next_arg := next_arg q + 1, plan_str := plan_str q @ entry,
       whole_lists := (if whole then whole_lists q @ [i] else whole_lists q)\<rparr>"

definition column_char :: "nat \<Rightarrow> char" where
  "column_char idx = char_of (65 + idx)"

definition partition_operator :: "int \<Rightarrow> char option" where
  "partition_operator op =
     (if op = CONSTRAINT_EQ then Some (CHR ''a'') else if op = CONSTRAINT_GT then Some (CHR ''b'')
      else if op = CONSTRAINT_LE then Some (CHR ''c'') else if op = CONSTRAINT_LT then Some (CHR ''d'')
      else if op = CONSTRAINT_GE then Some (CHR ''e'') else if op = CONSTRAINT_NE then Some (CHR ''f'') else None)"

fun plan_partitions :: "vec0_vtab \<Rightarrow> index_constraint list \<Rightarrow> nat \<Rightarrow> plan_state \<Rightarrow> plan_state" where
  "plan_partitions p [] i q = q"
| "plan_partitions p (c # cs) i q =
     (if \<not> usable c \<or> limit_or_offset c \<or> \<not> column_idx_is KIND_PARTITION p (iColumn c) then plan_partitions p cs (i + 1) q
      else case partition_operator (constraint_op c) of
        None \<Rightarrow> plan_partitions p cs (i + 1) q
      | Some value \<Rightarrow> plan_partitions p cs (i + 1)
          (use_constraint i False [CHR '']'', column_char (column_idx_to_idx p (iColumn c)), value, CHR ''_''] q))"

text \<open>The operator of a metadata constraint, an error for one the column does not support.\<close>

definition metadata_plan_operator :: "metadata_kind \<Rightarrow> index_constraint \<Rightarrow> int + char" where
  "metadata_plan_operator kind c =
     (let op = constraint_op c;
          value = (if op = CONSTRAINT_EQ
            then if vtab_in c then if kind \<in> {KIND_FLOAT, KIND_BOOLEAN} then Inl SQLITE_ERROR else Inr (CHR ''g'')
                 else Inr (CHR ''a'')
            else case partition_operator op of None \<Rightarrow> Inl SQLITE_ERROR | Some opc \<Rightarrow> Inr opc)
      in case value of
        Inl rc \<Rightarrow> Inl rc
      | Inr opc \<Rightarrow> if kind = KIND_BOOLEAN \<and> \<not> (opc = CHR ''a'' \<or> opc = CHR ''f'') then Inl SQLITE_ERROR else Inr opc)"

fun plan_metadata :: "vec0_vtab \<Rightarrow> index_constraint list \<Rightarrow> nat \<Rightarrow> plan_state \<Rightarrow> int + plan_state" where
  "plan_metadata p [] i q = Inr q"
| "plan_metadata p (c # cs) i q =
     (if \<not> usable c \<or> limit_or_offset c \<or> \<not> column_idx_is KIND_METADATA p (iColumn c) then plan_metadata p cs (i + 1) q
      else let idx = column_idx_to_idx p (iColumn c)
           in case metadata_plan_operator (metadata_columns p ! idx) c of
                Inl rc \<Rightarrow> Inl rc
              | Inr value \<Rightarrow> plan_metadata p cs (i + 1)
                  (use_constraint i (constraint_op c = CONSTRAINT_EQ \<and> vtab_in c) [CHR ''&'', column_char idx, value, CHR ''_''] q))"

definition distance_operator :: "int \<Rightarrow> char option" where
  "distance_operator op =
     (if op = CONSTRAINT_GT then Some (CHR ''a'') else if op = CONSTRAINT_GE then Some (CHR ''b'')
      else if op = CONSTRAINT_LT then Some (CHR ''c'') else if op = CONSTRAINT_LE then Some (CHR ''d'') else None)"

fun plan_distances :: "vec0_vtab \<Rightarrow> index_constraint list \<Rightarrow> nat \<Rightarrow> plan_state \<Rightarrow> int + plan_state" where
  "plan_distances p [] i q = Inr q"
| "plan_distances p (c # cs) i q =
     (if \<not> usable c \<or> limit_or_offset c \<or> column_distance_idx p \<noteq> iColumn c then plan_distances p cs (i + 1) q
      else case distance_operator (constraint_op c) of
        None \<Rightarrow> Inl SQLITE_ERROR
      | Some value \<Rightarrow> plan_distances p cs (i + 1) (use_constraint i False [CHR ''*'', value, CHR ''_'', CHR ''_''] q))"

subsection \<open>The plan\<close>

record best_plan =
  idx_num :: int
  idx_str :: "string option"
  arg_usage :: "(nat \<times> bool) list"
  in_lists :: "nat list"

definition order_refused :: "vec0_vtab \<Rightarrow> (int \<times> bool) list \<Rightarrow> bool" where
  "order_refused p order \<longleftrightarrow>
     (case order of [] \<Rightarrow> False | [(col, desc)] \<Rightarrow> col \<noteq> column_distance_idx p \<or> desc | _ \<Rightarrow> True)"

definition knn_start :: "index_info \<Rightarrow> query_terms \<Rightarrow> nat \<Rightarrow> plan_state" where
  "knn_start info t m =
     (let q0 = \<lparr>next_arg = 1, usage = replicate (length (constraints info)) (0, False), plan_str = ''3'', whole_lists = []\<rparr>;
          q1 = use_constraint m False ''{___'' q0;
          q2 = use_constraint (case limit_term t of Some l \<Rightarrow> l | None \<Rightarrow> the (k_term t)) False ''}___'' q1
      in case rowid_in_term t of Some r \<Rightarrow> use_constraint r True ''[___'' q2 | None \<Rightarrow> q2)"

definition knn_plan :: "vec0_vtab \<Rightarrow> index_info \<Rightarrow> query_terms \<Rightarrow> nat \<Rightarrow> int + plan_state" where
  "knn_plan p info t m =
     (if limit_term t = None \<and> k_term t = None then Inl SQLITE_ERROR
      else if limit_term t \<noteq> None \<and> k_term t \<noteq> None then Inl SQLITE_ERROR
      else if order_refused p (order_by info) then Inl SQLITE_ERROR
      else if has_aux t then Inl SQLITE_ERROR
      else case plan_metadata p (constraints info) 0 (plan_partitions p (constraints info) 0 (knn_start info t m)) of
        Inl rc \<Rightarrow> Inl rc
      | Inr q \<Rightarrow> plan_distances p (constraints info) 0 q)"

definition vec0BestIndex :: "vec0_vtab \<Rightarrow> index_info \<Rightarrow> bool \<Rightarrow> int + best_plan" where
  "vec0BestIndex p info str_ok =
     (let finish = (\<lambda>num use str whole.
            \<lparr>idx_num = num, idx_str = (if str_ok then Some str else None), arg_usage = use, in_lists = whole\<rparr>);
          none = replicate (length (constraints info)) (0, False)
      in case scan_terms p (constraints info) 0 no_terms of
        Inl rc \<Rightarrow> Inl rc
      | Inr t \<Rightarrow>
          (case match_term t of
             Some m \<Rightarrow> map_sum id (\<lambda>q. finish (match_vector t) (usage q) (plan_str q) (whole_lists q)) (knn_plan p info t m)
           | None \<Rightarrow>
               (case rowid_term t of
                  Some r \<Rightarrow> Inr (finish (sint (of_int (col_used info) :: 32 word)) (none[r := (1, True)]) ''2!___'' [])
                | None \<Rightarrow> Inr (finish 0 none ''1'' []))))"

subsection \<open>What a plan says\<close>

text \<open>The four characters a constraint is passed with.\<close>

definition constraint_entry :: "vec0_vtab \<Rightarrow> index_constraint \<Rightarrow> string" where
  "constraint_entry p c =
     (let col = iColumn c; op = constraint_op c; idx = column_idx_to_idx p col
      in if op = CONSTRAINT_LIMIT then ''}___''
         else if op = CONSTRAINT_MATCH \<and> column_idx_is KIND_VECTOR p col then ''{___''
         else if col = column_k_idx p then ''}___''
         else if col = VEC0_COLUMN_ID then ''[___''
         else if column_idx_is KIND_PARTITION p col then [CHR '']'', column_char idx, the (partition_operator op), CHR ''_'']
         else if column_idx_is KIND_METADATA p col
         then [CHR ''&'', column_char idx, projr (metadata_plan_operator (metadata_columns p ! idx) c), CHR ''_'']
         else [CHR ''*'', the (distance_operator op), CHR ''_'', CHR ''_''])"

text \<open>The constraints \<open>is\<close> are the arguments, in this order.\<close>

definition plan_of :: "vec0_vtab \<Rightarrow> index_constraint list \<Rightarrow> nat list \<Rightarrow> plan_state \<Rightarrow> bool" where
  "plan_of p cs is q \<longleftrightarrow> distinct is \<and> (\<forall>i \<in> set is. i < length cs \<and> usable (cs ! i)) \<and> next_arg q = length is + 1 \<and>
     length (usage q) = length cs \<and> (\<forall>a < length is. usage q ! (is ! a) = (a + 1, True)) \<and>
     (\<forall>i < length cs. i \<notin> set is \<longrightarrow> usage q ! i = (0, False)) \<and>
     plan_str q = ''3'' @ concat (map (\<lambda>i. constraint_entry p (cs ! i)) is) \<and>
     set (whole_lists q) \<subseteq> {i \<in> set is. vtab_in (cs ! i)}"

lemma use_constraint_ok:
  assumes "plan_of p cs is q" and "i < length cs" and "usable (cs ! i)" and "i \<notin> set is" and "entry = constraint_entry p (cs ! i)"
    and "whole \<Longrightarrow> vtab_in (cs ! i)"
  shows "plan_of p cs (is @ [i]) (use_constraint i whole entry q)"
proof -
  have "(usage q)[i := (next_arg q, True)] ! ((is @ [i]) ! a) = (a + 1, True)" if "a < length (is @ [i])" for a
  proof (cases "a < length is")
    case True
    then have "is ! a \<noteq> i" using assms(4) nth_mem by metis
    then show ?thesis using True assms(1) by (simp add: plan_of_def nth_append)
  next
    case False
    then have "a = length is" using that by simp
    then show ?thesis using assms(1,2) by (simp add: plan_of_def)
  qed
  then show ?thesis using assms by (auto simp: plan_of_def use_constraint_def)
qed

definition selects :: "(int \<Rightarrow> bool) \<Rightarrow> index_constraint \<Rightarrow> bool" where
  "selects col c \<longleftrightarrow> usable c \<and> \<not> limit_or_offset c \<and> col (iColumn c)"

text \<open>The user columns, the id and the hidden columns are different columns.\<close>

lemma columns_differ:
  "column_idx_is kind p col \<Longrightarrow> col \<noteq> column_k_idx p \<and> col \<noteq> column_distance_idx p \<and> col \<noteq> VEC0_COLUMN_ID"
  "column_idx_is kind p col \<Longrightarrow> column_idx_is kind' p col \<Longrightarrow> kind = kind'"
  "column_distance_idx p \<noteq> column_k_idx p" "column_distance_idx p \<noteq> VEC0_COLUMN_ID" "column_k_idx p \<noteq> VEC0_COLUMN_ID"
  "\<not> column_idx_is kind p (column_k_idx p)" "\<not> column_idx_is kind p (column_distance_idx p)" "\<not> column_idx_is kind p VEC0_COLUMN_ID"
  by (auto simp: column_idx_is_def column_k_idx_def column_distance_idx_def)

lemma entry_partition:
  "selects (column_idx_is KIND_PARTITION p) c \<Longrightarrow> partition_operator (constraint_op c) = Some v \<Longrightarrow>
     constraint_entry p c = [CHR '']'', column_char (column_idx_to_idx p (iColumn c)), v, CHR ''_'']"
  using columns_differ(1) [of KIND_PARTITION p "iColumn c"] columns_differ(2) [of KIND_PARTITION p "iColumn c" KIND_VECTOR]
  by (auto simp: constraint_entry_def selects_def limit_or_offset_def Let_def)

lemma entry_metadata:
  "selects (column_idx_is KIND_METADATA p) c \<Longrightarrow>
     metadata_plan_operator (metadata_columns p ! column_idx_to_idx p (iColumn c)) c = Inr v \<Longrightarrow>
     constraint_entry p c = [CHR ''&'', column_char (column_idx_to_idx p (iColumn c)), v, CHR ''_'']"
  using columns_differ(1) [of KIND_METADATA p "iColumn c"] columns_differ(2) [of KIND_METADATA p "iColumn c" KIND_VECTOR]
    columns_differ(2) [of KIND_METADATA p "iColumn c" KIND_PARTITION]
  by (auto simp: constraint_entry_def selects_def limit_or_offset_def Let_def)

lemma entry_distance:
  "selects (\<lambda>col. col = column_distance_idx p) c \<Longrightarrow> distance_operator (constraint_op c) = Some v \<Longrightarrow>
     constraint_entry p c = [CHR ''*'', v, CHR ''_'', CHR ''_'']"
  using columns_differ(3-8) [where p = p] by (auto simp: constraint_entry_def selects_def limit_or_offset_def Let_def)

definition selects_partition :: "vec0_vtab \<Rightarrow> index_constraint \<Rightarrow> bool" where
  "selects_partition p c \<longleftrightarrow> selects (column_idx_is KIND_PARTITION p) c \<and> partition_operator (constraint_op c) \<noteq> None"

lemma from_next:
  "{j. length pre \<le> j \<and> j < length (pre @ c # rest) \<and> P j} =
     (if P (length pre) then {length pre} else {}) \<union> {j. length (pre @ [c]) \<le> j \<and> j < length (pre @ c # rest) \<and> P j}"
  by (auto simp: le_less Suc_le_eq)

lemma plan_partitions_ok:
  assumes "plan_of p cs is q" and "cs = pre @ rest" and "\<forall>j \<in> set is. selects_partition p (cs ! j) \<longrightarrow> j < length pre"
  shows "\<exists>is'. plan_of p cs (is @ is') (plan_partitions p rest (length pre) q) \<and>
    set is' = {j. length pre \<le> j \<and> j < length cs \<and> selects_partition p (cs ! j)}"
  using assms
proof (induction rest arbitrary: pre "is" q)
  case Nil
  then show ?case by (intro exI [of _ "[]"]) auto
next
  case (Cons c rest)
  have c: "cs ! length pre = c" "length pre < length cs" "cs = (pre @ [c]) @ rest" using Cons.prems(2) by simp_all
  have step: "{j. length pre \<le> j \<and> j < length cs \<and> selects_partition p (cs ! j)} =
      (if selects_partition p c then {length pre} else {}) \<union> {j. length (pre @ [c]) \<le> j \<and> j < length cs \<and> selects_partition p (cs ! j)}"
    using from_next [of pre c rest "\<lambda>j. selects_partition p (cs ! j)"] c(1) Cons.prems(2) by simp
  show ?case
  proof (cases "selects_partition p c")
    case False
    have "\<exists>is'. plan_of p cs (is @ is') (plan_partitions p rest (length (pre @ [c])) q) \<and>
        set is' = {j. length (pre @ [c]) \<le> j \<and> j < length cs \<and> selects_partition p (cs ! j)}"
      using Cons.prems(3) by (intro Cons.IH [OF Cons.prems(1) c(3)]) auto
    moreover have "plan_partitions p (c # rest) (length pre) q = plan_partitions p rest (length (pre @ [c])) q"
      using False by (auto simp: selects_partition_def selects_def split: option.split)
    ultimately show ?thesis using False unfolding step by simp
  next
    case True
    then obtain v where v: "selects (column_idx_is KIND_PARTITION p) c" "partition_operator (constraint_op c) = Some v"
      by (auto simp: selects_partition_def)
    define q' where "q' = use_constraint (length pre) False (constraint_entry p c) q"
    have "length pre \<notin> set is" using Cons.prems(3) True c(1) by auto
    then have q': "plan_of p cs (is @ [length pre]) q'"
      unfolding q'_def using use_constraint_ok [OF Cons.prems(1) c(2)] v(1) c(1) by (simp add: selects_def)
    have below: "\<forall>j \<in> set (is @ [length pre]). selects_partition p (cs ! j) \<longrightarrow> j < length (pre @ [c])"
      using Cons.prems(3) by (auto simp: less_Suc_eq)
    obtain is' where "plan_of p cs ((is @ [length pre]) @ is') (plan_partitions p rest (length (pre @ [c])) q')"
      "set is' = {j. length (pre @ [c]) \<le> j \<and> j < length cs \<and> selects_partition p (cs ! j)}"
      using Cons.IH [OF q' c(3) below] by blast
    moreover have "plan_partitions p (c # rest) (length pre) q = plan_partitions p rest (length (pre @ [c])) q'"
      using v entry_partition [of p c v] by (simp add: q'_def selects_def)
    ultimately show ?thesis using True unfolding step by (intro exI [of _ "length pre # is'"]) simp
  qed
qed

lemma plan_metadata_ok:
  assumes "plan_of p cs is q" and "cs = pre @ rest" and "\<forall>j \<in> set is. selects (column_idx_is KIND_METADATA p) (cs ! j) \<longrightarrow> j < length pre"
    and "plan_metadata p rest (length pre) q = Inr q'"
  shows "\<exists>is'. plan_of p cs (is @ is') q' \<and> set is' = {j. length pre \<le> j \<and> j < length cs \<and> selects (column_idx_is KIND_METADATA p) (cs ! j)}"
  using assms
proof (induction rest arbitrary: pre "is" q)
  case Nil
  then show ?case by (intro exI [of _ "[]"]) auto
next
  case (Cons c rest)
  have c: "cs ! length pre = c" "length pre < length cs" "cs = (pre @ [c]) @ rest" using Cons.prems(2) by simp_all
  have split: "{j. length pre \<le> j \<and> j < length cs \<and> P j} =
      (if P (length pre) then {length pre} else {}) \<union> {j. length (pre @ [c]) \<le> j \<and> j < length cs \<and> P j}" for P
    using c(2) by (auto simp: le_less Suc_le_eq)
  show ?case
  proof (cases "selects (column_idx_is KIND_METADATA p) c")
    case False
    then have "plan_metadata p rest (length (pre @ [c])) q = Inr q'" using Cons.prems(4) by (auto simp: selects_def)
    then have "\<exists>is'. plan_of p cs (is @ is') q' \<and>
        set is' = {j. length (pre @ [c]) \<le> j \<and> j < length cs \<and> selects (column_idx_is KIND_METADATA p) (cs ! j)}"
      using Cons.prems(3) by (intro Cons.IH [OF Cons.prems(1) c(3)]) auto
    then show ?thesis using False c(1) unfolding split [of "\<lambda>j. selects (column_idx_is KIND_METADATA p) (cs ! j)"] by simp
  next
    case True
    then obtain v where v: "metadata_plan_operator (metadata_columns p ! column_idx_to_idx p (iColumn c)) c = Inr v"
      using Cons.prems(4) by (cases "metadata_plan_operator (metadata_columns p ! column_idx_to_idx p (iColumn c)) c") (auto simp: selects_def Let_def)
    define q1 where "q1 = use_constraint (length pre) (constraint_op c = CONSTRAINT_EQ \<and> vtab_in c) (constraint_entry p c) q"
    have "length pre \<notin> set is" using Cons.prems(3) True c(1) by auto
    then have q1: "plan_of p cs (is @ [length pre]) q1"
      unfolding q1_def using use_constraint_ok [OF Cons.prems(1) c(2)] True c(1) by (simp add: selects_def)
    have "plan_metadata p rest (length (pre @ [c])) q1 = Inr q'"
      using Cons.prems(4) True v entry_metadata [OF True v] by (simp add: q1_def selects_def)
    moreover have "\<forall>j \<in> set (is @ [length pre]). selects (column_idx_is KIND_METADATA p) (cs ! j) \<longrightarrow> j < length (pre @ [c])"
      using Cons.prems(3) by (auto simp: less_Suc_eq)
    ultimately obtain is' where "plan_of p cs ((is @ [length pre]) @ is') q'"
      "set is' = {j. length (pre @ [c]) \<le> j \<and> j < length cs \<and> selects (column_idx_is KIND_METADATA p) (cs ! j)}"
      using Cons.IH [OF q1 c(3)] by blast
    then show ?thesis using True c(1) unfolding split [of "\<lambda>j. selects (column_idx_is KIND_METADATA p) (cs ! j)"]
      by (intro exI [of _ "length pre # is'"]) simp
  qed
qed

lemma plan_distances_ok:
  assumes "plan_of p cs is q" and "cs = pre @ rest"
    and "\<forall>j \<in> set is. selects (\<lambda>col. col = column_distance_idx p) (cs ! j) \<longrightarrow> j < length pre"
    and "plan_distances p rest (length pre) q = Inr q'"
  shows "\<exists>is'. plan_of p cs (is @ is') q' \<and>
    set is' = {j. length pre \<le> j \<and> j < length cs \<and> selects (\<lambda>col. col = column_distance_idx p) (cs ! j)}"
  using assms
proof (induction rest arbitrary: pre "is" q)
  case Nil
  then show ?case by (intro exI [of _ "[]"]) auto
next
  case (Cons c rest)
  have c: "cs ! length pre = c" "length pre < length cs" "cs = (pre @ [c]) @ rest" using Cons.prems(2) by simp_all
  have split: "{j. length pre \<le> j \<and> j < length cs \<and> P j} =
      (if P (length pre) then {length pre} else {}) \<union> {j. length (pre @ [c]) \<le> j \<and> j < length cs \<and> P j}" for P
    using c(2) by (auto simp: le_less Suc_le_eq)
  show ?case
  proof (cases "selects (\<lambda>col. col = column_distance_idx p) c")
    case False
    then have "plan_distances p rest (length (pre @ [c])) q = Inr q'" using Cons.prems(4) by (auto simp: selects_def)
    then have "\<exists>is'. plan_of p cs (is @ is') q' \<and>
        set is' = {j. length (pre @ [c]) \<le> j \<and> j < length cs \<and> selects (\<lambda>col. col = column_distance_idx p) (cs ! j)}"
      using Cons.prems(3) by (intro Cons.IH [OF Cons.prems(1) c(3)]) auto
    then show ?thesis using False c(1) unfolding split [of "\<lambda>j. selects (\<lambda>col. col = column_distance_idx p) (cs ! j)"] by simp
  next
    case True
    then obtain v where v: "distance_operator (constraint_op c) = Some v"
      using Cons.prems(4) by (cases "distance_operator (constraint_op c)") (auto simp: selects_def)
    define q1 where "q1 = use_constraint (length pre) False (constraint_entry p c) q"
    have "length pre \<notin> set is" using Cons.prems(3) True c(1) by auto
    then have q1: "plan_of p cs (is @ [length pre]) q1"
      unfolding q1_def using use_constraint_ok [OF Cons.prems(1) c(2)] True c(1) by (simp add: selects_def)
    have "plan_distances p rest (length (pre @ [c])) q1 = Inr q'"
      using Cons.prems(4) True v entry_distance [OF True v] by (simp add: q1_def selects_def)
    moreover have "\<forall>j \<in> set (is @ [length pre]). selects (\<lambda>col. col = column_distance_idx p) (cs ! j) \<longrightarrow> j < length (pre @ [c])"
      using Cons.prems(3) by (auto simp: less_Suc_eq)
    ultimately obtain is' where "plan_of p cs ((is @ [length pre]) @ is') q'"
      "set is' = {j. length (pre @ [c]) \<le> j \<and> j < length cs \<and> selects (\<lambda>col. col = column_distance_idx p) (cs ! j)}"
      using Cons.IH [OF q1 c(3)] by blast
    then show ?thesis using True c(1) unfolding split [of "\<lambda>j. selects (\<lambda>col. col = column_distance_idx p) (cs ! j)"]
      by (intro exI [of _ "length pre # is'"]) simp
  qed
qed

subsection \<open>What the terms are\<close>

definition is_term :: "index_constraint list \<Rightarrow> (index_constraint \<Rightarrow> bool) \<Rightarrow> nat option \<Rightarrow> bool" where
  "is_term cs P term \<longleftrightarrow> (case term of None \<Rightarrow> True | Some i \<Rightarrow> i < length cs \<and> usable (cs ! i) \<and> P (cs ! i))"

definition matches_vector :: "vec0_vtab \<Rightarrow> index_constraint \<Rightarrow> bool" where
  "matches_vector p c \<longleftrightarrow> constraint_op c = CONSTRAINT_MATCH \<and> column_idx_is KIND_VECTOR p (iColumn c)"

definition terms_ok :: "vec0_vtab \<Rightarrow> index_constraint list \<Rightarrow> query_terms \<Rightarrow> bool" where
  "terms_ok p cs t \<longleftrightarrow> is_term cs (matches_vector p) (match_term t) \<and>
     (case match_term t of None \<Rightarrow> True | Some m \<Rightarrow> match_vector t = int (column_idx_to_idx p (iColumn (cs ! m)))) \<and>
     is_term cs (\<lambda>c. constraint_op c = CONSTRAINT_LIMIT) (limit_term t) \<and>
     is_term cs (\<lambda>c. constraint_op c = CONSTRAINT_EQ \<and> iColumn c = column_k_idx p) (k_term t) \<and>
     is_term cs (\<lambda>c. constraint_op c = CONSTRAINT_EQ \<and> iColumn c = VEC0_COLUMN_ID) (rowid_term t) \<and>
     is_term cs (\<lambda>c. constraint_op c = CONSTRAINT_EQ \<and> iColumn c = VEC0_COLUMN_ID \<and> vtab_in c) (rowid_in_term t)"

lemma scan_term_ok:
  assumes t: "terms_ok p cs t" and i: "i < length cs" "usable (cs ! i)" and scan: "scan_term p (cs ! i) i t = Inr t'"
  shows "terms_ok p cs t'"
proof -
  define c where "c = cs ! i"
  define by_id where "by_id \<longleftrightarrow> constraint_op c = CONSTRAINT_EQ \<and> iColumn c = VEC0_COLUMN_ID"
  define t1 where "t1 = (if constraint_op c = CONSTRAINT_LIMIT then t\<lparr>limit_term := Some i\<rparr> else t)"
  define t2 where "t2 = (if matches_vector p c then t1\<lparr>match_term := Some i, match_vector := int (column_idx_to_idx p (iColumn c))\<rparr> else t1)"
  define t3 where "t3 = (if by_id then if vtab_in c then t2\<lparr>rowid_in_term := Some i\<rparr> else t2\<lparr>rowid_term := Some i\<rparr> else t2)"
  define t4 where "t4 = (if constraint_op c = CONSTRAINT_EQ \<and> iColumn c = column_k_idx p then t3\<lparr>k_term := Some i\<rparr> else t3)"
  have "terms_ok p cs t1" using t i by (simp add: t1_def terms_ok_def is_term_def c_def split: option.splits)
  then have "terms_ok p cs t2" using i by (simp add: t2_def terms_ok_def is_term_def c_def split: option.splits)
  then have "terms_ok p cs t3" using i by (simp add: t3_def terms_ok_def is_term_def c_def by_id_def split: option.splits)
  then have t4: "terms_ok p cs t4" using i by (simp add: t4_def terms_ok_def is_term_def c_def split: option.splits)
  have "t' = t4 \<or> t' = t4\<lparr>has_aux := True\<rparr>"
    using scan unfolding scan_term_def Let_def c_def [symmetric] t1_def [symmetric] matches_vector_def [symmetric] t2_def [symmetric]
      by_id_def [symmetric] t3_def [symmetric] t4_def [symmetric]
    by (auto split: if_splits)
  then show ?thesis using t4 by (auto simp: terms_ok_def split: option.splits)
qed

lemma scan_terms_ok:
  assumes "terms_ok p cs t" and "cs = pre @ rest" and "scan_terms p rest (length pre) t = Inr t'"
  shows "terms_ok p cs t'"
  using assms
proof (induction rest arbitrary: pre t)
  case (Cons c rest)
  have c: "cs ! length pre = c" "length pre < length cs" "cs = (pre @ [c]) @ rest" using Cons.prems(2) by simp_all
  show ?case
  proof (cases "usable c")
    case False
    then show ?thesis using Cons.IH [OF Cons.prems(1) c(3)] Cons.prems(3) by simp
  next
    case True
    then obtain t1 where t1: "scan_term p c (length pre) t = Inr t1" "scan_terms p rest (length (pre @ [c])) t1 = Inr t'"
      using Cons.prems(3) by (cases "scan_term p c (length pre) t") auto
    have "terms_ok p cs t1" using scan_term_ok [OF Cons.prems(1) c(2)] True t1(1) c(1) by simp
    then show ?thesis using Cons.IH [OF _ c(3) t1(2)] by blast
  qed
qed simp

definition rowid_in_constraint :: "index_constraint \<Rightarrow> bool" where
  "rowid_in_constraint c \<longleftrightarrow> constraint_op c = CONSTRAINT_EQ \<and> iColumn c = VEC0_COLUMN_ID \<and> vtab_in c"

text \<open>The arguments that every search has: the vector, the number of rows and perhaps a list of row ids.\<close>

lemma knn_start_ok:
  assumes t: "terms_ok p (constraints info) t" and m: "match_term t = Some m" and one: "(limit_term t = None) \<noteq> (k_term t = None)"
  shows "\<exists>l is. plan_of p (constraints info) (m # l # is) (knn_start info t m) \<and>
    constraint_entry p (constraints info ! m) = ''{___'' \<and> constraint_entry p (constraints info ! l) = ''}___'' \<and>
    (\<forall>i \<in> set is. rowid_in_constraint (constraints info ! i) \<and> constraint_entry p (constraints info ! i) = ''[___'') \<and>
    (\<forall>kind. kind \<noteq> KIND_VECTOR \<longrightarrow> (\<forall>i \<in> set (m # l # is). \<not> selects (column_idx_is kind p) (constraints info ! i))) \<and>
    (\<forall>i \<in> set (m # l # is). \<not> selects (\<lambda>col. col = column_distance_idx p) (constraints info ! i))"
proof -
  define cs where "cs = constraints info"
  define l where "l = (case limit_term t of Some l \<Rightarrow> l | None \<Rightarrow> the (k_term t))"
  have M: "m < length cs" "usable (cs ! m)" "matches_vector p (cs ! m)" using t m by (simp_all add: terms_ok_def is_term_def cs_def)
  have L: "l < length cs" "usable (cs ! l)" "constraint_op (cs ! l) = CONSTRAINT_LIMIT \<or> constraint_op (cs ! l) = CONSTRAINT_EQ \<and> iColumn (cs ! l) = column_k_idx p"
    using t one by (auto simp: terms_ok_def is_term_def cs_def l_def split: option.splits)
  have em: "constraint_entry p (cs ! m) = ''{___''" using M(3) by (simp add: constraint_entry_def matches_vector_def Let_def)
  have el: "constraint_entry p (cs ! l) = ''}___''"
    using L(3) columns_differ(6) [of KIND_VECTOR p] by (auto simp: constraint_entry_def Let_def)
  have "m \<noteq> l" using em el by auto
  have other: "\<not> selects (column_idx_is kind p) (cs ! i)" if "i = m \<or> i = l" "kind \<noteq> KIND_VECTOR" for i kind
    using that M(3) L(3) columns_differ(2) [of KIND_VECTOR p "iColumn (cs ! m)" kind] columns_differ(6) [of kind p]
    by (auto simp: selects_def limit_or_offset_def matches_vector_def)
  have other_d: "\<not> selects (\<lambda>col. col = column_distance_idx p) (cs ! i)" if "i = m \<or> i = l" for i
    using that M(3) L(3) columns_differ(7) [of KIND_VECTOR p] columns_differ(3) [of p]
    by (auto simp: selects_def limit_or_offset_def matches_vector_def)
  define q0 where "q0 = \<lparr>next_arg = 1, usage = replicate (length cs) (0, False), plan_str = ''3'', whole_lists = []\<rparr>"
  have "plan_of p cs [] q0" by (simp add: plan_of_def q0_def)
  from use_constraint_ok [OF this M(1,2) _ em [symmetric]] have "plan_of p cs [m] (use_constraint m False ''{___'' q0)" by simp
  from use_constraint_ok [OF this L(1,2) _ el [symmetric]]
  have q2: "plan_of p cs [m, l] (use_constraint l False ''}___'' (use_constraint m False ''{___'' q0))" using \<open>m \<noteq> l\<close> by simp
  show ?thesis
  proof (cases "rowid_in_term t")
    case None
    then have "knn_start info t m = use_constraint l False ''}___'' (use_constraint m False ''{___'' q0)"
      by (simp add: knn_start_def q0_def l_def cs_def)
    then have "plan_of p (constraints info) (m # l # []) (knn_start info t m)" using q2 by (simp add: cs_def)
    then show ?thesis using em el other other_d unfolding cs_def by (intro exI [of _ l] exI [of _ "[]"]) simp
  next
    case (Some r)
    have R: "r < length cs" "usable (cs ! r)" "constraint_op (cs ! r) = CONSTRAINT_EQ" "iColumn (cs ! r) = VEC0_COLUMN_ID"
      "vtab_in (cs ! r)"
      using t Some by (simp_all add: terms_ok_def is_term_def cs_def)
    have er: "constraint_entry p (cs ! r) = ''[___''"
      using R(3,4) columns_differ(5) [of p] by (simp add: constraint_entry_def)
    have "r \<noteq> m" "r \<noteq> l" using em el er by auto
    then have "plan_of p cs [m, l, r] (use_constraint r True ''[___'' (use_constraint l False ''}___'' (use_constraint m False ''{___'' q0)))"
      using use_constraint_ok [OF q2 R(1,2) _ er [symmetric], of True] R(5) by simp
    moreover have "knn_start info t m = use_constraint r True ''[___'' (use_constraint l False ''}___'' (use_constraint m False ''{___'' q0))"
      using Some by (simp add: knn_start_def q0_def l_def cs_def)
    ultimately have "plan_of p (constraints info) (m # l # [r]) (knn_start info t m)" by (simp add: cs_def)
    moreover have "\<not> selects (column_idx_is kind p) (cs ! r)" for kind
      using R(4) columns_differ(8) [of kind p] by (simp add: selects_def)
    moreover have "\<not> selects (\<lambda>col. col = column_distance_idx p) (cs ! r)" using R(4) columns_differ(4) [of p] by (auto simp: selects_def)
    moreover have "rowid_in_constraint (cs ! r)" using R(3-5) by (simp add: rowid_in_constraint_def)
    ultimately show ?thesis using em el er other other_d unfolding cs_def by (intro exI [of _ l] exI [of _ "[r]"]) simp
  qed
qed

lemma length_entry: "length (constraint_entry p c) = 4"
  by (simp add: constraint_entry_def Let_def)

lemma length_plan_str: "plan_of p cs is q \<Longrightarrow> length (plan_str q) = 1 + 4 * length is"
proof -
  assume "plan_of p cs is q"
  moreover have "length (concat (map (\<lambda>i. constraint_entry p (cs ! i)) xs)) = 4 * length xs" for xs
    by (induction xs) (simp_all add: length_entry)
  ultimately show ?thesis by (simp add: plan_of_def)
qed

lemma other_entry:
  assumes "selects (column_idx_is kind p) c" and "kind \<noteq> KIND_VECTOR"
  shows "hd (constraint_entry p c) \<notin> {CHR ''{'', CHR ''}''}"
  using assms columns_differ(1) [of kind p "iColumn c"] columns_differ(2) [of kind p "iColumn c" KIND_VECTOR]
  by (auto simp: constraint_entry_def selects_def limit_or_offset_def Let_def)

lemma distance_entry:
  assumes "selects (\<lambda>col. col = column_distance_idx p) c"
  shows "hd (constraint_entry p c) \<notin> {CHR ''{'', CHR ''}''}"
  using assms columns_differ(3-8) [where p = p]
  by (auto simp: constraint_entry_def selects_def limit_or_offset_def Let_def)

text \<open>The constraints that a search has to take over.\<close>

definition search_constraint :: "vec0_vtab \<Rightarrow> index_constraint \<Rightarrow> bool" where
  "search_constraint p c \<longleftrightarrow> selects_partition p c \<or> selects (column_idx_is KIND_METADATA p) c \<or>
     selects (\<lambda>col. col = column_distance_idx p) c"

lemma knn_plan_ok:
  assumes t: "terms_ok p (constraints info) t" and m: "match_term t = Some m" and plan: "knn_plan p info t m = Inr q"
  shows "\<exists>l is. plan_of p (constraints info) (m # l # is) q \<and>
    constraint_entry p (constraints info ! m) = ''{___'' \<and> constraint_entry p (constraints info ! l) = ''}___'' \<and>
    (\<forall>i \<in> set is. hd (constraint_entry p (constraints info ! i)) \<notin> {CHR ''{'', CHR ''}''}) \<and>
    (\<forall>i \<in> set is. rowid_in_constraint (constraints info ! i) \<or> search_constraint p (constraints info ! i)) \<and>
    {i. i < length (constraints info) \<and> search_constraint p (constraints info ! i)} \<subseteq> set is"
proof -
  define cs where "cs = constraints info"
  define sel where "sel = (\<lambda>kind i. selects (column_idx_is kind p) (cs ! i))"
  define dis where "dis = (\<lambda>i. selects (\<lambda>col. col = column_distance_idx p) (cs ! i))"
  have one: "(limit_term t = None) \<noteq> (k_term t = None)" using plan by (auto simp: knn_plan_def split: if_splits)
  obtain l r where start: "plan_of p cs (m # l # r) (knn_start info t m)" "constraint_entry p (cs ! m) = ''{___''"
    "constraint_entry p (cs ! l) = ''}___''" "\<forall>i \<in> set r. rowid_in_constraint (cs ! i) \<and> constraint_entry p (cs ! i) = ''[___''"
    "\<And>kind i. kind \<noteq> KIND_VECTOR \<Longrightarrow> i \<in> set (m # l # r) \<Longrightarrow> \<not> sel kind i" "\<And>i. i \<in> set (m # l # r) \<Longrightarrow> \<not> dis i"
    using knn_start_ok [OF t m one] unfolding sel_def dis_def cs_def by metis
  define q1 where "q1 = plan_partitions p cs 0 (knn_start info t m)"
  obtain q2 where q2: "plan_metadata p cs 0 q1 = Inr q2" "plan_distances p cs 0 q2 = Inr q"
    using plan by (auto simp: knn_plan_def q1_def cs_def split: if_splits sum.splits)
  have "\<forall>j \<in> set (m # l # r). selects_partition p (cs ! j) \<longrightarrow> j < length []"
    using start(5) [of KIND_PARTITION] unfolding sel_def selects_partition_def by blast
  from plan_partitions_ok [OF start(1) _ this, of cs] obtain is1 where
    p1: "plan_of p cs ((m # l # r) @ is1) q1" "set is1 = {j. j < length cs \<and> selects_partition p (cs ! j)}" by (auto simp: q1_def)
  then have s1: "plan_of p cs ((m # l # r) @ is1) q1" "\<forall>j \<in> set is1. sel KIND_PARTITION j"
    by (simp_all add: sel_def selects_partition_def)
  have excl: "\<not> (sel KIND_PARTITION i \<and> sel KIND_METADATA i)" "\<not> (sel KIND_PARTITION i \<and> dis i)" "\<not> (sel KIND_METADATA i \<and> dis i)" for i
    using columns_differ(1) [of _ p "iColumn (cs ! i)"] columns_differ(2) [of KIND_PARTITION p "iColumn (cs ! i)" KIND_METADATA]
    by (auto simp: sel_def dis_def selects_def)
  have "\<forall>j \<in> set ((m # l # r) @ is1). selects (column_idx_is KIND_METADATA p) (cs ! j) \<longrightarrow> j < length []"
    using start(5) [of KIND_METADATA] s1(2) excl(1) unfolding sel_def by fastforce
  from plan_metadata_ok [OF s1(1) _ this, of cs] obtain is2 where
    s2: "plan_of p cs (((m # l # r) @ is1) @ is2) q2" "set is2 = {j. j < length cs \<and> sel KIND_METADATA j}"
    using q2(1) by (auto simp: sel_def)
  have "\<forall>j \<in> set (((m # l # r) @ is1) @ is2). selects (\<lambda>col. col = column_distance_idx p) (cs ! j) \<longrightarrow> j < length []"
    using start(6) s1(2) s2(2) excl(2,3) unfolding dis_def by fastforce
  from plan_distances_ok [OF s2(1) _ this, of cs] obtain is3 where
    s3: "plan_of p cs ((((m # l # r) @ is1) @ is2) @ is3) q" "set is3 = {j. j < length cs \<and> dis j}"
    using q2(2) by (auto simp: dis_def)
  have "hd (constraint_entry p (cs ! i)) \<notin> {CHR ''{'', CHR ''}''}" if "i \<in> set (r @ is1 @ is2 @ is3)" for i
  proof -
    have "constraint_entry p (cs ! i) = ''[___'' \<or> sel KIND_PARTITION i \<or> sel KIND_METADATA i \<or> dis i"
      using that start(4) s1(2) s2(2) s3(2) by auto
    then show ?thesis
      using other_entry [of KIND_PARTITION p "cs ! i"] other_entry [of KIND_METADATA p "cs ! i"] distance_entry [of p "cs ! i"]
      by (auto simp: sel_def dis_def)
  qed
  moreover have "rowid_in_constraint (cs ! i) \<or> search_constraint p (cs ! i)" if "i \<in> set (r @ is1 @ is2 @ is3)" for i
    using that start(4) p1(2) s2(2) s3(2) by (auto simp: search_constraint_def sel_def dis_def)
  ultimately show ?thesis using s3 s2(2) p1(2) start(2,3) unfolding cs_def
    by (intro exI [of _ l] exI [of _ "r @ is1 @ is2 @ is3"]) (auto simp: sel_def dis_def cs_def search_constraint_def)
qed

subsection \<open>The plans\<close>

text \<open>
  The arguments \<open>is\<close> of a plan: the constraint numbered \<open>is ! a\<close> is argument \<open>a + 1\<close> and SQLite does not check it
  again, the others are no arguments and left to SQLite.
\<close>

definition arguments_of :: "index_info \<Rightarrow> best_plan \<Rightarrow> nat list \<Rightarrow> bool" where
  "arguments_of info plan is \<longleftrightarrow> distinct is \<and> (\<forall>i \<in> set is. i < length (constraints info) \<and> usable (constraints info ! i)) \<and>
     arg_usage plan = map (\<lambda>i. if i \<in> set is then (Suc (length (takeWhile (\<lambda>j. j \<noteq> i) is)), True) else (0, False))
       [0..<length (constraints info)] \<and>
     set (in_lists plan) \<subseteq> {i \<in> set is. vtab_in (constraints info ! i)}"

text \<open>A plan for a search: the vector, the number of rows, then constraints of the other kinds.\<close>

definition search_plan :: "vec0_vtab \<Rightarrow> index_info \<Rightarrow> best_plan \<Rightarrow> nat list \<Rightarrow> bool" where
  "search_plan p info plan is \<longleftrightarrow> (\<exists>m l rest. is = m # l # rest \<and> matches_vector p (constraints info ! m) \<and>
     idx_num plan = int (column_idx_to_idx p (iColumn (constraints info ! m))) \<and>
     (constraint_op (constraints info ! l) = CONSTRAINT_LIMIT \<or> iColumn (constraints info ! l) = column_k_idx p) \<and>
     idx_str plan = Some (''3{___}___'' @ concat (map (\<lambda>i. constraint_entry p (constraints info ! i)) rest)) \<and>
     (\<forall>i \<in> set rest. hd (constraint_entry p (constraints info ! i)) \<notin> {CHR ''{'', CHR ''}''}) \<and>
     (\<forall>i \<in> set rest. rowid_in_constraint (constraints info ! i) \<or> search_constraint p (constraints info ! i)) \<and>
     (\<forall>i < length (constraints info). search_constraint p (constraints info ! i) \<longrightarrow> i \<in> set rest))"

definition point_plan :: "index_info \<Rightarrow> best_plan \<Rightarrow> nat list \<Rightarrow> bool" where
  "point_plan info plan is \<longleftrightarrow> (\<exists>r. is = [r] \<and> idx_str plan = Some ''2!___'' \<and>
     constraint_op (constraints info ! r) = CONSTRAINT_EQ \<and> iColumn (constraints info ! r) = VEC0_COLUMN_ID)"

lemma takeWhile_nth: "distinct xs \<Longrightarrow> a < length xs \<Longrightarrow> length (takeWhile (\<lambda>j. j \<noteq> xs ! a) xs) = a"
proof (induction xs arbitrary: a)
  case (Cons x xs)
  then show ?case by (cases a) auto
qed simp

lemma arguments_of_plan:
  assumes "plan_of p (constraints info) is q"
    and "arg_usage plan = usage q" and "in_lists plan = whole_lists q"
  shows "arguments_of info plan is"
proof -
  define cs where "cs = constraints info"
  have q: "distinct is" "\<forall>i \<in> set is. i < length cs \<and> usable (cs ! i)" "length (usage q) = length cs"
    "\<forall>a < length is. usage q ! (is ! a) = (a + 1, True)" "\<forall>i < length cs. i \<notin> set is \<longrightarrow> usage q ! i = (0, False)"
    "set (whole_lists q) \<subseteq> {i \<in> set is. vtab_in (cs ! i)}"
    using assms(1) by (simp_all add: plan_of_def cs_def)
  have "usage q = map (\<lambda>i. if i \<in> set is then (Suc (length (takeWhile (\<lambda>j. j \<noteq> i) is)), True) else (0, False)) [0..<length cs]"
  proof (rule nth_equalityI)
    fix i assume i: "i < length (usage q)"
    show "usage q ! i = map (\<lambda>i. if i \<in> set is then (Suc (length (takeWhile (\<lambda>j. j \<noteq> i) is)), True) else (0, False)) [0..<length cs] ! i"
    proof (cases "i \<in> set is")
      case True
      then obtain a where "a < length is" "is ! a = i" by (auto simp: in_set_conv_nth)
      then show ?thesis using True i q(1,3,4) takeWhile_nth [of "is" a] by auto
    next
      case False
      then show ?thesis using i q(3,5) by simp
    qed
  qed (use q(3) in simp)
  then show ?thesis using q(1,2,6) assms(2,3) by (simp add: arguments_of_def cs_def)
qed

lemma best_plan_ok:
  assumes "vec0BestIndex p info True = Inr plan"
  shows "\<exists>is. arguments_of info plan is \<and>
    (search_plan p info plan is \<or> point_plan info plan is \<or> is = [] \<and> idx_str plan = Some ''1'')"
proof -
  define cs where "cs = constraints info"
  obtain t where t: "scan_terms p cs 0 no_terms = Inr t"
    using assms by (auto simp: vec0BestIndex_def cs_def Let_def split: sum.splits)
  have "terms_ok p cs no_terms" by (simp add: terms_ok_def is_term_def no_terms_def)
  then have ok: "terms_ok p cs t" using scan_terms_ok [of p cs no_terms "[]" cs t] t by simp
  have none: "arg_usage plan = replicate (length cs) (0, False) \<Longrightarrow> in_lists plan = [] \<Longrightarrow> arguments_of info plan []"
    by (simp add: arguments_of_def cs_def map_replicate_const)
  show ?thesis
  proof (cases "match_term t")
    case (Some m)
    obtain q where q: "knn_plan p info t m = Inr q" "idx_num plan = match_vector t" "idx_str plan = Some (plan_str q)"
      "arg_usage plan = usage q" "in_lists plan = whole_lists q"
      using assms t Some by (cases "knn_plan p info t m") (auto simp: vec0BestIndex_def cs_def Let_def)
    have ok': "terms_ok p (constraints info) t" using ok by (simp add: cs_def)
    obtain l rest where plan: "plan_of p cs (m # l # rest) q" "constraint_entry p (cs ! m) = ''{___''" "constraint_entry p (cs ! l) = ''}___''"
      "\<forall>i \<in> set rest. hd (constraint_entry p (cs ! i)) \<notin> {CHR ''{'', CHR ''}''}"
      "\<forall>i \<in> set rest. rowid_in_constraint (cs ! i) \<or> search_constraint p (cs ! i)"
      "{i. i < length cs \<and> search_constraint p (cs ! i)} \<subseteq> set rest"
      using knn_plan_ok [OF ok' Some q(1)] unfolding cs_def by (elim exE conjE)
    have "matches_vector p (cs ! m)" "match_vector t = int (column_idx_to_idx p (iColumn (cs ! m)))"
      using ok Some by (simp_all add: terms_ok_def is_term_def)
    moreover have "plan_str q = ''3{___}___'' @ concat (map (\<lambda>i. constraint_entry p (cs ! i)) rest)"
      using plan(1-3) by (simp add: plan_of_def)
    moreover have "constraint_op (cs ! l) = CONSTRAINT_LIMIT \<or> iColumn (cs ! l) = column_k_idx p"
      using plan(3) by (auto simp: constraint_entry_def Let_def split: if_splits)
    ultimately have "search_plan p info plan (m # l # rest)"
      using plan(4-6) q(2,3) unfolding search_plan_def cs_def [symmetric] by auto
    then show ?thesis using arguments_of_plan [OF _ q(4,5)] plan(1) cs_def by blast
  next
    case None
    show ?thesis
    proof (cases "rowid_term t")
      case None
      then show ?thesis using none assms t \<open>match_term t = None\<close> by (auto simp: vec0BestIndex_def cs_def Let_def)
    next
      case (Some r)
      then have r: "r < length cs" "usable (cs ! r)" "constraint_op (cs ! r) = CONSTRAINT_EQ" "iColumn (cs ! r) = VEC0_COLUMN_ID"
        using ok by (simp_all add: terms_ok_def is_term_def)
      have plan: "idx_str plan = Some ''2!___''" "arg_usage plan = (replicate (length cs) (0, False))[r := (1, True)]" "in_lists plan = []"
        using assms t None Some by (auto simp: vec0BestIndex_def cs_def Let_def)
      have "(replicate (length cs) (0, False))[r := (1, True)] =
          map (\<lambda>i. if i \<in> set [r] then (Suc (length (takeWhile (\<lambda>j. j \<noteq> i) [r])), True) else (0, False)) [0..<length cs]"
        by (rule nth_equalityI) (simp_all add: nth_list_update)
      then have "arguments_of info plan [r]" using plan(2,3) r(1,2) by (simp add: arguments_of_def cs_def)
      moreover have "point_plan info plan [r]" using plan(1) r by (simp add: point_plan_def cs_def)
      ultimately show ?thesis by blast
    qed
  qed
qed

lemma entries_length: "length (concat (map (\<lambda>i. constraint_entry p (cs ! i)) xs)) = 4 * length xs"
  by (induction xs) (simp_all add: length_entry)

lemma search_plan_length: "search_plan p info plan is \<Longrightarrow> \<exists>str. idx_str plan = Some str \<and> length str = 1 + 4 * length is"
  by (auto simp: search_plan_def entries_length)

end
