(* ===== verification/VecRows.thy ===== *)
theory VecRows
  imports VecTable VecFilter VecSelect
begin

text \<open>
  Rows of a \<^verbatim>\<open>vec0\<close> table (\<^verbatim>\<open>crates/cli/vendor-sqlite-vec/sqlite-vec.c\<close>): an insert takes a row id, finds the
  first free place of the latest chunk of the row's partition or makes a new chunk, sets the validity bit, and writes
  the vectors and the row id at that place; a delete clears the bit and forgets the row id. The SQL statements on the
  shadow tables are the fields of \<open>row_api\<close>, beside the blob calls of \<open>sqlite_api\<close>. Outer \<open>None\<close>: a failed
  \<^verbatim>\<open>assert\<close>, an access out of bounds or through a null pointer.
\<close>

abbreviation (input) SQLITE_EMPTY :: int where "SQLITE_EMPTY \<equiv> 16"
abbreviation (input) SQLITE_CONSTRAINT :: int where "SQLITE_CONSTRAINT \<equiv> 19"
abbreviation (input) SQLITE_NULL :: int where "SQLITE_NULL \<equiv> 5"

datatype row_sql =
  Sql_latest_chunk | Sql_insert_chunk | Sql_insert_blob | Sql_insert_rowid | Sql_insert_id | Sql_update_position
| Sql_select_position | Sql_rowid_of_id | Sql_delete_rowid | Sql_insert_aux | Sql_update_aux | Sql_delete_aux

text \<open>
  \<open>row_prepare\<close> is what building and preparing a statement gives; the others are its execution, with the last row id
  where the code asks for it.
\<close>

record ('db, 'g) row_api =
  row_prepare :: "'db \<Rightarrow> row_sql \<Rightarrow> int"
  max_chunk :: "'db \<Rightarrow> 'g sqlite_value list \<Rightarrow> int + int option"
  insert_chunk :: "'db \<Rightarrow> nat \<Rightarrow> nat \<Rightarrow> nat \<Rightarrow> 'g sqlite_value list \<Rightarrow> int \<times> int \<times> 'db"
  insert_zeroblob :: "'db \<Rightarrow> blob_column \<Rightarrow> int \<Rightarrow> nat \<Rightarrow> int \<times> 'db"
  insert_rowid :: "'db \<Rightarrow> int \<Rightarrow> int \<times> 'db"
  insert_id :: "'db \<Rightarrow> 'g sqlite_value option \<Rightarrow> int \<times> int \<times> 'db"
  update_position :: "'db \<Rightarrow> int \<Rightarrow> int \<Rightarrow> nat \<Rightarrow> int \<times> 'db"
  select_position :: "'db \<Rightarrow> int \<Rightarrow> int + (int \<times> nat) option"
  select_rowid :: "'db \<Rightarrow> 'g sqlite_value \<Rightarrow> int + int option"
  delete_rowid :: "'db \<Rightarrow> int \<Rightarrow> int \<times> 'db"
  insert_aux :: "'db \<Rightarrow> int \<Rightarrow> 'g sqlite_value list \<Rightarrow> int \<times> 'db"
  update_aux :: "'db \<Rightarrow> nat \<Rightarrow> 'g sqlite_value \<Rightarrow> int \<Rightarrow> int \<times> 'db"
  delete_aux :: "'db \<Rightarrow> int \<Rightarrow> int \<times> 'db"

type_synonym 'a keyed = "nat \<Rightarrow> 'a option"

subsection \<open>Single statements\<close>

definition vec0_get_chunk_position :: "('db, 'g) row_api \<Rightarrow> 'db \<Rightarrow> int \<Rightarrow> int + int \<times> nat" where
  "vec0_get_chunk_position R db rowid =
     (let prc = row_prepare R db Sql_select_position
      in if prc \<noteq> SQLITE_OK then Inl prc
         else case select_position R db rowid of
           Inl rc \<Rightarrow> Inl rc
         | Inr None \<Rightarrow> Inl SQLITE_EMPTY
         | Inr (Some pos) \<Rightarrow> Inr pos)"

definition vec0_rowid_from_id :: "('db, 'g) row_api \<Rightarrow> 'db \<Rightarrow> 'g sqlite_value \<Rightarrow> int + int" where
  "vec0_rowid_from_id R db v =
     (let prc = row_prepare R db Sql_rowid_of_id
      in if prc \<noteq> SQLITE_OK then Inl prc
         else case select_rowid R db v of
           Inl rc \<Rightarrow> Inl rc
         | Inr None \<Rightarrow> Inl SQLITE_EMPTY
         | Inr (Some rowid) \<Rightarrow> Inr rowid)"

definition vec0_rowids_insert_rowid :: "('db, 'g) row_api \<Rightarrow> 'db \<Rightarrow> int \<Rightarrow> int \<times> 'db" where
  "vec0_rowids_insert_rowid R db rowid =
     (let prc = row_prepare R db Sql_insert_rowid
      in if prc \<noteq> SQLITE_OK then (prc, db)
         else let (rc, db') = insert_rowid R db rowid
              in (if rc \<noteq> SQLITE_DONE then SQLITE_ERROR else SQLITE_OK, db'))"

definition vec0_rowids_insert_id :: "('db, 'g) row_api \<Rightarrow> 'db \<Rightarrow> 'g sqlite_value option \<Rightarrow> (int + int) \<times> 'db" where
  "vec0_rowids_insert_id R db idValue =
     (let prc = row_prepare R db Sql_insert_id
      in if prc \<noteq> SQLITE_OK then (Inl prc, db)
         else let (rc, rowid, db') = insert_id R db idValue
              in (if rc \<noteq> SQLITE_DONE then Inl SQLITE_ERROR else Inr rowid, db'))"

definition vec0_rowids_update_position :: "('db, 'g) row_api \<Rightarrow> 'db \<Rightarrow> int \<Rightarrow> int \<Rightarrow> nat \<Rightarrow> int \<times> 'db" where
  "vec0_rowids_update_position R db rowid chunk_rowid chunk_offset =
     (let prc = row_prepare R db Sql_update_position
      in if prc \<noteq> SQLITE_OK then (prc, db)
         else let (rc, db') = update_position R db rowid chunk_rowid chunk_offset
              in (if rc \<noteq> SQLITE_DONE then SQLITE_ERROR else SQLITE_OK, db'))"

definition vec0_get_latest_chunk_rowid ::
  "('db, 'g) row_api \<Rightarrow> 'db \<Rightarrow> vec0_vtab \<Rightarrow> 'g sqlite_value keyed \<Rightarrow> (int + int) option" where
  "vec0_get_latest_chunk_rowid R db p keys =
     (let prc = row_prepare R db Sql_latest_chunk
      in if prc \<noteq> SQLITE_OK then Some (Inl prc)
         else do {
           vs \<leftarrow> those (map keys [0..<length (partition_columns p)]);
           Some (case max_chunk R db vs of
               Inl rc \<Rightarrow> Inl SQLITE_ERROR
             | Inr None \<Rightarrow> Inl SQLITE_EMPTY
             | Inr (Some chunk) \<Rightarrow> Inr chunk)
         })"

text \<open>\<^verbatim>\<open>vec0Update_InsertRowidStep\<close>; a type other than text, integer or null is refused.\<close>

definition vec0Update_InsertRowidStep ::
  "('db, 'g) row_api \<Rightarrow> 'db \<Rightarrow> vec0_vtab \<Rightarrow> 'g sqlite_value \<Rightarrow> (int + int) \<times> 'db" where
  "vec0Update_InsertRowidStep R db p idValue =
     (if pk_is_text p
      then if value_type idValue \<noteq> SQLITE_TEXT then (Inl SQLITE_ERROR, db) else vec0_rowids_insert_id R db (Some idValue)
      else if value_type idValue = SQLITE_INTEGER
      then let (rc, db') = vec0_rowids_insert_rowid R db (value_int64 idValue)
           in (if rc = SQLITE_OK then Inr (value_int64 idValue) else Inl rc, db')
      else if value_type idValue \<noteq> SQLITE_NULL then (Inl SQLITE_ERROR, db)
      else vec0_rowids_insert_id R db None)"

subsection \<open>Chunks\<close>

definition column_byte_size :: "vector_column \<Rightarrow> nat" where
  "column_byte_size c = vector_byte_size (col_element_type c) (col_dimensions c)"

text \<open>The blank blobs of a new chunk, for the columns of one kind.\<close>

fun insert_blobs ::
  "('db, 'g) row_api \<Rightarrow> vec0_vtab \<Rightarrow> user_column_kind \<Rightarrow> (nat \<Rightarrow> (blob_column \<times> nat) option) \<Rightarrow> int \<Rightarrow> nat list \<Rightarrow> 'db \<Rightarrow>
     (int \<times> 'db) option" where
  "insert_blobs R p kind blob rowid [] db = Some (SQLITE_OK, db)"
| "insert_blobs R p kind blob rowid (i # is) db =
     (if user_column_kinds p ! i \<noteq> kind then insert_blobs R p kind blob rowid is db
      else do {
        (column, sz) \<leftarrow> blob (user_column_idxs p ! i);
        let prc = row_prepare R db Sql_insert_blob;
        if prc \<noteq> SQLITE_OK then Some (prc, db)
        else let (rc, db') = insert_zeroblob R db column rowid sz
             in if rc \<noteq> SQLITE_DONE then Some (rc, db') else insert_blobs R p kind blob rowid is db'
      })"

definition vector_blob :: "vec0_vtab \<Rightarrow> nat \<Rightarrow> (blob_column \<times> nat) option" where
  "vector_blob p i = map_option (\<lambda>c. (Vectors i, table_chunk_size p * column_byte_size c)) (item_at (vector_columns p) i)"

definition metadata_blob :: "vec0_vtab \<Rightarrow> nat \<Rightarrow> (blob_column \<times> nat) option" where
  "metadata_blob p i = map_option (\<lambda>k. (Metadata_data i, vec0_metadata_chunk_size k (table_chunk_size p))) (item_at (metadata_columns p) i)"

definition vec0_new_chunk ::
  "('db, 'g) row_api \<Rightarrow> 'db \<Rightarrow> vec0_vtab \<Rightarrow> 'g sqlite_value keyed \<Rightarrow> ((int + int) \<times> 'db) option" where
  "vec0_new_chunk R db p keys =
     (let n = table_chunk_size p; prc = row_prepare R db Sql_insert_chunk; columns = [0..<num_defined_user_columns p]
      in if prc \<noteq> SQLITE_OK then Some (Inl prc, db)
         else do {
           vs \<leftarrow> those (map keys [0..<length (partition_columns p)]);
           let (rc, rowid, db1) = insert_chunk R db n (n div CHAR_BIT) (n * 8) vs;
           if rc \<noteq> SQLITE_DONE then Some (Inl SQLITE_ERROR, db1)
           else do {
             (rc2, db2) \<leftarrow> insert_blobs R p KIND_VECTOR (vector_blob p) rowid columns db1;
             if rc2 \<noteq> SQLITE_OK then Some (Inl rc2, db2)
             else do {
               (rc3, db3) \<leftarrow> insert_blobs R p KIND_METADATA (metadata_blob p) rowid columns db2;
               Some (if rc3 \<noteq> SQLITE_OK then Inl rc3 else Inr rowid, db3)
             }
           }
         })"

subsection \<open>The next free place\<close>

text \<open>The first \<^verbatim>\<open>0\<close> of the validity bitmap, byte \<open>i\<close> on.\<close>

fun free_place :: "byte list \<Rightarrow> nat \<Rightarrow> nat option" where
  "free_place [] i = None"
| "free_place (w # ws) i =
     (if w = 0xFF then free_place ws (i + 1)
      else case find (\<lambda>j. and (drop_bit j w) 1 = 0) [0..<CHAR_BIT] of
        Some j \<Rightarrow> Some (i * CHAR_BIT + j)
      | None \<Rightarrow> free_place ws (i + 1))"

text \<open>A place: the chunk, the offset and a copy of the chunk's validity bitmap, if there is one.\<close>

definition new_chunk_place ::
  "'db sqlite_api \<Rightarrow> ('db, 'g) row_api \<Rightarrow> 'db \<Rightarrow> vec0_vtab \<Rightarrow> 'g sqlite_value keyed \<Rightarrow> bool \<Rightarrow>
     ((int \<times> 'db) + (int \<times> nat \<times> byte list option \<times> 'db)) option" where
  "new_chunk_place S R db p keys opened = do {
     (r, db1) \<leftarrow> vec0_new_chunk R db p keys;
     case r of
       Inl _ \<Rightarrow> Some (Inl (SQLITE_ERROR, db1))
     | Inr chunk \<Rightarrow>
         if opened \<and> blob_close S db1 \<noteq> SQLITE_OK then Some (Inl (SQLITE_ERROR, db1))
         else let rc = blob_open S db1 Chunks_validity chunk; sz = blob_bytes S db1 Chunks_validity chunk
              in if rc \<noteq> SQLITE_OK then Some (Inl (rc, db1))
                 else if sz \<noteq> table_chunk_size p div CHAR_BIT then Some (Inr (chunk, 0, None, db1))
                 else if \<not> malloc S db1 sz then None
                 else case blob_read S db1 Chunks_validity chunk 0 sz of
                   Inl rc \<Rightarrow> Some (Inl (rc, db1))
                 | Inr bytes \<Rightarrow> Some (Inr (chunk, 0, Some bytes, db1))
   }"

definition vec0Update_InsertNextAvailableStep ::
  "'db sqlite_api \<Rightarrow> ('db, 'g) row_api \<Rightarrow> 'db \<Rightarrow> vec0_vtab \<Rightarrow> 'g sqlite_value keyed \<Rightarrow>
     ((int \<times> 'db) + (int \<times> nat \<times> byte list option \<times> 'db)) option" where
  "vec0Update_InsertNextAvailableStep S R db p keys = do {
     latest \<leftarrow> vec0_get_latest_chunk_rowid R db p keys;
     case latest of
       Inl rc \<Rightarrow> if rc = SQLITE_EMPTY then new_chunk_place S R db p keys False else Some (Inl (rc, db))
     | Inr chunk \<Rightarrow>
         let rc = blob_open S db Chunks_validity chunk; sz = blob_bytes S db Chunks_validity chunk
         in if rc \<noteq> SQLITE_OK then Some (Inl (rc, db))
            else if sz \<noteq> table_chunk_size p div CHAR_BIT then Some (Inl (SQLITE_ERROR, db))
            else if \<not> malloc S db sz then Some (Inl (SQLITE_NOMEM, db))
            else case blob_read S db Chunks_validity chunk 0 sz of
              Inl rc \<Rightarrow> Some (Inl (rc, db))
            | Inr bytes \<Rightarrow>
                (case free_place bytes 0 of
                   Some offset \<Rightarrow> Some (Inr (chunk, offset, Some bytes, db))
                 | None \<Rightarrow> new_chunk_place S R db p keys True)
   }"

subsection \<open>Writing the row\<close>

definition vec0_write_vector_to_vector_blob ::
  "'db sqlite_api \<Rightarrow> 'db \<Rightarrow> nat \<Rightarrow> int \<Rightarrow> nat \<Rightarrow> byte list \<Rightarrow> nat \<Rightarrow> vector_element_type \<Rightarrow> (int \<times> 'db) option" where
  "vec0_write_vector_to_vector_blob S db column chunk chunk_offset bVector dims element_type =
     (let (n, offset) = (case element_type of
            FLOAT32 \<Rightarrow> (dims * 4, chunk_offset * dims * 4)
          | INT8 \<Rightarrow> (dims * 1, chunk_offset * dims * 1)
          | BIT \<Rightarrow> (dims div CHAR_BIT, chunk_offset * dims div CHAR_BIT))
      in map_option (\<lambda>bytes. blob_write S db (Vectors column) chunk bytes offset) (bytes_at bVector 0 n))"

fun write_vectors ::
  "'db sqlite_api \<Rightarrow> vec0_vtab \<Rightarrow> int \<Rightarrow> nat \<Rightarrow> byte list keyed \<Rightarrow> nat list \<Rightarrow> 'db \<Rightarrow> (int \<times> 'db) option" where
  "write_vectors S p chunk chunk_offset datas [] db = Some (SQLITE_OK, db)"
| "write_vectors S p chunk chunk_offset datas (i # is) db = do {
     c \<leftarrow> item_at (vector_columns p) i;
     data \<leftarrow> datas i;
     let rc = blob_open S db (Vectors i) chunk;
     if rc \<noteq> SQLITE_OK then Some (rc, db)
     else if blob_bytes S db (Vectors i) chunk \<noteq> table_chunk_size p * column_byte_size c then Some (SQLITE_ERROR, db)
     else do {
       (rc, db') \<leftarrow> vec0_write_vector_to_vector_blob S db i chunk chunk_offset data (col_dimensions c) (col_element_type c);
       if rc \<noteq> SQLITE_OK then Some (SQLITE_ERROR, db')
       else if blob_close S db' \<noteq> SQLITE_OK then Some (SQLITE_ERROR, db')
       else write_vectors S p chunk chunk_offset datas is db'
     }
   }"

definition write_rowid :: "'db sqlite_api \<Rightarrow> ('db, 'g) row_api \<Rightarrow> vec0_vtab \<Rightarrow> int \<Rightarrow> nat \<Rightarrow> int \<Rightarrow> 'db \<Rightarrow> int \<times> 'db" where
  "write_rowid S R p chunk chunk_offset rowid db =
     (let rc = blob_open S db Chunks_rowids chunk
      in if rc \<noteq> SQLITE_OK then (rc, db)
         else if table_chunk_size p * 8 \<noteq> blob_bytes S db Chunks_rowids chunk then (SQLITE_ERROR, db)
         else let (rc1, db1) = blob_write S db Chunks_rowids chunk (i64_bytes rowid) (chunk_offset * 8)
              in if rc1 \<noteq> SQLITE_OK then (SQLITE_ERROR, db1)
                 else let (rc2, db2) = vec0_rowids_update_position R db1 rowid chunk chunk_offset
                      in (if rc2 = SQLITE_OK then blob_close S db2 else rc2, db2))"

definition vec0Update_InsertWriteFinalStep ::
  "'db sqlite_api \<Rightarrow> ('db, 'g) row_api \<Rightarrow> vec0_vtab \<Rightarrow> int \<Rightarrow> nat \<Rightarrow> int \<Rightarrow> byte list keyed \<Rightarrow> byte list option \<Rightarrow> 'db \<Rightarrow>
     (int \<times> 'db) option" where
  "vec0Update_InsertWriteFinalStep S R p chunk chunk_offset rowid datas buffer db = do {
     validity \<leftarrow> buffer;
     bx \<leftarrow> item_at validity (chunk_offset div CHAR_BIT);
     let (rc, db1) = blob_write S db Chunks_validity chunk [or bx (push_bit (chunk_offset mod CHAR_BIT) 1)] (chunk_offset div CHAR_BIT);
     if rc \<noteq> SQLITE_OK then Some (rc, db1)
     else do {
       (rc2, db2) \<leftarrow> write_vectors S p chunk chunk_offset datas [0..<length (vector_columns p)] db1;
       Some (if rc2 \<noteq> SQLITE_OK then (rc2, db2) else write_rowid S R p chunk chunk_offset rowid db2)
     }
   }"

subsection \<open>Inserting a row\<close>

text \<open>
  The arguments of an insert: the id, the values of the user columns in order and those of the hidden columns.
  \<^verbatim>\<open>vector_from_value\<close> is not modelled: \<open>decoded\<close> is what it gives for the value of a vector column, an error
  or the element type, the dimensions and the bytes.
\<close>

record 'g insert_row =
  id_value :: "'g sqlite_value"
  column_values :: "'g sqlite_value list"
  decoded :: "nat \<Rightarrow> int + vector_element_type \<times> nat \<times> byte list"
  distance_value :: "'g sqlite_value"
  k_value :: "'g sqlite_value"

fun read_typed_values ::
  "vec0_vtab \<Rightarrow> user_column_kind \<Rightarrow> int list \<Rightarrow> int \<Rightarrow> 'g sqlite_value list \<Rightarrow> nat list \<Rightarrow> 'g sqlite_value keyed \<Rightarrow>
     (int + 'g sqlite_value keyed) option" where
  "read_typed_values p kind types error values [] keys = Some (Inr keys)"
| "read_typed_values p kind types error values (i # is) keys =
     (if user_column_kinds p ! i \<noteq> kind then read_typed_values p kind types error values is keys
      else do {
        let idx = user_column_idxs p ! i;
        v \<leftarrow> item_at values i;
        type \<leftarrow> item_at types idx;
        if value_type v \<noteq> SQLITE_NULL \<and> value_type v \<noteq> type then Some (Inl error)
        else read_typed_values p kind types error values is (keys(idx \<mapsto> v))
      })"

definition read_partition_keys :: "vec0_vtab \<Rightarrow> 'g sqlite_value list \<Rightarrow> (int + 'g sqlite_value keyed) option" where
  "read_partition_keys p values =
     read_typed_values p KIND_PARTITION (partition_columns p) SQLITE_ERROR values [0..<num_defined_user_columns p] Map.empty"

text \<open>
  The message about a vector of another element type is made from \<^verbatim>\<open>p->vector_columns[i]\<close>, where \<open>i\<close> counts all user
  columns and the array has \<^verbatim>\<open>VEC0_MAX_VECTOR_COLUMNS\<close> (16) entries: from the 17th user column on this is a read behind
  the array, \<open>None\<close>. The other two messages use the number of the vector column.
\<close>

fun read_vectors ::
  "vec0_vtab \<Rightarrow> (nat \<Rightarrow> int + vector_element_type \<times> nat \<times> byte list) \<Rightarrow> nat list \<Rightarrow> byte list keyed \<Rightarrow>
     (int + byte list keyed) option" where
  "read_vectors p given [] datas = Some (Inr datas)"
| "read_vectors p given (i # is) datas =
     (if user_column_kinds p ! i \<noteq> KIND_VECTOR then read_vectors p given is datas
      else case given i of
        Inl _ \<Rightarrow> Some (Inl SQLITE_ERROR)
      | Inr (element_type, dims, bytes) \<Rightarrow> do {
          let idx = user_column_idxs p ! i;
          c \<leftarrow> item_at (vector_columns p) idx;
          if element_type \<noteq> col_element_type c then if i < 16 then Some (Inl SQLITE_ERROR) else None
          else if dims \<noteq> col_dimensions c then Some (Inl SQLITE_ERROR)
          else read_vectors p given is (datas(idx \<mapsto> bytes))
        })"

definition insert_auxiliary ::
  "('db, 'g) row_api \<Rightarrow> 'db \<Rightarrow> vec0_vtab \<Rightarrow> int \<Rightarrow> 'g sqlite_value list \<Rightarrow> (int \<times> 'db) option" where
  "insert_auxiliary R db p rowid values =
     (if length (auxiliary_columns p) = 0 then Some (SQLITE_OK, db)
      else let prc = row_prepare R db Sql_insert_aux
           in if prc \<noteq> SQLITE_OK then Some (prc, db)
              else do {
                r \<leftarrow> read_typed_values p KIND_AUXILIARY (auxiliary_columns p) SQLITE_CONSTRAINT values
                  [0..<num_defined_user_columns p] Map.empty;
                case r of
                  Inl rc \<Rightarrow> Some (rc, db)
                | Inr keys \<Rightarrow> do {
                    vs \<leftarrow> those (map keys [0..<length (auxiliary_columns p)]);
                    let (rc, db') = insert_aux R db rowid vs;
                    Some (if rc \<noteq> SQLITE_DONE then SQLITE_ERROR else SQLITE_OK, db')
                  }
              })"

fun write_metadata_values ::
  "'db sqlite_api \<Rightarrow> 'g double_api \<Rightarrow> vec0_vtab \<Rightarrow> int \<Rightarrow> int \<Rightarrow> nat \<Rightarrow> 'g sqlite_value list \<Rightarrow> nat list \<Rightarrow> 'db \<Rightarrow>
     (int \<times> 'db) option" where
  "write_metadata_values S D p rowid chunk chunk_offset values [] db = Some (SQLITE_OK, db)"
| "write_metadata_values S D p rowid chunk chunk_offset values (i # is) db =
     (if user_column_kinds p ! i \<noteq> KIND_METADATA then write_metadata_values S D p rowid chunk chunk_offset values is db
      else do {
        let idx = user_column_idxs p ! i;
        v \<leftarrow> item_at values i;
        kind \<leftarrow> item_at (metadata_columns p) idx;
        (rc, db') \<leftarrow> vec0_write_metadata_value S D db kind idx rowid chunk chunk_offset v False;
        if rc \<noteq> SQLITE_OK then Some (rc, db')
        else write_metadata_values S D p rowid chunk chunk_offset values is db'
      })"

text \<open>The steps that follow the checks of the values; the result is the code, the row id and the database.\<close>

definition insert_steps ::
  "'db sqlite_api \<Rightarrow> ('db, 'g) row_api \<Rightarrow> 'g double_api \<Rightarrow> vec0_vtab \<Rightarrow> 'g insert_row \<Rightarrow> 'g sqlite_value keyed \<Rightarrow>
     byte list keyed \<Rightarrow> 'db \<Rightarrow> ((int + int) \<times> 'db) option" where
  "insert_steps S R D p row keys datas db =
     (case vec0Update_InsertRowidStep R db p (id_value row) of
        (Inl rc, db1) \<Rightarrow> Some (Inl rc, db1)
      | (Inr rowid, db1) \<Rightarrow> do {
          place \<leftarrow> vec0Update_InsertNextAvailableStep S R db1 p keys;
          case place of
            Inl (rc, db2) \<Rightarrow> Some (Inl rc, db2)
          | Inr (chunk, chunk_offset, buffer, db2) \<Rightarrow> do {
              (rc3, db3) \<leftarrow> vec0Update_InsertWriteFinalStep S R p chunk chunk_offset rowid datas buffer db2;
              if rc3 \<noteq> SQLITE_OK then Some (Inl rc3, db3)
              else do {
                (rc4, db4) \<leftarrow> insert_auxiliary R db3 p rowid (column_values row);
                if rc4 \<noteq> SQLITE_OK then Some (Inl rc4, db4)
                else do {
                  (rc5, db5) \<leftarrow> write_metadata_values S D p rowid chunk chunk_offset (column_values row)
                    [0..<num_defined_user_columns p] db4;
                  Some (if rc5 \<noteq> SQLITE_OK then Inl rc5
                        else if blob_close S db5 \<noteq> SQLITE_OK then Inl (blob_close S db5) else Inr rowid, db5)
                }
              }
            }
        })"

definition vec0Update_Insert ::
  "'db sqlite_api \<Rightarrow> ('db, 'g) row_api \<Rightarrow> 'g double_api \<Rightarrow> vec0_vtab \<Rightarrow> 'g insert_row \<Rightarrow> 'db \<Rightarrow> ((int + int) \<times> 'db) option" where
  "vec0Update_Insert S R D p row db = do {
     keys \<leftarrow> read_partition_keys p (column_values row);
     case keys of
       Inl rc \<Rightarrow> Some (Inl rc, db)
     | Inr keys \<Rightarrow> do {
         datas \<leftarrow> read_vectors p (decoded row) [0..<num_defined_user_columns p] Map.empty;
         case datas of
           Inl rc \<Rightarrow> Some (Inl rc, db)
         | Inr datas \<Rightarrow>
             if value_type (distance_value row) \<noteq> SQLITE_NULL then Some (Inl SQLITE_ERROR, db)
             else if value_type (k_value row) \<noteq> SQLITE_NULL then Some (Inl SQLITE_ERROR, db)
             else insert_steps S R D p row keys datas db
       }
   }"

subsection \<open>Reading a vector and deleting a row\<close>

definition vec0_get_vector_data ::
  "'db sqlite_api \<Rightarrow> ('db, 'g) row_api \<Rightarrow> 'db \<Rightarrow> vec0_vtab \<Rightarrow> int \<Rightarrow> nat \<Rightarrow> (int + byte list) option" where
  "vec0_get_vector_data S R db p rowid column = do {
     c \<leftarrow> item_at (vector_columns p) column;
     Some (case vec0_get_chunk_position R db rowid of
         Inl rc \<Rightarrow> Inl rc
       | Inr (chunk, chunk_offset) \<Rightarrow>
           if blob_open S db (Vectors column) chunk \<noteq> SQLITE_OK then Inl SQLITE_ERROR
           else let sz = column_byte_size c
                in if \<not> malloc S db sz then Inl SQLITE_NOMEM
                   else case blob_read S db (Vectors column) chunk (chunk_offset * sz) sz of
                     Inl _ \<Rightarrow> Inl SQLITE_ERROR
                   | Inr bytes \<Rightarrow> if blob_close S db \<noteq> SQLITE_OK then Inl (blob_close S db) else Inr bytes)
   }"

definition vec0Update_Delete_ClearValidity :: "'db sqlite_api \<Rightarrow> 'db \<Rightarrow> int \<Rightarrow> nat \<Rightarrow> (int \<times> 'db) option" where
  "vec0Update_Delete_ClearValidity S db chunk chunk_offset =
     (if blob_open S db Chunks_validity chunk \<noteq> SQLITE_OK then Some (SQLITE_ERROR, db)
      else case blob_read S db Chunks_validity chunk (chunk_offset div CHAR_BIT) 1 of
        Inl rc \<Rightarrow> Some (rc, db)
      | Inr [bx] \<Rightarrow>
          if drop_bit (chunk_offset mod CHAR_BIT) bx = 0 then Some (SQLITE_ERROR, db)
          else let (rc, db') = blob_write S db Chunks_validity chunk [and bx (not (push_bit (chunk_offset mod CHAR_BIT) 1))]
                     (chunk_offset div CHAR_BIT)
               in Some (if rc \<noteq> SQLITE_OK then rc else blob_close S db', db')
      | Inr _ \<Rightarrow> None)"

definition vec0Update_Delete_DeleteRowids :: "('db, 'g) row_api \<Rightarrow> 'db \<Rightarrow> int \<Rightarrow> int \<times> 'db" where
  "vec0Update_Delete_DeleteRowids R db rowid =
     (let prc = row_prepare R db Sql_delete_rowid
      in if prc \<noteq> SQLITE_OK then (prc, db)
         else let (rc, db') = delete_rowid R db rowid in (if rc \<noteq> SQLITE_DONE then rc else SQLITE_OK, db'))"

definition vec0Update_Delete_DeleteAux :: "('db, 'g) row_api \<Rightarrow> 'db \<Rightarrow> int \<Rightarrow> int \<times> 'db" where
  "vec0Update_Delete_DeleteAux R db rowid =
     (let prc = row_prepare R db Sql_delete_aux
      in if prc \<noteq> SQLITE_OK then (prc, db)
         else let (rc, db') = delete_aux R db rowid in (if rc \<noteq> SQLITE_DONE then rc else SQLITE_OK, db'))"

text \<open>The metadata values of a deleted row; the result codes are not looked at.\<close>

fun clear_metadata_values ::
  "'db sqlite_api \<Rightarrow> 'g double_api \<Rightarrow> int \<Rightarrow> int \<Rightarrow> nat \<Rightarrow> metadata_kind list \<Rightarrow> nat \<Rightarrow> 'db \<Rightarrow> 'db option" where
  "clear_metadata_values S D rowid chunk chunk_offset [] i db = Some db"
| "clear_metadata_values S D rowid chunk chunk_offset (kind # kinds) i db = do {
     (rc, db') \<leftarrow> vec0Update_Delete_ClearMetadata S D db kind i rowid chunk chunk_offset;
     clear_metadata_values S D rowid chunk chunk_offset kinds (i + 1) db'
   }"

definition vec0Update_Delete ::
  "'db sqlite_api \<Rightarrow> ('db, 'g) row_api \<Rightarrow> 'g double_api \<Rightarrow> vec0_vtab \<Rightarrow> 'g sqlite_value \<Rightarrow> 'db \<Rightarrow> (int \<times> 'db) option" where
  "vec0Update_Delete S R D p idValue db =
     (case (if pk_is_text p then vec0_rowid_from_id R db idValue else Inr (value_int64 idValue)) of
        Inl rc \<Rightarrow> Some (rc, db)
      | Inr rowid \<Rightarrow>
          (case vec0_get_chunk_position R db rowid of
             Inl rc \<Rightarrow> Some (rc, db)
           | Inr (chunk, chunk_offset) \<Rightarrow> do {
               (rc1, db1) \<leftarrow> vec0Update_Delete_ClearValidity S db chunk chunk_offset;
               if rc1 \<noteq> SQLITE_OK then Some (rc1, db1)
               else let (rc2, db2) = vec0Update_Delete_DeleteRowids R db1 rowid
                    in if rc2 \<noteq> SQLITE_OK then Some (rc2, db2)
                       else let (rc3, db3) = (if length (auxiliary_columns p) > 0 then vec0Update_Delete_DeleteAux R db2 rowid
                                              else (SQLITE_OK, db2))
                            in if rc3 \<noteq> SQLITE_OK then Some (rc3, db3)
                               else map_option (\<lambda>db4. (SQLITE_OK, db4))
                                 (clear_metadata_values S D rowid chunk chunk_offset (metadata_columns p) 0 db3)
             }))"

subsection \<open>Updating a row\<close>

text \<open>
  The arguments of an update: the old and the new id, and for each user column its value, whether
  \<^verbatim>\<open>sqlite3_value_nochange\<close> holds of it and what \<^verbatim>\<open>vector_from_value\<close> gives for it.
\<close>

record 'g update_row =
  old_id :: "'g sqlite_value"
  new_id :: "'g sqlite_value"
  new_values :: "'g sqlite_value list"
  nochange :: "nat \<Rightarrow> bool"
  new_vectors :: "nat \<Rightarrow> int + vector_element_type \<times> nat \<times> byte list"

definition vec0Update_UpdateAuxColumn ::
  "('db, 'g) row_api \<Rightarrow> 'db \<Rightarrow> nat \<Rightarrow> 'g sqlite_value \<Rightarrow> int \<Rightarrow> int \<times> 'db" where
  "vec0Update_UpdateAuxColumn R db column v rowid =
     (let prc = row_prepare R db Sql_update_aux
      in if prc \<noteq> SQLITE_OK then (prc, db)
         else let (rc, db') = update_aux R db column v rowid
              in (if rc \<noteq> SQLITE_DONE then SQLITE_ERROR else SQLITE_OK, db'))"

definition vec0Update_UpdateVectorColumn ::
  "'db sqlite_api \<Rightarrow> 'db \<Rightarrow> vec0_vtab \<Rightarrow> int \<Rightarrow> nat \<Rightarrow> nat \<Rightarrow> int + vector_element_type \<times> nat \<times> byte list \<Rightarrow> (int \<times> 'db) option" where
  "vec0Update_UpdateVectorColumn S db p chunk chunk_offset i given =
     (case given of
        Inl _ \<Rightarrow> Some (SQLITE_ERROR, db)
      | Inr (element_type, dims, bytes) \<Rightarrow> do {
          c \<leftarrow> item_at (vector_columns p) i;
          let rc = blob_open S db (Vectors i) chunk;
          if element_type \<noteq> col_element_type c then Some (SQLITE_ERROR, db)
          else if dims \<noteq> col_dimensions c then Some (SQLITE_ERROR, db)
          else if rc \<noteq> SQLITE_OK then Some (rc, db)
          else do {
            (rc, db') \<leftarrow> vec0_write_vector_to_vector_blob S db i chunk chunk_offset bytes (col_dimensions c) (col_element_type c);
            Some (if rc \<noteq> SQLITE_OK then rc else blob_close S db', db')
          }
        })"

text \<open>The loops over the columns of one kind; a value that does not change is skipped.\<close>

definition partition_changed :: "vec0_vtab \<Rightarrow> 'g update_row \<Rightarrow> bool" where
  "partition_changed p row \<longleftrightarrow>
     list_ex (\<lambda>i. user_column_kinds p ! i = KIND_PARTITION \<and> \<not> nochange row i) [0..<num_defined_user_columns p]"

fun update_auxiliary ::
  "('db, 'g) row_api \<Rightarrow> vec0_vtab \<Rightarrow> int \<Rightarrow> 'g update_row \<Rightarrow> nat list \<Rightarrow> 'db \<Rightarrow> (int \<times> 'db) option" where
  "update_auxiliary R p rowid row [] db = Some (SQLITE_OK, db)"
| "update_auxiliary R p rowid row (i # is) db =
     (if user_column_kinds p ! i \<noteq> KIND_AUXILIARY \<or> nochange row i then update_auxiliary R p rowid row is db
      else do {
        v \<leftarrow> item_at (new_values row) i;
        let (rc, db') = vec0Update_UpdateAuxColumn R db (user_column_idxs p ! i) v rowid;
        if rc \<noteq> SQLITE_OK then Some (SQLITE_ERROR, db') else update_auxiliary R p rowid row is db'
      })"

fun update_metadata ::
  "'db sqlite_api \<Rightarrow> 'g double_api \<Rightarrow> vec0_vtab \<Rightarrow> int \<Rightarrow> int \<Rightarrow> nat \<Rightarrow> 'g update_row \<Rightarrow> nat list \<Rightarrow> 'db \<Rightarrow> (int \<times> 'db) option" where
  "update_metadata S D p rowid chunk chunk_offset row [] db = Some (SQLITE_OK, db)"
| "update_metadata S D p rowid chunk chunk_offset row (i # is) db =
     (if user_column_kinds p ! i \<noteq> KIND_METADATA \<or> nochange row i then update_metadata S D p rowid chunk chunk_offset row is db
      else do {
        let idx = user_column_idxs p ! i;
        v \<leftarrow> item_at (new_values row) i;
        kind \<leftarrow> item_at (metadata_columns p) idx;
        (rc, db') \<leftarrow> vec0_write_metadata_value S D db kind idx rowid chunk chunk_offset v True;
        if rc \<noteq> SQLITE_OK then Some (rc, db') else update_metadata S D p rowid chunk chunk_offset row is db'
      })"

text \<open>A vector that does not change is passed as null, and so is a null the user asked for.\<close>

fun update_vectors ::
  "'db sqlite_api \<Rightarrow> vec0_vtab \<Rightarrow> int \<Rightarrow> nat \<Rightarrow> 'g update_row \<Rightarrow> nat list \<Rightarrow> 'db \<Rightarrow> (int \<times> 'db) option" where
  "update_vectors S p chunk chunk_offset row [] db = Some (SQLITE_OK, db)"
| "update_vectors S p chunk chunk_offset row (i # is) db =
     (if user_column_kinds p ! i \<noteq> KIND_VECTOR then update_vectors S p chunk chunk_offset row is db
      else do {
        v \<leftarrow> item_at (new_values row) i;
        if value_type v = SQLITE_NULL then update_vectors S p chunk chunk_offset row is db
        else do {
          (rc, db') \<leftarrow> vec0Update_UpdateVectorColumn S db p chunk chunk_offset (user_column_idxs p ! i) (new_vectors row i);
          if rc \<noteq> SQLITE_OK then Some (SQLITE_ERROR, db') else update_vectors S p chunk chunk_offset row is db'
        }
      })"

text \<open>The row an update is about; the ids of a table with text ids have to agree.\<close>

definition update_rowid :: "('db, 'g) row_api \<Rightarrow> 'db \<Rightarrow> vec0_vtab \<Rightarrow> 'g update_row \<Rightarrow> int + int" where
  "update_rowid R db p row =
     (if pk_is_text p
      then let a = value_text (old_id row); b = value_text (new_id row)
           in if length a \<noteq> length b \<or> strncmp (a @ [0]) (b @ [0]) (length a) \<noteq> Some 0 then Inl SQLITE_ERROR
              else vec0_rowid_from_id R db (old_id row)
      else Inr (value_int64 (old_id row)))"

definition vec0Update_Update ::
  "'db sqlite_api \<Rightarrow> ('db, 'g) row_api \<Rightarrow> 'g double_api \<Rightarrow> vec0_vtab \<Rightarrow> 'g update_row \<Rightarrow> 'db \<Rightarrow> (int \<times> 'db) option" where
  "vec0Update_Update S R D p row db =
     (let columns = [0..<num_defined_user_columns p]
      in case update_rowid R db p row of
        Inl rc \<Rightarrow> Some (rc, db)
      | Inr rowid \<Rightarrow>
          (case vec0_get_chunk_position R db rowid of
             Inl rc \<Rightarrow> Some (rc, db)
           | Inr (chunk, chunk_offset) \<Rightarrow>
               if partition_changed p row then Some (SQLITE_ERROR, db)
               else do {
                 (rc1, db1) \<leftarrow> update_auxiliary R p rowid row columns db;
                 if rc1 \<noteq> SQLITE_OK then Some (rc1, db1)
                 else do {
                   (rc2, db2) \<leftarrow> update_metadata S D p rowid chunk chunk_offset row columns db1;
                   if rc2 \<noteq> SQLITE_OK then Some (rc2, db2)
                   else update_vectors S p chunk chunk_offset row columns db2
                 }
               }))"

subsection \<open>The update method of the table\<close>

text \<open>
  The arguments are told apart by \<^verbatim>\<open>argc\<close> and the type of \<^verbatim>\<open>argv[0]\<close>, the old id; more than one is read as an insert
  or as an update. The row id is set by an insert only.
\<close>

datatype 'g update_args =
  One_argument "'g sqlite_value"
| More_arguments "'g insert_row" "'g update_row"

definition vec0Update ::
  "'db sqlite_api \<Rightarrow> ('db, 'g) row_api \<Rightarrow> 'g double_api \<Rightarrow> vec0_vtab \<Rightarrow> 'g update_args \<Rightarrow> 'db \<Rightarrow>
     ((int + int option) \<times> 'db) option" where
  "vec0Update S R D p args db =
     (let outcome = map_option (\<lambda>(rc, db'). (if rc = SQLITE_OK then Inr None else Inl rc, db'))
      in case args of
        One_argument v \<Rightarrow>
          if value_type v \<noteq> SQLITE_NULL then outcome (vec0Update_Delete S R D p v db) else Some (Inl SQLITE_ERROR, db)
      | More_arguments ins upd \<Rightarrow>
          if value_type (old_id upd) = SQLITE_NULL then map_option (\<lambda>(r, db'). (map_sum id Some r, db')) (vec0Update_Insert S R D p ins db)
          else outcome (vec0Update_Update S R D p upd db))"

end
