(* ===== verification/VecRowStore.thy ===== *)
theory VecRowStore
  imports VecRows
begin

text \<open>
  A \<^verbatim>\<open>vec0\<close> table as a map: inserts add a row id with its vectors, deletes remove it, and nothing else changes. The
  tables behind it are described by \<open>rows_view\<close>: the blobs, the chunks with their partition values in order of
  creation, the row ids, the place of each row id that has one, and the auxiliary values.
\<close>

subsection \<open>The promises of SQLite\<close>

record 'g rows_view = store +
  st_chunks :: "(int \<times> 'g sqlite_value list) list"
  st_rowids :: "int set"
  st_position :: "int \<Rightarrow> (int \<times> nat) option"
  st_aux :: "int \<Rightarrow> 'g sqlite_value list option"

text \<open>\<^verbatim>\<open>partition = ?\<close> holds for equal values other than null; \<^verbatim>\<open>max(rowid)\<close> is null when there is no row.\<close>

definition same_partition :: "'g sqlite_value list \<Rightarrow> 'g sqlite_value list \<Rightarrow> bool" where
  "same_partition ws vs \<longleftrightarrow> list_all2 (\<lambda>w v. value_type v \<noteq> SQLITE_NULL \<and> w = v) ws vs"

definition latest_chunk :: "(int \<times> 'g sqlite_value list) list \<Rightarrow> 'g sqlite_value list \<Rightarrow> int option" where
  "latest_chunk chunks vs =
     (let ids = map fst (filter (\<lambda>(_, ws). same_partition ws vs) chunks) in if ids = [] then None else Some (Max (set ids)))"

definition zeros :: "nat \<Rightarrow> byte list" where
  "zeros n = replicate n 0"

definition add_chunk :: "'g rows_view \<Rightarrow> int \<Rightarrow> nat \<Rightarrow> nat \<Rightarrow> 'g sqlite_value list \<Rightarrow> 'g rows_view" where
  "add_chunk st c validity_size rowids_size vs =
     (set_blob (set_blob st Chunks_validity c (zeros validity_size)) Chunks_rowids c (zeros rowids_size))
       \<lparr>st_chunks := st_chunks st @ [(c, vs)]\<rparr>"

locale row_store = blobs: sqlite_store S "\<lambda>db. store.truncate (rview db)"
  for S :: "'db sqlite_api" and rview :: "'db \<Rightarrow> 'g rows_view" +
  fixes R :: "('db, 'g) row_api"
  assumes write_rows: "st_blobs (rview db) col c = Some bs \<Longrightarrow> offset + length data \<le> length bs \<Longrightarrow>
      rview (snd (blob_write S db col c data offset)) = set_blob (rview db) col c (overwrite bs offset data)"
    and prepared: "row_prepare R db sql = SQLITE_OK"
    and max_chunk_ok: "max_chunk R db vs = Inr (latest_chunk (st_chunks (rview db)) vs)"
    and insert_chunk_ok: "\<exists>c. fst (insert_chunk R db n validity_size rowids_size vs) = SQLITE_DONE \<and>
      fst (snd (insert_chunk R db n validity_size rowids_size vs)) = c \<and> c \<notin> fst ` set (st_chunks (rview db)) \<and>
      rview (snd (snd (insert_chunk R db n validity_size rowids_size vs))) = add_chunk (rview db) c validity_size rowids_size vs"
    and insert_zeroblob_ok: "st_blobs (rview db) col c = None \<Longrightarrow> fst (insert_zeroblob R db col c n) = SQLITE_DONE \<and>
      rview (snd (insert_zeroblob R db col c n)) = set_blob (rview db) col c (zeros n)"
    and insert_rowid_ok: "r \<notin> st_rowids (rview db) \<Longrightarrow> fst (insert_rowid R db r) = SQLITE_DONE \<and>
      rview (snd (insert_rowid R db r)) = (rview db)\<lparr>st_rowids := insert r (st_rowids (rview db))\<rparr>"
    and insert_rowid_taken: "r \<in> st_rowids (rview db) \<Longrightarrow> fst (insert_rowid R db r) \<noteq> SQLITE_DONE \<and>
      rview (snd (insert_rowid R db r)) = rview db"
    and update_position_ok: "r \<in> st_rowids (rview db) \<Longrightarrow> fst (update_position R db r c k) = SQLITE_DONE \<and>
      rview (snd (update_position R db r c k)) = (rview db)\<lparr>st_position := (st_position (rview db))(r \<mapsto> (c, k))\<rparr>"
    and select_position_ok: "select_position R db r =
      Inr (if r \<in> st_rowids (rview db) then Some (case st_position (rview db) r of None \<Rightarrow> (0, 0) | Some pos \<Rightarrow> pos) else None)"
    and delete_rowid_ok: "fst (delete_rowid R db r) = SQLITE_DONE \<and>
      rview (snd (delete_rowid R db r)) =
        (rview db)\<lparr>st_rowids := st_rowids (rview db) - {r}, st_position := (st_position (rview db))(r := None)\<rparr>"
    and insert_aux_ok: "st_aux (rview db) r = None \<Longrightarrow> fst (insert_aux R db r vs) = SQLITE_DONE \<and>
      rview (snd (insert_aux R db r vs)) = (rview db)\<lparr>st_aux := (st_aux (rview db))(r \<mapsto> vs)\<rparr>"
    and update_aux_ok: "fst (update_aux R db column v r) = SQLITE_DONE \<and>
      rview (snd (update_aux R db column v r)) =
        (rview db)\<lparr>st_aux := (st_aux (rview db))(r := map_option (\<lambda>vs. vs[column := v]) (st_aux (rview db) r))\<rparr>"
    and delete_aux_ok: "fst (delete_aux R db r) = SQLITE_DONE \<and>
      rview (snd (delete_aux R db r)) = (rview db)\<lparr>st_aux := (st_aux (rview db))(r := None)\<rparr>"

text \<open>The promises can be kept: the tables as their own database.\<close>

definition rows_api :: "('g rows_view, 'g) row_api" where
  "rows_api = \<lparr>
     row_prepare = (\<lambda>_ _. SQLITE_OK),
     max_chunk = (\<lambda>db vs. Inr (latest_chunk (st_chunks db) vs)),
     insert_chunk = (\<lambda>db n nv nr vs.
       let c = 1 + Max (insert 0 (fst ` set (st_chunks db))) in (SQLITE_DONE, c, add_chunk db c nv nr vs)),
     insert_zeroblob = (\<lambda>db col c n. if st_blobs db col c = None then (SQLITE_DONE, set_blob db col c (zeros n)) else (19, db)),
     insert_rowid = (\<lambda>db r. if r \<in> st_rowids db then (19, db) else (SQLITE_DONE, db\<lparr>st_rowids := insert r (st_rowids db)\<rparr>)),
     insert_id = (\<lambda>db _. (19, 0, db)),
     update_position = (\<lambda>db r c k.
       (SQLITE_DONE, if r \<in> st_rowids db then db\<lparr>st_position := (st_position db)(r \<mapsto> (c, k))\<rparr> else db)),
     select_position = (\<lambda>db r.
       Inr (if r \<in> st_rowids db then Some (case st_position db r of None \<Rightarrow> (0, 0) | Some pos \<Rightarrow> pos) else None)),
     select_rowid = (\<lambda>_ _. Inr None),
     delete_rowid = (\<lambda>db r. (SQLITE_DONE, db\<lparr>st_rowids := st_rowids db - {r}, st_position := (st_position db)(r := None)\<rparr>)),
     insert_aux = (\<lambda>db r vs. if st_aux db r = None then (SQLITE_DONE, db\<lparr>st_aux := (st_aux db)(r \<mapsto> vs)\<rparr>) else (19, db)),
     update_aux = (\<lambda>db column v r.
       (SQLITE_DONE, db\<lparr>st_aux := (st_aux db)(r := map_option (\<lambda>vs. vs[column := v]) (st_aux db r))\<rparr>)),
     delete_aux = (\<lambda>db r. (SQLITE_DONE, db\<lparr>st_aux := (st_aux db)(r := None)\<rparr>))\<rparr>"

lemma fresh_chunk: "1 + Max (insert 0 (fst ` set chunks)) \<notin> fst ` set (chunks :: (int \<times> 'a) list)"
proof
  assume "1 + Max (insert 0 (fst ` set chunks)) \<in> fst ` set chunks"
  then have "1 + Max (insert 0 (fst ` set chunks)) \<le> Max (insert 0 (fst ` set chunks))" by (intro Max_ge) auto
  then show False by simp
qed

lemma truncate_blob [simp]: "store.truncate (set_blob st c chunk bs) = set_blob (store.truncate st) c chunk bs"
  "store.truncate (set_text st column row s) = set_text (store.truncate st) column row s"
  by (simp_all add: store.truncate_def set_blob_def set_text_def)

lemma truncate_fields [simp]: "st_blobs (store.truncate st) = st_blobs st" "st_texts (store.truncate st) = st_texts st"
  by (simp_all add: store.truncate_def)

interpretation table_store: row_store store_api "\<lambda>st. st" rows_api
  by unfold_locales (auto simp: store_api_def rows_api_def fresh_chunk Let_def)

end
