(* ===== verification/VecTableMap.thy ===== *)
theory VecTableMap
  imports VecRowStore
begin

text \<open>
  The invariant of a \<^verbatim>\<open>vec0\<close> table and the map it stands for: from row ids to the vectors of the row. Inserting adds
  an entry, deleting removes it, updating replaces vectors of it, and a row's vectors are what is read back.
\<close>

subsection \<open>Cells of a blob\<close>

definition cell :: "byte list \<Rightarrow> nat \<Rightarrow> nat \<Rightarrow> byte list" where
  "cell bs k j = take k (drop (j * k) bs)"

lemma length_cell: "j < n \<Longrightarrow> length bs = n * k \<Longrightarrow> length (cell bs k j) = k"
proof -
  assume a: "j < n" "length bs = n * k"
  have "Suc j * k \<le> n * k" using a(1) by (intro mult_le_mono1) simp
  then show ?thesis using a(2) by (simp add: cell_def)
qed

lemma length_overwrite [simp]: "offset + length data \<le> length bs \<Longrightarrow> length (overwrite bs offset data) = length bs"
  by (simp add: overwrite_def)

lemma nth_overwrite:
  "offset + length data \<le> length bs \<Longrightarrow> j < length bs \<Longrightarrow>
     overwrite bs offset data ! j = (if offset \<le> j \<and> j < offset + length data then data ! (j - offset) else bs ! j)"
  by (auto simp: overwrite_def nth_append min_def)

lemma room_for_cell: "j < n \<Longrightarrow> length bs = n * k \<Longrightarrow> j * k + k \<le> length (bs :: byte list)"
  using mult_le_mono1 [of "Suc j" n k] by simp

lemma cell_overwrite:
  assumes "j < n" and "i < n" and "length bs = n * k" and "length data = k"
  shows "cell (overwrite bs (j * k) data) k i = (if i = j then data else cell bs k i)"
proof (rule nth_equalityI)
  note room = room_for_cell [OF assms(1,3)] room_for_cell [OF assms(2,3)]
  have l: "length (overwrite bs (j * k) data) = n * k" using room assms(3,4) by simp
  show "length (cell (overwrite bs (j * k) data) k i) = length (if i = j then data else cell bs k i)"
    using length_cell [OF assms(2) l] length_cell [OF assms(2,3)] assms(4) by simp
  fix m assume "m < length (cell (overwrite bs (j * k) data) k i)"
  then have m: "m < k" using length_cell [OF assms(2) l] by simp
  have "i * k \<le> length (overwrite bs (j * k) data)" unfolding l using room(2) assms(3) by linarith
  then have "cell (overwrite bs (j * k) data) k i ! m = overwrite bs (j * k) data ! (i * k + m)"
    using m by (simp add: cell_def)
  then have nth: "cell (overwrite bs (j * k) data) k i ! m =
      (if j * k \<le> i * k + m \<and> i * k + m < j * k + k then data ! (i * k + m - j * k) else bs ! (i * k + m))"
    using nth_overwrite [of "j * k" data bs "i * k + m"] room assms(4) m by simp
  show "cell (overwrite bs (j * k) data) k i ! m = (if i = j then data else cell bs k i) ! m"
  proof (cases i j rule: linorder_cases)
    case less
    then have "i * k + m < j * k" using mult_le_mono1 [of "Suc i" j k] m by simp
    then show ?thesis using nth less m room(2) by (simp add: cell_def)
  next
    case greater
    then have "j * k + k \<le> i * k + m" using mult_le_mono1 [of "Suc j" i k] by simp
    then show ?thesis using nth greater m room(2) by (simp add: cell_def)
  qed (use nth m in simp)
qed

subsection \<open>The free place of a validity bitmap\<close>

lemma mask8: "(w :: byte) \<noteq> 0xFF \<Longrightarrow> \<exists>j < 8. \<not> bit w j"
proof (rule ccontr)
  assume w: "w \<noteq> 0xFF" "\<not> (\<exists>j<8. \<not> bit w j)"
  have "w = mask 8" by (rule bit_word_eqI) (use w(2) in \<open>auto simp: bit_mask_iff\<close>)
  then show False using w(1) by (simp add: mask_eq_exp_minus_1)
qed

lemma bit_test: "and (drop_bit j w) 1 = 0 \<longleftrightarrow> \<not> bit (w :: byte) j"
  by (metis bit_iff_odd_drop_bit and_one_eq even_iff_mod_2_eq_zero)

lemma members_Cons: "members (w # ws) = {j. j < 8 \<and> bit w j} \<union> (\<lambda>j. j + 8) ` members ws"
proof (rule set_eqI)
  fix j
  show "j \<in> members (w # ws) \<longleftrightarrow> j \<in> {j. j < 8 \<and> bit w j} \<union> (\<lambda>j. j + 8) ` members ws"
  proof (cases "j < 8")
    case True
    then show ?thesis by (auto simp: in_members)
  next
    case False
    then obtain i where "j = i + 8" by (metis le_add_diff_inverse2 not_less)
    then show ?thesis by (auto simp: in_members image_iff)
  qed
qed

lemma free_place_Some:
  "free_place bs i = Some k \<Longrightarrow> \<exists>j. k = 8 * i + j \<and> j < 8 * length bs \<and> j \<notin> members bs"
proof (induction bs i rule: free_place.induct)
  case (2 w ws i)
  show ?case
  proof (cases "w = 0xFF")
    case True
    then obtain j where "k = 8 * (i + 1) + j" "j < 8 * length ws" "j \<notin> members ws" using 2 by auto
    then show ?thesis by (intro exI [of _ "j + 8"]) (auto simp: members_Cons)
  next
    case False
    obtain j where j: "find (\<lambda>j. and (drop_bit j w) 1 = 0) [0..<8] = Some j"
      using mask8 [OF False] bit_test [of _ w] by (cases "find (\<lambda>j. and (drop_bit j w) 1 = 0) [0..<8]") (auto simp: find_None_iff)
    then have "j < 8" "\<not> bit w j" by (auto simp: find_Some_iff bit_test)
    then show ?thesis using 2(3) False j by (intro exI [of _ j]) (auto simp: members_Cons)
  qed
qed simp

lemma free_place_None: "free_place bs i = None \<Longrightarrow> members bs = {..<8 * length bs}"
proof (induction bs i rule: free_place.induct)
  case (1 i)
  then show ?case by (simp add: members_def)
next
  case (2 w ws i)
  have w: "w = 0xFF"
  proof (rule ccontr)
    assume F: "w \<noteq> 0xFF"
    then obtain j where "find (\<lambda>j. and (drop_bit j w) 1 = 0) [0..<8] = Some j"
      using mask8 [OF F] bit_test [of _ w] by (cases "find (\<lambda>j. and (drop_bit j w) 1 = 0) [0..<8]") (auto simp: find_None_iff)
    then show False using 2(3) F by simp
  qed
  then have "members ws = {..<8 * length ws}" using 2 by simp
  moreover have "bit w j" if "j < 8" for j
  proof -
    have "w = mask 8" using w by (simp add: mask_eq_exp_minus_1)
    then show ?thesis using that by (simp add: bit_mask_iff)
  qed
  moreover have "j \<in> (\<lambda>j. j + 8) ` {..<8 * length ws}" if "\<not> j < 8" "j < 8 + 8 * length ws" for j
    using that by (intro image_eqI [of _ _ "j - 8"]) auto
  ultimately show ?case by (auto simp: members_Cons)
qed

subsection \<open>The invariant\<close>

definition chunk_ids :: "'g rows_view \<Rightarrow> int set" where
  "chunk_ids st = fst ` set (st_chunks st)"

definition blob :: "'g rows_view \<Rightarrow> blob_column \<Rightarrow> int \<Rightarrow> byte list" where
  "blob st col c = the (st_blobs st col c)"

definition has_blob :: "'g rows_view \<Rightarrow> blob_column \<Rightarrow> int \<Rightarrow> nat \<Rightarrow> bool" where
  "has_blob st col c n \<longleftrightarrow> st_blobs st col c \<noteq> None \<and> length (blob st col c) = n"

definition column_size :: "vec0_vtab \<Rightarrow> nat \<Rightarrow> nat" where
  "column_size p i = column_byte_size (vector_columns p ! i)"

definition chunk_ok :: "vec0_vtab \<Rightarrow> 'g rows_view \<Rightarrow> int \<Rightarrow> bool" where
  "chunk_ok p st c \<longleftrightarrow> has_blob st Chunks_validity c (table_chunk_size p div 8) \<and> has_blob st Chunks_rowids c (table_chunk_size p * 8) \<and>
     (\<forall>i < length (vector_columns p). has_blob st (Vectors i) c (table_chunk_size p * column_size p i))"

text \<open>The places that count are those whose validity bit is set; each holds the row id of the row that is there.\<close>

definition valid_places :: "'g rows_view \<Rightarrow> (int \<times> nat) set" where
  "valid_places st = {(c, j). c \<in> chunk_ids st \<and> j \<in> members (blob st Chunks_validity c)}"

definition i64_range :: "int set" where
  "i64_range = {- (2 ^ 63)..<2 ^ 63}"

definition table_ok :: "vec0_vtab \<Rightarrow> 'g rows_view \<Rightarrow> bool" where
  "table_ok p st \<longleftrightarrow> (\<forall>c \<in> chunk_ids st. chunk_ok p st c) \<and> (\<forall>c i. c \<notin> chunk_ids st \<longrightarrow> st_blobs st (Vectors i) c = None) \<and>
     dom (st_position st) = st_rowids st \<and> st_rowids st \<subseteq> i64_range \<and> dom (st_aux st) = (if auxiliary_columns p = [] then {} else st_rowids st) \<and>
     ran (st_position st) = valid_places st \<and>
     (\<forall>r c j. st_position st r = Some (c, j) \<longrightarrow> cell (blob st Chunks_rowids c) 8 j = i64_bytes r)"

definition place_vectors :: "vec0_vtab \<Rightarrow> 'g rows_view \<Rightarrow> int \<Rightarrow> nat \<Rightarrow> byte list list" where
  "place_vectors p st c j = map (\<lambda>i. cell (blob st (Vectors i) c) (column_size p i) j) [0..<length (vector_columns p)]"

definition table_rows :: "vec0_vtab \<Rightarrow> 'g rows_view \<Rightarrow> int \<Rightarrow> byte list list option" where
  "table_rows p st r = map_option (\<lambda>(c, j). place_vectors p st c j) (st_position st r)"

text \<open>A table the code supports: its chunks hold a positive multiple of eight rows, a bit vector fills whole bytes.\<close>

definition layout_ok :: "vec0_vtab \<Rightarrow> bool" where
  "layout_ok p \<longleftrightarrow> columns_ok p \<and> 0 < table_chunk_size p \<and> table_chunk_size p mod 8 = 0 \<and>
     (\<forall>c \<in> set (vector_columns p). col_element_type c = BIT \<longrightarrow> col_dimensions c mod 8 = 0)"

lemma table_okD:
  assumes "table_ok p st"
  shows "c \<in> chunk_ids st \<Longrightarrow> chunk_ok p st c" "c \<notin> chunk_ids st \<Longrightarrow> st_blobs st (Vectors i) c = None"
    "dom (st_position st) = st_rowids st" "st_rowids st \<subseteq> i64_range" "dom (st_aux st) = (if auxiliary_columns p = [] then {} else st_rowids st)"
    "ran (st_position st) = valid_places st"
    "st_position st r = Some (c, j) \<Longrightarrow> cell (blob st Chunks_rowids c) 8 j = i64_bytes r"
  using assms by (simp_all add: table_ok_def)

lemma i64_bytes_inj: "i64_bytes a = i64_bytes b \<Longrightarrow> a \<in> i64_range \<Longrightarrow> b \<in> i64_range \<Longrightarrow> a = b"
  unfolding i64_range_def by (metis atLeastLessThan_iff i64_bytes_inverse)

lemma row_place:
  assumes "table_ok p st" and "st_position st r = Some (c, j)"
  shows "c \<in> chunk_ids st" "chunk_ok p st c" "j \<in> members (blob st Chunks_validity c)" "j < table_chunk_size p" "r \<in> st_rowids st"
proof -
  have "(c, j) \<in> valid_places st" using table_okD(6) [OF assms(1)] ranI [of "st_position st" r] assms(2) by metis
  then show c: "c \<in> chunk_ids st" and m: "j \<in> members (blob st Chunks_validity c)" by (simp_all add: valid_places_def)
  show "chunk_ok p st c" using table_okD(1) [OF assms(1) c] .
  then show "j < table_chunk_size p" using m
    by (simp add: chunk_ok_def has_blob_def in_members) (metis div_mult_mod_eq le_add1 mult.commute order_less_le_trans)
  show "r \<in> st_rowids st" using table_okD(3) [OF assms(1)] assms(2) by blast
qed

text \<open>No two rows share a place.\<close>

lemma place_row_unique:
  assumes "table_ok p st" and "st_position st r = Some (c, j)" and "st_position st s = Some (c, j)"
  shows "r = s"
  using i64_bytes_inj [of r s] table_okD(7) [OF assms(1,2)] table_okD(7) [OF assms(1,3)] row_place(5) [OF assms(1,2)]
    row_place(5) [OF assms(1,3)] table_okD(4) [OF assms(1)] by auto

lemma empty_table_ok:
  "st_chunks st = [] \<Longrightarrow> st_rowids st = {} \<Longrightarrow> st_position st = Map.empty \<Longrightarrow> st_aux st = Map.empty \<Longrightarrow>
     (\<And>i c. st_blobs st (Vectors i) c = None) \<Longrightarrow> table_ok p st \<and> table_rows p st = Map.empty"
  by (auto simp: table_ok_def chunk_ids_def valid_places_def table_rows_def fun_eq_iff ran_def)

subsection \<open>Writing and clearing a row\<close>

definition set_validity :: "byte list \<Rightarrow> nat \<Rightarrow> bool \<Rightarrow> byte list" where
  "set_validity bs j v = the (bitmap_set bs j v)"

lemma set_validity:
  assumes "j < 8 * length bs"
  shows "length (set_validity bs j v) = length bs"
    "members (set_validity bs j v) = (if v then insert j (members bs) else members bs - {j})"
    "set_validity bs j v =
       bs[j div 8 := (if v then or (bs ! (j div 8)) (push_bit (j mod 8) 1) else and (bs ! (j div 8)) (not (push_bit (j mod 8) 1)))]"
proof -
  have l: "j div 8 < length bs" using assms by auto
  obtain b where "bitmap_set bs j v = Some b" "length b = length bs"
    "members b = (if v then insert j (members bs) else members bs - {j})"
    using bitmap_set_members [OF assms, of v] by blast
  then show "length (set_validity bs j v) = length bs"
    "members (set_validity bs j v) = (if v then insert j (members bs) else members bs - {j})" by (simp_all add: set_validity_def)
  show "set_validity bs j v =
      bs[j div 8 := (if v then or (bs ! (j div 8)) (push_bit (j mod 8) 1) else and (bs ! (j div 8)) (not (push_bit (j mod 8) 1)))]"
    using l by (simp add: set_validity_def bitmap_set_def Let_def)
qed

definition change_blobs :: "(blob_column \<Rightarrow> byte list \<Rightarrow> byte list) \<Rightarrow> int \<Rightarrow> 'g rows_view \<Rightarrow> 'g rows_view" where
  "change_blobs f c st = st\<lparr>st_blobs := (\<lambda>col d. if d = c then map_option (f col) (st_blobs st col d) else st_blobs st col d)\<rparr>"

definition put_row :: "vec0_vtab \<Rightarrow> int \<Rightarrow> nat \<Rightarrow> byte list list \<Rightarrow> blob_column \<Rightarrow> byte list \<Rightarrow> byte list" where
  "put_row p r j vs col bs =
     (case col of
        Chunks_validity \<Rightarrow> set_validity bs j True
      | Chunks_rowids \<Rightarrow> overwrite bs (j * 8) (i64_bytes r)
      | Vectors i \<Rightarrow> if i < length (vector_columns p) then overwrite bs (j * column_size p i) (vs ! i) else bs
      | Metadata_data i \<Rightarrow> bs)"

lemma change_blobs_simps [simp]:
  "st_chunks (change_blobs f c st) = st_chunks st" "st_rowids (change_blobs f c st) = st_rowids st"
  "st_position (change_blobs f c st) = st_position st" "st_aux (change_blobs f c st) = st_aux st"
  "chunk_ids (change_blobs f c st) = chunk_ids st"
  by (simp_all add: change_blobs_def chunk_ids_def)

lemma blob_change: "has_blob st col d n \<Longrightarrow>
    blob (change_blobs f c st) col d = (if d = c then f col (blob st col d) else blob st col d)"
  by (auto simp: has_blob_def blob_def change_blobs_def)

definition rows_fit :: "vec0_vtab \<Rightarrow> byte list list \<Rightarrow> bool" where
  "rows_fit p vs \<longleftrightarrow> length vs = length (vector_columns p) \<and> (\<forall>i < length vs. length (vs ! i) = column_size p i)"

lemma chunk_rows: "table_chunk_size p mod 8 = 0 \<Longrightarrow> 8 * (table_chunk_size p div 8) = table_chunk_size p"
  by auto

lemma length_put_row:
  assumes "has_blob st col c n" and "chunk_ok p st c" and "j < table_chunk_size p" and "table_chunk_size p mod 8 = 0" and "rows_fit p vs"
  shows "length (put_row p r j vs col (blob st col c)) = n"
proof (cases col)
  case Chunks_validity
  then have "j < 8 * length (blob st col c)" using assms(2,3) chunk_rows [OF assms(4)] by (simp add: chunk_ok_def has_blob_def)
  then show ?thesis using assms(1) set_validity(1) Chunks_validity by (simp add: put_row_def has_blob_def)
next
  case Chunks_rowids
  then show ?thesis using assms(1-3) room_for_cell [of j "table_chunk_size p" "blob st col c" 8]
    by (simp add: put_row_def has_blob_def chunk_ok_def)
next
  case (Vectors i)
  show ?thesis
  proof (cases "i < length (vector_columns p)")
    case True
    then have "length (blob st col c) = table_chunk_size p * column_size p i" "length (vs ! i) = column_size p i"
      using Vectors assms(2,5) by (auto simp: chunk_ok_def has_blob_def rows_fit_def)
    then show ?thesis using True Vectors assms(1) room_for_cell [OF assms(3), of "blob st col c" "column_size p i"]
      by (simp add: put_row_def has_blob_def)
  qed (use assms(1) Vectors in \<open>simp add: put_row_def has_blob_def\<close>)
qed (use assms(1) in \<open>simp add: put_row_def has_blob_def\<close>)

lemma has_blob_change:
  assumes "has_blob st col d n" and "d = c \<Longrightarrow> length (f col (blob st col d)) = n"
  shows "has_blob (change_blobs f c st) col d n"
  using assms blob_change [OF assms(1), of f c] by (auto simp: has_blob_def change_blobs_def)

lemma chunk_ok_put_row:
  assumes "chunk_ok p st d" and "j < table_chunk_size p" and "table_chunk_size p mod 8 = 0" and "rows_fit p vs"
  shows "chunk_ok p (change_blobs (put_row p r j vs) c st) d"
proof -
  have "has_blob (change_blobs (put_row p r j vs) c st) col d n" if "has_blob st col d n" for col n
    using has_blob_change [OF that] length_put_row [OF that assms] by blast
  then show ?thesis using assms(1) by (simp add: chunk_ok_def)
qed

lemma chunk_ok_update [simp]:
  "chunk_ok p (st\<lparr>st_rowids := a, st_position := b, st_aux := x\<rparr>) c = chunk_ok p st c"
  "blob (st\<lparr>st_rowids := a, st_position := b, st_aux := x\<rparr>) = blob st"
  "chunk_ids (st\<lparr>st_rowids := a, st_position := b, st_aux := x\<rparr>) = chunk_ids st"
  "valid_places (st\<lparr>st_rowids := a, st_position := b, st_aux := x\<rparr>) = valid_places st"
  "place_vectors p (st\<lparr>st_rowids := a, st_position := b, st_aux := x\<rparr>) = place_vectors p st"
  by (simp_all add: chunk_ok_def has_blob_def blob_def chunk_ids_def valid_places_def place_vectors_def fun_eq_iff)

text \<open>The state a finished insert leaves.\<close>

definition row_written ::
  "vec0_vtab \<Rightarrow> int \<Rightarrow> int \<Rightarrow> nat \<Rightarrow> byte list list \<Rightarrow> (int \<Rightarrow> 'g sqlite_value list option) \<Rightarrow> 'g rows_view \<Rightarrow> 'g rows_view" where
  "row_written p r c j vs aux st = (change_blobs (put_row p r j vs) c st)
     \<lparr>st_rowids := insert r (st_rowids st), st_position := (st_position st)(r \<mapsto> (c, j)), st_aux := aux\<rparr>"

definition can_write :: "vec0_vtab \<Rightarrow> int \<Rightarrow> int \<Rightarrow> nat \<Rightarrow> byte list list \<Rightarrow> 'g rows_view \<Rightarrow> bool" where
  "can_write p r c j vs st \<longleftrightarrow> table_ok p st \<and> layout_ok p \<and> rows_fit p vs \<and> c \<in> chunk_ids st \<and> j < table_chunk_size p \<and>
     j \<notin> members (blob st Chunks_validity c) \<and> r \<notin> st_rowids st \<and> r \<in> i64_range"

lemma can_writeD:
  assumes "can_write p r c j vs st"
  shows "table_ok p st" "rows_fit p vs" "c \<in> chunk_ids st" "j < table_chunk_size p" "j \<notin> members (blob st Chunks_validity c)"
    "r \<notin> st_rowids st" "r \<in> i64_range" "table_chunk_size p mod 8 = 0" "chunk_ok p st c" "st_position st r = None"
    "d \<in> chunk_ids st \<Longrightarrow> chunk_ok p st d"
  using assms table_okD(1) [of p st] table_okD(3) [of p st] by (auto simp: can_write_def layout_ok_def)

lemma valid_places_written:
  assumes "can_write p r c j vs st"
  shows "valid_places (row_written p r c j vs aux st) = insert (c, j) (valid_places st)"
proof -
  note w = can_writeD [OF assms]
  have l: "j < 8 * length (blob st Chunks_validity c)" using w(4,9) chunk_rows [OF w(8)] by (simp add: chunk_ok_def has_blob_def)
  have "has_blob st Chunks_validity d (table_chunk_size p div 8)" if "d \<in> chunk_ids st" for d
    using w(11) [OF that] by (simp add: chunk_ok_def)
  then have "blob (change_blobs (put_row p r j vs) c st) Chunks_validity d =
      (if d = c then set_validity (blob st Chunks_validity d) j True else blob st Chunks_validity d)" if "d \<in> chunk_ids st" for d
    using blob_change [OF \<open>\<And>d. d \<in> chunk_ids st \<Longrightarrow> has_blob st Chunks_validity d (table_chunk_size p div 8)\<close> [OF that]]
    by (simp add: put_row_def)
  then show ?thesis using w(3) set_validity(2) [OF l] by (auto simp: valid_places_def row_written_def split: if_splits)
qed

lemma cells_written:
  assumes "can_write p r c j vs st" and "d \<in> chunk_ids st" and "i < table_chunk_size p"
  shows "cell (blob (row_written p r c j vs aux st) Chunks_rowids d) 8 i =
      (if (d, i) = (c, j) then i64_bytes r else cell (blob st Chunks_rowids d) 8 i)"
    "place_vectors p (row_written p r c j vs aux st) d i = (if (d, i) = (c, j) then vs else place_vectors p st d i)"
proof -
  note w = can_writeD [OF assms(1)]
  have ok: "chunk_ok p st d" using w(11) [OF assms(2)] .
  have rowids: "has_blob st Chunks_rowids d (table_chunk_size p * 8)" using ok by (simp add: chunk_ok_def)
  then have b: "blob (row_written p r c j vs aux st) Chunks_rowids d =
      (if d = c then overwrite (blob st Chunks_rowids d) (j * 8) (i64_bytes r) else blob st Chunks_rowids d)"
    by (simp add: row_written_def blob_change [OF rowids] put_row_def)
  show "cell (blob (row_written p r c j vs aux st) Chunks_rowids d) 8 i =
      (if (d, i) = (c, j) then i64_bytes r else cell (blob st Chunks_rowids d) 8 i)"
    using rowids cell_overwrite [OF w(4) assms(3), of "blob st Chunks_rowids d" 8 "i64_bytes r"] unfolding b
    by (cases "d = c") (simp_all add: has_blob_def)
  have v: "cell (blob (row_written p r c j vs aux st) (Vectors m) d) (column_size p m) i =
      (if (d, i) = (c, j) then vs ! m else cell (blob st (Vectors m) d) (column_size p m) i)" if m: "m < length (vector_columns p)" for m
  proof -
    have b: "has_blob st (Vectors m) d (table_chunk_size p * column_size p m)" using ok m by (simp add: chunk_ok_def)
    then have e: "blob (row_written p r c j vs aux st) (Vectors m) d =
        (if d = c then overwrite (blob st (Vectors m) d) (j * column_size p m) (vs ! m) else blob st (Vectors m) d)"
      using m by (simp add: row_written_def blob_change [OF b] put_row_def)
    show ?thesis using b cell_overwrite [OF w(4) assms(3), of "blob st (Vectors m) d" "column_size p m" "vs ! m"] w(2) m unfolding e
      by (cases "d = c") (simp_all add: has_blob_def rows_fit_def)
  qed
  have "length vs = length (vector_columns p)" using w(2) by (simp add: rows_fit_def)
  then show "place_vectors p (row_written p r c j vs aux st) d i = (if (d, i) = (c, j) then vs else place_vectors p st d i)"
    using v by (auto simp: place_vectors_def intro: nth_equalityI)
qed

lemma row_written_ok:
  assumes w: "can_write p r c j vs st" and aux: "dom aux = (if auxiliary_columns p = [] then {} else insert r (st_rowids st))"
  shows "table_ok p (row_written p r c j vs aux st)" "table_rows p (row_written p r c j vs aux st) = (table_rows p st)(r \<mapsto> vs)"
proof -
  define st' where "st' = row_written p r c j vs aux st"
  note w' = can_writeD [OF w] and ok = table_okD [OF can_writeD(1) [OF w]] and place = row_place [OF can_writeD(1) [OF w]]
  have fields: "st_rowids st' = insert r (st_rowids st)" "st_position st' = (st_position st)(r \<mapsto> (c, j))" "st_aux st' = aux"
    "chunk_ids st' = chunk_ids st" by (simp_all add: st'_def row_written_def)
  have other: "(d, i) \<noteq> (c, j)" if "st_position st s = Some (d, i)" for s d i using place(3) [OF that] w'(5) by auto
  have "chunk_ok p st' d" if "d \<in> chunk_ids st" for d
    using chunk_ok_put_row [OF w'(11) [OF that] w'(4,8,2)] by (simp add: st'_def row_written_def)
  moreover have "st_blobs st' (Vectors i) d = None" if "d \<notin> chunk_ids st" for i d
    using ok(2) [OF that] that w'(3) by (auto simp: st'_def row_written_def change_blobs_def)
  moreover have "ran (st_position st') = valid_places st'"
    using ran_map_upd [of "st_position st" r, OF w'(10)] ok(6) valid_places_written [OF w, of aux] fields(2) by (simp add: st'_def)
  moreover have "cell (blob st' Chunks_rowids d) 8 i = i64_bytes s" if s: "st_position st' s = Some (d, i)" for s d i
  proof (cases "s = r")
    case True
    then have "(d, i) = (c, j)" using s unfolding fields by simp
    then show ?thesis using True cells_written(1) [OF w w'(3,4)] by (simp add: st'_def)
  next
    case False
    then have p: "st_position st s = Some (d, i)" using s by (simp add: fields)
    then show ?thesis using cells_written(1) [OF w place(1) [OF p] place(4) [OF p]] other [OF p] ok(7) [OF p]
      by (auto simp: st'_def)
  qed
  ultimately show "table_ok p (row_written p r c j vs aux st)"
    using w'(7) ok(3,4) aux unfolding table_ok_def st'_def [symmetric] by (auto simp: fields)
  show "table_rows p (row_written p r c j vs aux st) = (table_rows p st)(r \<mapsto> vs)"
  proof
    fix s
    show "table_rows p (row_written p r c j vs aux st) s = ((table_rows p st)(r \<mapsto> vs)) s"
    proof (cases "s = r \<or> st_position st s = None")
      case True
      then show ?thesis using cells_written(2) [OF w w'(3,4)] fields(2) by (auto simp: table_rows_def st'_def)
    next
      case False
      then obtain d i where p: "st_position st s = Some (d, i)" "s \<noteq> r" by auto
      then show ?thesis using cells_written(2) [OF w place(1) [OF p(1)] place(4) [OF p(1)]] other [OF p(1)] fields(2)
        by (auto simp: table_rows_def st'_def)
    qed
  qed
qed

text \<open>The state a finished delete leaves.\<close>

definition clear_row :: "nat \<Rightarrow> blob_column \<Rightarrow> byte list \<Rightarrow> byte list" where
  "clear_row j col bs = (if col = Chunks_validity then set_validity bs j False else bs)"

definition row_cleared :: "int \<Rightarrow> int \<Rightarrow> nat \<Rightarrow> (int \<Rightarrow> 'g sqlite_value list option) \<Rightarrow> 'g rows_view \<Rightarrow> 'g rows_view" where
  "row_cleared r c j aux st = (change_blobs (clear_row j) c st)
     \<lparr>st_rowids := st_rowids st - {r}, st_position := (st_position st)(r := None), st_aux := aux\<rparr>"

lemma ran_delete: "f r = Some y \<Longrightarrow> (\<And>s. s \<noteq> r \<Longrightarrow> f s \<noteq> Some y) \<Longrightarrow> ran (f(r := None)) = ran f - {y}"
  by (auto simp: ran_def) (metis option.inject)

lemma row_cleared_ok:
  assumes ok: "table_ok p st" and pos: "st_position st r = Some (c, j)"
    and aux: "dom aux = (if auxiliary_columns p = [] then {} else st_rowids st - {r})"
  shows "table_ok p (row_cleared r c j aux st)" "table_rows p (row_cleared r c j aux st) = (table_rows p st)(r := None)"
proof -
  define st' where "st' = row_cleared r c j aux st"
  note ok' = table_okD [OF ok] and place = row_place [OF ok]
  note at = place [OF pos]
  have fields: "st_rowids st' = st_rowids st - {r}" "st_position st' = (st_position st)(r := None)" "st_aux st' = aux"
    "chunk_ids st' = chunk_ids st" by (simp_all add: st'_def row_cleared_def)
  have l: "j < 8 * length (blob st Chunks_validity c)" using at(3) by (simp add: in_members)
  have has: "has_blob st' col d n" if h: "has_blob st col d n" for col d n
  proof -
    have "length (clear_row j col (blob st col d)) = n" if "d = c"
      using set_validity(1) [OF l] h that by (auto simp: clear_row_def has_blob_def)
    then have "has_blob (change_blobs (clear_row j) c st) col d n" by (rule has_blob_change [OF h])
    then show ?thesis by (simp add: st'_def row_cleared_def has_blob_def blob_def)
  qed
  have same: "blob st' col d = blob st col d" if "has_blob st col d n" "col \<noteq> Chunks_validity" for col d n
    using blob_change [OF that(1)] that(2) by (simp add: st'_def row_cleared_def clear_row_def)
  have v: "members (blob st' Chunks_validity d) = members (blob st Chunks_validity d) - (if d = c then {j} else {})" if "d \<in> chunk_ids st" for d
  proof -
    have b: "has_blob st Chunks_validity d (table_chunk_size p div 8)" using ok'(1) [OF that] by (simp add: chunk_ok_def)
    have "blob st' Chunks_validity d = (if d = c then set_validity (blob st Chunks_validity d) j False else blob st Chunks_validity d)"
      using blob_change [OF b] by (simp add: st'_def row_cleared_def clear_row_def)
    then show ?thesis using set_validity(2) [OF l, of False] by (cases "d = c") simp_all
  qed
  have places: "valid_places st' = valid_places st - {(c, j)}" using v by (auto simp: valid_places_def fields split: if_splits)
  have "chunk_ok p st' d" if "d \<in> chunk_ids st" for d
    using ok'(1) [OF that] has unfolding chunk_ok_def by blast
  moreover have "st_blobs st' (Vectors i) d = None" if "d \<notin> chunk_ids st" for i d
    using ok'(2) [OF that] that at(1) by (auto simp: st'_def row_cleared_def change_blobs_def)
  moreover have "ran (st_position st') = valid_places st'"
  proof -
    have "st_position st s \<noteq> Some (c, j)" if "s \<noteq> r" for s using place_row_unique [OF ok _ pos] that by blast
    then have "ran ((st_position st)(r := None)) = ran (st_position st) - {(c, j)}" using ran_delete [of "st_position st" r, OF pos] by blast
    then show ?thesis by (simp add: fields ok'(6) places)
  qed
  moreover have "cell (blob st' Chunks_rowids d) 8 i = i64_bytes s" if s: "st_position st' s = Some (d, i)" for s d i
  proof -
    have p: "st_position st s = Some (d, i)" using s by (simp add: fields split: if_splits)
    have "has_blob st Chunks_rowids d (table_chunk_size p * 8)" using place(2) [OF p] by (simp add: chunk_ok_def)
    then show ?thesis using same ok'(7) [OF p] by simp
  qed
  moreover have "dom (st_position st') = st_rowids st'" "st_rowids st' \<subseteq> i64_range" using ok'(3,4) by (auto simp: fields)
  moreover have "dom (st_aux st') = (if auxiliary_columns p = [] then {} else st_rowids st')" using aux by (simp add: fields)
  ultimately show "table_ok p (row_cleared r c j aux st)"
    unfolding table_ok_def st'_def [symmetric] fields(4) by blast
  show "table_rows p (row_cleared r c j aux st) = (table_rows p st)(r := None)"
  proof
    fix s
    have "place_vectors p st' d i = place_vectors p st d i" if "d \<in> chunk_ids st" for d i
    proof -
      have "blob st' (Vectors m) d = blob st (Vectors m) d" if "m < length (vector_columns p)" for m
        using same ok'(1) [OF \<open>d \<in> chunk_ids st\<close>] that unfolding chunk_ok_def by blast
      then show ?thesis by (simp add: place_vectors_def)
    qed
    then show "table_rows p (row_cleared r c j aux st) s = ((table_rows p st)(r := None)) s"
      using place(1) [of s] by (cases "st_position st s") (auto simp: table_rows_def fields st'_def [symmetric])
  qed
qed

subsection \<open>A new chunk\<close>

definition chunk_added :: "vec0_vtab \<Rightarrow> int \<Rightarrow> 'g sqlite_value list \<Rightarrow> 'g rows_view \<Rightarrow> 'g rows_view" where
  "chunk_added p c keys st = st\<lparr>st_chunks := st_chunks st @ [(c, keys)],
     st_blobs := (\<lambda>col d. if d \<noteq> c then st_blobs st col d else case col of
         Chunks_validity \<Rightarrow> Some (zeros (table_chunk_size p div 8))
       | Chunks_rowids \<Rightarrow> Some (zeros (table_chunk_size p * 8))
       | Vectors i \<Rightarrow> if i < length (vector_columns p) then Some (zeros (table_chunk_size p * column_size p i)) else st_blobs st col d
       | Metadata_data i \<Rightarrow> st_blobs st col d)\<rparr>"

lemma members_zeros [simp]: "members (zeros n) = {}"
  by (auto simp: zeros_def in_members)

lemma chunk_added_ok:
  assumes ok: "table_ok p st" and new: "c \<notin> chunk_ids st"
  shows "table_ok p (chunk_added p c keys st)" "table_rows p (chunk_added p c keys st) = table_rows p st"
    "c \<in> chunk_ids (chunk_added p c keys st)" "members (blob (chunk_added p c keys st) Chunks_validity c) = {}"
proof -
  define st' where "st' = chunk_added p c keys st"
  note ok' = table_okD [OF ok] and place = row_place [OF ok]
  have fields: "st_rowids st' = st_rowids st" "st_position st' = st_position st" "st_aux st' = st_aux st"
    "chunk_ids st' = insert c (chunk_ids st)" by (auto simp: st'_def chunk_added_def chunk_ids_def)
  have same: "blob st' col d = blob st col d" "has_blob st' col d n = has_blob st col d n" if "d \<in> chunk_ids st" for col d n
    using that new by (auto simp: st'_def chunk_added_def blob_def has_blob_def)
  have empty: "members (blob st' Chunks_validity c) = {}" by (simp add: st'_def chunk_added_def blob_def)
  have "chunk_ok p st' d" if "d \<in> chunk_ids st'" for d
  proof (cases "d = c")
    case True
    then show ?thesis by (simp add: chunk_ok_def has_blob_def blob_def st'_def chunk_added_def zeros_def)
  qed (use that ok'(1) [of d] same [of d] in \<open>simp add: fields chunk_ok_def\<close>)
  moreover have "st_blobs st' (Vectors i) d = None" if "d \<notin> chunk_ids st'" for i d
  proof -
    have "d \<notin> chunk_ids st" "d \<noteq> c" using that fields(4) by auto
    then show ?thesis using ok'(2) [of d] by (simp add: st'_def chunk_added_def)
  qed
  moreover have "valid_places st' = valid_places st" using same new empty by (auto simp: valid_places_def fields)
  moreover have "cell (blob st' Chunks_rowids d) 8 i = i64_bytes s" if "st_position st s = Some (d, i)" for s d i
    using ok'(7) [OF that] same(1) [OF place(1) [OF that]] by simp
  ultimately show "table_ok p (chunk_added p c keys st)"
    using ok'(3-6) unfolding table_ok_def st'_def [symmetric] by (simp add: fields)
  have "place_vectors p st' d i = place_vectors p st d i" if "d \<in> chunk_ids st" for d i
    using same(1) [OF that] by (simp add: place_vectors_def)
  then have "table_rows p st' s = table_rows p st s" for s
    using place(1) [of s] by (cases "st_position st s") (auto simp: table_rows_def fields)
  then show "table_rows p (chunk_added p c keys st) = table_rows p st" by (simp add: fun_eq_iff st'_def)
  show "c \<in> chunk_ids (chunk_added p c keys st)" using fields(4) by (simp add: st'_def)
  show "members (blob (chunk_added p c keys st) Chunks_validity c) = {}" using empty by (simp add: st'_def)
qed

end
