(* ===== verification/VecTableOps.thy ===== *)
theory VecTableOps
  imports VecTableMap
begin

text \<open>
  Inserting, reading, updating and deleting rows of a \<^verbatim>\<open>vec0\<close> table implement the operations of a map from row ids
  to vectors, on any database that keeps the promises of \<open>row_store\<close>.
\<close>

subsection \<open>Rows that fit the table\<close>

definition typed :: "int \<Rightarrow> 'g sqlite_value \<Rightarrow> bool" where
  "typed t v \<longleftrightarrow> value_type v = SQLITE_NULL \<or> value_type v = t"

definition column_ok :: "vec0_vtab \<Rightarrow> 'g insert_row \<Rightarrow> byte list list \<Rightarrow> nat \<Rightarrow> bool" where
  "column_ok p row vs i \<longleftrightarrow>
     (let idx = user_column_idxs p ! i
      in case user_column_kinds p ! i of
        KIND_VECTOR \<Rightarrow> decoded row i = Inr (col_element_type (vector_columns p ! idx), col_dimensions (vector_columns p ! idx), vs ! idx)
      | KIND_PARTITION \<Rightarrow> typed (partition_columns p ! idx) (column_values row ! i)
      | KIND_AUXILIARY \<Rightarrow> typed (auxiliary_columns p ! idx) (column_values row ! i)
      | KIND_METADATA \<Rightarrow> value_fits (metadata_columns p ! idx) (column_values row ! i))"

text \<open>\<open>vs\<close> are the vectors of the row, in the order of the vector columns.\<close>

definition row_ok :: "vec0_vtab \<Rightarrow> 'g insert_row \<Rightarrow> byte list list \<Rightarrow> bool" where
  "row_ok p row vs \<longleftrightarrow> length (column_values row) = num_defined_user_columns p \<and> rows_fit p vs \<and>
     (\<forall>i < num_defined_user_columns p. column_ok p row vs i) \<and> value_type (id_value row) = SQLITE_INTEGER \<and>
     value_type (distance_value row) = SQLITE_NULL \<and> value_type (k_value row) = SQLITE_NULL"

lemma row_okD:
  assumes "row_ok p row vs"
  shows "length (column_values row) = num_defined_user_columns p" "rows_fit p vs"
    "i < num_defined_user_columns p \<Longrightarrow> column_ok p row vs i" "value_type (id_value row) = SQLITE_INTEGER"
    "value_type (distance_value row) = SQLITE_NULL" "value_type (k_value row) = SQLITE_NULL"
  using assms by (simp_all add: row_ok_def)

lemma idx_less:
  assumes "columns_ok p" and "i < num_defined_user_columns p"
  shows "user_column_idxs p ! i < kind_count p (user_column_kinds p ! i)"
proof -
  have "user_column_idxs p ! i \<in> set (idxs_of_kind p (user_column_kinds p ! i))" using assms(2) by (auto simp: idxs_of_kind_def)
  then show ?thesis using idxs_of_kind [OF assms(1)] by simp
qed

lemma idx_image:
  assumes "columns_ok p"
  shows "(!) (user_column_idxs p) ` {i. i < num_defined_user_columns p \<and> user_column_kinds p ! i = kind} = {..<kind_count p kind}"
proof -
  have "set (idxs_of_kind p kind) = {..<kind_count p kind}" using idxs_of_kind [OF assms] by auto
  then show ?thesis by (simp add: idxs_of_kind_def)
qed

lemma read_typed_values_ok:
  assumes "\<forall>i \<in> set is. user_column_kinds p ! i = kind \<longrightarrow> i < length values \<and> user_column_idxs p ! i < length types \<and>
    typed (types ! (user_column_idxs p ! i)) (values ! i)"
  shows "\<exists>keys'. read_typed_values p kind types e values is keys = Some (Inr keys') \<and>
    dom keys' = dom keys \<union> (!) (user_column_idxs p) ` {i \<in> set is. user_column_kinds p ! i = kind}"
  using assms
proof (induction "is" arbitrary: keys)
  case Nil
  then show ?case by simp
next
  case (Cons i "is")
  show ?case
  proof (cases "user_column_kinds p ! i = kind")
    case True
    have rest: "\<forall>i \<in> set is. user_column_kinds p ! i = kind \<longrightarrow> i < length values \<and> user_column_idxs p ! i < length types \<and>
      typed (types ! (user_column_idxs p ! i)) (values ! i)" using Cons.prems by simp
    from True have i: "i < length values" "user_column_idxs p ! i < length types" "typed (types ! (user_column_idxs p ! i)) (values ! i)"
      using Cons.prems by simp_all
    obtain keys' where k: "read_typed_values p kind types e values is (keys(user_column_idxs p ! i \<mapsto> values ! i)) = Some (Inr keys')"
      "dom keys' = dom (keys(user_column_idxs p ! i \<mapsto> values ! i)) \<union> (!) (user_column_idxs p) ` {i \<in> set is. user_column_kinds p ! i = kind}"
      using Cons.IH [OF rest] by blast
    have "{m \<in> set (i # is). user_column_kinds p ! m = kind} = insert i {m \<in> set is. user_column_kinds p ! m = kind}"
      using True by auto
    then show ?thesis using True i k by (auto simp: typed_def Let_def)
  next
    case False
    then have "{m \<in> set (i # is). user_column_kinds p ! m = kind} = {m \<in> set is. user_column_kinds p ! m = kind}" by auto
    then show ?thesis using False Cons.IH [of keys] Cons.prems by simp
  qed
qed

lemma those_map_dom: "{..<n} \<subseteq> dom f \<Longrightarrow> those (map f [0..<n]) = Some (map (\<lambda>i. the (f i)) [0..<n])"
proof -
  assume "{..<n} \<subseteq> dom f"
  then have e: "map f [0..<n] = map Some (map (\<lambda>i. the (f i)) [0..<n])" by (auto simp: subset_iff)
  have "those (map Some xs) = Some xs" for xs by (induction xs) simp_all
  then show ?thesis unfolding e .
qed

text \<open>The values of a kind of column are all read.\<close>

lemma read_kind:
  assumes "columns_ok p" and "length values = num_defined_user_columns p" and "length types = kind_count p kind"
    and "\<And>i. i < num_defined_user_columns p \<Longrightarrow> user_column_kinds p ! i = kind \<Longrightarrow> typed (types ! (user_column_idxs p ! i)) (values ! i)"
  shows "\<exists>keys vs. read_typed_values p kind types e values [0..<num_defined_user_columns p] Map.empty = Some (Inr keys) \<and>
    those (map keys [0..<kind_count p kind]) = Some vs"
proof -
  have all: "\<forall>i \<in> set [0..<num_defined_user_columns p]. user_column_kinds p ! i = kind \<longrightarrow> i < length values \<and>
      user_column_idxs p ! i < length types \<and> typed (types ! (user_column_idxs p ! i)) (values ! i)"
    using assms idx_less [OF assms(1)] by auto
  obtain keys where k: "read_typed_values p kind types e values [0..<num_defined_user_columns p] Map.empty = Some (Inr keys)"
    "dom keys = dom (Map.empty :: 'a sqlite_value keyed) \<union>
       (!) (user_column_idxs p) ` {i \<in> set [0..<num_defined_user_columns p]. user_column_kinds p ! i = kind}"
    using read_typed_values_ok [OF all] by blast
  then have "dom keys = {..<kind_count p kind}" using idx_image [OF assms(1), of kind] by simp
  then show ?thesis using k(1) those_map_dom [of "kind_count p kind" keys] by blast
qed

lemma read_vectors_ok:
  assumes "\<forall>i \<in> set is. user_column_kinds p ! i = KIND_VECTOR \<longrightarrow> user_column_idxs p ! i < length (vector_columns p) \<and>
    given i = Inr (col_element_type (vector_columns p ! (user_column_idxs p ! i)),
      col_dimensions (vector_columns p ! (user_column_idxs p ! i)), vs ! (user_column_idxs p ! i))"
  shows "\<exists>datas'. read_vectors p given is datas = Some (Inr datas') \<and>
    (\<forall>m. datas' m = (if m \<in> (!) (user_column_idxs p) ` {i \<in> set is. user_column_kinds p ! i = KIND_VECTOR} then Some (vs ! m) else datas m))"
  using assms
proof (induction "is" arbitrary: datas)
  case Nil
  then show ?case by simp
next
  case (Cons i "is")
  show ?case
  proof (cases "user_column_kinds p ! i = KIND_VECTOR")
    case True
    define m where "m = user_column_idxs p ! i"
    have rest: "\<forall>i \<in> set is. user_column_kinds p ! i = KIND_VECTOR \<longrightarrow> user_column_idxs p ! i < length (vector_columns p) \<and>
      given i = Inr (col_element_type (vector_columns p ! (user_column_idxs p ! i)),
        col_dimensions (vector_columns p ! (user_column_idxs p ! i)), vs ! (user_column_idxs p ! i))" using Cons.prems by simp
    have i: "m < length (vector_columns p)"
      "given i = Inr (col_element_type (vector_columns p ! m), col_dimensions (vector_columns p ! m), vs ! m)"
      using Cons.prems True by (simp_all add: m_def)
    obtain d where d: "read_vectors p given is (datas(m \<mapsto> vs ! m)) = Some (Inr d)"
      "\<forall>k. d k = (if k \<in> (!) (user_column_idxs p) ` {i \<in> set is. user_column_kinds p ! i = KIND_VECTOR} then Some (vs ! k)
         else (datas(m \<mapsto> vs ! m)) k)"
      using Cons.IH [OF rest] by blast
    have "{m \<in> set (i # is). user_column_kinds p ! m = KIND_VECTOR} = insert i {m \<in> set is. user_column_kinds p ! m = KIND_VECTOR}"
      using True by auto
    then show ?thesis using True i d by (intro exI [of _ d]) (auto simp: m_def Let_def)
  next
    case False
    then have "{m \<in> set (i # is). user_column_kinds p ! m = KIND_VECTOR} = {m \<in> set is. user_column_kinds p ! m = KIND_VECTOR}" by auto
    then show ?thesis using False Cons.IH [of datas] Cons.prems by simp
  qed
qed

lemma read_row:
  assumes "columns_ok p" and "row_ok p row vs"
  shows "\<exists>keys ks. read_partition_keys p (column_values row) = Some (Inr keys) \<and>
      those (map keys [0..<length (partition_columns p)]) = Some ks"
    "\<exists>datas. read_vectors p (decoded row) [0..<num_defined_user_columns p] Map.empty = Some (Inr datas) \<and>
      (\<forall>i < length (vector_columns p). datas i = Some (vs ! i))"
    "\<exists>keys ks. read_typed_values p KIND_AUXILIARY (auxiliary_columns p) e (column_values row)
        [0..<num_defined_user_columns p] Map.empty = Some (Inr keys) \<and>
      those (map keys [0..<length (auxiliary_columns p)]) = Some ks"
proof -
  note r = row_okD [OF assms(2)]
  have col: "column_ok p row vs i" if "i < num_defined_user_columns p" for i using r(3) that .
  show "\<exists>keys ks. read_partition_keys p (column_values row) = Some (Inr keys) \<and>
      those (map keys [0..<length (partition_columns p)]) = Some ks"
    using read_kind [OF assms(1) r(1), of "partition_columns p" KIND_PARTITION] col
    by (fastforce simp: read_partition_keys_def kind_count_def column_ok_def Let_def)
  show "\<exists>keys ks. read_typed_values p KIND_AUXILIARY (auxiliary_columns p) e (column_values row)
        [0..<num_defined_user_columns p] Map.empty = Some (Inr keys) \<and>
      those (map keys [0..<length (auxiliary_columns p)]) = Some ks"
    using read_kind [OF assms(1) r(1), of "auxiliary_columns p" KIND_AUXILIARY] col
    by (fastforce simp: kind_count_def column_ok_def Let_def)
  have "\<forall>i \<in> set [0..<num_defined_user_columns p]. user_column_kinds p ! i = KIND_VECTOR \<longrightarrow>
      user_column_idxs p ! i < length (vector_columns p) \<and>
      decoded row i = Inr (col_element_type (vector_columns p ! (user_column_idxs p ! i)),
        col_dimensions (vector_columns p ! (user_column_idxs p ! i)), vs ! (user_column_idxs p ! i))"
    using idx_less [OF assms(1)] col by (fastforce simp: column_ok_def kind_count_def Let_def)
  then obtain datas where "read_vectors p (decoded row) [0..<num_defined_user_columns p] Map.empty = Some (Inr datas)"
    "\<forall>m. datas m = (if m \<in> (!) (user_column_idxs p) ` {i \<in> set [0..<num_defined_user_columns p]. user_column_kinds p ! i = KIND_VECTOR}
       then Some (vs ! m) else None)"
    using read_vectors_ok [of "[0..<num_defined_user_columns p]" p "decoded row" vs Map.empty] by blast
  then show "\<exists>datas. read_vectors p (decoded row) [0..<num_defined_user_columns p] Map.empty = Some (Inr datas) \<and>
      (\<forall>i < length (vector_columns p). datas i = Some (vs ! i))"
    using idx_image [OF assms(1), of KIND_VECTOR] by (auto simp: kind_count_def)
qed

subsection \<open>A new chunk\<close>

definition add_vectors :: "vec0_vtab \<Rightarrow> int \<Rightarrow> nat set \<Rightarrow> 'g rows_view \<Rightarrow> 'g rows_view" where
  "add_vectors p c I st = st\<lparr>st_blobs := (\<lambda>col d. case col of
       Vectors i \<Rightarrow> if d = c \<and> i \<in> I then Some (zeros (table_chunk_size p * column_size p i)) else st_blobs st col d
     | _ \<Rightarrow> st_blobs st col d)\<rparr>"

lemma add_vectors_insert:
  "add_vectors p c I (set_blob st (Vectors i) c (zeros (table_chunk_size p * column_size p i))) = add_vectors p c (insert i I) st"
  by (auto simp: add_vectors_def set_blob_def fun_eq_iff split: blob_column.splits)

lemma add_vectors_none: "add_vectors p c {} st = st"
  by (auto simp: add_vectors_def fun_eq_iff split: blob_column.splits intro!: rows_view.equality)

lemma insert_no_blobs: "\<forall>i \<in> set is. user_column_kinds p ! i \<noteq> kind \<Longrightarrow> insert_blobs R p kind f c is db = Some (0, db)"
  by (induction "is") simp_all

lemma kind_idxs: "idxs_of_kind p kind = map ((!) (user_column_idxs p)) (filter (\<lambda>i. user_column_kinds p ! i = kind) [0..<num_defined_user_columns p])"
  by (simp add: idxs_of_kind_def)

lemma no_column_of_kind: "columns_ok p \<Longrightarrow> kind_count p kind = 0 \<Longrightarrow> \<forall>i \<in> set [0..<num_defined_user_columns p]. user_column_kinds p ! i \<noteq> kind"
  using idx_less by force

context row_store
begin

lemma insert_vector_blobs:
  assumes "distinct (map ((!) (user_column_idxs p)) (filter (\<lambda>i. user_column_kinds p ! i = KIND_VECTOR) is))"
    and "\<forall>i \<in> set is. user_column_kinds p ! i = KIND_VECTOR \<longrightarrow> user_column_idxs p ! i < length (vector_columns p)"
    and "\<And>m. st_blobs (rview db) (Vectors m) c = None \<or> m \<notin> (!) (user_column_idxs p) ` set (filter (\<lambda>i. user_column_kinds p ! i = KIND_VECTOR) is)"
  shows "\<exists>db'. insert_blobs R p KIND_VECTOR (vector_blob p) c is db = Some (0, db') \<and>
    rview db' = add_vectors p c ((!) (user_column_idxs p) ` set (filter (\<lambda>i. user_column_kinds p ! i = KIND_VECTOR) is)) (rview db)"
  using assms
proof (induction "is" arbitrary: db)
  case Nil
  then show ?case by (simp add: add_vectors_none)
next
  case (Cons i "is")
  show ?case
  proof (cases "user_column_kinds p ! i = KIND_VECTOR")
    case True
    define m where "m = user_column_idxs p ! i"
    have m: "m < length (vector_columns p)" "st_blobs (rview db) (Vectors m) c = None"
      using Cons.prems(2,3) True by (auto simp: m_def)
    obtain db1 where db1: "insert_zeroblob R db (Vectors m) c (table_chunk_size p * column_size p m) = (101, db1)"
      "rview db1 = set_blob (rview db) (Vectors m) c (zeros (table_chunk_size p * column_size p m))"
      using insert_zeroblob_ok [OF m(2)] by (metis prod.collapse)
    have "m \<notin> (!) (user_column_idxs p) ` set (filter (\<lambda>i. user_column_kinds p ! i = KIND_VECTOR) is)"
      using Cons.prems(1) True by (simp add: m_def)
    then have "st_blobs (rview db1) (Vectors k) c = None \<or> k \<notin> (!) (user_column_idxs p) ` set (filter (\<lambda>i. user_column_kinds p ! i = KIND_VECTOR) is)" for k
      using Cons.prems(3) [of k] by (cases "k = m") (auto simp: db1(2))
    then obtain db' where db': "insert_blobs R p KIND_VECTOR (vector_blob p) c is db1 = Some (0, db')"
      "rview db' = add_vectors p c ((!) (user_column_idxs p) ` set (filter (\<lambda>i. user_column_kinds p ! i = KIND_VECTOR) is)) (rview db1)"
      using Cons.IH [of db1] Cons.prems(1,2) True by auto
    have "insert_blobs R p KIND_VECTOR (vector_blob p) c (i # is) db = Some (0, db')"
      using True db1(1) db'(1) m(1) prepared by (simp add: vector_blob_def m_def [symmetric] column_size_def)
    then show ?thesis using db'(2) True add_vectors_insert unfolding db1(2) by (simp add: m_def)
  qed (use Cons in simp)
qed

lemma new_chunk_ok:
  assumes cols: "columns_ok p" "metadata_columns p = []" and keys: "those (map keys [0..<length (partition_columns p)]) = Some ks"
    and none: "\<And>c i. c \<notin> chunk_ids (rview db) \<Longrightarrow> st_blobs (rview db) (Vectors i) c = None"
  shows "\<exists>c db'. vec0_new_chunk R db p keys = Some (Inr c, db') \<and> c \<notin> chunk_ids (rview db) \<and> rview db' = chunk_added p c ks (rview db)"
proof -
  define n where "n = table_chunk_size p"
  obtain c db1 where c: "insert_chunk R db n (n div 8) (n * 8) ks = (101, c, db1)" "c \<notin> chunk_ids (rview db)"
    "rview db1 = add_chunk (rview db) c (n div 8) (n * 8) ks"
    using insert_chunk_ok [of db n "n div 8" "n * 8" ks] unfolding chunk_ids_def by (metis prod.collapse)
  have v: "map ((!) (user_column_idxs p)) (filter (\<lambda>i. user_column_kinds p ! i = KIND_VECTOR) [0..<num_defined_user_columns p]) =
      [0..<length (vector_columns p)]"
    using idxs_of_kind [OF cols(1), of KIND_VECTOR] by (simp add: kind_idxs kind_count_def)
  then have s: "(!) (user_column_idxs p) ` set (filter (\<lambda>i. user_column_kinds p ! i = KIND_VECTOR) [0..<num_defined_user_columns p]) =
      {..<length (vector_columns p)}"
    by (metis atLeast_upt list.set_map)
  have "\<exists>db'. insert_blobs R p KIND_VECTOR (vector_blob p) c [0..<num_defined_user_columns p] db1 = Some (0, db') \<and>
      rview db' = add_vectors p c {..<length (vector_columns p)} (rview db1)"
    unfolding s [symmetric]
  proof (rule insert_vector_blobs)
    show "\<forall>i \<in> set [0..<num_defined_user_columns p]. user_column_kinds p ! i = KIND_VECTOR \<longrightarrow> user_column_idxs p ! i < length (vector_columns p)"
      using idx_less [OF cols(1)] by (force simp: kind_count_def)
    show "st_blobs (rview db1) (Vectors m) c = None \<or> m \<notin> (!) (user_column_idxs p) `
        set (filter (\<lambda>i. user_column_kinds p ! i = KIND_VECTOR) [0..<num_defined_user_columns p])" for m
      using none [OF c(2)] by (simp add: c(3) add_chunk_def)
  qed (simp add: v)
  then obtain db2 where db2: "insert_blobs R p KIND_VECTOR (vector_blob p) c [0..<num_defined_user_columns p] db1 = Some (0, db2)"
    "rview db2 = add_vectors p c {..<length (vector_columns p)} (rview db1)" by blast
  have "kind_count p KIND_METADATA = 0" using cols(2) by (simp add: kind_count_def)
  note no_metadata = insert_no_blobs [OF no_column_of_kind [OF cols(1) this], of R "metadata_blob p" c db2]
  have "vec0_new_chunk R db p keys = Some (Inr c, db2)"
    unfolding vec0_new_chunk_def keys Let_def n_def [symmetric] prepared Option.bind.simps c(1) prod.case db2(1) no_metadata by simp
  moreover have "rview db2 = chunk_added p c ks (rview db)"
    unfolding db2(2) c(3) by (auto simp: add_vectors_def add_chunk_def chunk_added_def set_blob_def n_def fun_eq_iff
      split: blob_column.splits intro!: rows_view.equality)
  ultimately show ?thesis using c(2) by blast
qed

end

subsection \<open>The place for a row\<close>

abbreviation pending :: "int \<Rightarrow> 'g rows_view \<Rightarrow> 'g rows_view" where
  "pending r st \<equiv> st\<lparr>st_rowids := insert r (st_rowids st)\<rparr>"

lemma pending_simps [simp]:
  "chunk_ids (pending r st) = chunk_ids st" "blob (pending r st) = blob st" "has_blob (pending r st) = has_blob st"
  by (simp_all add: chunk_ids_def blob_def has_blob_def fun_eq_iff)

lemma pending_added [simp]: "chunk_added p c ks (pending r st) = pending r (chunk_added p c ks st)"
  by (auto simp: chunk_added_def fun_eq_iff intro!: rows_view.equality split: blob_column.splits)

lemma latest_chunk_in: "latest_chunk (st_chunks st) ks = Some c \<Longrightarrow> c \<in> chunk_ids st"
proof -
  assume l: "latest_chunk (st_chunks st) ks = Some c"
  define ids where "ids = map fst (filter (\<lambda>(_, ws). same_partition ws ks) (st_chunks st))"
  have "ids \<noteq> []" "c = Max (set ids)" using l by (auto simp: latest_chunk_def Let_def ids_def split: if_splits)
  then have "c \<in> set ids" by simp
  then show ?thesis by (force simp: ids_def chunk_ids_def)
qed

lemma has_blobD: "has_blob st col c n \<Longrightarrow> st_blobs st col c = Some (blob st col c)" "has_blob st col c n \<Longrightarrow> length (blob st col c) = n"
  by (auto simp: has_blob_def blob_def)

context row_store
begin

lemmas blob_calls = blobs.open_ok [simplified] blobs.bytes_ok [simplified] blobs.read_ok [simplified] blobs.malloc_ok blobs.close_ok

lemma whole_blob:
  assumes "has_blob (rview db) col c n"
  shows "blob_open S db col c = SQLITE_OK" "blob_bytes S db col c = n" "blob_read S db col c 0 n = Inr (blob (rview db) col c)"
    "j < m \<Longrightarrow> n = m * k \<Longrightarrow> blob_read S db col c (j * k) k = Inr (cell (blob (rview db) col c) k j)"
  using blob_calls(1-3) [OF has_blobD(1) [OF assms]] has_blobD(2) [OF assms] room_for_cell [of j m "blob (rview db) col c" k]
  by (simp_all add: cell_def)

lemma write_in_blob:
  assumes "has_blob (rview db) col c n" and "offset + length data \<le> n"
  shows "\<exists>db'. blob_write S db col c data offset = (SQLITE_OK, db') \<and>
    rview db' = change_blobs (\<lambda>col' bs. if col' = col then overwrite bs offset data else bs) c (rview db)"
proof -
  note b = has_blobD [OF assms(1)]
  have "offset + length data \<le> length (blob (rview db) col c)" using assms(2) b(2) by simp
  then have w: "fst (blob_write S db col c data offset) = SQLITE_OK"
    "rview (snd (blob_write S db col c data offset)) = set_blob (rview db) col c (overwrite (blob (rview db) col c) offset data)"
    using blobs.write_ok [of db col c, simplified, OF b(1)] write_rows [OF b(1)] by simp_all
  have "set_blob (rview db) col c (overwrite (blob (rview db) col c) offset data) =
      change_blobs (\<lambda>col' bs. if col' = col then overwrite bs offset data else bs) c (rview db)"
    using b(1) by (auto simp: set_blob_def change_blobs_def fun_eq_iff map_option.identity [unfolded id_def] intro!: rows_view.equality)
  then show ?thesis using w by (metis prod.collapse)
qed

text \<open>The place an insert finds: a chunk of the table, perhaps a new one, and an offset that no row has.\<close>

definition found_place :: "vec0_vtab \<Rightarrow> int \<Rightarrow> 'g rows_view \<Rightarrow> int \<Rightarrow> nat \<Rightarrow> byte list option \<Rightarrow> 'db \<Rightarrow> bool" where
  "found_place p r st c j buffer db \<longleftrightarrow> (\<exists>st'. rview db = pending r st' \<and> table_ok p st' \<and> table_rows p st' = table_rows p st \<and>
     st_rowids st' = st_rowids st \<and> st_aux st' = st_aux st \<and> c \<in> chunk_ids st' \<and> j < table_chunk_size p \<and>
     j \<notin> members (blob st' Chunks_validity c) \<and> buffer = Some (blob st' Chunks_validity c))"

lemma new_chunk_place_ok:
  assumes lay: "layout_ok p" "metadata_columns p = []" and keys: "those (map keys [0..<length (partition_columns p)]) = Some ks"
    and ok: "table_ok p st" and view: "rview db = pending r st"
  shows "\<exists>c buffer db'. new_chunk_place S R db p keys opened = Some (Inr (c, 0, buffer, db')) \<and> found_place p r st c 0 buffer db'"
proof -
  have l: "columns_ok p" "0 < table_chunk_size p" using lay(1) by (simp_all add: layout_ok_def)
  have none: "st_blobs (rview db) (Vectors i) c = None" if "c \<notin> chunk_ids (rview db)" for c i
    using table_okD(2) [OF ok] that by (simp add: view)
  obtain c db' where c: "vec0_new_chunk R db p keys = Some (Inr c, db')" "c \<notin> chunk_ids st" "rview db' = pending r (chunk_added p c ks st)"
    using new_chunk_ok [OF l(1) lay(2) keys, of db] none by (auto simp: view)
  note added = chunk_added_ok [OF ok c(2)]
  have has: "has_blob (rview db') Chunks_validity c (table_chunk_size p div 8)"
    using table_okD(1) [OF added(1,3)] by (simp add: c(3) chunk_ok_def)
  have "new_chunk_place S R db p keys opened = Some (Inr (c, 0, Some (blob (rview db') Chunks_validity c), db'))"
    unfolding new_chunk_place_def c(1) Option.bind.simps prod.case sum.case Let_def
    using whole_blob(1-3) [OF has] blobs.malloc_ok blobs.close_ok by simp
  moreover have "found_place p r st c 0 (Some (blob (rview db') Chunks_validity c)) db'"
    unfolding found_place_def by (rule exI [of _ "chunk_added p c ks st"])
      (use added l(2) in \<open>simp add: c(3), simp add: chunk_added_def\<close>)
  ultimately show ?thesis by blast
qed

lemma next_place_ok:
  assumes lay: "layout_ok p" "metadata_columns p = []" and keys: "those (map keys [0..<length (partition_columns p)]) = Some ks"
    and ok: "table_ok p st" and view: "rview db = pending r st"
  shows "\<exists>c j buffer db'. vec0Update_InsertNextAvailableStep S R db p keys = Some (Inr (c, j, buffer, db')) \<and>
    found_place p r st c j buffer db'"
proof (cases "latest_chunk (st_chunks (rview db)) ks")
  case None
  then have "vec0Update_InsertNextAvailableStep S R db p keys = new_chunk_place S R db p keys False"
    using keys max_chunk_ok [of db ks] prepared by (simp add: vec0Update_InsertNextAvailableStep_def vec0_get_latest_chunk_rowid_def)
  then show ?thesis using new_chunk_place_ok [OF assms, of False] by auto
next
  case (Some c)
  then have c: "c \<in> chunk_ids st" using latest_chunk_in [of "rview db"] by (simp add: view)
  have has: "has_blob (rview db) Chunks_validity c (table_chunk_size p div 8)"
    using table_okD(1) [OF ok c] by (simp add: view chunk_ok_def)
  have step: "vec0Update_InsertNextAvailableStep S R db p keys =
      (case free_place (blob st Chunks_validity c) 0 of
         Some j \<Rightarrow> Some (Inr (c, j, Some (blob st Chunks_validity c), db))
       | None \<Rightarrow> new_chunk_place S R db p keys True)"
    using keys max_chunk_ok [of db ks] prepared Some whole_blob(1-3) [OF has] blobs.malloc_ok
    by (simp add: vec0Update_InsertNextAvailableStep_def vec0_get_latest_chunk_rowid_def view)
  show ?thesis
  proof (cases "free_place (blob st Chunks_validity c) 0")
    case None
    then show ?thesis using new_chunk_place_ok [OF assms, of True] step by auto
  next
    case (Some j)
    have "length (blob st Chunks_validity c) = table_chunk_size p div 8" using has_blobD(2) [OF has] by (simp add: view)
    then have "j < table_chunk_size p" "j \<notin> members (blob st Chunks_validity c)"
      using free_place_Some [OF Some] by auto
    then have "found_place p r st c j (Some (blob st Chunks_validity c)) db"
      unfolding found_place_def by (intro exI [of _ st]) (simp add: view ok c)
    then show ?thesis using step Some by simp
  qed
qed

end

subsection \<open>Writing a row\<close>

definition put_vectors :: "vec0_vtab \<Rightarrow> nat \<Rightarrow> byte list list \<Rightarrow> nat set \<Rightarrow> blob_column \<Rightarrow> byte list \<Rightarrow> byte list" where
  "put_vectors p j vs I col bs =
     (case col of Vectors i \<Rightarrow> if i \<in> I then overwrite bs (j * column_size p i) (vs ! i) else bs | _ \<Rightarrow> bs)"

lemma change_change: "change_blobs f c (change_blobs g c st) = change_blobs (\<lambda>col bs. f col (g col bs)) c st"
  by (auto simp: change_blobs_def fun_eq_iff option.map_comp comp_def intro!: rows_view.equality)

lemma change_none:
  assumes "\<And>col bs. f col bs = bs"
  shows "change_blobs f c st = st"
proof -
  have "map_option (f col) x = x" for col x using assms by (cases x) simp_all
  then show ?thesis by (auto simp: change_blobs_def fun_eq_iff intro!: rows_view.equality)
qed

lemma change_pending: "change_blobs f c (pending r st) = pending r (change_blobs f c st)"
  by (auto simp: change_blobs_def fun_eq_iff intro!: rows_view.equality)

lemma has_blob_other: "has_blob st col d n \<Longrightarrow> (\<And>bs. f col bs = bs) \<Longrightarrow> has_blob (change_blobs f c st) col d n"
  by (rule has_blob_change) (simp_all add: has_blobD)

lemma put_one_vector:
  "i \<notin> I \<Longrightarrow> put_vectors p j vs I col (if col = Vectors i then overwrite bs (j * column_size p i) (vs ! i) else bs) =
     put_vectors p j vs (insert i I) col bs"
  by (auto simp: put_vectors_def split: blob_column.splits)

lemma vector_cells:
  assumes "layout_ok p" and "i < length (vector_columns p)"
  shows "(case col_element_type (vector_columns p ! i) of
        FLOAT32 \<Rightarrow> (col_dimensions (vector_columns p ! i) * 4, j * col_dimensions (vector_columns p ! i) * 4)
      | INT8 \<Rightarrow> (col_dimensions (vector_columns p ! i) * 1, j * col_dimensions (vector_columns p ! i) * 1)
      | BIT \<Rightarrow> (col_dimensions (vector_columns p ! i) div 8, j * col_dimensions (vector_columns p ! i) div 8)) =
    (column_size p i, j * column_size p i)"
proof -
  have "col_element_type (vector_columns p ! i) = BIT \<longrightarrow> col_dimensions (vector_columns p ! i) mod 8 = 0"
    using assms by (simp add: layout_ok_def)
  moreover have "j * d div 8 = j * (d div 8)" if "d mod 8 = 0" for d :: nat using that by (metis div_mult_swap mod_eq_0_iff_dvd)
  ultimately show ?thesis
    by (simp add: column_size_def column_byte_size_def vector_byte_size_def mult.assoc split: vector_element_type.splits)
qed

context row_store
begin

lemma write_vector_ok:
  assumes "layout_ok p" and "i < length (vector_columns p)" and "length v = column_size p i" and "j < table_chunk_size p"
    and has: "has_blob (rview db) (Vectors i) c (table_chunk_size p * column_size p i)"
  shows "\<exists>db'. vec0_write_vector_to_vector_blob S db i c j v (col_dimensions (vector_columns p ! i)) (col_element_type (vector_columns p ! i)) =
      Some (SQLITE_OK, db') \<and>
    rview db' = change_blobs (\<lambda>col bs. if col = Vectors i then overwrite bs (j * column_size p i) v else bs) c (rview db)"
proof -
  have "j * column_size p i + length v \<le> table_chunk_size p * column_size p i"
    using mult_le_mono1 [of "Suc j" "table_chunk_size p" "column_size p i"] assms(3,4) by simp
  moreover have "vec0_write_vector_to_vector_blob S db i c j v (col_dimensions (vector_columns p ! i)) (col_element_type (vector_columns p ! i)) =
      Some (blob_write S db (Vectors i) c v (j * column_size p i))"
    unfolding vec0_write_vector_to_vector_blob_def vector_cells [OF assms(1,2)] by (simp add: bytes_at_def assms(3) Let_def)
  ultimately show ?thesis using write_in_blob [OF has] by simp
qed

lemma write_vectors_ok:
  assumes lay: "layout_ok p" and fit: "rows_fit p vs" and j: "j < table_chunk_size p"
  shows "distinct is \<Longrightarrow>
    \<forall>i \<in> set is. i < length (vector_columns p) \<and> datas i = Some (vs ! i) \<and>
      has_blob (rview db) (Vectors i) c (table_chunk_size p * column_size p i) \<Longrightarrow>
    \<exists>db'. write_vectors S p c j datas is db = Some (SQLITE_OK, db') \<and>
      rview db' = change_blobs (put_vectors p j vs (set is)) c (rview db)"
proof (induction "is" arbitrary: db)
  case Nil
  have "change_blobs (put_vectors p j vs {}) c (rview db) = rview db"
    by (rule change_none) (simp add: put_vectors_def split: blob_column.splits)
  then show ?case unfolding write_vectors.simps list.set by metis
next
  case (Cons i "is")
  have i: "i < length (vector_columns p)" "datas i = Some (vs ! i)" "length (vs ! i) = column_size p i"
    and has: "has_blob (rview db) (Vectors i) c (table_chunk_size p * column_size p i)"
    using Cons.prems(2) fit by (simp_all add: rows_fit_def)
  obtain db1 where db1: "vec0_write_vector_to_vector_blob S db i c j (vs ! i) (col_dimensions (vector_columns p ! i))
      (col_element_type (vector_columns p ! i)) = Some (SQLITE_OK, db1)"
    "rview db1 = change_blobs (\<lambda>col bs. if col = Vectors i then overwrite bs (j * column_size p i) (vs ! i) else bs) c (rview db)"
    using write_vector_ok [OF lay i(1,3) j has] by blast
  have "has_blob (rview db1) (Vectors m) c (table_chunk_size p * column_size p m)" if "m \<in> set is" for m
    unfolding db1(2) using that Cons.prems by (intro has_blob_other) auto
  then obtain db' where db': "write_vectors S p c j datas is db1 = Some (SQLITE_OK, db')"
    "rview db' = change_blobs (put_vectors p j vs (set is)) c (rview db1)"
    using Cons.IH [of db1] Cons.prems by auto
  have "write_vectors S p c j datas (i # is) db = Some (SQLITE_OK, db')"
    using i db1(1) db'(1) whole_blob(1,2) [OF has] blobs.close_ok by (simp add: column_size_def)
  moreover have "rview db' = change_blobs (put_vectors p j vs (set (i # is))) c (rview db)"
    unfolding db'(2) db1(2) change_change using Cons.prems(1) put_one_vector [of i "set is"] by simp
  ultimately show ?case by blast
qed

lemma write_rowid_ok:
  assumes has: "has_blob (rview db) Chunks_rowids c (table_chunk_size p * 8)" and j: "j < table_chunk_size p" and r: "r \<in> st_rowids (rview db)"
  shows "\<exists>db'. write_rowid S R p c j r db = (SQLITE_OK, db') \<and>
    rview db' = (change_blobs (\<lambda>col bs. if col = Chunks_rowids then overwrite bs (j * 8) (i64_bytes r) else bs) c (rview db))
      \<lparr>st_position := (st_position (rview db))(r \<mapsto> (c, j))\<rparr>"
proof -
  have "j * 8 + length (i64_bytes r) \<le> table_chunk_size p * 8" using j by simp
  from write_in_blob [OF has this] obtain db1 where db1: "blob_write S db Chunks_rowids c (i64_bytes r) (j * 8) = (SQLITE_OK, db1)"
    "rview db1 = change_blobs (\<lambda>col bs. if col = Chunks_rowids then overwrite bs (j * 8) (i64_bytes r) else bs) c (rview db)" by blast
  have "r \<in> st_rowids (rview db1)" using r by (simp add: db1(2))
  then obtain db2 where db2: "update_position R db1 r c j = (101, db2)"
    "rview db2 = (rview db1)\<lparr>st_position := (st_position (rview db1))(r \<mapsto> (c, j))\<rparr>"
    using update_position_ok [of r db1 c j] by (metis prod.collapse)
  have "write_rowid S R p c j r db = (SQLITE_OK, db2)"
    using whole_blob(1,2) [OF has] db1(1) db2(1) prepared blobs.close_ok by (simp add: write_rowid_def vec0_rowids_update_position_def)
  then show ?thesis by (simp add: db2(2) db1(2))
qed

lemma write_final_ok:
  assumes w: "can_write p r c j vs st" and lay: "layout_ok p" and view: "rview db = pending r st"
    and datas: "\<And>i. i < length (vector_columns p) \<Longrightarrow> datas i = Some (vs ! i)"
  shows "\<exists>db'. vec0Update_InsertWriteFinalStep S R p c j r datas (Some (blob st Chunks_validity c)) db = Some (SQLITE_OK, db') \<and>
    rview db' = row_written p r c j vs (st_aux st) st"
proof -
  note w' = can_writeD [OF w]
  define v where "v = blob st Chunks_validity c"
  have has: "has_blob st Chunks_validity c (table_chunk_size p div 8)" "has_blob st Chunks_rowids c (table_chunk_size p * 8)"
    "\<And>i. i < length (vector_columns p) \<Longrightarrow> has_blob st (Vectors i) c (table_chunk_size p * column_size p i)"
    using w'(9) by (simp_all add: chunk_ok_def)
  have l: "length v = table_chunk_size p div 8" using has_blobD(2) [OF has(1)] by (simp add: v_def)
  then have jv: "j div 8 < length v" "j < 8 * length v" using w'(4) chunk_rows [OF w'(8)] by (simp_all add: div_less_iff_less_mult)
  define bits where "bits = [or (v ! (j div 8)) (push_bit (j mod 8) 1)]"
  have bits: "overwrite v (j div 8) bits = set_validity v j True"
    using jv by (simp add: bits_def overwrite_def set_validity(3) upd_conv_take_nth_drop)
  have "has_blob (rview db) Chunks_validity c (table_chunk_size p div 8)" "j div 8 + length bits \<le> table_chunk_size p div 8"
    using has(1) jv l by (simp_all add: view bits_def)
  from write_in_blob [OF this] obtain db1 where db1: "blob_write S db Chunks_validity c bits (j div 8) = (SQLITE_OK, db1)"
    "rview db1 = change_blobs (\<lambda>col bs. if col = Chunks_validity then overwrite bs (j div 8) bits else bs) c (pending r st)"
    unfolding view by blast
  have "\<forall>i \<in> set [0..<length (vector_columns p)]. i < length (vector_columns p) \<and> datas i = Some (vs ! i) \<and>
      has_blob (rview db1) (Vectors i) c (table_chunk_size p * column_size p i)"
    using datas has(3) unfolding db1(2) by (auto intro!: has_blob_other)
  from write_vectors_ok [OF lay w'(2,4) distinct_upt this] obtain db2
    where db2: "write_vectors S p c j datas [0..<length (vector_columns p)] db1 = Some (SQLITE_OK, db2)"
    "rview db2 = change_blobs (put_vectors p j vs {..<length (vector_columns p)}) c (rview db1)" by (auto simp: atLeast_upt)
  have "has_blob (rview db2) Chunks_rowids c (table_chunk_size p * 8)" "r \<in> st_rowids (rview db2)"
    unfolding db2(2) db1(2) change_change using has(2) by (auto simp: put_vectors_def intro!: has_blob_other)
  from write_rowid_ok [OF this(1) w'(4) this(2)] obtain db3 where db3: "write_rowid S R p c j r db2 = (SQLITE_OK, db3)"
    "rview db3 = (change_blobs (\<lambda>col bs. if col = Chunks_rowids then overwrite bs (j * 8) (i64_bytes r) else bs) c (rview db2))
      \<lparr>st_position := (st_position (rview db2))(r \<mapsto> (c, j))\<rparr>" by blast
  have "vec0Update_InsertWriteFinalStep S R p c j r datas (Some v) db = Some (SQLITE_OK, db3)"
    using db1(1) db2(1) db3(1) jv(1) by (simp add: vec0Update_InsertWriteFinalStep_def bits_def)
  moreover have "rview db3 = row_written p r c j vs (st_aux st) st"
  proof -
    have "st_blobs (rview db3) col d = st_blobs (row_written p r c j vs (st_aux st) st) col d" for col d
    proof (cases "d = c \<and> col = Chunks_validity")
      case True
      then show ?thesis using has_blobD(1) [OF has(1)] bits
        by (simp add: db3(2) db2(2) db1(2) row_written_def change_blobs_def put_row_def put_vectors_def v_def)
    next
      case False
      then show ?thesis
        by (cases "st_blobs st col d") (auto simp: db3(2) db2(2) db1(2) row_written_def change_blobs_def put_row_def put_vectors_def
          split: blob_column.splits)
    qed
    then show ?thesis by (intro rows_view.equality) (simp_all add: fun_eq_iff db3(2) db2(2) db1(2) row_written_def change_blobs_def)
  qed
  ultimately show ?thesis by (auto simp: v_def)
qed

end

subsection \<open>Inserting\<close>

context row_store
begin

lemma insert_aux_part:
  assumes cols: "columns_ok p" and row: "row_ok p row vs" and free: "st_aux (rview db) r = None"
  shows "\<exists>aux db'. insert_auxiliary R db p r (column_values row) = Some (SQLITE_OK, db') \<and>
    rview db' = (rview db)\<lparr>st_aux := aux\<rparr> \<and>
    dom aux = (if auxiliary_columns p = [] then dom (st_aux (rview db)) else insert r (dom (st_aux (rview db))))"
proof (cases "auxiliary_columns p")
  case Nil
  then show ?thesis by (intro exI [of _ "st_aux (rview db)"]) (simp add: insert_auxiliary_def)
next
  case (Cons a as)
  obtain keys ks where k: "read_typed_values p KIND_AUXILIARY (auxiliary_columns p) 19 (column_values row)
      [0..<num_defined_user_columns p] Map.empty = Some (Inr keys)" "those (map keys [0..<length (auxiliary_columns p)]) = Some ks"
    using read_row(3) [OF cols row] by blast
  obtain db' where db': "insert_aux R db r ks = (101, db')" "rview db' = (rview db)\<lparr>st_aux := (st_aux (rview db))(r \<mapsto> ks)\<rparr>"
    using insert_aux_ok [OF free, of ks] by (metis prod.collapse)
  have "insert_auxiliary R db p r (column_values row) = Some (SQLITE_OK, db')"
    using k db'(1) Cons prepared by (simp add: insert_auxiliary_def)
  then show ?thesis using db'(2) Cons by (intro exI [of _ "(st_aux (rview db))(r \<mapsto> ks)"]) auto
qed

lemma no_metadata_values:
  "\<forall>i \<in> set is. user_column_kinds p ! i \<noteq> KIND_METADATA \<Longrightarrow> write_metadata_values S D p r c j values is db = Some (SQLITE_OK, db)"
  by (induction "is") simp_all

lemma insert_ok:
  assumes lay: "layout_ok p" "metadata_columns p = []" "\<not> pk_is_text p" and row: "row_ok p row vs"
    and ok: "table_ok p (rview db)" and r: "r = value_int64 (id_value row)" "r \<in> i64_range" "r \<notin> st_rowids (rview db)"
  shows "\<exists>db'. vec0Update_Insert S R D p row db = Some (Inr r, db') \<and> table_ok p (rview db') \<and>
    table_rows p (rview db') = (table_rows p (rview db))(r \<mapsto> vs)"
proof -
  have cols: "columns_ok p" using lay(1) by (simp add: layout_ok_def)
  note row' = row_okD [OF row]
  obtain keys ks where k: "read_partition_keys p (column_values row) = Some (Inr keys)" "those (map keys [0..<length (partition_columns p)]) = Some ks"
    using read_row(1) [OF cols row] by blast
  obtain datas where d: "read_vectors p (decoded row) [0..<num_defined_user_columns p] Map.empty = Some (Inr datas)"
    "\<forall>i < length (vector_columns p). datas i = Some (vs ! i)"
    using read_row(2) [OF cols row] by blast
  obtain db1 where db1: "insert_rowid R db r = (101, db1)" "rview db1 = pending r (rview db)"
    using insert_rowid_ok [OF r(3)] by (metis prod.collapse)
  have id: "vec0Update_InsertRowidStep R db p (id_value row) = (Inr r, db1)"
    using row'(4) lay(3) r(1) db1(1) prepared by (simp add: vec0Update_InsertRowidStep_def vec0_rowids_insert_rowid_def)
  obtain c j buffer db2 where p2: "vec0Update_InsertNextAvailableStep S R db1 p keys = Some (Inr (c, j, buffer, db2))"
    "found_place p r (rview db) c j buffer db2"
    using next_place_ok [OF lay(1,2) k(2) ok db1(2)] by blast
  obtain st where st: "rview db2 = pending r st" "table_ok p st" "table_rows p st = table_rows p (rview db)"
    "st_rowids st = st_rowids (rview db)" "st_aux st = st_aux (rview db)" "c \<in> chunk_ids st" "j < table_chunk_size p"
    "j \<notin> members (blob st Chunks_validity c)" "buffer = Some (blob st Chunks_validity c)"
    using p2(2) unfolding found_place_def by blast
  have w: "can_write p r c j vs st" using st row'(2) lay(1) r by (simp add: can_write_def)
  obtain db3 where db3: "vec0Update_InsertWriteFinalStep S R p c j r datas buffer db2 = Some (SQLITE_OK, db3)"
    "rview db3 = row_written p r c j vs (st_aux st) st"
    using write_final_ok [OF w lay(1) st(1)] d(2) st(9) by blast
  have doma: "dom (st_aux st) = (if auxiliary_columns p = [] then {} else st_rowids st)" using table_okD(5) [OF st(2)] .
  then have "r \<notin> dom (st_aux st)" using r(3) st(4) by (simp split: if_splits)
  then have "st_aux (rview db3) r = None" by (auto simp: db3(2) row_written_def)
  then obtain aux db4 where db4: "insert_auxiliary R db3 p r (column_values row) = Some (SQLITE_OK, db4)"
    "rview db4 = (rview db3)\<lparr>st_aux := aux\<rparr>"
    "dom aux = (if auxiliary_columns p = [] then dom (st_aux (rview db3)) else insert r (dom (st_aux (rview db3))))"
    using insert_aux_part [OF cols row] by blast
  have "kind_count p KIND_METADATA = 0" using lay(2) by (simp add: kind_count_def)
  note none = no_metadata_values [OF no_column_of_kind [OF cols this], of D r c j "column_values row" db4]
  have "vec0Update_Insert S R D p row db = Some (Inr r, db4)"
    unfolding vec0Update_Insert_def k(1) d(1) Option.bind.simps sum.case insert_steps_def id prod.case p2(1) db3(1) db4(1) none
    using row'(5,6) blobs.close_ok by simp
  moreover have "rview db4 = row_written p r c j vs aux st" by (simp add: db4(2) db3(2) row_written_def)
  moreover have "dom aux = (if auxiliary_columns p = [] then {} else insert r (st_rowids st))"
    using doma by (simp add: db4(3) db3(2) row_written_def)
  ultimately show ?thesis using row_written_ok [OF w] st(3) by auto
qed

text \<open>A row id that is in the table is refused, and the table stays as it is.\<close>

lemma insert_taken:
  assumes lay: "layout_ok p" "\<not> pk_is_text p" and row: "row_ok p row vs"
    and r: "value_int64 (id_value row) \<in> st_rowids (rview db)"
  shows "\<exists>db'. vec0Update_Insert S R D p row db = Some (Inl SQLITE_ERROR, db') \<and> rview db' = rview db"
proof -
  have cols: "columns_ok p" using lay(1) by (simp add: layout_ok_def)
  note row' = row_okD [OF row]
  obtain keys where k: "read_partition_keys p (column_values row) = Some (Inr keys)" using read_row(1) [OF cols row] by blast
  obtain datas where d: "read_vectors p (decoded row) [0..<num_defined_user_columns p] Map.empty = Some (Inr datas)"
    using read_row(2) [OF cols row] by blast
  obtain rc db1 where db1: "insert_rowid R db (value_int64 (id_value row)) = (rc, db1)" "rc \<noteq> 101" "rview db1 = rview db"
    using insert_rowid_taken [OF r] by (metis prod.collapse)
  have id: "vec0Update_InsertRowidStep R db p (id_value row) = (Inl SQLITE_ERROR, db1)"
    using row'(4) lay(2) db1(1,2) prepared by (simp add: vec0Update_InsertRowidStep_def vec0_rowids_insert_rowid_def)
  have "vec0Update_Insert S R D p row db = Some (Inl SQLITE_ERROR, db1)"
    unfolding vec0Update_Insert_def k(1) d(1) Option.bind.simps sum.case insert_steps_def id prod.case using row'(5,6) by simp
  then show ?thesis using db1(3) by blast
qed

subsection \<open>Reading and deleting\<close>

lemma position_ok:
  assumes "table_ok p (rview db)"
  shows "vec0_get_chunk_position R db r = (case st_position (rview db) r of None \<Rightarrow> Inl SQLITE_EMPTY | Some pos \<Rightarrow> Inr pos)"
proof -
  have "r \<in> st_rowids (rview db) \<longleftrightarrow> st_position (rview db) r \<noteq> None" using table_okD(3) [OF assms] by (metis domIff)
  then show ?thesis using select_position_ok [of db r] prepared
    by (cases "st_position (rview db) r") (simp_all add: vec0_get_chunk_position_def)
qed

lemma get_vector_ok:
  assumes ok: "table_ok p (rview db)" and i: "i < length (vector_columns p)"
  shows "vec0_get_vector_data S R db p r i =
    Some (case table_rows p (rview db) r of None \<Rightarrow> Inl SQLITE_EMPTY | Some vs \<Rightarrow> Inr (vs ! i))"
proof (cases "st_position (rview db) r")
  case None
  then show ?thesis using i position_ok [OF ok, of r] by (simp add: vec0_get_vector_data_def table_rows_def)
next
  case (Some pos)
  obtain c j where pos: "pos = (c, j)" by (cases pos)
  note place = row_place [OF ok Some [unfolded pos]]
  have has: "has_blob (rview db) (Vectors i) c (table_chunk_size p * column_size p i)" using place(2) i by (simp add: chunk_ok_def)
  note b = whole_blob(1) [OF has] whole_blob(4) [OF has place(4) refl]
  have sz: "column_byte_size (vector_columns p ! i) = column_size p i" by (simp add: column_size_def)
  have "table_rows p (rview db) r = Some (place_vectors p (rview db) c j)" by (simp add: table_rows_def Some pos)
  moreover have "place_vectors p (rview db) c j ! i = cell (blob (rview db) (Vectors i) c) (column_size p i) j"
    using i by (simp add: place_vectors_def)
  ultimately show ?thesis using i position_ok [OF ok, of r] b blobs.malloc_ok blobs.close_ok
    by (simp add: vec0_get_vector_data_def Some pos Let_def sz)
qed

lemma clear_validity_ok:
  assumes ok: "table_ok p (rview db)" and pos: "st_position (rview db) r = Some (c, j)"
  shows "\<exists>db'. vec0Update_Delete_ClearValidity S db c j = Some (SQLITE_OK, db') \<and> rview db' = change_blobs (clear_row j) c (rview db)"
proof -
  note place = row_place [OF ok pos]
  define v where "v = blob (rview db) Chunks_validity c"
  have has: "has_blob (rview db) Chunks_validity c (table_chunk_size p div 8)" using place(2) by (simp add: chunk_ok_def)
  have l: "length v = table_chunk_size p div 8" using has_blobD(2) [OF has] by (simp add: v_def)
  have m: "j < 8 * length v" "j div 8 < length v" "bit (v ! (j div 8)) (j mod 8)" using place(3) by (auto simp: in_members v_def)
  have "blob_read S db Chunks_validity c (j div 8 * 1) 1 = Inr (cell v 1 (j div 8))"
    using whole_blob(4) [OF has, of "j div 8" "table_chunk_size p div 8" 1] m(2) l by (simp add: v_def)
  then have read: "blob_read S db Chunks_validity c (j div 8) 1 = Inr [v ! (j div 8)]"
    using m(2) by (simp add: cell_def take_Suc hd_drop_conv_nth)
  define bits where "bits = [and (v ! (j div 8)) (not (push_bit (j mod 8) 1))]"
  have bits: "overwrite v (j div 8) bits = set_validity v j False"
    using m(1,2) by (simp add: bits_def overwrite_def set_validity(3) upd_conv_take_nth_drop)
  have "drop_bit (j mod 8) (v ! (j div 8)) \<noteq> 0" using m(3) bit_test [of "j mod 8" "v ! (j div 8)"] by auto
  moreover have "j div 8 + length bits \<le> table_chunk_size p div 8" using m(2) l by (simp add: bits_def)
  from write_in_blob [OF has this] obtain db' where db': "blob_write S db Chunks_validity c bits (j div 8) = (SQLITE_OK, db')"
    "rview db' = change_blobs (\<lambda>col bs. if col = Chunks_validity then overwrite bs (j div 8) bits else bs) c (rview db)" by blast
  ultimately have "vec0Update_Delete_ClearValidity S db c j = Some (SQLITE_OK, db')"
    using whole_blob(1) [OF has] read blobs.close_ok by (simp add: vec0Update_Delete_ClearValidity_def bits_def)
  moreover have "rview db' = change_blobs (clear_row j) c (rview db)"
  proof -
    have "map_option (\<lambda>bs. if col = Chunks_validity then overwrite bs (j div 8) bits else bs) (st_blobs (rview db) col c) =
        map_option (clear_row j col) (st_blobs (rview db) col c)" for col
      using has_blobD(1) [OF has] bits by (cases "col = Chunks_validity") (auto simp: clear_row_def v_def intro: option.map_cong)
    then show ?thesis by (auto simp: db'(2) change_blobs_def fun_eq_iff intro!: rows_view.equality)
  qed
  ultimately show ?thesis by blast
qed

lemma delete_ok:
  assumes lay: "metadata_columns p = []" "\<not> pk_is_text p" and ok: "table_ok p (rview db)"
    and r: "r = value_int64 idValue" "table_rows p (rview db) r \<noteq> None"
  shows "\<exists>db'. vec0Update_Delete S R D p idValue db = Some (SQLITE_OK, db') \<and> table_ok p (rview db') \<and>
    table_rows p (rview db') = (table_rows p (rview db))(r := None)"
proof -
  obtain c j where pos: "st_position (rview db) r = Some (c, j)" using r(2) by (auto simp: table_rows_def)
  obtain db1 where db1: "vec0Update_Delete_ClearValidity S db c j = Some (SQLITE_OK, db1)" "rview db1 = change_blobs (clear_row j) c (rview db)"
    using clear_validity_ok [OF ok pos] by blast
  obtain db2 where db2: "delete_rowid R db1 r = (101, db2)"
    "rview db2 = (rview db1)\<lparr>st_rowids := st_rowids (rview db1) - {r}, st_position := (st_position (rview db1))(r := None)\<rparr>"
    using delete_rowid_ok [of db1 r] by (metis prod.collapse)
  obtain db3 where db3: "delete_aux R db2 r = (101, db3)" "rview db3 = (rview db2)\<lparr>st_aux := (st_aux (rview db2))(r := None)\<rparr>"
    using delete_aux_ok [of db2 r] by (metis prod.collapse)
  define aux where "aux = (if auxiliary_columns p = [] then st_aux (rview db) else (st_aux (rview db))(r := None))"
  define db' where "db' = (if auxiliary_columns p = [] then db2 else db3)"
  have "vec0Update_Delete S R D p idValue db = Some (SQLITE_OK, db')"
    using position_ok [OF ok, of r] db1(1) db2(1) db3(1) lay prepared
    by (simp add: r(1) [symmetric] vec0Update_Delete_def pos vec0Update_Delete_DeleteRowids_def vec0Update_Delete_DeleteAux_def db'_def)
  moreover have "rview db' = row_cleared r c j aux (rview db)"
    by (simp add: db'_def db3(2) db2(2) db1(2) row_cleared_def aux_def)
  moreover have "dom aux = (if auxiliary_columns p = [] then {} else st_rowids (rview db) - {r})"
    using table_okD(5) [OF ok] by (simp add: aux_def)
  ultimately show ?thesis using row_cleared_ok [OF ok pos] by auto
qed

lemma delete_unknown:
  assumes "\<not> pk_is_text p" and "table_ok p (rview db)" and "table_rows p (rview db) (value_int64 idValue) = None"
  shows "vec0Update_Delete S R D p idValue db = Some (SQLITE_EMPTY, db)"
  using position_ok [OF assms(2), of "value_int64 idValue"] assms(1,3)
  by (simp add: vec0Update_Delete_def table_rows_def)

end

subsection \<open>Updating\<close>

text \<open>\<open>vs'\<close> are the vectors of a row with vectors \<open>vs\<close> after an update: those of the columns given a value, and the old ones.\<close>

definition new_row :: "vec0_vtab \<Rightarrow> 'g update_row \<Rightarrow> byte list list \<Rightarrow> byte list list \<Rightarrow> bool" where
  "new_row p row vs vs' \<longleftrightarrow> length (new_values row) = num_defined_user_columns p \<and> rows_fit p vs' \<and>
     (\<forall>i < num_defined_user_columns p.
        let idx = user_column_idxs p ! i
        in case user_column_kinds p ! i of
          KIND_VECTOR \<Rightarrow> if value_type (new_values row ! i) = SQLITE_NULL then vs' ! idx = vs ! idx
            else new_vectors row i = Inr (col_element_type (vector_columns p ! idx), col_dimensions (vector_columns p ! idx), vs' ! idx)
        | KIND_PARTITION \<Rightarrow> nochange row i
        | _ \<Rightarrow> True)"

lemma row_revised_ok:
  assumes lay: "layout_ok p" and ok: "table_ok p st" and pos: "st_position st r = Some (c, j)" and fit: "rows_fit p vs'"
    and old: "table_rows p st r = Some vs" and I: "\<And>m. m < length vs \<Longrightarrow> m \<notin> I \<Longrightarrow> vs' ! m = vs ! m"
  shows "table_ok p (change_blobs (put_vectors p j vs' I) c st)"
    "table_rows p (change_blobs (put_vectors p j vs' I) c st) = (table_rows p st)(r \<mapsto> vs')"
proof -
  define st' where "st' = change_blobs (put_vectors p j vs' I) c st"
  note ok' = table_okD [OF ok] and place = row_place [OF ok]
  note at = place [OF pos]
  have fields: "st_rowids st' = st_rowids st" "st_position st' = st_position st" "st_aux st' = st_aux st" "chunk_ids st' = chunk_ids st"
    by (simp_all add: st'_def)
  have same: "blob st' col d = blob st col d" if "has_blob st col d n" "\<forall>i. col \<noteq> Vectors i" for col d n
    using blob_change [OF that(1)] that(2) by (cases col) (simp_all add: st'_def put_vectors_def)
  have same_has: "has_blob st' col d n" if "has_blob st col d n" "\<forall>i. col \<noteq> Vectors i" for col d n
    unfolding st'_def by (rule has_blob_other [OF that(1)]) (use that(2) in \<open>cases col; simp add: put_vectors_def\<close>)
  have vec: "blob st' (Vectors i) d = (if d = c \<and> i \<in> I then overwrite (blob st (Vectors i) d) (j * column_size p i) (vs' ! i) else blob st (Vectors i) d)"
    if "has_blob st (Vectors i) d n" for i d n
    using blob_change [OF that] by (simp add: st'_def put_vectors_def)
  have len: "length (vs' ! i) = column_size p i" if "i < length (vector_columns p)" for i using fit that by (simp add: rows_fit_def)
  have vhas: "has_blob st' (Vectors i) d (table_chunk_size p * column_size p i)"
    if "has_blob st (Vectors i) d (table_chunk_size p * column_size p i)" "i < length (vector_columns p)" for i d
    unfolding st'_def
    by (rule has_blob_change [OF that(1)])
      (use room_for_cell [OF at(4) has_blobD(2) [OF that(1)]] len [OF that(2)] has_blobD(2) [OF that(1)] in \<open>simp add: put_vectors_def\<close>)
  have "chunk_ok p st' d" if "d \<in> chunk_ids st" for d
    using ok'(1) [OF that] same_has vhas by (simp add: chunk_ok_def)
  moreover have "st_blobs st' (Vectors i) d = None" if "d \<notin> chunk_ids st" for i d
    using ok'(2) [OF that] that at(1) by (auto simp: st'_def change_blobs_def)
  moreover have "valid_places st' = valid_places st"
  proof -
    have "blob st' Chunks_validity d = blob st Chunks_validity d" if "d \<in> chunk_ids st" for d
      using same [of Chunks_validity d] ok'(1) [OF that] by (auto simp: chunk_ok_def)
    then show ?thesis by (auto simp: valid_places_def fields)
  qed
  moreover have "cell (blob st' Chunks_rowids d) 8 i = i64_bytes s" if "st_position st s = Some (d, i)" for s d i
    using ok'(7) [OF that] same [of Chunks_rowids d] place(2) [OF that] by (auto simp: chunk_ok_def)
  ultimately show "table_ok p (change_blobs (put_vectors p j vs' I) c st)"
    using ok'(3-6) unfolding table_ok_def st'_def [symmetric] by (simp add: fields)
  have lens: "length vs' = length (vector_columns p)" using fit by (simp add: rows_fit_def)
  have vs: "vs = place_vectors p st c j" using old pos by (simp add: table_rows_def)
  have cells: "place_vectors p st' d i = (if (d, i) = (c, j) then vs' else place_vectors p st d i)"
    if d: "d \<in> chunk_ids st" "i < table_chunk_size p" for d i
  proof (rule nth_equalityI)
    fix m assume "m < length (place_vectors p st' d i)"
    then have m: "m < length (vector_columns p)" by (simp add: place_vectors_def)
    have h: "has_blob st (Vectors m) d (table_chunk_size p * column_size p m)" using ok'(1) [OF d(1)] m by (simp add: chunk_ok_def)
    have "m \<notin> I \<Longrightarrow> vs' ! m = cell (blob st (Vectors m) c) (column_size p m) j" using I [of m] m by (simp add: vs place_vectors_def)
    then show "place_vectors p st' d i ! m = (if (d, i) = (c, j) then vs' else place_vectors p st d i) ! m"
      using m cell_overwrite [OF at(4) d(2) has_blobD(2) [OF h] len [OF m]] vec [OF h]
      by (cases "d = c"; cases "i = j") (simp_all add: place_vectors_def)
  qed (simp add: place_vectors_def lens)
  show "table_rows p (change_blobs (put_vectors p j vs' I) c st) = (table_rows p st)(r \<mapsto> vs')"
  proof
    fix s
    have "(d, i) \<noteq> (c, j)" if "st_position st s = Some (d, i)" "s \<noteq> r" for d i
      using place_row_unique [OF ok pos] that by auto
    then show "table_rows p (change_blobs (put_vectors p j vs' I) c st) s = ((table_rows p st)(r \<mapsto> vs')) s"
      using place(1,4) [of s] cells at(1,4) pos unfolding st'_def [symmetric]
      by (cases "st_position st s") (auto simp: table_rows_def fields)
  qed
qed

lemma revised_aux: "dom aux = dom (st_aux st) \<Longrightarrow> table_ok p (st\<lparr>st_aux := aux\<rparr>) = table_ok p st \<and>
    table_rows p (st\<lparr>st_aux := aux\<rparr>) = table_rows p st"
  by (simp add: table_ok_def table_rows_def chunk_ok_def has_blob_def blob_def chunk_ids_def valid_places_def place_vectors_def fun_eq_iff)

context row_store
begin

lemma update_auxiliary_ok:
  assumes "\<forall>i \<in> set is. i < length (new_values row)"
  shows "\<exists>aux db'. update_auxiliary R p r row is db = Some (SQLITE_OK, db') \<and> rview db' = (rview db)\<lparr>st_aux := aux\<rparr> \<and>
    dom aux = dom (st_aux (rview db))"
  using assms
proof (induction "is" arbitrary: db)
  case Nil
  then show ?case by (intro exI [of _ "st_aux (rview db)"]) simp
next
  case (Cons i "is")
  show ?case
  proof (cases "user_column_kinds p ! i \<noteq> KIND_AUXILIARY \<or> nochange row i")
    case True
    then show ?thesis using Cons by simp
  next
    case False
    define aux where "aux = (st_aux (rview db))(r := map_option (\<lambda>vs. vs[user_column_idxs p ! i := new_values row ! i]) (st_aux (rview db) r))"
    obtain db1 where db1: "update_aux R db (user_column_idxs p ! i) (new_values row ! i) r = (101, db1)" "rview db1 = (rview db)\<lparr>st_aux := aux\<rparr>"
      using update_aux_ok [of db "user_column_idxs p ! i" "new_values row ! i" r] unfolding aux_def by (metis prod.collapse)
    have "dom aux = dom (st_aux (rview db))" by (auto simp: aux_def)
    moreover obtain aux' db' where "update_auxiliary R p r row is db1 = Some (SQLITE_OK, db')" "rview db' = (rview db1)\<lparr>st_aux := aux'\<rparr>"
      "dom aux' = dom (st_aux (rview db1))" using Cons.IH [of db1] Cons.prems by auto
    ultimately show ?thesis using False Cons.prems db1 prepared
      by (intro exI [of _ aux'] exI [of _ db']) (simp add: vec0Update_UpdateAuxColumn_def)
  qed
qed

lemma update_no_metadata:
  "\<forall>i \<in> set is. user_column_kinds p ! i \<noteq> KIND_METADATA \<Longrightarrow> update_metadata S D p r c j row is db = Some (SQLITE_OK, db)"
  by (induction "is") simp_all

definition given_vectors :: "vec0_vtab \<Rightarrow> 'g update_row \<Rightarrow> nat list \<Rightarrow> nat list" where
  "given_vectors p row is =
     map ((!) (user_column_idxs p)) (filter (\<lambda>i. user_column_kinds p ! i = KIND_VECTOR \<and> value_type (new_values row ! i) \<noteq> SQLITE_NULL) is)"

lemma update_vectors_ok:
  assumes lay: "layout_ok p" and row: "new_row p row vs vs'" and j: "j < table_chunk_size p"
  shows "distinct (given_vectors p row is) \<Longrightarrow> \<forall>i \<in> set is. i < num_defined_user_columns p \<Longrightarrow>
    \<forall>m < length (vector_columns p). has_blob (rview db) (Vectors m) c (table_chunk_size p * column_size p m) \<Longrightarrow>
    \<exists>db'. update_vectors S p c j row is db = Some (SQLITE_OK, db') \<and>
      rview db' = change_blobs (put_vectors p j vs' (set (given_vectors p row is))) c (rview db)"
proof (induction "is" arbitrary: db)
  case Nil
  have "change_blobs (put_vectors p j vs' {}) c (rview db) = rview db"
    by (rule change_none) (simp add: put_vectors_def split: blob_column.splits)
  then show ?case by (simp add: given_vectors_def)
next
  case (Cons i "is")
  have cols: "columns_ok p" using lay by (simp add: layout_ok_def)
  have i: "i < num_defined_user_columns p" "i < length (new_values row)" using Cons.prems(2) row by (simp_all add: new_row_def)
  show ?case
  proof (cases "user_column_kinds p ! i = KIND_VECTOR \<and> value_type (new_values row ! i) \<noteq> SQLITE_NULL")
    case False
    then have "update_vectors S p c j row (i # is) db = update_vectors S p c j row is db"
      "given_vectors p row (i # is) = given_vectors p row is" using i by (auto simp: given_vectors_def)
    then show ?thesis using Cons by simp
  next
    case True
    define m where "m = user_column_idxs p ! i"
    have g: "given_vectors p row (i # is) = m # given_vectors p row is" using True by (simp add: given_vectors_def m_def)
    have m: "m < length (vector_columns p)" using idx_less [OF cols i(1)] True by (simp add: m_def kind_count_def)
    have new: "new_vectors row i = Inr (col_element_type (vector_columns p ! m), col_dimensions (vector_columns p ! m), vs' ! m)"
      and len: "length (vs' ! m) = column_size p m"
      using row i(1) True m by (auto simp: new_row_def m_def Let_def rows_fit_def)
    have has: "has_blob (rview db) (Vectors m) c (table_chunk_size p * column_size p m)" using Cons.prems(3) m by blast
    obtain db1 where db1: "vec0_write_vector_to_vector_blob S db m c j (vs' ! m) (col_dimensions (vector_columns p ! m))
        (col_element_type (vector_columns p ! m)) = Some (SQLITE_OK, db1)"
      "rview db1 = change_blobs (\<lambda>col bs. if col = Vectors m then overwrite bs (j * column_size p m) (vs' ! m) else bs) c (rview db)"
      using write_vector_ok [OF lay m len j has] by blast
    have "has_blob (rview db1) (Vectors k) c (table_chunk_size p * column_size p k)" if k: "k < length (vector_columns p)" for k
    proof -
      have h: "has_blob (rview db) (Vectors k) c (table_chunk_size p * column_size p k)" using Cons.prems(3) k by blast
      show ?thesis unfolding db1(2)
        by (rule has_blob_change [OF h]) (use room_for_cell [OF j has_blobD(2) [OF h]] has_blobD(2) [OF h] len in auto)
    qed
    then obtain db' where db': "update_vectors S p c j row is db1 = Some (SQLITE_OK, db')"
      "rview db' = change_blobs (put_vectors p j vs' (set (given_vectors p row is))) c (rview db1)"
      using Cons.IH [of db1] Cons.prems(1,2) g by auto
    have "update_vectors S p c j row (i # is) db = Some (SQLITE_OK, db')"
      using True i(2) new m db1(1) db'(1) whole_blob(1) [OF has] blobs.close_ok
      by (simp add: vec0Update_UpdateVectorColumn_def m_def [symmetric])
    moreover have "rview db' = change_blobs (put_vectors p j vs' (set (given_vectors p row (i # is)))) c (rview db)"
      unfolding db'(2) db1(2) change_change g using Cons.prems(1) put_one_vector [of m "set (given_vectors p row is)"] by (simp add: g)
    ultimately show ?thesis by blast
  qed
qed

lemma update_ok:
  assumes lay: "layout_ok p" "metadata_columns p = []" "\<not> pk_is_text p" and ok: "table_ok p (rview db)"
    and r: "table_rows p (rview db) (value_int64 (old_id row)) = Some vs" and row: "new_row p row vs vs'"
  shows "\<exists>db'. vec0Update_Update S R D p row db = Some (SQLITE_OK, db') \<and> table_ok p (rview db') \<and>
    table_rows p (rview db') = (table_rows p (rview db))(value_int64 (old_id row) \<mapsto> vs')"
proof -
  define id where "id = value_int64 (old_id row)"
  define columns where "columns = [0..<num_defined_user_columns p]"
  have cols: "columns_ok p" using lay(1) by (simp add: layout_ok_def)
  obtain c j where pos: "st_position (rview db) id = Some (c, j)" using r by (auto simp: table_rows_def id_def)
  note place = row_place [OF ok pos]
  have "list_all (\<lambda>i. user_column_kinds p ! i = KIND_PARTITION \<longrightarrow> nochange row i) columns"
    using row by (fastforce simp: new_row_def list_all_iff columns_def Let_def)
  then have part: "\<not> partition_changed p row" by (auto simp: partition_changed_def list_ex_iff list_all_iff columns_def)
  have "\<forall>i \<in> set columns. i < length (new_values row)" using row by (simp add: new_row_def columns_def)
  from update_auxiliary_ok [OF this] obtain aux db1 where db1: "update_auxiliary R p id row columns db = Some (SQLITE_OK, db1)"
    "rview db1 = (rview db)\<lparr>st_aux := aux\<rparr>" "dom aux = dom (st_aux (rview db))" by blast
  have ok1: "table_ok p (rview db1)" "table_rows p (rview db1) = table_rows p (rview db)" "st_position (rview db1) id = Some (c, j)"
    using revised_aux [OF db1(3)] ok pos by (simp_all add: db1(2))
  have "kind_count p KIND_METADATA = 0" using lay(2) by (simp add: kind_count_def)
  note none = update_no_metadata [OF no_column_of_kind [OF cols this], of D id c j row db1, folded columns_def]
  have dist: "distinct (given_vectors p row columns)"
  proof -
    have "distinct (idxs_of_kind p KIND_VECTOR)" using idxs_of_kind [OF cols] by simp
    then have "inj_on ((!) (user_column_idxs p)) (set (filter (\<lambda>i. user_column_kinds p ! i = KIND_VECTOR) columns))"
      by (simp add: kind_idxs distinct_map columns_def)
    then have "inj_on ((!) (user_column_idxs p)) (set (filter (\<lambda>i. user_column_kinds p ! i = KIND_VECTOR \<and> value_type (new_values row ! i) \<noteq> SQLITE_NULL) columns))"
      by (rule inj_on_subset) auto
    then show ?thesis by (simp add: given_vectors_def distinct_map columns_def)
  qed
  have "\<forall>m < length (vector_columns p). has_blob (rview db1) (Vectors m) c (table_chunk_size p * column_size p m)"
    using row_place(2) [OF ok1(1,3)] by (simp add: chunk_ok_def)
  from update_vectors_ok [OF lay(1) row place(4) dist _ this] obtain db' where db': "update_vectors S p c j row columns db1 = Some (SQLITE_OK, db')"
    "rview db' = change_blobs (put_vectors p j vs' (set (given_vectors p row columns))) c (rview db1)" by (auto simp: columns_def)
  have "vs' ! m = vs ! m" if m: "m < length vs" "m \<notin> set (given_vectors p row columns)" for m
  proof -
    have "length vs = length (vector_columns p)" using r pos by (auto simp: table_rows_def place_vectors_def id_def)
    then have "m \<in> (!) (user_column_idxs p) ` {i. i < num_defined_user_columns p \<and> user_column_kinds p ! i = KIND_VECTOR}"
      using m(1) idx_image [OF cols, of KIND_VECTOR] by (simp add: kind_count_def)
    then obtain i where i: "i < num_defined_user_columns p" "user_column_kinds p ! i = KIND_VECTOR" "m = user_column_idxs p ! i" by blast
    then have "value_type (new_values row ! i) = SQLITE_NULL" using m(2) by (auto simp: given_vectors_def columns_def)
    then show ?thesis using row i by (auto simp: new_row_def Let_def)
  qed
  moreover have "rows_fit p vs'" using row by (simp add: new_row_def)
  ultimately have "table_ok p (rview db')" "table_rows p (rview db') = (table_rows p (rview db))(id \<mapsto> vs')"
    using row_revised_ok [OF lay(1) ok1(1,3), of vs' vs "set (given_vectors p row columns)"] r ok1(2) unfolding db'(2) by (auto simp: id_def)
  moreover have "vec0Update_Update S R D p row db = Some (SQLITE_OK, db')"
    using lay(3) position_ok [OF ok, of id] part db1(1) none db'(1)
    by (simp add: vec0Update_Update_def update_rowid_def id_def [symmetric] columns_def [symmetric] pos)
  ultimately show ?thesis by (auto simp: id_def)
qed

end

end
