(* ===== verification/VecNearest.thy ===== *)
theory VecNearest
  imports VecKnn
begin

text \<open>
  What a nearest-neighbour query promises: the rows it returns are the nearest of the rows of all chunks that pass its
  constraints, provided their distances are no NaN and the row ids \<^verbatim>\<open>in (...)\<close> and those of the chunks are closer together
  than \<open>2 ^ 31\<close>; where they are not, row ids that differ by a multiple of \<open>2 ^ 32\<close> are taken for the same, and a NaN can
  displace nearer rows (\<open>VecSelect\<close>).
\<close>

subsection \<open>Row ids\<close>

definition close_rowids :: "int set \<Rightarrow> bool" where
  "close_rowids A \<longleftrightarrow> (\<forall>a \<in> A. \<forall>b \<in> A. \<bar>a - b\<bar> < 2 ^ 31)"

lemma small_int: "- (2 ^ 31) \<le> n \<Longrightarrow> n < 2 ^ 31 \<Longrightarrow> sint (of_int n :: 32 word) = n"
  by (simp add: signed_of_int signed_take_bit_int_eq_self)

lemma rowid_cmp_close: "\<bar>a - b\<bar> < 2 ^ 31 \<Longrightarrow> rowid_cmp a b = a - b"
  unfolding rowid_cmp_def by (rule small_int) (simp_all add: abs_less_iff)

lemma rowid_insert_close:
  "\<forall>y \<in> set ys. \<bar>x - y\<bar> < 2 ^ 31 \<Longrightarrow> rowid_insert x ys = insort x ys"
  by (induction ys) (simp_all add: rowid_cmp_close)

lemma rowid_qsort_close: "close_rowids (set xs) \<Longrightarrow> rowid_qsort xs = sort xs"
proof (induction xs)
  case Nil
  then show ?case by (simp add: rowid_qsort_def)
next
  case (Cons x xs)
  then have "rowid_qsort xs = sort xs" by (simp add: close_rowids_def)
  moreover have "rowid_insert x (sort xs) = insort x (sort xs)" using Cons.prems by (intro rowid_insert_close) (simp add: close_rowids_def)
  ultimately show ?case by (simp add: rowid_qsort_def)
qed

text \<open>Bisection keeps the element between its bounds.\<close>

lemma rowid_bsearch_close:
  "sorted z \<Longrightarrow> \<forall>y \<in> set z. \<bar>key - y\<bar> < 2 ^ 31 \<Longrightarrow> u \<le> length z \<Longrightarrow>
     rowid_bsearch key z l u \<noteq> None \<longleftrightarrow> (\<exists>i. l \<le> i \<and> i < u \<and> z ! i = key)"
proof (induction key z l u rule: rowid_bsearch.induct)
  case (1 key z l u)
  show ?case
  proof (cases "l < u")
    case False
    then show ?thesis by (subst rowid_bsearch.simps) simp
  next
    case True
    define m where "m = (l + u) div 2"
    have m: "l \<le> m" "m < u" "m < length z" using True "1.prems"(3) by (auto simp: m_def)
    have c: "rowid_cmp key (z ! m) = key - z ! m" using m(3) "1.prems"(2) by (intro rowid_cmp_close) simp
    have mono: "i \<le> j \<Longrightarrow> j < length z \<Longrightarrow> z ! i \<le> z ! j" for i j using "1.prems"(1) by (rule sorted_nth_mono)
    consider "key < z ! m" | "key > z ! m" | "key = z ! m" by linarith
    then show ?thesis
    proof cases
      case lt: 1
      have "rowid_bsearch key z l u = rowid_bsearch key z l m"
        using True lt c by (subst rowid_bsearch.simps) (simp add: m_def Let_def)
      moreover have "rowid_bsearch key z l m \<noteq> None \<longleftrightarrow> (\<exists>i. l \<le> i \<and> i < m \<and> z ! i = key)"
        using "1.IH"(1) [OF True m_def refl] c lt "1.prems" m by simp
      moreover have "i < m" if "i < u" "z ! i = key" for i
        using mono [of m i] that lt "1.prems"(3) by (meson leI leD order_less_le_trans)
      ultimately show ?thesis using m(2) by auto
    next
      case gt: 2
      have "rowid_bsearch key z l u = rowid_bsearch key z (m + 1) u"
        using True gt c by (subst rowid_bsearch.simps) (simp add: m_def Let_def)
      moreover have "rowid_bsearch key z (m + 1) u \<noteq> None \<longleftrightarrow> (\<exists>i. m + 1 \<le> i \<and> i < u \<and> z ! i = key)"
        using "1.IH"(2) [OF True m_def refl] c gt "1.prems" m by simp
      moreover have "m + 1 \<le> i" if "l \<le> i" "z ! i = key" for i
        using mono [of i m] that gt m(3) by (cases "i \<le> m") auto
      ultimately show ?thesis using m(1) by (metis (no_types, lifting) add_leD1 le_trans)
    next
      case 3
      then have "rowid_bsearch key z l u = Some m"
        using True c by (subst rowid_bsearch.simps) (simp add: m_def Let_def)
      then show ?thesis using 3 m by auto
    qed
  qed
qed

lemma rowid_bsearch_member:
  assumes "close_rowids (insert key (set xs))"
  shows "rowid_bsearch key (rowid_qsort xs) 0 (length (rowid_qsort xs)) \<noteq> None \<longleftrightarrow> key \<in> set xs"
proof -
  have "rowid_qsort xs = sort xs" using assms by (intro rowid_qsort_close) (simp add: close_rowids_def)
  moreover have "rowid_bsearch key (sort xs) 0 (length (sort xs)) \<noteq> None \<longleftrightarrow> (\<exists>i. 0 \<le> i \<and> i < length (sort xs) \<and> sort xs ! i = key)"
    using assms by (intro rowid_bsearch_close) (simp_all add: close_rowids_def)
  moreover have "(\<exists>i. 0 \<le> i \<and> i < length (sort xs) \<and> sort xs ! i = key) \<longleftrightarrow> key \<in> set (sort xs)"
    unfolding in_set_conv_nth by auto
  ultimately show ?thesis by simp
qed

lemma rowid_filter_ok:
  "\<forall>i \<in> set is. i < 8 * length validity \<and> i < 8 * length bm \<and> i < length rowids \<Longrightarrow>
     \<exists>bm'. rowid_filter ids validity rowids is bm = Some bm' \<and> length bm' = length bm \<and>
       members bm' = {i \<in> set is. i \<in> members validity \<and> rowid_bsearch (rowids ! i) ids 0 (length ids) \<noteq> None} \<union>
         {i \<in> members bm. i \<notin> set is \<or> i \<notin> members validity}" if "distinct is"
  using that
proof (induction "is" arbitrary: bm)
  case Nil
  then show ?case by simp
next
  case (Cons i "is")
  have i: "bitmap_get validity i = Some (i \<in> members validity)" using Cons.prems by (simp add: bitmap_get_members)
  show ?case
  proof (cases "i \<in> members validity")
    case False
    then show ?thesis using Cons.IH [of bm] Cons.prems i by auto
  next
    case True
    define found where "found \<longleftrightarrow> rowid_bsearch (rowids ! i) ids 0 (length ids) \<noteq> None"
    obtain b1 where b1: "bitmap_set bm i found = Some b1" "length b1 = length bm"
      "members b1 = (if found then insert i (members bm) else members bm - {i})"
      using bitmap_set_members [of i bm found] Cons.prems by auto
    obtain b2 where b2: "rowid_filter ids validity rowids is b1 = Some b2" "length b2 = length b1"
      "members b2 = {i \<in> set is. i \<in> members validity \<and> rowid_bsearch (rowids ! i) ids 0 (length ids) \<noteq> None} \<union>
         {i \<in> members b1. i \<notin> set is \<or> i \<notin> members validity}"
      using Cons.IH [of b1] Cons.prems b1(2) by auto
    have "members b2 = {j \<in> set (i # is). j \<in> members validity \<and> rowid_bsearch (rowids ! j) ids 0 (length ids) \<noteq> None} \<union>
         {j \<in> members bm. j \<notin> set (i # is) \<or> j \<notin> members validity}"
    proof (intro set_eqI)
      fix j
      have m: "j \<in> members b1 \<longleftrightarrow> (if j = i then found else j \<in> members bm)" unfolding b1(3) by simp
      have n: "i \<notin> set is" using Cons.prems by simp
      show "j \<in> members b2 \<longleftrightarrow> j \<in> {j \<in> set (i # is). j \<in> members validity \<and> rowid_bsearch (rowids ! j) ids 0 (length ids) \<noteq> None} \<union>
         {j \<in> members bm. j \<notin> set (i # is) \<or> j \<notin> members validity}"
        unfolding b2(3) using m n True by (cases "j = i") (simp_all add: found_def)
    qed
    moreover have "rowid_filter ids validity rowids (i # is) bm = Some b2"
      using i True b1(1) b2(1) Cons.prems by (simp add: found_def)
    ultimately show ?thesis using b1(2) b2(2) by (simp only:) simp
  qed
qed

subsection \<open>Metadata constraints\<close>

text \<open>
  Argument \<open>i\<close> is no metadata constraint, or one whose rows in the chunk are \<open>M i\<close>: its column exists, its blob opens,
  and evaluating it into an empty bitmap gives \<open>M i\<close>.
\<close>

definition metadata_argument ::
  "'db sqlite_api \<Rightarrow> ('g :: linorder) double_api \<Rightarrow> 'db \<Rightarrow> vec0_table \<Rightarrow> metadata_in \<Rightarrow> string \<Rightarrow> 'g sqlite_value list \<Rightarrow> int \<Rightarrow>
     (nat \<Rightarrow> nat set) \<Rightarrow> nat \<Rightarrow> bool" where
  "metadata_argument S D db p inputs idxStr argv chunk M i \<longleftrightarrow>
     idx_char idxStr i 0 \<noteq> Some IDXSTR_KIND_METADATA_CONSTRAINT \<or>
     (\<exists>c1 c2 kind op. idx_char idxStr i 1 = Some c1 \<and> idx_char idxStr i 2 = Some c2 \<and>
        of_char c1 - 65 < length (metadata_kinds p) \<and> metadata_kinds p ! (of_char c1 - 65) = kind \<and>
        metadata_operator_of c2 = Some op \<and> blob_open S db (Metadata_data (of_char c1 - 65)) chunk = SQLITE_OK \<and>
        (\<exists>b. vec0_set_metadata_filter_bitmap S D db kind (of_char c1 - 65) op (argv ! i) chunk (replicate (chunk_size p div 8) 0)
            (chunk_size p) (in_texts inputs) (in_ints inputs) i = Some (Inr b) \<and>
          length b = chunk_size p div 8 \<and> members b = M i))"

definition metadata_rows :: "string \<Rightarrow> (nat \<Rightarrow> nat set) \<Rightarrow> nat set \<Rightarrow> nat set" where
  "metadata_rows idxStr M is = {j. \<forall>i \<in> is. idx_char idxStr i 0 = Some IDXSTR_KIND_METADATA_CONSTRAINT \<longrightarrow> j \<in> M i}"

lemma metadata_filters_ok:
  assumes "chunk_size p mod 8 = 0"
  shows "\<forall>i \<in> set is. i < length argv \<and> idx_char idxStr i 0 \<noteq> None \<and> metadata_argument S D db p inputs idxStr argv chunk M i \<Longrightarrow>
     length b = chunk_size p div 8 \<Longrightarrow> length bm = chunk_size p div 8 \<Longrightarrow>
     \<exists>opened' b' bm'. metadata_filters S D db p inputs idxStr argv chunk is opened b bm = Some (Inr (opened', b', bm')) \<and>
       length b' = chunk_size p div 8 \<and> length bm' = chunk_size p div 8 \<and>
       members b' = members b \<inter> metadata_rows idxStr M (set is)"
proof (induction "is" arbitrary: opened b bm)
  case Nil
  then show ?case by (simp add: metadata_rows_def)
next
  case (Cons i "is")
  obtain kind where k: "idx_char idxStr i 0 = Some kind" using Cons.prems(1) by auto
  show ?case
  proof (cases "kind = IDXSTR_KIND_METADATA_CONSTRAINT")
    case False
    then have "metadata_rows idxStr M (set (i # is)) = metadata_rows idxStr M (set is)" using k by (simp add: metadata_rows_def)
    then show ?thesis using Cons.IH [of b bm opened] Cons.prems False k by simp
  next
    case True
    obtain c1 c2 op bm1 where c: "idx_char idxStr i 1 = Some c1" "idx_char idxStr i 2 = Some c2"
      "of_char c1 - 65 < length (metadata_kinds p)" "metadata_operator_of c2 = Some op"
      "blob_open S db (Metadata_data (of_char c1 - 65)) chunk = SQLITE_OK"
      "vec0_set_metadata_filter_bitmap S D db (metadata_kinds p ! (of_char c1 - 65)) (of_char c1 - 65) op (argv ! i) chunk
        (replicate (chunk_size p div 8) 0) (chunk_size p) (in_texts inputs) (in_ints inputs) i = Some (Inr bm1)"
      "length bm1 = chunk_size p div 8" "members bm1 = M i" "i < length argv"
      using Cons.prems(1) k True by (auto simp: metadata_argument_def)
    obtain b1 where b1: "bitmap_and_inplace b bm1 (chunk_size p) = Some b1" "length b1 = chunk_size p div 8" "members b1 = members b \<inter> M i"
      using bitmap_and_members [OF Cons.prems(2) c(7) assms] Cons.prems(2) c(8) by auto
    have step: "metadata_filters S D db p inputs idxStr argv chunk (i # is) opened b bm =
        metadata_filters S D db p inputs idxStr argv chunk is (List.insert (of_char c1 - 65) opened) b1 bm1"
      using k True c(1-6,9) b1(1) bitmap_clear_members(1) [OF Cons.prems(3) assms] by (simp add: Let_def)
    have "metadata_rows idxStr M (set (i # is)) = M i \<inter> metadata_rows idxStr M (set is)"
      using k True by (auto simp: metadata_rows_def)
    then show ?thesis unfolding step
      using Cons.IH [OF _ b1(2) c(7), of "List.insert (of_char c1 - 65) opened"] Cons.prems(1) b1(3) by (simp add: Int_assoc)
  qed
qed

subsection \<open>Distances\<close>

definition distance_at :: "('r, 'g) float_api \<Rightarrow> vec0_table \<Rightarrow> byte list \<Rightarrow> byte list \<Rightarrow> nat \<Rightarrow> 'r" where
  "distance_at F p base query i = the (row_distance F (element_type p) (metric p) (dimensions p) base query i)"

text \<open>The vectors of a chunk and of the query have the size the table declares.\<close>

definition vectors_fit :: "vec0_table \<Rightarrow> byte list \<Rightarrow> byte list \<Rightarrow> bool" where
  "vectors_fit p base query \<longleftrightarrow>
     length base = chunk_size p * vector_byte_size (element_type p) (dimensions p) \<and>
     length query = vector_byte_size (element_type p) (dimensions p) \<and> dimensions p \<le> 8192"

lemma distance_at:
  assumes "vectors_fit p base query" and "i < chunk_size p"
  shows "row_distance F (element_type p) (metric p) (dimensions p) base query i = Some (distance_at F p base query i)"
  using row_distance_total [OF assms(2), of base "element_type p" "dimensions p" query F "metric p"] assms(1)
  by (auto simp: vectors_fit_def distance_at_def)

lemma chunk_distances_ok:
  "\<forall>i \<in> set is. i < chunk_size p \<and> i < 8 * length b \<and> i < length ds \<Longrightarrow> vectors_fit p base query \<Longrightarrow>
     \<exists>ds'. chunk_distances_loop F p base query b is ds = Some ds' \<and> length ds' = length ds \<and>
       (\<forall>i \<in> set is. i \<in> members b \<longrightarrow> ds' ! i = distance_at F p base query i) \<and> (\<forall>i. i \<notin> set is \<longrightarrow> ds' ! i = ds ! i)"
proof (induction "is" arbitrary: ds)
  case Nil
  then show ?case by simp
next
  case (Cons i "is")
  have i: "bitmap_get b i = Some (i \<in> members b)" "i < length ds" "i < chunk_size p" using Cons.prems(1) by (simp_all add: bitmap_get_members)
  show ?case
  proof (cases "i \<in> members b")
    case False
    then show ?thesis using Cons.IH [of ds] Cons.prems i by auto
  next
    case True
    define ds1 where "ds1 = ds[i := distance_at F p base query i]"
    obtain ds2 where ds2: "chunk_distances_loop F p base query b is ds1 = Some ds2" "length ds2 = length ds"
      "\<forall>i \<in> set is. i \<in> members b \<longrightarrow> ds2 ! i = distance_at F p base query i" "\<forall>i. i \<notin> set is \<longrightarrow> ds2 ! i = ds1 ! i"
      using Cons.IH [of ds1] Cons.prems by (auto simp: ds1_def)
    have "chunk_distances_loop F p base query b (i # is) ds = Some ds2"
      using i True ds2(1) distance_at [OF Cons.prems(2) i(3), of F] by (simp add: ds1_def)
    moreover have "ds2 ! i = distance_at F p base query i" using ds2(3,4) True i(2) by (cases "i \<in> set is") (simp_all add: ds1_def)
    moreover have "\<forall>j. j \<notin> set (i # is) \<longrightarrow> ds2 ! j = ds ! j" using ds2(4) by (simp add: ds1_def)
    ultimately show ?thesis using ds2(2,3) by (intro exI [of _ ds2]) auto
  qed
qed

lemma constrain_distances_ok:
  "\<forall>i \<in> set is. i < 8 * length b \<and> i < length ds \<Longrightarrow> distinct is \<Longrightarrow>
     \<exists>b'. constrain_distances rel target ds is b = Some b' \<and> length b' = length b \<and>
       members b' = {i \<in> members b. i \<in> set is \<longrightarrow> rel (ds ! i) target}"
proof (induction "is" arbitrary: b)
  case Nil
  then show ?case by simp
next
  case (Cons i "is")
  have i: "bitmap_get b i = Some (i \<in> members b)" "i < length ds" "i \<notin> set is" using Cons.prems by (simp_all add: bitmap_get_members)
  show ?case
  proof (cases "i \<in> members b \<and> \<not> rel (ds ! i) target")
    case False
    then have "constrain_distances rel target ds (i # is) b = constrain_distances rel target ds is b" using i(1,2) by auto
    then show ?thesis using Cons.IH [of b] Cons.prems False by auto
  next
    case True
    obtain b1 where b1: "bitmap_set b i False = Some b1" "length b1 = length b" "members b1 = members b - {i}"
      using bitmap_set_members [of i b False] Cons.prems(1) by auto
    then have "constrain_distances rel target ds (i # is) b = constrain_distances rel target ds is b1" using i(1,2) True by simp
    then show ?thesis using Cons.IH [of b1] Cons.prems b1(2,3) True by auto
  qed
qed

text \<open>Argument \<open>i\<close> is no distance constraint, or the distance \<open>d\<close> satisfies it.\<close>

definition distance_argument ::
  "('r :: ord, 'g) float_api \<Rightarrow> string \<Rightarrow> 'g sqlite_value list \<Rightarrow> 'r \<Rightarrow> nat \<Rightarrow> bool" where
  "distance_argument F idxStr argv d i \<longleftrightarrow>
     (if idx_char idxStr i 0 = Some IDXSTR_KIND_DISTANCE_CONSTRAINT
      then case distance_relation (the (idx_char idxStr i 1)) of None \<Rightarrow> True | Some rel \<Rightarrow> rel d (f_of_d F (value_double (argv ! i)))
      else True)"

lemma distance_constraints_ok:
  fixes F :: "('r :: ord, 'g) float_api"
  shows "\<forall>i \<in> set is. i < length argv \<and> idx_char idxStr i 0 \<noteq> None \<and> idx_char idxStr i 1 \<noteq> None \<Longrightarrow>
     n \<le> 8 * length b \<Longrightarrow> n \<le> length ds \<Longrightarrow>
     \<exists>b'. distance_constraints F n idxStr argv ds is b = Some b' \<and> length b' = length b \<and>
       members b' = {j \<in> members b. j < n \<longrightarrow> (\<forall>i \<in> set is. distance_argument F idxStr argv (ds ! j) i)}"
proof (induction "is" arbitrary: b)
  case Nil
  then show ?case by simp
next
  case (Cons i "is")
  obtain kind op where i: "idx_char idxStr i 0 = Some kind" "idx_char idxStr i 1 = Some op" "i < length argv" using Cons.prems(1) by auto
  show ?case
  proof (cases "kind = IDXSTR_KIND_DISTANCE_CONSTRAINT \<and> distance_relation op \<noteq> (None :: ('r \<Rightarrow> 'r \<Rightarrow> bool) option)")
    case False
    then have "distance_constraints F n idxStr argv ds (i # is) b = distance_constraints F n idxStr argv ds is b"
      "distance_argument F idxStr argv d i" for d
      using i by (auto simp: distance_argument_def)
    then show ?thesis using Cons.IH [of b] Cons.prems by simp
  next
    case True
    then obtain rel :: "'r \<Rightarrow> 'r \<Rightarrow> bool" where rel: "distance_relation op = Some rel" by blast
    obtain b1 where b1: "constrain_distances rel (f_of_d F (value_double (argv ! i))) ds [0..<n] b = Some b1" "length b1 = length b"
      "members b1 = {j \<in> members b. j \<in> set [0..<n] \<longrightarrow> rel (ds ! j) (f_of_d F (value_double (argv ! i)))}"
      using constrain_distances_ok [of "[0..<n]" b ds rel "f_of_d F (value_double (argv ! i))"] Cons.prems(2,3) by auto
    have "distance_constraints F n idxStr argv ds (i # is) b = distance_constraints F n idxStr argv ds is b1"
      using i rel True b1(1) by (simp add: Let_def)
    moreover have "distance_argument F idxStr argv d i \<longleftrightarrow> rel d (f_of_d F (value_double (argv ! i)))" for d
      using i rel True by (simp add: distance_argument_def)
    ultimately show ?thesis using Cons.IH [of b1] Cons.prems b1(2,3) by auto
  qed
qed

subsection \<open>Selecting from a chunk\<close>

definition knn_invariant :: "vec0_table \<Rightarrow> nat \<Rightarrow> 'r knn_state \<Rightarrow> bool" where
  "knn_invariant p k st \<longleftrightarrow>
     length (topk_rowids st) = k \<and> length (topk_distances st) = k \<and> length (tmp_topk_rowids st) = k \<and>
     length (tmp_topk_distances st) = k \<and> length (bm_b st) = chunk_size p div 8 \<and> length (bm_taken st) = chunk_size p div 8 \<and>
     length (bm_metadata st) = chunk_size p div 8"

text \<open>The distances and row ids of the rows of a chunk that are in \<open>cand\<close> and satisfy the distance constraints.\<close>

definition near_rows ::
  "('r :: ord, 'g) float_api \<Rightarrow> vec0_table \<Rightarrow> string \<Rightarrow> 'g sqlite_value list \<Rightarrow> byte list \<Rightarrow> byte list \<Rightarrow> int list \<Rightarrow> nat set \<Rightarrow>
     ('r \<times> int) list" where
  "near_rows F p idxStr argv query base rowids cand =
     map (\<lambda>i. (distance_at F p base query i, rowids ! i))
       (filter (\<lambda>i. i \<in> cand \<and> (\<forall>a < length argv. distance_argument F idxStr argv (distance_at F p base query i) a))
         [0..<chunk_size p])"

text \<open>Every argument has its four characters.\<close>

definition plan_covers :: "string \<Rightarrow> nat \<Rightarrow> bool" where
  "plan_covers idxStr argc \<longleftrightarrow> length idxStr = 1 + 4 * argc"

lemma plan_covers: "plan_covers idxStr argc \<Longrightarrow> i < argc \<Longrightarrow> j < 4 \<Longrightarrow> idx_char idxStr i j \<noteq> None"
  by (simp add: plan_covers_def idx_char_def item_at_def)

lemma no_kind: "\<not> has_kind idxStr argc kind \<Longrightarrow> i < argc \<Longrightarrow> idx_char idxStr i 0 \<noteq> Some kind"
  by (auto simp: has_kind_def)

lemma neighbours_copy:
  "used \<le> length out \<Longrightarrow> used \<le> length rout \<Longrightarrow>
     neighbours (copy_prefix used out td) (copy_prefix used rout tr) used = neighbours out rout used"
  by (simp add: neighbours_def copy_prefix_def nth_append)

lemma length_copy_prefix: "used \<le> length from \<Longrightarrow> length from = length to \<Longrightarrow> length (copy_prefix used from to) = length to"
  by (simp add: copy_prefix_def)

text \<open>The nearest positions of a set of candidates give the best of their rows.\<close>

lemma nearest_topk:
  fixes distances :: "'d :: ord list"
  assumes "nearest_of distances cand ps" and "length ps = min k (card cand)" and "cand \<subseteq> {..<n}"
    and "\<forall>i \<in> cand. distances ! i = d i"
  shows "topk k (map (\<lambda>i. (d i, rowids ! i)) (filter (\<lambda>i. i \<in> cand) [0..<n])) (map (\<lambda>j. (distances ! j, rowids ! j)) ps)"
proof -
  define row where "row = (\<lambda>i. (d i, rowids ! i))"
  define all where "all = filter (\<lambda>i. i \<in> cand) [0..<n]"
  define rest where "rest = filter (\<lambda>i. i \<notin> set ps) all"
  have ps: "set ps \<subseteq> cand" "distinct ps" "in_order (map (\<lambda>j. distances ! j) ps)"
    "\<forall>p \<in> set ps. \<forall>j \<in> cand - set ps. distances ! p \<le> distances ! j"
    using assms(1) by (simp_all add: nearest_of_def)
  have all: "set all = cand" "distinct all" using assms(3) by (auto simp: all_def)
  then have card: "length all = card cand" by (metis distinct_card)
  have rows: "map (\<lambda>j. (distances ! j, rowids ! j)) ps = map row ps" using ps(1) assms(4) by (auto simp: row_def)
  have "mset all = mset ps + mset rest"
  proof -
    have "mset ps = mset (filter (\<lambda>i. i \<in> set ps) all)"
      using ps(1,2) all by (intro set_eq_iff_mset_eq_distinct [THEN iffD1]) auto
    then show ?thesis unfolding rest_def mset_filter by (simp only: multiset_partition [symmetric])
  qed
  then have "mset (map row all) = mset (map row ps) + mset (map row rest)" by (metis image_mset_union mset_map)
  moreover have "fst y \<le> fst r" if h: "y \<in> set (map row ps)" "r \<in> set (map row rest)" for y r
  proof -
    obtain a b where ab: "a \<in> set ps" "y = row a" "b \<in> cand - set ps" "r = row b"
      using h all(1) by (auto simp: rest_def)
    then have "distances ! a \<le> distances ! b" using ps(4) by blast
    then show ?thesis using ab ps(1) assms(4) by (auto simp: row_def)
  qed
  moreover have "in_order (map fst (map row ps))"
  proof -
    have "map fst (map row ps) = map (\<lambda>j. distances ! j) ps" using ps(1) assms(4) by (auto simp: row_def)
    then show ?thesis using ps(3) by (simp only:)
  qed
  moreover have "length (map row ps) = min k (length (map row all))" using assms(2) card by simp
  ultimately have "topk k (map row all) (map row ps)" unfolding topk_def by blast
  then show ?thesis unfolding rows all_def row_def .
qed

lemma select_chunk_ok:
  fixes F :: "('r :: linorder f32, 'g) float_api"
  assumes n: "chunk_size p mod 8 = 0" "0 < chunk_size p" and k: "0 < k" and inv: "knn_invariant p k st"
    and vectors: "vectors_fit p base query" and plan: "plan_covers idxStr (length argv)"
    and best: "topk k all (neighbours (topk_distances st) (topk_rowids st) (k_used st))" and nums: "numbers all"
      "numbers (near_rows F p idxStr argv query base (i64_cells (chunk_rowids row) (chunk_size p)) (members (bm_b st)))"
  shows "\<exists>st'. select_chunk F p idxStr argv query k base st row = Some st' \<and> knn_invariant p k st' \<and>
    bm_rowids st' = bm_rowids st \<and> topk k (all @ near_rows F p idxStr argv query base (i64_cells (chunk_rowids row) (chunk_size p)) (members (bm_b st)))
      (neighbours (topk_distances st') (topk_rowids st') (k_used st'))"
proof -
  define n' where "n' = chunk_size p"
  have n8: "8 * (n' div 8) = n'" using n(1) by (auto simp: n'_def)
  have len: "length (topk_rowids st) = k" "length (topk_distances st) = k" "length (tmp_topk_rowids st) = k"
    "length (tmp_topk_distances st) = k" "8 * length (bm_b st) = n'" "8 * length (bm_taken st) = n'" "length (bm_metadata st) = n' div 8"
    using inv n8 by (simp_all add: knn_invariant_def n'_def)
  define d where "d = distance_at F p base query"
  obtain ds where ds: "chunk_distances_loop F p base query (bm_b st) [0..<n'] (replicate n' (f_zero F)) = Some ds" "length ds = n'"
    "\<forall>i \<in> members (bm_b st). ds ! i = d i"
    using chunk_distances_ok [of "[0..<n']" p "bm_b st" "replicate n' (f_zero F)" base query F] vectors len(5)
    by (auto simp: n'_def d_def in_members)
  define ok where "ok = (\<lambda>i. \<forall>a < length argv. distance_argument F idxStr argv (d i) a)"
  obtain b where b: "(if has_kind idxStr (length argv) IDXSTR_KIND_DISTANCE_CONSTRAINT
      then distance_constraints F n' idxStr argv ds [0..<length argv] (bm_b st) else Some (bm_b st)) = Some b"
    "length b = length (bm_b st)" "members b = {j \<in> members (bm_b st). ok j}"
  proof (cases "has_kind idxStr (length argv) IDXSTR_KIND_DISTANCE_CONSTRAINT")
    case False
    then have "ok j" for j using no_kind [OF False] by (simp add: ok_def distance_argument_def)
    then show ?thesis using that [of "bm_b st"] False by simp
  next
    case True
    obtain b where "distance_constraints F n' idxStr argv ds [0..<length argv] (bm_b st) = Some b" "length b = length (bm_b st)"
      "members b = {j \<in> members (bm_b st). j < n' \<longrightarrow> (\<forall>i \<in> set [0..<length argv]. distance_argument F idxStr argv (ds ! j) i)}"
      using distance_constraints_ok [of "[0..<length argv]" argv idxStr n' "bm_b st" ds F] plan_covers [OF plan] len(5) ds(2) by auto
    moreover have "(j < n' \<longrightarrow> (\<forall>i \<in> set [0..<length argv]. distance_argument F idxStr argv (ds ! j) i)) \<longleftrightarrow> ok j"
      if "j \<in> members (bm_b st)" for j
      using that len(5) ds(3) by (auto simp: in_members ok_def)
    ultimately have "members b = {j \<in> members (bm_b st). ok j}" by blast
    then show ?thesis using that [of b] True \<open>distance_constraints _ _ _ _ _ _ _ = Some b\<close> \<open>length b = _\<close> by simp
  qed
  have cand: "members b \<subseteq> {..<n'}" "\<forall>i \<in> members b. ds ! i = d i" using b(2,3) ds(3) len(5) by (auto simp: in_members)
  have near: "near_rows F p idxStr argv query base (i64_cells (chunk_rowids row) (chunk_size p)) (members (bm_b st)) =
      map (\<lambda>i. (d i, i64_cells (chunk_rowids row) n' ! i)) (filter (\<lambda>i. i \<in> members b) [0..<n'])"
    unfolding near_rows_def b(3) by (simp add: d_def ok_def n'_def)
  have "ds ! i \<noteq> NaN" if "i \<in> members b" for i
    using nums(2) that cand unfolding near numbers_def by auto
  note nan = this
  obtain idxs taken used1 where idxs: "min_idx ds n' b (replicate k 0) (min k n') (bm_taken st) = Some (idxs, taken, used1)"
    "length idxs = k" "length taken = length (bm_taken st)" "used1 = min (min k n') (card (members b))"
    "nearest_of ds (members b) (take used1 idxs)"
    using min_idx_ok [of "min k n'" n' b "bm_taken st" ds "replicate k 0"] k n(2) len(5,6) b(2) ds(2) nan by (auto simp: n'_def)
  have used1: "min (min k n') used1 = used1" "used1 \<le> k" using idxs(4) by simp_all
  have "card (members b) \<le> n'" using card_mono [OF _ cand(1)] by simp
  then have l: "length (take used1 idxs) = min k (card (members b))" using idxs(2,4) by auto
  define rowids where "rowids = i64_cells (chunk_rowids row) n'"
  define rows where "rows = map (\<lambda>i. (d i, rowids ! i)) (filter (\<lambda>i. i \<in> members b) [0..<n'])"
  have top: "topk k rows (neighbours_at ds rowids idxs used1)"
    unfolding rows_def neighbours_at_def using nearest_topk [OF idxs(5) l cand] .
  have "k_used st = min k (length all)" using best by (auto simp: topk_def)
  then have "merge_input (topk_distances st) (topk_rowids st) (k_used st) ds rowids idxs used1"
    using len(1,2) idxs(2,5) used1(2) cand(1) ds(2) by (auto simp: merge_input_def rowids_def i64_cells_def nearest_of_def)
  have "numbers rows" using nums(2) near by (simp add: rows_def rowids_def)
  from merge_topk [OF \<open>merge_input _ _ _ _ _ _ _\<close> _ _ best top nums(1) this, of "tmp_topk_distances st" "tmp_topk_rowids st"] len(3,4)
  obtain out rout used where m: "merge_sorted_lists (topk_distances st) (topk_rowids st) (k_used st) ds rowids idxs used1
      (tmp_topk_distances st) (tmp_topk_rowids st) k = Some (out, rout, used)"
    "used \<le> k" "length out = k" "length rout = k" "topk k (all @ rows) (neighbours out rout used)"
    by (auto simp: topk_def)
  define st' where "st' = st\<lparr>topk_rowids := copy_prefix used rout (topk_rowids st), topk_distances := copy_prefix used out (topk_distances st),
    tmp_topk_rowids := rout, tmp_topk_distances := out, k_used := used, bm_b := b, bm_taken := taken\<rparr>"
  have "select_chunk F p idxStr argv query k base st row = Some st'"
    by (simp only: select_chunk_def Let_def n'_def [symmetric] rowids_def [symmetric] ds(1) b(1) idxs(1) m(1) used1(1) st'_def
        Option.bind.simps prod.case)
  moreover have "knn_invariant p k st'"
    using inv m(2-4) len b(2) idxs(3) by (simp add: knn_invariant_def st'_def length_copy_prefix)
  moreover have "neighbours (topk_distances st') (topk_rowids st') (k_used st') = neighbours out rout used"
    using m(2-4) by (simp add: st'_def neighbours_copy)
  moreover have "rows = near_rows F p idxStr argv query base rowids (members (bm_b st))"
    using near by (simp add: rows_def rowids_def n'_def)
  moreover have "bm_rowids st' = bm_rowids st" by (simp add: st'_def)
  ultimately show ?thesis using m(5) by (auto simp: rowids_def n'_def)
qed

subsection \<open>A chunk and all chunks\<close>

definition passing_rows :: "string \<Rightarrow> nat \<Rightarrow> byte list \<Rightarrow> int list \<Rightarrow> int list option \<Rightarrow> (nat \<Rightarrow> nat set) \<Rightarrow> nat set" where
  "passing_rows idxStr argc validity rowids given M =
     {i \<in> members validity. (case given of None \<Rightarrow> True | Some z \<Rightarrow> rowids ! i \<in> set z)} \<inter> metadata_rows idxStr M {..<argc}"

definition chunk_stored :: "store \<Rightarrow> vec0_table \<Rightarrow> chunk_row \<Rightarrow> byte list \<Rightarrow> bool" where
  "chunk_stored st p row base \<longleftrightarrow>
     length (chunk_validity row) = chunk_size p div 8 \<and> length (chunk_rowids row) = chunk_size p * 8 \<and>
     st_blobs st (Vectors (column_idx p)) (chunk_id row) = Some base \<and>
     length base = chunk_size p * vector_byte_size (element_type p) (dimensions p)"

text \<open>The row ids asked for and those of a chunk are less than \<open>2 ^ 31\<close> apart.\<close>

definition rowids_close :: "vec0_table \<Rightarrow> int list option \<Rightarrow> chunk_row \<Rightarrow> bool" where
  "rowids_close p given row \<longleftrightarrow>
     (case given of None \<Rightarrow> True | Some z \<Rightarrow> close_rowids (set z \<union> set (i64_cells (chunk_rowids row) (chunk_size p))))"

lemma chunk_candidates_ok:
  assumes n: "chunk_size p mod 8 = 0" and row: "chunk_stored db' p row base" "rowids_close p given row"
    and len: "length (bm_b st) = chunk_size p div 8" "length (bm_metadata st) = chunk_size p div 8"
      "given \<noteq> None \<longrightarrow> length (bm_rowids st) = chunk_size p div 8"
    and plan: "plan_covers idxStr (length argv)"
    and args: "\<forall>a < length argv. metadata_argument S D db p inputs idxStr argv (chunk_id row) M a"
  shows "\<exists>b rm bm opened. chunk_candidates S D db p (map_option rowid_qsort given) inputs idxStr argv st row =
      Some (Inr (st\<lparr>bm_b := b, bm_rowids := rm, bm_metadata := bm, opened_blobs := opened\<rparr>)) \<and>
    length b = chunk_size p div 8 \<and> length bm = chunk_size p div 8 \<and> (given \<noteq> None \<longrightarrow> length rm = chunk_size p div 8) \<and>
    members b = passing_rows idxStr (length argv) (chunk_validity row) (i64_cells (chunk_rowids row) (chunk_size p)) given M"
proof -
  define n' where "n' = chunk_size p"
  define rowids where "rowids = i64_cells (chunk_rowids row) n'"
  have n8: "8 * (n' div 8) = n'" using n by (auto simp: n'_def)
  have v: "length (chunk_validity row) = n' div 8" using row(1) by (simp add: chunk_stored_def n'_def)
  have copy: "bitmap_copy (bm_b st) (chunk_validity row) n' = Some (chunk_validity row)"
    using bitmap_copy_members [OF _ v] len(1) n by (simp add: n'_def)
  define ids where "ids = map_option rowid_qsort given"
  obtain b1 rm where b1: "(case ids of None \<Rightarrow> Some (chunk_validity row, bm_rowids st)
      | Some z \<Rightarrow> do {
          rm0 \<leftarrow> bitmap_clear (bm_rowids st) n';
          rm1 \<leftarrow> rowid_filter z (chunk_validity row) rowids [0..<n'] rm0;
          b1 \<leftarrow> bitmap_and_inplace (chunk_validity row) rm1 n';
          Some (b1, rm1)
        }) = Some (b1, rm)" "length b1 = n' div 8" "given \<noteq> None \<longrightarrow> length rm = n' div 8"
    "members b1 = {i \<in> members (chunk_validity row). case given of None \<Rightarrow> True | Some z \<Rightarrow> rowids ! i \<in> set z}"
  proof (cases given)
    case None
    then show ?thesis using that v by (simp add: ids_def)
  next
    case (Some z)
    define rm0 where "rm0 = replicate (n' div 8) (0 :: byte)"
    have clear: "bitmap_clear (bm_rowids st) n' = Some rm0" "members rm0 = {}" "length rm0 = n' div 8"
      using bitmap_clear_members [of "bm_rowids st" n'] len(3) Some n by (simp_all add: n'_def rm0_def)
    have l: "length rowids = n'" by (simp add: rowids_def i64_cells_def)
    obtain rm1 where rm1: "rowid_filter (rowid_qsort z) (chunk_validity row) rowids [0..<n'] rm0 = Some rm1" "length rm1 = n' div 8"
      "members rm1 = {i \<in> set [0..<n']. i \<in> members (chunk_validity row) \<and>
         rowid_bsearch (rowids ! i) (rowid_qsort z) 0 (length (rowid_qsort z)) \<noteq> None}"
      using rowid_filter_ok [of "[0..<n']" "chunk_validity row" rm0 rowids "rowid_qsort z"] clear(2,3) v n8 l by auto
    have "rowid_bsearch (rowids ! i) (rowid_qsort z) 0 (length (rowid_qsort z)) \<noteq> None \<longleftrightarrow> rowids ! i \<in> set z" if "i < n'" for i
    proof -
      have "close_rowids (set z \<union> set rowids)" using row(2) Some by (simp add: rowids_close_def rowids_def n'_def)
      moreover have "rowids ! i \<in> set rowids" using that l by simp
      ultimately have "close_rowids (insert (rowids ! i) (set z))" by (auto simp: close_rowids_def)
      then show ?thesis by (rule rowid_bsearch_member)
    qed
    then have m: "members rm1 = {i \<in> members (chunk_validity row). rowids ! i \<in> set z}"
      unfolding rm1(3) using v n8 by (auto simp: in_members)
    obtain b1 where "bitmap_and_inplace (chunk_validity row) rm1 n' = Some b1" "length b1 = n' div 8"
      "members b1 = members (chunk_validity row) \<inter> members rm1"
      using bitmap_and_members [OF v rm1(2)] n v by (auto simp: n'_def)
    then show ?thesis using that [of b1 rm1] clear(1) rm1(1,2) m Some by (auto simp: ids_def)
  qed
  obtain opened b bm where f: "(if has_kind idxStr (length argv) IDXSTR_KIND_METADATA_CONSTRAINT
      then metadata_filters S D db p inputs idxStr argv (chunk_id row) [0..<length argv] (opened_blobs st) b1 (bm_metadata st)
      else Some (Inr (opened_blobs st, b1, bm_metadata st))) = Some (Inr (opened, b, bm))" "length b = n' div 8" "length bm = n' div 8"
    "members b = members b1 \<inter> metadata_rows idxStr M {..<length argv}"
  proof (cases "has_kind idxStr (length argv) IDXSTR_KIND_METADATA_CONSTRAINT")
    case False
    then have "metadata_rows idxStr M {..<length argv} = UNIV" using no_kind [OF False] by (auto simp: metadata_rows_def)
    then show ?thesis using that [of "opened_blobs st" b1 "bm_metadata st"] False b1(2) len(2) by (simp add: n'_def)
  next
    case True
    show ?thesis
      using metadata_filters_ok [OF n, of "[0..<length argv]" argv idxStr S D db inputs "chunk_id row" M b1 "bm_metadata st" "opened_blobs st"]
        plan_covers [OF plan] args b1(2) len(2) True that by (auto simp: n'_def atLeast0LessThan)
  qed
  have "chunk_candidates S D db p ids inputs idxStr argv st row =
      Some (Inr (st\<lparr>bm_b := b, bm_rowids := rm, bm_metadata := bm, opened_blobs := opened\<rparr>))"
    by (simp only: chunk_candidates_def Let_def n'_def [symmetric] rowids_def [symmetric] copy b1(1) f(1)
        Option.bind.simps prod.case sum.case)
  moreover have "members b = passing_rows idxStr (length argv) (chunk_validity row) rowids given M"
    unfolding f(4) b1(4) passing_rows_def ..
  ultimately show ?thesis using f(2,3) b1(3) unfolding ids_def n'_def rowids_def by blast
qed

lemma open_chunk_ok:
  assumes "sqlite_store S view" and "chunk_stored (view db) p row base"
  shows "open_chunk S db p row = Inr base"
proof -
  have s: "st_blobs (view db) (Vectors (column_idx p)) (chunk_id row) = Some base"
    "length base = chunk_size p * vector_byte_size (element_type p) (dimensions p)"
    "length (chunk_validity row) = chunk_size p div 8" "length (chunk_rowids row) = chunk_size p * 8"
    using assms(2) by (simp_all add: chunk_stored_def)
  show ?thesis
    using sqlite_store.open_ok [OF assms(1) s(1)] sqlite_store.bytes_ok [OF assms(1) s(1)]
      sqlite_store.read_ok [OF assms(1) s(1), of 0 "length base"] s(2-4)
    by (simp add: open_chunk_def Let_def)
qed

text \<open>The neighbours a chunk contributes.\<close>

definition chunk_near ::
  "('r :: ord, 'g) float_api \<Rightarrow> vec0_table \<Rightarrow> string \<Rightarrow> 'g sqlite_value list \<Rightarrow> byte list \<Rightarrow> int list option \<Rightarrow>
     chunk_row \<Rightarrow> byte list \<Rightarrow> (nat \<Rightarrow> nat set) \<Rightarrow> ('r \<times> int) list" where
  "chunk_near F p idxStr argv query given row base M =
     (let rowids = i64_cells (chunk_rowids row) (chunk_size p)
      in near_rows F p idxStr argv query base rowids (passing_rows idxStr (length argv) (chunk_validity row) rowids given M))"

lemma knn_chunk_ok:
  fixes F :: "('r :: linorder f32, 'g :: linorder) float_api"
  assumes "sqlite_store S view" and n: "chunk_size p mod 8 = 0" "0 < chunk_size p" and k: "0 < k"
    and vectors: "length query = vector_byte_size (element_type p) (dimensions p)" "dimensions p \<le> 8192"
    and plan: "plan_covers idxStr (length argv)"
    and row: "chunk_stored (view db) p row base" "rowids_close p given row"
    and args: "\<forall>a < length argv. metadata_argument S D db p inputs idxStr argv (chunk_id row) M a"
    and inv: "knn_invariant p k st" "given \<noteq> None \<longrightarrow> length (bm_rowids st) = chunk_size p div 8"
    and best: "topk k all (neighbours (topk_distances st) (topk_rowids st) (k_used st))"
    and nums: "numbers all" "numbers (chunk_near F p idxStr argv query given row base M)"
  shows "\<exists>st'. knn_chunk S D F db p (map_option rowid_qsort given) inputs idxStr argv query k st row = Some (Inr st') \<and>
    knn_invariant p k st' \<and> (given \<noteq> None \<longrightarrow> length (bm_rowids st') = chunk_size p div 8) \<and>
    topk k (all @ chunk_near F p idxStr argv query given row base M)
      (neighbours (topk_distances st') (topk_rowids st') (k_used st'))"
proof -
  define b0 where "b0 = replicate (chunk_size p div 8) (0 :: byte)"
  have clear: "bitmap_clear (bm_b st) (chunk_size p) = Some b0"
    using bitmap_clear_members(1) [of "bm_b st"] inv(1) n(1) by (simp add: knn_invariant_def b0_def)
  obtain b rm bm opened where c: "chunk_candidates S D db p (map_option rowid_qsort given) inputs idxStr argv (st\<lparr>bm_b := b0\<rparr>) row =
      Some (Inr (st\<lparr>bm_b := b, bm_rowids := rm, bm_metadata := bm, opened_blobs := opened\<rparr>))"
    "length b = chunk_size p div 8" "length bm = chunk_size p div 8" "given \<noteq> None \<longrightarrow> length rm = chunk_size p div 8"
    "members b = passing_rows idxStr (length argv) (chunk_validity row) (i64_cells (chunk_rowids row) (chunk_size p)) given M"
    using chunk_candidates_ok [OF n(1) row(1,2) _ _ _ plan args, of "st\<lparr>bm_b := b0\<rparr>"] inv by (auto simp: knn_invariant_def b0_def)
  define st1 where "st1 = st\<lparr>bm_b := b, bm_rowids := rm, bm_metadata := bm, opened_blobs := opened\<rparr>"
  have st1: "knn_invariant p k st1" "topk k all (neighbours (topk_distances st1) (topk_rowids st1) (k_used st1))"
    "members (bm_b st1) = members b" "bm_rowids st1 = rm"
    using inv(1) c(2,3) best by (simp_all add: knn_invariant_def st1_def)
  have fit: "vectors_fit p base query" using row(1) vectors by (simp add: vectors_fit_def chunk_stored_def)
  obtain st' where st': "select_chunk F p idxStr argv query k base st1 row = Some st'" "knn_invariant p k st'" "bm_rowids st' = rm"
    "topk k (all @ near_rows F p idxStr argv query base (i64_cells (chunk_rowids row) (chunk_size p)) (members b))
      (neighbours (topk_distances st') (topk_rowids st') (k_used st'))"
    using select_chunk_ok [OF n k st1(1) fit plan st1(2) nums(1), of F row] nums(2) st1(3,4) c(5) by (auto simp: chunk_near_def Let_def)
  have "knn_chunk S D F db p (map_option rowid_qsort given) inputs idxStr argv query k st row = Some (Inr st')"
    using clear open_chunk_ok [OF assms(1) row(1)] c(1) st'(1) by (simp add: knn_chunk_def st1_def)
  then show ?thesis using st'(2-4) c(4,5) by (auto simp: chunk_near_def Let_def)
qed

lemma knn_chunks_ok:
  fixes F :: "('r :: linorder f32, 'g :: linorder) float_api"
  assumes "sqlite_store S view" and n: "chunk_size p mod 8 = 0" "0 < chunk_size p" and k: "0 < k"
    and vectors: "length query = vector_byte_size (element_type p) (dimensions p)" "dimensions p \<le> 8192"
    and plan: "plan_covers idxStr (length argv)"
  shows "\<forall>row \<in> set rows. chunk_stored (view db) p row (base row) \<and> rowids_close p given row \<and>
       numbers (chunk_near F p idxStr argv query given row (base row) (M row)) \<and>
       (\<forall>a < length argv. metadata_argument S D db p inputs idxStr argv (chunk_id row) (M row) a) \<Longrightarrow>
     knn_invariant p k st \<Longrightarrow> given \<noteq> None \<longrightarrow> length (bm_rowids st) = chunk_size p div 8 \<Longrightarrow>
     topk k all (neighbours (topk_distances st) (topk_rowids st) (k_used st)) \<Longrightarrow> numbers all \<Longrightarrow>
     \<exists>st'. knn_chunks (knn_chunk S D F db p (map_option rowid_qsort given) inputs idxStr argv query k) (map Inr rows) st = Some (Inr st') \<and>
       knn_invariant p k st' \<and> topk k (all @ concat (map (\<lambda>row. chunk_near F p idxStr argv query given row (base row) (M row)) rows))
         (neighbours (topk_distances st') (topk_rowids st') (k_used st'))"
proof (induction rows arbitrary: st all)
  case Nil
  then show ?case by simp
next
  case (Cons row rows)
  obtain st1 where st1: "knn_chunk S D F db p (map_option rowid_qsort given) inputs idxStr argv query k st row = Some (Inr st1)"
    "knn_invariant p k st1" "given \<noteq> None \<longrightarrow> length (bm_rowids st1) = chunk_size p div 8"
    "topk k (all @ chunk_near F p idxStr argv query given row (base row) (M row))
      (neighbours (topk_distances st1) (topk_rowids st1) (k_used st1))"
    using knn_chunk_ok [OF assms, of db row "base row" given D inputs "M row" st all F] Cons.prems by auto
  show ?case using Cons.IH [OF _ st1(2-4)] Cons.prems(1,5) st1(1) by simp
qed

lemma bitmap_new_ok: "n mod 8 = 0 \<Longrightarrow> bitmap_new True n = Some (Some (replicate (n div 8) 0))"
  by (simp add: bitmap_new_def)

lemma knn_init_ok:
  assumes "sqlite_store S view" and "chunk_size p mod 8 = 0"
  shows "\<exists>st. knn_init S F db p rowid_in k = Some (Inr st) \<and> knn_invariant p k st \<and>
    (rowid_in \<longrightarrow> length (bm_rowids st) = chunk_size p div 8) \<and> k_used st = 0"
  using bitmap_new_ok [OF assms(2)] sqlite_store.malloc_ok [OF assms(1)]
  by (simp add: knn_init_def knn_invariant_def Let_def)

subsection \<open>Metadata columns as metadata arguments\<close>

lemma metadata_operator_of_char [simp]: "metadata_operator_of (metadata_operator_char op) = Some op"
  by (cases op) (simp_all add: metadata_operator_of_def metadata_operator_char_def)

text \<open>The column and the operator a metadata constraint names in the plan.\<close>

definition constraint_column :: "string \<Rightarrow> nat \<Rightarrow> nat" where
  "constraint_column idxStr i = of_char (the (idx_char idxStr i 1)) - 65"

definition constraint_operator :: "string \<Rightarrow> nat \<Rightarrow> metadata_operator" where
  "constraint_operator idxStr i = the (metadata_operator_of (the (idx_char idxStr i 2)))"

text \<open>
  The metadata columns of the table hold the values \<open>cells\<close> for the rows of a chunk, and every metadata constraint of the
  plan names a column and an operator it supports.
\<close>

definition metadata_stored ::
  "'g double_api \<Rightarrow> store \<Rightarrow> vec0_table \<Rightarrow> metadata_in \<Rightarrow> string \<Rightarrow> nat \<Rightarrow> (nat \<Rightarrow> int \<Rightarrow> 'g metadata_cells) \<Rightarrow> int \<Rightarrow> bool" where
  "metadata_stored D st p inputs idxStr argc cells chunk \<longleftrightarrow>
     (\<forall>i < argc. idx_char idxStr i 0 = Some IDXSTR_KIND_METADATA_CONSTRAINT \<longrightarrow>
        (let column = constraint_column idxStr i; values = cells column chunk
         in column < length (metadata_kinds p) \<and> cells_kind values = metadata_kinds p ! column \<and>
            cells_length values = chunk_size p \<and> cells_stored D st column chunk values \<and>
            metadata_operator_of (the (idx_char idxStr i 2)) \<noteq> None \<and>
            supported (constraint_operator idxStr i) (in_texts inputs i) (in_ints inputs i) chunk values))"

text \<open>Row \<open>j\<close> of a chunk satisfies argument \<open>i\<close>, if that is a metadata constraint.\<close>

definition satisfies ::
  "metadata_in \<Rightarrow> string \<Rightarrow> ('g :: linorder) sqlite_value list \<Rightarrow> (nat \<Rightarrow> int \<Rightarrow> 'g metadata_cells) \<Rightarrow> int \<Rightarrow> nat \<Rightarrow> nat \<Rightarrow> bool" where
  "satisfies inputs idxStr argv cells chunk i j \<longleftrightarrow>
     (idx_char idxStr i 0 = Some IDXSTR_KIND_METADATA_CONSTRAINT \<longrightarrow>
        cell_holds (constraint_operator idxStr i) (in_texts inputs i) (in_ints inputs i) (argv ! i) (cells (constraint_column idxStr i) chunk) j)"

lemma metadata_argument_cells:
  assumes "sqlite_store S view" and "metadata_stored D (view db) p inputs idxStr (length argv) cells chunk"
    and "chunk_size p mod 8 = 0" and "plan_covers idxStr (length argv)" and "i < length argv"
  shows "metadata_argument S D db p inputs idxStr argv chunk (\<lambda>i. {j. j < chunk_size p \<and> satisfies inputs idxStr argv cells chunk i j}) i"
proof (cases "idx_char idxStr i 0 = Some IDXSTR_KIND_METADATA_CONSTRAINT")
  case False
  then show ?thesis by (simp add: metadata_argument_def)
next
  case True
  define column where "column = constraint_column idxStr i"
  define op where "op = constraint_operator idxStr i"
  have c: "column < length (metadata_kinds p)" "cells_kind (cells column chunk) = metadata_kinds p ! column"
    "chunk_size p = cells_length (cells column chunk)" "cells_stored D (view db) column chunk (cells column chunk)"
    "metadata_operator_of (the (idx_char idxStr i 2)) = Some op"
    "supported op (in_texts inputs i) (in_ints inputs i) chunk (cells column chunk)"
    using assms(2,5) True by (auto simp: metadata_stored_def Let_def column_def op_def constraint_operator_def)
  obtain c1 c2 where char: "idx_char idxStr i 1 = Some c1" "idx_char idxStr i 2 = Some c2"
    using plan_covers [OF assms(4,5), of 1] plan_covers [OF assms(4,5), of 2] by auto
  have column: "of_char c1 - 65 = column" using char(1) by (simp add: column_def constraint_column_def)
  define b where "b = replicate (chunk_size p div 8) (0 :: byte)"
  have b: "length b = chunk_size p div 8" "members b = {}" using bitmap_clear_members(2) [of "[]" 0] by (simp_all add: b_def)
  have "satisfies inputs idxStr argv cells chunk i j \<longleftrightarrow>
      cell_holds op (in_texts inputs i) (in_ints inputs i) (argv ! i) (cells column chunk) j" for j
    using True by (simp add: satisfies_def op_def column_def)
  then obtain b' where "vec0_set_metadata_filter_bitmap S D db (metadata_kinds p ! column) column op (argv ! i) chunk b (chunk_size p)
      (in_texts inputs) (in_ints inputs) i = Some (Inr b')" "length b' = chunk_size p div 8"
    "members b' = {j. j < chunk_size p \<and> satisfies inputs idxStr argv cells chunk i j}"
    using metadata_filter_rows [of S view D db column chunk "cells column chunk" op "in_texts inputs" i "in_ints inputs" "chunk_size p" b "argv ! i",
        OF assms(1) c(4,6,3) assms(3) b] c(2) b(1) by auto
  then show ?thesis
    using char c(1,5) cells_opened [OF assms(1) c(4)] by (auto simp: metadata_argument_def column b_def)
qed

subsection \<open>The promise\<close>

lemma knn_nearest:
  fixes F :: "('r :: linorder f32, 'g :: linorder) float_api"
  assumes "sqlite_store S view" and "chunk_size p mod 8 = 0" and "0 < chunk_size p" and "0 < k"
    and "length query = vector_byte_size (element_type p) (dimensions p)" and "dimensions p \<le> 8192"
    and "plan_covers idxStr (length argv)"
    and "\<forall>row \<in> set rows. chunk_stored (view db) p row (base row) \<and> rowids_close p given row \<and>
      numbers (chunk_near F p idxStr argv query given row (base row) (M row)) \<and>
      (\<forall>a < length argv. metadata_argument S D db p inputs idxStr argv (chunk_id row) (M row) a)"
  shows "\<exists>rowids distances used.
    vec0Filter_knn_chunks_iter S D F db p (map Inr rows) (map_option rowid_qsort given) inputs idxStr argv query k =
      Some (Inr (rowids, distances, used)) \<and> used \<le> length rowids \<and> used \<le> length distances \<and>
    topk k (concat (map (\<lambda>row. chunk_near F p idxStr argv query given row (base row) (M row)) rows))
      (neighbours distances rowids used)"
proof -
  obtain st where st: "knn_init S F db p (map_option rowid_qsort given \<noteq> None) k = Some (Inr st)" "knn_invariant p k st"
    "given \<noteq> None \<longrightarrow> length (bm_rowids st) = chunk_size p div 8" "k_used st = 0"
    using knn_init_ok [OF assms(1,2), of F db "map_option rowid_qsort given \<noteq> None" k] by auto
  have "topk k [] (neighbours (topk_distances st) (topk_rowids st) (k_used st))" using st(4) by (simp add: topk_def neighbours_def)
  from knn_chunks_ok [OF assms(1-7,8) st(2,3) this numbers_simps(1)]
  obtain st' where st': "knn_chunks (knn_chunk S D F db p (map_option rowid_qsort given) inputs idxStr argv query k) (map Inr rows) st =
      Some (Inr st')" "knn_invariant p k st'"
    "topk k (concat (map (\<lambda>row. chunk_near F p idxStr argv query given row (base row) (M row)) rows))
       (neighbours (topk_distances st') (topk_rowids st') (k_used st'))"
    by auto
  have "(length idxStr - 1) div 4 = length argv" using assms(7) by (simp add: plan_covers_def)
  then have "vec0Filter_knn_chunks_iter S D F db p (map Inr rows) (map_option rowid_qsort given) inputs idxStr argv query k =
      Some (Inr (topk_rowids st', topk_distances st', k_used st'))"
    using st(1) st'(1) by (simp add: vec0Filter_knn_chunks_iter_def)
  moreover have "k_used st' \<le> k" using st'(3) by (auto simp: topk_def)
  ultimately show ?thesis using st'(2,3) by (auto simp: knn_invariant_def)
qed

text \<open>
  The rows a query asks for in a chunk: valid, named if row ids are given, satisfying the metadata constraints by the values
  of their columns, and the distance constraints by their distance; each with its distance and its row id.
\<close>

definition asked_rows ::
  "vec0_table \<Rightarrow> metadata_in \<Rightarrow> string \<Rightarrow> ('g :: linorder) sqlite_value list \<Rightarrow> int list option \<Rightarrow> (nat \<Rightarrow> int \<Rightarrow> 'g metadata_cells) \<Rightarrow>
     chunk_row \<Rightarrow> nat set" where
  "asked_rows p inputs idxStr argv given cells row =
     {j \<in> members (chunk_validity row).
        (\<forall>z. given = Some z \<longrightarrow> i64_cells (chunk_rowids row) (chunk_size p) ! j \<in> set z) \<and>
        (\<forall>i < length argv. satisfies inputs idxStr argv cells (chunk_id row) i j)}"

definition asked_neighbours ::
  "('r :: ord, 'g :: linorder) float_api \<Rightarrow> vec0_table \<Rightarrow> metadata_in \<Rightarrow> string \<Rightarrow> 'g sqlite_value list \<Rightarrow> byte list \<Rightarrow> int list option \<Rightarrow>
     (nat \<Rightarrow> int \<Rightarrow> 'g metadata_cells) \<Rightarrow> (chunk_row \<Rightarrow> byte list) \<Rightarrow> chunk_row \<Rightarrow> ('r \<times> int) list" where
  "asked_neighbours F p inputs idxStr argv query given cells base row =
     near_rows F p idxStr argv query (base row) (i64_cells (chunk_rowids row) (chunk_size p))
       (asked_rows p inputs idxStr argv given cells row)"

lemma asked_neighbours:
  assumes "chunk_stored st p row bytes" and "chunk_size p mod 8 = 0"
  shows "chunk_near F p idxStr argv query given row (base row)
      (\<lambda>i. {j. j < chunk_size p \<and> satisfies inputs idxStr argv cells (chunk_id row) i j}) =
    asked_neighbours F p inputs idxStr argv query given cells base row"
proof -
  have "j < chunk_size p" if "j \<in> members (chunk_validity row)" for j
    using that assms by (auto simp: in_members chunk_stored_def)
  then have "passing_rows idxStr (length argv) (chunk_validity row) (i64_cells (chunk_rowids row) (chunk_size p)) given
      (\<lambda>i. {j. j < chunk_size p \<and> satisfies inputs idxStr argv cells (chunk_id row) i j}) = asked_rows p inputs idxStr argv given cells row"
    by (auto simp: passing_rows_def asked_rows_def metadata_rows_def satisfies_def split: option.splits)
  then show ?thesis by (simp add: chunk_near_def asked_neighbours_def Let_def)
qed

text \<open>
  C6: a nearest-neighbour query over any number of chunks succeeds and returns the best \<open>k\<close>, in order of distance, of
  the rows of all chunks that are valid, have one of the row ids asked for (when they are restricted), satisfy every
  metadata constraint by the values of their columns, and every distance constraint: as many as there are when fewer than
  \<open>k\<close>, and none left out is nearer than one returned. The row ids asked for and those of a chunk are less than \<open>2 ^ 31\<close> apart,
  the distances of the rows asked for are numbers and not a NaN, and order constraints on texts meet texts shorter than
  12 bytes only.
\<close>

theorem knn_returns_the_nearest_rows:
  fixes F :: "('r :: linorder f32, 'g :: linorder) float_api"
  assumes "sqlite_store S view" and "chunk_size p mod 8 = 0" and "0 < chunk_size p" and "0 < k"
    and "length query = vector_byte_size (element_type p) (dimensions p)" and "dimensions p \<le> 8192"
    and "plan_covers idxStr (length argv)"
    and "\<forall>row \<in> set rows. chunk_stored (view db) p row (base row) \<and> rowids_close p given row \<and>
      metadata_stored D (view db) p inputs idxStr (length argv) cells (chunk_id row) \<and>
      numbers (asked_neighbours F p inputs idxStr argv query given cells base row)"
  shows "\<exists>rowids distances used.
    vec0Filter_knn_chunks_iter S D F db p (map Inr rows) (map_option rowid_qsort given) inputs idxStr argv query k =
      Some (Inr (rowids, distances, used)) \<and>
    topk k (concat (map (asked_neighbours F p inputs idxStr argv query given cells base) rows)) (neighbours distances rowids used)"
proof -
  define M where "M = (\<lambda>(row :: chunk_row) i. {j. j < chunk_size p \<and> satisfies inputs idxStr argv cells (chunk_id row) i j})"
  have near: "chunk_near F p idxStr argv query given row (base row) (M row) = asked_neighbours F p inputs idxStr argv query given cells base row"
    if "row \<in> set rows" for row
    unfolding M_def by (rule asked_neighbours [OF _ assms(2), of "view db" row "base row"]) (use assms(8) that in blast)
  have "\<forall>row \<in> set rows. chunk_stored (view db) p row (base row) \<and> rowids_close p given row \<and>
      numbers (chunk_near F p idxStr argv query given row (base row) (M row)) \<and>
      (\<forall>a < length argv. metadata_argument S D db p inputs idxStr argv (chunk_id row) (M row) a)"
    using assms(8) near metadata_argument_cells [OF assms(1) _ assms(2,7)] by (auto simp: M_def)
  note rows = knn_nearest [OF assms(1-7) this]
  have "map (\<lambda>row. chunk_near F p idxStr argv query given row (base row) (M row)) rows =
      map (asked_neighbours F p inputs idxStr argv query given cells base) rows" using near by simp
  then show ?thesis using rows by (simp only:) blast
qed

text \<open>Whole numbers for the arithmetic.\<close>

fun number_op :: "('a \<Rightarrow> 'a \<Rightarrow> 'a) \<Rightarrow> 'a f32 \<Rightarrow> 'a f32 \<Rightarrow> 'a f32" where
  "number_op f (Number x) (Number y) = Number (f x y)"
| "number_op f _ _ = NaN"

fun number_of :: "int f32 \<Rightarrow> int" where
  "number_of (Number x) = x"
| "number_of NaN = 0"

definition int_arithmetic :: "(int f32, int) float_api" where
  "int_arithmetic = \<lparr>f_of_bytes = (\<lambda>bs. Number (sint (bs ! 0))), f_of_int = Number, f_zero = Number 0, f_add = number_op (+),
     f_sub = number_op (-), f_mul = number_op (*), f_of_d = Number, d_of_f = number_of, d_zero = 0, d_one = 1, d_add = (+),
     d_sub = (-), d_mul = (*), d_div = (div), d_sqrt = id, d_fabs = abs, popcountl = (\<lambda>x. popcount (unat x))\<rparr>"

definition small_table :: vec0_table where
  "small_table = \<lparr>chunk_size = 8, column_idx = 0, element_type = INT8, dimensions = 1, metric = METRIC_L1, metadata_kinds = [KIND_TEXT]\<rparr>"

definition small_row :: chunk_row where
  "small_row = \<lparr>chunk_id = 1, chunk_validity = [7], chunk_rowids = concat (map i64_bytes [1, 2, 3, 4, 5, 6, 7, 8])\<rparr>"

definition small_store :: store where
  "small_store = set_blob (text_store 0 1 [1, 2, 3, 4, 5, 6, 7, 8] (letters eight_lengths)) (Vectors 0) 1 [5, 1, 9, 0, 0, 0, 0, 0]"

lemma small_store_texts: "text_chunk small_store 0 1 [1, 2, 3, 4, 5, 6, 7, 8] (letters eight_lengths)"
  using letters_chunk [OF eight_lengths] by (simp add: text_chunk_def small_store_def)

lemma i64_cells_bytes:
  assumes "\<forall>r \<in> set rs. - (2 ^ 63) \<le> r \<and> r < 2 ^ 63" and "n = length rs"
  shows "i64_cells (concat (map i64_bytes rs)) n = rs"
  unfolding assms(2)
proof (rule nth_equalityI)
  fix i assume "i < length (i64_cells (concat (map i64_bytes rs)) (length rs))"
  then have i: "i < length rs" by (simp add: i64_cells_def)
  have "take 8 (drop (8 * i) (concat (map i64_bytes rs))) = i64_bytes (rs ! i)" by (rule take_cell) (simp_all add: i)
  moreover have "rs ! i \<in> set rs" using i by simp
  ultimately show "i64_cells (concat (map i64_bytes rs)) (length rs) ! i = rs ! i" using assms i by (simp add: i64_cells_def)
qed (simp add: i64_cells_def)

lemma small_rowids: "i64_cells (chunk_rowids small_row) 8 = [1, 2, 3, 4, 5, 6, 7, 8]"
  using i64_cells_bytes [of "[1, 2, 3, 4, 5, 6, 7, 8]" 8] by (simp add: small_row_def)

lemma small_row_stored: "chunk_stored small_store small_table small_row [5, 1, 9, 0, 0, 0, 0, 0]" "rowids_close small_table (Some [1, 3]) small_row"
  using small_rowids
  by (auto simp: chunk_stored_def rowids_close_def small_store_def small_row_def small_table_def vector_byte_size_def close_rowids_def)

definition no_inputs :: metadata_in where
  "no_inputs = \<lparr>in_texts = (\<lambda>_. None), in_ints = (\<lambda>_. None)\<rparr>"

definition small_args :: "int sqlite_value list" where
  "small_args = [text_value 0 [], text_value 0 [], text_value 0 (letters eight_lengths ! 0)]"

definition small_cells :: "nat \<Rightarrow> int \<Rightarrow> int metadata_cells" where
  "small_cells column chunk = Texts (letters eight_lengths)"

lemma small_plan:
  "idx_char ''3{___}___&Af_'' 0 0 = Some (CHR ''{'')" "idx_char ''3{___}___&Af_'' 1 0 = Some (CHR ''}'')"
  "idx_char ''3{___}___&Af_'' 2 0 = Some (CHR ''&'')" "constraint_column ''3{___}___&Af_'' 2 = 0"
  "metadata_operator_of (the (idx_char ''3{___}___&Af_'' 2 2)) = Some OP_NE"
  by (simp_all add: idx_char_def item_at_def constraint_column_def metadata_operator_of_def metadata_operator_char_def)

lemma small_metadata: "metadata_stored int_doubles small_store small_table no_inputs ''3{___}___&Af_'' 3 small_cells 1"
  unfolding metadata_stored_def
proof (intro allI impI)
  fix i :: nat assume i: "i < 3" "idx_char ''3{___}___&Af_'' i 0 = Some IDXSTR_KIND_METADATA_CONSTRAINT"
  then have "i = 2" using small_plan(1,2) by (cases "i = 0"; cases "i = 1") auto
  then show "let column = constraint_column ''3{___}___&Af_'' i; values = small_cells column 1
      in column < length (metadata_kinds small_table) \<and> cells_kind values = metadata_kinds small_table ! column \<and>
         cells_length values = chunk_size small_table \<and> cells_stored int_doubles small_store column 1 values \<and>
         metadata_operator_of (the (idx_char ''3{___}___&Af_'' i 2)) \<noteq> None \<and>
         supported (constraint_operator ''3{___}___&Af_'' i) (in_texts no_inputs i) (in_ints no_inputs i) 1 values"
    using small_plan(4,5) small_store_texts
    by (auto simp: Let_def small_cells_def small_table_def constraint_operator_def eight_lengths)
qed

theorem knn_returns_the_nearest_rows_witness:
  "\<exists>rowids distances used.
     vec0Filter_knn_chunks_iter store_api int_doubles int_arithmetic small_store small_table (map Inr [small_row])
       (map_option rowid_qsort (Some [1, 3])) no_inputs ''3{___}___&Af_'' small_args [2] 1 = Some (Inr (rowids, distances, used)) \<and>
     topk 1 (concat (map (asked_neighbours int_arithmetic small_table no_inputs ''3{___}___&Af_'' small_args [2] (Some [1, 3])
       small_cells (\<lambda>_. [5, 1, 9, 0, 0, 0, 0, 0])) [small_row])) (neighbours distances rowids used)"
proof (rule knn_returns_the_nearest_rows [OF map_store.sqlite_store_axioms])
  have "row_distance int_arithmetic INT8 METRIC_L1 1 base query i = Some d \<Longrightarrow> d \<noteq> NaN" for base query i d
    by (auto simp: row_distance_def int_arithmetic_def)
  then have "distance_at int_arithmetic small_table [5, 1, 9, 0, 0, 0, 0, 0] [2] i \<noteq> NaN" if "i < 8" for i
    using distance_at [of small_table "[5, 1, 9, 0, 0, 0, 0, 0]" "[2]" i int_arithmetic] that
    by (simp add: small_table_def vectors_fit_def vector_byte_size_def)
  then have "numbers (asked_neighbours int_arithmetic small_table no_inputs ''3{___}___&Af_'' small_args [2] (Some [1, 3]) small_cells
      (\<lambda>_. [5, 1, 9, 0, 0, 0, 0, 0]) small_row)"
    by (auto simp: numbers_def asked_neighbours_def near_rows_def small_table_def)
  then show "\<forall>row \<in> set [small_row]. chunk_stored small_store small_table row [5, 1, 9, 0, 0, 0, 0, 0] \<and>
      rowids_close small_table (Some [1, 3]) row \<and>
      metadata_stored int_doubles small_store small_table no_inputs ''3{___}___&Af_'' (length small_args) small_cells (chunk_id row) \<and>
      numbers (asked_neighbours int_arithmetic small_table no_inputs ''3{___}___&Af_'' small_args [2] (Some [1, 3]) small_cells
        (\<lambda>_. [5, 1, 9, 0, 0, 0, 0, 0]) row)"
    using small_row_stored small_metadata by (simp add: small_row_def small_args_def numeral_3_eq_3)
qed (simp_all add: small_table_def small_args_def vector_byte_size_def plan_covers_def)

text \<open>
  Row ids further apart are not told apart: the comparison drops the upper half of their difference, so a search
  for \<open>r\<close> among the row ids asked for finds \<open>r + 2 ^ 32\<close>, and a chunk's row is taken for one the query did not name.
\<close>

lemma rowid_in_confuses_distant_rowids:
  "rowid_cmp (r + 2 ^ 32) r = 0 \<and> rowid_bsearch r (rowid_qsort [r + 2 ^ 32]) 0 1 = Some 0 \<and>
   rowid_filter (rowid_qsort [r + 2 ^ 32]) [1] [r] [0] [0] = Some [1]"
proof -
  have z: "rowid_cmp (r + 2 ^ 32) r = 0" "rowid_cmp r (r + 2 ^ 32) = 0" by (simp_all add: rowid_cmp_def)
  have s: "rowid_qsort [r + 2 ^ 32] = [r + 2 ^ 32]" by (simp add: rowid_qsort_def)
  have "rowid_bsearch r [r + 2 ^ 32] 0 1 = Some 0" using z(2) by (subst rowid_bsearch.simps) (simp add: Let_def)
  moreover have "bitmap_get [1] 0 = Some True" "bitmap_set [0] 0 True = Some [1]"
    by (simp_all add: bitmap_get_def bitmap_set_def)
  ultimately show ?thesis using z(1) unfolding s by simp
qed

end
