(* ===== verification/VecSearch.thy ===== *)
theory VecSearch
  imports VecTableOps VecNearest
begin

text \<open>
  Searching a \<^verbatim>\<open>vec0\<close> table: the search over the chunks, which knows validity bitmaps, row id cells and vector blobs,
  finds the nearest rows of the map the table stands for.
\<close>

subsection \<open>The distance of a row is that of its vector\<close>

lemma f32_cells_take: "f32_cells F (take (4 * n) bs) = take n (f32_cells F bs)"
proof (induction n arbitrary: bs)
  case 0
  then show ?case by simp
next
  case (Suc n)
  show ?case
  proof (cases "\<exists>b0 b1 b2 b3 cs. bs = b0 # b1 # b2 # b3 # cs")
    case True
    then obtain b0 b1 b2 b3 cs where bs: "bs = b0 # b1 # b2 # b3 # cs" by blast
    have "4 * Suc n = Suc (Suc (Suc (Suc (4 * n))))" by simp
    then have "take (4 * Suc n) bs = b0 # b1 # b2 # b3 # take (4 * n) cs" by (simp only: bs take_Suc_Cons)
    then show ?thesis using Suc.IH [of cs] by (simp add: bs)
  next
    case False
    have "length bs < 4"
    proof (rule ccontr)
      assume "\<not> length bs < 4"
      then have "Suc (Suc (Suc (Suc 0))) \<le> length bs" by simp
      then show False using False unfolding Suc_le_length_iff by blast
    qed
    then have "f32_cells F bs = []" "take (4 * Suc n) bs = bs" using length_f32_cells [of F bs] by simp_all
    then show ?thesis by simp
  qed
qed

lemma u64_words_take: "u64_words (take (8 * n) bs) = take n (u64_words bs)"
proof (induction n arbitrary: bs)
  case 0
  then show ?case by simp
next
  case (Suc n)
  show ?case
  proof (cases "\<exists>b0 b1 b2 b3 b4 b5 b6 b7 cs. bs = b0 # b1 # b2 # b3 # b4 # b5 # b6 # b7 # cs")
    case True
    then obtain b0 b1 b2 b3 b4 b5 b6 b7 cs where bs: "bs = b0 # b1 # b2 # b3 # b4 # b5 # b6 # b7 # cs" by blast
    have "8 * Suc n = Suc (Suc (Suc (Suc (Suc (Suc (Suc (Suc (8 * n))))))))" by simp
    then have "take (8 * Suc n) bs = b0 # b1 # b2 # b3 # b4 # b5 # b6 # b7 # take (8 * n) cs" by (simp only: bs take_Suc_Cons)
    then show ?thesis using Suc.IH [of cs] unfolding bs by (simp only: u64_words.simps take_Suc_Cons)
  next
    case False
    have "length bs < 8"
    proof (rule ccontr)
      assume "\<not> length bs < 8"
      then have "Suc (Suc (Suc (Suc (Suc (Suc (Suc (Suc 0))))))) \<le> length bs" by simp
      then show False using False unfolding Suc_le_length_iff by blast
    qed
    then have "u64_words bs = []" "take (8 * Suc n) bs = bs" using length_u64_words [of bs] by simp_all
    then show ?thesis by simp
  qed
qed

lemma l2_float_take: "l2_sqr_float_loop F (take n xs) ys n r = l2_sqr_float_loop F xs ys n r"
  by (induction F xs ys n r rule: l2_sqr_float_loop.induct) (simp_all add: Let_def)

lemma l1_float_take: "l1_f32_loop F (take n xs) ys n r = l1_f32_loop F xs ys n r"
  by (induction F xs ys n r rule: l1_f32_loop.induct) simp_all

lemma cosine_float_take: "cosine_float_loop F (take n xs) ys n r s t = cosine_float_loop F xs ys n r s t"
  by (induction F xs ys n r s t rule: cosine_float_loop.induct) simp_all

lemma l2_int8_take: "l2_sqr_int8_loop F (take n xs) ys n r = l2_sqr_int8_loop F xs ys n r"
  by (induction F xs ys n r rule: l2_sqr_int8_loop.induct) (simp_all add: Let_def)

lemma cosine_int8_take: "cosine_int8_loop F (take n xs) ys n r s t = cosine_int8_loop F xs ys n r s t"
  by (induction F xs ys n r s t rule: cosine_int8_loop.induct) simp_all

lemma l1_int8_take: "l1_int8_loop (take n xs) ys n r = l1_int8_loop xs ys n r"
  by (induction xs ys n r rule: l1_int8_loop.induct) (simp_all add: Let_def)

lemma hamming_u8_take: "distance_hamming_u8 (take n xs) ys n = distance_hamming_u8 xs ys n"
  by (induction xs ys n rule: distance_hamming_u8.induct) simp_all

lemma hamming_u64_take: "distance_hamming_u64 pop (take n xs) ys n = distance_hamming_u64 pop xs ys n"
  by (induction pop xs ys n rule: distance_hamming_u64.induct) simp_all

lemmas loops_take = l2_float_take l1_float_take cosine_float_take l2_int8_take cosine_int8_take l1_int8_take hamming_u8_take hamming_u64_take

lemma hamming_take:
  assumes "d mod 8 = 0"
  shows "distance_hamming pop (take (d div 8) a) b d = distance_hamming pop a b d"
proof (cases "d mod 64 = 0")
  case True
  then have "d div 8 = 8 * (d div 8 div 8)" by (auto elim!: dvdE simp: mod_eq_0_iff_dvd)
  then have "u64_words (take (d div 8) a) = take (d div 8 div 8) (u64_words a)" by (metis u64_words_take)
  then show ?thesis using True by (simp add: distance_hamming_def loops_take)
qed (simp add: distance_hamming_def loops_take)

lemma row_distance_cell:
  assumes "t = BIT \<longrightarrow> d mod 8 = 0"
  shows "row_distance F t m d base query j = row_distance F t m d (cell base (vector_byte_size t d) j) query 0"
proof (cases t)
  case FLOAT32
  have "f32_cells F (take (d * 4) xs) = take d (f32_cells F xs)" for xs using f32_cells_take [of F d xs] by (simp add: mult.commute)
  then show ?thesis using FLOAT32 by (simp add: row_distance_def cell_def vector_byte_size_def distance_l2_sqr_float_def l2_sqr_float_def
        distance_l1_f32_def l1_f32_def distance_cosine_float_def loops_take mult.assoc Let_def split: distance_metric.splits)
next
  case INT8
  then show ?thesis by (simp add: row_distance_def cell_def vector_byte_size_def distance_l2_sqr_int8_def l2_sqr_int8_def
        distance_l1_int8_def l1_int8_def distance_cosine_int8_def loops_take Let_def split: distance_metric.splits)
next
  case BIT
  then show ?thesis using assms hamming_take by (simp add: row_distance_def cell_def vector_byte_size_def)
qed

subsection \<open>All rows of the table\<close>

definition knn_table :: "vec0_vtab \<Rightarrow> nat \<Rightarrow> distance_metric \<Rightarrow> vec0_table" where
  "knn_table p i m = \<lparr>chunk_size = table_chunk_size p, column_idx = i, element_type = col_element_type (vector_columns p ! i),
     dimensions = col_dimensions (vector_columns p ! i), metric = m, metadata_kinds = metadata_columns p\<rparr>"

text \<open>What the statement over the chunks gives for chunk \<open>c\<close>.\<close>

definition chunk_row_of :: "'g rows_view \<Rightarrow> int \<Rightarrow> chunk_row" where
  "chunk_row_of st c = \<lparr>chunk_id = c, chunk_validity = blob st Chunks_validity c, chunk_rowids = blob st Chunks_rowids c\<rparr>"

definition vector_distance :: "('r, 'g) float_api \<Rightarrow> vec0_vtab \<Rightarrow> nat \<Rightarrow> distance_metric \<Rightarrow> byte list \<Rightarrow> byte list \<Rightarrow> 'r" where
  "vector_distance F p i m query v =
     the (row_distance F (col_element_type (vector_columns p ! i)) m (col_dimensions (vector_columns p ! i)) v query 0)"

definition row_at :: "'g rows_view \<Rightarrow> int \<times> nat \<Rightarrow> int" where
  "row_at st = (\<lambda>(c, j). i64_of_bytes (cell (blob st Chunks_rowids c) 8 j))"

definition places_of :: "vec0_vtab \<Rightarrow> 'g rows_view \<Rightarrow> int \<Rightarrow> (int \<times> nat) list" where
  "places_of p st c = map (Pair c) (filter (\<lambda>j. j \<in> members (blob st Chunks_validity c)) [0..<table_chunk_size p])"

lemma row_at:
  assumes "table_ok p st" and "st_position st r = Some (c, j)"
  shows "row_at st (c, j) = r"
proof -
  have "r \<in> i64_range" using row_place(5) [OF assms] table_okD(4) [OF assms(1)] by blast
  then show ?thesis using table_okD(7) [OF assms] by (simp add: row_at_def i64_range_def)
qed

lemma valid_place_row:
  assumes "table_ok p st" and "x \<in> valid_places st"
  shows "st_position st (row_at st x) = Some x"
proof -
  obtain r where "st_position st r = Some x" using table_okD(6) [OF assms(1)] assms(2) by (auto simp: ran_def)
  then show ?thesis using row_at [OF assms(1), of r "fst x" "snd x"] by simp
qed

text \<open>The places and the rows of some of the chunks.\<close>

definition rows_in :: "'g rows_view \<Rightarrow> int set \<Rightarrow> int set" where
  "rows_in st C = {r. \<exists>c j. st_position st r = Some (c, j) \<and> c \<in> C}"

lemma rows_in_all: "table_ok p st \<Longrightarrow> rows_in st (chunk_ids st) = dom (table_rows p st)"
  using row_place(1) [of p st] by (auto simp: rows_in_def table_rows_def dom_def)

lemma places_of_chunks:
  assumes ok: "table_ok p st" and cs: "set cs \<subseteq> chunk_ids st" "distinct cs"
  shows "set (concat (map (places_of p st) cs)) = {(c, j) \<in> valid_places st. c \<in> set cs}"
    "distinct (concat (map (places_of p st) cs))"
proof -
  have "j < table_chunk_size p" if "c \<in> set cs" "j \<in> members (blob st Chunks_validity c)" for c j
  proof -
    have "(c, j) \<in> valid_places st" using that cs(1) by (auto simp: valid_places_def)
    from valid_place_row [OF ok this] show ?thesis by (rule row_place(4) [OF ok])
  qed
  then show "set (concat (map (places_of p st) cs)) = {(c, j) \<in> valid_places st. c \<in> set cs}"
    using cs(1) by (auto simp: places_of_def valid_places_def)
  show "distinct (concat (map (places_of p st) cs))" using cs(2)
  proof (induction cs)
    case (Cons c cs)
    have "distinct (places_of p st c)" by (simp add: places_of_def distinct_map inj_on_def)
    moreover have "set (places_of p st c) \<inter> set (concat (map (places_of p st) cs)) = {}"
      using Cons.prems by (auto simp: places_of_def)
    ultimately show ?case using Cons by simp
  qed simp
qed

text \<open>The row ids met in the order of the chunks and places: each row of the chunks once.\<close>

lemma rows_of_chunks:
  assumes ok: "table_ok p st" and "set cs \<subseteq> chunk_ids st" and "distinct cs"
  shows "set (map (row_at st) (concat (map (places_of p st) cs))) = rows_in st (set cs)"
    "distinct (map (row_at st) (concat (map (places_of p st) cs)))"
proof -
  note places = places_of_chunks [OF assms]
  have "row_at st ` {(c, j) \<in> valid_places st. c \<in> set cs} = rows_in st (set cs)"
  proof
    show "row_at st ` {(c, j) \<in> valid_places st. c \<in> set cs} \<subseteq> rows_in st (set cs)"
      using valid_place_row [OF ok] by (force simp: rows_in_def)
    show "rows_in st (set cs) \<subseteq> row_at st ` {(c, j) \<in> valid_places st. c \<in> set cs}"
    proof
      fix r assume "r \<in> rows_in st (set cs)"
      then obtain c j where x: "st_position st r = Some (c, j)" "c \<in> set cs" by (auto simp: rows_in_def)
      then have "(c, j) \<in> valid_places st" using table_okD(6) [OF ok] by (auto simp: ran_def)
      moreover have "row_at st (c, j) = r" using row_at [OF ok x(1)] .
      ultimately show "r \<in> row_at st ` {(c, j) \<in> valid_places st. c \<in> set cs}" using x(2) by force
    qed
  qed
  then show "set (map (row_at st) (concat (map (places_of p st) cs))) = rows_in st (set cs)" using places(1) by (simp only: set_map)
  have "inj_on (row_at st) (valid_places st)" using valid_place_row [OF ok] by (metis inj_onI option.inject)
  then have "inj_on (row_at st) {(c, j) \<in> valid_places st. c \<in> set cs}" by (rule inj_on_subset) auto
  then show "distinct (map (row_at st) (concat (map (places_of p st) cs)))" using places by (simp only: distinct_map)
qed

text \<open>A plan without constraints on metadata columns and the distance.\<close>

definition plain_plan :: "string \<Rightarrow> bool" where
  "plain_plan idxStr \<longleftrightarrow> (\<forall>a. idx_char idxStr a 0 \<noteq> Some IDXSTR_KIND_METADATA_CONSTRAINT \<and>
     idx_char idxStr a 0 \<noteq> Some IDXSTR_KIND_DISTANCE_CONSTRAINT)"

lemma plain_query: "plain_plan ''3{___}___''"
  unfolding plain_plan_def
proof
  fix a :: nat
  consider "a = 0" | "a = 1" | "2 \<le> a" by linarith
  then show "idx_char ''3{___}___'' a 0 \<noteq> Some IDXSTR_KIND_METADATA_CONSTRAINT \<and>
      idx_char ''3{___}___'' a 0 \<noteq> Some IDXSTR_KIND_DISTANCE_CONSTRAINT"
    by cases (simp_all add: idx_char_def item_at_def)
qed

text \<open>The neighbours of a chunk, when the query has no such constraints.\<close>

lemma chunk_near_plain:
  fixes F :: "('r :: ord, 'g) float_api"
  assumes ok: "table_ok p st" and lay: "layout_ok p" and i: "i < length (vector_columns p)" and c: "c \<in> chunk_ids st" and plain: "plain_plan idxStr"
  shows "chunk_near F (knn_table p i m) idxStr argv query None (chunk_row_of st c) (blob st (Vectors i) c) M =
    map (\<lambda>x. (vector_distance F p i m query (the (table_rows p st (row_at st x)) ! i), row_at st x)) (places_of p st c)"
proof -
  define n where "n = table_chunk_size p"
  define base where "base = blob st (Vectors i) c"
  define js where "js = filter (\<lambda>j. j \<in> members (blob st Chunks_validity c)) [0..<n]"
  have d: "distance_argument F idxStr argv x a" for x a using plain by (simp add: distance_argument_def plain_plan_def)
  have md: "metadata_rows idxStr M A = UNIV" for A using plain by (auto simp: metadata_rows_def plain_plan_def)
  have "chunk_near F (knn_table p i m) idxStr argv query None (chunk_row_of st c) base M =
      map (\<lambda>j. (distance_at F (knn_table p i m) base query j, i64_cells (blob st Chunks_rowids c) n ! j)) js"
    by (simp add: chunk_near_def near_rows_def passing_rows_def d md knn_table_def chunk_row_of_def n_def js_def Let_def)
  also have "\<dots> = map (\<lambda>j. (vector_distance F p i m query (the (table_rows p st (row_at st (c, j))) ! i), row_at st (c, j))) js"
  proof (rule map_cong [OF refl])
    fix j assume "j \<in> set js"
    then have j: "j < n" "(c, j) \<in> valid_places st" using c by (simp_all add: js_def valid_places_def)
    have "table_rows p st (row_at st (c, j)) = Some (place_vectors p st c j)"
      using valid_place_row [OF ok j(2)] by (simp add: table_rows_def)
    then have "the (table_rows p st (row_at st (c, j))) ! i = cell base (column_size p i) j"
      using i by (simp add: place_vectors_def base_def)
    moreover have "col_element_type (vector_columns p ! i) = BIT \<longrightarrow> col_dimensions (vector_columns p ! i) mod 8 = 0"
      using lay i by (simp add: layout_ok_def)
    ultimately have "distance_at F (knn_table p i m) base query j =
        vector_distance F p i m query (the (table_rows p st (row_at st (c, j))) ! i)"
      using row_distance_cell [of "col_element_type (vector_columns p ! i)" "col_dimensions (vector_columns p ! i)" F m base query j]
      by (simp add: distance_at_def vector_distance_def knn_table_def column_size_def column_byte_size_def)
    moreover have "i64_cells (blob st Chunks_rowids c) n ! j = row_at st (c, j)"
      using j(1) by (simp add: i64_cells_def row_at_def cell_def mult.commute)
    ultimately show "(distance_at F (knn_table p i m) base query j, i64_cells (blob st Chunks_rowids c) n ! j) =
        (vector_distance F p i m query (the (table_rows p st (row_at st (c, j))) ! i), row_at st (c, j))" by simp
  qed
  finally show ?thesis by (simp add: base_def places_of_def js_def n_def comp_def)
qed

text \<open>The best \<open>k\<close> of a list that has every row once.\<close>

definition nearest_rows :: "nat \<Rightarrow> (int \<Rightarrow> 'r :: ord) \<Rightarrow> int set \<Rightarrow> ('r \<times> int) list \<Rightarrow> bool" where
  "nearest_rows k near rs found \<longleftrightarrow> in_order (map fst found) \<and> distinct (map snd found) \<and> length found = min k (card rs) \<and>
     (\<forall>(d, r) \<in> set found. r \<in> rs \<and> d = near r) \<and> (\<forall>r \<in> rs. r \<notin> snd ` set found \<longrightarrow> (\<forall>(d, s) \<in> set found. d \<le> near r))"

lemma topk_nearest:
  assumes best: "topk k (map (\<lambda>r. (near r, r)) rs) found" and rs: "distinct rs"
  shows "nearest_rows k near (set rs) found"
proof -
  obtain rest where rest: "mset (map (\<lambda>r. (near r, r)) rs) = mset found + mset rest"
    "\<forall>y \<in> set found. \<forall>z \<in> set rest. fst y \<le> fst z" and t: "in_order (map fst found)" "length found = min k (length rs)"
    using best by (auto simp: topk_def)
  have "mset rs = mset (map snd (map (\<lambda>r. (near r, r)) rs))" by (simp add: comp_def)
  also have "\<dots> = image_mset snd (mset found + mset rest)" by (simp only: mset_map [of snd] rest(1))
  also have "\<dots> = mset (map snd (found @ rest))" by simp
  finally have "distinct (map snd (found @ rest))" using rs by (metis mset_eq_imp_distinct_iff)
  then have d: "distinct (map snd found)" by simp
  have all: "set found \<union> set rest = (\<lambda>r. (near r, r)) ` set rs" using arg_cong [OF rest(1), of set_mset] by auto
  have "near r \<ge> fst y" if "r \<in> set rs" "r \<notin> snd ` set found" "y \<in> set found" for r y
  proof -
    have "(near r, r) \<in> set rest" using all that(1,2) by (force simp: image_iff)
    then show ?thesis using rest(2) that(3) by force
  qed
  moreover have "\<forall>(d, r) \<in> set found. r \<in> set rs \<and> d = near r" using all by auto
  ultimately show ?thesis using t d distinct_card [OF rs] by (auto simp: nearest_rows_def)
qed

lemma search_chunks_ok:
  fixes F :: "('r :: linorder f32, 'g :: linorder) float_api"
  assumes store: "row_store S rview R" and lay: "layout_ok p" and ok: "table_ok p (rview db)"
    and i: "i < length (vector_columns p)" "col_dimensions (vector_columns p ! i) \<le> 8192"
    and cs: "set cs \<subseteq> chunk_ids (rview db)" "distinct cs" and query: "length query = column_size p i" "0 < k"
    and plan: "plain_plan idxStr" "plan_covers idxStr (length argv)"
    and nums: "\<forall>r \<in> rows_in (rview db) (set cs). vector_distance F p i m query (the (table_rows p (rview db) r) ! i) \<noteq> NaN"
  shows "\<exists>rowids distances used.
    vec0Filter_knn_chunks_iter S D F db (knn_table p i m) (map (\<lambda>c. Inr (chunk_row_of (rview db) c)) cs) None inputs
      idxStr argv query k = Some (Inr (rowids, distances, used)) \<and> used \<le> length rowids \<and> used \<le> length distances \<and>
    nearest_rows k (\<lambda>r. vector_distance F p i m query (the (table_rows p (rview db) r) ! i)) (rows_in (rview db) (set cs))
      (neighbours distances rowids used)"
proof -
  define rows where "rows = map (chunk_row_of (rview db)) cs"
  define base where "base = (\<lambda>row :: chunk_row. blob (rview db) (Vectors i) (chunk_id row))"
  have lay': "0 < table_chunk_size p" "table_chunk_size p mod 8 = 0" using lay by (simp_all add: layout_ok_def)
  have blobs: "sqlite_store S (\<lambda>db. store.truncate (rview db))" using store by (simp add: row_store_def)
  have "chunk_stored (store.truncate (rview db)) (knn_table p i m) (chunk_row_of (rview db) c) (base (chunk_row_of (rview db) c))"
    if "c \<in> chunk_ids (rview db)" for c
  proof -
    have h: "has_blob (rview db) Chunks_validity c (table_chunk_size p div 8)" "has_blob (rview db) Chunks_rowids c (table_chunk_size p * 8)"
      "has_blob (rview db) (Vectors i) c (table_chunk_size p * column_size p i)"
      using table_okD(1) [OF ok that] i(1) by (simp_all add: chunk_ok_def)
    show ?thesis using has_blobD(2) [OF h(1)] has_blobD(2) [OF h(2)] has_blobD [OF h(3)]
      by (simp add: chunk_stored_def knn_table_def chunk_row_of_def base_def column_size_def column_byte_size_def)
  qed
  moreover have "metadata_argument S D db (knn_table p i m) inputs idxStr argv c (\<lambda>_. {}) a" for c a
    using plan(1) by (simp add: metadata_argument_def plain_plan_def)
  moreover have "numbers (chunk_near F (knn_table p i m) idxStr argv query None (chunk_row_of (rview db) c) (base (chunk_row_of (rview db) c)) (\<lambda>_. {}))"
    if c: "c \<in> set cs" for c
  proof -
    have "c \<in> chunk_ids (rview db)" using c cs(1) by blast
    note near = chunk_near_plain [OF ok lay i(1) this plan(1), of F m argv query "\<lambda>_. {}"]
    have "row_at (rview db) x \<in> rows_in (rview db) (set cs)" if "x \<in> set (places_of p (rview db) c)" for x
    proof -
      have "x \<in> set (concat (map (places_of p (rview db)) cs))" using c that by auto
      then show ?thesis unfolding rows_of_chunks(1) [OF ok cs, symmetric] set_map by (rule imageI)
    qed
    then show ?thesis using nums near by (auto simp: numbers_def base_def chunk_row_of_def)
  qed
  ultimately have "\<forall>row \<in> set rows. chunk_stored (store.truncate (rview db)) (knn_table p i m) row (base row) \<and>
      rowids_close (knn_table p i m) None row \<and>
      numbers (chunk_near F (knn_table p i m) idxStr argv query None row (base row) (\<lambda>_. {})) \<and>
      (\<forall>a < length argv. metadata_argument S D db (knn_table p i m) inputs idxStr argv (chunk_id row) (\<lambda>_. {}) a)"
    using cs(1) by (auto simp: rows_def rowids_close_def)
  note all = this
  have f: "chunk_size (knn_table p i m) mod 8 = 0" "0 < chunk_size (knn_table p i m)"
    "length query = vector_byte_size (element_type (knn_table p i m)) (dimensions (knn_table p i m))"
    "dimensions (knn_table p i m) \<le> 8192"
    using lay' i(2) query(1) by (simp_all add: knn_table_def column_size_def column_byte_size_def)
  obtain rowids distances used where knn:
    "vec0Filter_knn_chunks_iter S D F db (knn_table p i m) (map Inr rows) None inputs idxStr argv query k =
       Some (Inr (rowids, distances, used))" "used \<le> length rowids" "used \<le> length distances"
    "topk k (concat (map (\<lambda>row. chunk_near F (knn_table p i m) idxStr argv query None row (base row) (\<lambda>_. {})) rows))
       (neighbours distances rowids used)"
    using knn_nearest [OF blobs f(1,2) query(2) f(3,4) plan(2) all] unfolding option.map by blast
  define near where "near = (\<lambda>r. vector_distance F p i m query (the (table_rows p (rview db) r) ! i))"
  define rs where "rs = map (row_at (rview db)) (concat (map (places_of p (rview db)) cs))"
  have "map (\<lambda>row. chunk_near F (knn_table p i m) idxStr argv query None row (base row) (\<lambda>_. {})) rows =
      map (\<lambda>c. map (\<lambda>x. (near (row_at (rview db) x), row_at (rview db) x)) (places_of p (rview db) c)) cs"
    using chunk_near_plain [OF ok lay i(1) _ plan(1), of _ F m argv query "\<lambda>_. {}"] cs(1)
    by (auto simp: rows_def base_def near_def chunk_row_of_def)
  then have "concat (map (\<lambda>row. chunk_near F (knn_table p i m) idxStr argv query None row (base row) (\<lambda>_. {})) rows) =
      map (\<lambda>r. (near r, r)) rs"
    by (simp add: rs_def map_concat comp_def)
  then have "nearest_rows k near (set rs) (neighbours distances rowids used)"
    using topk_nearest [of k near rs] knn(4) rows_of_chunks(2) [OF ok cs] by (simp only: rs_def)
  moreover have "set rs = rows_in (rview db) (set cs)" using rows_of_chunks(1) [OF ok cs] by (simp only: rs_def)
  ultimately show ?thesis using knn(1-3) by (auto simp: rows_def near_def comp_def)
qed

end
