(* ===== verification/VecCursor.thy ===== *)
theory VecCursor
  imports VecPlan VecSearch
begin

text \<open>
  The cursor of a \<^verbatim>\<open>vec0\<close> table (\<^verbatim>\<open>crates/cli/vendor-sqlite-vec/sqlite-vec.c\<close>): \<^verbatim>\<open>vec0Filter\<close> starts the plan that
  \<^verbatim>\<open>vec0BestIndex\<close> made, a search, a look-up of one row or a scan of all rows; \<^verbatim>\<open>vec0Next\<close>, \<^verbatim>\<open>vec0Eof\<close>, \<^verbatim>\<open>vec0Rowid\<close> and
  \<^verbatim>\<open>vec0Column\<close> walk through the rows found. The statements a query runs are the fields of \<open>query_api\<close>: \<open>Inl\<close> is the
  result code of a step that fails. Outer \<open>None\<close>: a failed \<^verbatim>\<open>assert\<close>, an access out of bounds or through a null pointer.
\<close>

abbreviation (input) QUERY_PLAN_FULLSCAN :: char where "QUERY_PLAN_FULLSCAN \<equiv> CHR ''1''"
abbreviation (input) QUERY_PLAN_POINT :: char where "QUERY_PLAN_POINT \<equiv> CHR ''2''"
abbreviation (input) QUERY_PLAN_KNN :: char where "QUERY_PLAN_KNN \<equiv> CHR ''3''"

text \<open>
  \<open>str_ok\<close> and \<open>format_ok\<close> tell whether \<^verbatim>\<open>sqlite3_str\<close> and \<^verbatim>\<open>sqlite3_mprintf\<close> have memory. The condition on the chunks is
  the list of its terms: the number of a partition column and the operator.
\<close>

type_synonym chunk_term = "int \<times> char"

record ('db, 'g) query_api =
  scan_prepare :: "'db \<Rightarrow> int"
  scan_rowids :: "'db \<Rightarrow> (int + int) list"
  str_ok :: "'db \<Rightarrow> bool"
  chunks_prepare :: "'db \<Rightarrow> chunk_term list \<Rightarrow> int"
  scan_chunks :: "'db \<Rightarrow> chunk_term list \<Rightarrow> 'g sqlite_value list \<Rightarrow> (int + chunk_row) list"
  partition_prepare :: "'db \<Rightarrow> int"
  select_partition :: "'db \<Rightarrow> nat \<Rightarrow> int \<Rightarrow> 'g sqlite_value option"
  auxiliary_prepare :: "'db \<Rightarrow> int"
  select_auxiliary :: "'db \<Rightarrow> nat \<Rightarrow> int \<Rightarrow> 'g sqlite_value option"
  select_id :: "'db \<Rightarrow> int \<Rightarrow> 'g sqlite_value"
  value_dup :: "'db \<Rightarrow> 'g sqlite_value \<Rightarrow> bool"
  format_ok :: "'db \<Rightarrow> bool"

subsection \<open>The cursor\<close>

text \<open>The statement of a full scan: the row it is on, and what the next steps give.\<close>

record fullscan_data =
  scan_row :: "int option"
  scan_rest :: "(int + int) list"
  scan_done :: bool

record 'r knn_data =
  knn_k :: int
  knn_used :: nat
  knn_rowids :: "int list"
  knn_distances :: "'r list"
  current_idx :: nat

text \<open>The row id of a row that was not found may never have been set.\<close>

record point_data =
  point_rowid :: "int option"
  point_vectors :: "byte list keyed"
  point_done :: bool

record 'r vec0_cursor =
  query_plan :: char
  fullscan_data :: "fullscan_data option"
  knn_data :: "'r knn_data option"
  point_data :: "point_data option"

definition vec0_cursor_clear :: "'r vec0_cursor \<Rightarrow> 'r vec0_cursor" where
  "vec0_cursor_clear cur = cur\<lparr>fullscan_data := None, knn_data := None, point_data := None\<rparr>"

definition vec0Open :: "'db sqlite_api \<Rightarrow> 'db \<Rightarrow> nat \<Rightarrow> int + 'r vec0_cursor" where
  "vec0Open S db cursor_size =
     (if malloc S db cursor_size
      then Inr \<lparr>query_plan = CHR 0x00, fullscan_data = None, knn_data = None, point_data = None\<rparr> else Inl SQLITE_NOMEM)"

text \<open>\<^verbatim>\<open>sqlite3_step\<close> of the full scan.\<close>

abbreviation (input) SQLITE_ROW :: int where "SQLITE_ROW \<equiv> 100"

definition scan_step :: "fullscan_data \<Rightarrow> int \<times> fullscan_data" where
  "scan_step d =
     (case scan_rest d of
        [] \<Rightarrow> (SQLITE_DONE, d\<lparr>scan_row := None\<rparr>)
      | Inl rc # rest \<Rightarrow> (rc, d\<lparr>scan_row := None, scan_rest := rest\<rparr>)
      | Inr rowid # rest \<Rightarrow> (SQLITE_ROW, d\<lparr>scan_row := Some rowid, scan_rest := rest\<rparr>))"

definition vec0Filter_fullscan ::
  "'db sqlite_api \<Rightarrow> ('db, 'g) query_api \<Rightarrow> 'db \<Rightarrow> nat \<Rightarrow> 'r vec0_cursor \<Rightarrow> int \<times> 'r vec0_cursor" where
  "vec0Filter_fullscan S Q db data_size cur =
     (if \<not> malloc S db data_size then (SQLITE_NOMEM, cur)
      else if scan_prepare Q db \<noteq> SQLITE_OK then (scan_prepare Q db, cur)
      else let (rc, d) = scan_step \<lparr>scan_row = None, scan_rest = scan_rowids Q db, scan_done = False\<rparr>
           in if rc \<noteq> SQLITE_ROW \<and> rc \<noteq> SQLITE_DONE then (rc, cur)
              else (SQLITE_OK, cur\<lparr>query_plan := QUERY_PLAN_FULLSCAN, fullscan_data := Some (d\<lparr>scan_done := rc = SQLITE_DONE\<rparr>)\<rparr>))"

subsection \<open>Looking up one row\<close>

fun point_vectors_of ::
  "'db sqlite_api \<Rightarrow> ('db, 'g) row_api \<Rightarrow> 'db \<Rightarrow> vec0_vtab \<Rightarrow> int \<Rightarrow> nat list \<Rightarrow> byte list keyed \<Rightarrow> (int \<times> byte list keyed) option" where
  "point_vectors_of S R db p rowid [] vs = Some (SQLITE_OK, vs)"
| "point_vectors_of S R db p rowid (i # is) vs = do {
     r \<leftarrow> vec0_get_vector_data S R db p rowid i;
     case r of
       Inl rc \<Rightarrow> Some (rc, vs)
     | Inr v \<Rightarrow> point_vectors_of S R db p rowid is (vs(i \<mapsto> v))
   }"

definition vec0Filter_point ::
  "'db sqlite_api \<Rightarrow> ('db, 'g) row_api \<Rightarrow> 'db \<Rightarrow> vec0_vtab \<Rightarrow> 'g sqlite_value list \<Rightarrow> nat \<Rightarrow> 'r vec0_cursor \<Rightarrow>
     (int \<times> 'r vec0_cursor) option" where
  "vec0Filter_point S R db p argv data_size cur =
     (let found = (\<lambda>rowid vs eof. (SQLITE_OK, cur\<lparr>query_plan := QUERY_PLAN_POINT,
            point_data := Some \<lparr>point_rowid = rowid, point_vectors = vs, point_done = eof\<rparr>\<rparr>))
      in case argv of
        [v] \<Rightarrow>
          if \<not> malloc S db data_size then Some (SQLITE_NOMEM, cur)
          else (case if pk_is_text p then vec0_rowid_from_id R db v else Inr (value_int64 v) of
            Inl rc \<Rightarrow> Some (if rc = SQLITE_EMPTY then found None Map.empty True else (rc, cur))
          | Inr rowid \<Rightarrow> do {
              (rc, vs) \<leftarrow> point_vectors_of S R db p rowid [0..<length (vector_columns p)] Map.empty;
              Some (if rc = SQLITE_EMPTY then found (Some rowid) vs True
                    else if rc \<noteq> SQLITE_OK then (rc, cur) else found (Some rowid) vs False)
            })
      | _ \<Rightarrow> None)"

subsection \<open>Arrays\<close>

text \<open>\<^verbatim>\<open>struct Array\<close>; \<open>None\<close> is \<^verbatim>\<open>SQLITE_NOMEM\<close>, the only error.\<close>

record 'a vec_array =
  items :: "'a list"
  array_capacity :: nat

definition vec_array_init :: "'db sqlite_api \<Rightarrow> 'db \<Rightarrow> nat \<Rightarrow> nat \<Rightarrow> 'a vec_array option" where
  "vec_array_init S db element_size init_capacity =
     (if malloc S db (element_size * init_capacity) then Some \<lparr>items = [], array_capacity = init_capacity\<rparr> else None)"

definition vec_array_append :: "'db sqlite_api \<Rightarrow> 'db \<Rightarrow> nat \<Rightarrow> 'a vec_array \<Rightarrow> 'a \<Rightarrow> 'a vec_array option" where
  "vec_array_append S db element_size a x =
     (if length (items a) = array_capacity a
      then let new_capacity = array_capacity a * 2 + 100
           in if malloc S db (element_size * new_capacity) then Some \<lparr>items = items a @ [x], array_capacity = new_capacity\<rparr> else None
      else Some (a\<lparr>items := items a @ [x]\<rparr>))"

text \<open>
  The loop over the values of an \<^verbatim>\<open>in (...)\<close>: \<open>rc\<close> is the result code that ends it, \<^verbatim>\<open>SQLITE_DONE\<close> when all goes well;
  \<open>convert\<close> is what is made of a value.
\<close>

fun read_in_list ::
  "'db sqlite_api \<Rightarrow> 'db \<Rightarrow> nat \<Rightarrow> ('g sqlite_value \<Rightarrow> int + 'a) \<Rightarrow> 'g sqlite_value list \<Rightarrow> int \<Rightarrow> 'a vec_array \<Rightarrow> int + 'a vec_array" where
  "read_in_list S db sz convert [] rc a = (if rc \<noteq> SQLITE_DONE then Inl rc else Inr a)"
| "read_in_list S db sz convert (v # vs) rc a =
     (case convert v of
        Inl e \<Rightarrow> Inl e
      | Inr x \<Rightarrow>
          (case vec_array_append S db sz a x of
             None \<Rightarrow> Inl SQLITE_NOMEM
           | Some a' \<Rightarrow> read_in_list S db sz convert vs rc a'))"

subsection \<open>The arguments of a search\<close>

text \<open>
  What SQLite hands to \<^verbatim>\<open>vec0Filter\<close>. \<open>given_vector\<close> is what \<^verbatim>\<open>vector_from_value\<close> makes of an argument and \<open>in_list\<close> are
  the values of an \<^verbatim>\<open>in (...)\<close> that is passed whole, with the code of the call that ends the loop over them.
\<close>

record 'g filter_args =
  arg_num :: nat
  arg_str :: "string option"
  argv :: "'g sqlite_value list"
  given_vector :: "nat \<Rightarrow> int + vector_element_type \<times> nat \<times> byte list"
  in_list :: "nat \<Rightarrow> 'g sqlite_value list \<times> int"

definition last_of_kind :: "string \<Rightarrow> nat \<Rightarrow> char \<Rightarrow> nat option" where
  "last_of_kind idxStr argc kind = find (\<lambda>i. idx_char idxStr i 0 = Some kind) (rev [0..<argc])"

definition read_rowids_in ::
  "'db sqlite_api \<Rightarrow> ('db, 'g) row_api \<Rightarrow> 'db \<Rightarrow> vec0_vtab \<Rightarrow> nat \<Rightarrow> 'g sqlite_value list \<times> int \<Rightarrow> int + int list" where
  "read_rowids_in S R db p array_size given =
     (if \<not> malloc S db array_size then Inl SQLITE_NOMEM
      else case vec_array_init S db 8 32 of
        None \<Rightarrow> Inl SQLITE_NOMEM
      | Some a \<Rightarrow>
          map_sum id (\<lambda>a. rowid_qsort (items a))
            (read_in_list S db 8 (\<lambda>v. if pk_is_text p then vec0_rowid_from_id R db v else Inr (value_int64 v)) (fst given) (snd given) a))"

text \<open>An entry of \<^verbatim>\<open>aMetadataIn\<close>: the argument, the column and the values.\<close>

datatype in_array = In_integers "int list" | In_texts "byte list list"

type_synonym metadata_in_item = "nat \<times> nat \<times> in_array"

text \<open>
  A text is copied by \<^verbatim>\<open>sqlite3_mprintf("%.*s", n, s)\<close>, up to a zero byte if it has one; the length kept is that of the
  whole value. Comparing with \<^verbatim>\<open>strncmp\<close>, the whole value gives the same.
\<close>

definition read_metadata_in ::
  "'db sqlite_api \<Rightarrow> ('db, 'g) query_api \<Rightarrow> 'db \<Rightarrow> metadata_kind \<Rightarrow> nat \<Rightarrow> 'g sqlite_value list \<times> int \<Rightarrow> int + in_array" where
  "read_metadata_in S Q db kind entry_size given =
     (case kind of
        KIND_INTEGER \<Rightarrow>
          (case vec_array_init S db 8 16 of
             None \<Rightarrow> Inl SQLITE_NOMEM
           | Some a \<Rightarrow> map_sum id (\<lambda>a. In_integers (items a)) (read_in_list S db 8 (\<lambda>v. Inr (value_int64 v)) (fst given) (snd given) a))
      | KIND_TEXT \<Rightarrow>
          (case vec_array_init S db entry_size 16 of
             None \<Rightarrow> Inl SQLITE_NOMEM
           | Some a \<Rightarrow> map_sum id (\<lambda>a. In_texts (items a))
               (read_in_list S db entry_size (\<lambda>v. if format_ok Q db then Inr (value_text v) else Inl SQLITE_NOMEM) (fst given) (snd given) a))
      | _ \<Rightarrow> Inl SQLITE_OK)"

text \<open>\<^verbatim>\<open>aMetadataIn\<close> is made when the first such constraint is met. With an unexpected column kind the code leaves with \<^verbatim>\<open>rc\<close> still \<^verbatim>\<open>SQLITE_OK\<close>.\<close>

record alloc_sizes =
  cursor_size :: nat
  data_size :: nat
  array_size :: nat
  in_item_size :: nat
  in_entry_size :: nat

fun read_metadata_ins ::
  "'db sqlite_api \<Rightarrow> ('db, 'g) query_api \<Rightarrow> 'db \<Rightarrow> alloc_sizes \<Rightarrow> vec0_vtab \<Rightarrow> string \<Rightarrow> (nat \<Rightarrow> 'g sqlite_value list \<times> int) \<Rightarrow> nat list \<Rightarrow>
     metadata_in_item vec_array option \<Rightarrow> (int + metadata_in_item vec_array option) option" where
  "read_metadata_ins S Q db z p idxStr given [] acc = Some (Inr acc)"
| "read_metadata_ins S Q db z p idxStr given (i # is) acc = do {
     kind \<leftarrow> idx_char idxStr i 0;
     c1 \<leftarrow> idx_char idxStr i 1;
     c2 \<leftarrow> idx_char idxStr i 2;
     if \<not> (kind = IDXSTR_KIND_METADATA_CONSTRAINT \<and> c2 = metadata_operator_char OP_IN)
     then read_metadata_ins S Q db z p idxStr given is acc
     else do {
       let metadata_idx = of_char c1 - 65;
       let start = (case acc of
           Some a \<Rightarrow> Some a
         | None \<Rightarrow> if \<not> malloc S db (array_size z) then None else vec_array_init S db (in_item_size z) 8);
       case start of
         None \<Rightarrow> Some (Inl SQLITE_NOMEM)
       | Some a \<Rightarrow> do {
           column_kind \<leftarrow> item_at (metadata_columns p) metadata_idx;
           case read_metadata_in S Q db column_kind (in_entry_size z) (given i) of
             Inl rc \<Rightarrow> Some (Inl rc)
           | Inr xs \<Rightarrow>
               (case vec_array_append S db (in_item_size z) a (i, metadata_idx, xs) of
                  None \<Rightarrow> Some (Inl SQLITE_NOMEM)
                | Some a' \<Rightarrow> read_metadata_ins S Q db z p idxStr given is (Some a'))
         }
     }
   }"

text \<open>The entry of an argument, looked up as the filters do.\<close>

definition metadata_in_of :: "metadata_in_item list \<Rightarrow> metadata_in" where
  "metadata_in_of xs =
     (let entry = (\<lambda>i. map_option (\<lambda>(_, _, a). a) (find (\<lambda>(j, _). j = i) xs))
      in \<lparr>in_texts = (\<lambda>i. case entry i of Some (In_texts ts) \<Rightarrow> Some ts | _ \<Rightarrow> None),
          in_ints = (\<lambda>i. case entry i of Some (In_integers ns) \<Rightarrow> Some ns | _ \<Rightarrow> None)\<rparr>)"

subsection \<open>The chunks of a search\<close>

text \<open>The terms of the condition on the chunks, and the values bound to them.\<close>

fun chunk_terms :: "string \<Rightarrow> nat list \<Rightarrow> (int + chunk_term list) option" where
  "chunk_terms idxStr [] = Some (Inr [])"
| "chunk_terms idxStr (i # is) = do {
     kind \<leftarrow> idx_char idxStr i 0;
     if kind \<noteq> IDXSTR_KIND_PARTITION_CONSTRAINT then chunk_terms idxStr is
     else do {
       c1 \<leftarrow> idx_char idxStr i 1;
       operator \<leftarrow> idx_char idxStr i 2;
       if operator \<notin> {CHR ''a'', CHR ''b'', CHR ''c'', CHR ''d'', CHR ''e'', CHR ''f''} then Some (Inl SQLITE_ERROR)
       else map_option (map_sum id ((#) (of_char c1 - 65, operator))) (chunk_terms idxStr is)
     }
   }"

fun chunk_values :: "string \<Rightarrow> 'g sqlite_value list \<Rightarrow> nat list \<Rightarrow> 'g sqlite_value list option" where
  "chunk_values idxStr args [] = Some []"
| "chunk_values idxStr args (i # is) = do {
     kind \<leftarrow> idx_char idxStr i 0;
     if kind \<noteq> IDXSTR_KIND_PARTITION_CONSTRAINT then chunk_values idxStr args is
     else do {
       v \<leftarrow> item_at args i;
       vs \<leftarrow> chunk_values idxStr args is;
       Some (v # vs)
     }
   }"

definition vec0_chunks_iter ::
  "('db, 'g) query_api \<Rightarrow> 'db \<Rightarrow> string \<Rightarrow> 'g sqlite_value list \<Rightarrow> (int + (int + chunk_row) list) option" where
  "vec0_chunks_iter Q db idxStr args =
     (let n = (length idxStr - 1) div 4
      in if length args \<noteq> n then None
         else do {
           r \<leftarrow> chunk_terms idxStr [0..<n];
           case r of
             Inl rc \<Rightarrow> Some (Inl rc)
           | Inr terms \<Rightarrow>
               if \<not> str_ok Q db then Some (Inl SQLITE_NOMEM)
               else if chunks_prepare Q db terms \<noteq> SQLITE_OK then Some (Inl (chunks_prepare Q db terms))
               else map_option (\<lambda>vs. Inr (scan_chunks Q db terms vs)) (chunk_values idxStr args [0..<n])
         })"

subsection \<open>Starting a search\<close>

abbreviation (input) VEC0_K_MAX :: int where "VEC0_K_MAX \<equiv> 4096"

text \<open>
  A query vector that fits its column and a \<^verbatim>\<open>k\<close> within its bounds: the bytes and \<^verbatim>\<open>k\<close>.
\<close>

definition search_input ::
  "vector_column \<Rightarrow> (int + vector_element_type \<times> nat \<times> byte list) \<Rightarrow> 'g sqlite_value \<Rightarrow> int + byte list \<times> int" where
  "search_input c given kv =
     (case given of
        Inl _ \<Rightarrow> Inl SQLITE_ERROR
      | Inr (type, dims, bytes) \<Rightarrow>
          if type \<noteq> col_element_type c then Inl SQLITE_ERROR
          else if dims \<noteq> col_dimensions c then Inl SQLITE_ERROR
          else let k = value_int64 kv
               in if k < 0 then Inl SQLITE_ERROR
                  else if k > VEC0_K_MAX then Inl SQLITE_ERROR
                  else Inr (bytes, k))"

text \<open>
  The block that reads \<^verbatim>\<open>rowid in (...)\<close> has an \<^verbatim>\<open>rc\<close> of its own: when it fails, the function returns the outer one,
  which is \<^verbatim>\<open>SQLITE_OK\<close>, and the cursor has no rows.
\<close>

definition vec0Filter_knn ::
  "'db sqlite_api \<Rightarrow> ('db, 'g) row_api \<Rightarrow> ('db, 'g) query_api \<Rightarrow> ('g :: linorder) double_api \<Rightarrow> ('r :: ord, 'g) float_api \<Rightarrow>
     alloc_sizes \<Rightarrow> 'db \<Rightarrow> vec0_vtab \<Rightarrow> 'g filter_args \<Rightarrow> string \<Rightarrow> 'r vec0_cursor \<Rightarrow> (int \<times> 'r vec0_cursor) option" where
  "vec0Filter_knn S R Q D F z db p args idxStr cur =
     (let argc = length (argv args);
          start = (\<lambda>d. (SQLITE_OK, cur\<lparr>query_plan := QUERY_PLAN_KNN, knn_data := Some d\<rparr>))
      in if argc \<noteq> (length idxStr - 1) div 4 then None
         else do {
           c \<leftarrow> item_at (vector_columns p) (arg_num args);
           if \<not> malloc S db (data_size z) then Some (SQLITE_NOMEM, cur)
           else do {
             query_idx \<leftarrow> last_of_kind idxStr argc IDXSTR_KIND_KNN_MATCH;
             k_idx \<leftarrow> last_of_kind idxStr argc IDXSTR_KIND_KNN_K;
             case search_input c (given_vector args query_idx) (argv args ! k_idx) of
               Inl rc \<Rightarrow> Some (rc, cur)
             | Inr (queryVector, k) \<Rightarrow>
                 if k = 0 then Some (start \<lparr>knn_k = 0, knn_used = 0, knn_rowids = [], knn_distances = [], current_idx = 0\<rparr>)
                 else (case case last_of_kind idxStr argc IDXSTR_KIND_KNN_ROWID_IN of
                           None \<Rightarrow> Inr None
                         | Some i \<Rightarrow> map_sum id Some (read_rowids_in S R db p (array_size z) (in_list args i)) of
                   Inl _ \<Rightarrow> Some (SQLITE_OK, cur)
                 | Inr ids \<Rightarrow> do {
                     r \<leftarrow> read_metadata_ins S Q db z p idxStr (in_list args) [0..<argc] None;
                     case r of
                       Inl rc \<Rightarrow> Some (rc, cur)
                     | Inr acc \<Rightarrow> do {
                         inputs \<leftarrow> Some (metadata_in_of (case acc of None \<Rightarrow> [] | Some a \<Rightarrow> items a));
                         chunks \<leftarrow> vec0_chunks_iter Q db idxStr (argv args);
                         case chunks of
                           Inl rc \<Rightarrow> Some (rc, cur)
                         | Inr rows \<Rightarrow> do {
                             found \<leftarrow> vec0Filter_knn_chunks_iter S D F db (knn_table p (arg_num args) (col_metric c)) rows ids inputs
                               idxStr (argv args) queryVector (nat k);
                             Some (case found of
                                 Inl rc \<Rightarrow> (rc, cur)
                               | Inr (rowids, distances, used) \<Rightarrow>
                                   start \<lparr>knn_k = k, knn_used = used, knn_rowids = rowids, knn_distances = distances, current_idx = 0\<rparr>)
                           }
                       }
                   })
           }
         })"

definition vec0Filter ::
  "'db sqlite_api \<Rightarrow> ('db, 'g) row_api \<Rightarrow> ('db, 'g) query_api \<Rightarrow> ('g :: linorder) double_api \<Rightarrow> ('r :: ord, 'g) float_api \<Rightarrow>
     alloc_sizes \<Rightarrow> 'db \<Rightarrow> vec0_vtab \<Rightarrow> 'g filter_args \<Rightarrow> 'r vec0_cursor \<Rightarrow> (int \<times> 'r vec0_cursor) option" where
  "vec0Filter S R Q D F z db p args cur0 = do {
     idxStr \<leftarrow> arg_str args;
     let cur = vec0_cursor_clear cur0;
     if idxStr = [] then Some (SQLITE_ERROR, cur)
     else if (length idxStr - 1) mod 4 \<noteq> 0 then Some (SQLITE_ERROR, cur)
     else if (length idxStr - 1) div 4 \<noteq> length (argv args) then Some (SQLITE_ERROR, cur)
     else if hd idxStr = QUERY_PLAN_FULLSCAN then Some (vec0Filter_fullscan S Q db (data_size z) cur)
     else if hd idxStr = QUERY_PLAN_KNN then vec0Filter_knn S R Q D F z db p args idxStr cur
     else if hd idxStr = QUERY_PLAN_POINT then vec0Filter_point S R db p (argv args) (data_size z) cur
     else Some (SQLITE_ERROR, cur)
   }"

subsection \<open>Walking through the rows\<close>

definition vec0Rowid :: "'r vec0_cursor \<Rightarrow> (int + int) option" where
  "vec0Rowid cur =
     (if query_plan cur = QUERY_PLAN_FULLSCAN
      then map_option (\<lambda>d. Inr (case scan_row d of None \<Rightarrow> 0 | Some rowid \<Rightarrow> rowid)) (fullscan_data cur)
      else if query_plan cur = QUERY_PLAN_POINT then do { d \<leftarrow> point_data cur; map_option Inr (point_rowid d) }
      else Some (Inl SQLITE_ERROR))"

definition vec0Next :: "'r vec0_cursor \<Rightarrow> int \<times> 'r vec0_cursor" where
  "vec0Next cur =
     (if query_plan cur = QUERY_PLAN_FULLSCAN
      then case fullscan_data cur of
             None \<Rightarrow> (SQLITE_ERROR, cur)
           | Some d \<Rightarrow>
               let (rc, d') = scan_step d
               in if rc = SQLITE_DONE then (SQLITE_OK, cur\<lparr>fullscan_data := Some (d'\<lparr>scan_done := True\<rparr>)\<rparr>)
                  else (if rc = SQLITE_ROW then SQLITE_OK else SQLITE_ERROR, cur\<lparr>fullscan_data := Some d'\<rparr>)
      else if query_plan cur = QUERY_PLAN_KNN
      then case knn_data cur of
             None \<Rightarrow> (SQLITE_ERROR, cur)
           | Some d \<Rightarrow> (SQLITE_OK, cur\<lparr>knn_data := Some (d\<lparr>current_idx := current_idx d + 1\<rparr>)\<rparr>)
      else if query_plan cur = QUERY_PLAN_POINT
      then case point_data cur of
             None \<Rightarrow> (SQLITE_ERROR, cur)
           | Some d \<Rightarrow> (SQLITE_OK, cur\<lparr>point_data := Some (d\<lparr>point_done := True\<rparr>)\<rparr>)
      else (SQLITE_ERROR, cur))"

definition vec0Eof :: "'r vec0_cursor \<Rightarrow> bool" where
  "vec0Eof cur =
     (if query_plan cur = QUERY_PLAN_FULLSCAN
      then (case fullscan_data cur of None \<Rightarrow> True | Some d \<Rightarrow> scan_done d)
      else if query_plan cur = QUERY_PLAN_KNN
      then (case knn_data cur of None \<Rightarrow> True | Some d \<Rightarrow> current_idx d \<ge> knn_used d)
      else if query_plan cur = QUERY_PLAN_POINT
      then (case point_data cur of None \<Rightarrow> True | Some d \<Rightarrow> point_done d)
      else True)"

subsection \<open>The columns of a row\<close>

text \<open>What \<^verbatim>\<open>sqlite3_result_...\<close> was told; a function that tells nothing gives null.\<close>

datatype ('r, 'g) column_result =
  Result_unset | Result_null | Result_int64 int | Result_float 'r | Result_vector "byte list" vector_element_type
| Result_value "'g sqlite_value" | Result_metadata "'g metadata_result" | Result_error_code int | Result_error | Result_error_nomem

definition vec0_get_id_value_from_rowid ::
  "('db, 'g) row_api \<Rightarrow> ('db, 'g) query_api \<Rightarrow> 'db \<Rightarrow> int \<Rightarrow> int + 'g sqlite_value" where
  "vec0_get_id_value_from_rowid R Q db rowid =
     (case vec0_get_chunk_position R db rowid of
        Inl rc \<Rightarrow> Inl rc
      | Inr _ \<Rightarrow> if value_dup Q db (select_id Q db rowid) then Inr (select_id Q db rowid) else Inl SQLITE_NOMEM)"

definition vec0_result_id ::
  "('db, 'g) row_api \<Rightarrow> ('db, 'g) query_api \<Rightarrow> 'db \<Rightarrow> vec0_vtab \<Rightarrow> int \<Rightarrow> int \<times> ('r, 'g) column_result" where
  "vec0_result_id R Q db p rowid =
     (if \<not> pk_is_text p then (SQLITE_OK, Result_int64 rowid)
      else case vec0_get_id_value_from_rowid R Q db rowid of
        Inl rc \<Rightarrow> (rc, Result_unset)
      | Inr v \<Rightarrow> (SQLITE_OK, Result_value v))"

definition vec0_get_partition_value_for_rowid ::
  "('db, 'g) row_api \<Rightarrow> ('db, 'g) query_api \<Rightarrow> 'db \<Rightarrow> int \<Rightarrow> nat \<Rightarrow> int + 'g sqlite_value" where
  "vec0_get_partition_value_for_rowid R Q db rowid partition_idx =
     (case vec0_get_chunk_position R db rowid of
        Inl rc \<Rightarrow> Inl rc
      | Inr (chunk, _) \<Rightarrow>
          if partition_prepare Q db \<noteq> SQLITE_OK then Inl (partition_prepare Q db)
          else case select_partition Q db partition_idx chunk of
            None \<Rightarrow> Inl SQLITE_ERROR
          | Some v \<Rightarrow> if value_dup Q db v then Inr v else Inl SQLITE_NOMEM)"

definition vec0_get_auxiliary_value_for_rowid :: "('db, 'g) query_api \<Rightarrow> 'db \<Rightarrow> int \<Rightarrow> nat \<Rightarrow> int + 'g sqlite_value" where
  "vec0_get_auxiliary_value_for_rowid Q db rowid auxiliary_idx =
     (if auxiliary_prepare Q db \<noteq> SQLITE_OK then Inl (auxiliary_prepare Q db)
      else case select_auxiliary Q db auxiliary_idx rowid of
        None \<Rightarrow> Inl SQLITE_ERROR
      | Some v \<Rightarrow> if value_dup Q db v then Inr v else Inl SQLITE_NOMEM)"

definition vec0_result_metadata_value_for_rowid ::
  "'db sqlite_api \<Rightarrow> ('db, 'g) row_api \<Rightarrow> 'g double_api \<Rightarrow> 'db \<Rightarrow> vec0_vtab \<Rightarrow> int \<Rightarrow> nat \<Rightarrow> (int + 'g metadata_result) option" where
  "vec0_result_metadata_value_for_rowid S R D db p rowid metadata_idx =
     (case vec0_get_chunk_position R db rowid of
        Inl rc \<Rightarrow> Some (Inl rc)
      | Inr (chunk, chunk_offset) \<Rightarrow> do {
          kind \<leftarrow> item_at (metadata_columns p) metadata_idx;
          result_metadata_value S D db kind metadata_idx rowid chunk chunk_offset
        })"

text \<open>The endings that the three functions below share.\<close>

definition value_outcome :: "int + 'g sqlite_value \<Rightarrow> int \<times> ('r, 'g) column_result" where
  "value_outcome r = (SQLITE_OK, case r of Inl rc \<Rightarrow> Result_error_code rc | Inr v \<Rightarrow> Result_value v)"

definition metadata_outcome :: "('db, 'g) query_api \<Rightarrow> 'db \<Rightarrow> int + 'g metadata_result \<Rightarrow> int \<times> ('r, 'g) column_result" where
  "metadata_outcome Q db r =
     (SQLITE_OK, case r of Inl _ \<Rightarrow> if format_ok Q db then Result_error else Result_error_nomem | Inr v \<Rightarrow> Result_metadata v)"

definition vector_outcome :: "vec0_vtab \<Rightarrow> nat \<Rightarrow> int + byte list \<Rightarrow> int \<times> ('r, 'g) column_result" where
  "vector_outcome p vector_idx r =
     (case r of Inl rc \<Rightarrow> (rc, Result_unset) | Inr v \<Rightarrow> (SQLITE_OK, Result_vector v (col_element_type (vector_columns p ! vector_idx))))"

text \<open>\<open>unchanged\<close> is what \<^verbatim>\<open>sqlite3_vtab_nochange\<close> says of the column.\<close>

definition vec0Column_fullscan ::
  "'db sqlite_api \<Rightarrow> ('db, 'g) row_api \<Rightarrow> ('db, 'g) query_api \<Rightarrow> 'g double_api \<Rightarrow> 'db \<Rightarrow> vec0_vtab \<Rightarrow> 'r vec0_cursor \<Rightarrow> bool \<Rightarrow> int \<Rightarrow>
     (int \<times> ('r, 'g) column_result) option" where
  "vec0Column_fullscan S R Q D db p cur unchanged i =
     (case fullscan_data cur of
        None \<Rightarrow> Some (SQLITE_ERROR, Result_error)
      | Some d \<Rightarrow>
          let rowid = (case scan_row d of None \<Rightarrow> 0 | Some rowid \<Rightarrow> rowid); idx = column_idx_to_idx p i
          in if i = VEC0_COLUMN_ID then Some (vec0_result_id R Q db p rowid)
             else if column_idx_is KIND_VECTOR p i
             then map_option (vector_outcome p idx) (vec0_get_vector_data S R db p rowid idx)
             else if i = column_distance_idx p then Some (SQLITE_OK, Result_null)
             else if column_idx_is KIND_PARTITION p i
             then Some (value_outcome (vec0_get_partition_value_for_rowid R Q db rowid idx))
             else if column_idx_is KIND_AUXILIARY p i
             then Some (value_outcome (vec0_get_auxiliary_value_for_rowid Q db rowid idx))
             else if column_idx_is KIND_METADATA p i
             then if unchanged then Some (SQLITE_OK, Result_unset)
                  else map_option (metadata_outcome Q db) (vec0_result_metadata_value_for_rowid S R D db p rowid idx)
             else Some (SQLITE_OK, Result_unset))"

definition vec0Column_point ::
  "'db sqlite_api \<Rightarrow> ('db, 'g) row_api \<Rightarrow> ('db, 'g) query_api \<Rightarrow> 'g double_api \<Rightarrow> 'db \<Rightarrow> vec0_vtab \<Rightarrow> 'r vec0_cursor \<Rightarrow> bool \<Rightarrow> int \<Rightarrow>
     (int \<times> ('r, 'g) column_result) option" where
  "vec0Column_point S R Q D db p cur unchanged i =
     (case point_data cur of
        None \<Rightarrow> Some (SQLITE_ERROR, Result_error)
      | Some d \<Rightarrow>
          let idx = column_idx_to_idx p i
          in if i = VEC0_COLUMN_ID then map_option (vec0_result_id R Q db p) (point_rowid d)
             else if i = column_distance_idx p then Some (SQLITE_OK, Result_null)
             else if column_idx_is KIND_VECTOR p i
             then if unchanged then Some (SQLITE_OK, Result_null)
                  else do {
                    v \<leftarrow> point_vectors d idx;
                    c \<leftarrow> item_at (vector_columns p) idx;
                    bytes \<leftarrow> bytes_at v 0 (column_byte_size c);
                    Some (vector_outcome p idx (Inr bytes))
                  }
             else if column_idx_is KIND_PARTITION p i \<or> column_idx_is KIND_AUXILIARY p i \<or> column_idx_is KIND_METADATA p i
             then if unchanged then Some (SQLITE_OK, Result_unset)
                  else do {
                    rowid \<leftarrow> point_rowid d;
                    if column_idx_is KIND_PARTITION p i
                    then Some (value_outcome (vec0_get_partition_value_for_rowid R Q db rowid idx))
                    else if column_idx_is KIND_AUXILIARY p i
                    then Some (value_outcome (vec0_get_auxiliary_value_for_rowid Q db rowid idx))
                    else map_option (metadata_outcome Q db) (vec0_result_metadata_value_for_rowid S R D db p rowid idx)
                  }
             else Some (SQLITE_OK, Result_unset))"

definition vec0Column_knn ::
  "'db sqlite_api \<Rightarrow> ('db, 'g) row_api \<Rightarrow> ('db, 'g) query_api \<Rightarrow> 'g double_api \<Rightarrow> 'db \<Rightarrow> vec0_vtab \<Rightarrow> 'r vec0_cursor \<Rightarrow> int \<Rightarrow>
     (int \<times> ('r, 'g) column_result) option" where
  "vec0Column_knn S R Q D db p cur i =
     (case knn_data cur of
        None \<Rightarrow> Some (SQLITE_ERROR, Result_error)
      | Some d \<Rightarrow>
          let row = item_at (knn_rowids d) (current_idx d); idx = column_idx_to_idx p i
          in if i = VEC0_COLUMN_ID then map_option (vec0_result_id R Q db p) row
             else if i = column_distance_idx p
             then map_option (\<lambda>x. (SQLITE_OK, Result_float x)) (item_at (knn_distances d) (current_idx d))
             else if column_idx_is KIND_VECTOR p i
             then do { rowid \<leftarrow> row; map_option (vector_outcome p idx) (vec0_get_vector_data S R db p rowid idx) }
             else if column_idx_is KIND_PARTITION p i
             then map_option (\<lambda>rowid. value_outcome (vec0_get_partition_value_for_rowid R Q db rowid idx)) row
             else if column_idx_is KIND_AUXILIARY p i
             then map_option (\<lambda>rowid. value_outcome (vec0_get_auxiliary_value_for_rowid Q db rowid idx)) row
             else if column_idx_is KIND_METADATA p i
             then do { rowid \<leftarrow> row; map_option (metadata_outcome Q db) (vec0_result_metadata_value_for_rowid S R D db p rowid idx) }
             else Some (SQLITE_OK, Result_unset))"

definition vec0Column ::
  "'db sqlite_api \<Rightarrow> ('db, 'g) row_api \<Rightarrow> ('db, 'g) query_api \<Rightarrow> 'g double_api \<Rightarrow> 'db \<Rightarrow> vec0_vtab \<Rightarrow> 'r vec0_cursor \<Rightarrow> bool \<Rightarrow> int \<Rightarrow>
     (int \<times> ('r, 'g) column_result) option" where
  "vec0Column S R Q D db p cur unchanged i =
     (if query_plan cur = QUERY_PLAN_FULLSCAN then vec0Column_fullscan S R Q D db p cur unchanged i
      else if query_plan cur = QUERY_PLAN_KNN then vec0Column_knn S R Q D db p cur i
      else if query_plan cur = QUERY_PLAN_POINT then vec0Column_point S R Q D db p cur unchanged i
      else Some (SQLITE_OK, Result_unset))"

end
