(* ===== verification/VecQuery.thy ===== *)
theory VecQuery
  imports VecCursor
begin

text \<open>
  Queries over the tables that \<open>rows_view\<close> describes. The locale \<open>query_store\<close> adds to \<open>row_store\<close> what the SQLite
  documentation promises of the statements a query runs; \<open>holds\<close> is the comparison of values that a condition on a
  partition key makes, and \<open>partitions\<close> the number of partition columns. It is interpreted on the tables themselves.
\<close>

subsection \<open>The statements of a query\<close>

definition matching_chunks ::
  "(char \<Rightarrow> 'g sqlite_value \<Rightarrow> 'g sqlite_value \<Rightarrow> bool) \<Rightarrow> 'g rows_view \<Rightarrow> chunk_term list \<Rightarrow> 'g sqlite_value list \<Rightarrow> int set" where
  "matching_chunks holds st terms vs =
     {c. \<exists>ks. (c, ks) \<in> set (st_chunks st) \<and> list_all2 (\<lambda>(n, op) v. holds op (ks ! nat n) v) terms vs}"

locale query_store = row_store S rview R
  for S :: "'db sqlite_api" and rview :: "'db \<Rightarrow> 'g rows_view" and R :: "('db, 'g) row_api" +
  fixes Q :: "('db, 'g) query_api" and holds :: "char \<Rightarrow> 'g sqlite_value \<Rightarrow> 'g sqlite_value \<Rightarrow> bool" and partitions :: nat
  assumes scan_ok: "finite (st_rowids (rview db)) \<Longrightarrow>
      scan_prepare Q db = SQLITE_OK \<and> (\<exists>rs. scan_rowids Q db = map Inr rs \<and> distinct rs \<and> set rs = st_rowids (rview db))"
    and str_ok_ok: "str_ok Q db"
    and chunks_ok: "length terms = length vs \<Longrightarrow> \<forall>(n, op) \<in> set terms. 0 \<le> n \<and> n < int partitions \<Longrightarrow>
      chunks_prepare Q db terms = SQLITE_OK \<and>
      (\<exists>cs. scan_chunks Q db terms vs = map (\<lambda>c. Inr (chunk_row_of (rview db) c)) cs \<and> distinct cs \<and>
         set cs = matching_chunks holds (rview db) terms vs)"
    and partition_ok: "partition_prepare Q db = SQLITE_OK"
    and select_partition_ok: "map_of (st_chunks (rview db)) c = Some ks \<Longrightarrow> i < partitions \<Longrightarrow>
      select_partition Q db i c = Some (ks ! i)"
    and auxiliary_ok: "auxiliary_prepare Q db = SQLITE_OK"
    and select_auxiliary_ok: "st_aux (rview db) r = Some vs \<Longrightarrow> i < length vs \<Longrightarrow> select_auxiliary Q db i r = Some (vs ! i)"
    and value_dup_ok: "value_dup Q db v"

text \<open>The promises can be kept: a comparison of values as integers, false for null.\<close>

definition int_holds :: "char \<Rightarrow> 'g sqlite_value \<Rightarrow> 'g sqlite_value \<Rightarrow> bool" where
  "int_holds op w v \<longleftrightarrow> value_type w \<noteq> SQLITE_NULL \<and> value_type v \<noteq> SQLITE_NULL \<and>
     (let x = value_int64 w; y = value_int64 v
      in if op = CHR ''a'' then w = v else if op = CHR ''b'' then x > y else if op = CHR ''c'' then x \<le> y
         else if op = CHR ''d'' then x < y else if op = CHR ''e'' then x \<ge> y else w \<noteq> v)"

definition tables_query :: "('g rows_view, 'g) query_api" where
  "tables_query = \<lparr>
     scan_prepare = (\<lambda>_. SQLITE_OK),
     scan_rowids = (\<lambda>db. map Inr (sorted_list_of_set (st_rowids db))),
     str_ok = (\<lambda>_. True),
     chunks_prepare = (\<lambda>_ _. SQLITE_OK),
     scan_chunks = (\<lambda>db terms vs. map (\<lambda>c. Inr (chunk_row_of db c)) (sorted_list_of_set (matching_chunks int_holds db terms vs))),
     partition_prepare = (\<lambda>_. SQLITE_OK),
     select_partition = (\<lambda>db i c. map_option (\<lambda>ks. ks ! i) (map_of (st_chunks db) c)),
     auxiliary_prepare = (\<lambda>_. SQLITE_OK),
     select_auxiliary = (\<lambda>db i r. map_option (\<lambda>vs. vs ! i) (st_aux db r)),
     select_id = (\<lambda>_ _. \<lparr>value_type = SQLITE_NULL, value_int = 0, value_int64 = 0, value_double = undefined, value_text = []\<rparr>),
     value_dup = (\<lambda>_ _. True),
     format_ok = (\<lambda>_. True)\<rparr>"

lemma finite_matching: "finite (matching_chunks holds st terms vs)"
  by (rule finite_subset [of _ "fst ` set (st_chunks st)"]) (force simp: matching_chunks_def)+

interpretation table_queries: query_store store_api "\<lambda>st. st" rows_api tables_query int_holds n for n
  by unfold_locales (auto simp: tables_query_def finite_matching)

subsection \<open>The condition on the chunks\<close>

lemma concat_entries_nth:
  "\<forall>x \<in> set xs. length (e x) = 4 \<Longrightarrow> a < length xs \<Longrightarrow> j < 4 \<Longrightarrow> concat (map e xs) ! (a * 4 + j) = e (xs ! a) ! j"
proof (induction xs arbitrary: a)
  case (Cons x xs)
  then show ?case by (cases a) (auto simp: nth_append)
qed simp

lemma idx_char_entries:
  assumes "\<forall>x \<in> set xs. length (e x) = 4" and "a < length xs" and "j < 4"
  shows "idx_char (h # concat (map e xs)) a j = Some (e (xs ! a) ! j)"
proof -
  have "length (concat (map e xs)) = 4 * length xs" using assms(1) by (induction xs) auto
  then have "a * 4 + j < length (concat (map e xs))" using assms(2,3) by linarith
  then show ?thesis using concat_entries_nth [OF assms] by (simp add: idx_char_def item_at_def)
qed

lemma map_filter_nth: "map (\<lambda>a. f (xs ! a)) (filter (\<lambda>a. P (xs ! a)) [0..<length xs]) = map f (filter P xs)"
proof -
  have "map f (filter P (map (\<lambda>a. xs ! a) [0..<length xs])) = map (\<lambda>a. f (xs ! a)) (filter (\<lambda>a. P (xs ! a)) [0..<length xs])"
    by (simp add: filter_map comp_def)
  then show ?thesis by (simp add: map_nth)
qed

text \<open>The terms and values of a condition whose entries are those of the constraints \<open>is\<close>.\<close>

definition partition_term :: "vec0_vtab \<Rightarrow> index_constraint \<Rightarrow> chunk_term" where
  "partition_term p c = (int (column_idx_to_idx p (iColumn c)), the (partition_operator (constraint_op c)))"

definition entries_split :: "vec0_vtab \<Rightarrow> index_constraint list \<Rightarrow> nat list \<Rightarrow> bool" where
  "entries_split p cs is \<longleftrightarrow> (\<forall>i \<in> set is.
     if selects_partition p (cs ! i) then column_idx_to_idx p (iColumn (cs ! i)) < 191
     else hd (constraint_entry p (cs ! i)) \<noteq> CHR '']'')"

lemma partition_entry:
  assumes "selects_partition p c"
  shows "constraint_entry p c = [CHR '']'', column_char (column_idx_to_idx p (iColumn c)), snd (partition_term p c), CHR ''_'']"
  using assms entry_partition [of p c] by (auto simp: selects_partition_def partition_term_def)

lemma of_column_char: "i < 191 \<Longrightarrow> of_char (column_char i) - 65 = (int i :: int)"
  using of_nat_of_char [of "column_char i", where ?'a = int] by (simp add: column_char_def)

lemma partition_operators: "selects_partition p c \<Longrightarrow> snd (partition_term p c) \<in> {CHR ''a'', CHR ''b'', CHR ''c'', CHR ''d'', CHR ''e'', CHR ''f''}"
  by (auto simp: selects_partition_def partition_term_def partition_operator_def split: if_splits)

lemma chunk_terms_ok:
  assumes split: "entries_split p cs is" and str: "idxStr = h # concat (map (\<lambda>i. constraint_entry p (cs ! i)) is)"
    and as: "\<forall>a \<in> set as. a < length is"
  shows "chunk_terms idxStr as =
      Some (Inr (map (\<lambda>a. partition_term p (cs ! (is ! a))) (filter (\<lambda>a. selects_partition p (cs ! (is ! a))) as)))"
    and "length vs = length is \<Longrightarrow> chunk_values idxStr vs as = Some (map ((!) vs) (filter (\<lambda>a. selects_partition p (cs ! (is ! a))) as))"
proof -
  have entry: "idx_char idxStr a j = Some (constraint_entry p (cs ! (is ! a)) ! j)" if "a < length is" "j < 4" for a j
    using idx_char_entries [of "is" "\<lambda>i. constraint_entry p (cs ! i)" a j h] that str by (simp add: length_entry)
  have other: "constraint_entry p (cs ! (is ! a)) ! 0 \<noteq> CHR '']''" if "a < length is" "\<not> selects_partition p (cs ! (is ! a))" for a
  proof -
    have "constraint_entry p (cs ! (is ! a)) \<noteq> []" using length_entry [of p "cs ! (is ! a)"] by auto
    moreover have "hd (constraint_entry p (cs ! (is ! a))) \<noteq> CHR '']''"
      using split that nth_mem [OF that(1)] by (simp add: entries_split_def)
    ultimately show ?thesis by (simp add: hd_conv_nth)
  qed
  have less: "column_idx_to_idx p (iColumn (cs ! (is ! a))) < 191" if "a < length is" "selects_partition p (cs ! (is ! a))" for a
    using split that by (auto simp: entries_split_def)
  show "chunk_terms idxStr as =
      Some (Inr (map (\<lambda>a. partition_term p (cs ! (is ! a))) (filter (\<lambda>a. selects_partition p (cs ! (is ! a))) as)))"
    using as
  proof (induction as)
    case (Cons a as)
    show ?case
    proof (cases "selects_partition p (cs ! (is ! a))")
      case True
      have "of_char (constraint_entry p (cs ! (is ! a)) ! 1) - 65 = fst (partition_term p (cs ! (is ! a)))"
        using partition_entry [OF True] of_column_char [OF less [OF _ True]] Cons.prems by (simp add: partition_term_def)
      then show ?thesis
        using Cons True partition_entry [OF True] partition_operators [OF True] entry [of a 0] entry [of a 1] entry [of a 2]
        by (simp add: numeral_2_eq_2)
    next
      case False
      then show ?thesis using Cons entry [of a 0] other [of a] by simp
    qed
  qed simp
  show "chunk_values idxStr vs as = Some (map ((!) vs) (filter (\<lambda>a. selects_partition p (cs ! (is ! a))) as))" if "length vs = length is"
    using as
  proof (induction as)
    case (Cons a as)
    show ?case
      using Cons entry [of a 0] other [of a] partition_entry [of p "cs ! (is ! a)"] that
      by (cases "selects_partition p (cs ! (is ! a))") (simp_all add: item_at_def)
  qed simp
qed

text \<open>The argument of a kind that occurs once, and of one that does not occur.\<close>

lemma find_only: "x \<in> set xs \<Longrightarrow> P x \<Longrightarrow> \<forall>y \<in> set xs. y \<noteq> x \<longrightarrow> \<not> P y \<Longrightarrow> find P xs = Some x"
proof (induction xs)
  case (Cons y ys)
  show ?case
  proof (cases "P y")
    case True
    then have "y = x" using Cons.prems(3) by auto
    then show ?thesis using True by simp
  next
    case False
    then have "x \<in> set ys" using Cons.prems(1,2) by auto
    then show ?thesis using Cons.IH Cons.prems(2,3) False by simp
  qed
qed simp

lemma last_of_kind_only:
  "a < n \<Longrightarrow> idx_char idxStr a 0 = Some kind \<Longrightarrow> \<forall>b < n. b \<noteq> a \<longrightarrow> idx_char idxStr b 0 \<noteq> Some kind \<Longrightarrow>
     last_of_kind idxStr n kind = Some a"
  unfolding last_of_kind_def by (rule find_only) simp_all

lemma last_of_kind_none: "\<forall>b < n. idx_char idxStr b 0 \<noteq> Some kind \<Longrightarrow> last_of_kind idxStr n kind = None"
  unfolding last_of_kind_def by (simp add: find_None_iff)

lemma no_metadata_ins:
  "\<forall>i \<in> set is. \<forall>j < 4. idx_char idxStr i j \<noteq> None \<Longrightarrow> \<forall>i \<in> set is. idx_char idxStr i 0 \<noteq> Some IDXSTR_KIND_METADATA_CONSTRAINT \<Longrightarrow>
     read_metadata_ins S Q db z p idxStr given is acc = Some (Inr acc)"
proof (induction "is")
  case (Cons i "is")
  then obtain c0 c1 c2 where "idx_char idxStr i 0 = Some c0" "idx_char idxStr i 1 = Some c1" "idx_char idxStr i 2 = Some c2"
    using Cons.prems(1) by (metis list.set_intros(1) not_None_eq numeral_less_iff one_less_numeral_iff semiring_norm(76) semiring_norm(78) zero_less_numeral)
  then show ?case using Cons by auto
qed simp

subsection \<open>Searches\<close>

text \<open>
  The arguments of a search whose only constraints are on partition keys: the query vector, the number of rows, then
  the partition keys. \<open>vals\<close> are the right-hand sides of the constraints.
\<close>

definition partition_search :: "vec0_vtab \<Rightarrow> index_constraint list \<Rightarrow> nat \<Rightarrow> nat \<Rightarrow> nat list \<Rightarrow> bool" where
  "partition_search p cs m l rest \<longleftrightarrow> constraint_entry p (cs ! m) = ''{___'' \<and> constraint_entry p (cs ! l) = ''}___'' \<and>
     \<not> selects_partition p (cs ! m) \<and> \<not> selects_partition p (cs ! l) \<and> (\<forall>i \<in> set rest. selects_partition p (cs ! i))"

lemma search_kinds:
  assumes "partition_search p cs m l rest" and "idxStr = ''3{___}___'' @ concat (map (\<lambda>i. constraint_entry p (cs ! i)) rest)"
  shows "idxStr = CHR ''3'' # concat (map (\<lambda>i. constraint_entry p (cs ! i)) (m # l # rest))"
    "a < length (m # l # rest) \<Longrightarrow> j < 4 \<Longrightarrow> idx_char idxStr a j = Some (constraint_entry p (cs ! ((m # l # rest) ! a)) ! j)"
    "a < length (m # l # rest) \<Longrightarrow> idx_char idxStr a 0 =
       Some (if a = 0 then CHR ''{'' else if a = 1 then CHR ''}'' else CHR '']'')"
    "length idxStr = 1 + 4 * length (m # l # rest)"
proof -
  show str: "idxStr = CHR ''3'' # concat (map (\<lambda>i. constraint_entry p (cs ! i)) (m # l # rest))"
    using assms by (simp add: partition_search_def)
  show entry: "idx_char idxStr a j = Some (constraint_entry p (cs ! ((m # l # rest) ! a)) ! j)" if "a < length (m # l # rest)" "j < 4" for a j
    unfolding str by (rule idx_char_entries) (use that in \<open>simp_all add: length_entry\<close>)
  show "length idxStr = 1 + 4 * length (m # l # rest)" using assms(2) entries_length [of p cs rest] by simp
  show "idx_char idxStr a 0 = Some (if a = 0 then CHR ''{'' else if a = 1 then CHR ''}'' else CHR '']'')" if a: "a < length (m # l # rest)"
  proof -
    consider "a = 0" | "a = 1" | b where "a = Suc (Suc b)" "b < length rest" using a by (cases a; cases "a - 1") auto
    then show ?thesis
    proof cases
      case 3
      then have "selects_partition p (cs ! (rest ! b))" using assms(1) by (simp add: partition_search_def)
      then show ?thesis using entry [OF a, of 0] partition_entry [of p "cs ! (rest ! b)"] 3 by simp
    qed (use entry [OF a, of 0] assms(1) in \<open>simp_all add: partition_search_def\<close>)
  qed
qed

lemma search_arguments:
  assumes "partition_search p cs m l rest" and "idxStr = ''3{___}___'' @ concat (map (\<lambda>i. constraint_entry p (cs ! i)) rest)"
  shows "last_of_kind idxStr (length (m # l # rest)) IDXSTR_KIND_KNN_MATCH = Some 0"
    "last_of_kind idxStr (length (m # l # rest)) IDXSTR_KIND_KNN_K = Some 1"
    "last_of_kind idxStr (length (m # l # rest)) IDXSTR_KIND_KNN_ROWID_IN = None"
    "read_metadata_ins S Q db z p idxStr given [0..<length (m # l # rest)] acc = Some (Inr acc)"
    "plain_plan idxStr"
proof -
  note kinds = search_kinds [OF assms]
  show "last_of_kind idxStr (length (m # l # rest)) IDXSTR_KIND_KNN_MATCH = Some 0"
    by (rule last_of_kind_only) (use kinds(3) in auto)
  show "last_of_kind idxStr (length (m # l # rest)) IDXSTR_KIND_KNN_K = Some 1"
    by (rule last_of_kind_only) (use kinds(3) in auto)
  show "last_of_kind idxStr (length (m # l # rest)) IDXSTR_KIND_KNN_ROWID_IN = None"
    by (rule last_of_kind_none) (use kinds(3) in auto)
  show "read_metadata_ins S Q db z p idxStr given [0..<length (m # l # rest)] acc = Some (Inr acc)"
  proof (rule no_metadata_ins)
    show "\<forall>i \<in> set [0..<length (m # l # rest)]. \<forall>j < 4. idx_char idxStr i j \<noteq> None" using kinds(2) by fastforce
    show "\<forall>i \<in> set [0..<length (m # l # rest)]. idx_char idxStr i 0 \<noteq> Some IDXSTR_KIND_METADATA_CONSTRAINT"
      using kinds(3) by simp
  qed
  show "plain_plan idxStr" unfolding plain_plan_def
  proof
    fix a
    show "idx_char idxStr a 0 \<noteq> Some IDXSTR_KIND_METADATA_CONSTRAINT \<and> idx_char idxStr a 0 \<noteq> Some IDXSTR_KIND_DISTANCE_CONSTRAINT"
    proof (cases "a < length (m # l # rest)")
      case True
      then show ?thesis using kinds(3) by auto
    next
      case False
      then have "idx_char idxStr a 0 = None" using kinds(4) by (simp add: idx_char_def item_at_def)
      then show ?thesis by simp
    qed
  qed
qed

text \<open>The rows of the partitions that satisfy every constraint on a partition key.\<close>

definition partition_matches ::
  "(char \<Rightarrow> 'g sqlite_value \<Rightarrow> 'g sqlite_value \<Rightarrow> bool) \<Rightarrow> vec0_vtab \<Rightarrow> index_constraint list \<Rightarrow> (nat \<Rightarrow> 'g sqlite_value) \<Rightarrow>
     'g sqlite_value list \<Rightarrow> bool" where
  "partition_matches holds p cs vals ks \<longleftrightarrow> (\<forall>i < length cs. selects_partition p (cs ! i) \<longrightarrow>
     holds (the (partition_operator (constraint_op (cs ! i)))) (ks ! column_idx_to_idx p (iColumn (cs ! i))) (vals i))"

definition partition_rows ::
  "(char \<Rightarrow> 'g sqlite_value \<Rightarrow> 'g sqlite_value \<Rightarrow> bool) \<Rightarrow> vec0_vtab \<Rightarrow> index_constraint list \<Rightarrow> (nat \<Rightarrow> 'g sqlite_value) \<Rightarrow>
     'g rows_view \<Rightarrow> int set" where
  "partition_rows holds p cs vals st =
     {r. \<exists>c j ks. st_position st r = Some (c, j) \<and> (c, ks) \<in> set (st_chunks st) \<and> partition_matches holds p cs vals ks}"

context query_store
begin

lemma partition_chunks_ok:
  assumes search: "partition_search p cs m l rest" and str: "idxStr = ''3{___}___'' @ concat (map (\<lambda>i. constraint_entry p (cs ! i)) rest)"
    and cols: "columns_ok p" "partitions = length (partition_columns p)" "length (partition_columns p) \<le> 4"
    and rest: "set rest = {i. i < length cs \<and> selects_partition p (cs ! i)}"
  shows "\<exists>chs. vec0_chunks_iter Q db idxStr (map vals (m # l # rest)) = Some (Inr (map (\<lambda>c. Inr (chunk_row_of (rview db) c)) chs)) \<and>
    distinct chs \<and> set chs \<subseteq> chunk_ids (rview db) \<and> rows_in (rview db) (set chs) = partition_rows holds p cs vals (rview db)"
proof -
  note kinds = search_kinds [OF search str]
  define n where "n = length (m # l # rest)"
  have less: "column_idx_to_idx p (iColumn (cs ! i)) < partitions" if "selects_partition p (cs ! i)" for i
    using column_idx_to_idx_less [OF cols(1), of KIND_PARTITION "iColumn (cs ! i)"] that cols(2)
    by (simp add: selects_partition_def selects_def kind_count_def)
  have split: "entries_split p cs (m # l # rest)"
    using search less cols(2,3) by (fastforce simp: entries_split_def partition_search_def)
  have only: "filter (\<lambda>i. selects_partition p (cs ! i)) (m # l # rest) = rest"
    using search by (simp add: partition_search_def filter_id_conv)
  have vs: "map ((!) (map vals (m # l # rest))) (filter (\<lambda>a. selects_partition p (cs ! ((m # l # rest) ! a))) [0..<n]) =
      map (\<lambda>a. vals ((m # l # rest) ! a)) (filter (\<lambda>a. selects_partition p (cs ! ((m # l # rest) ! a))) [0..<n])"
    by (rule map_cong [OF refl]) (auto simp: n_def simp del: upt_Suc list.map)
  define terms where "terms = map (\<lambda>i. partition_term p (cs ! i)) rest"
  have "chunk_terms idxStr [0..<n] = Some (Inr terms)"
    using chunk_terms_ok(1) [OF split kinds(1), of "[0..<n]"] map_filter_nth [of "\<lambda>i. partition_term p (cs ! i)" "m # l # rest" "\<lambda>i. selects_partition p (cs ! i)"] only
    by (simp add: terms_def n_def del: upt_Suc filter.simps)
  moreover have "chunk_values idxStr (map vals (m # l # rest)) [0..<n] = Some (map vals rest)"
  proof -
    have "map ((!) (map vals (m # l # rest))) (filter (\<lambda>a. selects_partition p (cs ! ((m # l # rest) ! a))) [0..<n]) = map vals rest"
      unfolding vs unfolding n_def map_filter_nth [of vals "m # l # rest" "\<lambda>i. selects_partition p (cs ! i)"] only ..
    then show ?thesis using chunk_terms_ok(2) [OF split kinds(1), of "[0..<n]" "map vals (m # l # rest)"]
      by (simp add: n_def del: upt_Suc filter.simps list.map)
  qed
  moreover have "(length idxStr - 1) div 4 = n" "length (map vals (m # l # rest)) = n" using kinds(4) by (simp_all add: n_def)
  moreover have "length terms = length (map vals rest)" "\<forall>(n, op) \<in> set terms. 0 \<le> n \<and> n < int partitions"
    using search less by (auto simp: terms_def partition_term_def partition_search_def)
  then obtain chs where chs: "chunks_prepare Q db terms = SQLITE_OK"
    "scan_chunks Q db terms (map vals rest) = map (\<lambda>c. Inr (chunk_row_of (rview db) c)) chs" "distinct chs"
    "set chs = matching_chunks holds (rview db) terms (map vals rest)" using chunks_ok [of terms "map vals rest" db] by blast
  ultimately have "vec0_chunks_iter Q db idxStr (map vals (m # l # rest)) = Some (Inr (map (\<lambda>c. Inr (chunk_row_of (rview db) c)) chs))"
    using str_ok_ok by (simp add: vec0_chunks_iter_def Let_def)
  moreover have "set chs = {c. \<exists>ks. (c, ks) \<in> set (st_chunks (rview db)) \<and> partition_matches holds p cs vals ks}"
  proof -
    have "list_all2 (\<lambda>(n, op) v. holds op (ks ! nat n) v) terms (map vals rest) \<longleftrightarrow> partition_matches holds p cs vals ks" for ks
      unfolding terms_def list.rel_map partition_term_def prod.case
      using rest by (auto simp: list.rel_refl_strong list_all2_same partition_matches_def)
    then show ?thesis unfolding chs(4) matching_chunks_def by simp
  qed
  moreover from this have "set chs \<subseteq> chunk_ids (rview db)" by (force simp: chunk_ids_def)
  ultimately show ?thesis using chs(3) by (intro exI [of _ chs]) (auto simp: rows_in_def partition_rows_def)
qed

end

lemma filter_search_ok:
  fixes F :: "('r :: linorder f32, 'g :: linorder) float_api"
  assumes q: "query_store S rview R Q holds partitions" and lay: "layout_ok p" and ok: "table_ok p (rview db)"
    and cols: "partitions = length (partition_columns p)" "partitions \<le> 4"
    and search: "partition_search p cs m l rest" and str: "idxStr = ''3{___}___'' @ concat (map (\<lambda>i. constraint_entry p (cs ! i)) rest)"
    and rest: "set rest = {i. i < length cs \<and> selects_partition p (cs ! i)}"
    and args: "arg_str args = Some idxStr" "argv args = map vals (m # l # rest)" "arg_num args = i"
    and i: "i < length (vector_columns p)" "col_dimensions (vector_columns p ! i) \<le> 8192"
    and query: "given_vector args 0 = Inr (col_element_type (vector_columns p ! i), col_dimensions (vector_columns p ! i), query)"
      "length query = column_size p i"
    and k: "value_int64 (vals l) = k" "0 < k" "k \<le> VEC0_K_MAX"
    and nums: "\<forall>r \<in> partition_rows holds p cs vals (rview db). vector_distance F p i (col_metric (vector_columns p ! i)) query
      (the (table_rows p (rview db) r) ! i) \<noteq> NaN"
  shows "\<exists>rowids distances used.
    vec0Filter S R Q D F z db p args cur = Some (SQLITE_OK, (vec0_cursor_clear cur)\<lparr>query_plan := QUERY_PLAN_KNN, knn_data :=
      Some \<lparr>knn_k = k, knn_used = used, knn_rowids = rowids, knn_distances = distances, current_idx = 0\<rparr>\<rparr>) \<and>
    used \<le> length rowids \<and> used \<le> length distances \<and>
    nearest_rows (nat k) (\<lambda>r. vector_distance F p i (col_metric (vector_columns p ! i)) query (the (table_rows p (rview db) r) ! i))
      (partition_rows holds p cs vals (rview db)) (neighbours distances rowids used)"
proof -
  have store: "row_store S rview R" using q by (rule query_store.axioms)
  have blobs: "sqlite_store S (\<lambda>db. store.truncate (rview db))" using store by (rule row_store.axioms)
  have layout: "columns_ok p" and few: "length (partition_columns p) \<le> 4" using lay cols by (simp_all add: layout_ok_def)
  note kinds = search_kinds [OF search str] and found = search_arguments [OF search str]
  obtain chs where chs: "vec0_chunks_iter Q db idxStr (map vals (m # l # rest)) = Some (Inr (map (\<lambda>c. Inr (chunk_row_of (rview db) c)) chs))"
    "distinct chs" "set chs \<subseteq> chunk_ids (rview db)" "rows_in (rview db) (set chs) = partition_rows holds p cs vals (rview db)"
    using query_store.partition_chunks_ok [OF q search str layout cols(1) few rest, of db vals] by blast
  have "plan_covers idxStr (length (argv args))" "0 < nat k" using kinds(4) args(2) k(2) by (simp_all add: plan_covers_def)
  from search_chunks_ok [OF store lay ok i chs(3,2) query(2) this(2) found(5) this(1), of F "col_metric (vector_columns p ! i)" D "metadata_in_of []"] nums
  obtain rowids distances used where knn:
    "vec0Filter_knn_chunks_iter S D F db (knn_table p i (col_metric (vector_columns p ! i))) (map (\<lambda>c. Inr (chunk_row_of (rview db) c)) chs)
       None (metadata_in_of []) idxStr (argv args) query (nat k) = Some (Inr (rowids, distances, used))"
    "used \<le> length rowids" "used \<le> length distances"
    "nearest_rows (nat k) (\<lambda>r. vector_distance F p i (col_metric (vector_columns p ! i)) query (the (table_rows p (rview db) r) ! i))
      (rows_in (rview db) (set chs)) (neighbours distances rowids used)" unfolding chs(4) by blast
  have n: "(length idxStr - 1) div 4 = length (argv args)" "(length idxStr - 1) mod 4 = 0" "idxStr \<noteq> []" "hd idxStr = QUERY_PLAN_KNN"
    using kinds(4) args(2) str by simp_all
  have a: "argv args ! 1 = vals l" "length (argv args) = length (m # l # rest)" using args(2) by simp_all
  have "search_input (vector_columns p ! i) (given_vector args 0) (argv args ! 1) = Inr (query, k)"
    using query(1) k a(1) by (simp add: search_input_def)
  then have "vec0Filter_knn S R Q D F z db p args idxStr (vec0_cursor_clear cur) = Some (SQLITE_OK, (vec0_cursor_clear cur)\<lparr>query_plan := QUERY_PLAN_KNN,
      knn_data := Some \<lparr>knn_k = k, knn_used = used, knn_rowids = rowids, knn_distances = distances, current_idx = 0\<rparr>\<rparr>)"
    using n(1) found(1-3) found(4) [of S Q db z "in_list args" None] a(2) args(2,3) i(1) chs(1) knn(1) k(2) sqlite_store.malloc_ok [OF blobs]
    by (simp add: vec0Filter_knn_def item_at_def Let_def del: list.map upt_Suc)
  then show ?thesis using n args(1) knn(2-4) chs(4) by (auto simp: vec0Filter_def)
qed

subsection \<open>The columns of a row\<close>

text \<open>The partition and auxiliary values that the tables keep are as many as there are columns.\<close>

definition values_ok :: "vec0_vtab \<Rightarrow> 'g rows_view \<Rightarrow> bool" where
  "values_ok p st \<longleftrightarrow> (\<forall>(c, ks) \<in> set (st_chunks st). length ks = length (partition_columns p)) \<and>
     (\<forall>r vs. st_aux st r = Some vs \<longrightarrow> length vs = length (auxiliary_columns p))"

text \<open>What a query should show in column \<open>i\<close> of row \<open>r\<close>; \<open>d\<close> is what it shows as the distance.\<close>

definition row_column ::
  "vec0_vtab \<Rightarrow> 'g rows_view \<Rightarrow> int \<Rightarrow> ('r, 'g) column_result \<Rightarrow> int \<Rightarrow> ('r, 'g) column_result" where
  "row_column p st r d i =
     (let idx = column_idx_to_idx p i
      in if i = VEC0_COLUMN_ID then Result_int64 r
         else if i = column_distance_idx p then d
         else if column_idx_is KIND_VECTOR p i
         then Result_vector (the (table_rows p st r) ! idx) (col_element_type (vector_columns p ! idx))
         else if column_idx_is KIND_PARTITION p i
         then Result_value (the (map_of (st_chunks st) (fst (the (st_position st r)))) ! idx)
         else if column_idx_is KIND_AUXILIARY p i then Result_value (the (st_aux st r) ! idx)
         else Result_unset)"

text \<open>The cursor is on row \<open>r\<close>; in a search \<open>d\<close> is the distance.\<close>

definition on_row :: "vec0_vtab \<Rightarrow> 'g rows_view \<Rightarrow> 'r vec0_cursor \<Rightarrow> int \<Rightarrow> ('r, 'g) column_result \<Rightarrow> bool" where
  "on_row p st cur r d \<longleftrightarrow>
     (query_plan cur = QUERY_PLAN_FULLSCAN \<and> (\<exists>s. fullscan_data cur = Some s \<and> scan_row s = Some r) \<and> d = Result_null \<or>
      query_plan cur = QUERY_PLAN_POINT \<and> (\<exists>s. point_data cur = Some s \<and> point_rowid s = Some r \<and>
        (\<forall>j < length (vector_columns p). point_vectors s j = Some (the (table_rows p st r) ! j))) \<and> d = Result_null \<or>
      query_plan cur = QUERY_PLAN_KNN \<and> (\<exists>s x. knn_data cur = Some s \<and> item_at (knn_rowids s) (current_idx s) = Some r \<and>
        item_at (knn_distances s) (current_idx s) = Some x \<and> d = Result_float x))"

lemma row_vectors_length:
  assumes ok: "table_ok p st" and vs: "table_rows p st r = Some vs" and i: "i < length (vector_columns p)"
  shows "length (vs ! i) = column_size p i"
proof -
  obtain c j where pos: "st_position st r = Some (c, j)" "vs = place_vectors p st c j" using vs by (auto simp: table_rows_def)
  have "length (blob st (Vectors i) c) = table_chunk_size p * column_size p i"
    using row_place(2) [OF ok pos(1)] i by (simp add: chunk_ok_def has_blob_def)
  then show ?thesis using length_cell [OF row_place(4) [OF ok pos(1)]] i pos(2) by (simp add: place_vectors_def)
qed

context query_store
begin

lemma position_of:
  assumes ok: "table_ok p (rview db)" and row: "table_rows p (rview db) r = Some vs"
  obtains c j where "st_position (rview db) r = Some (c, j)" "vec0_get_chunk_position R db r = Inr (c, j)" "c \<in> chunk_ids (rview db)"
    "j < table_chunk_size p" "vs = place_vectors p (rview db) c j"
proof -
  obtain c j where pos: "st_position (rview db) r = Some (c, j)" "vs = place_vectors p (rview db) c j"
    using row by (auto simp: table_rows_def)
  then show ?thesis using that position_ok [OF ok, of r] row_place(1,4) [OF ok pos(1)] by simp
qed

lemma partition_value_ok:
  assumes ok: "table_ok p (rview db)" "values_ok p (rview db)" and row: "table_rows p (rview db) r \<noteq> None"
    and i: "i < length (partition_columns p)" "partitions = length (partition_columns p)"
  shows "vec0_get_partition_value_for_rowid R Q db r i =
    Inr (the (map_of (st_chunks (rview db)) (fst (the (st_position (rview db) r)))) ! i)"
proof -
  obtain vs where "table_rows p (rview db) r = Some vs" using row by blast
  then obtain c j where pos: "st_position (rview db) r = Some (c, j)" "vec0_get_chunk_position R db r = Inr (c, j)" "c \<in> chunk_ids (rview db)"
    by (rule position_of [OF ok(1)])
  then obtain ks where ks: "map_of (st_chunks (rview db)) c = Some ks" by (metis chunk_ids_def map_of_eq_None_iff not_None_eq)
  then show ?thesis using pos select_partition_ok [OF ks, of i] i partition_ok value_dup_ok
    by (simp add: vec0_get_partition_value_for_rowid_def)
qed

lemma auxiliary_value_ok:
  assumes ok: "table_ok p (rview db)" "values_ok p (rview db)" and row: "table_rows p (rview db) r \<noteq> None"
    and i: "i < length (auxiliary_columns p)"
  shows "vec0_get_auxiliary_value_for_rowid Q db r i = Inr (the (st_aux (rview db) r) ! i)"
proof -
  have "r \<in> st_rowids (rview db)" using row row_place(5) [OF ok(1)] by (auto simp: table_rows_def)
  then obtain vs where vs: "st_aux (rview db) r = Some vs" using table_okD(5) [OF ok(1)] i by (auto split: if_splits)
  then have "length vs = length (auxiliary_columns p)" using ok(2) by (simp add: values_ok_def)
  then show ?thesis using select_auxiliary_ok [OF vs, of i] vs i auxiliary_ok value_dup_ok
    by (simp add: vec0_get_auxiliary_value_for_rowid_def)
qed

text \<open>In each of the three plans a column of the current row is what it should be.\<close>

lemma column_ok:
  assumes cols: "columns_ok p" "\<not> pk_is_text p" "partitions = length (partition_columns p)"
    and ok: "table_ok p (rview db)" "values_ok p (rview db)" and row: "table_rows p (rview db) r \<noteq> None"
    and cur: "on_row p (rview db) cur r d" and i: "\<not> column_idx_is KIND_METADATA p i"
  shows "vec0Column S R Q D db p cur False i = Some (SQLITE_OK, row_column p (rview db) r d i)"
proof -
  define idx where "idx = column_idx_to_idx p i"
  have less: "idx < kind_count p kind" if "column_idx_is kind p i" for kind
    using column_idx_to_idx_less [OF cols(1) that] by (simp add: idx_def)
  obtain vs where vs: "table_rows p (rview db) r = Some vs" using row by blast
  have id: "vec0_result_id R Q db p r = (SQLITE_OK, Result_int64 r)" using cols(2) by (simp add: vec0_result_id_def)
  have vec: "vec0_get_vector_data S R db p r idx = Some (Inr (vs ! idx))" "length (vs ! idx) = column_size p idx"
    "item_at (vector_columns p) idx = Some (vector_columns p ! idx)" "idx < length (vector_columns p)"
    if "column_idx_is KIND_VECTOR p i"
  proof -
    show v: "idx < length (vector_columns p)" using less [OF that] by (simp add: kind_count_def)
    then show "item_at (vector_columns p) idx = Some (vector_columns p ! idx)" by (simp add: item_at_def)
    show "vec0_get_vector_data S R db p r idx = Some (Inr (vs ! idx))" using get_vector_ok [OF ok(1) v, of r] vs by simp
    show "length (vs ! idx) = column_size p idx" using row_vectors_length [OF ok(1) vs v] .
  qed
  have part: "vec0_get_partition_value_for_rowid R Q db r idx =
      Inr (the (map_of (st_chunks (rview db)) (fst (the (st_position (rview db) r)))) ! idx)" if "column_idx_is KIND_PARTITION p i"
    using partition_value_ok [OF ok row _ cols(3), of idx] less [OF that] by (simp add: kind_count_def)
  have aux: "vec0_get_auxiliary_value_for_rowid Q db r idx = Inr (the (st_aux (rview db) r) ! idx)" if "column_idx_is KIND_AUXILIARY p i"
    using auxiliary_value_ok [OF ok row, of idx] less [OF that] by (simp add: kind_count_def)
  note columns = id vec part aux vs idx_def [symmetric] columns_differ [where p = p] columns_differ(2) [of _ p i]
  from cur consider (scan) s where "query_plan cur = QUERY_PLAN_FULLSCAN" "fullscan_data cur = Some s" "scan_row s = Some r" "d = Result_null"
    | (point) s where "query_plan cur = QUERY_PLAN_POINT" "point_data cur = Some s" "point_rowid s = Some r"
      "\<forall>j < length (vector_columns p). point_vectors s j = Some (vs ! j)" "d = Result_null"
    | (knn) s x where "query_plan cur = QUERY_PLAN_KNN" "knn_data cur = Some s" "item_at (knn_rowids s) (current_idx s) = Some r"
      "item_at (knn_distances s) (current_idx s) = Some x" "d = Result_float x"
    using vs by (auto simp: on_row_def)
  then show ?thesis
  proof cases
    case scan
    then show ?thesis using i columns
      by (auto simp: vec0Column_def vec0Column_fullscan_def row_column_def value_outcome_def vector_outcome_def Let_def)
  next
    case point
    have "bytes_at (vs ! idx) 0 (column_byte_size (vector_columns p ! idx)) = Some (vs ! idx)" if "column_idx_is KIND_VECTOR p i"
      using vec(2) [OF that] by (simp add: bytes_at_def column_size_def)
    then show ?thesis using i columns point
      by (auto simp: vec0Column_def vec0Column_point_def row_column_def value_outcome_def vector_outcome_def Let_def)
  next
    case knn
    then show ?thesis using i columns
      by (auto simp: vec0Column_def vec0Column_knn_def row_column_def value_outcome_def vector_outcome_def Let_def)
  qed
qed

end

subsection \<open>Walking through the rows\<close>

text \<open>
  What SQLite does with a cursor: read, and go on until the end. \<open>None\<close>: reading a row fails, a step gives an error, or
  the rows do not end within the number of steps.
\<close>

fun fetch :: "nat \<Rightarrow> ('r vec0_cursor \<Rightarrow> 'a option) \<Rightarrow> 'r vec0_cursor \<Rightarrow> 'a list option" where
  "fetch 0 read cur = None"
| "fetch (Suc n) read cur =
     (if vec0Eof cur then Some []
      else do {
        x \<leftarrow> read cur;
        let (rc, cur') = vec0Next cur;
        if rc \<noteq> SQLITE_OK then None else map_option ((#) x) (fetch n read cur')
      })"

lemma fetch_knn:
  assumes "query_plan cur = QUERY_PLAN_KNN" and "knn_used d - idx < n"
    and "\<And>a. idx \<le> a \<Longrightarrow> a < knn_used d \<Longrightarrow> read (cur\<lparr>knn_data := Some (d\<lparr>current_idx := a\<rparr>)\<rparr>) = Some (f a)"
  shows "fetch n read (cur\<lparr>knn_data := Some (d\<lparr>current_idx := idx\<rparr>)\<rparr>) = Some (map f [idx..<knn_used d])"
  using assms(2,3)
proof (induction n arbitrary: idx)
  case (Suc n)
  show ?case
  proof (cases "idx < knn_used d")
    case False
    then show ?thesis using assms(1) by (simp add: vec0Eof_def)
  next
    case True
    have "fetch n read (cur\<lparr>knn_data := Some (d\<lparr>current_idx := Suc idx\<rparr>)\<rparr>) = Some (map f [Suc idx..<knn_used d])"
      using Suc.prems True by (intro Suc.IH) auto
    then show ?thesis using assms(1) True Suc.prems(2) [of idx] by (simp add: vec0Eof_def vec0Next_def upt_conv_Cons)
  qed
qed simp

lemma fetch_scan:
  assumes "query_plan cur = QUERY_PLAN_FULLSCAN"
    and "\<And>r rest. r \<in> set rs \<Longrightarrow> read (cur\<lparr>fullscan_data := Some \<lparr>scan_row = Some r, scan_rest = rest, scan_done = False\<rparr>\<rparr>) = Some (f r)"
  shows "fetch (Suc (length rs)) read (cur\<lparr>fullscan_data := Some (case rs of
      [] \<Rightarrow> \<lparr>scan_row = None, scan_rest = [], scan_done = True\<rparr>
    | r # rest \<Rightarrow> \<lparr>scan_row = Some r, scan_rest = map Inr rest, scan_done = False\<rparr>)\<rparr>) = Some (map f rs)"
  using assms(2)
proof (induction rs)
  case Nil
  then show ?case using assms(1) by (simp add: vec0Eof_def)
next
  case (Cons r rs)
  then show ?case using assms(1) Cons.prems [of r "map Inr rs"] Cons.IH
    by (cases rs) (simp_all add: vec0Eof_def vec0Next_def scan_step_def)
qed

subsection \<open>From the plan to the arguments\<close>

text \<open>SQLite passes the right-hand sides of the constraints that the plan numbers, in that order.\<close>

definition passed :: "best_plan \<Rightarrow> (nat \<Rightarrow> 'g sqlite_value) \<Rightarrow> 'g sqlite_value list \<Rightarrow> bool" where
  "passed plan vals vs \<longleftrightarrow> length vs = length (filter (\<lambda>(a, _). a \<noteq> 0) (arg_usage plan)) \<and>
     (\<forall>i < length (arg_usage plan). fst (arg_usage plan ! i) \<noteq> 0 \<longrightarrow> vs ! (fst (arg_usage plan ! i) - 1) = vals i)"

lemma passed_arguments:
  assumes "arguments_of info plan is" and "passed plan vals vs"
  shows "vs = map vals is"
proof -
  define n where "n = length (constraints info)"
  have a: "distinct is" "\<forall>i \<in> set is. i < n"
    "arg_usage plan = map (\<lambda>i. if i \<in> set is then (Suc (length (takeWhile (\<lambda>j. j \<noteq> i) is)), True) else (0, False)) [0..<n]"
    using assms(1) by (simp_all add: arguments_of_def n_def)
  have "length vs = length (filter (\<lambda>i. i \<in> set is) [0..<n])"
    using assms(2) unfolding passed_def a(3) by (simp add: filter_map comp_def case_prod_unfold if_distrib cong: if_cong)
  also have "\<dots> = card (set (filter (\<lambda>i. i \<in> set is) [0..<n]))" by (rule distinct_card [symmetric]) simp
  also have "set (filter (\<lambda>i. i \<in> set is) [0..<n]) = set is" using a(2) by auto
  finally have l: "length vs = length is" using distinct_card [OF a(1)] by simp
  show ?thesis
  proof (rule nth_equalityI)
    fix b assume "b < length vs"
    then have b: "b < length is" "is ! b < n" "is ! b \<in> set is" using l a(2) by simp_all
    then have "arg_usage plan ! (is ! b) = (Suc b, True)" using takeWhile_nth [OF a(1)] by (simp add: a(3))
    then show "vs ! b = map vals is ! b" using assms(2) b by (auto simp: passed_def a(3))
  qed (simp add: l)
qed

text \<open>A search whose constraints, apart from those SQLite checks itself, are on partition keys.\<close>

definition partition_query :: "vec0_vtab \<Rightarrow> index_info \<Rightarrow> best_plan \<Rightarrow> bool" where
  "partition_query p info plan \<longleftrightarrow> vec0BestIndex p info True = Inr plan \<and> hd (the (idx_str plan)) = QUERY_PLAN_KNN \<and>
     (\<forall>c \<in> set (constraints info). \<not> rowid_in_constraint c \<and> (search_constraint p c \<longrightarrow> selects_partition p c))"

lemma partition_query_plan:
  assumes "partition_query p info plan"
  obtains m l rest where "arguments_of info plan (m # l # rest)" "partition_search p (constraints info) m l rest"
    "set rest = {i. i < length (constraints info) \<and> selects_partition p (constraints info ! i)}"
    "idx_str plan = Some (''3{___}___'' @ concat (map (\<lambda>i. constraint_entry p (constraints info ! i)) rest))"
    "constraint_op (constraints info ! l) = CONSTRAINT_LIMIT \<or> iColumn (constraints info ! l) = column_k_idx p"
    "l < length (constraints info)" "usable (constraints info ! l)" "idx_num plan = int (column_idx_to_idx p (iColumn (constraints info ! m)))"
    "column_idx_is KIND_VECTOR p (iColumn (constraints info ! m))"
proof -
  define cs where "cs = constraints info"
  obtain "is" where a: "arguments_of info plan is" and "search_plan p info plan is \<or> point_plan info plan is \<or> is = [] \<and> idx_str plan = Some ''1''"
    using best_plan_ok [of p info plan] assms by (auto simp: partition_query_def)
  then have "search_plan p info plan is" using assms by (auto simp: partition_query_def point_plan_def)
  then obtain m l rest where s: "is = m # l # rest" "matches_vector p (cs ! m)" "idx_num plan = int (column_idx_to_idx p (iColumn (cs ! m)))"
    "constraint_op (cs ! l) = CONSTRAINT_LIMIT \<or> iColumn (cs ! l) = column_k_idx p"
    "idx_str plan = Some (''3{___}___'' @ concat (map (\<lambda>i. constraint_entry p (cs ! i)) rest))"
    "\<forall>i \<in> set rest. rowid_in_constraint (cs ! i) \<or> search_constraint p (cs ! i)"
    "\<forall>i < length cs. search_constraint p (cs ! i) \<longrightarrow> i \<in> set rest"
    unfolding search_plan_def cs_def by blast
  have less: "\<forall>i \<in> set (m # l # rest). i < length cs \<and> usable (cs ! i)" using a s(1) by (simp add: arguments_of_def cs_def)
  have only: "\<not> rowid_in_constraint (cs ! i)" "search_constraint p (cs ! i) \<Longrightarrow> selects_partition p (cs ! i)" if "i < length cs" for i
    using assms that by (simp_all add: partition_query_def cs_def)
  have rest: "set rest = {i. i < length cs \<and> selects_partition p (cs ! i)}"
  proof (intro set_eqI iffI CollectI conjI)
    fix i assume i: "i \<in> set rest"
    then show "i < length cs" using less by simp
    then show "selects_partition p (cs ! i)" using s(6) i only by blast
  next
    fix i assume "i \<in> {i. i < length cs \<and> selects_partition p (cs ! i)}"
    then show "i \<in> set rest" using s(7) by (simp add: search_constraint_def)
  qed
  have kinds: "\<not> column_idx_is KIND_PARTITION p (iColumn (cs ! m))" "constraint_op (cs ! m) = CONSTRAINT_MATCH" "column_idx_is KIND_VECTOR p (iColumn (cs ! m))"
    using s(2) columns_differ(2) [of KIND_VECTOR p "iColumn (cs ! m)" KIND_PARTITION] by (auto simp: matches_vector_def)
  have "constraint_entry p (cs ! m) = ''{___''" "\<not> selects_partition p (cs ! m)"
    using kinds by (simp_all add: constraint_entry_def selects_partition_def selects_def)
  moreover have "constraint_entry p (cs ! l) = ''}___''" "\<not> selects_partition p (cs ! l)"
    using s(4) columns_differ(6) [of _ p] by (auto simp: constraint_entry_def selects_partition_def selects_def limit_or_offset_def Let_def)
  ultimately have ps: "partition_search p cs m l rest" using rest by (simp add: partition_search_def)
  have l: "l < length cs" "usable (cs ! l)" using less by simp_all
  show ?thesis by (rule that [folded cs_def, OF a [unfolded s(1)] ps rest s(5,4) l s(3) kinds(3)])
qed

definition read_row ::
  "'db sqlite_api \<Rightarrow> ('db, 'g) row_api \<Rightarrow> ('db, 'g) query_api \<Rightarrow> 'g double_api \<Rightarrow> 'db \<Rightarrow> vec0_vtab \<Rightarrow> int list \<Rightarrow> 'r vec0_cursor \<Rightarrow>
     (int \<times> ('r, 'g) column_result) list option" where
  "read_row S R Q D db p wanted cur = those (map (vec0Column S R Q D db p cur False) wanted)"

lemma those_Some: "(\<And>x. x \<in> set xs \<Longrightarrow> f x = Some (g x)) \<Longrightarrow> those (map f xs) = Some (map g xs)"
  by (induction xs) auto

lemma read_row_ok:
  assumes "query_store S rview R Q holds partitions" and "columns_ok p" and "\<not> pk_is_text p" and "partitions = length (partition_columns p)"
    and "table_ok p (rview db)" and "values_ok p (rview db)" and "table_rows p (rview db) r \<noteq> None"
    and "on_row p (rview db) cur r d" and "\<forall>i \<in> set wanted. \<not> column_idx_is KIND_METADATA p i"
  shows "read_row S R Q D db p wanted cur = Some (map (\<lambda>i. (SQLITE_OK, row_column p (rview db) r d i)) wanted)"
  unfolding read_row_def using query_store.column_ok [OF assms(1-8)] assms(9) by (intro those_Some) auto

text \<open>The rows that the cursor of a search goes through.\<close>

lemma search_fetch:
  fixes distances :: "'r list" and rview :: "'db \<Rightarrow> 'g rows_view"
  assumes "query_store S rview R Q holds partitions" and "columns_ok p" and "\<not> pk_is_text p" and "partitions = length (partition_columns p)"
    and "table_ok p (rview db)" and "values_ok p (rview db)" and "\<forall>i \<in> set wanted. \<not> column_idx_is KIND_METADATA p i"
    and used: "used \<le> length rowids" "used \<le> length distances" and found: "found = neighbours distances rowids used"
    and rows: "\<forall>(d, r) \<in> set found. table_rows p (rview db) r \<noteq> None"
    and cur: "query_plan cur = QUERY_PLAN_KNN"
      "knn_data cur = Some \<lparr>knn_k = k, knn_used = used, knn_rowids = rowids, knn_distances = distances, current_idx = 0\<rparr>"
  shows "fetch (length found + 1) (read_row S R Q D db p wanted) cur =
    Some (map (\<lambda>(d, r). map (\<lambda>i. (SQLITE_OK, row_column p (rview db) r (Result_float d) i)) wanted) found)"
proof -
  define d where "d = \<lparr>knn_k = k, knn_used = used, knn_rowids = rowids, knn_distances = distances, current_idx = 0\<rparr>"
  define shown where "shown = (\<lambda>b. map (\<lambda>i. (SQLITE_OK, row_column p (rview db) (snd (found ! b)) (Result_float (fst (found ! b)) :: ('r, 'g) column_result) i)) wanted)"
  have row: "table_rows p (rview db) (snd (found ! b)) \<noteq> None" if "b < used" for b
    using rows nth_mem [of b found] that found by (simp add: case_prod_unfold)
  have "read_row S R Q D db p wanted (cur\<lparr>knn_data := Some (d\<lparr>current_idx := b\<rparr>)\<rparr>) = Some (shown b)" if "b < used" for b
    unfolding shown_def using that used
    by (intro read_row_ok [OF assms(1-6) row [OF that] _ assms(7)]) (simp add: on_row_def cur(1) d_def item_at_def found neighbours_def)
  then have "fetch (Suc used) (read_row S R Q D db p wanted) (cur\<lparr>knn_data := Some (d\<lparr>current_idx := 0\<rparr>)\<rparr>) = Some (map shown [0..<used])"
    using fetch_knn [of cur d 0 "Suc used" "read_row S R Q D db p wanted" shown] cur(1) by (simp add: d_def)
  moreover have "map shown [0..<used] = map (\<lambda>(d, r). map (\<lambda>i. (SQLITE_OK, row_column p (rview db) r (Result_float d) i)) wanted) found"
    by (rule nth_equalityI) (simp_all add: shown_def found case_prod_unfold)
  moreover have "cur\<lparr>knn_data := Some (d\<lparr>current_idx := 0\<rparr>)\<rparr> = cur" using cur(2) by (simp add: d_def)
  ultimately show ?thesis by (simp add: found)
qed

text \<open>Starting a search with the arguments that its plan asks for.\<close>

lemma partition_query_ok:
  fixes F :: "('r :: linorder f32, 'g :: linorder) float_api"
  assumes "query_store S rview R Q holds (length (partition_columns p))" and "layout_ok p" and "\<not> pk_is_text p"
    and "length (partition_columns p) \<le> 4" and "table_ok p (rview db)" and "partition_query p info plan"
    and "arg_str args = idx_str plan" and "int (arg_num args) = idx_num plan"
    and "passed plan vals (argv args)" and "c = vector_columns p ! arg_num args" and "col_dimensions c \<le> 8192"
    and "given_vector args 0 = Inr (col_element_type c, col_dimensions c, query)" and "length query = column_byte_size c"
    and "\<forall>i < length (constraints info). usable (constraints info ! i) \<and> (constraint_op (constraints info ! i) = CONSTRAINT_LIMIT \<or>
      iColumn (constraints info ! i) = column_k_idx p) \<longrightarrow> value_int64 (vals i) = k" and "0 < k" and "k \<le> VEC0_K_MAX"
    and "\<forall>r \<in> partition_rows holds p (constraints info) vals (rview db).
      vector_distance F p (arg_num args) (col_metric c) query (the (table_rows p (rview db) r) ! arg_num args) \<noteq> NaN"
  shows "\<exists>rowids distances used.
    vec0Filter S R Q D F z db p args cur = Some (SQLITE_OK, (vec0_cursor_clear cur)\<lparr>query_plan := QUERY_PLAN_KNN, knn_data :=
      Some \<lparr>knn_k = k, knn_used = used, knn_rowids = rowids, knn_distances = distances, current_idx = 0\<rparr>\<rparr>) \<and>
    used \<le> length rowids \<and> used \<le> length distances \<and>
    nearest_rows (nat k) (\<lambda>r. vector_distance F p (arg_num args) (col_metric c) query (the (table_rows p (rview db) r) ! arg_num args))
      (partition_rows holds p (constraints info) vals (rview db)) (neighbours distances rowids used)"
proof -
  define cs where "cs = constraints info"
  define i where "i = arg_num args"
  obtain m l rest where plan: "arguments_of info plan (m # l # rest)" "partition_search p cs m l rest"
    "set rest = {i. i < length cs \<and> selects_partition p (cs ! i)}"
    "idx_str plan = Some (''3{___}___'' @ concat (map (\<lambda>i. constraint_entry p (cs ! i)) rest))"
    "constraint_op (cs ! l) = CONSTRAINT_LIMIT \<or> iColumn (cs ! l) = column_k_idx p" "l < length cs" "usable (cs ! l)"
    "idx_num plan = int (column_idx_to_idx p (iColumn (cs ! m)))" "column_idx_is KIND_VECTOR p (iColumn (cs ! m))"
    unfolding cs_def by (rule partition_query_plan [OF assms(6)])
  have "columns_ok p" using assms(2) by (simp add: layout_ok_def)
  from column_idx_to_idx_less [OF this plan(9)] have i: "i < length (vector_columns p)"
    using plan(8) assms(8) by (simp add: i_def kind_count_def)
  have k: "value_int64 (vals l) = k" using assms(14) plan(5-7) by (auto simp: cs_def)
  have q: "given_vector args 0 = Inr (col_element_type (vector_columns p ! i), col_dimensions (vector_columns p ! i), query)"
    "length query = column_size p i" "col_dimensions (vector_columns p ! i) \<le> 8192"
    using assms(10-13) by (simp_all add: i_def column_size_def)
  have a: "arg_str args = Some (''3{___}___'' @ concat (map (\<lambda>i. constraint_entry p (cs ! i)) rest))" "argv args = map vals (m # l # rest)"
    "arg_num args = i" using assms(7) plan(4) passed_arguments [OF plan(1) assms(9)] by (simp_all add: i_def)
  have "\<forall>r \<in> partition_rows holds p cs vals (rview db). vector_distance F p i (col_metric (vector_columns p ! i)) query
      (the (table_rows p (rview db) r) ! i) \<noteq> NaN" using assms(17) by (simp add: assms(10) i_def cs_def)
  from filter_search_ok [OF assms(1,2,5) refl assms(4) plan(2) refl plan(3) a i q(3,1,2) k assms(15,16) this, of D z cur]
  show ?thesis by (simp add: assms(10) i_def cs_def)
qed

text \<open>Starting a look-up and a scan.\<close>

lemma point_vectors_of_ok:
  assumes "row_store S rview R" and "table_ok p (rview db)" and "\<forall>i \<in> set is. i < length (vector_columns p)"
  shows "table_rows p (rview db) r = Some row \<Longrightarrow>
      \<exists>ws. point_vectors_of S R db p r is vs = Some (SQLITE_OK, ws) \<and> (\<forall>i. ws i = (if i \<in> set is then Some (row ! i) else vs i))"
    and "table_rows p (rview db) r = None \<Longrightarrow> is \<noteq> [] \<Longrightarrow> point_vectors_of S R db p r is vs = Some (SQLITE_EMPTY, vs)"
proof -
  have get: "vec0_get_vector_data S R db p r i =
      Some (case table_rows p (rview db) r of None \<Rightarrow> Inl SQLITE_EMPTY | Some row \<Rightarrow> Inr (row ! i))" if "i \<in> set is" for i
    using row_store.get_vector_ok [OF assms(1,2), of i r] assms(3) that by simp
  show "table_rows p (rview db) r = None \<Longrightarrow> is \<noteq> [] \<Longrightarrow> point_vectors_of S R db p r is vs = Some (SQLITE_EMPTY, vs)"
    using get by (cases "is") auto
  show "\<exists>ws. point_vectors_of S R db p r is vs = Some (SQLITE_OK, ws) \<and> (\<forall>i. ws i = (if i \<in> set is then Some (row ! i) else vs i))"
    if "table_rows p (rview db) r = Some row"
    using get
  proof (induction "is" arbitrary: vs)
    case (Cons i "is")
    have "\<exists>ws. point_vectors_of S R db p r is (vs(i \<mapsto> row ! i)) = Some (SQLITE_OK, ws) \<and>
        (\<forall>j. ws j = (if j \<in> set is then Some (row ! j) else (vs(i \<mapsto> row ! i)) j))"
      using Cons.prems by (intro Cons.IH) simp
    then obtain ws where "point_vectors_of S R db p r is (vs(i \<mapsto> row ! i)) = Some (SQLITE_OK, ws)"
      "\<forall>j. ws j = (if j \<in> set is then Some (row ! j) else (vs(i \<mapsto> row ! i)) j)" by blast
    then show ?case using Cons.prems [of i] that by (intro exI [of _ ws]) auto
  qed simp
qed

lemma lookup_fetch:
  fixes cur :: "'r vec0_cursor"
  assumes "query_store S rview R Q holds (length (partition_columns p))" and "columns_ok p" and "\<not> pk_is_text p"
    and "vector_columns p \<noteq> []" and "table_ok p (rview db)" and "values_ok p (rview db)"
    and "\<forall>i \<in> set wanted. \<not> column_idx_is KIND_METADATA p i"
  shows "\<exists>cur'. vec0Filter_point S R db p [v] n cur = Some (SQLITE_OK, cur') \<and>
    fetch 2 (read_row S R Q D db p wanted) cur' =
      Some (if table_rows p (rview db) (value_int64 v) = None then []
            else [map (\<lambda>i. (SQLITE_OK, row_column p (rview db) (value_int64 v) (Result_null :: ('r, 'g) column_result) i)) wanted])"
proof -
  define r where "r = value_int64 v"
  have store: "row_store S rview R" using assms(1) by (rule query_store.axioms)
  have malloc: "malloc S db n" using sqlite_store.malloc_ok [of S] store by (auto simp: row_store_def)
  show ?thesis
  proof (cases "table_rows p (rview db) r")
    case None
    then have "point_vectors_of S R db p r [0..<length (vector_columns p)] Map.empty = Some (SQLITE_EMPTY, Map.empty)"
      using point_vectors_of_ok(2) [OF store assms(5), of "[0..<length (vector_columns p)]" r Map.empty] assms(4) by simp
    then show ?thesis using malloc assms(3) None
      by (simp add: vec0Filter_point_def r_def [symmetric] vec0Eof_def numeral_2_eq_2 del: upt_Suc)
  next
    case (Some row)
    then obtain ws where ws: "point_vectors_of S R db p r [0..<length (vector_columns p)] Map.empty = Some (SQLITE_OK, ws)"
      "\<forall>i < length (vector_columns p). ws i = Some (row ! i)"
      using point_vectors_of_ok(1) [OF store assms(5) _ Some, of "[0..<length (vector_columns p)]" Map.empty] by auto
    define cur' where "cur' = cur\<lparr>query_plan := QUERY_PLAN_POINT, point_data := Some \<lparr>point_rowid = Some r, point_vectors = ws, point_done = False\<rparr>\<rparr>"
    have "read_row S R Q D db p wanted cur' = Some (map (\<lambda>i. (SQLITE_OK, row_column p (rview db) r Result_null i)) wanted)"
      using ws(2) Some by (intro read_row_ok [OF assms(1-3) refl assms(5,6) _ _ assms(7)]) (simp_all add: on_row_def cur'_def)
    then have "fetch 2 (read_row S R Q D db p wanted) cur' = Some [map (\<lambda>i. (SQLITE_OK, row_column p (rview db) r Result_null i)) wanted]"
      by (simp add: numeral_2_eq_2 vec0Eof_def vec0Next_def cur'_def)
    moreover have "vec0Filter_point S R db p [v] n cur = Some (SQLITE_OK, cur')"
      using malloc assms(3) ws(1) by (simp add: vec0Filter_point_def r_def [symmetric] cur'_def del: upt_Suc)
    ultimately show ?thesis using Some by (simp add: r_def)
  qed
qed

lemma scan_fetch:
  fixes cur :: "'r vec0_cursor"
  assumes "query_store S rview R Q holds (length (partition_columns p))" and "columns_ok p" and "\<not> pk_is_text p"
    and "table_ok p (rview db)" and "values_ok p (rview db)" and "\<forall>i \<in> set wanted. \<not> column_idx_is KIND_METADATA p i"
  shows "\<exists>cur' rs. vec0Filter_fullscan S Q db n cur = (SQLITE_OK, cur') \<and>
    fetch (length rs + 1) (read_row S R Q D db p wanted) cur' =
      Some (map (\<lambda>r. map (\<lambda>i. (SQLITE_OK, row_column p (rview db) r (Result_null :: ('r, 'g) column_result) i)) wanted) rs) \<and>
    distinct rs \<and> set rs = dom (table_rows p (rview db))"
proof -
  have store: "row_store S rview R" using assms(1) by (rule query_store.axioms)
  have malloc: "malloc S db n" using sqlite_store.malloc_ok [of S] store by (auto simp: row_store_def)
  have "finite (st_rowids (rview db))"
    using table_okD(4) [OF assms(4)] by (rule finite_subset) (simp add: i64_range_def)
  then obtain rs where rs: "scan_prepare Q db = SQLITE_OK" "scan_rowids Q db = map Inr rs" "distinct rs" "set rs = st_rowids (rview db)"
    using query_store.scan_ok [OF assms(1)] by blast
  have dom: "dom (table_rows p (rview db)) = st_rowids (rview db)"
    unfolding table_okD(3) [OF assms(4), symmetric] by (auto simp: table_rows_def)
  define base where "base = cur\<lparr>query_plan := QUERY_PLAN_FULLSCAN\<rparr>"
  define cur' where "cur' = base\<lparr>fullscan_data := Some (case rs of
      [] \<Rightarrow> \<lparr>scan_row = None, scan_rest = [], scan_done = True\<rparr>
    | r # rest \<Rightarrow> \<lparr>scan_row = Some r, scan_rest = map Inr rest, scan_done = False\<rparr>)\<rparr>"
  have "vec0Filter_fullscan S Q db n cur = (SQLITE_OK, cur')"
    using malloc rs(1,2) by (cases rs) (simp_all add: vec0Filter_fullscan_def scan_step_def cur'_def base_def)
  moreover have "fetch (Suc (length rs)) (read_row S R Q D db p wanted) cur' =
      Some (map (\<lambda>r. map (\<lambda>i. (SQLITE_OK, row_column p (rview db) r (Result_null :: ('r, 'g) column_result) i)) wanted) rs)"
    unfolding cur'_def
  proof (rule fetch_scan)
    fix r rest assume "r \<in> set rs"
    then have "table_rows p (rview db) r \<noteq> None" using rs(4) dom by blast
    then show "read_row S R Q D db p wanted (base\<lparr>fullscan_data := Some \<lparr>scan_row = Some r, scan_rest = rest, scan_done = False\<rparr>\<rparr>) =
        Some (map (\<lambda>i. (SQLITE_OK, row_column p (rview db) r Result_null i)) wanted)"
      by (intro read_row_ok [OF assms(1-3) refl assms(4,5) _ _ assms(6)]) (simp_all add: on_row_def base_def)
  qed (simp add: base_def)
  ultimately show ?thesis using rs(3,4) dom by (intro exI [of _ cur'] exI [of _ rs]) simp
qed

end
