(* ===== verification/VecTableProperties.thy ===== *)
theory VecTableProperties
  imports VecSearch
begin

text \<open>
  What a \<^verbatim>\<open>vec0\<close> table promises: its update method and its search are the operations of a map from row ids to
  vectors. A small table, empty and with one row, shows that the hypotheses can hold.
\<close>

subsection \<open>A small table\<close>

definition one_column :: vec0_vtab where
  "one_column = \<lparr>pk_is_text = False, user_column_kinds = [KIND_VECTOR, KIND_PARTITION, KIND_AUXILIARY], user_column_idxs = [0, 0, 0],
     vector_columns = [\<lparr>col_dimensions = 2, col_element_type = INT8, col_metric = METRIC_L1\<rparr>], partition_columns = [SQLITE_TEXT],
     auxiliary_columns = [SQLITE_TEXT], metadata_columns = [], table_chunk_size = 8\<rparr>"

definition no_rows :: "int rows_view" where
  "no_rows = \<lparr>st_blobs = (\<lambda>_ _. None), st_texts = (\<lambda>_ _. None), st_chunks = [], st_rowids = {}, st_position = Map.empty,
     st_aux = Map.empty\<rparr>"

definition int_value :: "int \<Rightarrow> int sqlite_value" where
  "int_value n = \<lparr>value_type = SQLITE_INTEGER, value_int = n, value_int64 = n, value_double = n, value_text = []\<rparr>"

definition null_value :: "int sqlite_value" where
  "null_value = \<lparr>value_type = SQLITE_NULL, value_int = 0, value_int64 = 0, value_double = 0, value_text = []\<rparr>"

definition some_text :: "int sqlite_value" where
  "some_text = \<lparr>value_type = SQLITE_TEXT, value_int = 0, value_int64 = 0, value_double = 0, value_text = [97]\<rparr>"

definition row_of :: "int \<Rightarrow> byte list \<Rightarrow> int insert_row" where
  "row_of r v = \<lparr>id_value = int_value r, column_values = [null_value, some_text, some_text], decoded = (\<lambda>_. Inr (INT8, 2, v)),
     distance_value = null_value, k_value = null_value\<rparr>"

definition update_of :: "int sqlite_value \<Rightarrow> byte list \<Rightarrow> int update_row" where
  "update_of key v = \<lparr>old_id = key, new_id = key, new_values = [some_text, null_value, null_value], nochange = (\<lambda>i. i > 0),
     new_vectors = (\<lambda>_. Inr (INT8, 2, v))\<rparr>"

definition one_row :: "int rows_view" where
  "one_row = row_written one_column 7 1 0 [[3, 4]] [7 \<mapsto> [some_text]] (chunk_added one_column 1 [some_text] no_rows)"

lemma one_column_ok: "layout_ok one_column" "metadata_columns one_column = []" "\<not> pk_is_text one_column"
proof -
  have "map snd (filter (\<lambda>(k, _). k = kind) (zip (user_column_kinds one_column) (user_column_idxs one_column))) =
      [0..<kind_count one_column kind]" for kind
    by (cases kind) (simp_all add: one_column_def kind_count_def)
  then have "columns_ok one_column" by (simp add: columns_ok_def num_defined_user_columns_def) (simp add: one_column_def)
  then show "layout_ok one_column" by (simp add: layout_ok_def) (simp add: one_column_def)
qed (simp_all add: one_column_def)

lemma one_column_fits: "length v = 2 \<Longrightarrow> rows_fit one_column [v]"
  by (simp add: rows_fit_def one_column_def column_size_def column_byte_size_def vector_byte_size_def)

lemma no_rows_ok: "table_ok one_column no_rows" "table_rows one_column no_rows = Map.empty"
  using empty_table_ok [of no_rows one_column] by (simp_all add: no_rows_def)

lemma one_row_ok: "table_ok one_column one_row" "table_rows one_column one_row = [7 \<mapsto> [[3, 4]]]" "chunk_ids one_row = {1}"
  "st_rowids one_row = {7}"
proof -
  have new: "1 \<notin> chunk_ids no_rows" by (simp add: chunk_ids_def no_rows_def)
  note added = chunk_added_ok [OF no_rows_ok(1) new, of "[some_text]"]
  have f: "st_rowids (chunk_added one_column 1 [some_text] no_rows) = {}" by (simp add: chunk_added_def no_rows_def)
  have w: "can_write one_column 7 1 0 [[3, 4]] (chunk_added one_column 1 [some_text] no_rows)"
    using added f one_column_ok(1) one_column_fits [of "[3, 4]"] by (simp add: can_write_def i64_range_def) (simp add: one_column_def)
  have aux: "dom [7 \<mapsto> [some_text]] = (if auxiliary_columns one_column = [] then {}
      else insert 7 (st_rowids (chunk_added one_column 1 [some_text] no_rows)))" unfolding f by (simp add: one_column_def)
  show "table_ok one_column one_row" "table_rows one_column one_row = [7 \<mapsto> [[3, 4]]]"
    using row_written_ok [OF w aux] added(2) no_rows_ok(2) by (simp_all add: one_row_def)
  show "chunk_ids one_row = {1}" "st_rowids one_row = {7}"
    by (simp_all add: one_row_def row_written_def chunk_added_def no_rows_def chunk_ids_def change_blobs_def)
qed

lemma row_of_ok: "length v = 2 \<Longrightarrow> row_ok one_column (row_of r v) [v]"
proof -
  assume v: "length v = 2"
  have "column_ok one_column (row_of r v) [v] i" if "i < 3" for i
  proof -
    have "i = 0 \<or> i = 1 \<or> i = 2" using that by auto
    then show ?thesis by (auto simp: column_ok_def one_column_def row_of_def typed_def some_text_def)
  qed
  then show ?thesis using one_column_fits [OF v]
    by (simp add: row_ok_def num_defined_user_columns_def) (simp add: one_column_def row_of_def int_value_def null_value_def)
qed

subsection \<open>Inserting, deleting and updating\<close>

text \<open>
  C2: an insert whose values fit the table and whose row id is new succeeds with that row id and adds exactly this row to
  the table, after which each vector column reads back the vector given; with a row id that is taken it fails and nothing
  changes. The table stays well formed either way. (Tables with integer ids and without metadata columns.)
\<close>

theorem insert_adds_the_row:
  assumes "row_store S rview R" and "layout_ok p" and "metadata_columns p = []" and "\<not> pk_is_text p"
    and "table_ok p (rview db)" and "row_ok p row vs" and "value_type (old_id upd) = SQLITE_NULL"
    and "r = value_int64 (id_value row)" and "r \<in> i64_range"
  shows "\<exists>result db'. vec0Update S R D p (More_arguments row upd) db = Some (result, db') \<and> table_ok p (rview db') \<and>
    (if r \<in> dom (table_rows p (rview db)) then result = Inl SQLITE_ERROR \<and> rview db' = rview db
     else result = Inr (Some r) \<and> table_rows p (rview db') = (table_rows p (rview db))(r \<mapsto> vs) \<and>
       (\<forall>i < length (vector_columns p). vec0_get_vector_data S R db' p r i = Some (Inr (vs ! i))))"
proof -
  have d: "r \<in> dom (table_rows p (rview db)) \<longleftrightarrow> r \<in> st_rowids (rview db)"
    unfolding table_okD(3) [OF assms(5), symmetric] by (simp add: table_rows_def dom_def)
  have e: "vec0Update S R D p (More_arguments row upd) db =
      map_option (\<lambda>(r, db'). (map_sum id Some r, db')) (vec0Update_Insert S R D p row db)"
    using assms(7) by (simp add: vec0Update_def)
  show ?thesis
  proof (cases "r \<in> st_rowids (rview db)")
    case True
    then show ?thesis using row_store.insert_taken [OF assms(1,2,4,6), of db D] assms(5,8) d e by auto
  next
    case False
    then obtain db' where db': "vec0Update_Insert S R D p row db = Some (Inr r, db')" "table_ok p (rview db')"
      "table_rows p (rview db') = (table_rows p (rview db))(r \<mapsto> vs)"
      using row_store.insert_ok [OF assms(1-4,6,5,8,9), of D] by blast
    then show ?thesis using False d e row_store.get_vector_ok [OF assms(1) db'(2)] by auto
  qed
qed

theorem insert_adds_the_row_witness:
  "\<exists>result db'. vec0Update store_api rows_api int_doubles one_column (More_arguments (row_of 5 [1, 2]) (update_of null_value [])) one_row =
      Some (result, db') \<and> table_ok one_column db' \<and> result = Inr (Some 5) \<and>
    table_rows one_column db' = [7 \<mapsto> [[3, 4]], 5 \<mapsto> [[1, 2]]] \<and>
    (\<forall>i < length (vector_columns one_column). vec0_get_vector_data store_api rows_api db' one_column 5 i = Some (Inr ([[1, 2]] ! i)))"
  using insert_adds_the_row [OF table_store.row_store_axioms one_column_ok one_row_ok(1) row_of_ok, of "[1, 2]" "update_of null_value []" 5 5 int_doubles]
  by (simp add: one_row_ok(2) update_of_def null_value_def row_of_def int_value_def i64_range_def)

text \<open>
  C3: a delete of a row of the table succeeds, leaves the table well formed and removes exactly this row, which is then not
  found; a delete of a row id that is not in the table fails with \<^verbatim>\<open>SQLITE_EMPTY\<close> and changes nothing. (Tables with integer
  ids and without metadata columns.)
\<close>

theorem delete_removes_the_row:
  assumes "row_store S rview R" and "metadata_columns p = []" and "\<not> pk_is_text p" and "table_ok p (rview db)"
    and "value_type v \<noteq> SQLITE_NULL" and "r = value_int64 v"
  shows "if r \<in> dom (table_rows p (rview db))
    then \<exists>db'. vec0Update S R D p (One_argument v) db = Some (Inr None, db') \<and> table_ok p (rview db') \<and>
      table_rows p (rview db') = (table_rows p (rview db))(r := None) \<and>
      (\<forall>i < length (vector_columns p). vec0_get_vector_data S R db' p r i = Some (Inl SQLITE_EMPTY))
    else vec0Update S R D p (One_argument v) db = Some (Inl SQLITE_EMPTY, db)"
proof (cases "r \<in> dom (table_rows p (rview db))")
  case True
  then obtain db' where db': "vec0Update_Delete S R D p v db = Some (SQLITE_OK, db')" "table_ok p (rview db')"
    "table_rows p (rview db') = (table_rows p (rview db))(r := None)"
    using row_store.delete_ok [OF assms(1-4,6), of D] by blast
  then show ?thesis using True assms(5) row_store.get_vector_ok [OF assms(1) db'(2)] by (auto simp: vec0Update_def)
next
  case False
  then have "table_rows p (rview db) (value_int64 v) = None" using assms(6) by auto
  then show ?thesis using False row_store.delete_unknown [OF assms(1,3,4), of v D] assms(5) by (simp add: vec0Update_def)
qed

theorem delete_removes_the_row_witness:
  "(\<exists>db'. vec0Update store_api rows_api int_doubles one_column (One_argument (int_value 7)) one_row = Some (Inr None, db') \<and>
      table_ok one_column db' \<and> table_rows one_column db' = Map.empty) \<and>
   vec0Update store_api rows_api int_doubles one_column (One_argument (int_value 8)) one_row = Some (Inl SQLITE_EMPTY, one_row)"
  using delete_removes_the_row [OF table_store.row_store_axioms one_column_ok(2,3) one_row_ok(1), of "int_value 7" 7 int_doubles]
    delete_removes_the_row [OF table_store.row_store_axioms one_column_ok(2,3) one_row_ok(1), of "int_value 8" 8 int_doubles]
  by (auto simp: one_row_ok(2) int_value_def)

text \<open>
  C5: an update of a row of the table that changes no partition key succeeds, leaves the table well formed and replaces
  exactly the vectors of this row whose columns are given a value; the other vectors of the row and all other rows stay.
  (Tables with integer ids and without metadata columns.)
\<close>

theorem update_replaces_the_vectors:
  assumes "row_store S rview R" and "layout_ok p" and "metadata_columns p = []" and "\<not> pk_is_text p"
    and "table_ok p (rview db)" and "table_rows p (rview db) (value_int64 (old_id upd)) = Some vs" and "new_row p upd vs vs'"
    and "value_type (old_id upd) \<noteq> SQLITE_NULL"
  shows "\<exists>db'. vec0Update S R D p (More_arguments row upd) db = Some (Inr None, db') \<and> table_ok p (rview db') \<and>
    table_rows p (rview db') = (table_rows p (rview db))(value_int64 (old_id upd) \<mapsto> vs')"
  using row_store.update_ok [OF assms(1-7), of D] assms(8) by (auto simp: vec0Update_def)

lemma update_of_ok: "length v = 2 \<Longrightarrow> new_row one_column (update_of key v) vs [v]"
proof -
  assume v: "length v = 2"
  have n: "num_defined_user_columns one_column = 3" by (simp add: num_defined_user_columns_def one_column_def)
  show ?thesis unfolding new_row_def n
  proof (intro conjI allI impI)
    fix i :: nat assume "i < 3"
    then consider "i = 0" | "i = 1" | "i = 2" by linarith
    then show "let idx = user_column_idxs one_column ! i
        in case user_column_kinds one_column ! i of
          KIND_VECTOR \<Rightarrow> if value_type (new_values (update_of key v) ! i) = SQLITE_NULL then [v] ! idx = vs ! idx
            else new_vectors (update_of key v) i =
              Inr (col_element_type (vector_columns one_column ! idx), col_dimensions (vector_columns one_column ! idx), [v] ! idx)
        | KIND_PARTITION \<Rightarrow> nochange (update_of key v) i | _ \<Rightarrow> True"
      by cases (simp_all add: one_column_def update_of_def some_text_def)
  qed (simp_all add: one_column_fits [OF v] update_of_def)
qed

theorem update_replaces_the_vectors_witness:
  "\<exists>db'. vec0Update store_api rows_api int_doubles one_column (More_arguments (row_of 7 []) (update_of (int_value 7) [9, 9])) one_row =
      Some (Inr None, db') \<and> table_ok one_column db' \<and> table_rows one_column db' = [7 \<mapsto> [[9, 9]]]"
  using update_replaces_the_vectors [OF table_store.row_store_axioms one_column_ok one_row_ok(1), of "update_of (int_value 7) [9, 9]"
      "[[3, 4]]" "[[9, 9]]" int_doubles "row_of 7 []"] update_of_ok [of "[9, 9]" "int_value 7" "[[3, 4]]"]
  by (simp add: one_row_ok(2) update_of_def int_value_def)

subsection \<open>Values of the wrong type\<close>

lemma read_typed_values_refuses:
  assumes "\<forall>i \<in> set is. user_column_kinds p ! i = kind \<longrightarrow> i < length values \<and> user_column_idxs p ! i < length types"
    and "\<exists>i \<in> set is. user_column_kinds p ! i = kind \<and> \<not> typed (types ! (user_column_idxs p ! i)) (values ! i)"
  shows "read_typed_values p kind types e values is keys = Some (Inl e)"
  using assms
proof (induction "is" arbitrary: keys)
  case (Cons i "is")
  show ?case
  proof (cases "user_column_kinds p ! i = kind \<and> \<not> typed (types ! (user_column_idxs p ! i)) (values ! i)")
    case True
    then show ?thesis using Cons.prems(1) by (auto simp: typed_def Let_def)
  next
    case False
    then have "\<exists>i \<in> set is. user_column_kinds p ! i = kind \<and> \<not> typed (types ! (user_column_idxs p ! i)) (values ! i)"
      using Cons.prems(2) by auto
    then show ?thesis using Cons False by (auto simp: typed_def Let_def)
  qed
qed simp

text \<open>A vector that cannot be decoded, or is of another element type or dimension than its column.\<close>

definition vector_fits :: "vec0_vtab \<Rightarrow> nat \<Rightarrow> int + vector_element_type \<times> nat \<times> byte list \<Rightarrow> bool" where
  "vector_fits p m given \<longleftrightarrow>
     (case given of Inl _ \<Rightarrow> False
      | Inr (t, d, _) \<Rightarrow> t = col_element_type (vector_columns p ! m) \<and> d = col_dimensions (vector_columns p ! m))"

text \<open>
  A vector of another element type in a user column behind the sixteenth makes the code read behind its array of vector
  columns (lemma \<open>late_vector_of_another_type_is_undefined\<close> below).
\<close>

definition other_type :: "vec0_vtab \<Rightarrow> nat \<Rightarrow> int + vector_element_type \<times> nat \<times> byte list \<Rightarrow> bool" where
  "other_type p m given \<longleftrightarrow> (\<exists>t d bytes. given = Inr (t, d, bytes) \<and> t \<noteq> col_element_type (vector_columns p ! m))"

lemma read_vectors_refuses:
  assumes "\<forall>i \<in> set is. user_column_kinds p ! i = KIND_VECTOR \<longrightarrow> user_column_idxs p ! i < length (vector_columns p) \<and>
      (other_type p (user_column_idxs p ! i) (given i) \<longrightarrow> i < 16)"
    and "\<exists>i \<in> set is. user_column_kinds p ! i = KIND_VECTOR \<and> \<not> vector_fits p (user_column_idxs p ! i) (given i)"
  shows "read_vectors p given is datas = Some (Inl SQLITE_ERROR)"
  using assms
proof (induction "is" arbitrary: datas)
  case (Cons i "is")
  show ?case
  proof (cases "user_column_kinds p ! i = KIND_VECTOR \<and> \<not> vector_fits p (user_column_idxs p ! i) (given i)")
    case True
    then show ?thesis using Cons.prems(1) by (auto simp: vector_fits_def other_type_def Let_def split: sum.splits)
  next
    case False
    then have "\<exists>i \<in> set is. user_column_kinds p ! i = KIND_VECTOR \<and> \<not> vector_fits p (user_column_idxs p ! i) (given i)"
      using Cons.prems(2) by auto
    then show ?thesis using Cons False by (auto simp: vector_fits_def Let_def split: sum.splits)
  qed
qed simp

lemma late_vector_of_another_type_is_undefined:
  assumes "user_column_kinds p ! i = KIND_VECTOR" and "user_column_idxs p ! i < length (vector_columns p)"
    and "other_type p (user_column_idxs p ! i) (given i)" and "16 \<le> i"
  shows "read_vectors p given (i # is) datas = None"
  using assms by (auto simp: other_type_def Let_def)

text \<open>
  C36: an insert is refused, and the database not touched by any call, when a partition key has another type than its
  column, or a vector cannot be decoded or has another element type or other dimensions than its column. Vectors of another
  element type than their column must stand in one of the first sixteen user columns: the message for a later one is made
  from memory behind the array of vector columns.
\<close>

theorem ill_typed_insert_is_refused:
  assumes "columns_ok p" and "length (column_values row) = num_defined_user_columns p" and "i < num_defined_user_columns p"
    and "value_type (old_id upd) = SQLITE_NULL" and "idx = user_column_idxs p ! i"
    and "user_column_kinds p ! i = KIND_PARTITION \<and> \<not> typed (partition_columns p ! idx) (column_values row ! i) \<or>
      user_column_kinds p ! i = KIND_VECTOR \<and> \<not> vector_fits p idx (decoded row i)"
    and "\<forall>j < num_defined_user_columns p. user_column_kinds p ! j = KIND_VECTOR \<and>
      other_type p (user_column_idxs p ! j) (decoded row j) \<longrightarrow> j < 16"
  shows "vec0Update S R D p (More_arguments row upd) db = Some (Inl SQLITE_ERROR, db)"
proof -
  define columns where "columns = [0..<num_defined_user_columns p]"
  have i: "i \<in> set columns" using assms(3) by (simp add: columns_def)
  have less: "\<forall>i \<in> set columns. user_column_idxs p ! i < kind_count p (user_column_kinds p ! i)"
    using idx_less [OF assms(1)] by (simp add: columns_def)
  have keys: "\<forall>i \<in> set columns. user_column_kinds p ! i = KIND_PARTITION \<longrightarrow> i < length (column_values row) \<and>
      user_column_idxs p ! i < length (partition_columns p)"
    using less assms(2) by (auto simp: columns_def kind_count_def)
  have vecs: "\<forall>i \<in> set columns. user_column_kinds p ! i = KIND_VECTOR \<longrightarrow> user_column_idxs p ! i < length (vector_columns p) \<and>
      (other_type p (user_column_idxs p ! i) (decoded row i) \<longrightarrow> i < 16)"
    using less assms(7) by (auto simp: kind_count_def columns_def)
  have "vec0Update_Insert S R D p row db = Some (Inl SQLITE_ERROR, db)"
  proof (cases "\<exists>i \<in> set columns. user_column_kinds p ! i = KIND_PARTITION \<and>
      \<not> typed (partition_columns p ! (user_column_idxs p ! i)) (column_values row ! i)")
    case True
    then show ?thesis using read_typed_values_refuses [OF keys]
      by (simp add: vec0Update_Insert_def read_partition_keys_def columns_def [symmetric])
  next
    case False
    then obtain ks where "read_partition_keys p (column_values row) = Some (Inr ks)"
      using read_typed_values_ok [of columns p KIND_PARTITION "column_values row" "partition_columns p" SQLITE_ERROR Map.empty] keys
      by (auto simp: read_partition_keys_def columns_def)
    moreover have "\<exists>i \<in> set columns. user_column_kinds p ! i = KIND_VECTOR \<and> \<not> vector_fits p (user_column_idxs p ! i) (decoded row i)"
      using False assms(5,6) i by auto
    ultimately show ?thesis using read_vectors_refuses [OF vecs]
      by (simp add: vec0Update_Insert_def columns_def [symmetric])
  qed
  then show ?thesis using assms(4) by (simp add: vec0Update_def)
qed

theorem ill_typed_insert_is_refused_witness:
  "vec0Update store_api rows_api int_doubles one_column
     (More_arguments ((row_of 5 [1, 2])\<lparr>decoded := (\<lambda>_. Inr (FLOAT32, 2, [1, 2, 3, 4, 5, 6, 7, 8]))\<rparr>) (update_of null_value [])) one_row =
     Some (Inl SQLITE_ERROR, one_row)"
  by (rule ill_typed_insert_is_refused [of _ _ 0 _ 0])
    (use one_column_ok(1) in \<open>simp_all add: layout_ok_def\<close>,
      simp_all add: one_column_def row_of_def num_defined_user_columns_def update_of_def null_value_def vector_fits_def)

end
