(* ===== verification/VecQueryProperties.thy ===== *)
theory VecQueryProperties
  imports VecQuery VecTableProperties
begin

text \<open>
  What a query of a \<^verbatim>\<open>vec0\<close> table gives, from the plan to the rows the cursor walks through.
\<close>

subsection \<open>The plan\<close>

text \<open>
  C4: the plan that \<^verbatim>\<open>vec0BestIndex\<close> makes has the form that \<^verbatim>\<open>vec0Filter\<close> reads. Its arguments are different usable
  constraints, numbered from 1 in the order of their entries in the plan string and taken out of SQLite's hands; the
  other constraints are left to SQLite, and only an \<^verbatim>\<open>in (...)\<close> is passed whole. A search has exactly one query vector, of
  the vector column it names, and one number of rows, both first; every constraint with one of the six comparisons on a partition key, and every one on a metadata column or the distance,
  is among its arguments. A look-up has one argument, the row id, and any other plan has none.
\<close>

theorem plan_fits_the_filter:
  assumes "vec0BestIndex p info True = Inr plan"
  shows "\<exists>is. arguments_of info plan is \<and>
    (search_plan p info plan is \<or> point_plan info plan is \<or> is = [] \<and> idx_str plan = Some ''1'') \<and>
    (\<exists>str. idx_str plan = Some str \<and> length str = 1 + 4 * length is)"
proof -
  obtain "is" where "is": "arguments_of info plan is"
    "search_plan p info plan is \<or> point_plan info plan is \<or> is = [] \<and> idx_str plan = Some ''1''"
    using best_plan_ok [OF assms] by blast
  then have "\<exists>str. idx_str plan = Some str \<and> length str = 1 + 4 * length is"
    using search_plan_length [of p info plan "is"] by (auto simp: point_plan_def)
  then show ?thesis using "is" by blast
qed

text \<open>A search with a limit, a partition key and a list of row ids, and a constraint SQLite has to check.\<close>

definition some_constraints :: "index_constraint list" where
  "some_constraints =
     [\<lparr>usable = True, iColumn = 2, constraint_op = CONSTRAINT_EQ, vtab_in = False\<rparr>,
      \<lparr>usable = True, iColumn = 1, constraint_op = CONSTRAINT_MATCH, vtab_in = False\<rparr>,
      \<lparr>usable = False, iColumn = 2, constraint_op = CONSTRAINT_EQ, vtab_in = False\<rparr>,
      \<lparr>usable = True, iColumn = 0, constraint_op = CONSTRAINT_EQ, vtab_in = True\<rparr>,
      \<lparr>usable = True, iColumn = 0, constraint_op = CONSTRAINT_LIMIT, vtab_in = False\<rparr>]"

theorem plan_fits_the_filter_witness:
  "\<exists>is. arguments_of \<lparr>constraints = some_constraints, order_by = [], col_used = 1\<rparr>
      \<lparr>idx_num = 0, idx_str = Some ''3{___}___[___]Aa_'', arg_usage = [(4, True), (1, True), (0, False), (3, True), (2, True)], in_lists = [3]\<rparr> is"
proof -
  have "vec0BestIndex one_column \<lparr>constraints = some_constraints, order_by = [], col_used = 1\<rparr> True =
      Inr \<lparr>idx_num = 0, idx_str = Some ''3{___}___[___]Aa_'', arg_usage = [(4, True), (1, True), (0, False), (3, True), (2, True)],
        in_lists = [3]\<rparr>"
    by code_simp
  from plan_fits_the_filter [OF this] show ?thesis by blast
qed

text \<open>
  C1: a search with constraints on partition keys, run as SQLite runs it: the plan is made, the right-hand sides of its
  constraints are passed as it asks, the cursor is started and read to its end. That succeeds without an access out of
  bounds, and the rows shown are the nearest \<open>k\<close> of the rows whose partition keys satisfy all these constraints, or all of
  them, in order of distance and none twice; each column shown, the id, the distance, a vector, a partition key or an
  auxiliary value, is that of the row. The table has integer ids, no metadata column is constrained or shown, and no row that
  satisfies the constraints has a distance that is not a number, such as the cosine of a vector of zeros: a NaN among the
  candidates may displace the nearest row (lemma \<open>nan_first_candidate_wins\<close>).
\<close>

theorem query_shows_the_nearest_rows:
  fixes F :: "('r :: linorder f32, 'g :: linorder) float_api"
  assumes "query_store S rview R Q holds (length (partition_columns p))" and "layout_ok p" and "\<not> pk_is_text p"
    and "length (partition_columns p) \<le> 4" and "table_ok p (rview db)" and "values_ok p (rview db)"
    and "partition_query p info plan" and "arg_str args = idx_str plan" and "int (arg_num args) = idx_num plan"
    and "passed plan vals (argv args)" and "c = vector_columns p ! arg_num args" and "col_dimensions c \<le> 8192"
    and "given_vector args 0 = Inr (col_element_type c, col_dimensions c, query)" and "length query = column_byte_size c"
    and "\<forall>i < length (constraints info). usable (constraints info ! i) \<and> (constraint_op (constraints info ! i) = CONSTRAINT_LIMIT \<or>
      iColumn (constraints info ! i) = column_k_idx p) \<longrightarrow> value_int64 (vals i) = k" and "0 < k" and "k \<le> VEC0_K_MAX"
    and "\<forall>i \<in> set wanted. \<not> column_idx_is KIND_METADATA p i"
    and "\<forall>r \<in> partition_rows holds p (constraints info) vals (rview db).
      vector_distance F p (arg_num args) (col_metric c) query (the (table_rows p (rview db) r) ! arg_num args) \<noteq> NaN"
  shows "\<exists>cur' found. vec0Filter S R Q D F z db p args cur = Some (SQLITE_OK, cur') \<and>
    fetch (length found + 1) (read_row S R Q D db p wanted) cur' =
      Some (map (\<lambda>(d, r). map (\<lambda>i. (SQLITE_OK, row_column p (rview db) r (Result_float d) i)) wanted) found) \<and>
    nearest_rows (nat k) (\<lambda>r. vector_distance F p (arg_num args) (col_metric c) query (the (table_rows p (rview db) r) ! arg_num args))
      (partition_rows holds p (constraints info) vals (rview db)) found"
proof -
  obtain rowids distances used where f: "vec0Filter S R Q D F z db p args cur = Some (SQLITE_OK, (vec0_cursor_clear cur)\<lparr>query_plan := QUERY_PLAN_KNN,
      knn_data := Some \<lparr>knn_k = k, knn_used = used, knn_rowids = rowids, knn_distances = distances, current_idx = 0\<rparr>\<rparr>)"
    "used \<le> length rowids" "used \<le> length distances"
    "nearest_rows (nat k) (\<lambda>r. vector_distance F p (arg_num args) (col_metric c) query (the (table_rows p (rview db) r) ! arg_num args))
      (partition_rows holds p (constraints info) vals (rview db)) (neighbours distances rowids used)"
    using partition_query_ok [OF assms(1-5,7-17,19), of D z cur] by blast
  define cur' where "cur' = (vec0_cursor_clear cur)\<lparr>query_plan := QUERY_PLAN_KNN, knn_data :=
      Some \<lparr>knn_k = k, knn_used = used, knn_rowids = rowids, knn_distances = distances, current_idx = 0\<rparr>\<rparr>"
  have rows: "\<forall>(d, r) \<in> set (neighbours distances rowids used). table_rows p (rview db) r \<noteq> None"
    using f(4) unfolding nearest_rows_def by (fastforce simp: partition_rows_def table_rows_def)
  have cols: "columns_ok p" using assms(2) by (simp add: layout_ok_def)
  have "fetch (length (neighbours distances rowids used) + 1) (read_row S R Q D db p wanted) cur' =
      Some (map (\<lambda>(d, r). map (\<lambda>i. (SQLITE_OK, row_column p (rview db) r (Result_float d) i)) wanted) (neighbours distances rowids used))"
    by (rule search_fetch [OF assms(1) cols assms(3) refl assms(5,6,18) f(2,3) refl rows]) (simp_all add: cur'_def)
  then show ?thesis using f(1,4) unfolding cur'_def by blast
qed

text \<open>A search with a partition key in the table with one row.\<close>

definition some_search :: index_info where
  "some_search = \<lparr>constraints =
     [\<lparr>usable = True, iColumn = 2, constraint_op = CONSTRAINT_EQ, vtab_in = False\<rparr>,
      \<lparr>usable = True, iColumn = 1, constraint_op = CONSTRAINT_MATCH, vtab_in = False\<rparr>,
      \<lparr>usable = True, iColumn = 5, constraint_op = CONSTRAINT_EQ, vtab_in = False\<rparr>], order_by = [(4, False)], col_used = 1\<rparr>"

definition some_plan :: best_plan where
  "some_plan = \<lparr>idx_num = 0, idx_str = Some ''3{___}___]Aa_'', arg_usage = [(3, True), (1, True), (2, True)], in_lists = []\<rparr>"

definition some_values :: "nat \<Rightarrow> int sqlite_value" where
  "some_values i = [some_text, null_value, int_value 4] ! i"

definition some_args :: "int filter_args" where
  "some_args = \<lparr>arg_num = 0, arg_str = Some ''3{___}___]Aa_'', argv = [null_value, int_value 4, some_text],
     given_vector = (\<lambda>_. Inr (INT8, 2, [1, 1])), in_list = (\<lambda>_. ([], SQLITE_DONE))\<rparr>"

definition some_sizes :: alloc_sizes where
  "some_sizes = \<lparr>cursor_size = 48, data_size = 40, array_size = 32, in_item_size = 40, in_entry_size = 16\<rparr>"

definition closed_cursor :: "int f32 vec0_cursor" where
  "closed_cursor = \<lparr>query_plan = CHR 0x00, fullscan_data = None, knn_data = None, point_data = None\<rparr>"

lemma one_row_values: "values_ok one_column one_row"
  by (auto simp: values_ok_def one_row_def row_written_def chunk_added_def change_blobs_def no_rows_def split: if_splits)
    (simp_all add: one_column_def)

lemma some_search_plan: "partition_query one_column some_search some_plan"
proof -
  have "vec0BestIndex one_column some_search True = Inr some_plan" by code_simp
  moreover have "\<forall>c \<in> set (constraints some_search). \<not> rowid_in_constraint c \<and> (search_constraint one_column c \<longrightarrow> selects_partition one_column c)"
    by code_simp
  ultimately show ?thesis by (simp add: partition_query_def) (simp add: some_plan_def)
qed

lemma some_distances:
  assumes "r \<in> partition_rows int_holds one_column (constraints some_search) some_values one_row"
  shows "vector_distance int_arithmetic one_column 0 METRIC_L1 [1, 1] (the (table_rows one_column one_row r) ! 0) \<noteq> NaN"
proof -
  obtain vs where vs: "table_rows one_column one_row r = Some vs" using assms by (auto simp: partition_rows_def table_rows_def)
  have c: "vector_columns one_column ! 0 = \<lparr>col_dimensions = 2, col_element_type = INT8, col_metric = METRIC_L1\<rparr>" "0 < length (vector_columns one_column)"
    by (simp_all add: one_column_def)
  have "length (vs ! 0) = 2" using row_vectors_length [OF one_row_ok(1) vs c(2)] c(1) by (simp add: column_size_def column_byte_size_def vector_byte_size_def)
  then have "\<exists>v. row_distance int_arithmetic INT8 METRIC_L1 2 (vs ! 0) [1, 1] 0 = Some v"
    by (intro row_distance_total [of 0 1]) (simp_all add: vector_byte_size_def)
  then show ?thesis using vs c(1) by (auto simp: vector_distance_def row_distance_def int_arithmetic_def)
qed

theorem query_shows_the_nearest_rows_witness:
  "\<exists>cur' found. vec0Filter store_api rows_api tables_query int_doubles int_arithmetic some_sizes one_row one_column some_args closed_cursor =
      Some (SQLITE_OK, cur') \<and>
    fetch (length found + 1) (read_row store_api rows_api tables_query int_doubles one_row one_column [0, 4, 1, 2, 3]) cur' =
      Some (map (\<lambda>(d, r). map (\<lambda>i. (SQLITE_OK, row_column one_column one_row r (Result_float d) i)) [0, 4, 1, 2, 3]) found) \<and>
    nearest_rows 4 (\<lambda>r. vector_distance int_arithmetic one_column 0 METRIC_L1 [1, 1] (the (table_rows one_column one_row r) ! 0))
      (partition_rows int_holds one_column (constraints some_search) some_values one_row) found"
proof -
  have passed: "passed some_plan some_values (argv some_args)"
    by (simp add: passed_def some_plan_def some_args_def some_values_def less_Suc_eq numeral_3_eq_3)
  have k: "\<forall>i < length (constraints some_search). usable (constraints some_search ! i) \<and>
      (constraint_op (constraints some_search ! i) = CONSTRAINT_LIMIT \<or> iColumn (constraints some_search ! i) = column_k_idx one_column) \<longrightarrow>
      value_int64 (some_values i) = 4"
    by (simp add: some_search_def some_values_def less_Suc_eq column_k_idx_def num_defined_user_columns_def one_column_def int_value_def)
  have c: "vector_columns one_column ! arg_num some_args = \<lparr>col_dimensions = 2, col_element_type = INT8, col_metric = METRIC_L1\<rparr>"
    by (simp add: one_column_def some_args_def)
  have wanted: "\<forall>i \<in> set [0, 4, 1, 2, 3]. \<not> column_idx_is KIND_METADATA one_column i" by code_simp
  have eqs: "arg_str some_args = idx_str some_plan" "int (arg_num some_args) = idx_num some_plan"
    by (simp_all add: some_args_def some_plan_def)
  have q: "given_vector some_args 0 = Inr (col_element_type \<lparr>col_dimensions = 2, col_element_type = INT8, col_metric = METRIC_L1\<rparr>,
      col_dimensions \<lparr>col_dimensions = 2, col_element_type = INT8, col_metric = METRIC_L1\<rparr>, [1, 1])"
    and l: "length [1, 1 :: byte] = column_byte_size \<lparr>col_dimensions = 2, col_element_type = INT8, col_metric = METRIC_L1\<rparr>"
    by (simp_all add: some_args_def column_byte_size_def vector_byte_size_def)
  have p: "length (partition_columns one_column) \<le> 4" "length (partition_columns one_column) = 1" "arg_num some_args = 0"
    by (simp_all add: one_column_def some_args_def)
  have z: "col_metric \<lparr>col_dimensions = 2, col_element_type = INT8, col_metric = METRIC_L1\<rparr> = METRIC_L1"
    "nat 4 = 4" by simp_all
  have big: "col_dimensions \<lparr>col_dimensions = 2, col_element_type = INT8, col_metric = METRIC_L1\<rparr> \<le> 8192" "0 < (4 :: int)" "4 \<le> VEC0_K_MAX"
    by simp_all
  show ?thesis
    using query_shows_the_nearest_rows [OF table_queries.query_store_axioms one_column_ok(1,3) p(1) one_row_ok(1) one_row_values some_search_plan eqs
        passed c [symmetric] big(1) q l k big(2,3) wanted, of int_arithmetic int_doubles some_sizes closed_cursor] some_distances
    unfolding p(3) z by blast
qed

subsection \<open>Looking up and scanning\<close>

text \<open>
  C7: a query for one row id, from its plan to the last column read: it shows exactly the row with that id, every column
  that of the row and the distance null, and nothing, without an error, when there is no such row. (Tables with integer ids;
  no metadata column is shown.)
\<close>

theorem lookup_shows_the_row:
  fixes F :: "('r :: ord, 'g :: linorder) float_api"
  assumes "query_store S rview R Q holds (length (partition_columns p))" and "columns_ok p" and "\<not> pk_is_text p"
    and "vector_columns p \<noteq> []" and "table_ok p (rview db)" and "values_ok p (rview db)"
    and "vec0BestIndex p info True = Inr plan" and "hd (the (idx_str plan)) = QUERY_PLAN_POINT"
    and "arg_str args = idx_str plan" and "passed plan vals (argv args)"
    and "\<forall>i \<in> set wanted. \<not> column_idx_is KIND_METADATA p i"
  shows "\<exists>cur' c. vec0Filter S R Q D F z db p args cur = Some (SQLITE_OK, cur') \<and>
    c < length (constraints info) \<and> constraint_op (constraints info ! c) = CONSTRAINT_EQ \<and> iColumn (constraints info ! c) = VEC0_COLUMN_ID \<and>
    fetch 2 (read_row S R Q D db p wanted) cur' =
      Some (if table_rows p (rview db) (value_int64 (vals c)) = None then []
            else [map (\<lambda>i. (SQLITE_OK, row_column p (rview db) (value_int64 (vals c)) (Result_null :: ('r, 'g) column_result) i)) wanted])"
proof -
  obtain "is" where a: "arguments_of info plan is" and "search_plan p info plan is \<or> point_plan info plan is \<or> is = [] \<and> idx_str plan = Some ''1''"
    using best_plan_ok [OF assms(7)] by blast
  then have "point_plan info plan is" using assms(8) by (auto simp: search_plan_def)
  then obtain c where c: "is = [c]" "idx_str plan = Some ''2!___''" "constraint_op (constraints info ! c) = CONSTRAINT_EQ"
    "iColumn (constraints info ! c) = VEC0_COLUMN_ID" by (auto simp: point_plan_def)
  have "c < length (constraints info)" "argv args = [vals c]"
    using a passed_arguments [OF a assms(10)] c(1) by (simp_all add: arguments_of_def)
  moreover from this have "vec0Filter S R Q D F z db p args cur = vec0Filter_point S R db p [vals c] (data_size z) (vec0_cursor_clear cur)"
    using c(2) assms(9) by (simp add: vec0Filter_def)
  ultimately show ?thesis
    using lookup_fetch [OF assms(1-6,11), of "vals c" "data_size z" "vec0_cursor_clear cur" D] c(3,4) by metis
qed

definition id_constraint :: index_constraint where
  "id_constraint = \<lparr>usable = True, iColumn = 0, constraint_op = CONSTRAINT_EQ, vtab_in = False\<rparr>"

theorem lookup_shows_the_row_witness:
  "\<exists>cur' c. vec0Filter store_api rows_api tables_query int_doubles int_arithmetic some_sizes one_row one_column
      (some_args\<lparr>arg_str := Some ''2!___'', argv := [int_value 7]\<rparr>) closed_cursor = Some (SQLITE_OK, cur') \<and>
    c < length [id_constraint] \<and> constraint_op ([id_constraint] ! c) = CONSTRAINT_EQ \<and> iColumn ([id_constraint] ! c) = VEC0_COLUMN_ID \<and>
    fetch 2 (read_row store_api rows_api tables_query int_doubles one_row one_column [0, 1, 2, 3, 4]) cur' =
      Some (if table_rows one_column one_row (value_int64 ((\<lambda>_. int_value 7) c)) = None then []
            else [map (\<lambda>i. (SQLITE_OK, row_column one_column one_row (value_int64 ((\<lambda>_. int_value 7) c)) Result_null i)) [0, 1, 2, 3, 4]])"
proof -
  have plan: "vec0BestIndex one_column \<lparr>constraints = [id_constraint], order_by = [], col_used = 1\<rparr> True =
      Inr \<lparr>idx_num = 1, idx_str = Some ''2!___'', arg_usage = [(1, True)], in_lists = []\<rparr>" by code_simp
  have wanted: "\<forall>i \<in> set [0, 1, 2, 3, 4]. \<not> column_idx_is KIND_METADATA one_column i" by code_simp
  have cols: "columns_ok one_column" "vector_columns one_column \<noteq> []"
    using one_column_ok(1) by (simp_all add: layout_ok_def one_column_def)
  show ?thesis
    using lookup_shows_the_row [OF table_queries.query_store_axioms cols(1) one_column_ok(3) cols(2) one_row_ok(1) one_row_values plan _ _ _ wanted,
      of "some_args\<lparr>arg_str := Some ''2!___'', argv := [int_value 7]\<rparr>" "\<lambda>_. int_value 7" int_doubles int_arithmetic some_sizes closed_cursor]
    by (simp add: passed_def del: fetch.simps)
qed

text \<open>
  C8: a query with no usable constraint walks through the whole table: it shows every row once and ends, and each column
  shown is that of the row, the distance null. (Tables with integer ids; no metadata column is shown.)
\<close>

theorem scan_shows_every_row_once:
  fixes F :: "('r :: ord, 'g :: linorder) float_api"
  assumes "query_store S rview R Q holds (length (partition_columns p))" and "columns_ok p" and "\<not> pk_is_text p"
    and "table_ok p (rview db)" and "values_ok p (rview db)"
    and "vec0BestIndex p info True = Inr plan" and "hd (the (idx_str plan)) = QUERY_PLAN_FULLSCAN"
    and "arg_str args = idx_str plan" and "passed plan vals (argv args)"
    and "\<forall>i \<in> set wanted. \<not> column_idx_is KIND_METADATA p i"
  shows "\<exists>cur' rs. vec0Filter S R Q D F z db p args cur = Some (SQLITE_OK, cur') \<and>
    fetch (length rs + 1) (read_row S R Q D db p wanted) cur' =
      Some (map (\<lambda>r. map (\<lambda>i. (SQLITE_OK, row_column p (rview db) r (Result_null :: ('r, 'g) column_result) i)) wanted) rs) \<and>
    distinct rs \<and> set rs = dom (table_rows p (rview db))"
proof -
  obtain "is" where a: "arguments_of info plan is" and "search_plan p info plan is \<or> point_plan info plan is \<or> is = [] \<and> idx_str plan = Some ''1''"
    using best_plan_ok [OF assms(6)] by blast
  then have c: "is = []" "idx_str plan = Some ''1''" using assms(7) by (auto simp: search_plan_def point_plan_def)
  then have "argv args = []" using passed_arguments [OF a assms(9)] by simp
  then show ?thesis
    using scan_fetch [OF assms(1-5,10), of "data_size z" "vec0_cursor_clear cur" D] c(2) assms(8) by (simp add: vec0Filter_def)
qed

theorem scan_shows_every_row_once_witness:
  "\<exists>cur' rs. vec0Filter store_api rows_api tables_query int_doubles int_arithmetic some_sizes one_row one_column
      (some_args\<lparr>arg_str := Some ''1'', argv := []\<rparr>) closed_cursor = Some (SQLITE_OK, cur') \<and>
    fetch (length rs + 1) (read_row store_api rows_api tables_query int_doubles one_row one_column [0, 1, 2, 3, 4]) cur' =
      Some (map (\<lambda>r. map (\<lambda>i. (SQLITE_OK, row_column one_column one_row r Result_null i)) [0, 1, 2, 3, 4]) rs) \<and>
    distinct rs \<and> set rs = dom (table_rows one_column one_row)"
proof -
  have plan: "vec0BestIndex one_column \<lparr>constraints = [], order_by = [], col_used = 1\<rparr> True =
      Inr \<lparr>idx_num = 0, idx_str = Some ''1'', arg_usage = [], in_lists = []\<rparr>" by code_simp
  have wanted: "\<forall>i \<in> set [0, 1, 2, 3, 4]. \<not> column_idx_is KIND_METADATA one_column i" by code_simp
  have cols: "columns_ok one_column" using one_column_ok(1) by (simp add: layout_ok_def)
  show ?thesis
    using scan_shows_every_row_once [OF table_queries.query_store_axioms cols one_column_ok(3) one_row_ok(1) one_row_values plan _ _ _ wanted,
      of "some_args\<lparr>arg_str := Some ''1'', argv := []\<rparr>" "\<lambda>_. int_value 4" int_doubles int_arithmetic some_sizes closed_cursor]
    by (simp add: passed_def del: fetch.simps)
qed

subsection \<open>An unknown id\<close>

lemma map_sum_Inl: "(\<exists>e. map_sum id f x = Inl e) \<longleftrightarrow> (\<exists>e. x = Inl e)"
  by (cases x) simp_all

lemma read_in_list_fails:
  "v \<in> set vs \<Longrightarrow> convert v = Inl e \<Longrightarrow> \<exists>rc. read_in_list S db n convert vs rc0 a = Inl rc"
  by (induction vs arbitrary: a) (auto split: sum.split option.split)

text \<open>
  C37: in a table with text ids, a search restricted by \<open>id in (...)\<close> to ids of which one is not in the table, or cannot be
  looked up, reports success and shows no row at all, whatever rows the other ids have.
\<close>

theorem unknown_id_empties_the_search:
  fixes F :: "('r :: ord, 'g :: linorder) float_api"
  assumes "pk_is_text p" and "arg_num args < length (vector_columns p)" and "malloc S db (data_size z)"
    and "arg_str args = Some ''3{___}___[___''" and "argv args = [v, kv, ids]"
    and "search_input (vector_columns p ! arg_num args) (given_vector args 0) kv = Inr (bytes, k)" and "k \<noteq> 0"
    and "unknown \<in> set (fst (in_list args 2))" and "vec0_rowid_from_id R db unknown = Inl rc"
  shows "\<exists>cur'. vec0Filter S R Q D F z db p args cur = Some (SQLITE_OK, cur') \<and> fetch 1 read cur' = Some []"
proof -
  define idxStr where "idxStr = ''3{___}___[___''"
  have kinds: "last_of_kind idxStr (Suc (Suc (Suc 0))) IDXSTR_KIND_KNN_MATCH = Some 0"
    "last_of_kind idxStr (Suc (Suc (Suc 0))) IDXSTR_KIND_KNN_K = Some 1"
    "last_of_kind idxStr (Suc (Suc (Suc 0))) IDXSTR_KIND_KNN_ROWID_IN = Some 2" "(length idxStr - 1) div 4 = 3"
    by (simp_all add: last_of_kind_def idxStr_def idx_char_def item_at_def)
  have "\<exists>e. read_in_list S db 8 (vec0_rowid_from_id R db) (fst (in_list args 2)) (snd (in_list args 2)) a = Inl e" for a
    by (rule read_in_list_fails [OF assms(8), of "vec0_rowid_from_id R db", OF assms(9)])
  then have "\<exists>e. read_rowids_in S R db p (array_size z) (in_list args 2) = Inl e"
    by (auto simp: read_rowids_in_def assms(1) map_sum_Inl split: option.split)
  then obtain e where "read_rowids_in S R db p (array_size z) (in_list args 2) = Inl e" by blast
  then have "vec0Filter_knn S R Q D F z db p args idxStr (vec0_cursor_clear cur) = Some (SQLITE_OK, vec0_cursor_clear cur)"
    using assms(2,3,5,6,7) kinds by (simp add: vec0Filter_knn_def item_at_def)
  moreover have "vec0Eof (vec0_cursor_clear cur)" by (simp add: vec0Eof_def vec0_cursor_clear_def)
  ultimately show ?thesis using assms(4,5) by (simp add: vec0Filter_def idxStr_def)
qed

text \<open>The table of text ids knows the first id and not the second.\<close>

theorem unknown_id_empties_the_search_witness:
  "\<exists>cur'. vec0Filter store_api (rows_api\<lparr>select_rowid := \<lambda>_ v. Inr (if v = some_text then Some 4 else None)\<rparr>) tables_query int_doubles
      int_arithmetic some_sizes one_row (one_column\<lparr>pk_is_text := True\<rparr>)
      (some_args\<lparr>arg_str := Some ''3{___}___[___'', argv := [null_value, int_value 4, null_value], in_list := \<lambda>_. ([some_text, null_value], SQLITE_DONE)\<rparr>)
      closed_cursor = Some (SQLITE_OK, cur') \<and> fetch 1 (\<lambda>_. None :: unit option) cur' = Some []"
proof -
  define p where "p = one_column\<lparr>pk_is_text := True\<rparr>"
  define R where "R = rows_api\<lparr>select_rowid := \<lambda>_ v. Inr (if v = some_text then Some 4 else None :: int option)\<rparr>"
  define args where "args = some_args\<lparr>arg_str := Some ''3{___}___[___'', argv := [null_value, int_value 4, null_value],
    in_list := \<lambda>_. ([some_text, null_value], SQLITE_DONE)\<rparr>"
  have "null_value \<noteq> some_text" by (simp add: null_value_def some_text_def)
  then have id: "vec0_rowid_from_id R one_row null_value = Inl SQLITE_EMPTY"
    by (simp add: vec0_rowid_from_id_def R_def rows_api_def)
  have p: "pk_is_text p" "arg_num args < length (vector_columns p)" "malloc store_api one_row (data_size some_sizes)"
    "arg_str args = Some ''3{___}___[___''" "argv args = [null_value, int_value 4, null_value]" "null_value \<in> set (fst (in_list args 2))"
    by (simp_all add: p_def args_def some_args_def one_column_def store_api_def)
  have s: "search_input (vector_columns p ! arg_num args) (given_vector args 0) (int_value 4) = Inr ([1, 1], 4)"
    by (simp add: p_def args_def some_args_def one_column_def search_input_def int_value_def)
  have four: "(4 :: int) \<noteq> 0" by simp
  from unknown_id_empties_the_search [OF p(1-5) s four p(6) id, of tables_query int_doubles int_arithmetic closed_cursor "\<lambda>_. None :: unit option"]
  have "\<exists>cur'. vec0Filter store_api R tables_query int_doubles int_arithmetic some_sizes one_row p args closed_cursor = Some (SQLITE_OK, cur') \<and>
      fetch 1 (\<lambda>_. None :: unit option) cur' = Some []" .
  then show ?thesis unfolding p_def R_def args_def .
qed

end
