(* ===== verification/VecParse.thy ===== *)
theory VecParse
  imports VecTableMap
begin

text \<open>
  Reading the arguments of \<^verbatim>\<open>CREATE VIRTUAL TABLE ... USING vec0(...)\<close> (\<^verbatim>\<open>crates/cli/vendor-sqlite-vec/sqlite-vec.c\<close>):
  the tokens and the definitions of vector, partition key, primary key, auxiliary and metadata columns and of the table
  options. A \<^verbatim>\<open>char *\<close> into the argument is the text from there to its end. Each parser keeps one \<^verbatim>\<open>struct Vec0Token\<close>,
  not initialised, that a call which finds no token leaves as it is; most tests of it are written
  \<^verbatim>\<open>rc != VEC0_TOKEN_RESULT_SOME && token.token_type != ...\<close>, so they accept any token, and at the end of the text look at
  the token before. Outer \<open>None\<close>: the token is read before one was found, or \<^verbatim>\<open>atoi\<close> overflows.
  \<^verbatim>\<open>sqlite3_strnicmp(a, b, n) == 0\<close> is the argument \<open>same\<close>.
\<close>

abbreviation (input) SQLITE_BLOB :: int where "SQLITE_BLOB \<equiv> 4"

subsection \<open>Tokens\<close>

datatype token_type =
  TOKEN_TYPE_IDENTIFIER | TOKEN_TYPE_DIGIT | TOKEN_TYPE_LBRACKET | TOKEN_TYPE_RBRACKET | TOKEN_TYPE_PLUS | TOKEN_TYPE_EQ

record vec0_token =
  token_type :: token_type
  token_start :: string
  token_length :: nat

definition is_alpha :: "char \<Rightarrow> bool" where
  "is_alpha x \<longleftrightarrow> (let n = (of_char x :: nat) in 97 \<le> n \<and> n \<le> 122 \<or> 65 \<le> n \<and> n \<le> 90)"

definition is_digit :: "char \<Rightarrow> bool" where
  "is_digit x \<longleftrightarrow> (let n = (of_char x :: nat) in 48 \<le> n \<and> n \<le> 57)"

definition is_whitespace :: "char \<Rightarrow> bool" where
  "is_whitespace x \<longleftrightarrow> x \<in> {CHR '' '', CHR 0x09, CHR 0x0A, CHR 0x0D}"

datatype token_result = Token_EOF | Token_SOME vec0_token | Token_ERROR

abbreviation (input) is_word_char :: "char \<Rightarrow> bool" where
  "is_word_char x \<equiv> is_alpha x \<or> is_digit x \<or> x = CHR ''_''"

fun vec0_token_next :: "string \<Rightarrow> token_result" where
  "vec0_token_next [] = Token_EOF"
| "vec0_token_next (c # cs) =
     (let symbol = (\<lambda>type. Token_SOME \<lparr>token_type = type, token_start = cs, token_length = 0\<rparr>)
      in if is_whitespace c then vec0_token_next cs
         else if c = CHR ''+'' then symbol TOKEN_TYPE_PLUS
         else if c = CHR ''['' then symbol TOKEN_TYPE_LBRACKET
         else if c = CHR '']'' then symbol TOKEN_TYPE_RBRACKET
         else if c = CHR ''='' then symbol TOKEN_TYPE_EQ
         else if is_alpha c
         then Token_SOME \<lparr>token_type = TOKEN_TYPE_IDENTIFIER, token_start = c # cs,
                token_length = length (takeWhile (\<lambda>x. is_word_char x) (c # cs))\<rparr>
         else if is_digit c
         then Token_SOME \<lparr>token_type = TOKEN_TYPE_DIGIT, token_start = c # cs, token_length = length (takeWhile is_digit (c # cs))\<rparr>
         else Token_ERROR)"

text \<open>\<^verbatim>\<open>token.end\<close> is where the next token is looked for.\<close>

definition token_end :: "vec0_token \<Rightarrow> string" where
  "token_end t = drop (token_length t) (token_start t)"

text \<open>\<^verbatim>\<open>struct Vec0Scanner\<close> and the token of the function that uses it.\<close>

record vec0_scanner =
  scan_from :: string
  last_token :: "vec0_token option"

definition vec0_scanner_init :: "string \<Rightarrow> vec0_scanner" where
  "vec0_scanner_init source = \<lparr>scan_from = source, last_token = None\<rparr>"

definition vec0_scanner_next :: "vec0_scanner \<Rightarrow> token_result \<times> vec0_scanner" where
  "vec0_scanner_next s =
     (case vec0_token_next (scan_from s) of
        Token_SOME t \<Rightarrow> (Token_SOME t, \<lparr>scan_from = token_end t, last_token = Some t\<rparr>)
      | rc \<Rightarrow> (rc, s))"

subsection \<open>Expecting a token\<close>

text \<open>The two forms of the test that follows a call of \<^verbatim>\<open>vec0_scanner_next\<close>; \<open>e\<close> is returned when it fails.\<close>

definition expect_and :: "token_type set \<Rightarrow> int \<Rightarrow> vec0_scanner \<Rightarrow> (int + vec0_token \<times> vec0_scanner) option" where
  "expect_and types e s =
     (case vec0_scanner_next s of
        (Token_SOME t, s') \<Rightarrow> Some (Inr (t, s'))
      | (_, s') \<Rightarrow>
          (case last_token s' of
             None \<Rightarrow> None
           | Some t \<Rightarrow> Some (if token_type t \<notin> types then Inl e else Inr (t, s'))))"

definition expect_or :: "token_type \<Rightarrow> int \<Rightarrow> vec0_scanner \<Rightarrow> (int + vec0_token \<times> vec0_scanner) option" where
  "expect_or type e s =
     (case vec0_scanner_next s of
        (Token_SOME t, s') \<Rightarrow> Some (if token_type t \<noteq> type then Inl e else Inr (t, s'))
      | _ \<Rightarrow> Some (Inl e))"

definition and_then :: "(int + 'a) option \<Rightarrow> ('a \<Rightarrow> (int + 'b) option) \<Rightarrow> (int + 'b) option" where
  "and_then x f = (case x of None \<Rightarrow> None | Some (Inl rc) \<Rightarrow> Some (Inl rc) | Some (Inr y) \<Rightarrow> f y)"

type_synonym strnicmp = "string \<Rightarrow> string \<Rightarrow> nat \<Rightarrow> bool"

definition token_is :: "strnicmp \<Rightarrow> vec0_token \<Rightarrow> string \<Rightarrow> bool" where
  "token_is same t word = same (token_start t) word (token_length t)"

definition token_text :: "vec0_token \<Rightarrow> string" where
  "token_text t = take (token_length t) (token_start t)"

subsection \<open>The definitions of a table\<close>

definition vec0_parse_table_option :: "string \<Rightarrow> (int + vec0_token \<times> vec0_token) option" where
  "vec0_parse_table_option source =
     and_then (expect_and {TOKEN_TYPE_IDENTIFIER} SQLITE_EMPTY (vec0_scanner_init source)) (\<lambda>(key, s1).
     and_then (expect_and {TOKEN_TYPE_EQ} SQLITE_EMPTY s1) (\<lambda>(_, s2).
     and_then (expect_and {TOKEN_TYPE_IDENTIFIER, TOKEN_TYPE_DIGIT} SQLITE_ERROR s2) (\<lambda>(value, s3).
       Some (if fst (vec0_scanner_next s3) = Token_EOF then Inr (key, value) else Inl SQLITE_ERROR))))"

text \<open>
  A partition key and a primary key differ in the word before \<^verbatim>\<open>key\<close> only. The result is the name and the type.
\<close>

definition key_type :: "strnicmp \<Rightarrow> vec0_token \<Rightarrow> int option" where
  "key_type same t =
     (if token_is same t ''text'' then Some SQLITE_TEXT
      else if token_is same t ''int'' \<or> token_is same t ''integer'' then Some SQLITE_INTEGER
      else None)"

definition key_definition :: "strnicmp \<Rightarrow> string \<Rightarrow> string \<Rightarrow> (int + string \<times> int) option" where
  "key_definition same word source =
     and_then (expect_and {TOKEN_TYPE_IDENTIFIER} SQLITE_EMPTY (vec0_scanner_init source)) (\<lambda>(name, s1).
     and_then (expect_and {TOKEN_TYPE_IDENTIFIER} SQLITE_EMPTY s1) (\<lambda>(type, s2).
       case key_type same type of
         None \<Rightarrow> Some (Inl SQLITE_EMPTY)
       | Some column_type \<Rightarrow>
           and_then (expect_and {TOKEN_TYPE_IDENTIFIER} SQLITE_EMPTY s2) (\<lambda>(first, s3).
             if \<not> token_is same first word then Some (Inl SQLITE_EMPTY)
             else and_then (expect_and {TOKEN_TYPE_IDENTIFIER} SQLITE_EMPTY s3) (\<lambda>(second, _).
               if \<not> token_is same second ''key'' then Some (Inl SQLITE_EMPTY)
               else Some (Inr (token_text name, column_type))))))"

definition vec0_parse_partition_key_definition :: "strnicmp \<Rightarrow> string \<Rightarrow> (int + string \<times> int) option" where
  "vec0_parse_partition_key_definition same = key_definition same ''partition''"

definition vec0_parse_primary_key_definition :: "strnicmp \<Rightarrow> string \<Rightarrow> (int + string \<times> int) option" where
  "vec0_parse_primary_key_definition same = key_definition same ''primary''"

definition auxiliary_type :: "strnicmp \<Rightarrow> vec0_token \<Rightarrow> int option" where
  "auxiliary_type same t =
     (if token_is same t ''text'' then Some SQLITE_TEXT
      else if token_is same t ''int'' \<or> token_is same t ''integer'' then Some SQLITE_INTEGER
      else if token_is same t ''float'' \<or> token_is same t ''double'' then Some SQLITE_FLOAT
      else if token_is same t ''blob'' then Some SQLITE_BLOB
      else None)"

definition vec0_parse_auxiliary_column_definition :: "strnicmp \<Rightarrow> string \<Rightarrow> (int + string \<times> int) option" where
  "vec0_parse_auxiliary_column_definition same source =
     and_then (expect_or TOKEN_TYPE_PLUS SQLITE_EMPTY (vec0_scanner_init source)) (\<lambda>(_, s1).
     and_then (expect_and {TOKEN_TYPE_IDENTIFIER} SQLITE_EMPTY s1) (\<lambda>(name, s2).
     and_then (expect_and {TOKEN_TYPE_IDENTIFIER} SQLITE_EMPTY s2) (\<lambda>(type, _).
       case auxiliary_type same type of
         None \<Rightarrow> Some (Inl SQLITE_EMPTY)
       | Some column_type \<Rightarrow> Some (Inr (token_text name, column_type)))))"

definition metadata_type :: "strnicmp \<Rightarrow> vec0_token \<Rightarrow> metadata_kind option" where
  "metadata_type same t =
     (if token_is same t ''boolean'' \<or> token_is same t ''bool'' then Some KIND_BOOLEAN
      else if token_is same t ''int64'' \<or> token_is same t ''integer64'' \<or> token_is same t ''integer'' \<or> token_is same t ''int''
      then Some KIND_INTEGER
      else if token_is same t ''float'' \<or> token_is same t ''double'' \<or> token_is same t ''float64'' \<or> token_is same t ''f64''
      then Some KIND_FLOAT
      else if token_is same t ''text'' then Some KIND_TEXT
      else None)"

definition vec0_parse_metadata_column_definition :: "strnicmp \<Rightarrow> string \<Rightarrow> (int + string \<times> metadata_kind) option" where
  "vec0_parse_metadata_column_definition same source =
     and_then (expect_or TOKEN_TYPE_IDENTIFIER SQLITE_EMPTY (vec0_scanner_init source)) (\<lambda>(name, s1).
     and_then (expect_or TOKEN_TYPE_IDENTIFIER SQLITE_EMPTY s1) (\<lambda>(type, _).
       case metadata_type same type of
         None \<Rightarrow> Some (Inl SQLITE_EMPTY)
       | Some kind \<Rightarrow> Some (Inr (token_text name, kind))))"

subsection \<open>Vector columns\<close>

text \<open>\<^verbatim>\<open>atoi\<close>: blanks, a sign, digits up to the first other character; the behaviour of a number that is no \<^verbatim>\<open>int\<close> is undefined.\<close>

definition is_space :: "char \<Rightarrow> bool" where
  "is_space x \<longleftrightarrow> x \<in> {CHR '' '', CHR 0x09, CHR 0x0A, CHR 0x0B, CHR 0x0C, CHR 0x0D}"

definition digits_value :: "string \<Rightarrow> int" where
  "digits_value ds = foldl (\<lambda>n d. 10 * n + (of_char d - 48)) 0 ds"

definition atoi :: "string \<Rightarrow> int option" where
  "atoi s =
     (let s1 = dropWhile is_space s;
          negative = (s1 \<noteq> [] \<and> hd s1 = CHR ''-'');
          s2 = (if s1 \<noteq> [] \<and> hd s1 \<in> {CHR ''-'', CHR ''+''} then tl s1 else s1);
          n = (if negative then - 1 else 1) * digits_value (takeWhile is_digit s2)
      in if n < - (2 ^ 31) \<or> n \<ge> 2 ^ 31 then None else Some n)"

definition vector_element_type_of :: "strnicmp \<Rightarrow> vec0_token \<Rightarrow> vector_element_type option" where
  "vector_element_type_of same t =
     (if same (token_start t) ''float'' 5 \<or> same (token_start t) ''f32'' 3 then Some FLOAT32
      else if same (token_start t) ''int8'' 4 \<or> same (token_start t) ''i8'' 2 then Some INT8
      else if same (token_start t) ''bit'' 3 then Some BIT
      else None)"

definition metric_of :: "strnicmp \<Rightarrow> vec0_token \<Rightarrow> distance_metric option" where
  "metric_of same t =
     (if token_is same t ''l2'' then Some METRIC_L2
      else if token_is same t ''l1'' then Some METRIC_L1
      else if token_is same t ''cosine'' then Some METRIC_COSINE
      else None)"

text \<open>One pass of the loop over the options; \<open>Inr None\<close> is the end of the text.\<close>

definition column_option ::
  "strnicmp \<Rightarrow> vector_element_type \<Rightarrow> vec0_scanner \<Rightarrow> (int + (distance_metric \<times> vec0_scanner) option) option" where
  "column_option same elementType s =
     (if fst (vec0_scanner_next s) = Token_EOF then Some (Inr None)
      else and_then (expect_and {TOKEN_TYPE_IDENTIFIER} SQLITE_ERROR s) (\<lambda>(key, s1).
        if \<not> token_is same key ''distance_metric'' then Some (Inl SQLITE_ERROR)
        else if elementType = BIT then Some (Inl SQLITE_ERROR)
        else and_then (expect_and {TOKEN_TYPE_EQ} SQLITE_ERROR s1) (\<lambda>(_, s2).
          and_then (expect_and {TOKEN_TYPE_IDENTIFIER} SQLITE_ERROR s2) (\<lambda>(value, s3).
            case metric_of same value of
              None \<Rightarrow> Some (Inl SQLITE_ERROR)
            | Some metric \<Rightarrow> Some (Inr (Some (metric, s3)))))))"

lemma scanner_next_shorter:
  "vec0_token_next cs = Token_SOME t \<Longrightarrow> length (token_end t) < length cs"
proof (induction cs rule: vec0_token_next.induct)
  case (2 c cs)
  show ?case
  proof (cases "is_whitespace c")
    case True
    then show ?thesis using 2 by simp
  next
    case False
    have "length (takeWhile P (c # cs)) \<ge> 1" if "P c" for P using that by simp
    then show ?thesis using 2(2) False by (auto simp: token_end_def Let_def split: if_splits)
  qed
qed simp

lemma expect_and_shorter:
  assumes "expect_and types e s = Some (Inr (t, s'))"
  shows "length (scan_from s') < length (scan_from s) \<or> s' = s \<and> last_token s = Some t \<and> token_type t \<in> types"
    and "last_token s' = Some t"
  using assms scanner_next_shorter [of "scan_from s"]
  by (auto simp: expect_and_def vec0_scanner_next_def split: token_result.splits option.splits if_splits)

lemma and_then_Some: "and_then x f = Some (Inr z) \<longleftrightarrow> (\<exists>y. x = Some (Inr y) \<and> f y = Some (Inr z))"
  by (auto simp: and_then_def split: option.splits sum.splits)

lemma column_option_shorter:
  assumes "column_option same elementType s = Some (Inr (Some (metric, s')))"
  shows "length (scan_from s') < length (scan_from s)"
proof -
  obtain key s1 eq s2 val where e: "expect_and {TOKEN_TYPE_IDENTIFIER} SQLITE_ERROR s = Some (Inr (key, s1))"
    "expect_and {TOKEN_TYPE_EQ} SQLITE_ERROR s1 = Some (Inr (eq, s2))"
    "expect_and {TOKEN_TYPE_IDENTIFIER} SQLITE_ERROR s2 = Some (Inr (val, s'))"
    using assms by (auto simp: column_option_def and_then_Some split: if_splits option.splits)
  show ?thesis
    using expect_and_shorter [OF e(1)] expect_and_shorter [OF e(2)] expect_and_shorter [OF e(3)] by auto
qed

function column_options :: "strnicmp \<Rightarrow> vector_element_type \<Rightarrow> distance_metric \<Rightarrow> vec0_scanner \<Rightarrow> (int + distance_metric) option" where
  "column_options same elementType metric s =
     (case column_option same elementType s of
        None \<Rightarrow> None
      | Some (Inl rc) \<Rightarrow> Some (Inl rc)
      | Some (Inr None) \<Rightarrow> Some (Inr metric)
      | Some (Inr (Some (metric', s'))) \<Rightarrow> column_options same elementType metric' s')"
  by pat_completeness auto
termination
  by (relation "measure (\<lambda>(_, _, _, s). length (scan_from s))") (auto simp: column_option_shorter)

definition vec0_parse_vector_column :: "strnicmp \<Rightarrow> (string \<Rightarrow> bool) \<Rightarrow> string \<Rightarrow> (int + string \<times> vector_column) option" where
  "vec0_parse_vector_column same name_ok source =
     and_then (expect_and {TOKEN_TYPE_IDENTIFIER} SQLITE_EMPTY (vec0_scanner_init source)) (\<lambda>(name, s1).
     and_then (expect_or TOKEN_TYPE_IDENTIFIER SQLITE_EMPTY s1) (\<lambda>(type, s2).
       case vector_element_type_of same type of
         None \<Rightarrow> Some (Inl SQLITE_EMPTY)
       | Some elementType \<Rightarrow>
           and_then (expect_and {TOKEN_TYPE_LBRACKET} SQLITE_EMPTY s2) (\<lambda>(_, s3).
           and_then (expect_and {TOKEN_TYPE_DIGIT} SQLITE_ERROR s3) (\<lambda>(number, s4).
             case atoi (token_start number) of
               None \<Rightarrow> None
             | Some dimensions \<Rightarrow>
                 if dimensions \<le> 0 then Some (Inl SQLITE_ERROR)
                 else and_then (expect_and {TOKEN_TYPE_RBRACKET} SQLITE_ERROR s4) (\<lambda>(_, s5).
                   and_then (column_options same elementType METRIC_L2 s5) (\<lambda>metric.
                     if \<not> name_ok (token_text name) then Some (Inl SQLITE_ERROR)
                     else Some (Inr (token_text name,
                            \<lparr>col_dimensions = nat dimensions, col_element_type = elementType, col_metric = metric\<rparr>))))))))"

end
