(* ===== verification/VecCreate.thy ===== *)
theory VecCreate
  imports VecParse
begin

text \<open>
  Making, opening and dropping a \<^verbatim>\<open>vec0\<close> table (\<^verbatim>\<open>vec0_init\<close>, \<^verbatim>\<open>vec0Create\<close>, \<^verbatim>\<open>vec0Connect\<close>, \<^verbatim>\<open>vec0Destroy\<close> and
  \<^verbatim>\<open>vec0ShadowName\<close> of \<^verbatim>\<open>crates/cli/vendor-sqlite-vec/sqlite-vec.c\<close>). SQLite's part are the fields of \<open>table_api\<close>: whether
  there is memory, what \<^verbatim>\<open>sqlite3_declare_vtab\<close> says, and whether a statement on the shadow tables can be prepared and
  stepped to its end. Every error of the constructor but the first is reported as \<^verbatim>\<open>SQLITE_ERROR\<close>.
\<close>

subsection \<open>The shadow tables\<close>

datatype shadow_table = Info | Chunks | Rowids | Vector_chunks nat | Auxiliary | Metadata_chunks nat | Metadata_text nat

text \<open>\<^verbatim>\<open>%02d\<close> of a number below 100.\<close>

definition two_digits :: "nat \<Rightarrow> string" where
  "two_digits n = [char_of (48 + n div 10), char_of (48 + n mod 10)]"

definition shadow_suffix :: "shadow_table \<Rightarrow> string" where
  "shadow_suffix t =
     (case t of Info \<Rightarrow> ''info'' | Chunks \<Rightarrow> ''chunks'' | Rowids \<Rightarrow> ''rowids''
      | Vector_chunks i \<Rightarrow> ''vector_chunks'' @ two_digits i | Auxiliary \<Rightarrow> ''auxiliary''
      | Metadata_chunks i \<Rightarrow> ''metadatachunks'' @ two_digits i | Metadata_text i \<Rightarrow> ''metadatatext'' @ two_digits i)"

text \<open>The statements: a table with the definitions of its columns, the version numbers, and dropping a table.\<close>

datatype ddl = Create_table shadow_table "string list" | Seed_info | Drop_table shadow_table

record 'db table_api =
  vtab_ok :: "'db \<Rightarrow> bool"
  copy_ok :: "'db \<Rightarrow> string \<Rightarrow> bool"
  declare_text_ok :: "'db \<Rightarrow> bool"
  declare_vtab :: "'db \<Rightarrow> string \<Rightarrow> int"
  ddl_text_ok :: "'db \<Rightarrow> bool"
  run_ddl :: "'db \<Rightarrow> ddl \<Rightarrow> bool \<times> 'db"

subsection \<open>Reading the arguments\<close>

record definitions =
  given_chunk_size :: int
  kinds :: "user_column_kind list"
  idxs :: "nat list"
  vectors :: "(string \<times> vector_column) list"
  partitions :: "(string \<times> int) list"
  auxiliaries :: "(string \<times> int) list"
  metadatas :: "(string \<times> metadata_kind) list"
  primary_key :: "(string \<times> int) option"

definition no_definitions :: definitions where
  "no_definitions = \<lparr>given_chunk_size = -1, kinds = [], idxs = [], vectors = [], partitions = [], auxiliaries = [], metadatas = [],
     primary_key = None\<rparr>"

definition add_user_column :: "user_column_kind \<Rightarrow> nat \<Rightarrow> definitions \<Rightarrow> definitions" where
  "add_user_column kind idx d = d\<lparr>kinds := kinds d @ [kind], idxs := idxs d @ [idx]\<rparr>"

abbreviation (input) MAX_VECTOR_COLUMNS :: nat where "MAX_VECTOR_COLUMNS \<equiv> 16"
abbreviation (input) MAX_PARTITION_COLUMNS :: nat where "MAX_PARTITION_COLUMNS \<equiv> 4"
abbreviation (input) MAX_AUXILIARY_COLUMNS :: nat where "MAX_AUXILIARY_COLUMNS \<equiv> 16"
abbreviation (input) MAX_METADATA_COLUMNS :: nat where "MAX_METADATA_COLUMNS \<equiv> 16"
abbreviation (input) MAX_DIMENSIONS :: nat where "MAX_DIMENSIONS \<equiv> 8192"
abbreviation (input) CHUNK_SIZE_MAX :: int where "CHUNK_SIZE_MAX \<equiv> 4096"

text \<open>
  The scenarios of the loop over the arguments. \<open>Inr None\<close>: the argument is none of this kind, the next is tried;
  \<open>Inr (Some d)\<close>: it is, and the loop goes on; \<open>Inl\<close>: the constructor fails.
\<close>

type_synonym scenario = "(int + definitions option) option"

definition vector_argument :: "strnicmp \<Rightarrow> (string \<Rightarrow> bool) \<Rightarrow> string \<Rightarrow> definitions \<Rightarrow> scenario" where
  "vector_argument same name_ok arg d =
     (case vec0_parse_vector_column same name_ok arg of
        None \<Rightarrow> None
      | Some (Inl rc) \<Rightarrow> Some (if rc = SQLITE_ERROR then Inl SQLITE_ERROR else Inr None)
      | Some (Inr (name, c)) \<Rightarrow> Some (
          if length (vectors d) \<ge> MAX_VECTOR_COLUMNS then Inl SQLITE_ERROR
          else if col_dimensions c > MAX_DIMENSIONS then Inl SQLITE_ERROR
          else Inr (Some (add_user_column KIND_VECTOR (length (vectors d)) (d\<lparr>vectors := vectors d @ [(name, c)]\<rparr>)))))"

definition partition_argument :: "strnicmp \<Rightarrow> (string \<Rightarrow> bool) \<Rightarrow> string \<Rightarrow> definitions \<Rightarrow> scenario" where
  "partition_argument same name_ok arg d =
     (case vec0_parse_partition_key_definition same arg of
        None \<Rightarrow> None
      | Some (Inl _) \<Rightarrow> Some (Inr None)
      | Some (Inr (name, type)) \<Rightarrow> Some (
          if length (partitions d) \<ge> MAX_PARTITION_COLUMNS then Inl SQLITE_ERROR
          else if \<not> name_ok name then Inl SQLITE_ERROR
          else Inr (Some (add_user_column KIND_PARTITION (length (partitions d)) (d\<lparr>partitions := partitions d @ [(name, type)]\<rparr>)))))"

definition primary_argument :: "strnicmp \<Rightarrow> string \<Rightarrow> definitions \<Rightarrow> scenario" where
  "primary_argument same arg d =
     (case vec0_parse_primary_key_definition same arg of
        None \<Rightarrow> None
      | Some (Inl _) \<Rightarrow> Some (Inr None)
      | Some (Inr key) \<Rightarrow> Some (
          if primary_key d \<noteq> None then Inl SQLITE_ERROR else Inr (Some (d\<lparr>primary_key := Some key\<rparr>))))"

definition auxiliary_argument :: "strnicmp \<Rightarrow> (string \<Rightarrow> bool) \<Rightarrow> string \<Rightarrow> definitions \<Rightarrow> scenario" where
  "auxiliary_argument same name_ok arg d =
     (case vec0_parse_auxiliary_column_definition same arg of
        None \<Rightarrow> None
      | Some (Inl _) \<Rightarrow> Some (Inr None)
      | Some (Inr (name, type)) \<Rightarrow> Some (
          if length (auxiliaries d) \<ge> MAX_AUXILIARY_COLUMNS then Inl SQLITE_ERROR
          else if \<not> name_ok name then Inl SQLITE_ERROR
          else Inr (Some (add_user_column KIND_AUXILIARY (length (auxiliaries d)) (d\<lparr>auxiliaries := auxiliaries d @ [(name, type)]\<rparr>)))))"

definition metadata_argument :: "strnicmp \<Rightarrow> (string \<Rightarrow> bool) \<Rightarrow> string \<Rightarrow> definitions \<Rightarrow> scenario" where
  "metadata_argument same name_ok arg d =
     (case vec0_parse_metadata_column_definition same arg of
        None \<Rightarrow> None
      | Some (Inl _) \<Rightarrow> Some (Inr None)
      | Some (Inr (name, kind)) \<Rightarrow> Some (
          if length (metadatas d) \<ge> MAX_METADATA_COLUMNS then Inl SQLITE_ERROR
          else if \<not> name_ok name then Inl SQLITE_ERROR
          else Inr (Some (add_user_column KIND_METADATA (length (metadatas d)) (d\<lparr>metadatas := metadatas d @ [(name, kind)]\<rparr>)))))"

definition option_argument :: "strnicmp \<Rightarrow> string \<Rightarrow> definitions \<Rightarrow> scenario" where
  "option_argument same arg d =
     (case vec0_parse_table_option arg of
        None \<Rightarrow> None
      | Some (Inl rc) \<Rightarrow> Some (if rc = SQLITE_ERROR then Inl SQLITE_ERROR else Inr None)
      | Some (Inr (key, value)) \<Rightarrow>
          if \<not> token_is same key ''chunk_size'' then Some (Inl SQLITE_ERROR)
          else (case atoi (token_start value) of
            None \<Rightarrow> None
          | Some n \<Rightarrow> Some (
              if n \<le> 0 then Inl SQLITE_ERROR
              else if n mod 8 \<noteq> 0 then Inl SQLITE_ERROR
              else if n > CHUNK_SIZE_MAX then Inl SQLITE_ERROR
              else Inr (Some (d\<lparr>given_chunk_size := n\<rparr>)))))"

definition or_else :: "scenario \<Rightarrow> scenario \<Rightarrow> scenario" where
  "or_else x y = and_then x (\<lambda>r. case r of Some d \<Rightarrow> Some (Inr (Some d)) | None \<Rightarrow> y)"

definition table_argument :: "strnicmp \<Rightarrow> (string \<Rightarrow> bool) \<Rightarrow> string \<Rightarrow> definitions \<Rightarrow> scenario" where
  "table_argument same name_ok arg d =
     or_else (vector_argument same name_ok arg d)
     (or_else (partition_argument same name_ok arg d)
     (or_else (primary_argument same arg d)
     (or_else (auxiliary_argument same name_ok arg d)
     (or_else (metadata_argument same name_ok arg d)
       (option_argument same arg d)))))"

fun table_arguments :: "strnicmp \<Rightarrow> (string \<Rightarrow> bool) \<Rightarrow> string list \<Rightarrow> definitions \<Rightarrow> (int + definitions) option" where
  "table_arguments same name_ok [] d = Some (Inr d)"
| "table_arguments same name_ok (arg # args) d =
     and_then (table_argument same name_ok arg d) (\<lambda>r.
       case r of None \<Rightarrow> Some (Inl SQLITE_ERROR) | Some d' \<Rightarrow> table_arguments same name_ok args d')"

subsection \<open>The columns that SQLite is told of\<close>

definition column_name :: "definitions \<Rightarrow> nat \<Rightarrow> string" where
  "column_name d i =
     (let idx = idxs d ! i
      in case kinds d ! i of
        KIND_VECTOR \<Rightarrow> fst (vectors d ! idx)
      | KIND_PARTITION \<Rightarrow> fst (partitions d ! idx)
      | KIND_AUXILIARY \<Rightarrow> fst (auxiliaries d ! idx)
      | KIND_METADATA \<Rightarrow> fst (metadatas d ! idx))"

definition user_columns :: "definitions \<Rightarrow> nat" where
  "user_columns d = length (vectors d) + length (partitions d) + length (auxiliaries d) + length (metadatas d)"

text \<open>\<^verbatim>\<open>"%.*w"\<close>: a token has no quote in it that would be doubled.\<close>

definition quoted :: "string \<Rightarrow> string" where
  "quoted s = [CHR 0x22] @ s @ [CHR 0x22]"

definition declared_columns :: "definitions \<Rightarrow> string list" where
  "declared_columns d =
     [case primary_key d of Some (name, _) \<Rightarrow> quoted name @ '' primary key'' | None \<Rightarrow> ''rowid''] @
     map (\<lambda>i. quoted (column_name d i)) [0..<user_columns d] @
     ['' distance hidden'', ''k hidden'']"

fun comma_separated :: "string list \<Rightarrow> string" where
  "comma_separated [] = ''''"
| "comma_separated [c] = c"
| "comma_separated (c # cs) = c @ '', '' @ comma_separated cs"

definition declare_text :: "definitions \<Rightarrow> string" where
  "declare_text d = ''CREATE TABLE x('' @ comma_separated (declared_columns d) @ '') '' @
     (if primary_key d \<noteq> None then ''without rowid '' else '''')"

subsection \<open>Making the table\<close>

definition table_of :: "definitions \<Rightarrow> vec0_vtab" where
  "table_of d = \<lparr>
     pk_is_text = (case primary_key d of Some (_, type) \<Rightarrow> type = SQLITE_TEXT | None \<Rightarrow> False),
     user_column_kinds = kinds d, user_column_idxs = idxs d,
     vector_columns = map snd (vectors d), partition_columns = map snd (partitions d),
     auxiliary_columns = map snd (auxiliaries d), metadata_columns = map snd (metadatas d),
     table_chunk_size = nat (if given_chunk_size d < 0 then 1024 else given_chunk_size d)\<rparr>"

definition copied_names :: "string \<Rightarrow> string \<Rightarrow> vec0_vtab \<Rightarrow> string list" where
  "copied_names schema table p =
     [schema, table, table @ ''_rowids'', table @ ''_chunks''] @
     map (\<lambda>i. table @ ''_vector_chunks'' @ two_digits i) [0..<length (vector_columns p)] @
     map (\<lambda>i. table @ ''_metadatachunks'' @ two_digits i) [0..<length (metadata_columns p)]"

definition chunks_columns :: "nat \<Rightarrow> string list" where
  "chunks_columns partition_count =
     [''chunk_id INTEGER PRIMARY KEY AUTOINCREMENT'', ''size INTEGER NOT NULL''] @
     (if partition_count > 0 then ''sequence_id integer'' # map (\<lambda>i. ''partition'' @ two_digits i) [0..<partition_count] else []) @
     [''validity BLOB NOT NULL'', ''rowids BLOB NOT NULL'']"

definition rowids_columns :: "bool \<Rightarrow> string list" where
  "rowids_columns text =
     [''rowid INTEGER PRIMARY KEY AUTOINCREMENT'', if text then ''id TEXT UNIQUE NOT NULL'' else ''id'', ''chunk_id INTEGER'',
      ''chunk_offset INTEGER'']"

definition create_metadata :: "vec0_vtab \<Rightarrow> nat \<Rightarrow> ddl list" where
  "create_metadata p i =
     Create_table (Metadata_chunks i) [''rowid PRIMARY KEY'', ''data BLOB NOT NULL''] #
     (if metadata_columns p ! i = KIND_TEXT then [Create_table (Metadata_text i) [''rowid PRIMARY KEY'', ''data TEXT'']] else [])"

definition create_statements :: "vec0_vtab \<Rightarrow> ddl list" where
  "create_statements p =
     [Create_table Info [''key text primary key'', ''value any''], Seed_info,
      Create_table Chunks (chunks_columns (length (partition_columns p))),
      Create_table Rowids (rowids_columns (pk_is_text p))] @
     map (\<lambda>i. Create_table (Vector_chunks i) [''rowid PRIMARY KEY'', ''vectors BLOB NOT NULL'']) [0..<length (vector_columns p)] @
     concat (map (create_metadata p) [0..<length (metadata_columns p)]) @
     (if auxiliary_columns p \<noteq> []
      then [Create_table Auxiliary (''rowid integer PRIMARY KEY'' # map (\<lambda>i. ''value'' @ two_digits i) [0..<length (auxiliary_columns p)])]
      else [])"

fun run_creates :: "'db table_api \<Rightarrow> 'db \<Rightarrow> ddl list \<Rightarrow> int \<times> 'db" where
  "run_creates A db [] = (SQLITE_OK, db)"
| "run_creates A db (s # ss) =
     (if \<not> ddl_text_ok A db then (SQLITE_ERROR, db)
      else let (ok, db') = run_ddl A db s in if ok then run_creates A db' ss else (SQLITE_ERROR, db'))"

definition vec0_init ::
  "'db table_api \<Rightarrow> strnicmp \<Rightarrow> 'db \<Rightarrow> string \<Rightarrow> string \<Rightarrow> string list \<Rightarrow> bool \<Rightarrow> ((int + vec0_vtab) \<times> 'db) option" where
  "vec0_init A same db schema table args isCreate =
     (if \<not> vtab_ok A db then Some (Inl SQLITE_NOMEM, db)
      else case table_arguments same (copy_ok A db) args no_definitions of
        None \<Rightarrow> None
      | Some (Inl rc) \<Rightarrow> Some (Inl rc, db)
      | Some (Inr d) \<Rightarrow> Some (
          let p = table_of d
          in if vectors d = [] then (Inl SQLITE_ERROR, db)
             else if \<not> declare_text_ok A db then (Inl SQLITE_ERROR, db)
             else if declare_vtab A db (declare_text d) \<noteq> SQLITE_OK then (Inl SQLITE_ERROR, db)
             else if \<not> list_all (copy_ok A db) (copied_names schema table p) then (Inl SQLITE_ERROR, db)
             else if \<not> isCreate then (Inr p, db)
             else let (rc, db') = run_creates A db (create_statements p)
                  in (if rc \<noteq> SQLITE_OK then Inl SQLITE_ERROR else Inr p, db')))"

definition vec0Create ::
  "'db table_api \<Rightarrow> strnicmp \<Rightarrow> 'db \<Rightarrow> string \<Rightarrow> string \<Rightarrow> string list \<Rightarrow> ((int + vec0_vtab) \<times> 'db) option" where
  "vec0Create A same db schema table args = vec0_init A same db schema table args True"

definition vec0Connect ::
  "'db table_api \<Rightarrow> strnicmp \<Rightarrow> 'db \<Rightarrow> string \<Rightarrow> string \<Rightarrow> string list \<Rightarrow> ((int + vec0_vtab) \<times> 'db) option" where
  "vec0Connect A same db schema table args = vec0_init A same db schema table args False"

subsection \<open>Dropping it\<close>

definition drop_metadata :: "vec0_vtab \<Rightarrow> nat \<Rightarrow> ddl list" where
  "drop_metadata p i =
     Drop_table (Metadata_chunks i) # (if metadata_columns p ! i = KIND_TEXT then [Drop_table (Metadata_text i)] else [])"

definition drop_statements :: "vec0_vtab \<Rightarrow> ddl list" where
  "drop_statements p =
     [Drop_table Chunks, Drop_table Info, Drop_table Rowids] @
     map (\<lambda>i. Drop_table (Vector_chunks i)) [0..<length (vector_columns p)] @
     (if auxiliary_columns p \<noteq> [] then [Drop_table Auxiliary] else []) @
     concat (map (drop_metadata p) [0..<length (metadata_columns p)])"

fun run_drops :: "'db table_api \<Rightarrow> 'db \<Rightarrow> ddl list \<Rightarrow> int \<times> 'db" where
  "run_drops A db [] = (SQLITE_OK, db)"
| "run_drops A db (s # ss) =
     (let (ok, db') = run_ddl A db s in if ok then run_drops A db' ss else (SQLITE_ERROR, db'))"

definition vec0Destroy :: "'db table_api \<Rightarrow> 'db \<Rightarrow> vec0_vtab \<Rightarrow> int \<times> 'db" where
  "vec0Destroy A db p = run_drops A db (drop_statements p)"

text \<open>The names that SQLite protects from being written directly; \<open>same_name\<close> is \<^verbatim>\<open>sqlite3_stricmp(a, b) == 0\<close>.\<close>

definition shadow_names :: "string list" where
  "shadow_names = [''rowids'', ''chunks'', ''auxiliary'', ''info''] @
     map (\<lambda>i. ''metadatachunks'' @ two_digits i) [0..<16] @ map (\<lambda>i. ''metadatatext'' @ two_digits i) [0..<16]"

definition vec0ShadowName :: "(string \<Rightarrow> string \<Rightarrow> bool) \<Rightarrow> string \<Rightarrow> int" where
  "vec0ShadowName same_name name = (if list_ex (same_name name) shadow_names then 1 else 0)"

end
