(* ===== verification/VecDeclarations.thy ===== *)
theory VecDeclarations imports VecCreate begin

text \<open>
  What the constructor of a \<^verbatim>\<open>vec0\<close> table accepts and refuses. The locale \<open>ascii_compare\<close> says what the SQLite
  documentation promises of \<^verbatim>\<open>sqlite3_strnicmp\<close>, the locale \<open>ddl_store\<close> what running the statements on the shadow tables
  does; both are interpreted on a concrete instance.
\<close>

subsection \<open>Comparing without case\<close>

definition ascii_lower :: "char \<Rightarrow> char" where
  "ascii_lower c = (if is_alpha c \<and> (of_char c :: nat) \<le> 90 then char_of ((of_char c :: nat) + 32) else c)"

definition ascii_same :: strnicmp where
  "ascii_same a b n \<longleftrightarrow> map ascii_lower (take n a) = map ascii_lower (take n b)"

locale ascii_compare =
  fixes same :: strnicmp
  assumes same: "same a b n \<longleftrightarrow> map ascii_lower (take n a) = map ascii_lower (take n b)"

interpretation ascii: ascii_compare ascii_same
  by unfold_locales (simp add: ascii_same_def)

subsection \<open>Words and numbers as tokens\<close>

definition is_identifier :: "string \<Rightarrow> bool" where
  "is_identifier w \<longleftrightarrow> w \<noteq> [] \<and> is_alpha (hd w) \<and> (\<forall>x \<in> set w. is_word_char x)"

definition word_ends :: "string \<Rightarrow> bool" where
  "word_ends r \<longleftrightarrow> (case r of [] \<Rightarrow> True | c # _ \<Rightarrow> \<not> (is_word_char c))"

definition word_token :: "string \<Rightarrow> string \<Rightarrow> vec0_token" where
  "word_token w r = \<lparr>token_type = TOKEN_TYPE_IDENTIFIER, token_start = w @ r, token_length = length w\<rparr>"

lemma alpha_char: "is_alpha c \<Longrightarrow> \<not> is_whitespace c \<and> c \<noteq> CHR ''+'' \<and> c \<noteq> CHR ''['' \<and> c \<noteq> CHR '']'' \<and> c \<noteq> CHR ''=''"
  by (auto simp: is_alpha_def is_whitespace_def)

lemma takeWhile_word:
  "\<forall>x \<in> set w. is_word_char x \<Longrightarrow> word_ends r \<Longrightarrow> takeWhile (\<lambda>x. is_word_char x) (w @ r) = w"
  by (subst takeWhile_append2) (auto simp: word_ends_def split: list.splits)

lemma token_word: "is_identifier w \<Longrightarrow> word_ends r \<Longrightarrow> vec0_token_next (w @ r) = Token_SOME (word_token w r)"
proof -
  assume a: "is_identifier w" "word_ends r"
  then obtain c cs where w: "w = c # cs" "is_alpha c" by (cases w) (auto simp: is_identifier_def)
  then show ?thesis using takeWhile_word [of w r] a alpha_char [OF w(2)] by (auto simp: word_token_def is_identifier_def)
qed

lemma token_blank [simp]: "vec0_token_next (CHR '' '' # s) = vec0_token_next s"
  by (simp add: is_whitespace_def)

lemma token_symbols [simp]:
  "vec0_token_next (CHR ''+'' # s) = Token_SOME \<lparr>token_type = TOKEN_TYPE_PLUS, token_start = s, token_length = 0\<rparr>"
  "vec0_token_next (CHR ''['' # s) = Token_SOME \<lparr>token_type = TOKEN_TYPE_LBRACKET, token_start = s, token_length = 0\<rparr>"
  "vec0_token_next (CHR '']'' # s) = Token_SOME \<lparr>token_type = TOKEN_TYPE_RBRACKET, token_start = s, token_length = 0\<rparr>"
  "vec0_token_next (CHR ''='' # s) = Token_SOME \<lparr>token_type = TOKEN_TYPE_EQ, token_start = s, token_length = 0\<rparr>"
  by (simp_all add: is_whitespace_def)

lemma word_token_simps [simp]:
  "token_type (word_token w r) = TOKEN_TYPE_IDENTIFIER" "token_start (word_token w r) = w @ r" "token_length (word_token w r) = length w"
  "token_end (word_token w r) = r" "token_text (word_token w r) = w"
  by (simp_all add: word_token_def token_end_def token_text_def)

text \<open>The token at the front of the text, if there is one.\<close>

lemma expect_token [simp]:
  "vec0_token_next s = Token_SOME t \<Longrightarrow>
     expect_and types e \<lparr>scan_from = s, last_token = l\<rparr> = Some (Inr (t, \<lparr>scan_from = token_end t, last_token = Some t\<rparr>))"
  "vec0_token_next s = Token_SOME t \<Longrightarrow> expect_or type e \<lparr>scan_from = s, last_token = l\<rparr> =
     Some (if token_type t \<noteq> type then Inl e else Inr (t, \<lparr>scan_from = token_end t, last_token = Some t\<rparr>))"
  by (simp_all add: expect_and_def expect_or_def vec0_scanner_next_def)

lemma expect_end [simp]:
  "expect_and types e \<lparr>scan_from = [], last_token = Some t\<rparr> =
     Some (if token_type t \<notin> types then Inl e else Inr (t, \<lparr>scan_from = [], last_token = Some t\<rparr>))"
  "expect_or type e \<lparr>scan_from = [], last_token = l\<rparr> = Some (Inl e)"
  by (simp_all add: expect_and_def expect_or_def vec0_scanner_next_def)

lemma and_then_simps [simp]:
  "and_then None f = None" "and_then (Some (Inl rc)) f = Some (Inl rc)" "and_then (Some (Inr y)) f = f y"
  by (simp_all add: and_then_def)

text \<open>Decimal numbers.\<close>

fun decimal :: "nat \<Rightarrow> string" where
  "decimal n = (if n < 10 then [char_of (48 + n)] else decimal (n div 10) @ [char_of (48 + n mod 10)])"

declare decimal.simps [simp del]

lemma of_digit: "n < 10 \<Longrightarrow> of_char (char_of (48 + n :: nat) :: char) = (48 + int n)" "n < 10 \<Longrightarrow> is_digit (char_of (48 + n))"
proof -
  assume n: "n < 10"
  have m: "(48 + n) mod 256 = 48 + n" using n by simp
  show "of_char (char_of (48 + n :: nat) :: char) = (48 + int n)"
    using of_nat_of_char [of "char_of (48 + n)", where ?'a = int] m by simp
  show "is_digit (char_of (48 + n))" using m n by (simp add: is_digit_def)
qed

lemma decimal_digits: "\<forall>x \<in> set (decimal n). is_digit x" "decimal n \<noteq> []"
proof (induction n rule: decimal.induct)
  case (1 n)
  { case 1 then show ?case using "1.IH" of_digit(2) [of n] of_digit(2) [of "n mod 10"] by (subst decimal.simps) auto }
  { case 2 then show ?case by (subst decimal.simps) simp }
qed

lemma digits_value_snoc: "digits_value (ds @ [d]) = 10 * digits_value ds + (of_char d - 48)"
  by (simp add: digits_value_def)

lemma digits_value_decimal: "digits_value (decimal n) = int n"
proof (induction n rule: decimal.induct)
  case (1 n)
  show ?case
  proof (cases "n < 10")
    case True
    then show ?thesis using of_digit(1) [of n] by (simp add: decimal.simps [of n] digits_value_def)
  next
    case False
    have "10 * int (n div 10) + int (n mod 10) = int n"
      using arg_cong [OF mult_div_mod_eq [of 10 n], of int] by (simp only: of_nat_add of_nat_mult of_nat_numeral)
    then show ?thesis using False 1 of_digit(1) [of "n mod 10"]
      by (simp add: decimal.simps [of n] digits_value_snoc del: of_nat_mod of_nat_div zdiv_int zmod_int)
  qed
qed

definition number_ends :: "string \<Rightarrow> bool" where
  "number_ends r \<longleftrightarrow> (case r of [] \<Rightarrow> True | c # _ \<Rightarrow> \<not> is_digit c)"

definition number_token :: "string \<Rightarrow> string \<Rightarrow> vec0_token" where
  "number_token w r = \<lparr>token_type = TOKEN_TYPE_DIGIT, token_start = w @ r, token_length = length w\<rparr>"

lemma digit_char: "is_digit c \<Longrightarrow> \<not> is_whitespace c \<and> c \<noteq> CHR ''+'' \<and> c \<noteq> CHR ''['' \<and> c \<noteq> CHR '']'' \<and> c \<noteq> CHR ''='' \<and>
    \<not> is_alpha c \<and> \<not> is_space c \<and> c \<noteq> CHR ''-''"
  by (auto simp: is_digit_def is_alpha_def is_whitespace_def is_space_def Let_def)

lemma takeWhile_number: "number_ends r \<Longrightarrow> takeWhile is_digit (decimal n @ r) = decimal n"
  using decimal_digits(1) [of n] by (subst takeWhile_append2) (auto simp: number_ends_def split: list.splits)

lemma token_number: "number_ends r \<Longrightarrow> vec0_token_next (decimal n @ r) = Token_SOME (number_token (decimal n) r)"
proof -
  assume r: "number_ends r"
  obtain c cs where w: "decimal n = c # cs" "is_digit c" using decimal_digits [of n] by (cases "decimal n") auto
  then show ?thesis using takeWhile_number [OF r, of n] digit_char [OF w(2)] by (simp add: number_token_def)
qed

lemma number_token_simps [simp]:
  "token_type (number_token w r) = TOKEN_TYPE_DIGIT" "token_start (number_token w r) = w @ r" "token_length (number_token w r) = length w"
  "token_end (number_token w r) = r"
  by (simp_all add: number_token_def token_end_def)

lemma atoi_decimal:
  assumes "number_ends r" and "n < 2 ^ 31"
  shows "atoi (decimal n @ r) = Some (int n)"
proof -
  obtain c cs where w: "decimal n = c # cs" "is_digit c" using decimal_digits [of n] by (cases "decimal n") auto
  have d: "dropWhile is_space (decimal n @ r) = decimal n @ r" using w digit_char [OF w(2)] by simp
  have "int n < 2 ^ 31" using assms(2) by simp
  then show ?thesis unfolding atoi_def d using w(2) digit_char [OF w(2)] takeWhile_number [OF assms(1), of n] digits_value_decimal [of n] w(1)
    by (simp add: Let_def)
qed

subsection \<open>Declarations and their texts\<close>

text \<open>
  What a table can be declared with. The texts are those of the documentation: a name, one of the words of the type, and
  the options, of which a vector column for the distance \<^verbatim>\<open>l2\<close> needs none. \<open>declaration_text\<close> is the longest of them.
\<close>

datatype key_value_type = Text_type | Integer_type
datatype auxiliary_value_type = Aux_text | Aux_integer | Aux_float | Aux_blob

datatype table_declaration =
  Vector_decl string vector_column
| Partition_decl string key_value_type
| Primary_decl string key_value_type
| Auxiliary_decl string auxiliary_value_type
| Metadata_decl string metadata_kind
| Chunk_size_decl nat

primrec key_word :: "key_value_type \<Rightarrow> string" where
  "key_word Text_type = ''text''"
| "key_word Integer_type = ''integer''"

primrec key_code :: "key_value_type \<Rightarrow> int" where
  "key_code Text_type = SQLITE_TEXT"
| "key_code Integer_type = SQLITE_INTEGER"

primrec auxiliary_word :: "auxiliary_value_type \<Rightarrow> string" where
  "auxiliary_word Aux_text = ''text''"
| "auxiliary_word Aux_integer = ''integer''"
| "auxiliary_word Aux_float = ''float''"
| "auxiliary_word Aux_blob = ''blob''"

primrec auxiliary_code :: "auxiliary_value_type \<Rightarrow> int" where
  "auxiliary_code Aux_text = SQLITE_TEXT"
| "auxiliary_code Aux_integer = SQLITE_INTEGER"
| "auxiliary_code Aux_float = SQLITE_FLOAT"
| "auxiliary_code Aux_blob = SQLITE_BLOB"

primrec metadata_word :: "metadata_kind \<Rightarrow> string" where
  "metadata_word KIND_BOOLEAN = ''boolean''"
| "metadata_word KIND_INTEGER = ''integer''"
| "metadata_word KIND_FLOAT = ''float''"
| "metadata_word KIND_TEXT = ''text''"

primrec element_word :: "vector_element_type \<Rightarrow> string" where
  "element_word FLOAT32 = ''float''"
| "element_word INT8 = ''int8''"
| "element_word BIT = ''bit''"

primrec metric_word :: "distance_metric \<Rightarrow> string" where
  "metric_word METRIC_L2 = ''l2''"
| "metric_word METRIC_L1 = ''l1''"
| "metric_word METRIC_COSINE = ''cosine''"

definition metric_text :: "vector_column \<Rightarrow> string" where
  "metric_text c = (if col_element_type c = BIT then '''' else '' distance_metric='' @ metric_word (col_metric c))"

definition declaration_text :: "table_declaration \<Rightarrow> string" where
  "declaration_text decl =
     (case decl of
        Vector_decl w c \<Rightarrow> w @ '' '' @ element_word (col_element_type c) @ ''['' @ decimal (col_dimensions c) @ '']'' @ metric_text c
      | Partition_decl w t \<Rightarrow> w @ '' '' @ key_word t @ '' partition key''
      | Primary_decl w t \<Rightarrow> w @ '' '' @ key_word t @ '' primary key''
      | Auxiliary_decl w t \<Rightarrow> ''+'' @ w @ '' '' @ auxiliary_word t
      | Metadata_decl w k \<Rightarrow> w @ '' '' @ metadata_word k
      | Chunk_size_decl n \<Rightarrow> ''chunk_size='' @ decimal n)"

primrec key_words :: "key_value_type \<Rightarrow> string list" where
  "key_words Text_type = [''text'']"
| "key_words Integer_type = [''integer'', ''int'']"

primrec auxiliary_words :: "auxiliary_value_type \<Rightarrow> string list" where
  "auxiliary_words Aux_text = [''text'']"
| "auxiliary_words Aux_integer = [''integer'', ''int'']"
| "auxiliary_words Aux_float = [''float'', ''double'']"
| "auxiliary_words Aux_blob = [''blob'']"

primrec metadata_words :: "metadata_kind \<Rightarrow> string list" where
  "metadata_words KIND_BOOLEAN = [''boolean'', ''bool'']"
| "metadata_words KIND_INTEGER = [''integer'', ''int'', ''int64'', ''integer64'']"
| "metadata_words KIND_FLOAT = [''float'', ''double'', ''float64'', ''f64'']"
| "metadata_words KIND_TEXT = [''text'']"

primrec element_words :: "vector_element_type \<Rightarrow> string list" where
  "element_words FLOAT32 = [''float'', ''f32'']"
| "element_words INT8 = [''int8'', ''i8'']"
| "element_words BIT = [''bit'']"

definition metric_texts :: "vector_column \<Rightarrow> string list" where
  "metric_texts c = (if col_metric c = METRIC_L2 then [metric_text c, []] else [metric_text c])"

definition declaration_texts :: "table_declaration \<Rightarrow> string list" where
  "declaration_texts decl =
     (case decl of
        Vector_decl w c \<Rightarrow>
          [w @ '' '' @ word @ ''['' @ decimal (col_dimensions c) @ '']'' @ options. word \<leftarrow> element_words (col_element_type c), options \<leftarrow> metric_texts c]
      | Partition_decl w t \<Rightarrow> [w @ '' '' @ word @ '' partition key''. word \<leftarrow> key_words t]
      | Primary_decl w t \<Rightarrow> [w @ '' '' @ word @ '' primary key''. word \<leftarrow> key_words t]
      | Auxiliary_decl w t \<Rightarrow> [''+'' @ w @ '' '' @ word. word \<leftarrow> auxiliary_words t]
      | Metadata_decl w k \<Rightarrow> [w @ '' '' @ word. word \<leftarrow> metadata_words k]
      | Chunk_size_decl n \<Rightarrow> [''chunk_size='' @ decimal n])"

lemma declaration_text_among: "declaration_text decl \<in> set (declaration_texts decl)"
proof (cases decl)
  case (Vector_decl w c)
  moreover have "element_word (col_element_type c) \<in> set (element_words (col_element_type c))" by (cases "col_element_type c") simp_all
  moreover have "metric_text c \<in> set (metric_texts c)" by (simp add: metric_texts_def)
  ultimately show ?thesis by (force simp: declaration_text_def declaration_texts_def)
next
  case (Partition_decl w t)
  then show ?thesis by (cases t) (simp_all add: declaration_text_def declaration_texts_def)
next
  case (Primary_decl w t)
  then show ?thesis by (cases t) (simp_all add: declaration_text_def declaration_texts_def)
next
  case (Auxiliary_decl w t)
  then show ?thesis by (cases t) (simp_all add: declaration_text_def declaration_texts_def)
next
  case (Metadata_decl w k)
  then show ?thesis by (cases k) (simp_all add: declaration_text_def declaration_texts_def)
qed (simp add: declaration_text_def declaration_texts_def)

text \<open>
  The name of an auxiliary column must not begin like an element type, or the code takes the column for a vector column.
\<close>

definition begins_with :: "string \<Rightarrow> string \<Rightarrow> bool" where
  "begins_with w start \<longleftrightarrow> map ascii_lower (take (length start) w) = map ascii_lower start"

definition looks_like_vector :: "string \<Rightarrow> bool" where
  "looks_like_vector w \<longleftrightarrow> list_ex (begins_with w) [''float'', ''f32'', ''int8'', ''i8'', ''bit'']"

definition declaration_ok :: "table_declaration \<Rightarrow> bool" where
  "declaration_ok decl =
     (case decl of
        Vector_decl w c \<Rightarrow> is_identifier w \<and> 0 < col_dimensions c \<and> col_dimensions c \<le> MAX_DIMENSIONS \<and>
          (col_element_type c = BIT \<longrightarrow> col_metric c = METRIC_L2)
      | Partition_decl w _ \<Rightarrow> is_identifier w
      | Primary_decl w _ \<Rightarrow> is_identifier w
      | Auxiliary_decl w _ \<Rightarrow> is_identifier w \<and> \<not> looks_like_vector w
      | Metadata_decl w _ \<Rightarrow> is_identifier w
      | Chunk_size_decl n \<Rightarrow> 0 < n \<and> n mod 8 = 0 \<and> int n \<le> CHUNK_SIZE_MAX)"

subsection \<open>Each declaration is read as what it is\<close>

lemma words_are_identifiers:
  "is_identifier ''text''" "is_identifier ''integer''" "is_identifier ''float''" "is_identifier ''blob''" "is_identifier ''boolean''"
  "is_identifier ''int8''" "is_identifier ''bit''" "is_identifier ''partition''" "is_identifier ''primary''" "is_identifier ''key''"
  "is_identifier ''distance_metric''" "is_identifier ''l2''" "is_identifier ''l1''" "is_identifier ''cosine''" "is_identifier ''chunk_size''"
  "is_identifier ''f32''" "is_identifier ''i8''" "is_identifier ''int''" "is_identifier ''double''" "is_identifier ''bool''"
  "is_identifier ''int64''" "is_identifier ''integer64''" "is_identifier ''float64''" "is_identifier ''f64''"
  by (simp_all add: is_identifier_def is_alpha_def is_digit_def)

lemma word_ends_simps [simp]:
  "word_ends []" "word_ends (CHR '' '' # s)" "word_ends (CHR ''['' # s)" "word_ends (CHR '']'' # s)" "word_ends (CHR ''='' # s)"
  by (simp_all add: word_ends_def is_alpha_def is_digit_def)

lemma number_ends_simps [simp]: "number_ends []" "number_ends (CHR '']'' # s)"
  by (simp_all add: number_ends_def is_digit_def)

lemmas word_tokens = words_are_identifiers [THEN token_word]

declare vec0_token_next.simps [simp del]

lemmas word_tokens_cons [simp] = word_tokens [unfolded append.simps]

lemma scanner_init [simp]: "vec0_scanner_init s = \<lparr>scan_from = s, last_token = None\<rparr>"
  by (simp add: vec0_scanner_init_def)

lemma token_text_word [simp]: "token_text (word_token w r) = w"
  by (simp add: token_text_def)

lemmas lower_simps = ascii_lower_def is_alpha_def

context ascii_compare
begin

lemma token_same: "token_is same (word_token w r) word \<longleftrightarrow> map ascii_lower w = map ascii_lower (take (length w) word)"
  by (simp add: token_is_def same)

lemma key_types [simp]:
  "key_type same (word_token ''text'' r) = Some SQLITE_TEXT" "key_type same (word_token ''integer'' r) = Some SQLITE_INTEGER"
  "key_type same (word_token ''int'' r) = Some SQLITE_INTEGER"
  by (simp_all add: key_type_def token_same lower_simps)

lemma no_key_types [simp]:
  "key_type same (word_token ''float'' r) = None" "key_type same (word_token ''boolean'' r) = None"
  "key_type same (word_token ''bool'' r) = None" "key_type same (word_token ''int64'' r) = None" "key_type same (word_token ''integer64'' r) = None"
  "key_type same (word_token ''double'' r) = None" "key_type same (word_token ''float64'' r) = None" "key_type same (word_token ''f64'' r) = None"
  by (simp_all add: key_type_def token_same lower_simps)

lemma no_element_types [simp]:
  "vector_element_type_of same (word_token ''text'' r) = None" "vector_element_type_of same (word_token ''integer'' r) = None"
  "vector_element_type_of same (word_token ''boolean'' r) = None" "vector_element_type_of same (word_token ''bool'' r) = None"
  "vector_element_type_of same (word_token ''int64'' r) = None" "vector_element_type_of same (word_token ''integer64'' r) = None"
  "vector_element_type_of same (word_token ''double'' r) = None" "vector_element_type_of same (word_token ''f64'' r) = None"
  "vector_element_type_of same (word_token ''int'' []) = None" "vector_element_type_of same (word_token ''int'' (CHR '' '' # r)) = None"
  by (simp_all add: vector_element_type_of_def same lower_simps)

lemma element_types [simp]: "vector_element_type_of same (word_token (element_word t) r) = Some t"
  by (cases t) (simp_all add: vector_element_type_of_def same lower_simps)

lemma element_types_of: "word \<in> set (element_words t) \<Longrightarrow> vector_element_type_of same (word_token word r) = Some t"
  by (cases t; simp only: element_words.simps list.set insert_iff empty_iff; elim disjE FalseE; simp add: vector_element_type_of_def same lower_simps)

lemma metrics [simp]: "metric_of same (word_token (metric_word m) r) = Some m"
  by (cases m) (simp_all add: metric_of_def token_same lower_simps)

lemma auxiliary_types [simp]: "auxiliary_type same (word_token (auxiliary_word t) r) = Some (auxiliary_code t)"
  by (cases t) (simp_all add: auxiliary_type_def token_same lower_simps)

lemma auxiliary_types_of: "word \<in> set (auxiliary_words t) \<Longrightarrow> auxiliary_type same (word_token word r) = Some (auxiliary_code t)"
  by (cases t; simp only: auxiliary_words.simps list.set insert_iff empty_iff; elim disjE FalseE; simp add: auxiliary_type_def token_same lower_simps)

lemma metadata_types_of: "word \<in> set (metadata_words k) \<Longrightarrow> metadata_type same (word_token word r) = Some k"
  by (cases k; simp only: metadata_words.simps list.set insert_iff empty_iff; elim disjE FalseE; simp add: metadata_type_def token_same lower_simps)

lemma metadata_types [simp]: "metadata_type same (word_token (metadata_word k) r) = Some k"
  by (cases k) (simp_all add: metadata_type_def token_same lower_simps)

text \<open>Keys.\<close>

lemma read_partition:
  assumes "is_identifier w" and "arg \<in> set (declaration_texts (Partition_decl w t))"
  shows "vec0_parse_partition_key_definition same arg = Some (Inr (w, key_code t))"
    and "vec0_parse_vector_column same ok arg = Some (Inl SQLITE_EMPTY)"
proof -
  obtain word where "word \<in> set (key_words t)" "arg = w @ '' '' @ word @ '' partition key''"
    using assms(2) by (auto simp: declaration_texts_def)
  then show "vec0_parse_partition_key_definition same arg = Some (Inr (w, key_code t))" "vec0_parse_vector_column same ok arg = Some (Inl SQLITE_EMPTY)"
    using assms(1)
    by (cases t; simp only: key_words.simps list.set insert_iff empty_iff; elim disjE FalseE;
        simp add: vec0_parse_partition_key_definition_def key_definition_def vec0_parse_vector_column_def token_word token_same lower_simps)+
qed

lemmas parsers = vec0_parse_partition_key_definition_def vec0_parse_primary_key_definition_def key_definition_def
  vec0_parse_vector_column_def vec0_parse_auxiliary_column_definition_def vec0_parse_metadata_column_definition_def

lemma read_primary:
  assumes "is_identifier w" and "arg \<in> set (declaration_texts (Primary_decl w t))"
  shows "vec0_parse_primary_key_definition same arg = Some (Inr (w, key_code t))"
    and "vec0_parse_vector_column same ok arg = Some (Inl SQLITE_EMPTY)"
    and "vec0_parse_partition_key_definition same arg = Some (Inl SQLITE_EMPTY)"
proof -
  obtain word where "word \<in> set (key_words t)" "arg = w @ '' '' @ word @ '' primary key''"
    using assms(2) by (auto simp: declaration_texts_def)
  then show "vec0_parse_primary_key_definition same arg = Some (Inr (w, key_code t))" "vec0_parse_vector_column same ok arg = Some (Inl SQLITE_EMPTY)"
    "vec0_parse_partition_key_definition same arg = Some (Inl SQLITE_EMPTY)"
    using assms(1)
    by (cases t; simp only: key_words.simps list.set insert_iff empty_iff; elim disjE FalseE; simp add: parsers token_word token_same lower_simps)+
qed

lemma read_metadata:
  assumes "is_identifier w" and "arg \<in> set (declaration_texts (Metadata_decl w k))"
  shows "vec0_parse_metadata_column_definition same arg = Some (Inr (w, k))"
    and "vec0_parse_vector_column same ok arg = Some (Inl SQLITE_EMPTY)"
    and "vec0_parse_partition_key_definition same arg = Some (Inl SQLITE_EMPTY)"
    and "vec0_parse_primary_key_definition same arg = Some (Inl SQLITE_EMPTY)"
    and "vec0_parse_auxiliary_column_definition same arg = Some (Inl SQLITE_EMPTY)"
proof -
  obtain word where word: "word \<in> set (metadata_words k)" "arg = w @ '' '' @ word"
    using assms(2) by (auto simp: declaration_texts_def)
  have f: "vector_element_type_of same (word_token ''float'' r) = Some FLOAT32" "vector_element_type_of same (word_token ''float64'' r) = Some FLOAT32" for r
    by (simp_all add: vector_element_type_of_def same lower_simps)
  have m: "metadata_type same (word_token word r) = Some k" for r by (rule metadata_types_of [OF word(1)])
  show "vec0_parse_metadata_column_definition same arg = Some (Inr (w, k))"
    using word assms(1) m
    by (cases k; simp only: metadata_words.simps list.set insert_iff empty_iff; elim disjE FalseE; simp add: parsers token_word)
  show "vec0_parse_vector_column same ok arg = Some (Inl SQLITE_EMPTY)" "vec0_parse_partition_key_definition same arg = Some (Inl SQLITE_EMPTY)"
    "vec0_parse_primary_key_definition same arg = Some (Inl SQLITE_EMPTY)" "vec0_parse_auxiliary_column_definition same arg = Some (Inl SQLITE_EMPTY)"
    using word assms(1) f
    by (cases k; simp only: metadata_words.simps list.set insert_iff empty_iff; elim disjE FalseE; simp add: parsers token_word token_same lower_simps)+
qed

text \<open>An auxiliary column: the plus sign passes for a name, the name for a type.\<close>

lemma lower_blank: "ascii_lower c = CHR '' '' \<longleftrightarrow> c = CHR '' ''"
proof -
  have "ascii_lower c \<noteq> CHR '' ''" if "is_alpha c" "(of_char c :: nat) \<le> 90"
  proof
    assume "ascii_lower c = CHR '' ''"
    then have "(of_char (char_of ((of_char c :: nat) + 32) :: char) :: nat) = 32" using that by (simp add: ascii_lower_def)
    then show False using that by (auto simp: is_alpha_def Let_def)
  qed
  then show ?thesis by (auto simp: ascii_lower_def is_alpha_def)
qed

lemma begins_with_word:
  assumes "\<not> begins_with w start" and "CHR '' '' \<notin> set start"
  shows "\<not> same (w @ CHR '' '' # r) start (length start)"
proof
  assume "same (w @ CHR '' '' # r) start (length start)"
  then have e: "map ascii_lower (take (length start) (w @ CHR '' '' # r)) = map ascii_lower start" by (simp add: same)
  show False
  proof (cases "length start \<le> length w")
    case True
    then show ?thesis using e assms(1) by (simp add: begins_with_def)
  next
    case False
    then have "CHR '' '' \<in> set (take (length start) (w @ CHR '' '' # r))" by (simp add: take_Cons')
    then have "CHR '' '' \<in> ascii_lower ` set (take (length start) (w @ CHR '' '' # r))"
      by (metis image_eqI lower_blank)
    then have "CHR '' '' \<in> ascii_lower ` set start" using e by (metis list.set_map)
    then show ?thesis using assms(2) by (auto simp: lower_blank dest: sym)
  qed
qed

lemma read_auxiliary:
  assumes "is_identifier w" and "\<not> looks_like_vector w" and "arg \<in> set (declaration_texts (Auxiliary_decl w t))"
  shows "vec0_parse_auxiliary_column_definition same arg = Some (Inr (w, auxiliary_code t))"
    and "vec0_parse_vector_column same ok arg = Some (Inl SQLITE_EMPTY)"
    and "vec0_parse_partition_key_definition same arg = Some (Inl SQLITE_EMPTY)"
    and "vec0_parse_primary_key_definition same arg = Some (Inl SQLITE_EMPTY)"
proof -
  obtain word where word: "word \<in> set (auxiliary_words t)" and arg: "arg = ''+'' @ w @ '' '' @ word"
    using assms(3) by (auto simp: declaration_texts_def)
  have "vector_element_type_of same (word_token w (CHR '' '' # r)) = None" for r
    using assms(2) begins_with_word [of w "''float''" r] begins_with_word [of w "''f32''" r] begins_with_word [of w "''int8''" r]
      begins_with_word [of w "''i8''" r] begins_with_word [of w "''bit''" r]
    by (simp add: looks_like_vector_def vector_element_type_of_def numeral_eq_Suc)
  then show "vec0_parse_vector_column same ok arg = Some (Inl SQLITE_EMPTY)"
    using assms(1) by (simp add: arg parsers token_word token_end_def)
  have t: "vec0_token_next word = Token_SOME (word_token word [])"
    using word token_word [of word "[]"] words_are_identifiers
    by (cases t; simp only: auxiliary_words.simps list.set insert_iff empty_iff; elim disjE FalseE; simp)
  have e: "\<not> token_is same (word_token word r) ''partition''" "\<not> token_is same (word_token word r) ''primary''" for r
    using word
    by (cases t; simp only: auxiliary_words.simps list.set insert_iff empty_iff; elim disjE FalseE; simp add: token_same lower_simps)+
  show "vec0_parse_partition_key_definition same arg = Some (Inl SQLITE_EMPTY)" "vec0_parse_primary_key_definition same arg = Some (Inl SQLITE_EMPTY)"
    using assms(1) e t by (simp_all add: arg parsers token_word token_end_def split: option.split)
  show "vec0_parse_auxiliary_column_definition same arg = Some (Inr (w, auxiliary_code t))"
    using assms(1) auxiliary_types_of [OF word] t by (simp add: arg parsers token_word token_end_def)
qed

text \<open>The table option: the equal sign passes for a type, as a word without letters.\<close>

lemma read_chunk_size:
  shows "vec0_parse_vector_column same ok (declaration_text (Chunk_size_decl n)) = Some (Inl SQLITE_EMPTY)"
    and "vec0_parse_partition_key_definition same (declaration_text (Chunk_size_decl n)) = Some (Inl SQLITE_EMPTY)"
    and "vec0_parse_primary_key_definition same (declaration_text (Chunk_size_decl n)) = Some (Inl SQLITE_EMPTY)"
    and "vec0_parse_auxiliary_column_definition same (declaration_text (Chunk_size_decl n)) = Some (Inl SQLITE_EMPTY)"
    and "vec0_parse_metadata_column_definition same (declaration_text (Chunk_size_decl n)) = Some (Inl SQLITE_EMPTY)"
    and "vec0_parse_table_option (declaration_text (Chunk_size_decl n)) =
      Some (Inr (word_token ''chunk_size'' (CHR ''='' # decimal n), number_token (decimal n) []))"
proof -
  obtain c cs where d: "decimal n = c # cs" "is_digit c" using decimal_digits [of n] by (cases "decimal n") auto
  have c: "ascii_lower c \<noteq> CHR ''p''" using d(2) by (auto simp: ascii_lower_def is_alpha_def is_digit_def Let_def)
  have p: "ascii_lower CHR ''p'' = CHR ''p''" by (simp add: lower_simps)
  have t: "vec0_token_next (decimal n) = Token_SOME (number_token (decimal n) [])" using token_number [of "[]" n] by simp
  have e: "\<not> token_is same (number_token (decimal n) []) ''partition''" "\<not> token_is same (number_token (decimal n) []) ''primary''"
    using c p by (simp_all add: token_is_def same d(1))
  show "vec0_parse_vector_column same ok (declaration_text (Chunk_size_decl n)) = Some (Inl SQLITE_EMPTY)"
    "vec0_parse_auxiliary_column_definition same (declaration_text (Chunk_size_decl n)) = Some (Inl SQLITE_EMPTY)"
    "vec0_parse_metadata_column_definition same (declaration_text (Chunk_size_decl n)) = Some (Inl SQLITE_EMPTY)"
    by (simp_all add: declaration_text_def parsers)
  have key: "key_type same \<lparr>token_type = TOKEN_TYPE_EQ, token_start = s, token_length = 0\<rparr> = Some SQLITE_TEXT" for s
    by (simp add: key_type_def token_is_def same)
  show "vec0_parse_partition_key_definition same (declaration_text (Chunk_size_decl n)) = Some (Inl SQLITE_EMPTY)"
    "vec0_parse_primary_key_definition same (declaration_text (Chunk_size_decl n)) = Some (Inl SQLITE_EMPTY)"
    using e key by (simp_all add: declaration_text_def parsers t token_end_def)
  show "vec0_parse_table_option (declaration_text (Chunk_size_decl n)) =
      Some (Inr (word_token ''chunk_size'' (CHR ''='' # decimal n), number_token (decimal n) []))"
    by (simp add: declaration_text_def vec0_parse_table_option_def t token_end_def vec0_scanner_next_def number_token_def)
      (simp add: vec0_token_next.simps)
qed

end

declare column_options.simps [simp del]

context ascii_compare
begin

lemma options_end: "column_options same t m \<lparr>scan_from = [], last_token = l\<rparr> = Some (Inr m)"
  by (simp add: column_options.simps column_option_def vec0_scanner_next_def vec0_token_next.simps)

lemma read_options:
  assumes "col_element_type c = BIT \<longrightarrow> col_metric c = METRIC_L2" and "options \<in> set (metric_texts c)"
  shows "column_options same (col_element_type c) METRIC_L2 \<lparr>scan_from = options, last_token = l\<rparr> = Some (Inr (col_metric c))"
proof (cases "options = []")
  case True
  then have "col_metric c = METRIC_L2"
    using assms by (cases "col_element_type c = BIT") (auto simp: metric_texts_def metric_text_def split: if_splits)
  then show ?thesis using True by (simp add: options_end)
next
  case False
  then have o: "options = metric_text c" "col_element_type c \<noteq> BIT" using assms(2) by (auto simp: metric_texts_def metric_text_def split: if_splits)
  have "is_identifier (metric_word (col_metric c))" by (cases "col_metric c") (simp_all add: words_are_identifiers)
  then have m: "vec0_token_next (metric_word (col_metric c)) = Token_SOME (word_token (metric_word (col_metric c)) [])"
    using token_word [of "metric_word (col_metric c)" "[]"] by simp
  have k: "token_is same (word_token ''distance_metric'' r) ''distance_metric''" for r by (simp add: token_same)
  show ?thesis using o m k
    by (subst column_options.simps)
      (simp add: metric_text_def column_option_def vec0_scanner_next_def token_end_def options_end)
qed

lemma read_vector:
  assumes "declaration_ok (Vector_decl w c)" and "ok w" and "arg \<in> set (declaration_texts (Vector_decl w c))"
  shows "vec0_parse_vector_column same ok arg = Some (Inr (w, c))"
proof -
  obtain word options where word: "word \<in> set (element_words (col_element_type c))" and options: "options \<in> set (metric_texts c)"
    and arg: "arg = w @ '' '' @ word @ ''['' @ decimal (col_dimensions c) @ '']'' @ options"
    using assms(3) by (auto simp: declaration_texts_def)
  define s where "s = decimal (col_dimensions c) @ CHR '']'' # options"
  have a: "is_identifier w" "0 < col_dimensions c" "col_dimensions c < 2 ^ 31" "col_element_type c = BIT \<longrightarrow> col_metric c = METRIC_L2"
    using assms(1) by (simp_all add: declaration_ok_def)
  have n: "vec0_token_next s = Token_SOME (number_token (decimal (col_dimensions c)) (CHR '']'' # options))"
    "atoi s = Some (int (col_dimensions c))"
    using token_number [of "CHR '']'' # options" "col_dimensions c"] atoi_decimal [of "CHR '']'' # options" "col_dimensions c"] a(3)
    by (simp_all add: s_def)
  have c: "\<lparr>col_dimensions = col_dimensions c, col_element_type = col_element_type c, col_metric = col_metric c\<rparr> = c" by simp
  have t: "arg = w @ CHR '' '' # word @ CHR ''['' # s" by (simp add: arg s_def)
  have "is_identifier word" using word words_are_identifiers by (cases "col_element_type c") auto
  then have e: "vec0_token_next (word @ CHR ''['' # s) = Token_SOME (word_token word (CHR ''['' # s))" by (rule token_word) simp
  have v: "vector_element_type_of same (word_token word (CHR ''['' # s)) = Some (col_element_type c)" by (rule element_types_of [OF word])
  show ?thesis unfolding t vec0_parse_vector_column_def
    using a n e v assms(2) read_options [OF a(4) options] by (simp add: token_word token_end_def c) (simp add: s_def token_end_def c)
qed

end

text \<open>Each declaration has the effect it should have.\<close>

definition declare_column :: "table_declaration \<Rightarrow> definitions \<Rightarrow> definitions" where
  "declare_column decl d =
     (case decl of
        Vector_decl w c \<Rightarrow> add_user_column KIND_VECTOR (length (vectors d)) (d\<lparr>vectors := vectors d @ [(w, c)]\<rparr>)
      | Partition_decl w t \<Rightarrow> add_user_column KIND_PARTITION (length (partitions d)) (d\<lparr>partitions := partitions d @ [(w, key_code t)]\<rparr>)
      | Primary_decl w t \<Rightarrow> d\<lparr>primary_key := Some (w, key_code t)\<rparr>
      | Auxiliary_decl w t \<Rightarrow>
          add_user_column KIND_AUXILIARY (length (auxiliaries d)) (d\<lparr>auxiliaries := auxiliaries d @ [(w, auxiliary_code t)]\<rparr>)
      | Metadata_decl w k \<Rightarrow> add_user_column KIND_METADATA (length (metadatas d)) (d\<lparr>metadatas := metadatas d @ [(w, k)]\<rparr>)
      | Chunk_size_decl n \<Rightarrow> d\<lparr>given_chunk_size := int n\<rparr>)"

text \<open>There is room for one more.\<close>

definition room_for :: "table_declaration \<Rightarrow> definitions \<Rightarrow> bool" where
  "room_for decl d =
     (case decl of
        Vector_decl _ _ \<Rightarrow> length (vectors d) < MAX_VECTOR_COLUMNS
      | Partition_decl _ _ \<Rightarrow> length (partitions d) < MAX_PARTITION_COLUMNS
      | Primary_decl _ _ \<Rightarrow> primary_key d = None
      | Auxiliary_decl _ _ \<Rightarrow> length (auxiliaries d) < MAX_AUXILIARY_COLUMNS
      | Metadata_decl _ _ \<Rightarrow> length (metadatas d) < MAX_METADATA_COLUMNS
      | Chunk_size_decl _ \<Rightarrow> True)"

context ascii_compare
begin

lemmas arguments = table_argument_def or_else_def vector_argument_def partition_argument_def primary_argument_def auxiliary_argument_def
  metadata_argument_def option_argument_def

lemma read_declaration:
  assumes ok: "declaration_ok decl" and room: "room_for decl d" and names: "\<And>w. ok w" and arg: "arg \<in> set (declaration_texts decl)"
  shows "table_argument same ok arg d = Some (Inr (Some (declare_column decl d)))"
proof (cases decl)
  case (Vector_decl w c)
  then show ?thesis using read_vector [of w c ok arg] assms
    by (simp add: table_argument_def or_else_def vector_argument_def declare_column_def room_for_def declaration_ok_def)
next
  case (Partition_decl w t)
  then show ?thesis using read_partition [where w = w and t = t and arg = arg] assms
    by (simp add: arguments declare_column_def room_for_def declaration_ok_def)
next
  case (Primary_decl w t)
  then show ?thesis using read_primary [where w = w and t = t and arg = arg] assms
    by (simp add: arguments declare_column_def room_for_def declaration_ok_def)
next
  case (Auxiliary_decl w t)
  then show ?thesis using read_auxiliary [where w = w and t = t and arg = arg] assms
    by (simp add: arguments declare_column_def room_for_def declaration_ok_def)
next
  case (Metadata_decl w k)
  then show ?thesis using read_metadata [where w = w and k = k and arg = arg] assms
    by (simp add: arguments declare_column_def room_for_def declaration_ok_def)
next
  case (Chunk_size_decl n)
  have k: "token_is same (word_token ''chunk_size'' r) ''chunk_size''" for r by (simp add: token_same)
  have "int n mod 8 = 0" "0 < n" "int n \<le> CHUNK_SIZE_MAX" using assms(1) Chunk_size_decl by (auto simp: declaration_ok_def simp flip: of_nat_mod)
  moreover have "arg = declaration_text (Chunk_size_decl n)"
    using arg Chunk_size_decl by (simp add: declaration_texts_def declaration_text_def)
  ultimately show ?thesis using read_chunk_size [where n = n] k atoi_decimal [of "[]" n] Chunk_size_decl
    by (simp add: arguments declare_column_def)
qed

end

text \<open>All of them, one after the other.\<close>

fun all_fit :: "table_declaration list \<Rightarrow> definitions \<Rightarrow> bool" where
  "all_fit [] d \<longleftrightarrow> True"
| "all_fit (decl # decls) d \<longleftrightarrow> declaration_ok decl \<and> room_for decl d \<and> all_fit decls (declare_column decl d)"

subsection \<open>What the constructor has established\<close>

lemma num_columns: "num_defined_user_columns p =
    kind_count p KIND_VECTOR + kind_count p KIND_PARTITION + kind_count p KIND_AUXILIARY + kind_count p KIND_METADATA"
  by (simp add: num_defined_user_columns_def kind_count_def)

lemma columns_ok_add:
  assumes "columns_ok p" and "user_column_kinds q = user_column_kinds p @ [kind]" and "user_column_idxs q = user_column_idxs p @ [kind_count p kind]"
    and "\<And>k. kind_count q k = kind_count p k + (if k = kind then 1 else 0)"
  shows "columns_ok q"
proof -
  have n: "num_defined_user_columns q = num_defined_user_columns p + 1"
    by (cases kind) (simp_all add: num_columns assms(4))
  have l: "length (user_column_kinds p) = length (user_column_idxs p)" using assms(1) by (simp add: columns_ok_def)
  show ?thesis using assms(1) n unfolding columns_ok_def by (simp add: assms(2-4) l)
qed

text \<open>The limits that the loop over the arguments keeps.\<close>

definition definitions_ok :: "definitions \<Rightarrow> bool" where
  "definitions_ok d \<longleftrightarrow> columns_ok (table_of d) \<and>
     length (vectors d) \<le> MAX_VECTOR_COLUMNS \<and> length (partitions d) \<le> MAX_PARTITION_COLUMNS \<and>
     length (auxiliaries d) \<le> MAX_AUXILIARY_COLUMNS \<and> length (metadatas d) \<le> MAX_METADATA_COLUMNS \<and>
     (\<forall>(_, c) \<in> set (vectors d). 0 < col_dimensions c \<and> col_dimensions c \<le> MAX_DIMENSIONS \<and> (col_element_type c = BIT \<longrightarrow> col_metric c = METRIC_L2)) \<and>
     (given_chunk_size d = -1 \<or> 0 < given_chunk_size d \<and> given_chunk_size d mod 8 = 0 \<and> given_chunk_size d \<le> CHUNK_SIZE_MAX)"

lemma no_definitions_ok: "definitions_ok no_definitions"
  by (auto simp: definitions_ok_def no_definitions_def columns_ok_def table_of_def num_defined_user_columns_def kind_count_def
      split: user_column_kind.split)

lemma add_column_ok:
  assumes "columns_ok (table_of d)" and "kinds d' = kinds d" and "idxs d' = idxs d"
    and "\<And>k. kind_count (table_of d') k = kind_count (table_of d) k + (if k = kind then 1 else 0)"
  shows "columns_ok (table_of (add_user_column kind (kind_count (table_of d) kind) d'))"
proof (rule columns_ok_add [OF assms(1)])
  show "user_column_kinds (table_of (add_user_column kind (kind_count (table_of d) kind) d')) = user_column_kinds (table_of d) @ [kind]"
    "user_column_idxs (table_of (add_user_column kind (kind_count (table_of d) kind) d')) = user_column_idxs (table_of d) @ [kind_count (table_of d) kind]"
    by (simp_all add: table_of_def add_user_column_def assms(2,3))
  have "kind_count (table_of (add_user_column kind n d')) k = kind_count (table_of d') k" for n k
    by (cases k) (simp_all add: kind_count_def table_of_def add_user_column_def)
  then show "kind_count (table_of (add_user_column kind (kind_count (table_of d) kind) d')) k =
      kind_count (table_of d) k + (if k = kind then 1 else 0)" for k
    by (simp add: assms(4))
qed

text \<open>A vector column that is read is of a positive dimension; a metric is only given to one that is not of bits.\<close>

lemma bit_has_no_metric:
  "column_options same BIT m s = Some (Inr m') \<Longrightarrow> m' = m"
proof -
  have "column_option same BIT s \<noteq> Some (Inr (Some x))" for x
    by (auto simp: column_option_def and_then_Some split: if_splits option.splits)
  then show "column_options same BIT m s = Some (Inr m') \<Longrightarrow> m' = m"
    by (subst (asm) column_options.simps) (auto split: option.splits sum.splits)
qed

lemma vector_column_read:
  assumes "vec0_parse_vector_column same ok s = Some (Inr (w, c))"
  shows "0 < col_dimensions c" and "col_element_type c = BIT \<longrightarrow> col_metric c = METRIC_L2"
  using assms bit_has_no_metric [of same METRIC_L2]
  by (auto simp: vec0_parse_vector_column_def and_then_Some split: option.splits if_splits)

lemma or_else_Some: "or_else x y = Some (Inr (Some d)) \<Longrightarrow> x = Some (Inr (Some d)) \<or> y = Some (Inr (Some d))"
  by (auto simp: or_else_def and_then_Some split: option.splits)

text \<open>A column more of its kind, with all else as before.\<close>

lemma one_more_ok:
  assumes "definitions_ok d" and "kinds d' = kinds d" and "idxs d' = idxs d" and "given_chunk_size d' = given_chunk_size d"
    and "\<And>k. kind_count (table_of d') k = kind_count (table_of d) k + (if k = kind then 1 else 0)"
    and "kind_count (table_of d') kind \<le> (if kind = KIND_PARTITION then MAX_PARTITION_COLUMNS else 16)"
    and "\<forall>(_, c) \<in> set (vectors d') - set (vectors d). 0 < col_dimensions c \<and> col_dimensions c \<le> MAX_DIMENSIONS \<and>
      (col_element_type c = BIT \<longrightarrow> col_metric c = METRIC_L2)"
    and "d'' = add_user_column kind (kind_count (table_of d) kind) d'"
  shows "definitions_ok d''"
proof -
  have cols: "columns_ok (table_of d'')" unfolding assms(8) using assms(1) by (intro add_column_ok assms(2,3,5)) (simp add: definitions_ok_def)
  have same: "vectors d'' = vectors d'" "partitions d'' = partitions d'" "auxiliaries d'' = auxiliaries d'" "metadatas d'' = metadatas d'"
    "given_chunk_size d'' = given_chunk_size d" by (simp_all add: assms(4,8) add_user_column_def)
  have counts: "length (vectors e) = kind_count (table_of e) KIND_VECTOR" "length (partitions e) = kind_count (table_of e) KIND_PARTITION"
    "length (auxiliaries e) = kind_count (table_of e) KIND_AUXILIARY" "length (metadatas e) = kind_count (table_of e) KIND_METADATA" for e
    by (simp_all add: kind_count_def table_of_def)
  have "length (vectors d') \<le> MAX_VECTOR_COLUMNS \<and> length (partitions d') \<le> MAX_PARTITION_COLUMNS \<and>
      length (auxiliaries d') \<le> MAX_AUXILIARY_COLUMNS \<and> length (metadatas d') \<le> MAX_METADATA_COLUMNS"
    using assms(1,6) unfolding counts assms(5) by (cases kind) (simp_all add: definitions_ok_def counts)
  then show ?thesis using cols assms(1,7) unfolding definitions_ok_def same by blast
qed

lemma vector_argument_ok:
  assumes "vector_argument same ok arg d = Some (Inr (Some d'))" and "definitions_ok d"
  shows "definitions_ok d'"
proof -
  obtain w c where v: "vec0_parse_vector_column same ok arg = Some (Inr (w, c))" "length (vectors d) < MAX_VECTOR_COLUMNS"
      "col_dimensions c \<le> MAX_DIMENSIONS" "d' = add_user_column KIND_VECTOR (length (vectors d)) (d\<lparr>vectors := vectors d @ [(w, c)]\<rparr>)"
    using assms(1) by (auto simp: vector_argument_def split: option.splits sum.splits if_splits prod.splits)
  show ?thesis using vector_column_read [OF v(1)] v(2-4)
    by (intro one_more_ok [OF assms(2), of "d\<lparr>vectors := vectors d @ [(w, c)]\<rparr>" KIND_VECTOR])
      (auto simp: kind_count_def table_of_def split: user_column_kind.split)
qed

lemma partition_argument_ok:
  assumes "partition_argument same ok arg d = Some (Inr (Some d'))" and "definitions_ok d"
  shows "definitions_ok d'"
proof -
  obtain w t where v: "length (partitions d) < MAX_PARTITION_COLUMNS"
      "d' = add_user_column KIND_PARTITION (length (partitions d)) (d\<lparr>partitions := partitions d @ [(w, t)]\<rparr>)"
    using assms(1) by (auto simp: partition_argument_def split: option.splits sum.splits if_splits prod.splits)
  show ?thesis using v
    by (intro one_more_ok [OF assms(2), of "d\<lparr>partitions := partitions d @ [(w, t)]\<rparr>" KIND_PARTITION])
      (auto simp: kind_count_def table_of_def split: user_column_kind.split)
qed

lemma auxiliary_argument_ok:
  assumes "auxiliary_argument same ok arg d = Some (Inr (Some d'))" and "definitions_ok d"
  shows "definitions_ok d'"
proof -
  obtain w t where v: "length (auxiliaries d) < MAX_AUXILIARY_COLUMNS"
      "d' = add_user_column KIND_AUXILIARY (length (auxiliaries d)) (d\<lparr>auxiliaries := auxiliaries d @ [(w, t)]\<rparr>)"
    using assms(1) by (auto simp: auxiliary_argument_def split: option.splits sum.splits if_splits prod.splits)
  show ?thesis using v
    by (intro one_more_ok [OF assms(2), of "d\<lparr>auxiliaries := auxiliaries d @ [(w, t)]\<rparr>" KIND_AUXILIARY])
      (auto simp: kind_count_def table_of_def split: user_column_kind.split)
qed

lemma metadata_argument_ok:
  assumes "metadata_argument same ok arg d = Some (Inr (Some d'))" and "definitions_ok d"
  shows "definitions_ok d'"
proof -
  obtain w t where v: "length (metadatas d) < MAX_METADATA_COLUMNS"
      "d' = add_user_column KIND_METADATA (length (metadatas d)) (d\<lparr>metadatas := metadatas d @ [(w, t)]\<rparr>)"
    using assms(1) by (auto simp: metadata_argument_def split: option.splits sum.splits if_splits prod.splits)
  show ?thesis using v
    by (intro one_more_ok [OF assms(2), of "d\<lparr>metadatas := metadatas d @ [(w, t)]\<rparr>" KIND_METADATA])
      (auto simp: kind_count_def table_of_def split: user_column_kind.split)
qed

lemma columns_ok_of: "kinds d' = kinds d \<Longrightarrow> idxs d' = idxs d \<Longrightarrow> vectors d' = vectors d \<Longrightarrow> partitions d' = partitions d \<Longrightarrow>
    auxiliaries d' = auxiliaries d \<Longrightarrow> metadatas d' = metadatas d \<Longrightarrow> columns_ok (table_of d') = columns_ok (table_of d)"
proof -
  assume e: "kinds d' = kinds d" "idxs d' = idxs d" "vectors d' = vectors d" "partitions d' = partitions d" "auxiliaries d' = auxiliaries d"
    "metadatas d' = metadatas d"
  have "user_column_kinds (table_of d') = user_column_kinds (table_of d)" "user_column_idxs (table_of d') = user_column_idxs (table_of d)"
    by (simp_all add: table_of_def e)
  moreover have "kind_count (table_of d') k = kind_count (table_of d) k" for k by (cases k) (simp_all add: kind_count_def table_of_def e)
  ultimately show ?thesis by (simp add: columns_ok_def num_columns)
qed

lemma other_arguments_ok:
  assumes "definitions_ok d"
  shows "primary_argument same arg d = Some (Inr (Some d')) \<Longrightarrow> definitions_ok d'"
    and "option_argument same arg d = Some (Inr (Some d')) \<Longrightarrow> definitions_ok d'"
proof -
  assume "primary_argument same arg d = Some (Inr (Some d'))"
  then obtain k where "d' = d\<lparr>primary_key := k\<rparr>" by (auto simp: primary_argument_def split: option.splits sum.splits if_splits)
  then show "definitions_ok d'" using assms columns_ok_of [of d' d] by (simp add: definitions_ok_def)
next
  assume "option_argument same arg d = Some (Inr (Some d'))"
  then obtain n where "\<not> n \<le> 0" "8 dvd n" "\<not> CHUNK_SIZE_MAX < n" "d' = d\<lparr>given_chunk_size := n\<rparr>"
    by (auto simp: option_argument_def split: option.splits sum.splits if_splits prod.splits)
  then show "definitions_ok d'" using assms columns_ok_of [of d' d] by (simp add: definitions_ok_def)
qed

lemma table_argument_ok:
  assumes "table_argument same ok arg d = Some (Inr (Some d'))" and "definitions_ok d"
  shows "definitions_ok d'"
  using assms(1) unfolding table_argument_def
  by (elim or_else_Some [THEN disjE])
    (blast intro: vector_argument_ok partition_argument_ok auxiliary_argument_ok metadata_argument_ok other_arguments_ok assms(2) dest: or_else_Some)+

lemma table_arguments_ok:
  assumes "table_arguments same ok args d = Some (Inr d')" and "definitions_ok d"
  shows "definitions_ok d'"
  using assms
proof (induction args arbitrary: d)
  case (Cons arg args)
  then show ?case using table_argument_ok by (fastforce simp: and_then_Some split: option.splits)
qed simp

subsection \<open>What a list of declarations stands for\<close>

definition vector_decls :: "table_declaration list \<Rightarrow> (string \<times> vector_column) list" where
  "vector_decls = List.map_filter (\<lambda>decl. case decl of Vector_decl w c \<Rightarrow> Some (w, c) | _ \<Rightarrow> None)"

definition partition_decls :: "table_declaration list \<Rightarrow> (string \<times> int) list" where
  "partition_decls = List.map_filter (\<lambda>decl. case decl of Partition_decl w t \<Rightarrow> Some (w, key_code t) | _ \<Rightarrow> None)"

definition primary_decls :: "table_declaration list \<Rightarrow> (string \<times> int) list" where
  "primary_decls = List.map_filter (\<lambda>decl. case decl of Primary_decl w t \<Rightarrow> Some (w, key_code t) | _ \<Rightarrow> None)"

definition auxiliary_decls :: "table_declaration list \<Rightarrow> (string \<times> int) list" where
  "auxiliary_decls = List.map_filter (\<lambda>decl. case decl of Auxiliary_decl w t \<Rightarrow> Some (w, auxiliary_code t) | _ \<Rightarrow> None)"

definition metadata_decls :: "table_declaration list \<Rightarrow> (string \<times> metadata_kind) list" where
  "metadata_decls = List.map_filter (\<lambda>decl. case decl of Metadata_decl w k \<Rightarrow> Some (w, k) | _ \<Rightarrow> None)"

definition chunk_size_decls :: "table_declaration list \<Rightarrow> nat list" where
  "chunk_size_decls = List.map_filter (\<lambda>decl. case decl of Chunk_size_decl n \<Rightarrow> Some n | _ \<Rightarrow> None)"

definition column_decls :: "table_declaration list \<Rightarrow> (user_column_kind \<times> string) list" where
  "column_decls = List.map_filter (\<lambda>decl. case decl of
       Vector_decl w _ \<Rightarrow> Some (KIND_VECTOR, w) | Partition_decl w _ \<Rightarrow> Some (KIND_PARTITION, w)
     | Auxiliary_decl w _ \<Rightarrow> Some (KIND_AUXILIARY, w) | Metadata_decl w _ \<Rightarrow> Some (KIND_METADATA, w) | _ \<Rightarrow> None)"

lemmas decls_defs = vector_decls_def partition_decls_def primary_decls_def auxiliary_decls_def metadata_decls_def chunk_size_decls_def
  column_decls_def

lemma decls_Nil [simp]: "vector_decls [] = []" "partition_decls [] = []" "primary_decls [] = []" "auxiliary_decls [] = []"
  "metadata_decls [] = []" "chunk_size_decls [] = []" "column_decls [] = []"
  by (simp_all add: decls_defs map_filter_simps)

lemma decls_Cons:
  "vector_decls (decl # decls) = (case decl of Vector_decl w c \<Rightarrow> (w, c) # vector_decls decls | _ \<Rightarrow> vector_decls decls)"
  "partition_decls (decl # decls) = (case decl of Partition_decl w t \<Rightarrow> (w, key_code t) # partition_decls decls | _ \<Rightarrow> partition_decls decls)"
  "primary_decls (decl # decls) = (case decl of Primary_decl w t \<Rightarrow> (w, key_code t) # primary_decls decls | _ \<Rightarrow> primary_decls decls)"
  "auxiliary_decls (decl # decls) =
     (case decl of Auxiliary_decl w u \<Rightarrow> (w, auxiliary_code u) # auxiliary_decls decls | _ \<Rightarrow> auxiliary_decls decls)"
  "metadata_decls (decl # decls) = (case decl of Metadata_decl w k \<Rightarrow> (w, k) # metadata_decls decls | _ \<Rightarrow> metadata_decls decls)"
  "chunk_size_decls (decl # decls) = (case decl of Chunk_size_decl n \<Rightarrow> n # chunk_size_decls decls | _ \<Rightarrow> chunk_size_decls decls)"
  "column_decls (decl # decls) = (case decl of
       Vector_decl w _ \<Rightarrow> (KIND_VECTOR, w) # column_decls decls | Partition_decl w _ \<Rightarrow> (KIND_PARTITION, w) # column_decls decls
     | Auxiliary_decl w _ \<Rightarrow> (KIND_AUXILIARY, w) # column_decls decls | Metadata_decl w _ \<Rightarrow> (KIND_METADATA, w) # column_decls decls
     | _ \<Rightarrow> column_decls decls)"
  by (cases decl; simp add: decls_defs map_filter_simps)+

text \<open>Within the limits of the documentation.\<close>

definition declarations_ok :: "table_declaration list \<Rightarrow> bool" where
  "declarations_ok decls \<longleftrightarrow> (\<forall>decl \<in> set decls. declaration_ok decl) \<and> vector_decls decls \<noteq> [] \<and>
     length (vector_decls decls) \<le> MAX_VECTOR_COLUMNS \<and> length (partition_decls decls) \<le> MAX_PARTITION_COLUMNS \<and>
     length (primary_decls decls) \<le> 1 \<and> length (auxiliary_decls decls) \<le> MAX_AUXILIARY_COLUMNS \<and>
     length (metadata_decls decls) \<le> MAX_METADATA_COLUMNS"

text \<open>The text for \<^verbatim>\<open>sqlite3_declare_vtab\<close>: all columns under their names, in order.\<close>

definition declared_text :: "table_declaration list \<Rightarrow> string" where
  "declared_text decls =
     ''CREATE TABLE x('' @
     comma_separated ((case primary_decls decls of [] \<Rightarrow> ''rowid'' | (w, _) # _ \<Rightarrow> quoted w @ '' primary key'') #
       map (\<lambda>(_, w). quoted w) (column_decls decls) @ ['' distance hidden'', ''k hidden'']) @
     '') '' @ (if primary_decls decls \<noteq> [] then ''without rowid '' else '''')"

subsection \<open>Declaring one after the other\<close>

lemma declare_all:
  "vectors (fold declare_column decls d) = vectors d @ vector_decls decls"
  "partitions (fold declare_column decls d) = partitions d @ partition_decls decls"
  "auxiliaries (fold declare_column decls d) = auxiliaries d @ auxiliary_decls decls"
  "metadatas (fold declare_column decls d) = metadatas d @ metadata_decls decls"
  "kinds (fold declare_column decls d) = kinds d @ map fst (column_decls decls)"
  "primary_key (fold declare_column decls d) = (if primary_decls decls = [] then primary_key d else Some (last (primary_decls decls)))"
  "given_chunk_size (fold declare_column decls d) =
     (if chunk_size_decls decls = [] then given_chunk_size d else int (last (chunk_size_decls decls)))"
  by (induction decls arbitrary: d; simp add: decls_Cons declare_column_def add_user_column_def split: table_declaration.split)+

lemma all_fit_limits:
  assumes "\<forall>decl \<in> set decls. declaration_ok decl" and "length (vectors d) + length (vector_decls decls) \<le> MAX_VECTOR_COLUMNS"
    and "length (partitions d) + length (partition_decls decls) \<le> MAX_PARTITION_COLUMNS"
    and "(if primary_key d = None then 0 else 1) + length (primary_decls decls) \<le> 1"
    and "length (auxiliaries d) + length (auxiliary_decls decls) \<le> MAX_AUXILIARY_COLUMNS"
    and "length (metadatas d) + length (metadata_decls decls) \<le> MAX_METADATA_COLUMNS"
  shows "all_fit decls d"
  using assms
proof (induction decls arbitrary: d)
  case (Cons decl decls)
  have "all_fit decls (declare_column decl d)"
    using Cons.prems by (intro Cons.IH) (auto simp: decls_Cons declare_column_def add_user_column_def split: table_declaration.splits if_splits)
  moreover have "room_for decl d"
    using Cons.prems(2-) by (auto simp: decls_Cons room_for_def split: table_declaration.splits if_splits)
  ultimately show ?case using Cons.prems(1) by simp
qed simp

text \<open>Arguments that are texts of the declarations.\<close>

definition written_as :: "table_declaration list \<Rightarrow> string list \<Rightarrow> bool" where
  "written_as decls args \<longleftrightarrow> list_all2 (\<lambda>decl arg. arg \<in> set (declaration_texts decl)) decls args"

lemma written_in_full: "written_as decls (map declaration_text decls)"
  by (simp add: written_as_def list.rel_map declaration_text_among list_all2_refl)

lemma table_arguments_all:
  assumes "ascii_compare same" and "\<And>w. ok w" and "all_fit decls d" and "written_as decls args"
  shows "table_arguments same ok args d = Some (Inr (fold declare_column decls d))"
  using assms(4,3) unfolding written_as_def
proof (induction decls args arbitrary: d rule: list_all2_induct)
  case (Cons decl decls arg args)
  then show ?case using ascii_compare.read_declaration [OF assms(1) _ _ assms(2), of decl d arg] by simp
qed simp

text \<open>The names of the columns, as they are looked up for \<^verbatim>\<open>sqlite3_declare_vtab\<close>.\<close>

definition column_names :: "definitions \<Rightarrow> string list" where
  "column_names d = map (column_name d) [0..<user_columns d]"

lemma user_columns: "num_defined_user_columns (table_of d) = user_columns d"
  by (simp add: user_columns_def num_defined_user_columns_def table_of_def)

lemma table_of_simps [simp]:
  "user_column_kinds (table_of d) = kinds d" "user_column_idxs (table_of d) = idxs d" "vector_columns (table_of d) = map snd (vectors d)"
  "partition_columns (table_of d) = map snd (partitions d)" "auxiliary_columns (table_of d) = map snd (auxiliaries d)"
  "metadata_columns (table_of d) = map snd (metadatas d)"
  by (simp_all add: table_of_def)

lemma user_idx_less:
  assumes "columns_ok (table_of d)" and "i < user_columns d"
  shows "idxs d ! i < kind_count (table_of d) (kinds d ! i)"
proof -
  have "column_idx_is (kinds d ! i) (table_of d) (int i + 1)"
    using assms(2) by (simp add: column_idx_is_def user_columns)
  from column_idx_to_idx_less [OF assms(1) this] show ?thesis by (simp add: column_idx_to_idx_def)
qed

lemma add_name:
  assumes cols: "columns_ok (table_of d)" and d': "kinds d' = kinds d" "idxs d' = idxs d" "user_columns d' = user_columns d + 1"
    and more: "\<And>i k. i < kind_count (table_of d) k \<Longrightarrow> (case k of
        KIND_VECTOR \<Rightarrow> fst (vectors d' ! i) = fst (vectors d ! i) | KIND_PARTITION \<Rightarrow> fst (partitions d' ! i) = fst (partitions d ! i)
      | KIND_AUXILIARY \<Rightarrow> fst (auxiliaries d' ! i) = fst (auxiliaries d ! i) | KIND_METADATA \<Rightarrow> fst (metadatas d' ! i) = fst (metadatas d ! i))"
    and w: "(case kind of KIND_VECTOR \<Rightarrow> fst (vectors d' ! n) | KIND_PARTITION \<Rightarrow> fst (partitions d' ! n)
      | KIND_AUXILIARY \<Rightarrow> fst (auxiliaries d' ! n) | KIND_METADATA \<Rightarrow> fst (metadatas d' ! n)) = w"
  shows "column_names (add_user_column kind n d') = column_names d @ [w]"
proof -
  have l: "length (kinds d) = user_columns d" "length (idxs d) = user_columns d"
    using cols by (simp_all add: columns_ok_def user_columns)
  have u: "user_columns (add_user_column kind n d') = user_columns d + 1"
    using d'(3) by (simp add: user_columns_def add_user_column_def)
  have "column_name (add_user_column kind n d') i = column_name d i" if i: "i < user_columns d" for i
    using more [OF user_idx_less [OF cols i]] i l d'(1,2)
    by (cases "kinds d ! i") (simp_all add: column_name_def add_user_column_def nth_append)
  moreover have "column_name (add_user_column kind n d') (user_columns d) = w"
    using w l d'(1,2) by (cases kind) (simp_all add: column_name_def add_user_column_def nth_append)
  ultimately show ?thesis by (simp add: column_names_def u)
qed

lemma declare_names:
  assumes "definitions_ok d"
  shows "column_names (declare_column decl d) = column_names d @ map snd (column_decls [decl])"
proof -
  have cols: "columns_ok (table_of d)" using assms by (simp add: definitions_ok_def)
  have same: "column_names (d\<lparr>primary_key := k\<rparr>) = column_names d" "column_names (d\<lparr>given_chunk_size := n\<rparr>) = column_names d" for k n
    by (auto simp: column_names_def user_columns_def column_name_def Let_def split: user_column_kind.split)
  show ?thesis
    by (cases decl)
      (auto simp: declare_column_def decls_Cons same nth_append user_columns_def kind_count_def
        intro!: add_name [OF cols] split: user_column_kind.split)
qed

lemma declared_ok:
  assumes "ascii_compare same" and "all_fit decls d" and "definitions_ok d"
  shows "definitions_ok (fold declare_column decls d)"
  using table_arguments_all [OF assms(1) _ assms(2) written_in_full, of "\<lambda>_. True"] table_arguments_ok [OF _ assms(3)] by blast

lemma declare_all_names:
  assumes "ascii_compare same" and "all_fit decls d" and "definitions_ok d"
  shows "column_names (fold declare_column decls d) = column_names d @ map snd (column_decls decls)"
  using assms(2,3)
proof (induction decls arbitrary: d)
  case (Cons decl decls)
  have "definitions_ok (declare_column decl d)"
    using declared_ok [OF assms(1), of "[decl]" d] Cons.prems by simp
  moreover have "map snd (column_decls (decl # decls)) = map snd (column_decls [decl]) @ map snd (column_decls decls)"
    by (simp add: decls_Cons split: table_declaration.split)
  ultimately show ?case using Cons declare_names [of d decl] by simp
qed simp

end
