(* ===== verification/VecCreateProperties.thy ===== *)
theory VecCreateProperties imports VecDeclarations "HOL-Library.Multiset" begin

text \<open>
  What the constructor of a \<^verbatim>\<open>vec0\<close> table promises: declarations are read back, what it accepts has a valid layout,
  dropping a table removes the shadow tables that making it has added.
\<close>

subsection \<open>Reading the declarations\<close>

lemma connect_declared:
  assumes "ascii_compare same" and "declarations_ok decls"
    and "vtab_ok A db" and "\<And>w. copy_ok A db w" and "declare_text_ok A db" and "declare_vtab A db (declared_text decls) = SQLITE_OK"
    and "written_as decls args"
  shows "vec0Connect A same db schema table args = Some (Inr (table_of (fold declare_column decls no_definitions)), db)"
    and "definitions_ok (fold declare_column decls no_definitions)"
proof -
  define d where "d = fold declare_column decls no_definitions"
  have fit: "all_fit decls no_definitions"
    using assms(2) by (intro all_fit_limits) (simp_all add: declarations_ok_def no_definitions_def)
  have read: "table_arguments same (copy_ok A db) args no_definitions = Some (Inr d)"
    unfolding d_def by (rule table_arguments_all [OF assms(1,4) fit assms(7)])
  show "definitions_ok (fold declare_column decls no_definitions)" by (rule declared_ok [OF assms(1) fit no_definitions_ok])
  note all = declare_all [of decls no_definitions, folded d_def]
  have names: "column_names d = map snd (column_decls decls)"
    using declare_all_names [OF assms(1) fit no_definitions_ok] by (simp add: d_def column_names_def user_columns_def no_definitions_def)
  have "primary_decls decls = [] \<or> (\<exists>w t. primary_decls decls = [(w, t)])"
    using assms(2) by (cases "primary_decls decls") (auto simp: declarations_ok_def)
  moreover have "map (\<lambda>i. quoted (column_name d i)) [0..<user_columns d] = map (\<lambda>(_, w). quoted w) (column_decls decls)"
    using arg_cong [OF names, of "map quoted"] by (simp add: column_names_def comp_def case_prod_unfold)
  ultimately have declared: "declare_text d = declared_text decls"
    using all(6) by (auto simp: declare_text_def declared_text_def declared_columns_def no_definitions_def)
  have "vectors d \<noteq> []" using assms(2) all(1) by (simp add: declarations_ok_def)
  then show "vec0Connect A same db schema table args = Some (Inr (table_of (fold declare_column decls no_definitions)), db)"
    using assms(3-6) read declared by (simp add: vec0Connect_def vec0_init_def list_all_iff Let_def d_def)
qed

text \<open>
  C9: declarations of vector, partition key, primary key, auxiliary and metadata columns and of a chunk size, within the
  limits of the documentation and each written in one of its forms (a name, one of the words for the type, and the metric of a vector
  column, which may be left out where it is \<^verbatim>\<open>l2\<close>), are read as what they say: the table is told to SQLite with all its columns
  under their names and in order, and has exactly the columns declared, each of its kind with its dimension, element type,
  metric or type, and the chunk size given last, or 1024. The name of an auxiliary column must not begin like an element
  type (with such a name the declaration is refused, as \<open>auxiliary_name_refused\<close> says); words are in lower case, one blank apart.
\<close>

theorem declarations_are_read_back:
  assumes "ascii_compare same" and "declarations_ok decls" and "written_as decls args"
    and "vtab_ok A db" and "\<And>w. copy_ok A db w" and "declare_text_ok A db" and "declare_vtab A db (declared_text decls) = SQLITE_OK"
  shows "\<exists>p. vec0Connect A same db schema table args = Some (Inr p, db) \<and> columns_ok p \<and>
    user_column_kinds p = map fst (column_decls decls) \<and> vector_columns p = map snd (vector_decls decls) \<and>
    partition_columns p = map snd (partition_decls decls) \<and> auxiliary_columns p = map snd (auxiliary_decls decls) \<and>
    metadata_columns p = map snd (metadata_decls decls) \<and> (pk_is_text p \<longleftrightarrow> SQLITE_TEXT \<in> snd ` set (primary_decls decls)) \<and>
    table_chunk_size p = (if chunk_size_decls decls = [] then 1024 else last (chunk_size_decls decls))"
proof -
  define d where "d = fold declare_column decls no_definitions"
  note all = declare_all [of decls no_definitions, folded d_def]
  have "vec0Connect A same db schema table args = Some (Inr (table_of d), db)"
    unfolding d_def by (rule connect_declared(1) [OF assms(1,2,4-7,3)])
  moreover have "columns_ok (table_of d)" using connect_declared(2) [OF assms(1,2,4-7,3)] by (simp add: d_def definitions_ok_def)
  moreover have "pk_is_text (table_of d) \<longleftrightarrow> SQLITE_TEXT \<in> snd ` set (primary_decls decls)"
    using assms(2) all(6) by (cases "primary_decls decls") (auto simp: table_of_def no_definitions_def declarations_ok_def)
  moreover have "table_chunk_size (table_of d) = (if chunk_size_decls decls = [] then 1024 else last (chunk_size_decls decls))"
    using all(7) by (simp add: table_of_def no_definitions_def)
  ultimately show ?thesis using all(1-5) by (intro exI [of _ "table_of d"]) (simp add: no_definitions_def)
qed

text \<open>The table that frigg makes for vectors of three dimensions.\<close>

definition frigg_table :: "table_declaration list" where
  "frigg_table =
     [Vector_decl ''embedding'' \<lparr>col_dimensions = 3, col_element_type = FLOAT32, col_metric = METRIC_COSINE\<rparr>,
      Partition_decl ''repository_id'' Text_type, Partition_decl ''provider'' Text_type, Partition_decl ''model'' Text_type,
      Metadata_decl ''language'' KIND_TEXT, Auxiliary_decl ''chunk_id'' Aux_text]"

lemma frigg_texts: "map declaration_text frigg_table =
    [''embedding float[3] distance_metric=cosine'', ''repository_id text partition key'', ''provider text partition key'',
     ''model text partition key'', ''language text'', ''+chunk_id text'']"
  by code_simp

text \<open>A table in the shortest words.\<close>

definition short_table :: "table_declaration list" where
  "short_table =
     [Vector_decl ''foo'' \<lparr>col_dimensions = 1024, col_element_type = FLOAT32, col_metric = METRIC_L2\<rparr>,
      Primary_decl ''id'' Integer_type, Metadata_decl ''read'' KIND_BOOLEAN, Auxiliary_decl ''size'' Aux_float, Chunk_size_decl 64]"

definition short_texts :: "string list" where
  "short_texts = [''foo f32[1024]'', ''id int primary key'', ''read bool'', ''+size double'', ''chunk_size=64'']"

definition memory_tables :: "string set table_api" where
  "memory_tables = \<lparr>vtab_ok = \<lambda>_. True, copy_ok = \<lambda>_ _. True, declare_text_ok = \<lambda>_. True,
     declare_vtab = \<lambda>_ s. if s = declared_text frigg_table \<or> s = declared_text short_table then SQLITE_OK else SQLITE_ERROR, ddl_text_ok = \<lambda>_. True,
     run_ddl = \<lambda>db s. case s of
         Create_table t _ \<Rightarrow> if shadow_suffix t \<in> db then (False, db) else (True, insert (shadow_suffix t) db)
       | Seed_info \<Rightarrow> (True, db)
       | Drop_table t \<Rightarrow> if shadow_suffix t \<in> db then (True, db - {shadow_suffix t}) else (False, db)\<rparr>"

lemma frigg_table_ok: "declarations_ok frigg_table"
  by (simp add: declarations_ok_def frigg_table_def decls_Cons declaration_ok_def is_identifier_def is_alpha_def is_digit_def
      looks_like_vector_def begins_with_def ascii_lower_def)

lemma short_table_ok: "declarations_ok short_table"
  by (simp add: declarations_ok_def short_table_def decls_Cons declaration_ok_def is_identifier_def is_alpha_def is_digit_def
      looks_like_vector_def begins_with_def ascii_lower_def)

theorem declarations_are_read_back_witness:
  "\<exists>p. vec0Connect memory_tables ascii_same {} ''main'' ''vectors''
      [''foo f32[1024]'', ''id int primary key'', ''read bool'', ''+size double'', ''chunk_size=64''] = Some (Inr p, {}) \<and> columns_ok p \<and>
    vector_columns p = [\<lparr>col_dimensions = 1024, col_element_type = FLOAT32, col_metric = METRIC_L2\<rparr>] \<and>
    metadata_columns p = [KIND_BOOLEAN] \<and> auxiliary_columns p = [SQLITE_FLOAT] \<and> \<not> pk_is_text p \<and> table_chunk_size p = 64"
proof -
  have d: "decimal 1024 = ''1024''" "decimal 64 = ''64''" by code_simp+
  have "written_as short_table short_texts"
    by (simp add: written_as_def short_table_def short_texts_def declaration_texts_def metric_texts_def d)
  from declarations_are_read_back [OF ascii.ascii_compare_axioms short_table_ok this, of memory_tables "{}" "''main''" "''vectors''"]
  show ?thesis unfolding short_texts_def by (auto simp: memory_tables_def short_table_def decls_Cons)
qed

subsection \<open>What is accepted\<close>

text \<open>
  C11: whatever the arguments, a table that the constructor accepts has a valid layout: every column has its kind and a
  number among the columns of its kind, there are between one and sixteen vector columns, each of one to 8192 dimensions,
  at most four partition keys and sixteen auxiliary and metadata columns each, and a chunk holds a positive multiple of
  eight rows, at most 4096.
\<close>

theorem accepted_layout:
  assumes "vec0_init A same db schema table args isCreate = Some (Inr p, db')"
  shows "columns_ok p \<and> vector_columns p \<noteq> [] \<and> length (vector_columns p) \<le> MAX_VECTOR_COLUMNS \<and>
    length (partition_columns p) \<le> MAX_PARTITION_COLUMNS \<and> length (auxiliary_columns p) \<le> MAX_AUXILIARY_COLUMNS \<and>
    length (metadata_columns p) \<le> MAX_METADATA_COLUMNS \<and>
    (\<forall>c \<in> set (vector_columns p). 0 < col_dimensions c \<and> col_dimensions c \<le> MAX_DIMENSIONS \<and>
       (col_element_type c = BIT \<longrightarrow> col_metric c = METRIC_L2)) \<and>
    0 < table_chunk_size p \<and> table_chunk_size p mod 8 = 0 \<and> int (table_chunk_size p) \<le> CHUNK_SIZE_MAX"
proof -
  obtain d where d: "table_arguments same (copy_ok A db) args no_definitions = Some (Inr d)" "vectors d \<noteq> []" "p = table_of d"
    using assms by (auto simp: vec0_init_def Let_def split: if_splits option.splits sum.splits prod.splits)
  have ok: "definitions_ok d" by (rule table_arguments_ok [OF d(1) no_definitions_ok])
  have "0 < table_chunk_size p \<and> table_chunk_size p mod 8 = 0 \<and> int (table_chunk_size p) \<le> CHUNK_SIZE_MAX"
    using ok by (auto simp: definitions_ok_def d(3) table_of_def nat_mod_distrib [symmetric, of _ 8, simplified] zero_less_mult_iff
        elim!: dvdE)
  then show ?thesis using ok d(2,3) by (auto simp: definitions_ok_def)
qed

theorem accepted_layout_witness:
  "\<exists>p. vec0_init memory_tables ascii_same {} ''main'' ''vectors''
      [''embedding float[3] distance_metric=cosine'', ''repository_id text partition key'', ''provider text partition key'',
       ''model text partition key'', ''language text'', ''+chunk_id text''] False = Some (Inr p, {}) \<and>
    vector_columns p \<noteq> [] \<and> table_chunk_size p mod 8 = 0"
proof -
  have "vec0Connect memory_tables ascii_same {} ''main'' ''vectors'' (map declaration_text frigg_table) =
      Some (Inr (table_of (fold declare_column frigg_table no_definitions)), {})"
    by (rule connect_declared(1) [OF ascii.ascii_compare_axioms frigg_table_ok _ _ _ _ written_in_full]) (simp_all add: memory_tables_def)
  then obtain p where p: "vec0_init memory_tables ascii_same {} ''main'' ''vectors'' (map declaration_text frigg_table) False = Some (Inr p, {})"
    by (simp add: vec0Connect_def)
  show ?thesis using p accepted_layout [OF p] unfolding frigg_texts by (intro exI [of _ p]) simp
qed

subsection \<open>Making and dropping the shadow tables\<close>

text \<open>
  What the statements do, as the SQLite documentation says: a table is made when there is none of its name, dropped when
  there is. \<open>tables\<close> are the names of the tables, without the name of the \<^verbatim>\<open>vec0\<close> table in front.
\<close>

locale ddl_store =
  fixes A :: "'db table_api" and tables :: "'db \<Rightarrow> string set"
  assumes create_ok: "fst (run_ddl A db (Create_table t cols)) \<longleftrightarrow> shadow_suffix t \<notin> tables db"
    and create_adds: "shadow_suffix t \<notin> tables db \<Longrightarrow>
      tables (snd (run_ddl A db (Create_table t cols))) = insert (shadow_suffix t) (tables db)"
    and seed_keeps: "tables (snd (run_ddl A db Seed_info)) = tables db"
    and drop_ok: "fst (run_ddl A db (Drop_table t)) \<longleftrightarrow> shadow_suffix t \<in> tables db"
    and drop_removes: "shadow_suffix t \<in> tables db \<Longrightarrow> tables (snd (run_ddl A db (Drop_table t))) = tables db - {shadow_suffix t}"

interpretation memory_ddl: ddl_store memory_tables "\<lambda>db. db"
  by unfold_locales (auto simp: memory_tables_def)

primrec made_by :: "ddl \<Rightarrow> string list" where
  "made_by (Create_table t cols) = [shadow_suffix t]"
| "made_by Seed_info = []"
| "made_by (Drop_table t) = []"

primrec dropped_by :: "ddl \<Rightarrow> string list" where
  "dropped_by (Create_table t cols) = []"
| "dropped_by Seed_info = []"
| "dropped_by (Drop_table t) = [shadow_suffix t]"

definition is_create :: "ddl \<Rightarrow> bool" where
  "is_create s \<longleftrightarrow> (\<forall>t. s \<noteq> Drop_table t)"

context ddl_store
begin

lemma run_creates_ok:
  assumes "run_creates A db ss = (SQLITE_OK, db')" and "\<forall>s \<in> set ss. is_create s"
  shows "distinct (concat (map made_by ss)) \<and> set (concat (map made_by ss)) \<inter> tables db = {} \<and>
    tables db' = tables db \<union> set (concat (map made_by ss))"
  using assms
proof (induction ss arbitrary: db)
  case (Cons s ss)
  define db1 where "db1 = snd (run_ddl A db s)"
  have step: "fst (run_ddl A db s)" "run_creates A db1 ss = (SQLITE_OK, db')"
    using Cons.prems(1) by (auto simp: db1_def Let_def split: if_splits prod.splits)
  have IH: "distinct (concat (map made_by ss)) \<and> set (concat (map made_by ss)) \<inter> tables db1 = {} \<and>
      tables db' = tables db1 \<union> set (concat (map made_by ss))"
    using Cons.IH [OF step(2)] Cons.prems(2) by simp
  show ?case
  proof (cases s)
    case (Create_table t cols)
    then have "shadow_suffix t \<notin> tables db" "tables db1 = insert (shadow_suffix t) (tables db)"
      using step(1) create_ok create_adds by (auto simp: db1_def)
    then show ?thesis using IH Create_table by auto
  next
    case Seed_info
    then show ?thesis using IH seed_keeps by (simp add: db1_def)
  next
    case (Drop_table t)
    then show ?thesis using Cons.prems(2) by (simp add: is_create_def)
  qed
qed simp

lemma run_drops_ok:
  assumes "distinct (map shadow_suffix ts)" and "shadow_suffix ` set ts \<subseteq> tables db"
  shows "\<exists>db'. run_drops A db (map Drop_table ts) = (SQLITE_OK, db') \<and> tables db' = tables db - shadow_suffix ` set ts"
  using assms
proof (induction ts arbitrary: db)
  case (Cons t ts)
  define db1 where "db1 = snd (run_ddl A db (Drop_table t))"
  have t: "fst (run_ddl A db (Drop_table t))" "tables db1 = tables db - {shadow_suffix t}"
    using Cons.prems(2) drop_ok drop_removes by (simp_all add: db1_def)
  have "shadow_suffix t \<notin> shadow_suffix ` set ts" using Cons.prems(1) by simp
  then have "shadow_suffix ` set ts \<subseteq> tables db1" using Cons.prems(2) unfolding t(2) list.set by blast
  then obtain db' where "run_drops A db1 (map Drop_table ts) = (SQLITE_OK, db')" "tables db' = tables db1 - shadow_suffix ` set ts"
    using Cons.IH [of db1] Cons.prems(1) by auto
  then show ?case using t by (intro exI [of _ db']) (auto simp: db1_def case_prod_unfold)
qed simp

end

text \<open>The tables of a \<^verbatim>\<open>vec0\<close> table, in the order they are dropped.\<close>

definition metadata_tables :: "vec0_vtab \<Rightarrow> nat \<Rightarrow> shadow_table list" where
  "metadata_tables p i = Metadata_chunks i # (if metadata_columns p ! i = KIND_TEXT then [Metadata_text i] else [])"

definition shadow_tables :: "vec0_vtab \<Rightarrow> shadow_table list" where
  "shadow_tables p =
     [Chunks, Info, Rowids] @ map Vector_chunks [0..<length (vector_columns p)] @ (if auxiliary_columns p \<noteq> [] then [Auxiliary] else []) @
     concat (map (metadata_tables p) [0..<length (metadata_columns p)])"

lemma drop_statements: "drop_statements p = map Drop_table (shadow_tables p)"
proof -
  have "drop_metadata p i = map Drop_table (metadata_tables p i)" for i by (simp add: drop_metadata_def metadata_tables_def)
  then have "concat (map (drop_metadata p) xs) = map Drop_table (concat (map (metadata_tables p) xs))" for xs by (induction xs) simp_all
  then show ?thesis by (simp add: drop_statements_def shadow_tables_def)
qed

lemma create_statements:
  "\<forall>s \<in> set (create_statements p). is_create s"
  "mset (concat (map made_by (create_statements p))) = mset (map shadow_suffix (shadow_tables p))"
proof -
  show "\<forall>s \<in> set (create_statements p). is_create s"
    by (auto simp: create_statements_def create_metadata_def is_create_def)
  have "concat (map made_by (create_metadata p i)) = map shadow_suffix (metadata_tables p i)" for i
    by (simp add: create_metadata_def metadata_tables_def)
  then have "concat (map made_by (concat (map (create_metadata p) xs))) = map shadow_suffix (concat (map (metadata_tables p) xs))" for xs
    by (induction xs) simp_all
  moreover have "concat (map made_by (map (\<lambda>i. Create_table (Vector_chunks i) cols) xs)) = map shadow_suffix (map Vector_chunks xs)" for cols xs
    by (induction xs) simp_all
  ultimately show "mset (concat (map made_by (create_statements p))) = mset (map shadow_suffix (shadow_tables p))"
    by (simp add: create_statements_def shadow_tables_def del: map_map)
qed

text \<open>
  C10: making a table succeeds only where none of its shadow tables is there, and adds exactly these: one each for the
  version, the chunks and the row ids, one for every vector column, one for the auxiliary columns if there are any, one for
  every metadata column and one more if it holds texts. Dropping the table afterwards succeeds and removes exactly them.
\<close>

theorem destroy_undoes_create:
  assumes "ddl_store A tables" and "vec0Create A same db schema table args = Some (Inr p, db1)" and "tables db2 = tables db1"
  shows "tables db1 = tables db \<union> set (map shadow_suffix (shadow_tables p)) \<and> tables db \<inter> set (map shadow_suffix (shadow_tables p)) = {} \<and>
    (\<exists>db3. vec0Destroy A db2 p = (SQLITE_OK, db3) \<and> tables db3 = tables db)"
proof -
  have run: "run_creates A db (create_statements p) = (SQLITE_OK, db1)"
    using assms(2) by (auto simp: vec0Create_def vec0_init_def Let_def split: if_splits option.splits sum.splits prod.splits)
  note made = ddl_store.run_creates_ok [OF assms(1) run create_statements(1)]
  have set: "set (concat (map made_by (create_statements p))) = set (map shadow_suffix (shadow_tables p))"
    using create_statements(2) [of p] by (metis set_mset_mset)
  have dist: "distinct (map shadow_suffix (shadow_tables p))"
    using made create_statements(2) [of p] by (metis mset_eq_imp_distinct_iff)
  have disjoint: "set (map shadow_suffix (shadow_tables p)) \<inter> tables db = {}" and
    made_tables: "tables db1 = tables db \<union> set (map shadow_suffix (shadow_tables p))"
    using made unfolding set by blast+
  have "\<exists>db3. vec0Destroy A db2 p = (SQLITE_OK, db3) \<and> tables db3 = tables db2 - shadow_suffix ` set (shadow_tables p)"
    unfolding vec0Destroy_def drop_statements using made_tables assms(3) by (intro ddl_store.run_drops_ok [OF assms(1) dist]) simp
  then obtain db3 where db3: "vec0Destroy A db2 p = (SQLITE_OK, db3)" "tables db3 = tables db2 - set (map shadow_suffix (shadow_tables p))"
    by auto
  have "tables db3 = tables db" using disjoint unfolding db3(2) assms(3) made_tables by blast
  then show ?thesis using db3(1) disjoint made_tables by blast
qed

lemma create_after_connect:
  "vec0Connect A same db schema table args = Some (Inr p, db) \<Longrightarrow> vec0Create A same db schema table args =
     Some (let (rc, db') = run_creates A db (create_statements p) in (if rc \<noteq> SQLITE_OK then Inl SQLITE_ERROR else Inr p, db'))"
  by (auto simp: vec0Connect_def vec0Create_def vec0_init_def Let_def split: if_splits option.splits sum.splits)

theorem destroy_undoes_create_witness:
  "\<exists>p db1. vec0Create memory_tables ascii_same {} ''main'' ''vectors''
      [''embedding float[3] distance_metric=cosine'', ''repository_id text partition key'', ''provider text partition key'',
       ''model text partition key'', ''language text'', ''+chunk_id text''] = Some (Inr p, db1) \<and>
    (\<exists>db3. vec0Destroy memory_tables db1 p = (SQLITE_OK, db3) \<and> db3 = {})"
proof -
  define p where "p = table_of (fold declare_column frigg_table no_definitions)"
  have "vec0Connect memory_tables ascii_same {} ''main'' ''vectors'' (map declaration_text frigg_table) = Some (Inr p, {})"
    unfolding p_def by (rule connect_declared(1) [OF ascii.ascii_compare_axioms frigg_table_ok _ _ _ _ written_in_full]) (simp_all add: memory_tables_def)
  note create = create_after_connect [OF this]
  have "fst (run_creates memory_tables {} (create_statements p)) = SQLITE_OK" unfolding p_def by code_simp
  then obtain db1 where c: "vec0Create memory_tables ascii_same {} ''main'' ''vectors'' (map declaration_text frigg_table) = Some (Inr p, db1)"
    using create by (cases "run_creates memory_tables {} (create_statements p)") auto
  have "\<exists>db3. vec0Destroy memory_tables db1 p = (SQLITE_OK, db3) \<and> db3 = {}"
    using destroy_undoes_create [OF memory_ddl.ddl_store_axioms c refl] by (elim conjE)
  then show ?thesis using c unfolding frigg_texts
    by - (rule exI [of _ p], rule exI [of _ db1], rule conjI)
qed

subsection \<open>The names SQLite protects\<close>

lemma lower_two_digits: "i < 100 \<Longrightarrow> map ascii_lower (two_digits i) = two_digits i"
  using digit_char [OF of_digit(2) [of "i div 10"]] digit_char [OF of_digit(2) [of "i mod 10"]]
  by (simp add: two_digits_def ascii_lower_def)

text \<open>
  Of the shadow tables of any table the constructor makes, \<^verbatim>\<open>vec0ShadowName\<close> tells SQLite to protect all but those
  that hold the vectors, which can be written directly like any other table.
\<close>

lemma vector_tables_are_not_protected:
  assumes "vec0_init A same db schema table args isCreate = Some (Inr p, db')" and "t \<in> set (shadow_tables p)"
    and "\<And>a b. same_name a b \<longleftrightarrow> map ascii_lower a = map ascii_lower b"
  shows "vec0ShadowName same_name (shadow_suffix t) = (if t \<in> range Vector_chunks then 0 else 1)"
proof -
  obtain d where d: "table_arguments same (copy_ok A db) args no_definitions = Some (Inr d)" "p = table_of d"
    using assms(1) by (auto simp: vec0_init_def Let_def split: if_splits option.splits sum.splits prod.splits)
  have "definitions_ok d" by (rule table_arguments_ok [OF d(1) no_definitions_ok])
  then have "length (vector_columns p) \<le> 16" "length (metadata_columns p) \<le> 16" by (simp_all add: definitions_ok_def d(2))
  then have t: "t \<in> {Chunks, Info, Rowids, Auxiliary} \<or> t \<in> range Vector_chunks \<or> (\<exists>i < 16. t = Metadata_chunks i \<or> t = Metadata_text i)"
    using assms(2) by (auto simp: shadow_tables_def metadata_tables_def split: if_splits)
  have "list_ex (\<lambda>n. map ascii_lower (shadow_suffix t) = map ascii_lower n) shadow_names \<longleftrightarrow> t \<notin> range Vector_chunks"
    using t
  proof (elim disjE)
    assume "t \<in> range Vector_chunks"
    then show ?thesis by (auto simp: shadow_names_def shadow_suffix_def list_ex_iff lower_simps)
  qed (auto simp: shadow_names_def shadow_suffix_def list_ex_iff)
  moreover have "same_name (shadow_suffix t) = (\<lambda>n. map ascii_lower (shadow_suffix t) = map ascii_lower n)" using assms(3) by blast
  ultimately show ?thesis by (simp add: vec0ShadowName_def)
qed

lemma vector_tables_are_not_protected_witness:
  "vec0ShadowName (\<lambda>a b. map ascii_lower a = map ascii_lower b) ''vector_chunks00'' = 0 \<and>
   vec0ShadowName (\<lambda>a b. map ascii_lower a = map ascii_lower b) ''metadatachunks00'' = 1"
proof -
  define p where "p = table_of (fold declare_column frigg_table no_definitions)"
  have "vec0Connect memory_tables ascii_same {} ''main'' ''vectors'' (map declaration_text frigg_table) = Some (Inr p, {})"
    unfolding p_def by (rule connect_declared(1) [OF ascii.ascii_compare_axioms frigg_table_ok _ _ _ _ written_in_full]) (simp_all add: memory_tables_def)
  then have init: "vec0_init memory_tables ascii_same {} ''main'' ''vectors'' (map declaration_text frigg_table) False = Some (Inr p, {})"
    by (simp add: vec0Connect_def)
  have t: "Vector_chunks 0 \<in> set (shadow_tables p)" "Metadata_chunks 0 \<in> set (shadow_tables p)"
    by (simp_all add: p_def shadow_tables_def metadata_tables_def frigg_table_def declare_column_def add_user_column_def no_definitions_def)
  have n: "shadow_suffix (Vector_chunks 0) = ''vector_chunks00''" "shadow_suffix (Metadata_chunks 0) = ''metadatachunks00''" by code_simp+
  show ?thesis
    using vector_tables_are_not_protected [OF init t(1), of "\<lambda>a b. map ascii_lower a = map ascii_lower b"]
      vector_tables_are_not_protected [OF init t(2), of "\<lambda>a b. map ascii_lower a = map ascii_lower b"]
    unfolding n by auto
qed

subsection \<open>Names and words that are misread\<close>

text \<open>
  C38: a definition that begins with a quoted name is undefined behaviour: the first parser finds no token and
  tests the type of one that was never set. (Stated for the first column definition.)
\<close>

theorem quoted_name_reads_unset_token:
  assumes "vtab_ok A db" and "q0 \<in> {CHR 0x22, CHR 0x27, CHR 0x60}"
  shows "vec0_init A same db schema table ((q0 # name) # args) isCreate = None"
proof -
  have "\<not> is_whitespace q0" "q0 \<notin> {CHR ''+'', CHR ''['', CHR '']'', CHR ''=''}" "\<not> is_alpha q0" "\<not> is_digit q0"
    using assms(2) by (auto simp: is_whitespace_def is_alpha_def is_digit_def)
  then have "vec0_token_next (q0 # name) = Token_ERROR" by (simp add: vec0_token_next.simps(2))
  then have "expect_and types e \<lparr>scan_from = q0 # name, last_token = None\<rparr> = None" for types e
    by (simp add: expect_and_def vec0_scanner_next_def)
  then show ?thesis using assms(1)
    by (simp add: vec0_init_def table_argument_def or_else_def vector_argument_def vec0_parse_vector_column_def)
qed

theorem quoted_name_reads_unset_token_witness:
  "vec0_init memory_tables ascii_same {} ''main'' ''vectors'' [CHR 0x22 # ''embedding'' @ CHR 0x22 # '' float[3]''] True = None"
  using quoted_name_reads_unset_token [of memory_tables "{}" "CHR 0x22" ascii_same "''main''" "''vectors''"
    "''embedding'' @ CHR 0x22 # '' float[3]''" "[]" True]
  by (simp add: memory_tables_def)

text \<open>A word after the type that is neither \<^verbatim>\<open>partition\<close> nor \<^verbatim>\<open>primary\<close>, nor an abbreviation of it.\<close>

definition no_key_word :: "string \<Rightarrow> bool" where
  "no_key_word v \<longleftrightarrow> is_identifier v \<and> (\<forall>word \<in> {''partition'', ''primary''}. map ascii_lower v \<noteq> map ascii_lower (take (length v) word))"

context ascii_compare
begin

lemma read_misspelt:
  assumes "is_identifier w" and "no_key_word v" and "word_ends rest"
  shows "vec0_parse_vector_column same ok (w @ '' '' @ key_word t @ '' '' @ v @ rest) = Some (Inl SQLITE_EMPTY)"
    and "vec0_parse_partition_key_definition same (w @ '' '' @ key_word t @ '' '' @ v @ rest) = Some (Inl SQLITE_EMPTY)"
    and "vec0_parse_primary_key_definition same (w @ '' '' @ key_word t @ '' '' @ v @ rest) = Some (Inl SQLITE_EMPTY)"
    and "vec0_parse_auxiliary_column_definition same (w @ '' '' @ key_word t @ '' '' @ v @ rest) = Some (Inl SQLITE_EMPTY)"
    and "vec0_parse_metadata_column_definition same (w @ '' '' @ key_word t @ '' '' @ v @ rest) =
      Some (Inr (w, case t of Text_type \<Rightarrow> KIND_TEXT | Integer_type \<Rightarrow> KIND_INTEGER))"
proof -
  have v: "vec0_token_next (v @ rest) = Token_SOME (word_token v rest)" using token_word assms(2,3) by (simp add: no_key_word_def)
  have n: "\<not> token_is same (word_token v rest) ''partition''" "\<not> token_is same (word_token v rest) ''primary''"
    using assms(2) by (simp_all add: no_key_word_def token_same)
  have m: "metadata_type same (word_token (key_word t) r) = Some (case t of Text_type \<Rightarrow> KIND_TEXT | Integer_type \<Rightarrow> KIND_INTEGER)" for r
    using metadata_types [of KIND_TEXT r] metadata_types [of KIND_INTEGER r] by (cases t) simp_all
  show "vec0_parse_vector_column same ok (w @ '' '' @ key_word t @ '' '' @ v @ rest) = Some (Inl SQLITE_EMPTY)"
    "vec0_parse_partition_key_definition same (w @ '' '' @ key_word t @ '' '' @ v @ rest) = Some (Inl SQLITE_EMPTY)"
    "vec0_parse_primary_key_definition same (w @ '' '' @ key_word t @ '' '' @ v @ rest) = Some (Inl SQLITE_EMPTY)"
    "vec0_parse_auxiliary_column_definition same (w @ '' '' @ key_word t @ '' '' @ v @ rest) = Some (Inl SQLITE_EMPTY)"
    "vec0_parse_metadata_column_definition same (w @ '' '' @ key_word t @ '' '' @ v @ rest) =
      Some (Inr (w, case t of Text_type \<Rightarrow> KIND_TEXT | Integer_type \<Rightarrow> KIND_INTEGER))"
    using assms(1) v n m by (cases t; simp add: parsers token_word)+
qed

text \<open>An auxiliary column whose name begins like an element type: its name passes for the type, its type for the bracket.\<close>

lemma begins_like:
  assumes "begins_with w start"
  shows "same (w @ r) start (length start)"
proof -
  have "length (map ascii_lower (take (length start) w)) = length (map ascii_lower start)"
    using assms by (simp only: begins_with_def)
  then have "length start \<le> length w" by simp
  then show ?thesis using assms by (simp add: same begins_with_def)
qed

lemma read_confusing_auxiliary:
  assumes "is_identifier w" and "looks_like_vector w"
  shows "vec0_parse_vector_column same ok (declaration_text (Auxiliary_decl w t)) = Some (Inl SQLITE_ERROR)"
proof -
  have "\<exists>start \<in> {''float'', ''f32'', ''int8'', ''i8'', ''bit''}. same (w @ CHR '' '' # auxiliary_word t) start (length start)"
    using assms(2) begins_like [of w] by (auto simp: looks_like_vector_def simp del: list.size)
  then have "vector_element_type_of same (word_token w (CHR '' '' # auxiliary_word t)) \<noteq> None"
    by (auto simp: vector_element_type_of_def numeral_eq_Suc)
  then obtain e where "vector_element_type_of same (word_token w (CHR '' '' # auxiliary_word t)) = Some e" by blast
  then show ?thesis using assms(1)
    by (cases t; simp add: declaration_text_def parsers token_word token_end_def)
qed

end

text \<open>
  C39: a partition key or primary key whose keyword is misspelt is not refused. The definition is taken for a metadata column
  of its name and type, and all that follows the type is ignored.
\<close>

theorem misspelt_key_becomes_metadata:
  assumes "ascii_compare same" and "is_identifier w" and "no_key_word v" and "word_ends rest" and "name_ok w"
    and "length (metadatas d) < MAX_METADATA_COLUMNS"
  shows "table_argument same name_ok (w @ '' '' @ key_word t @ '' '' @ v @ rest) d =
    Some (Inr (Some (declare_column (Metadata_decl w (case t of Text_type \<Rightarrow> KIND_TEXT | Integer_type \<Rightarrow> KIND_INTEGER)) d)))"
  using ascii_compare.read_misspelt [OF assms(1-4), where t = t] assms(5,6)
  by (simp add: table_argument_def or_else_def vector_argument_def partition_argument_def primary_argument_def auxiliary_argument_def
      metadata_argument_def declare_column_def)

theorem misspelt_key_becomes_metadata_witness:
  "table_argument ascii_same (\<lambda>_. True) ''user_id text partitoin key'' no_definitions =
     Some (Inr (Some (declare_column (Metadata_decl ''user_id'' KIND_TEXT) no_definitions)))"
proof -
  have "no_key_word ''partitoin''" "is_identifier ''user_id''" "word_ends '' key''"
    by (simp_all add: no_key_word_def is_identifier_def is_alpha_def is_digit_def ascii_lower_def)
  then show ?thesis
    using misspelt_key_becomes_metadata [OF ascii.ascii_compare_axioms, of "''user_id''" "''partitoin''" "'' key''" "\<lambda>_. True" no_definitions Text_type]
    by (simp add: no_definitions_def)
qed

text \<open>
  C40: an auxiliary column whose name begins with \<^verbatim>\<open>float\<close>, \<^verbatim>\<open>f32\<close>, \<^verbatim>\<open>int8\<close>, \<^verbatim>\<open>i8\<close> or \<^verbatim>\<open>bit\<close>, in any case, cannot be declared,
  whatever its type: the definition is refused as a vector column that is malformed.
\<close>

theorem auxiliary_name_refused:
  assumes "ascii_compare same" and "is_identifier w" and "looks_like_vector w" and "vtab_ok A db"
    and "all_fit decls no_definitions" and "\<And>w. copy_ok A db w"
  shows "vec0_init A same db schema table (map declaration_text decls @ declaration_text (Auxiliary_decl w t) # args) isCreate =
    Some (Inl SQLITE_ERROR, db)"
proof -
  have run: "table_arguments same ok (map declaration_text decls @ rest) d = table_arguments same ok rest (fold declare_column decls d)"
    if "all_fit decls d" "\<And>w. ok w" for ok rest d
    using that(1)
  proof (induction decls arbitrary: d)
    case (Cons decl decls)
    then show ?case using ascii_compare.read_declaration [OF assms(1) _ _ that(2) declaration_text_among, of decl d] by simp
  qed simp
  show ?thesis using ascii_compare.read_confusing_auxiliary [OF assms(1-3)] assms(4) run [OF assms(5,6)]
    by (simp add: vec0_init_def table_argument_def or_else_def vector_argument_def)
qed

theorem auxiliary_name_refused_witness:
  "vec0_init memory_tables ascii_same {} ''main'' ''songs'' [''embedding float[3] distance_metric=l2'', ''+bitrate integer''] True =
     Some (Inl SQLITE_ERROR, {})"
proof -
  define v where "v = Vector_decl ''embedding'' \<lparr>col_dimensions = 3, col_element_type = FLOAT32, col_metric = METRIC_L2\<rparr>"
  have t: "declaration_text v = ''embedding float[3] distance_metric=l2''" "declaration_text (Auxiliary_decl ''bitrate'' Aux_integer) = ''+bitrate integer''"
    unfolding v_def by code_simp+
  have b: "is_identifier ''bitrate''" "looks_like_vector ''bitrate''" "all_fit [v] no_definitions"
    by (simp_all add: v_def is_identifier_def is_alpha_def is_digit_def looks_like_vector_def begins_with_def ascii_lower_def
        declaration_ok_def room_for_def no_definitions_def)
  show ?thesis
    using auxiliary_name_refused [OF ascii.ascii_compare_axioms b(1,2) _ b(3), of memory_tables "{}" "''main''" "''songs''" Aux_integer "[]" True]
    by (simp add: t memory_tables_def)
qed

end
