(* ===== verification/Spec2Isabelle.thy ===== *)
theory Spec2Isabelle
  imports KotlinScanner RocScanner BladeScanner NimProperties VecQueryProperties VecCreateProperties
begin

text \<open>
  \<^bold>\<open>frigg.\<close> frigg is a code-search server. Its own logic is Rust; the C code it compiles in (\<^verbatim>\<open>crates/cli/build.rs\<close>) is what
  this development models. It has two parts, which do not call each other:

  \<^item> the external scanners of four tree-sitter grammars (\<^verbatim>\<open>crates/cli/vendor-grammars\<close>): Kotlin, Roc, Blade and Nim. The
    tree-sitter runtime, which is not in the repository, calls \<^verbatim>\<open>scan\<close> where the generated lexer cannot decide by itself,
    \<^verbatim>\<open>serialize\<close> after a token and \<^verbatim>\<open>deserialize\<close> before it parses again from there. A scanner reads characters through the
    \<^verbatim>\<open>TSLexer\<close> it is handed, keeps a small state (open strings, indentations, open elements, layouts) and says which token
    it found;
  \<^item> sqlite-vec (\<^verbatim>\<open>crates/cli/vendor-sqlite-vec/sqlite-vec.c\<close>), the virtual table \<^verbatim>\<open>vec0\<close> in which frigg keeps embeddings. SQLite
    calls its methods. A table is a set of chunks, each with a validity bitmap, the row ids and the vectors of its rows in
    blobs, and shadow tables that say where a row is.

  \<^bold>\<open>Theories.\<close>

  \<^item> \<open>Prelude\<close>: characters, bytes, wrapping integers, named collections of simplification rules.
  \<^item> \<open>TsLexer\<close>: \<^verbatim>\<open>TSLexer\<close> (\<^verbatim>\<open>tree_sitter/parser.h\<close>) over the text that is left, with the mark and the token found.
    \<open>TsArray\<close>: the growable arrays of \<^verbatim>\<open>tree_sitter/array.h\<close>, whose header every grammar has a copy of, on memory that may be
    refused. \<open>ScannerContract\<close>: the locale \<open>external_scanner\<close>, what the runtime relies on when it saves and restores a
    scanner, interpreted by the Kotlin, Roc and Blade scanners.
  \<^item> \<open>KotlinScanner\<close> (\<^verbatim>\<open>tree-sitter-kotlin/src/scanner.c\<close>): the stack of string delimiters, strings, nested comments,
    automatic semicolons and the other tokens.
  \<^item> \<open>RocScanner\<close> (\<^verbatim>\<open>tree-sitter-roc/src/scanner.c\<close>): the indentation stack, layout tokens and multi-line strings.
  \<^item> \<open>BladeTag\<close>, \<open>BladeScanner\<close> (\<^verbatim>\<open>tree-sitter-blade/src/tag.h\<close>, \<^verbatim>\<open>scanner.c\<close>): HTML elements, the stack of open ones,
    implicit end tags, raw text and comments.
  \<^item> \<open>NimScanner\<close>, \<open>NimProperties\<close> (\<^verbatim>\<open>tree-sitter-nim/src/scanner.c\<close>): the layout stack, comments, string content and
    operators, and what a scan does to the layouts.
  \<^item> \<open>VecBitmap\<close>, \<open>VecDistance\<close>, \<open>VecSelect\<close>: bitmaps, distances and the choice and merging of the nearest rows.
    \<open>VecMetadata\<close>, \<open>VecFilter\<close>: metadata columns, their storage and their constraints. \<open>VecKnn\<close>, \<open>VecNearest\<close>: the search over
    all chunks.
  \<^item> \<open>VecTable\<close>: the columns of a table. \<open>VecRows\<close>: inserting, deleting and updating rows (\<^verbatim>\<open>vec0Update\<close>). \<open>VecRowStore\<close>,
    \<open>VecTableMap\<close>, \<open>VecTableOps\<close>, \<open>VecSearch\<close>, \<open>VecTableProperties\<close>: the invariant of the shadow tables, the map from row ids to
    vectors they stand for, and the operations on that map.
  \<^item> \<open>VecPlan\<close> (\<^verbatim>\<open>vec0BestIndex\<close>), \<open>VecCursor\<close> (\<^verbatim>\<open>vec0Filter\<close>, \<^verbatim>\<open>vec0Next\<close>, \<^verbatim>\<open>vec0Eof\<close>, \<^verbatim>\<open>vec0Rowid\<close>, \<^verbatim>\<open>vec0Column\<close>),
    \<open>VecQuery\<close> and \<open>VecQueryProperties\<close>: a query, from its plan to the last column read from its cursor.
  \<^item> \<open>VecParse\<close> (\<^verbatim>\<open>vec0_token_next\<close>, \<^verbatim>\<open>vec0_parse_...\<close>), \<open>VecCreate\<close> (\<^verbatim>\<open>vec0_init\<close>, \<^verbatim>\<open>vec0Destroy\<close>, \<^verbatim>\<open>vec0ShadowName\<close>),
    \<open>VecDeclarations\<close> and \<open>VecCreateProperties\<close>: the arguments of \<^verbatim>\<open>CREATE VIRTUAL TABLE\<close>, the table they make and its shadow
    tables.

  \<^bold>\<open>How the code is modelled.\<close> A C function is a function of the state it reads and gives the state it changes. The outer
  \<open>None\<close> is what the C standard leaves open: a failed \<^verbatim>\<open>assert\<close>, an access out of bounds, a null pointer; so a theorem that
  says \<open>f x = Some y\<close> also says that nothing of that kind happens. Result codes are the left side of a sum. Integers keep
  their width where it can matter; elsewhere the bound is in the invariant. Loops over the text recurse on the text that
  is left and need no fuel, except where a header of a theory says how much is given and why it is enough.

  Code that is not in the repository is a parameter: memory allocation, the calls of SQLite (\<open>sqlite_api\<close>, \<open>row_api\<close>,
  \<open>query_api\<close>, \<open>table_api\<close>, one field for each call or statement), floating-point arithmetic (\<open>double_api\<close>, \<open>float_api\<close>) and
  the compiler's \<^verbatim>\<open>__builtin_popcountl\<close> (a field of \<open>float_api\<close>; the fallback the file has for some compilers is modelled). What
  SQLite documents of them is assumed in the locales \<open>sqlite_store\<close>, \<open>row_store\<close>, \<open>query_store\<close>, \<open>ddl_store\<close> and \<open>ascii_compare\<close>, which
  are interpreted on a database given as a record, so the assumptions can hold.

  Distances are compared as \<^verbatim>\<open>f32\<close> values are: \<open>f32\<close> (\<open>VecSelect\<close>) is a NaN, with which every comparison is false, or a number,
  and the selection and merging of nearest rows are defined over it. The cosine of a vector of zeros is such a NaN. The
  theorems on searches say for which rows the distances must be numbers; \<open>nan_first_candidate_wins\<close> says what happens
  otherwise. Only \<open>VecDistance\<close> compares with the metrics in exact arithmetic.

  \<^bold>\<open>What is shown.\<close>

  \<^item> Scanners: every scan returns (Kotlin's but for the one push that is aborted on a full stack) and keeps its state well formed
    (Roc's stack is increasing as long as lines stay below 65536 columns, Blade reports one token without naming it); saving and restoring the state is transparent within
    the bounds given, and what is lost beyond them; the tokens given for comments, strings, line ends, tags and raw
    text; the layouts of Nim refine an abstract step; each opened block is closed at most once.
  \<^item> Arrays, bitmaps and distances: the operations are those on lists and sets, and the distances are the metrics.
  \<^item> Table: well-formed shadow tables stay so; insert, delete and update are the operations on the map, a search gives its
    nearest rows, ill-typed rows are refused (a vector of another type behind the 16th column is undefined). Metadata constraints
    select the rows whose column values satisfy them, with the bounds on order constraints of texts that the code has. Inserts, deletes and updates are proved for tables with integer ids and without
    metadata columns; the code for the others is in the model.
  \<^item> Queries: the plan fits the filter; a search with constraints on partition keys shows the nearest of the rows that satisfy
    them, a look-up the row asked for, a scan every row once, all with the values of their own columns. These are tables with integer ids
    and the columns other than metadata columns.
  \<^item> Definition: declarations are read back in every word for a type the documentation has, with the metric given or left out (an
    auxiliary column whose name begins like an element type is refused, contrary to the documentation), an accepted table has the valid layout that the other theorems start from (apart
    from bit vectors that do not fill whole bytes, which the constructor lets through), dropping a table undoes making it.
  \<^item> Errors: where the code does something else than it means to, a theorem states what happens; these are the findings of
    the manifest.

  \<^bold>\<open>Not modelled.\<close> The Rust code; the generated parse tables (\<^verbatim>\<open>parser.c\<close>); the headers of SQLite; the SQL functions of
  sqlite-vec on single vectors and the decoding of vectors from JSON and blobs, which are calls of SQLite around the
  distances (a decoded vector is a parameter); \<^verbatim>\<open>vec_each\<close>, the numpy reader and static blobs, which frigg does not register or
  use; error messages and cost estimates; the NEON and AVX variants of the distances, which the build leaves out.
\<close>

end
